(* ===== verification/Prelude.thy ===== *)
theory Prelude
  imports Main "HOL-Library.Word" "HOL-Library.AList"
begin

text \<open>
  Shared vocabulary of the development: bytes and identifiers, the wrap-around of the machine
  integers the code uses, the error type of \<^verbatim>\<open>src/src/error.rs\<close>, the results of fallible operations
  and the state passing that threads them, hash maps as association lists, and the lemma
  collections that the component theories extend.
\<close>

section \<open>Collections\<close>

named_theorems arith_defs \<open>definitions of the machine arithmetic\<close>
named_theorems monad_simps \<open>symbolic execution of the result monad\<close>
named_theorems exec_defs \<open>definitions unfolded to evaluate the model on concrete states\<close>
named_theorems inv_intros \<open>preservation of the invariants of the components\<close>

section \<open>Bytes, identifiers and machine integers\<close>

text \<open>
  A \<^verbatim>\<open>Vec<u8>\<close> is a list of bytes.  A \<^verbatim>\<open>Uuid\<close> is a 128-bit value and a \<^verbatim>\<open>UniqueId\<close> a \<^verbatim>\<open>u64\<close>.
  Sizes and positions (\<^verbatim>\<open>u64\<close>, \<^verbatim>\<open>usize\<close>, \<^verbatim>\<open>u32\<close>) are natural numbers whose additions are reduced
  modulo the width where the code's addition is an addition of machine integers; the conversions
  between \<^verbatim>\<open>u64\<close> and \<^verbatim>\<open>i64\<close> are the two's complement reinterpretations of the \<^verbatim>\<open>as\<close> casts.
  Overflow follows the release profile of the compiler, which wraps.
\<close>

type_synonym byte = "8 word"
type_synonym bytes = "byte list"
type_synonym uuid = "128 word"
type_synonym u64 = "64 word"

definition add64 :: "nat \<Rightarrow> nat \<Rightarrow> nat" where
  "add64 a b = (a + b) mod 2 ^ 64"

definition add32 :: "nat \<Rightarrow> nat \<Rightarrow> nat" where
  "add32 a b = (a + b) mod 2 ^ 32"

definition as_u32 :: "nat \<Rightarrow> nat" where
  "as_u32 n = n mod 2 ^ 32"

definition as_u64 :: "int \<Rightarrow> nat" where
  "as_u64 i = nat (i mod 2 ^ 64)"

definition wrap_i64 :: "int \<Rightarrow> int" where
  "wrap_i64 i = (i + 2 ^ 63) mod 2 ^ 64 - 2 ^ 63"

definition as_i64 :: "nat \<Rightarrow> int" where
  "as_i64 n = wrap_i64 (int n)"

declare add64_def [arith_defs] add32_def [arith_defs] as_u32_def [arith_defs]
  as_u64_def [arith_defs] wrap_i64_def [arith_defs] as_i64_def [arith_defs]

lemma add64_exact: "a + b < 2 ^ 64 \<Longrightarrow> add64 a b = a + b"
  by (simp add: add64_def)

lemma add32_exact: "a + b < 2 ^ 32 \<Longrightarrow> add32 a b = a + b"
  by (simp add: add32_def)

lemma as_u32_exact: "n < 2 ^ 32 \<Longrightarrow> as_u32 n = n"
  by (simp add: as_u32_def)

lemma add64_less [simp]: "add64 a b < 2 ^ 64"
  by (simp add: add64_def)

lemma wrap_i64_exact: "- (2 ^ 63) \<le> i \<Longrightarrow> i < 2 ^ 63 \<Longrightarrow> wrap_i64 i = i"
  by (simp add: wrap_i64_def)

lemma as_i64_exact: "n < 2 ^ 63 \<Longrightarrow> as_i64 n = int n"
  by (simp add: as_i64_def wrap_i64_def)

lemma as_u64_exact: "0 \<le> i \<Longrightarrow> i < 2 ^ 64 \<Longrightarrow> as_u64 i = nat i"
  by (simp add: as_u64_def)

lemma word_inc_nowrap:
  fixes x :: "'a::len word"
  assumes "x \<noteq> - 1"
  shows "unat (x + 1) = Suc (unat x)" "x < x + 1" "z \<le> x + 1 \<longleftrightarrow> z \<le> x \<or> z = x + 1"
proof -
  have "x + 1 \<noteq> 0" using assms by (metis add_eq_0_iff add.inverse_inverse add.commute)
  then show u: "unat (x + 1) = Suc (unat x)" using unatSuc [of x] by (simp add: add.commute)
  then show "x < x + 1" by (simp add: word_less_nat_alt)
  show "z \<le> x + 1 \<longleftrightarrow> z \<le> x \<or> z = x + 1"
    using u by (auto simp: word_le_nat_alt le_Suc_eq word_unat_eq_iff)
qed

lemma word_less_not_max: "(x :: 'a::len word) < y \<Longrightarrow> x \<noteq> - 1"
  by (metis word_n1_ge leD)

section \<open>Errors\<close>

text \<open>
  The error type of the crate.  \<^verbatim>\<open>io::Error\<close> carries a kind and an optional payload, which can be a
  crate error, or the number of an error of the operating system; \<^verbatim>\<open>anyhow::Error\<close>, the opaque error of a
  data store, is a string.
\<close>

datatype io_kind =
    NotFoundKind | PermissionDenied | ConnectionRefused | ConnectionReset | ConnectionAborted | NotConnected
  | AddrInUse | AddrNotAvailable | BrokenPipe | AlreadyExistsKind | WouldBlock | InvalidInput | InvalidDataKind
  | TimedOut | WriteZero | Interrupted | Unsupported | UnexpectedEof | OtherKind

datatype error =
    AlreadyExists | NotFound | Password | Locked | Corrupt | UnsupportedStore | UnsupportedRepo
  | InvalidSavepoint | InvalidObject | TransactionInProgress | FileTypeError | InvalidPath
  | NotEmpty | NotDirectory | NotFile | SerializeError | DeserializeError | InvalidData
  | Io io_error
  | Store string
and io_error = IoError io_kind payload
and payload = NoPayload | OsPayload int | CratePayload error | OtherPayload string

fun io_of_error :: "error \<Rightarrow> io_error" where
  "io_of_error e = IoError OtherKind (CratePayload e)"

fun error_of_io :: "io_error \<Rightarrow> error" where
  "error_of_io (IoError kind (CratePayload e)) = e"
| "error_of_io (IoError kind (OtherPayload m)) = Io (IoError kind (OtherPayload m))"
| "error_of_io (IoError kind (OsPayload errno)) = Io (IoError kind NoPayload)"
| "error_of_io (IoError kind NoPayload) = Io (IoError kind NoPayload)"

text \<open>
  Every operation that goes through \<^verbatim>\<open>Read\<close>, \<^verbatim>\<open>Write\<close> or \<^verbatim>\<open>Seek\<close> converts a crate error to an
  \<^verbatim>\<open>io::Error\<close> and the caller's \<^verbatim>\<open>?\<close> converts it back.  The pair of conversions is the identity, so
  the model of these operations returns the crate error directly.
\<close>

lemma error_of_io_of_error [simp]: "error_of_io (io_of_error e) = e"
  by simp

section \<open>Results and state passing\<close>

text \<open>
  An operation returns \<open>Ok\<close>, an \<open>Err\<close> of the crate, panics with a message, or does not return
  (\<open>Diverge\<close>: a loop of the code that never ends).  State changes made before an error persist, as
  they do in the code.
\<close>

datatype 'a result = Ok 'a | Err error | Panic string | Diverge

type_synonym ('s, 'a) op = "'s \<Rightarrow> 'a result \<times> 's"

definition ret :: "'a \<Rightarrow> ('s, 'a) op" where
  "ret a s = (Ok a, s)"

definition throw :: "error \<Rightarrow> ('s, 'a) op" where
  "throw e s = (Err e, s)"

definition panic :: "string \<Rightarrow> ('s, 'a) op" where
  "panic m s = (Panic m, s)"

definition bindR :: "('s, 'a) op \<Rightarrow> ('a \<Rightarrow> ('s, 'b) op) \<Rightarrow> ('s, 'b) op" where
  "bindR m f s = (case m s of
      (Ok a, s') \<Rightarrow> f a s'
    | (Err e, s') \<Rightarrow> (Err e, s')
    | (Panic p, s') \<Rightarrow> (Panic p, s')
    | (Diverge, s') \<Rightarrow> (Diverge, s'))"

definition lift_result :: "'a result \<Rightarrow> ('s, 'a) op" where
  "lift_result r s = (r, s)"

definition gets :: "('s \<Rightarrow> 'a) \<Rightarrow> ('s, 'a) op" where
  "gets f s = (Ok (f s), s)"

definition modify :: "('s \<Rightarrow> 's) \<Rightarrow> ('s, unit) op" where
  "modify f s = (Ok (), f s)"

definition map_err :: "(error \<Rightarrow> error) \<Rightarrow> ('s, 'a) op \<Rightarrow> ('s, 'a) op" where
  "map_err f m s = (case m s of (Err e, s') \<Rightarrow> (Err (f e), s') | r \<Rightarrow> r)"

fun mapM :: "('a \<Rightarrow> ('s, 'b) op) \<Rightarrow> 'a list \<Rightarrow> ('s, 'b list) op" where
  "mapM f [] s = (Ok [], s)"
| "mapM f (x # xs) s = bindR (f x) (\<lambda>y. bindR (mapM f xs) (\<lambda>ys. ret (y # ys))) s"

fun forM :: "'a list \<Rightarrow> ('a \<Rightarrow> ('s, unit) op) \<Rightarrow> ('s, unit) op" where
  "forM [] f s = (Ok (), s)"
| "forM (x # xs) f s = bindR (f x) (\<lambda>_. forM xs f) s"

lemma ret_run [simp, monad_simps]: "ret a s = (Ok a, s)"
  by (simp add: ret_def)

lemma throw_run [simp, monad_simps]: "throw e s = (Err e, s)"
  by (simp add: throw_def)

lemma panic_run [simp, monad_simps]: "panic m s = (Panic m, s)"
  by (simp add: panic_def)

lemma lift_result_run [simp, monad_simps]: "lift_result r s = (r, s)"
  by (simp add: lift_result_def)

lemma gets_run [simp, monad_simps]: "gets f s = (Ok (f s), s)"
  by (simp add: gets_def)

lemma modify_run [simp, monad_simps]: "modify f s = (Ok (), f s)"
  by (simp add: modify_def)

lemma bindR_Ok [monad_simps]: "m s = (Ok a, s') \<Longrightarrow> bindR m f s = f a s'"
  by (simp add: bindR_def)

lemma bindR_Err [monad_simps]: "m s = (Err e, s') \<Longrightarrow> bindR m f s = (Err e, s')"
  by (simp add: bindR_def)

lemma bindR_Panic [monad_simps]: "m s = (Panic p, s') \<Longrightarrow> bindR m f s = (Panic p, s')"
  by (simp add: bindR_def)

lemma bindR_Diverge [monad_simps]: "m s = (Diverge, s') \<Longrightarrow> bindR m f s = (Diverge, s')"
  by (simp add: bindR_def)

lemma bindR_OkE:
  assumes "bindR m f s = (Ok b, t)"
  obtains a s' where "m s = (Ok a, s')" "f a s' = (Ok b, t)"
  using assms by (auto simp: bindR_def split: prod.splits result.splits)

declare bindR_def [exec_defs] map_err_def [exec_defs] mapM.simps [exec_defs] forM.simps [exec_defs]

text \<open>A run that panics, on its own or as the first part of a longer run.\<close>

definition panics :: "('s, 'a) op \<Rightarrow> 's \<Rightarrow> bool" where
  "panics m s \<longleftrightarrow> (case fst (m s) of Panic p \<Rightarrow> True | _ \<Rightarrow> False)"

lemma panics_iff: "panics m s \<longleftrightarrow> (\<exists>p s'. m s = (Panic p, s'))"
  by (cases "m s") (simp add: panics_def split: result.split)

lemma panics_cong: "m s = m' s' \<Longrightarrow> panics m s = panics m' s'"
  by (simp add: panics_def)

lemma panics_bind: "panics m s \<Longrightarrow> panics (bindR m f) s"
  by (auto simp: panics_iff bindR_def)

lemma panics_bind_Ok: "m s = (Ok a, s') \<Longrightarrow> panics (bindR m f) s = panics (f a) s'"
  by (simp add: panics_def bindR_def)

text \<open>
  An operation keeps a property of the state when every run from a state with the property ends
  in a state with the property, whatever the result is.
\<close>

definition keeps :: "('s \<Rightarrow> bool) \<Rightarrow> ('s, 'a) op \<Rightarrow> bool" where
  "keeps P m \<longleftrightarrow> (\<forall>s. P s \<longrightarrow> P (snd (m s)))"

lemma keepsI: "(\<And>s. P s \<Longrightarrow> P (snd (m s))) \<Longrightarrow> keeps P m"
  by (simp add: keeps_def)

lemma keepsD: "keeps P m \<Longrightarrow> P s \<Longrightarrow> m s = (r, s') \<Longrightarrow> P s'"
  by (metis keeps_def snd_conv)

lemma keeps_basic [inv_intros]:
  "keeps P (ret a)" "keeps P (throw e)" "keeps P (panic p)" "keeps P (lift_result r)"
  "keeps P (gets g)"
  by (simp_all add: keeps_def)

lemma keeps_bindR [inv_intros]:
  assumes "keeps P m" and "\<And>a. keeps P (f a)"
  shows "keeps P (bindR m f)"
proof (rule keepsI)
  fix s assume "P s"
  obtain r s' where r: "m s = (r, s')" by fastforce
  with assms(1) \<open>P s\<close> have "P s'" by (blast intro: keepsD)
  with assms(2) r show "P (snd (bindR m f s))"
    by (cases r) (auto simp: bindR_def keeps_def)
qed

lemma keeps_forM [inv_intros]:
  assumes "\<And>x. keeps P (f x)"
  shows "keeps P (forM xs f)"
proof (induction xs)
  case Nil
  then show ?case by (simp add: keeps_def)
next
  case (Cons x xs)
  have "keeps P (bindR (f x) (\<lambda>_. forM xs f))"
    by (intro keeps_bindR assms Cons.IH)
  then show ?case by (simp add: keeps_def)
qed

section \<open>Hash maps\<close>

text \<open>
  A \<^verbatim>\<open>HashMap\<close> is an association list, so that the loops of the code over a map are loops over the
  list: the order of the list stands for the order of the iterator, which no theorem fixes.
\<close>

type_synonym ('k, 'v) hmap = "('k \<times> 'v) list"

abbreviation hget :: "('k, 'v) hmap \<Rightarrow> 'k \<Rightarrow> 'v option" where
  "hget m k \<equiv> map_of m k"

abbreviation hput :: "'k \<Rightarrow> 'v \<Rightarrow> ('k, 'v) hmap \<Rightarrow> ('k, 'v) hmap" where
  "hput k v m \<equiv> AList.update k v m"

abbreviation hdel :: "'k \<Rightarrow> ('k, 'v) hmap \<Rightarrow> ('k, 'v) hmap" where
  "hdel k m \<equiv> AList.delete k m"

abbreviation hkeys :: "('k, 'v) hmap \<Rightarrow> 'k list" where
  "hkeys m \<equiv> map fst m"

definition hvalues :: "('k, 'v) hmap \<Rightarrow> 'v list" where
  "hvalues m = map snd m"

definition hcontains :: "('k, 'v) hmap \<Rightarrow> 'k \<Rightarrow> bool" where
  "hcontains m k = (hget m k \<noteq> None)"

definition hretain :: "('k \<Rightarrow> bool) \<Rightarrow> ('k, 'v) hmap \<Rightarrow> ('k, 'v) hmap" where
  "hretain p m = filter (\<lambda>(k, v). p k) m"

definition hwf :: "('k, 'v) hmap \<Rightarrow> bool" where
  "hwf m = distinct (hkeys m)"

lemma hget_hput [simp]: "hget (hput k v m) = (hget m)(k \<mapsto> v)"
  by (rule update_conv')

lemma hget_hdel [simp]: "hget (hdel k m) = (hget m)(k := None)"
  by (rule delete_conv')

lemma hget_hretain [simp]: "hget (hretain p m) k = (if p k then hget m k else None)"
  by (induction m) (auto simp: hretain_def)

lemma hwf_empty [simp]: "hwf []"
  by (simp add: hwf_def)

lemma hwf_hput [simp]: "hwf m \<Longrightarrow> hwf (hput k v m)"
  by (simp add: hwf_def distinct_update)

lemma hwf_hdel [simp]: "hwf m \<Longrightarrow> hwf (hdel k m)"
  by (simp add: hwf_def distinct_delete)

lemma hwf_hretain [simp]: "hwf m \<Longrightarrow> hwf (hretain p m)"
proof -
  have "hkeys (hretain p m) = filter p (hkeys m)"
    by (induction m) (auto simp: hretain_def)
  then show "hwf m \<Longrightarrow> hwf (hretain p m)"
    by (simp add: hwf_def)
qed

lemma set_hvalues: "hwf m \<Longrightarrow> set (hvalues m) = ran (hget m)"
  by (simp add: hvalues_def hwf_def ran_distinct)

lemma hput_same: "hget m k = Some v \<Longrightarrow> hput k v m = m"
  by (induction m) auto

lemma hget_in_hvalues: "hget m k = Some v \<Longrightarrow> v \<in> set (hvalues m)"
  by (force simp: hvalues_def dest: map_of_SomeD)

section \<open>Lists\<close>

text \<open>Overwriting a byte array at a position, the abstract meaning of a write to an object.\<close>

definition overwrite :: "nat \<Rightarrow> 'a list \<Rightarrow> 'a list \<Rightarrow> 'a list" where
  "overwrite pos d xs = take pos xs @ d @ drop (pos + length d) xs"

lemma length_overwrite: "pos \<le> length xs \<Longrightarrow> length (overwrite pos d xs) = max (length xs) (pos + length d)"
  by (simp add: overwrite_def)

lemma overwrite_overwrite_append:
  "pos \<le> length xs \<Longrightarrow> overwrite (pos + length d) e (overwrite pos d xs) = overwrite pos (d @ e) xs"
  by (simp add: overwrite_def add.commute add.left_commute)

text \<open>A slice \<open>&v[a..b]\<close>, which panics out of range.\<close>

definition slice_of :: "nat \<Rightarrow> nat \<Rightarrow> 'a list \<Rightarrow> 'a list result" where
  "slice_of a b xs = (if a \<le> b \<and> b \<le> length xs then Ok (take (b - a) (drop a xs))
     else Panic ''slice index out of range'')"

declare add64_def [exec_defs] add32_def [exec_defs] as_u32_def [exec_defs] as_u64_def [exec_defs]
  wrap_i64_def [exec_defs] as_i64_def [exec_defs] hvalues_def [exec_defs] hcontains_def [exec_defs]
  hretain_def [exec_defs] slice_of_def [exec_defs]

end
