(* ===== verification/Chunking.thy ===== *)
theory Chunking
  imports Prelude
begin

text \<open>
  Chunking (\<^verbatim>\<open>src/src/repo/common/chunking.rs\<close>): the fixed-size chunker and the incremental chunker
  that partitions the data written to it.  \<^verbatim>\<open>ChunkerImpl\<close> is a trait of the crate \<^verbatim>\<open>cdchunking\<close>: its
  methods are a record of operations, and the promises the incremental chunker relies on are the
  locale \<open>chunker_impl\<close>.
\<close>

section \<open>Chunkers\<close>

record 'c chunker_ops =
  find_boundary :: "bytes \<Rightarrow> 'c \<Rightarrow> nat option \<times> 'c"
  reset :: "'c \<Rightarrow> 'c"

definition sub64 :: "nat \<Rightarrow> nat \<Rightarrow> nat" where
  "sub64 a b = nat ((int a - int b) mod 2 ^ 64)"

lemma sub64_exact: "b \<le> a \<Longrightarrow> a < 2 ^ 64 \<Longrightarrow> sub64 a b = a - b"
  by (simp add: sub64_def nat_diff_distrib)

record fixed_chunker =
  chunk_size :: nat
  bytes_read :: nat

definition fixed_new :: "nat \<Rightarrow> fixed_chunker" where
  "fixed_new n = \<lparr>chunk_size = n, bytes_read = 0\<rparr>"

definition fixed_find_boundary :: "bytes \<Rightarrow> fixed_chunker \<Rightarrow> nat option \<times> fixed_chunker" where
  "fixed_find_boundary data c =
     ((if bytes_read c + length data < chunk_size c then None
       else Some (sub64 (length data) (sub64 (bytes_read c + length data) (chunk_size c)))),
      c\<lparr>bytes_read := bytes_read c + length data\<rparr>)"

definition fixed_reset :: "fixed_chunker \<Rightarrow> fixed_chunker" where
  "fixed_reset c = c\<lparr>bytes_read := 0\<rparr>"

definition fixed_ops :: "fixed_chunker chunker_ops" where
  "fixed_ops = \<lparr>find_boundary = fixed_find_boundary, reset = fixed_reset\<rparr>"

text \<open>The configured method, and the chunker made for it; ZPAQ is a chunker of \<^verbatim>\<open>cdchunking\<close>.\<close>

datatype chunking = Fixed nat | Zpaq nat

datatype 'z chunker = FixedChunker fixed_chunker | ZpaqChunker 'z

record 'z zpaq =
  zpaq_new :: "nat \<Rightarrow> 'z"
  zpaq_ops :: "'z chunker_ops"

definition to_chunker :: "'z zpaq \<Rightarrow> chunking \<Rightarrow> 'z chunker" where
  "to_chunker Z m = (case m of
      Fixed n \<Rightarrow> FixedChunker (fixed_new n)
    | Zpaq b \<Rightarrow> ZpaqChunker (zpaq_new Z b))"

definition chunking_fixed :: chunking where
  "chunking_fixed = Fixed (1024 * 1024)"

definition chunking_zpaq :: chunking where
  "chunking_zpaq = Zpaq 18"

definition dyn_ops :: "'z zpaq \<Rightarrow> 'z chunker chunker_ops" where
  "dyn_ops Z = \<lparr>
     find_boundary = (\<lambda>d c. case c of
         FixedChunker f \<Rightarrow> map_prod (\<lambda>x. x) FixedChunker (find_boundary fixed_ops d f)
       | ZpaqChunker z \<Rightarrow> map_prod (\<lambda>x. x) ZpaqChunker (find_boundary (zpaq_ops Z) d z)),
     reset = (\<lambda>c. case c of
         FixedChunker f \<Rightarrow> FixedChunker (reset fixed_ops f)
       | ZpaqChunker z \<Rightarrow> ZpaqChunker (reset (zpaq_ops Z) z))\<rparr>"

section \<open>The incremental chunker\<close>

record 'c incremental_chunker =
  ic_chunker :: 'c
  ic_buffer :: bytes
  ic_chunks :: "bytes list"

definition ic_new :: "'c \<Rightarrow> 'c incremental_chunker" where
  "ic_new c = \<lparr>ic_chunker = c, ic_buffer = [], ic_chunks = []\<rparr>"

definition ic_take_chunks :: "'c incremental_chunker \<Rightarrow> bytes list \<times> 'c incremental_chunker" where
  "ic_take_chunks ic = (ic_chunks ic, ic\<lparr>ic_chunks := []\<rparr>)"

definition ic_clear :: "'c chunker_ops \<Rightarrow> 'c incremental_chunker \<Rightarrow> 'c incremental_chunker" where
  "ic_clear C ic = \<lparr>ic_chunker = reset C (ic_chunker ic), ic_buffer = [], ic_chunks = []\<rparr>"

definition ic_is_empty :: "'c incremental_chunker \<Rightarrow> bool" where
  "ic_is_empty ic \<longleftrightarrow> ic_buffer ic = [] \<and> ic_chunks ic = []"

definition ic_push :: "'c chunker_ops \<Rightarrow> 'c \<Rightarrow> bytes \<Rightarrow> 'c incremental_chunker \<Rightarrow> 'c incremental_chunker" where
  "ic_push C c d ic =
     \<lparr>ic_chunker = reset C c, ic_buffer = [], ic_chunks = ic_chunks ic @ [ic_buffer ic @ d]\<rparr>"

text \<open>The loop of \<^verbatim>\<open>write\<close>: \<open>None\<close> when it never ends.\<close>

partial_function (option) ic_write_loop ::
  "'c chunker_ops \<Rightarrow> bytes \<Rightarrow> 'c incremental_chunker \<Rightarrow> (unit result \<times> 'c incremental_chunker) option" where
  "ic_write_loop C data ic = (case find_boundary C data (ic_chunker ic) of
      (None, c) \<Rightarrow> Some (Ok (), ic\<lparr>ic_chunker := c, ic_buffer := ic_buffer ic @ data\<rparr>)
    | (Some index, c) \<Rightarrow>
        if length data < index then Some (Panic ''slice index out of range'', ic\<lparr>ic_chunker := c\<rparr>)
        else ic_write_loop C (drop index data) (ic_push C c (take index data) ic))"

definition ic_write :: "'c chunker_ops \<Rightarrow> bytes \<Rightarrow> ('c incremental_chunker, nat) op" where
  "ic_write C buf ic = (case ic_write_loop C buf ic of
      None \<Rightarrow> (Diverge, ic)
    | Some (r, ic') \<Rightarrow> bindR (lift_result r) (\<lambda>_. ret (length buf)) ic')"

text \<open>\<^verbatim>\<open>Write::write_all\<close> calls \<^verbatim>\<open>write\<close> until the buffer is consumed; \<^verbatim>\<open>write\<close> consumes it at once.\<close>

definition ic_write_all :: "'c chunker_ops \<Rightarrow> bytes \<Rightarrow> ('c incremental_chunker, unit) op" where
  "ic_write_all C buf = (if buf = [] then ret () else bindR (ic_write C buf) (\<lambda>_. ret ()))"

definition ic_flush :: "'c chunker_ops \<Rightarrow> 'c incremental_chunker \<Rightarrow> 'c incremental_chunker" where
  "ic_flush C ic =
     (if ic_buffer ic = [] then ic\<lparr>ic_chunker := reset C (ic_chunker ic)\<rparr>
      else \<lparr>ic_chunker = reset C (ic_chunker ic), ic_buffer = [],
            ic_chunks = ic_chunks ic @ [ic_buffer ic]\<rparr>)"

text \<open>All the bytes the chunker holds, in the order they were written.\<close>

definition ic_data :: "'c incremental_chunker \<Rightarrow> bytes" where
  "ic_data ic = concat (ic_chunks ic) @ ic_buffer ic"

text \<open>The invariant of the incremental chunker, for a chunker with invariant \<open>cinv\<close> that has seen \<open>pending\<close> bytes.\<close>

definition ic_ok :: "('c \<Rightarrow> bool) \<Rightarrow> ('c \<Rightarrow> nat) \<Rightarrow> 'c incremental_chunker \<Rightarrow> bool" where
  "ic_ok cinv pending ic \<longleftrightarrow> cinv (ic_chunker ic) \<and> pending (ic_chunker ic) = length (ic_buffer ic) \<and>
     length (ic_buffer ic) < 2 ^ 32 \<and> (\<forall>c \<in> set (ic_chunks ic). length c < 2 ^ 32)"

section \<open>The contract of a chunker\<close>

text \<open>
  \<open>inv\<close> holds between the calls of the loop, \<open>fresh\<close> after a reset, and \<open>pending\<close> counts the bytes
  seen since the last reset.  A boundary lies within the data and makes a chunk whose size is a
  \<^verbatim>\<open>u32\<close>; a fresh chunker never reports the boundary 0, without which the loop could run forever.
\<close>

locale chunker_impl =
  fixes C :: "'c chunker_ops"
    and inv :: "'c \<Rightarrow> bool"
    and fresh :: "'c \<Rightarrow> bool"
    and pending :: "'c \<Rightarrow> nat"
  assumes none_inv: "inv c \<Longrightarrow> length d < 2 ^ 63 \<Longrightarrow> find_boundary C d c = (None, c') \<Longrightarrow>
      inv c' \<and> pending c' = pending c + length d \<and> pending c' < 2 ^ 32"
    and some_bound: "inv c \<Longrightarrow> length d < 2 ^ 63 \<Longrightarrow> find_boundary C d c = (Some i, c') \<Longrightarrow>
      i \<le> length d \<and> pending c + i < 2 ^ 32 \<and> inv (reset C c') \<and> fresh (reset C c')"
    and progress: "inv c \<Longrightarrow> fresh c \<Longrightarrow> length d < 2 ^ 63 \<Longrightarrow>
      find_boundary C d c = (Some i, c') \<Longrightarrow> 0 < i"
    and reset_inv: "inv c \<Longrightarrow> inv (reset C c) \<and> fresh (reset C c)"
    and fresh_pending: "fresh c \<Longrightarrow> pending c = 0"
begin

abbreviation ic_inv :: "'c incremental_chunker \<Rightarrow> bool" where
  "ic_inv \<equiv> ic_ok inv pending"

lemmas ic_inv_def = ic_ok_def [of inv pending]

lemma ic_push_inv:
  assumes "ic_inv ic" "length d < 2 ^ 63" "find_boundary C d (ic_chunker ic) = (Some i, c)"
  shows "ic_inv (ic_push C c (take i d) ic)"
  using some_bound [of "ic_chunker ic" d i c] fresh_pending [of "reset C c"] assms
  by (auto simp: ic_inv_def ic_push_def)

text \<open>The loop ends and keeps every byte in order.\<close>

lemma ic_write_loop_fresh:
  assumes "ic_inv ic" "fresh (ic_chunker ic)" "length d < 2 ^ 63"
  shows "\<exists>ic'. ic_write_loop C d ic = Some (Ok (), ic') \<and> ic_data ic' = ic_data ic @ d \<and> ic_inv ic' \<and>
    length (ic_chunks ic') \<le> length (ic_chunks ic) + length d"
  using assms
proof (induction "length d" arbitrary: d ic rule: less_induct)
  case less
  obtain r c where f: "find_boundary C d (ic_chunker ic) = (r, c)" by fastforce
  show ?case
  proof (cases r)
    case None
    with f less.prems none_inv [of "ic_chunker ic" d c] show ?thesis
      by (subst ic_write_loop.simps) (auto simp: ic_data_def ic_inv_def)
  next
    case (Some i)
    with f less.prems have i: "0 < i" "i \<le> length d" "fresh (reset C c)"
      using progress some_bound by (auto simp: ic_inv_def)
    then have "length (drop i d) < length d" "length (drop i d) < 2 ^ 63"
      using less.prems(3) by auto
    moreover have "ic_inv (ic_push C c (take i d) ic)"
      using ic_push_inv less.prems f Some by simp
    moreover have "fresh (ic_chunker (ic_push C c (take i d) ic))"
      using i by (simp add: ic_push_def)
    ultimately obtain ic' where
      "ic_write_loop C (drop i d) (ic_push C c (take i d) ic) = Some (Ok (), ic')"
      "ic_data ic' = ic_data (ic_push C c (take i d) ic) @ drop i d" "ic_inv ic'"
      "length (ic_chunks ic') \<le> length (ic_chunks (ic_push C c (take i d) ic)) + length (drop i d)"
      using less.hyps [of "drop i d" "ic_push C c (take i d) ic"] by blast
    with f Some i show ?thesis
      by (subst ic_write_loop.simps) (auto simp: ic_data_def ic_push_def)
  qed
qed

lemma ic_write_loop_ok:
  assumes "ic_inv ic" "length d < 2 ^ 63"
  shows "\<exists>ic'. ic_write_loop C d ic = Some (Ok (), ic') \<and> ic_data ic' = ic_data ic @ d \<and> ic_inv ic' \<and>
    length (ic_chunks ic') \<le> length (ic_chunks ic) + length d + 1"
proof -
  obtain r c where f: "find_boundary C d (ic_chunker ic) = (r, c)" by fastforce
  show ?thesis
  proof (cases r)
    case None
    with f assms none_inv [of "ic_chunker ic" d c] show ?thesis
      by (subst ic_write_loop.simps) (auto simp: ic_data_def ic_inv_def)
  next
    case (Some i)
    with f assms have i: "i \<le> length d" "fresh (reset C c)"
      using some_bound by (auto simp: ic_inv_def)
    moreover have "length (drop i d) < 2 ^ 63"
      using assms(2) by simp
    moreover have "ic_inv (ic_push C c (take i d) ic)"
      using ic_push_inv assms f Some by simp
    ultimately obtain ic' where
      "ic_write_loop C (drop i d) (ic_push C c (take i d) ic) = Some (Ok (), ic')"
      "ic_data ic' = ic_data (ic_push C c (take i d) ic) @ drop i d" "ic_inv ic'"
      "length (ic_chunks ic') \<le> length (ic_chunks (ic_push C c (take i d) ic)) + length (drop i d)"
      using ic_write_loop_fresh [of "ic_push C c (take i d) ic" "drop i d"] by (auto simp: ic_push_def)
    with f Some i show ?thesis
      by (subst ic_write_loop.simps) (auto simp: ic_data_def ic_push_def)
  qed
qed

lemma ic_write_ok:
  assumes "ic_inv ic" "length d < 2 ^ 63"
  shows "\<exists>ic'. ic_write C d ic = (Ok (length d), ic') \<and> ic_data ic' = ic_data ic @ d \<and> ic_inv ic' \<and>
    length (ic_chunks ic') \<le> length (ic_chunks ic) + length d + 1"
  using ic_write_loop_ok [OF assms] by (auto simp: ic_write_def bindR_def)

lemma ic_write_all_ok:
  assumes "ic_inv ic" "length d < 2 ^ 63"
  shows "\<exists>ic'. ic_write_all C d ic = (Ok (), ic') \<and> ic_data ic' = ic_data ic @ d \<and> ic_inv ic' \<and>
    length (ic_chunks ic') \<le> length (ic_chunks ic) + length d + 1"
proof (cases "d = []")
  case True
  with assms show ?thesis by (simp add: ic_write_all_def)
next
  case False
  with ic_write_ok [OF assms] show ?thesis by (auto simp: ic_write_all_def bindR_def)
qed

lemma ic_flush_ok:
  assumes "ic_inv ic"
  shows "ic_data (ic_flush C ic) = ic_data ic" "ic_buffer (ic_flush C ic) = []" "ic_inv (ic_flush C ic)"
    "length (ic_chunks (ic_flush C ic)) \<le> length (ic_chunks ic) + 1"
  using assms reset_inv [of "ic_chunker ic"] fresh_pending [of "reset C (ic_chunker ic)"]
  by (auto simp: ic_flush_def ic_data_def ic_inv_def)

lemma ic_take_ok: "ic_inv ic \<Longrightarrow> ic_inv (ic\<lparr>ic_chunks := []\<rparr>)"
  by (simp add: ic_inv_def)

lemma ic_new_ok: "inv c \<Longrightarrow> fresh c \<Longrightarrow> ic_inv (ic_new c)"
  by (simp add: ic_inv_def ic_new_def fresh_pending)

end

section \<open>The fixed-size chunker is a chunker\<close>

definition fixed_inv :: "fixed_chunker \<Rightarrow> bool" where
  "fixed_inv c \<longleftrightarrow> 0 < chunk_size c \<and> chunk_size c < 2 ^ 32 \<and> bytes_read c < chunk_size c"

definition fixed_fresh :: "fixed_chunker \<Rightarrow> bool" where
  "fixed_fresh c \<longleftrightarrow> bytes_read c = 0"

lemma fixed_find_boundary_eq:
  assumes "fixed_inv c" "length d < 2 ^ 63"
  shows "fixed_find_boundary d c =
    ((if bytes_read c + length d < chunk_size c then None else Some (chunk_size c - bytes_read c)),
     c\<lparr>bytes_read := bytes_read c + length d\<rparr>)"
  using assms by (auto simp: fixed_find_boundary_def fixed_inv_def sub64_exact)

interpretation fixed: chunker_impl fixed_ops fixed_inv fixed_fresh bytes_read
proof
  fix c d c'
  assume a: "fixed_inv c" "length d < 2 ^ 63" "find_boundary fixed_ops d c = (None, c')"
  then have c': "c' = c\<lparr>bytes_read := bytes_read c + length d\<rparr>" "bytes_read c + length d < chunk_size c"
    by (auto simp: fixed_ops_def fixed_find_boundary_eq split: if_splits)
  show "fixed_inv c' \<and> bytes_read c' = bytes_read c + length d \<and> bytes_read c' < 2 ^ 32"
    using a(1) c' by (simp add: fixed_inv_def)
next
  fix c d i c'
  assume a: "fixed_inv c" "length d < 2 ^ 63" "find_boundary fixed_ops d c = (Some i, c')"
  then have c': "c' = c\<lparr>bytes_read := bytes_read c + length d\<rparr>" "i = chunk_size c - bytes_read c"
    "\<not> bytes_read c + length d < chunk_size c"
    by (auto simp: fixed_ops_def fixed_find_boundary_eq split: if_splits)
  then show "i \<le> length d \<and> bytes_read c + i < 2 ^ 32 \<and> fixed_inv (reset fixed_ops c') \<and>
      fixed_fresh (reset fixed_ops c')"
    using a(1) by (simp add: fixed_ops_def fixed_reset_def fixed_inv_def fixed_fresh_def)
next
  fix c d i c'
  assume "fixed_inv c" "fixed_fresh c" "length d < 2 ^ 63" "find_boundary fixed_ops d c = (Some i, c')"
  then show "0 < i"
    by (auto simp: fixed_ops_def fixed_find_boundary_eq fixed_inv_def split: if_splits)
next
  fix c
  assume "fixed_inv c"
  then show "fixed_inv (reset fixed_ops c) \<and> fixed_fresh (reset fixed_ops c)"
    by (simp add: fixed_ops_def fixed_reset_def fixed_inv_def fixed_fresh_def)
next
  fix c
  assume "fixed_fresh c"
  then show "bytes_read c = 0" by (simp add: fixed_fresh_def)
qed

text \<open>Dynamic dispatch keeps the contract when the ZPAQ chunker has it.\<close>

definition dyn_inv :: "('z \<Rightarrow> bool) \<Rightarrow> 'z chunker \<Rightarrow> bool" where
  "dyn_inv zinv c = (case c of FixedChunker f \<Rightarrow> fixed_inv f | ZpaqChunker z \<Rightarrow> zinv z)"

definition dyn_fresh :: "('z \<Rightarrow> bool) \<Rightarrow> 'z chunker \<Rightarrow> bool" where
  "dyn_fresh zfresh c = (case c of FixedChunker f \<Rightarrow> fixed_fresh f | ZpaqChunker z \<Rightarrow> zfresh z)"

definition dyn_pending :: "('z \<Rightarrow> nat) \<Rightarrow> 'z chunker \<Rightarrow> nat" where
  "dyn_pending zp c = (case c of FixedChunker f \<Rightarrow> bytes_read f | ZpaqChunker z \<Rightarrow> zp z)"

lemmas dyn_view = dyn_inv_def dyn_fresh_def dyn_pending_def

lemma dyn_find_cases:
  assumes "find_boundary (dyn_ops Z) d c = (r, c')"
  obtains f f' where "c = FixedChunker f" "c' = FixedChunker f'" "find_boundary fixed_ops d f = (r, f')"
  | z z' where "c = ZpaqChunker z" "c' = ZpaqChunker z'" "find_boundary (zpaq_ops Z) d z = (r, z')"
proof (cases c)
  case (FixedChunker f)
  then show ?thesis using assms that(1) by (cases "find_boundary fixed_ops d f") (auto simp: dyn_ops_def)
next
  case (ZpaqChunker z)
  then show ?thesis using assms that(2) by (cases "find_boundary (zpaq_ops Z) d z") (auto simp: dyn_ops_def)
qed

lemma dyn_reset [simp]:
  "reset (dyn_ops Z) (FixedChunker f) = FixedChunker (reset fixed_ops f)"
  "reset (dyn_ops Z) (ZpaqChunker z) = ZpaqChunker (reset (zpaq_ops Z) z)"
  by (simp_all add: dyn_ops_def)

lemma dyn_chunker_impl:
  assumes "chunker_impl (zpaq_ops Z) zinv zfresh zp"
  shows "chunker_impl (dyn_ops Z) (dyn_inv zinv) (dyn_fresh zfresh) (dyn_pending zp)"
proof
  fix c d c'
  assume a: "dyn_inv zinv c" "length d < 2 ^ 63" and f: "find_boundary (dyn_ops Z) d c = (None, c')"
  from f show "dyn_inv zinv c' \<and> dyn_pending zp c' = dyn_pending zp c + length d \<and> dyn_pending zp c' < 2 ^ 32"
  proof (cases rule: dyn_find_cases)
    case (1 f f')
    then show ?thesis using a fixed.none_inv [of f d f'] by (simp add: dyn_view)
  next
    case (2 z z')
    then show ?thesis using a chunker_impl.none_inv [OF assms, of z d z'] by (simp add: dyn_view)
  qed
next
  fix c d i c'
  assume a: "dyn_inv zinv c" "length d < 2 ^ 63" and f: "find_boundary (dyn_ops Z) d c = (Some i, c')"
  from f show "i \<le> length d \<and> dyn_pending zp c + i < 2 ^ 32 \<and> dyn_inv zinv (reset (dyn_ops Z) c') \<and>
      dyn_fresh zfresh (reset (dyn_ops Z) c')"
  proof (cases rule: dyn_find_cases)
    case (1 f f')
    then show ?thesis using a fixed.some_bound [of f d i f'] by (simp add: dyn_view)
  next
    case (2 z z')
    then show ?thesis using a chunker_impl.some_bound [OF assms, of z d i z'] by (simp add: dyn_view)
  qed
next
  fix c d i c'
  assume a: "dyn_inv zinv c" "dyn_fresh zfresh c" "length d < 2 ^ 63"
    and f: "find_boundary (dyn_ops Z) d c = (Some i, c')"
  from f show "0 < i"
  proof (cases rule: dyn_find_cases)
    case (1 f f')
    then show ?thesis using a fixed.progress [of f d i f'] by (simp add: dyn_view)
  next
    case (2 z z')
    then show ?thesis using a chunker_impl.progress [OF assms, of z d i z'] by (simp add: dyn_view)
  qed
next
  fix c
  assume "dyn_inv zinv c"
  then show "dyn_inv zinv (reset (dyn_ops Z) c) \<and> dyn_fresh zfresh (reset (dyn_ops Z) c)"
    using fixed.reset_inv chunker_impl.reset_inv [OF assms] by (cases c) (simp_all add: dyn_view)
next
  fix c
  assume "dyn_fresh zfresh c"
  then show "dyn_pending zp c = 0"
    using fixed.fresh_pending chunker_impl.fresh_pending [OF assms] by (cases c) (simp_all add: dyn_view)
qed

section \<open>What the fixed-size chunker produces\<close>

text \<open>
  The reference: the data cut at the multiples of the chunk size, and the rest.
\<close>

definition cut_chunks :: "nat \<Rightarrow> bytes \<Rightarrow> bytes list" where
  "cut_chunks n d = map (\<lambda>k. take n (drop (k * n) d)) [0..<length d div n]"

definition cut_rest :: "nat \<Rightarrow> bytes \<Rightarrow> bytes" where
  "cut_rest n d = drop (n * (length d div n)) d"

definition ic_write_many :: "'c chunker_ops \<Rightarrow> bytes list \<Rightarrow> ('c incremental_chunker, unit) op" where
  "ic_write_many C bufs = forM bufs (\<lambda>b. bindR (ic_write C b) (\<lambda>_. ret ()))"

definition fixed_full :: "fixed_chunker incremental_chunker \<Rightarrow> bool" where
  "fixed_full ic \<longleftrightarrow> fixed_inv (ic_chunker ic) \<and> bytes_read (ic_chunker ic) = length (ic_buffer ic) \<and>
     (\<forall>c \<in> set (ic_chunks ic). length c = chunk_size (ic_chunker ic))"

lemma fixed_full_inv: "fixed_full ic \<Longrightarrow> fixed.ic_inv ic"
  by (auto simp: fixed_full_def fixed.ic_inv_def fixed_inv_def)

lemma cut_unique:
  assumes "0 < n" "\<forall>c \<in> set cs. length c = n" "length b < n"
  shows "cs = cut_chunks n (concat cs @ b) \<and> b = cut_rest n (concat cs @ b)"
proof -
  have len: "length (concat cs) = n * length cs"
    using assms(2) by (induction cs) auto
  then have q: "(length (concat cs @ b)) div n = length cs"
    using assms(1,3) by simp
  have nth: "take n (drop (k * n) (concat cs @ b)) = cs ! k" if "k < length cs" for k
    using assms(2) that
  proof (induction cs arbitrary: k)
    case (Cons c cs)
    then show ?case by (cases k) auto
  qed simp
  show ?thesis
    using q len nth by (auto simp: cut_chunks_def cut_rest_def intro: nth_equalityI)
qed

lemma fixed_full_find:
  assumes "fixed_full ic" "length d < 2 ^ 63"
  shows "find_boundary fixed_ops d (ic_chunker ic) =
    ((if length (ic_buffer ic) + length d < chunk_size (ic_chunker ic) then None
      else Some (chunk_size (ic_chunker ic) - length (ic_buffer ic))),
     (ic_chunker ic)\<lparr>bytes_read := length (ic_buffer ic) + length d\<rparr>)"
  using assms fixed_find_boundary_eq [of "ic_chunker ic" d]
  by (auto simp: fixed_full_def fixed_ops_def)

lemma fixed_write_loop_full:
  assumes "fixed_full ic" "length d < 2 ^ 63" "ic_write_loop fixed_ops d ic = Some (r, ic')"
  shows "fixed_full ic' \<and> chunk_size (ic_chunker ic') = chunk_size (ic_chunker ic)"
  using assms
proof (induction "length d" arbitrary: d ic rule: less_induct)
  case less
  let ?n = "chunk_size (ic_chunker ic)" and ?b = "length (ic_buffer ic)"
  have b: "?b < ?n" "0 < ?n" using less.prems(1) by (auto simp: fixed_full_def fixed_inv_def)
  show ?case
  proof (cases "?b + length d < ?n")
    case True
    with less.prems fixed_full_find [OF less.prems(1,2)] show ?thesis
      by (subst (asm) ic_write_loop.simps) (auto simp: fixed_full_def fixed_inv_def)
  next
    case False
    let ?i = "?n - ?b" and ?c = "(ic_chunker ic)\<lparr>bytes_read := ?b + length d\<rparr>"
    let ?ic = "ic_push fixed_ops ?c (take ?i d) ic"
    have full: "fixed_full ?ic"
      using less.prems(1) False b
      by (auto simp: fixed_full_def ic_push_def fixed_ops_def fixed_reset_def fixed_inv_def)
    have "ic_write_loop fixed_ops (drop ?i d) ?ic = Some (r, ic')"
      using less.prems(3) False b fixed_full_find [OF less.prems(1,2)]
      by (subst (asm) ic_write_loop.simps) (simp split: if_splits)
    then have "fixed_full ic' \<and> chunk_size (ic_chunker ic') = chunk_size (ic_chunker ?ic)"
      using less.hyps [of "drop ?i d" ?ic] full b less.prems(2) False by simp
    then show ?thesis by (simp add: ic_push_def fixed_ops_def fixed_reset_def)
  qed
qed

lemma fixed_write_full:
  assumes "fixed_full ic" "length d < 2 ^ 63"
  shows "\<exists>ic'. ic_write fixed_ops d ic = (Ok (length d), ic') \<and> fixed_full ic' \<and>
    chunk_size (ic_chunker ic') = chunk_size (ic_chunker ic) \<and> ic_data ic' = ic_data ic @ d"
proof -
  have "fixed.ic_inv ic" using assms(1) by (rule fixed_full_inv)
  with assms obtain ic' where "ic_write_loop fixed_ops d ic = Some (Ok (), ic')"
    "ic_data ic' = ic_data ic @ d"
    using fixed.ic_write_loop_ok by blast
  with fixed_write_loop_full [OF assms] show ?thesis
    by (auto simp: ic_write_def bindR_def)
qed

lemma fixed_write_many_full:
  assumes "fixed_full ic" "\<forall>b \<in> set bufs. length b < 2 ^ 63"
  shows "\<exists>ic'. ic_write_many fixed_ops bufs ic = (Ok (), ic') \<and> fixed_full ic' \<and>
    chunk_size (ic_chunker ic') = chunk_size (ic_chunker ic) \<and> ic_data ic' = ic_data ic @ concat bufs"
  using assms
proof (induction bufs arbitrary: ic)
  case Nil
  then show ?case by (simp add: ic_write_many_def)
next
  case (Cons b bufs)
  then obtain ic1 where ic1: "ic_write fixed_ops b ic = (Ok (length b), ic1)" "fixed_full ic1"
    "chunk_size (ic_chunker ic1) = chunk_size (ic_chunker ic)" "ic_data ic1 = ic_data ic @ b"
    using fixed_write_full by (metis list.set_intros(1))
  with Cons.IH [OF ic1(2)] Cons.prems(2) show ?case
    by (auto simp: ic_write_many_def bindR_def)
qed

text \<open>
  C12: However the data is split into writes, the fixed-size chunker of a positive
  size terminates and cuts it at the multiples of the chunk size: the chunks are the full
  chunks of the concatenated data in order, and the rest stays buffered.
\<close>

theorem fixed_chunker_cuts:
  assumes "0 < n" "n < 2 ^ 32" "\<forall>b \<in> set bufs. length b < 2 ^ 63"
  shows "\<exists>ic. ic_write_many fixed_ops bufs (ic_new (fixed_new n)) = (Ok (), ic) \<and>
    ic_chunks ic = cut_chunks n (concat bufs) \<and> ic_buffer ic = cut_rest n (concat bufs)"
proof -
  let ?ic = "ic_new (fixed_new n)"
  have new: "fixed_full ?ic" "chunk_size (ic_chunker ?ic) = n" "ic_data ?ic = []"
    using assms(1,2) by (auto simp: fixed_full_def fixed_inv_def ic_new_def fixed_new_def ic_data_def)
  obtain ic where ic: "ic_write_many fixed_ops bufs ?ic = (Ok (), ic)" "fixed_full ic"
    "chunk_size (ic_chunker ic) = n" "ic_data ic = concat bufs"
    using fixed_write_many_full [OF new(1) assms(3)] new(2,3) by auto
  have "ic_chunks ic = cut_chunks n (ic_data ic) \<and> ic_buffer ic = cut_rest n (ic_data ic)"
    unfolding ic_data_def using ic(2,3) assms(1)
    by (intro cut_unique) (auto simp: fixed_full_def fixed_inv_def)
  with ic show ?thesis by auto
qed

theorem fixed_chunker_cuts_witness:
  "\<exists>ic. ic_write_many fixed_ops [[1, 2, 3], [4, 5]] (ic_new (fixed_new 2)) = (Ok (), ic) \<and>
    ic_chunks ic = [[1, 2], [3, 4]] \<and> ic_buffer ic = [5]"
  using fixed_chunker_cuts [of 2 "[[1, 2, 3], [4, 5]]"]
  by (simp add: cut_chunks_def cut_rest_def upt_rec)

text \<open>With the size 0 the chunker reports the boundary 0 after every reset.\<close>

definition stuck :: "fixed_chunker incremental_chunker \<Rightarrow> bool" where
  "stuck ic \<longleftrightarrow> chunk_size (ic_chunker ic) = 0 \<and> bytes_read (ic_chunker ic) = 0"

lemma stuck_find:
  assumes "stuck ic"
  shows "find_boundary fixed_ops d (ic_chunker ic) =
    (Some 0, (ic_chunker ic)\<lparr>bytes_read := length d\<rparr>)"
proof -
  have "(int (length d) - int (length d) mod 2 ^ 64) mod 2 ^ 64 = (0 :: int)"
    by (metis minus_mod_eq_mult_div mod_mult_self1_is_0)
  with assms show ?thesis
    by (simp add: stuck_def fixed_ops_def fixed_find_boundary_def sub64_def)
qed

lemma stuck_push: "stuck ic \<Longrightarrow> stuck (ic_push fixed_ops ((ic_chunker ic)\<lparr>bytes_read := k\<rparr>) e ic)"
  by (simp add: stuck_def ic_push_def fixed_ops_def fixed_reset_def)

lemma stuck_loop:
  assumes "ic_write_loop C d ic = Some r"
  shows "\<not> (C = fixed_ops \<and> stuck ic)"
proof (rule ic_write_loop.raw_induct [where P = "\<lambda>C d ic r. \<not> (C = fixed_ops \<and> stuck ic)", OF _ assms])
  fix loop :: "fixed_chunker chunker_ops \<Rightarrow> bytes \<Rightarrow> fixed_chunker incremental_chunker \<Rightarrow>
    (unit result \<times> fixed_chunker incremental_chunker) option"
  fix C d r and ic :: "fixed_chunker incremental_chunker"
  assume IH: "\<And>C d ic r. loop C d ic = Some r \<Longrightarrow> \<not> (C = fixed_ops \<and> stuck ic)"
    and step: "(case find_boundary C d (ic_chunker ic) of
        (None, c) \<Rightarrow> Some (Ok (), ic\<lparr>ic_chunker := c, ic_buffer := ic_buffer ic @ d\<rparr>)
      | (Some index, c) \<Rightarrow>
          if length d < index
          then Some (Panic ''slice index out of range'', ic\<lparr>ic_chunker := c\<rparr>)
          else loop C (drop index d) (ic_push C c (take index d) ic)) = Some r"
  show "\<not> (C = fixed_ops \<and> stuck ic)"
  proof (rule notI, elim conjE)
    assume "C = fixed_ops" "stuck ic"
    with step have "loop fixed_ops d (ic_push fixed_ops ((ic_chunker ic)\<lparr>bytes_read := length d\<rparr>) [] ic) = Some r"
      by (simp add: stuck_find)
    from IH [OF this] stuck_push [OF \<open>stuck ic\<close>] show False by simp
  qed
qed

text \<open>
  C15: With the chunk size 0, which \<^verbatim>\<open>Chunking::Fixed { size: 0 }\<close> accepts, a write never returns: the
  chunker reports the boundary 0 forever, whatever the data is.
\<close>

theorem zero_chunk_size_diverges:
  "fst (ic_write fixed_ops d (ic_new (fixed_new 0))) = Diverge"
proof -
  have "stuck (ic_new (fixed_new 0))"
    by (simp add: stuck_def ic_new_def fixed_new_def)
  then have "ic_write_loop fixed_ops d (ic_new (fixed_new 0)) = None"
    using stuck_loop by (metis not_Some_eq)
  then show ?thesis by (simp add: ic_write_def)
qed

section \<open>Evaluation\<close>

declare sub64_def [exec_defs]
  fixed_new_def [exec_defs]
  fixed_find_boundary_def [exec_defs]
  fixed_reset_def [exec_defs]
  fixed_ops_def [exec_defs]
  to_chunker_def [exec_defs]
  chunking_fixed_def [exec_defs]
  chunking_zpaq_def [exec_defs]
  dyn_ops_def [exec_defs]
  ic_new_def [exec_defs]
  ic_take_chunks_def [exec_defs]
  ic_clear_def [exec_defs]
  ic_is_empty_def [exec_defs]
  ic_push_def [exec_defs]
  ic_write_loop.simps [exec_defs]
  ic_write_def [exec_defs]
  ic_write_all_def [exec_defs]
  ic_flush_def [exec_defs]

end
