(* ===== verification/Codec.thy ===== *)
theory Codec
  imports Chunking
begin

text \<open>
  The configuration of a repository and the encoding of its blocks: \<^verbatim>\<open>config.rs\<close>, \<^verbatim>\<open>packing.rs\<close>,
  \<^verbatim>\<open>compression.rs\<close> and \<^verbatim>\<open>encryption.rs\<close> of \<^verbatim>\<open>src/src/repo/common\<close>, with the features \<^verbatim>\<open>compression\<close> and
  \<^verbatim>\<open>encryption\<close> enabled.  LZ4, the AEAD cipher, Argon2id, BLAKE3, the random number generator and the
  UUID generator are code of other crates: they are the fields of the record \<open>ext\<close>, and what the
  code relies on is the predicate \<open>ext_laws\<close>.  Randomness is a counter: the \<open>c\<close>-th random value
  drawn is a function of \<open>c\<close>.
\<close>

section \<open>External functions\<close>

record ext =
  lz4_encode :: "nat \<Rightarrow> bytes \<Rightarrow> io_error + bytes"
  lz4_decode :: "bytes \<Rightarrow> io_error + bytes"
  aead_seal :: "bytes \<Rightarrow> bytes \<Rightarrow> bytes \<Rightarrow> bytes"
  aead_open :: "bytes \<Rightarrow> bytes \<Rightarrow> bytes \<Rightarrow> bytes option"
  NONCEBYTES :: nat
  KEYBYTES :: nat
  SALTBYTES :: nat
  MEMLIMIT_INTERACTIVE :: nat
  MEMLIMIT_MODERATE :: nat
  MEMLIMIT_SENSITIVE :: nat
  OPSLIMIT_INTERACTIVE :: nat
  OPSLIMIT_MODERATE :: nat
  OPSLIMIT_SENSITIVE :: nat
  argon2_derive :: "nat \<Rightarrow> bytes \<Rightarrow> bytes \<Rightarrow> nat \<Rightarrow> nat \<Rightarrow> bytes option"
  random_bytes :: "nat \<Rightarrow> nat \<Rightarrow> bytes"
  new_v4 :: "nat \<Rightarrow> uuid"
  blake3 :: "bytes \<Rightarrow> bytes"

text \<open>
  What the documentation of these crates promises: random buffers have the length asked for, a
  sealed message opens under its own nonce and key, LZ4 decompresses what it compressed and its
  encoder does not fail when it writes to memory, a derived key has the size asked for.
\<close>

definition ext_laws :: "ext \<Rightarrow> bool" where
  "ext_laws X \<longleftrightarrow>
     (\<forall>c n. length (random_bytes X c n) = n) \<and>
     (\<forall>m n k. length n = NONCEBYTES X \<longrightarrow> length k = KEYBYTES X \<longrightarrow>
        aead_open X (aead_seal X m n k) n k = Some m) \<and>
     (\<forall>l d. \<exists>c. lz4_encode X l d = Inr c \<and> lz4_decode X c = Inr d) \<and>
     (\<forall>n p s ol ml k. argon2_derive X n p s ol ml = Some k \<longrightarrow> length k = n)"

section \<open>Configuration\<close>

datatype packing = PackingNone | PackingFixed nat

definition packing_fixed :: packing where
  "packing_fixed = PackingFixed (1024 * 64)"

datatype compression = CompressionNone | Lz4 nat

datatype encryption = EncryptionNone | XChaCha20Poly1305

datatype resource_limit = Interactive | Moderate | Sensitive

record repo_config =
  config_chunking :: chunking
  config_packing :: packing
  config_compression :: compression
  config_encryption :: encryption
  config_memory_limit :: resource_limit
  config_operations_limit :: resource_limit

definition config_default :: repo_config where
  "config_default = \<lparr>config_chunking = chunking_fixed, config_packing = PackingNone,
     config_compression = CompressionNone, config_encryption = EncryptionNone,
     config_memory_limit = Interactive, config_operations_limit = Interactive\<rparr>"

section \<open>Compression\<close>

definition io_result :: "io_error + 'a \<Rightarrow> 'a result" where
  "io_result r = (case r of Inl e \<Rightarrow> Err (error_of_io e) | Inr a \<Rightarrow> Ok a)"

definition compress :: "ext \<Rightarrow> compression \<Rightarrow> bytes \<Rightarrow> bytes result" where
  "compress X m data = (case m of
      CompressionNone \<Rightarrow> Ok data
    | Lz4 level \<Rightarrow> io_result (lz4_encode X level data))"

definition decompress :: "ext \<Rightarrow> compression \<Rightarrow> bytes \<Rightarrow> bytes result" where
  "decompress X m data = (case m of
      CompressionNone \<Rightarrow> Ok data
    | Lz4 level \<Rightarrow> io_result (lz4_decode X data))"

section \<open>Encryption\<close>

definition to_mem_limit :: "ext \<Rightarrow> resource_limit \<Rightarrow> nat" where
  "to_mem_limit X l = (case l of
      Interactive \<Rightarrow> MEMLIMIT_INTERACTIVE X
    | Moderate \<Rightarrow> MEMLIMIT_MODERATE X
    | Sensitive \<Rightarrow> MEMLIMIT_SENSITIVE X)"

definition to_ops_limit :: "ext \<Rightarrow> resource_limit \<Rightarrow> nat" where
  "to_ops_limit X l = (case l of
      Interactive \<Rightarrow> OPSLIMIT_INTERACTIVE X
    | Moderate \<Rightarrow> OPSLIMIT_MODERATE X
    | Sensitive \<Rightarrow> OPSLIMIT_SENSITIVE X)"

text \<open>\<^verbatim>\<open>ChaChaKey::from_slice(key).unwrap()\<close> panics when the key has the wrong length.\<close>

definition encrypt :: "ext \<Rightarrow> encryption \<Rightarrow> bytes \<Rightarrow> bytes \<Rightarrow> (nat, bytes) op" where
  "encrypt X m cleartext key c = (case m of
      EncryptionNone \<Rightarrow> (Ok cleartext, c)
    | XChaCha20Poly1305 \<Rightarrow>
        (let nonce = random_bytes X c (NONCEBYTES X) in
         if length key \<noteq> KEYBYTES X then (Panic ''invalid key'', Suc c)
         else (Ok (nonce @ aead_seal X cleartext nonce key), Suc c)))"

definition decrypt :: "ext \<Rightarrow> encryption \<Rightarrow> bytes \<Rightarrow> bytes \<Rightarrow> bytes result" where
  "decrypt X m ciphertext key = (case m of
      EncryptionNone \<Rightarrow> Ok ciphertext
    | XChaCha20Poly1305 \<Rightarrow>
        (if length ciphertext < NONCEBYTES X then Panic ''slice index out of range''
         else if length key \<noteq> KEYBYTES X then Panic ''invalid key''
         else case aead_open X (drop (NONCEBYTES X) ciphertext) (take (NONCEBYTES X) ciphertext) key of
             Some cleartext \<Rightarrow> Ok cleartext
           | None \<Rightarrow> Err InvalidData))"

definition key_size :: "ext \<Rightarrow> encryption \<Rightarrow> nat" where
  "key_size X m = (case m of EncryptionNone \<Rightarrow> 0 | XChaCha20Poly1305 \<Rightarrow> KEYBYTES X)"

definition salt_empty :: bytes where
  "salt_empty = []"

definition salt_generate :: "ext \<Rightarrow> (nat, bytes) op" where
  "salt_generate X c = (Ok (random_bytes X c (SALTBYTES X)), Suc c)"

definition key_generate :: "ext \<Rightarrow> nat \<Rightarrow> (nat, bytes) op" where
  "key_generate X n c = (Ok (random_bytes X c n), Suc c)"

definition key_derive ::
  "ext \<Rightarrow> bytes \<Rightarrow> bytes \<Rightarrow> nat \<Rightarrow> resource_limit \<Rightarrow> resource_limit \<Rightarrow> bytes result" where
  "key_derive X password salt n memory operations =
     (if length salt \<noteq> SALTBYTES X then Panic ''invalid salt''
      else case argon2_derive X n password salt (to_ops_limit X operations) (to_mem_limit X memory) of
          Some k \<Rightarrow> Ok k
        | None \<Rightarrow> Panic ''Failed to derive an encryption key.'')"

section \<open>Encoding a block\<close>

text \<open>
  \<^verbatim>\<open>encode_data\<close> and \<^verbatim>\<open>decode_data\<close> of \<^verbatim>\<open>chunk_store.rs\<close> on the parts of the state they use.
\<close>

definition encode_with :: "ext \<Rightarrow> repo_config \<Rightarrow> bytes \<Rightarrow> bytes \<Rightarrow> (nat, bytes) op" where
  "encode_with X cfg key data =
     bindR (lift_result (compress X (config_compression cfg) data)) (\<lambda>compressed.
       encrypt X (config_encryption cfg) compressed key)"

definition decode_with :: "ext \<Rightarrow> repo_config \<Rightarrow> bytes \<Rightarrow> bytes \<Rightarrow> bytes result" where
  "decode_with X cfg key data = (case decrypt X (config_encryption cfg) data key of
      Ok decrypted \<Rightarrow> decompress X (config_compression cfg) decrypted
    | r \<Rightarrow> r)"

text \<open>The master key has the length the cipher needs.\<close>

definition key_ok :: "ext \<Rightarrow> repo_config \<Rightarrow> bytes \<Rightarrow> bool" where
  "key_ok X cfg key \<longleftrightarrow> (config_encryption cfg = XChaCha20Poly1305 \<longrightarrow> length key = KEYBYTES X)"

lemma compress_roundtrip:
  assumes "ext_laws X"
  shows "\<exists>c. compress X m d = Ok c \<and> decompress X m c = Ok d"
proof (cases m)
  case CompressionNone
  then show ?thesis by (simp add: compress_def decompress_def)
next
  case (Lz4 l)
  from assms obtain c where "lz4_encode X l d = Inr c" "lz4_decode X c = Inr d"
    unfolding ext_laws_def by blast
  with Lz4 show ?thesis by (simp add: compress_def decompress_def io_result_def)
qed

lemma encrypt_roundtrip:
  assumes "ext_laws X" "m = XChaCha20Poly1305 \<longrightarrow> length key = KEYBYTES X"
  shows "\<exists>e c'. encrypt X m d key c = (Ok e, c') \<and> decrypt X m e key = Ok d"
  using assms
  by (cases m) (auto simp: encrypt_def decrypt_def ext_laws_def Let_def)

lemma encode_with_roundtrip:
  assumes "ext_laws X" "key_ok X cfg key"
  shows "\<exists>e c'. encode_with X cfg key d c = (Ok e, c') \<and> decode_with X cfg key e = Ok d"
proof -
  obtain z where z: "compress X (config_compression cfg) d = Ok z"
    "decompress X (config_compression cfg) z = Ok d"
    using compress_roundtrip [OF assms(1)] by blast
  obtain e c' where "encrypt X (config_encryption cfg) z key c = (Ok e, c')"
    "decrypt X (config_encryption cfg) e key = Ok z"
    using encrypt_roundtrip [OF assms(1)] assms(2) unfolding key_ok_def by blast
  with z show ?thesis by (simp add: encode_with_def decode_with_def bindR_def)
qed

text \<open>The counter of random values only grows.\<close>

lemma encrypt_counter: "encrypt X m d key c = (r, c') \<Longrightarrow> c \<le> c' \<and> c' \<le> Suc c"
  by (cases m) (auto simp: encrypt_def Let_def split: if_splits)

lemma encode_with_counter: "encode_with X cfg key d c = (r, c') \<Longrightarrow> c \<le> c' \<and> c' \<le> Suc c"
  by (auto simp: encode_with_def bindR_def split: result.splits dest: encrypt_counter)

section \<open>A reference instance of the external functions\<close>

text \<open>
  Concrete functions that satisfy \<open>ext_laws\<close>, for evaluating the model on concrete inputs: a cipher
  that prefixes the cleartext with the key, compression that prefixes a byte, a hash that is the data
  itself.
\<close>

definition ref_ext :: ext where
  "ref_ext = \<lparr>
     lz4_encode = (\<lambda>l d. Inr (7 # d)),
     lz4_decode = (\<lambda>d. case d of x # r \<Rightarrow> if x = 7 then Inr r else Inl (IoError InvalidDataKind NoPayload)
        | [] \<Rightarrow> Inl (IoError UnexpectedEof NoPayload)),
     aead_seal = (\<lambda>m n k. k @ m),
     aead_open = (\<lambda>s n k. if take (length k) s = k then Some (drop (length k) s) else None),
     NONCEBYTES = 2, KEYBYTES = 3, SALTBYTES = 2,
     MEMLIMIT_INTERACTIVE = 1, MEMLIMIT_MODERATE = 2, MEMLIMIT_SENSITIVE = 3,
     OPSLIMIT_INTERACTIVE = 1, OPSLIMIT_MODERATE = 2, OPSLIMIT_SENSITIVE = 3,
     argon2_derive = (\<lambda>n p s ol ml. if n = 0 then None else Some (take n (p @ s @ replicate n 0))),
     random_bytes = (\<lambda>c n. replicate n (of_nat c)),
     new_v4 = (\<lambda>c. of_nat c),
     blake3 = (\<lambda>d. d)\<rparr>"

lemma ref_ext_laws: "ext_laws ref_ext"
  by (auto simp: ext_laws_def ref_ext_def split: if_splits)

section \<open>Evaluation\<close>

declare packing_fixed_def [exec_defs]
  config_default_def [exec_defs]
  io_result_def [exec_defs]
  compress_def [exec_defs]
  decompress_def [exec_defs]
  to_mem_limit_def [exec_defs]
  to_ops_limit_def [exec_defs]
  encrypt_def [exec_defs]
  decrypt_def [exec_defs]
  key_size_def [exec_defs]
  salt_empty_def [exec_defs]
  salt_generate_def [exec_defs]
  key_generate_def [exec_defs]
  key_derive_def [exec_defs]
  encode_with_def [exec_defs]
  decode_with_def [exec_defs]
  ref_ext_def [exec_defs]

end
