(* ===== verification/Handle.thy ===== *)
theory Handle
  imports Codec
begin

text \<open>
  Chunks, extents, object handles and content IDs (\<^verbatim>\<open>src/src/repo/common/handle.rs\<close>), with the
  comparison of a content ID against a reader.  A reader is an implementation of \<^verbatim>\<open>std::io::Read\<close>;
  its contract is the locale \<open>reader\<close>, which a byte slice (\<^verbatim>\<open>impl Read for &[u8]\<close>) satisfies.
\<close>

section \<open>Handles\<close>

record chunk =
  c_size :: nat
  c_hash :: bytes

datatype extent = EChunk chunk | EHole nat

definition chunk_hash :: "ext \<Rightarrow> bytes \<Rightarrow> bytes" where
  "chunk_hash X data = blake3 X data"

definition extent_size :: "extent \<Rightarrow> nat" where
  "extent_size e = (case e of EChunk c \<Rightarrow> c_size c | EHole n \<Rightarrow> n)"

record object_handle =
  handle_id :: u64
  extents :: "extent list"

definition sum64 :: "nat list \<Rightarrow> nat" where
  "sum64 xs = fold (\<lambda>x a. add64 a x) xs 0"

definition handle_size :: "object_handle \<Rightarrow> nat" where
  "handle_size h = sum64 (map extent_size (extents h))"

definition extent_chunks :: "extent list \<Rightarrow> chunk list" where
  "extent_chunks es = List.map_filter (\<lambda>e. case e of EChunk c \<Rightarrow> Some c | EHole n \<Rightarrow> None) es"

definition handle_chunks :: "object_handle \<Rightarrow> chunk list" where
  "handle_chunks h = extent_chunks (extents h)"

record object_id =
  oid_repo :: uuid
  oid_instance :: uuid
  oid_handle :: u64

definition object_id_new :: "uuid \<Rightarrow> uuid \<Rightarrow> u64 \<Rightarrow> object_id" where
  "object_id_new r i h = \<lparr>oid_repo = r, oid_instance = i, oid_handle = h\<rparr>"

record content_id =
  cid_repo :: uuid
  cid_extents :: "extent list"

definition content_id_size :: "content_id \<Rightarrow> nat" where
  "content_id_size c = sum64 (map extent_size (cid_extents c))"

definition total :: "extent list \<Rightarrow> nat" where
  "total es = sum_list (map extent_size es)"

lemma fold_add64: "fold (\<lambda>x a. add64 a x) xs a = (if xs = [] then a else (a + sum_list xs) mod 2 ^ 64)"
  by (induction xs arbitrary: a) (auto simp: add64_def add.assoc mod_simps)

lemma sum64_eq: "sum64 xs = sum_list xs mod 2 ^ 64"
  by (simp add: sum64_def fold_add64)

lemma handle_size_exact: "total (extents h) < 2 ^ 64 \<Longrightarrow> handle_size h = total (extents h)"
  by (simp add: handle_size_def sum64_eq total_def)

lemma total_simps [simp]:
  "total [] = 0" "total (e # es) = extent_size e + total es" "total (es @ fs) = total es + total fs"
  by (simp_all add: total_def)

lemma extent_chunks_simps [simp]:
  "extent_chunks [] = []"
  "extent_chunks (EChunk c # es) = c # extent_chunks es"
  "extent_chunks (EHole n # es) = extent_chunks es"
  "extent_chunks (es @ fs) = extent_chunks es @ extent_chunks fs"
  by (simp_all add: extent_chunks_def map_filter_def)

lemma set_extent_chunks: "c \<in> set (extent_chunks es) \<longleftrightarrow> EChunk c \<in> set es"
  by (induction es) (auto simp: extent_chunks_def map_filter_def split: extent.splits)

section \<open>Readers\<close>

type_synonym 'r read_fn = "nat \<Rightarrow> 'r \<Rightarrow> (io_error + bytes) \<times> 'r"

definition slice_read :: "bytes read_fn" where
  "slice_read n r = (Inr (take n r), drop n r)"

text \<open>\<^verbatim>\<open>Read::read_exact\<close>: read until the buffer is full, retry when interrupted, fail at the end.\<close>

partial_function (option) read_exact_loop ::
  "'r read_fn \<Rightarrow> nat \<Rightarrow> bytes \<Rightarrow> 'r \<Rightarrow> ((io_error + bytes) \<times> 'r) option" where
  "read_exact_loop rd n acc r =
     (if n = 0 then Some (Inr acc, r)
      else case rd n r of
          (Inr b, r') \<Rightarrow>
            if b = [] then Some (Inl (IoError UnexpectedEof NoPayload), r')
            else read_exact_loop rd (n - length b) (acc @ b) r'
        | (Inl (IoError k p), r') \<Rightarrow>
            if k = Interrupted then read_exact_loop rd n acc r'
            else Some (Inl (IoError k p), r'))"

text \<open>
  The comparison of a hole: it reads at most \<^verbatim>\<open>HOLE_BUFFER\<close> bytes at a time until the hole is
  consumed, and does not look at the end of the reader.
\<close>

definition HOLE_BUFFER :: nat where
  "HOLE_BUFFER = 4096"

partial_function (option) compare_hole :: "'r read_fn \<Rightarrow> nat \<Rightarrow> 'r \<Rightarrow> (bool result \<times> 'r) option" where
  "compare_hole rd bytes_remaining r =
     (if bytes_remaining = 0 then Some (Ok True, r)
      else case rd (min bytes_remaining HOLE_BUFFER) r of
          (Inl e, r') \<Rightarrow> Some (Err (error_of_io e), r')
        | (Inr b, r') \<Rightarrow>
            if list_ex (\<lambda>x. x \<noteq> 0) b then Some (Ok False, r')
            else compare_hole rd (bytes_remaining - length b) r')"

definition option_result :: "('a result \<times> 's) option \<Rightarrow> 's \<Rightarrow> 'a result \<times> 's" where
  "option_result x s = (case x of None \<Rightarrow> (Diverge, s) | Some r \<Rightarrow> r)"

definition compare_extent :: "ext \<Rightarrow> 'r read_fn \<Rightarrow> extent \<Rightarrow> ('r, bool) op" where
  "compare_extent X rd e r = (case e of
      EChunk c \<Rightarrow>
        (case read_exact_loop rd (c_size c) [] r of
           None \<Rightarrow> (Diverge, r)
         | Some (Inl (IoError k p), r') \<Rightarrow>
             if k = UnexpectedEof then (Ok False, r') else (Err (error_of_io (IoError k p)), r')
         | Some (Inr b, r') \<Rightarrow> (Ok (c_hash c = chunk_hash X b), r'))
    | EHole n \<Rightarrow> option_result (compare_hole rd n r) r)"

fun compare_extents :: "ext \<Rightarrow> 'r read_fn \<Rightarrow> extent list \<Rightarrow> ('r, bool) op" where
  "compare_extents X rd [] r = (Ok True, r)"
| "compare_extents X rd (e # es) r =
     bindR (compare_extent X rd e) (\<lambda>same. if same then compare_extents X rd es else ret False) r"

fun max_chunk :: "extent list \<Rightarrow> nat" where
  "max_chunk [] = HOLE_BUFFER"
| "max_chunk (e # es) = (case e of EChunk c \<Rightarrow> max (c_size c) (max_chunk es) | EHole n \<Rightarrow> max_chunk es)"

text \<open>
  The buffer of the final read has the size of the largest chunk, and at least \<^verbatim>\<open>HOLE_BUFFER\<close>.
\<close>

definition compare_contents :: "ext \<Rightarrow> 'r read_fn \<Rightarrow> content_id \<Rightarrow> ('r, bool) op" where
  "compare_contents X rd c =
     bindR (compare_extents X rd (cid_extents c)) (\<lambda>same.
       if \<not> same then ret False
       else (\<lambda>r. case rd (max_chunk (cid_extents c)) r of
           (Inl e, r') \<Rightarrow> (Err (error_of_io e), r')
         | (Inr b, r') \<Rightarrow> (Ok (b = []), r')))"

text \<open>
  The meaning of a content ID for a byte string that is at least as long: every chunk has the hash
  of its piece of the string, every hole is zero there.
\<close>

fun matches :: "ext \<Rightarrow> extent list \<Rightarrow> bytes \<Rightarrow> bool" where
  "matches X [] d \<longleftrightarrow> True"
| "matches X (EChunk c # es) d \<longleftrightarrow>
     c_hash c = chunk_hash X (take (c_size c) d) \<and> matches X es (drop (c_size c) d)"
| "matches X (EHole n # es) d \<longleftrightarrow> take n d = replicate n 0 \<and> matches X es (drop n d)"

lemma max_chunk_pos: "0 < max_chunk es"
  by (induction es) (auto simp: HOLE_BUFFER_def split: extent.splits)

section \<open>The contract of a reader\<close>

locale reader =
  fixes rd :: "'r read_fn"
    and rest :: "'r \<Rightarrow> bytes"
    and ok :: "'r \<Rightarrow> bool"
  assumes read_total: "ok r \<Longrightarrow> \<exists>b r'. rd n r = (Inr b, r') \<and> rest r = b @ rest r' \<and> length b \<le> n \<and> ok r'"
    and read_end: "ok r \<Longrightarrow> rd n r = (Inr [], r') \<Longrightarrow> 0 < n \<Longrightarrow> rest r = []"
begin

lemma read_exact_short:
  "ok r \<Longrightarrow> length (rest r) < n \<Longrightarrow> \<exists>r'. read_exact_loop rd n acc r = Some (Inl (IoError UnexpectedEof NoPayload), r') \<and> ok r'"
proof (induction n arbitrary: acc r rule: less_induct)
  case (less n)
  obtain b r' where b: "rd n r = (Inr b, r')" "rest r = b @ rest r'" "length b \<le> n" "ok r'"
    using read_total less.prems(1) by blast
  show ?case
  proof (cases "b = []")
    case True
    with b less.prems show ?thesis by (subst read_exact_loop.simps) auto
  next
    case False
    with b less.prems have "n - length b < n" "length (rest r') < n - length b" by auto
    with less.IH b(4) obtain r'' where
      "read_exact_loop rd (n - length b) (acc @ b) r' = Some (Inl (IoError UnexpectedEof NoPayload), r'')" "ok r''"
      by blast
    with False b less.prems show ?thesis by (subst read_exact_loop.simps) auto
  qed
qed

lemma read_exact_ok:
  "ok r \<Longrightarrow> n \<le> length (rest r) \<Longrightarrow> \<exists>r'. read_exact_loop rd n acc r = Some (Inr (acc @ take n (rest r)), r') \<and>
     rest r' = drop n (rest r) \<and> ok r'"
proof (induction n arbitrary: acc r rule: less_induct)
  case (less n)
  show ?case
  proof (cases "n = 0")
    case True
    with less.prems show ?thesis by (subst read_exact_loop.simps) auto
  next
    case False
    obtain b r' where b: "rd n r = (Inr b, r')" "rest r = b @ rest r'" "length b \<le> n" "ok r'"
      using read_total less.prems(1) by blast
    have "b \<noteq> []" using read_end b False less.prems by force
    moreover have "n - length b \<le> length (rest r')" using b less.prems by simp
    ultimately obtain r'' where
      "read_exact_loop rd (n - length b) (acc @ b) r' = Some (Inr ((acc @ b) @ take (n - length b) (rest r')), r'')"
      "rest r'' = drop (n - length b) (rest r')" "ok r''"
      using less.IH [of "n - length b" r' "acc @ b"] False b(4) by auto
    with b False \<open>b \<noteq> []\<close> show ?thesis by (subst read_exact_loop.simps) auto
  qed
qed

lemma compare_hole_ok:
  "ok r \<Longrightarrow> n \<le> length (rest r) \<Longrightarrow>
     \<exists>r'. compare_hole rd n r = Some (Ok (take n (rest r) = replicate n 0), r') \<and> ok r' \<and>
       (take n (rest r) = replicate n 0 \<longrightarrow> rest r' = drop n (rest r))"
proof (induction n arbitrary: r rule: less_induct)
  case (less n)
  show ?case
  proof (cases "n = 0")
    case True
    with less.prems show ?thesis by (subst compare_hole.simps) auto
  next
    case False
    obtain b r' where b: "rd (min n HOLE_BUFFER) r = (Inr b, r')" "rest r = b @ rest r'"
      "length b \<le> min n HOLE_BUFFER" "ok r'"
      using read_total less.prems(1) by blast
    have "b \<noteq> []" using read_end b False less.prems by (force simp: HOLE_BUFFER_def)
    show ?thesis
    proof (cases "list_ex (\<lambda>x. x \<noteq> 0) b")
      case True
      moreover have "set b \<subseteq> set (take n (rest r))"
        using b by simp
      ultimately have "take n (rest r) \<noteq> replicate n 0"
        by (force simp: list_ex_iff)
      with True b False show ?thesis by (subst compare_hole.simps) auto
    next
      case zero: False
      then have "b = replicate (length b) 0"
        by (auto simp: list_ex_iff intro!: replicate_eqI)
      moreover have "length b \<le> n" using b(3) by simp
      ultimately have "replicate n 0 = b @ replicate (n - length b) 0"
        by (metis le_add_diff_inverse replicate_add)
      with \<open>length b \<le> n\<close> have split: "take n (rest r) = replicate n 0 \<longleftrightarrow>
          take (n - length b) (rest r') = replicate (n - length b) 0"
        by (simp add: b(2))
      have shorter: "n - length b < n" "n - length b \<le> length (rest r')"
        using \<open>b \<noteq> []\<close> b less.prems False by auto
      obtain r'' where "compare_hole rd (n - length b) r' =
          Some (Ok (take (n - length b) (rest r') = replicate (n - length b) 0), r'')" "ok r''"
        "take (n - length b) (rest r') = replicate (n - length b) 0 \<longrightarrow> rest r'' = drop (n - length b) (rest r')"
        using less.IH [OF shorter(1) b(4) shorter(2)] by blast
      with split zero b False show ?thesis by (subst compare_hole.simps) auto
    qed
  qed
qed

lemma compare_extents_ok:
  "ok r \<Longrightarrow> total es \<le> length (rest r) \<Longrightarrow>
     \<exists>r'. compare_extents X rd es r = (Ok (matches X es (rest r)), r') \<and> ok r' \<and>
     (matches X es (rest r) \<longrightarrow> rest r' = drop (total es) (rest r))"
proof (induction es arbitrary: r)
  case Nil
  then show ?case by simp
next
  case (Cons e es)
  have len: "extent_size e \<le> length (rest r)" "total es \<le> length (rest r) - extent_size e"
    using Cons.prems by simp_all
  have "\<exists>r'. compare_extent X rd e r = (Ok (matches X [e] (rest r)), r') \<and> ok r' \<and>
      (matches X [e] (rest r) \<longrightarrow> rest r' = drop (extent_size e) (rest r))"
  proof (cases e)
    case (EChunk c)
    with len Cons.prems(1) read_exact_ok [of r "c_size c" "[]"] show ?thesis
      by (auto simp: compare_extent_def extent_size_def)
  next
    case (EHole n)
    with len Cons.prems(1) compare_hole_ok [of r n] show ?thesis
      by (auto simp: compare_extent_def extent_size_def option_result_def)
  qed
  then obtain r' where r': "compare_extent X rd e r = (Ok (matches X [e] (rest r)), r')"
    "matches X [e] (rest r) \<Longrightarrow> rest r' = drop (extent_size e) (rest r)" "ok r'" by blast
  show ?case
  proof (cases "matches X [e] (rest r)")
    case True
    then have "total es \<le> length (rest r')" using len r'(2) by simp
    with Cons.IH [of r'] r' True show ?thesis
      by (cases e) (auto simp: bindR_Ok extent_size_def add.commute)
  next
    case False
    with r' show ?thesis by (cases e) (auto simp: bindR_Ok)
  qed
qed

lemma compare_contents_ok:
  assumes "ok r" "total (cid_extents c) \<le> length (rest r)"
  shows "fst (compare_contents X rd c r) =
    Ok (length (rest r) = total (cid_extents c) \<and> matches X (cid_extents c) (rest r))"
proof -
  let ?es = "cid_extents c"
  obtain r' where r': "compare_extents X rd ?es r = (Ok (matches X ?es (rest r)), r')"
    "matches X ?es (rest r) \<Longrightarrow> rest r' = drop (total ?es) (rest r)" "ok r'"
    using compare_extents_ok [OF assms] by blast
  obtain b r'' where b: "rd (max_chunk ?es) r' = (Inr b, r'')" "rest r' = b @ rest r''"
    using read_total [OF r'(3)] by blast
  have "0 < max_chunk ?es" by (rule max_chunk_pos)
  with b read_end [OF r'(3)] have "b = [] \<longleftrightarrow> rest r' = []" by fastforce
  with r' b assms show ?thesis
    by (auto simp: compare_contents_def bindR_Ok)
qed

end

interpretation slice_reader: reader slice_read "\<lambda>r. r" "\<lambda>r. True"
  by unfold_locales (auto simp: slice_read_def)

text \<open>
  Comparing a content ID against a byte slice that is at least as long as the contents returns,
  and the answer is true exactly when the slice has the length of the contents and its bytes hash
  to the chunks and are zero in the holes.
\<close>

theorem compare_contents_slice:
  assumes "total (cid_extents c) \<le> length d"
  shows "fst (compare_contents X slice_read c d) =
    Ok (length d = total (cid_extents c) \<and> matches X (cid_extents c) d)"
  using slice_reader.compare_contents_ok [where c = c and r = d and X = X] assms by simp

theorem compare_contents_slice_witness:
  "fst (compare_contents ref_ext slice_read
      \<lparr>cid_repo = 0, cid_extents = [EChunk \<lparr>c_size = 2, c_hash = [5, 6]\<rparr>, EHole 1]\<rparr> [5, 6, 0]) = Ok True"
  using compare_contents_slice [of "\<lparr>cid_repo = 0, cid_extents = [EChunk \<lparr>c_size = 2, c_hash = [5, 6]\<rparr>, EHole 1]\<rparr>"
      "[5, 6, 0]" ref_ext]
  by (simp add: extent_size_def chunk_hash_def ref_ext_def)

lemma compare_hole_short:
  assumes "compare_hole rd n r = Some res"
  shows "\<not> (rd = slice_read \<and> length r < n \<and> set r \<subseteq> {0})"
proof (rule compare_hole.raw_induct [where P =
    "\<lambda>rd n r res. \<not> (rd = slice_read \<and> length r < n \<and> set r \<subseteq> {0})", OF _ assms])
  fix loop :: "bytes read_fn \<Rightarrow> nat \<Rightarrow> bytes \<Rightarrow> (bool result \<times> bytes) option"
  fix rd :: "bytes read_fn" and n r res
  assume IH: "\<And>rd n r res. loop rd n r = Some res \<Longrightarrow> \<not> (rd = slice_read \<and> length r < n \<and> set r \<subseteq> {0})"
    and step: "(if n = 0 then Some (Ok True, r)
      else case rd (min n HOLE_BUFFER) r of
          (Inl e, r') \<Rightarrow> Some (Err (error_of_io e), r')
        | (Inr b, r') \<Rightarrow>
            if list_ex (\<lambda>x. x \<noteq> 0) b then Some (Ok False, r')
            else loop rd (n - length b) r') = Some res"
  show "\<not> (rd = slice_read \<and> length r < n \<and> set r \<subseteq> {0})"
  proof (rule notI, elim conjE)
    assume short: "rd = slice_read" "length r < n" "set r \<subseteq> {0}"
    then have "\<not> list_ex (\<lambda>x. x \<noteq> 0) (take k r)" for k
      by (auto simp: list_ex_iff dest: in_set_takeD)
    with short step have "loop slice_read (n - length (take (min n HOLE_BUFFER) r))
        (drop (min n HOLE_BUFFER) r) = Some res"
      by (simp add: slice_read_def)
    from IH [OF this] short show False
      by (auto dest: in_set_dropD)
  qed
qed

text \<open>
  A reader that ends inside a hole makes the comparison loop forever: at the end of the data
  \<^verbatim>\<open>read\<close> returns 0 bytes, and the loop over the hole waits for bytes that never come, where the
  documentation promises the answer false for data that is too short.
\<close>

theorem compare_contents_hole_diverges:
  assumes "k < n"
  shows "fst (compare_contents X slice_read \<lparr>cid_repo = i, cid_extents = [EHole n]\<rparr> (replicate k 0)) = Diverge"
proof -
  have "compare_hole slice_read n (replicate k 0) = None"
    using compare_hole_short assms by (cases "compare_hole slice_read n (replicate k 0)") force+
  then show ?thesis
    by (simp add: compare_contents_def compare_extent_def option_result_def bindR_def)
qed

theorem compare_contents_hole_diverges_witness:
  "fst (compare_contents ref_ext slice_read \<lparr>cid_repo = 0, cid_extents = [EHole 3]\<rparr> [0, 0]) = Diverge"
  using compare_contents_hole_diverges [of 2 3 ref_ext 0] by (simp add: numeral_2_eq_2)

section \<open>Evaluation\<close>

declare chunk_hash_def [exec_defs]
  extent_size_def [exec_defs]
  sum64_def [exec_defs]
  handle_size_def [exec_defs]
  extent_chunks_def [exec_defs]
  handle_chunks_def [exec_defs]
  object_id_new_def [exec_defs]
  content_id_size_def [exec_defs]
  slice_read_def [exec_defs]
  read_exact_loop.simps [exec_defs]
  HOLE_BUFFER_def [exec_defs]
  compare_hole.simps [exec_defs]
  option_result_def [exec_defs]
  compare_extent_def [exec_defs]
  compare_extents.simps [exec_defs]
  max_chunk.simps [exec_defs]
  compare_contents_def [exec_defs]

end
