(* ===== verification/Data_Store.thy ===== *)
theory Data_Store
  imports Prelude
begin

text \<open>
  The storage backends (\<^verbatim>\<open>src/src/store\<close>) and the in-process lock table
  (\<^verbatim>\<open>src/src/repo/common/lock.rs\<close>).  \<^verbatim>\<open>DataStore\<close> is a trait: its four methods are a record of
  operations, a repository holds the state of some implementation, and what the documentation of
  the trait promises is the locale \<open>data_store\<close>.  \<^verbatim>\<open>MemoryStore\<close> is an implementation of it.
\<close>

section \<open>The trait\<close>

text \<open>What a method returns: an \<^verbatim>\<open>anyhow::Result\<close>, or it panics, as listing the blocks does in some stores.\<close>

datatype 'a attempt = Done 'a | Failed string | Crashed string

record 's data_store_ops =
  ds_write_block :: "uuid \<Rightarrow> bytes \<Rightarrow> 's \<Rightarrow> unit attempt \<times> 's"
  ds_read_block :: "uuid \<Rightarrow> 's \<Rightarrow> bytes option attempt \<times> 's"
  ds_remove_block :: "uuid \<Rightarrow> 's \<Rightarrow> unit attempt \<times> 's"
  ds_list_blocks :: "'s \<Rightarrow> uuid list attempt \<times> 's"

text \<open>\<^verbatim>\<open>map_err(crate::Error::Store)\<close>: the error of a store becomes an error of the crate.\<close>

definition store_result :: "'a attempt \<times> 's \<Rightarrow> 'a result \<times> 's" where
  "store_result r = (case r of
      (Done a, s) \<Rightarrow> (Ok a, s)
    | (Failed m, s) \<Rightarrow> (Err (Store m), s)
    | (Crashed m, s) \<Rightarrow> (Panic m, s))"

text \<open>
  The contract: a write that returns stores the block, one that fails stores nothing, a read
  changes nothing and sees the last write, a removal that fails removes nothing.
\<close>

locale data_store =
  fixes D :: "'s data_store_ops"
    and blocks :: "'s \<Rightarrow> uuid \<rightharpoonup> bytes"
  assumes write_ok: "ds_write_block D i d s = (Done u, s') \<Longrightarrow> blocks s' = (blocks s)(i \<mapsto> d)"
    and write_err: "ds_write_block D i d s = (Failed e, s') \<Longrightarrow> blocks s' = blocks s"
    and read_frame: "ds_read_block D i s = (r, s') \<Longrightarrow> blocks s' = blocks s"
    and read_ok: "ds_read_block D i s = (Done x, s') \<Longrightarrow> x = blocks s i"
    and remove_ok: "ds_remove_block D i s = (Done u, s') \<Longrightarrow> blocks s' = (blocks s)(i := None)"
    and remove_err: "ds_remove_block D i s = (Failed e, s') \<Longrightarrow> blocks s' = blocks s"
    and list_frame: "ds_list_blocks D s = (l, s') \<Longrightarrow> blocks s' = blocks s"
    and list_ok: "ds_list_blocks D s = (Done xs, s') \<Longrightarrow> set xs = dom (blocks s)"

text \<open>A store whose operations never fail, as the documentation of \<^verbatim>\<open>MemoryStore\<close> promises.\<close>

locale reliable_store = data_store +
  assumes write_total: "\<exists>s'. ds_write_block D i d s = (Done (), s')"
    and read_total: "\<exists>x s'. ds_read_block D i s = (Done x, s')"
    and remove_total: "\<exists>s'. ds_remove_block D i s = (Done (), s')"
    and list_total: "\<exists>xs s'. ds_list_blocks D s = (Done xs, s')"
begin

lemma write_reliable: "\<exists>s'. ds_write_block D i d s = (Done (), s') \<and> blocks s' = (blocks s)(i \<mapsto> d)"
  using write_total write_ok by metis

lemma read_reliable: "\<exists>s'. ds_read_block D i s = (Done (blocks s i), s') \<and> blocks s' = blocks s"
  using read_total read_ok read_frame by metis

lemma remove_reliable: "\<exists>s'. ds_remove_block D i s = (Done (), s') \<and> blocks s' = (blocks s)(i := None)"
  using remove_total remove_ok by metis

lemma list_reliable:
  "\<exists>xs s'. ds_list_blocks D s = (Done xs, s') \<and> set xs = dom (blocks s) \<and> blocks s' = blocks s"
  using list_total list_ok list_frame by metis

end

section \<open>MemoryStore\<close>

type_synonym memory_store = "(uuid, bytes) hmap"

definition mem_write_block :: "uuid \<Rightarrow> bytes \<Rightarrow> memory_store \<Rightarrow> unit attempt \<times> memory_store" where
  "mem_write_block i data s = (Done (), hput i data s)"

definition mem_read_block :: "uuid \<Rightarrow> memory_store \<Rightarrow> bytes option attempt \<times> memory_store" where
  "mem_read_block i s = (Done (hget s i), s)"

definition mem_remove_block :: "uuid \<Rightarrow> memory_store \<Rightarrow> unit attempt \<times> memory_store" where
  "mem_remove_block i s = (Done (), hdel i s)"

definition mem_list_blocks :: "memory_store \<Rightarrow> uuid list attempt \<times> memory_store" where
  "mem_list_blocks s = (Done (hkeys s), s)"

definition memory_store :: "memory_store data_store_ops" where
  "memory_store = \<lparr>ds_write_block = mem_write_block, ds_read_block = mem_read_block,
     ds_remove_block = mem_remove_block, ds_list_blocks = mem_list_blocks\<rparr>"

lemmas memory_store_defs =
  memory_store_def mem_write_block_def mem_read_block_def mem_remove_block_def mem_list_blocks_def

interpretation mem: reliable_store memory_store "\<lambda>s. hget s"
  by unfold_locales (auto simp: memory_store_defs dom_map_of_conv_image_fst)

section \<open>Lock table\<close>

text \<open>
  A \<^verbatim>\<open>LockTable\<close> is a weak set: it contains the IDs whose \<^verbatim>\<open>Lock\<close> is alive.  Dropping a \<^verbatim>\<open>Lock\<close> takes its
  ID out of the table.
\<close>

type_synonym 'a lock_table = "'a set"

datatype 'a lock = Lock (lock_id: 'a)

definition lt_new :: "'a lock_table" where
  "lt_new = {}"

definition acquire_lock :: "'a \<Rightarrow> 'a lock_table \<Rightarrow> 'a lock option \<times> 'a lock_table" where
  "acquire_lock i t = (if i \<in> t then (None, t) else (Some (Lock i), insert i t))"

definition drop_lock :: "'a lock \<Rightarrow> 'a lock_table \<Rightarrow> 'a lock_table" where
  "drop_lock l t = t - {lock_id l}"

lemma acquire_lock_exclusive:
  "acquire_lock i t = (Some l, t') \<Longrightarrow> acquire_lock i t' = (None, t')"
  by (auto simp: acquire_lock_def split: if_splits)

lemma acquire_drop_lock:
  "acquire_lock i t = (Some l, t') \<Longrightarrow> drop_lock l t' = t"
  by (auto simp: acquire_lock_def drop_lock_def split: if_splits)

lemma acquire_lock_other:
  "i \<noteq> j \<Longrightarrow> acquire_lock i t = (r, t') \<Longrightarrow> fst (acquire_lock j t') = fst (acquire_lock j t)"
  by (auto simp: acquire_lock_def split: if_splits)

section \<open>Evaluation\<close>

declare store_result_def [exec_defs]
  mem_write_block_def [exec_defs]
  mem_read_block_def [exec_defs]
  mem_remove_block_def [exec_defs]
  mem_list_blocks_def [exec_defs]
  memory_store_def [exec_defs]
  lt_new_def [exec_defs]
  acquire_lock_def [exec_defs]
  drop_lock_def [exec_defs]

end
