(* ===== verification/Id_Table.thy ===== *)
theory Id_Table
  imports Prelude
begin

text \<open>
  The two tables that allocate integer identifiers: the table of object handle IDs of
  \<^verbatim>\<open>src/src/repo/common/id_table.rs\<close> and the table of inodes and file handles of
  \<^verbatim>\<open>src/src/repo/file/fuse/id_table.rs\<close>, which never allocates a set of reserved values.  The contract
  of both is the locale \<open>id_allocator\<close>; the client lemmas are proved in it once.
\<close>

section \<open>The table of handle IDs\<close>

record id_table =
  highest :: u64
  unused :: "u64 list"

definition id_new :: id_table where
  "id_new = \<lparr>highest = 0, unused = []\<rparr>"

definition id_next :: "id_table \<Rightarrow> u64 \<times> id_table" where
  "id_next t = (case unused t of
      i # rest \<Rightarrow> (i, t\<lparr>unused := rest\<rparr>)
    | [] \<Rightarrow> (highest t + 1, t\<lparr>highest := highest t + 1\<rparr>))"

definition id_contains :: "id_table \<Rightarrow> u64 \<Rightarrow> bool" where
  "id_contains t i \<longleftrightarrow> i \<le> highest t \<and> i \<notin> set (unused t)"

definition id_recycle :: "u64 \<Rightarrow> id_table \<Rightarrow> bool \<times> id_table" where
  "id_recycle i t =
     (if \<not> id_contains t i then (False, t) else (True, t\<lparr>unused := List.insert i (unused t)\<rparr>))"

definition id_inv :: "id_table \<Rightarrow> bool" where
  "id_inv t \<longleftrightarrow> distinct (unused t) \<and> (\<forall>x \<in> set (unused t). x \<le> highest t)"

definition id_room :: "id_table \<Rightarrow> bool" where
  "id_room t \<longleftrightarrow> unused t \<noteq> [] \<or> highest t \<noteq> - 1"

definition id_live :: "id_table \<Rightarrow> u64 set" where
  "id_live t = {x. id_contains t x}"

section \<open>The table with reserved IDs\<close>

record fuse_id_table =
  fhighest :: u64
  funused :: "u64 list"
  freserved :: "u64 set"

definition fid_new :: fuse_id_table where
  "fid_new = \<lparr>fhighest = 0, funused = [], freserved = {}\<rparr>"

definition fid_with_reserved :: "u64 list \<Rightarrow> fuse_id_table" where
  "fid_with_reserved reserved = \<lparr>fhighest = 0, funused = [], freserved = set reserved\<rparr>"

text \<open>The loop that skips reserved values: it does not end when every value is reserved.\<close>

partial_function (option) skip_reserved :: "u64 set \<Rightarrow> u64 \<Rightarrow> u64 option" where
  "skip_reserved R h = (if h \<in> R then skip_reserved R (h + 1) else Some h)"

definition fid_next :: "fuse_id_table \<Rightarrow> (u64 \<times> fuse_id_table) option" where
  "fid_next t = (case funused t of
      i # rest \<Rightarrow> Some (i, t\<lparr>funused := rest\<rparr>)
    | [] \<Rightarrow> map_option (\<lambda>h. (h, t\<lparr>fhighest := h\<rparr>)) (skip_reserved (freserved t) (fhighest t + 1)))"

definition fid_contains :: "fuse_id_table \<Rightarrow> u64 \<Rightarrow> bool" where
  "fid_contains t i \<longleftrightarrow> i \<le> fhighest t \<and> i \<notin> set (funused t)"

definition fid_recycle :: "u64 \<Rightarrow> fuse_id_table \<Rightarrow> bool \<times> fuse_id_table" where
  "fid_recycle i t =
     (if \<not> fid_contains t i \<or> i \<in> freserved t then (False, t)
      else (True, t\<lparr>funused := List.insert i (funused t)\<rparr>))"

definition fid_inv :: "fuse_id_table \<Rightarrow> bool" where
  "fid_inv t \<longleftrightarrow> distinct (funused t) \<and>
     (\<forall>x \<in> set (funused t). x \<le> fhighest t \<and> x \<notin> freserved t)"

definition fid_room :: "fuse_id_table \<Rightarrow> bool" where
  "fid_room t \<longleftrightarrow> funused t \<noteq> [] \<or> (\<exists>x. fhighest t < x \<and> x \<notin> freserved t)"

definition fid_live :: "fuse_id_table \<Rightarrow> u64 set" where
  "fid_live t = {x. fid_contains t x} - freserved t"

section \<open>The contract of an allocator\<close>

text \<open>
  \<open>live t\<close> is the set of allocated values.  As long as there is room, the next value is one that
  is not allocated; a value is returned exactly when it is allocated.
\<close>

locale id_allocator =
  fixes next_id :: "'t \<Rightarrow> (u64 \<times> 't) option"
    and recycle :: "u64 \<Rightarrow> 't \<Rightarrow> bool \<times> 't"
    and live :: "'t \<Rightarrow> u64 set"
    and inv :: "'t \<Rightarrow> bool"
    and room :: "'t \<Rightarrow> bool"
  assumes next_spec: "inv t \<Longrightarrow> room t \<Longrightarrow>
      \<exists>i t'. next_id t = Some (i, t') \<and> i \<notin> live t \<and> live t' = insert i (live t) \<and> inv t'"
    and recycle_live: "inv t \<Longrightarrow> i \<in> live t \<Longrightarrow>
      \<exists>t'. recycle i t = (True, t') \<and> live t' = live t - {i} \<and> inv t' \<and> room t'"
    and recycle_unused: "inv t \<Longrightarrow> i \<notin> live t \<Longrightarrow> recycle i t = (False, t)"
begin

fun alloc :: "nat \<Rightarrow> 't \<Rightarrow> (u64 list \<times> 't) option" where
  "alloc 0 t = Some ([], t)"
| "alloc (Suc n) t = (if room t then
     (case next_id t of None \<Rightarrow> None | Some (i, t') \<Rightarrow>
       map_option (\<lambda>(ids, t''). (i # ids, t'')) (alloc n t')) else None)"

lemma alloc_distinct:
  "inv t \<Longrightarrow> alloc n t = Some (ids, t') \<Longrightarrow>
     distinct ids \<and> set ids \<inter> live t = {} \<and> live t' = live t \<union> set ids \<and> inv t'"
proof (induction n arbitrary: t ids t')
  case 0
  then show ?case by simp
next
  case (Suc n)
  then have "room t" by (auto split: if_splits)
  with Suc.prems next_spec obtain i u where u: "next_id t = Some (i, u)" "i \<notin> live t"
    "live u = insert i (live t)" "inv u" by metis
  with Suc.prems \<open>room t\<close> obtain rest where "alloc n u = Some (rest, t')" and "ids = i # rest"
    by auto
  with Suc.IH [OF \<open>inv u\<close>] u show ?case by auto
qed

lemma recycle_then_next:
  assumes "inv t" "i \<in> live t"
  shows "\<exists>t' new t''. recycle i t = (True, t') \<and> next_id t' = Some (new, t'') \<and>
    new \<notin> live t - {i}"
  using recycle_live [OF assms] next_spec by metis

lemma recycle_twice:
  assumes "inv t" "i \<in> live t" "recycle i t = (b, t')"
  shows "recycle i t' = (False, t')"
  using recycle_live [OF assms(1,2)] assms(3) recycle_unused by force

end

section \<open>Both tables are allocators\<close>

lemma id_next_spec:
  assumes "id_inv t" "id_room t" "id_next t = (i, t')"
  shows "i \<notin> id_live t \<and> id_live t' = insert i (id_live t) \<and> id_inv t'"
proof (cases "unused t")
  case Nil
  with assms have new: "i = highest t + 1" "t' = t\<lparr>highest := highest t + 1\<rparr>"
    and "highest t \<noteq> - 1"
    by (auto simp: id_next_def id_room_def)
  with word_inc_nowrap [OF \<open>highest t \<noteq> - 1\<close>] Nil show ?thesis
    by (auto simp: id_live_def id_contains_def id_inv_def)
next
  case (Cons a rest)
  with assms show ?thesis
    by (auto simp: id_next_def id_live_def id_contains_def id_inv_def)
qed

lemma id_recycle_live:
  assumes "id_inv t" "i \<in> id_live t"
  shows "\<exists>t'. id_recycle i t = (True, t') \<and> id_live t' = id_live t - {i} \<and> id_inv t' \<and> id_room t'"
  using assms
  by (auto simp: id_recycle_def id_live_def id_contains_def id_inv_def id_room_def List.insert_def)

interpretation handle_ids: id_allocator "\<lambda>t. Some (id_next t)" id_recycle id_live id_inv id_room
proof unfold_locales
  fix t :: id_table assume "id_inv t" "id_room t"
  then show "\<exists>i t'. Some (id_next t) = Some (i, t') \<and> i \<notin> id_live t \<and>
      id_live t' = insert i (id_live t) \<and> id_inv t'"
    using id_next_spec by (metis surj_pair)
next
  fix t :: id_table and i assume "id_inv t" "i \<in> id_live t"
  then show "\<exists>t'. id_recycle i t = (True, t') \<and> id_live t' = id_live t - {i} \<and> id_inv t' \<and> id_room t'"
    by (rule id_recycle_live)
next
  fix t :: id_table and i assume "i \<notin> id_live t"
  then show "id_recycle i t = (False, t)"
    by (simp add: id_recycle_def id_live_def)
qed

text \<open>
  The loop over reserved values stops at the first value above the start that is not reserved.
\<close>

lemma skip_reserved_finds:
  assumes "h \<le> x" "x \<notin> R"
  shows "\<exists>y. skip_reserved R h = Some y \<and> h \<le> y \<and> y \<le> x \<and> y \<notin> R \<and> (\<forall>z. h \<le> z \<and> z < y \<longrightarrow> z \<in> R)"
  using assms
proof (induction "unat x - unat h" arbitrary: h)
  case 0
  then have "h = x" by (simp add: word_le_nat_alt unat_arith_simps)
  with 0 show ?case by (subst skip_reserved.simps) auto
next
  case (Suc n)
  then have "h < x" by (auto simp: word_less_nat_alt)
  then have nowrap: "unat (h + 1) = unat h + 1"
    using word_inc_nowrap(1) [OF word_less_not_max] by simp
  show ?case
  proof (cases "h \<in> R")
    case False
    with \<open>h < x\<close> show ?thesis by (subst skip_reserved.simps) auto
  next
    case True
    have "n = unat x - unat (h + 1)" using Suc.hyps(2) nowrap by simp
    moreover have "h + 1 \<le> x" using \<open>h < x\<close> by (rule inc_le)
    ultimately obtain y where y: "skip_reserved R (h + 1) = Some y" "h + 1 \<le> y" "y \<le> x" "y \<notin> R"
      "\<forall>z. h + 1 \<le> z \<and> z < y \<longrightarrow> z \<in> R"
      using Suc.hyps(1) [of "h + 1"] Suc.prems by blast
    have "z \<in> R" if "h \<le> z" "z < y" for z
      using that y(5) True by (metis inc_le order_le_less)
    moreover have "h \<le> y" using y(2) nowrap by (simp add: word_le_nat_alt)
    ultimately show ?thesis using y True by (subst skip_reserved.simps) auto
  qed
qed

lemma fid_next_spec:
  assumes "fid_inv t" "fid_room t"
  shows "\<exists>i t'. fid_next t = Some (i, t') \<and> i \<notin> fid_live t \<and>
    fid_live t' = insert i (fid_live t) \<and> fid_inv t'"
proof (cases "funused t")
  case Nil
  with assms obtain x where x: "fhighest t < x" "x \<notin> freserved t"
    by (auto simp: fid_room_def)
  then have "fhighest t + 1 \<le> x" by (blast intro: inc_le)
  with x obtain y where y: "skip_reserved (freserved t) (fhighest t + 1) = Some y"
    "fhighest t + 1 \<le> y" "y \<notin> freserved t" "\<forall>z. fhighest t + 1 \<le> z \<and> z < y \<longrightarrow> z \<in> freserved t"
    using skip_reserved_finds by metis
  have above: "fhighest t < y"
    using y(2) word_inc_nowrap(2) [OF word_less_not_max [OF x(1)]] by simp
  have "z \<le> y \<and> z \<notin> freserved t \<longleftrightarrow> (z \<le> fhighest t \<and> z \<notin> freserved t) \<or> z = y" for z
    using y(3,4) above inc_le [of "fhighest t" z]
    by (cases "z \<le> fhighest t") (auto simp: not_le order_le_less)
  with Nil y(1,3) above show ?thesis
    by (auto simp: fid_next_def fid_live_def fid_contains_def fid_inv_def)
next
  case (Cons a rest)
  with assms show ?thesis
    by (auto simp: fid_next_def fid_live_def fid_contains_def fid_inv_def)
qed

interpretation fuse_ids: id_allocator fid_next fid_recycle fid_live fid_inv fid_room
proof unfold_locales
  fix t :: fuse_id_table and i assume "fid_inv t" "i \<in> fid_live t"
  then show "\<exists>t'. fid_recycle i t = (True, t') \<and> fid_live t' = fid_live t - {i} \<and> fid_inv t' \<and> fid_room t'"
    by (auto simp: fid_recycle_def fid_live_def fid_contains_def fid_inv_def fid_room_def List.insert_def)
next
  fix t :: fuse_id_table and i assume "i \<notin> fid_live t"
  then show "fid_recycle i t = (False, t)"
    by (auto simp: fid_recycle_def fid_live_def)
qed (rule fid_next_spec)

lemma id_new_inv [simp]: "id_inv id_new"
  by (simp add: id_inv_def id_new_def)

lemma fid_with_reserved_inv [simp]: "fid_inv (fid_with_reserved rs)"
  by (simp add: fid_inv_def fid_with_reserved_def)

section \<open>Evaluation\<close>

declare id_new_def [exec_defs]
  id_next_def [exec_defs]
  id_contains_def [exec_defs]
  id_recycle_def [exec_defs]
  fid_new_def [exec_defs]
  fid_with_reserved_def [exec_defs]
  skip_reserved.simps [exec_defs]
  fid_next_def [exec_defs]
  fid_contains_def [exec_defs]
  fid_recycle_def [exec_defs]

end
