(* ===== verification/Chunk_Store.thy ===== *)
theory Chunk_Store
  imports Handle Data_Store Id_Table
begin

text \<open>
  The state of a repository (\<^verbatim>\<open>src/src/repo/common/state.rs\<close>, \<^verbatim>\<open>metadata.rs\<close>) and the reading and writing
  of blocks and chunks (\<^verbatim>\<open>src/src/repo/common/chunk_store.rs\<close>): blocks are stored directly, or packed
  into packs of a fixed size through a read buffer and a write buffer; chunks are deduplicated by
  their checksum and size.
\<close>

section \<open>State\<close>

record repo_metadata =
  md_id :: uuid
  md_config :: repo_config
  md_master_key :: bytes
  md_salt :: bytes
  md_header_id :: uuid

record chunk_info =
  block_id :: uuid
  references :: "u64 set"

record pack_index =
  pi_id :: uuid
  pi_offset :: nat
  pi_size :: nat

record pack =
  pack_id :: uuid
  pack_buffer :: bytes

text \<open>
  \<^verbatim>\<open>RepoState\<close>; \<open>rng\<close> counts the random values drawn so far.
\<close>

record 's repo_state =
  store :: 's
  metadata :: repo_metadata
  chunks :: "(chunk, chunk_info) hmap"
  packs :: "(uuid, pack_index list) hmap"
  transactions :: "u64 lock_table"
  master_key :: bytes
  repo_lock :: "uuid lock"
  rng :: nat

record store_state =
  read_buffer :: "pack option"
  write_buffer :: "pack option"

definition store_state_new :: store_state where
  "store_state_new = \<lparr>read_buffer = None, write_buffer = None\<rparr>"

abbreviation cfg :: "'s repo_state \<Rightarrow> repo_config" where
  "cfg s \<equiv> md_config (metadata s)"

definition padded :: "nat \<Rightarrow> pack \<Rightarrow> bytes result" where
  "padded pack_size p =
     (if length (pack_buffer p) \<le> pack_size
      then Ok (pack_buffer p @ replicate (pack_size - length (pack_buffer p)) 0)
      else Panic ''The size of the current pack has exceeded the configured pack size.'')"

text \<open>The blocks of the repository metadata and of the format version.\<close>

definition METADATA_BLOCK_ID :: uuid where
  "METADATA_BLOCK_ID = 0x8691d36029c611ea8bc12fc8cfe66f33"

definition VERSION_BLOCK_ID :: uuid where
  "VERSION_BLOCK_ID = 0xcbf28b1c355011ea8cb087d7a14efe10"

section \<open>Access to the data store\<close>

definition store_read :: "'s data_store_ops \<Rightarrow> uuid \<Rightarrow> ('s repo_state, bytes option) op" where
  "store_read D i s = (case store_result (ds_read_block D i (store s)) of (r, st) \<Rightarrow> (r, s\<lparr>store := st\<rparr>))"

definition store_write :: "'s data_store_ops \<Rightarrow> uuid \<Rightarrow> bytes \<Rightarrow> ('s repo_state, unit) op" where
  "store_write D i d s = (case store_result (ds_write_block D i d (store s)) of (r, st) \<Rightarrow> (r, s\<lparr>store := st\<rparr>))"

definition store_remove :: "'s data_store_ops \<Rightarrow> uuid \<Rightarrow> ('s repo_state, unit) op" where
  "store_remove D i s = (case store_result (ds_remove_block D i (store s)) of (r, st) \<Rightarrow> (r, s\<lparr>store := st\<rparr>))"

definition store_list :: "'s data_store_ops \<Rightarrow> ('s repo_state, uuid list) op" where
  "store_list D s = (case store_result (ds_list_blocks D (store s)) of (r, st) \<Rightarrow> (r, s\<lparr>store := st\<rparr>))"

definition new_uuid :: "ext \<Rightarrow> ('s repo_state, uuid) op" where
  "new_uuid X s = (Ok (new_v4 X (rng s)), s\<lparr>rng := Suc (rng s)\<rparr>)"

definition encode_data :: "ext \<Rightarrow> bytes \<Rightarrow> ('s repo_state, bytes) op" where
  "encode_data X data s = (case encode_with X (cfg s) (master_key s) data (rng s) of
     (r, c) \<Rightarrow> (r, s\<lparr>rng := c\<rparr>))"

definition decode_data :: "ext \<Rightarrow> bytes \<Rightarrow> ('s repo_state, bytes) op" where
  "decode_data X data s = (decode_with X (cfg s) (master_key s) data, s)"

section \<open>Direct blocks\<close>

definition direct_read_block :: "'s data_store_ops \<Rightarrow> ext \<Rightarrow> uuid \<Rightarrow> ('s repo_state, bytes) op" where
  "direct_read_block D X i = bindR (store_read D i) (\<lambda>b. case b of
      None \<Rightarrow> throw InvalidData
    | Some encoded_block \<Rightarrow> decode_data X encoded_block)"

definition direct_write_block :: "'s data_store_ops \<Rightarrow> ext \<Rightarrow> uuid \<Rightarrow> bytes \<Rightarrow> ('s repo_state, unit) op" where
  "direct_write_block D X i data = bindR (encode_data X data) (\<lambda>encoded_block.
     store_write D i encoded_block)"

section \<open>Packed blocks\<close>

text \<open>
  The operations on packs work on the state of the repository and the buffers of the caller.
\<close>

type_synonym 's cs = "'s repo_state \<times> store_state"

definition on_repo :: "('s repo_state, 'a) op \<Rightarrow> ('s cs, 'a) op" where
  "on_repo m st = (case m (fst st) of (r, s') \<Rightarrow> (r, (s', snd st)))"

definition set_read_buffer :: "pack \<Rightarrow> 's cs \<Rightarrow> 's cs" where
  "set_read_buffer p st = (fst st, (snd st)\<lparr>read_buffer := Some p\<rparr>)"

definition set_write_buffer :: "pack \<Rightarrow> 's cs \<Rightarrow> 's cs" where
  "set_write_buffer p st = (fst st, (snd st)\<lparr>write_buffer := Some p\<rparr>)"

text \<open>The contents of a pack: from the read buffer when it holds that pack, else from the store.\<close>

definition load_pack :: "'s data_store_ops \<Rightarrow> ext \<Rightarrow> uuid \<Rightarrow> ('s cs, bytes) op" where
  "load_pack D X i st = (case read_buffer (snd st) of
      Some p \<Rightarrow> if pack_id p = i then (Ok (pack_buffer p), st)
        else bindR (on_repo (direct_read_block D X i)) (\<lambda>b.
          bindR (modify (set_read_buffer \<lparr>pack_id = i, pack_buffer = b\<rparr>)) (\<lambda>_. ret b)) st
    | None \<Rightarrow> bindR (on_repo (direct_read_block D X i)) (\<lambda>b.
          bindR (modify (set_read_buffer \<lparr>pack_id = i, pack_buffer = b\<rparr>)) (\<lambda>_. ret b)) st)"

definition read_pack_index :: "'s data_store_ops \<Rightarrow> ext \<Rightarrow> pack_index \<Rightarrow> ('s cs, bytes) op" where
  "read_pack_index D X x = bindR (load_pack D X (pi_id x)) (\<lambda>b.
     lift_result (slice_of (pi_offset x) (add32 (pi_offset x) (pi_size x)) b))"

definition packing_read_block :: "'s data_store_ops \<Rightarrow> ext \<Rightarrow> uuid \<Rightarrow> ('s cs, bytes) op" where
  "packing_read_block D X i st = (case hget (packs (fst st)) i of
      None \<Rightarrow> (Err InvalidData, st)
    | Some index_list \<Rightarrow> bindR (mapM (read_pack_index D X) index_list) (\<lambda>bs. ret (concat bs)) st)"

text \<open>
  The loop of the packing writer.  Its variables, next to the pack in the write buffer, are the
  offset and the size of the block in the current pack, the number of bytes written and the
  indices collected so far.  A step fills the current pack; it returns the next variables, or
  nothing when the block is written.
\<close>

record pack_vars =
  current_offset :: nat
  current_size :: nat
  bytes_written :: nat
  new_packs_indices :: "pack_index list"

definition pack_new :: "ext \<Rightarrow> ('s cs, pack) op" where
  "pack_new X = bindR (on_repo (new_uuid X)) (\<lambda>i. ret \<lparr>pack_id = i, pack_buffer = []\<rparr>)"

definition current_pack :: "'s cs \<Rightarrow> pack" where
  "current_pack st = (case write_buffer (snd st) of Some p \<Rightarrow> p | None \<Rightarrow> \<lparr>pack_id = 0, pack_buffer = []\<rparr>)"

definition write_pack :: "'s data_store_ops \<Rightarrow> ext \<Rightarrow> uuid \<Rightarrow> bytes \<Rightarrow> ('s cs, unit) op" where
  "write_pack D X i data = on_repo (direct_write_block D X i data)"

definition assertR :: "bool \<Rightarrow> string \<Rightarrow> ('s, unit) op" where
  "assertR b m = (if b then ret () else panic m)"

definition fill_pack :: "nat \<Rightarrow> bytes \<Rightarrow> pack_vars \<Rightarrow> ('s cs, pack_vars) op" where
  "fill_pack pack_size data v st =
    (let p = current_pack st;
         remaining_space = sub64 pack_size (length (pack_buffer p));
         buffer_end = min (bytes_written v + remaining_space) (length data) in
     bindR (lift_result (slice_of (bytes_written v) buffer_end data)) (\<lambda>next_buffer.
       let p' = p\<lparr>pack_buffer := pack_buffer p @ next_buffer\<rparr>;
           written = bytes_written v + length next_buffer;
           sz = add32 (current_size v) (as_u32 (length next_buffer)) in
       bindR (modify (set_write_buffer p')) (\<lambda>_.
       bindR (assertR (length (pack_buffer p') \<le> pack_size)
         ''The size of the current pack has exceeded the configured pack size.'') (\<lambda>_.
       bindR (assertR (written \<le> length data)
         ''More bytes were written than are available in the provided buffer.'') (\<lambda>_.
       ret (v\<lparr>current_size := sz, bytes_written := written,
              new_packs_indices := new_packs_indices v @
                [\<lparr>pi_id = pack_id p', pi_offset = current_offset v, pi_size = sz\<rparr>]\<rparr>))))) st)"

definition rotate_pack :: "'s data_store_ops \<Rightarrow> ext \<Rightarrow> nat \<Rightarrow> pack_vars \<Rightarrow> ('s cs, pack_vars) op" where
  "rotate_pack D X pack_size v st =
    (let p = current_pack st in
     if length (pack_buffer p) = pack_size then
       bindR (write_pack D X (pack_id p) (pack_buffer p)) (\<lambda>_.
       bindR (pack_new X) (\<lambda>q.
       bindR (modify (set_write_buffer q)) (\<lambda>_.
       ret (v\<lparr>current_offset := 0, current_size := 0\<rparr>)))) st
     else (Ok v, st))"

definition finish_pack ::
  "'s data_store_ops \<Rightarrow> ext \<Rightarrow> nat \<Rightarrow> uuid \<Rightarrow> bytes \<Rightarrow> pack_vars \<Rightarrow> ('s cs, pack_vars + unit) op" where
  "finish_pack D X pack_size i data v st =
    (if bytes_written v = length data then
       bindR (lift_result (padded pack_size (current_pack st))) (\<lambda>padded_pack.
       bindR (write_pack D X (pack_id (current_pack st)) padded_pack) (\<lambda>_.
       bindR (on_repo (modify (\<lambda>s. s\<lparr>packs := hput i (new_packs_indices v) (packs s)\<rparr>))) (\<lambda>_.
       ret (Inr ())))) st
     else (Ok (Inl v), st))"

definition pack_write_step ::
  "'s data_store_ops \<Rightarrow> ext \<Rightarrow> nat \<Rightarrow> uuid \<Rightarrow> bytes \<Rightarrow> pack_vars \<Rightarrow> ('s cs, pack_vars + unit) op" where
  "pack_write_step D X pack_size i data v =
     bindR (fill_pack pack_size data v) (\<lambda>v1.
     bindR (rotate_pack D X pack_size v1) (\<lambda>v2.
     finish_pack D X pack_size i data v2))"

partial_function (option) pack_write_loop ::
  "'s data_store_ops \<Rightarrow> ext \<Rightarrow> nat \<Rightarrow> uuid \<Rightarrow> bytes \<Rightarrow> pack_vars \<Rightarrow> 's cs \<Rightarrow> (unit result \<times> 's cs) option" where
  "pack_write_loop D X pack_size i data v st =
     (case pack_write_step D X pack_size i data v st of
        (Ok (Inl v'), st') \<Rightarrow> pack_write_loop D X pack_size i data v' st'
      | (Ok (Inr u), st') \<Rightarrow> Some (Ok u, st')
      | (Err e, st') \<Rightarrow> Some (Err e, st')
      | (Panic m, st') \<Rightarrow> Some (Panic m, st')
      | (Diverge, st') \<Rightarrow> Some (Diverge, st'))"

definition ensure_pack :: "ext \<Rightarrow> ('s cs, unit) op" where
  "ensure_pack X st = (case write_buffer (snd st) of
      Some p \<Rightarrow> (Ok (), st)
    | None \<Rightarrow> bindR (pack_new X) (\<lambda>p. modify (set_write_buffer p)) st)"

definition packing_write_block :: "'s data_store_ops \<Rightarrow> ext \<Rightarrow> nat \<Rightarrow> uuid \<Rightarrow> bytes \<Rightarrow> ('s cs, unit) op" where
  "packing_write_block D X pack_size i data = bindR (ensure_pack X) (\<lambda>_ st.
     option_result (pack_write_loop D X pack_size i data
       \<lparr>current_offset = as_u32 (length (pack_buffer (current_pack st))), current_size = 0,
        bytes_written = 0, new_packs_indices = []\<rparr> st) st)"

section \<open>Blocks and chunks\<close>

definition read_block :: "'s data_store_ops \<Rightarrow> ext \<Rightarrow> uuid \<Rightarrow> ('s cs, bytes) op" where
  "read_block D X i st = (case config_packing (cfg (fst st)) of
      PackingNone \<Rightarrow> on_repo (direct_read_block D X i) st
    | PackingFixed pack_size \<Rightarrow> packing_read_block D X i st)"

definition write_block :: "'s data_store_ops \<Rightarrow> ext \<Rightarrow> uuid \<Rightarrow> bytes \<Rightarrow> ('s cs, unit) op" where
  "write_block D X i data st = (case config_packing (cfg (fst st)) of
      PackingNone \<Rightarrow> on_repo (direct_write_block D X i data) st
    | PackingFixed pack_size \<Rightarrow> packing_write_block D X pack_size i data st)"

definition read_chunk :: "'s data_store_ops \<Rightarrow> ext \<Rightarrow> chunk \<Rightarrow> ('s cs, bytes) op" where
  "read_chunk D X c st = (case hget (chunks (fst st)) c of
      None \<Rightarrow> (Err InvalidData, st)
    | Some info \<Rightarrow> read_block D X (block_id info) st)"

definition chunk_of :: "ext \<Rightarrow> bytes \<Rightarrow> chunk" where
  "chunk_of X data = \<lparr>c_size = as_u32 (length data), c_hash = chunk_hash X data\<rparr>"

definition put_chunk_info :: "chunk \<Rightarrow> chunk_info \<Rightarrow> 's repo_state \<Rightarrow> 's repo_state" where
  "put_chunk_info c info s = s\<lparr>chunks := hput c info (chunks s)\<rparr>"

definition write_chunk :: "'s data_store_ops \<Rightarrow> ext \<Rightarrow> bytes \<Rightarrow> u64 \<Rightarrow> ('s cs, chunk) op" where
  "write_chunk D X data hid st =
    (if length data > 2 ^ 32 - 1 then (Panic ''Given data exceeds maximum chunk size.'', st)
     else let c = chunk_of X data in
       case hget (chunks (fst st)) c of
         Some info \<Rightarrow>
           (Ok c, (put_chunk_info c (info\<lparr>references := insert hid (references info)\<rparr>) (fst st), snd st))
       | None \<Rightarrow>
           bindR (on_repo (new_uuid X)) (\<lambda>bid.
           bindR (write_block D X bid data) (\<lambda>_.
           bindR (on_repo (modify (put_chunk_info c \<lparr>block_id = bid, references = {hid}\<rparr>))) (\<lambda>_.
           ret c))) st)"

section \<open>Evaluation\<close>

declare store_state_new_def [exec_defs]
  padded_def [exec_defs]
  store_read_def [exec_defs]
  store_write_def [exec_defs]
  store_remove_def [exec_defs]
  store_list_def [exec_defs]
  new_uuid_def [exec_defs]
  encode_data_def [exec_defs]
  decode_data_def [exec_defs]
  direct_read_block_def [exec_defs]
  direct_write_block_def [exec_defs]
  on_repo_def [exec_defs]
  set_read_buffer_def [exec_defs]
  set_write_buffer_def [exec_defs]
  load_pack_def [exec_defs]
  read_pack_index_def [exec_defs]
  packing_read_block_def [exec_defs]
  pack_new_def [exec_defs]
  current_pack_def [exec_defs]
  write_pack_def [exec_defs]
  assertR_def [exec_defs]
  fill_pack_def [exec_defs]
  rotate_pack_def [exec_defs]
  finish_pack_def [exec_defs]
  pack_write_step_def [exec_defs]
  pack_write_loop.simps [exec_defs]
  ensure_pack_def [exec_defs]
  packing_write_block_def [exec_defs]
  read_block_def [exec_defs]
  write_block_def [exec_defs]
  read_chunk_def [exec_defs]
  chunk_of_def [exec_defs]
  put_chunk_info_def [exec_defs]
  write_chunk_def [exec_defs]

end
