(* ===== verification/Chunk_Correct.thy ===== *)
theory Chunk_Correct
  imports Chunk_Store
begin

text \<open>
  What the chunk store promises when blocks are stored directly (\<open>PackingNone\<close>): the abstract view
  of a repository is a map from chunks to data, reading looks a chunk up, writing adds it, and
  nothing else changes.  The lemmas are proved in the locale \<open>repo_env\<close>, a data store that does not
  fail and external functions that satisfy their laws; the data store in memory is an instance.
\<close>

section \<open>The abstract view\<close>

definition decoded :: "('s \<Rightarrow> uuid \<rightharpoonup> bytes) \<Rightarrow> ext \<Rightarrow> 's repo_state \<Rightarrow> uuid \<rightharpoonup> bytes" where
  "decoded bl X s i = (case bl (store s) i of
      None \<Rightarrow> None
    | Some e \<Rightarrow> (case decode_with X (cfg s) (master_key s) e of Ok d \<Rightarrow> Some d | _ \<Rightarrow> None))"

definition chunk_data :: "('s \<Rightarrow> uuid \<rightharpoonup> bytes) \<Rightarrow> ext \<Rightarrow> 's repo_state \<Rightarrow> chunk \<rightharpoonup> bytes" where
  "chunk_data bl X s c = (case hget (chunks s) c of
      None \<Rightarrow> None
    | Some info \<Rightarrow> decoded bl X s (block_id info))"

text \<open>
  The UUIDs drawn from the current position of the generator up to its \<open>N\<close>-th value are pairwise
  different and name no block of the store and none of the fixed blocks of a repository, which are no
  random UUIDs.
\<close>

definition reserved_ids :: "uuid set" where
  "reserved_ids = {METADATA_BLOCK_ID, VERSION_BLOCK_ID}"

definition fresh_ids :: "('s \<Rightarrow> uuid \<rightharpoonup> bytes) \<Rightarrow> ext \<Rightarrow> nat \<Rightarrow> 's repo_state \<Rightarrow> bool" where
  "fresh_ids bl X N s \<longleftrightarrow> inj_on (new_v4 X) {rng s..<N} \<and>
     (\<forall>k. rng s \<le> k \<and> k < N \<longrightarrow> new_v4 X k \<notin> dom (bl (store s)) \<union> reserved_ids)"

text \<open>
  \<open>S\<close> is the set of byte strings that the repository stores as chunks.  No two of them have the
  same size and checksum, and it holds the pieces of its elements, which chunking makes.
\<close>

definition collision_free :: "ext \<Rightarrow> bytes set \<Rightarrow> bool" where
  "collision_free X S \<longleftrightarrow> inj_on (\<lambda>d. (length d, chunk_hash X d)) S \<and>
     (\<forall>d \<in> S. \<forall>i n. take n (drop i d) \<in> S)"

lemma collision_free_piece: "collision_free X S \<Longrightarrow> d \<in> S \<Longrightarrow> take n (drop i d) \<in> S"
  by (simp add: collision_free_def)

definition chunks_ok :: "('s \<Rightarrow> uuid \<rightharpoonup> bytes) \<Rightarrow> ext \<Rightarrow> bytes set \<Rightarrow> 's repo_state \<Rightarrow> bool" where
  "chunks_ok bl X S s \<longleftrightarrow> hwf (chunks s) \<and>
     (\<forall>c info. hget (chunks s) c = Some info \<longrightarrow>
        block_id info \<notin> reserved_ids \<and>
        (\<exists>d \<in> S. decoded bl X s (block_id info) = Some d \<and> length d = c_size c \<and> length d < 2 ^ 32 \<and>
           chunk_hash X d = c_hash c))"

definition direct_inv :: "('s \<Rightarrow> uuid \<rightharpoonup> bytes) \<Rightarrow> ext \<Rightarrow> bytes set \<Rightarrow> nat \<Rightarrow> 's repo_state \<Rightarrow> bool" where
  "direct_inv bl X S N s \<longleftrightarrow> config_packing (cfg s) = PackingNone \<and>
     key_ok X (cfg s) (master_key s) \<and> chunks_ok bl X S s \<and> fresh_ids bl X N s"

lemma decoded_cong:
  "metadata s' = metadata s \<Longrightarrow> master_key s' = master_key s \<Longrightarrow> bl (store s') i = bl (store s) i \<Longrightarrow>
     decoded bl X s' i = decoded bl X s i"
  by (simp add: decoded_def split: option.split)

lemma chunk_data_cong:
  "decoded bl X s' = decoded bl X s \<Longrightarrow> chunks s' = chunks s \<Longrightarrow> chunk_data bl X s' = chunk_data bl X s"
  by (auto simp: chunk_data_def fun_eq_iff split: option.split)

lemma fresh_ids_write:
  assumes "fresh_ids bl X N s" "bl (store s') = (bl (store s))(new_v4 X (rng s) \<mapsto> e)" "rng s < rng s'"
  shows "fresh_ids bl X N s'"
proof -
  have "new_v4 X k \<noteq> new_v4 X (rng s)" if "rng s' \<le> k" "k < N" for k
    using assms(1,3) that by (auto simp: fresh_ids_def dest!: inj_onD [of _ _ k "rng s"])
  with assms show ?thesis
    by (auto simp: fresh_ids_def intro: inj_on_subset)
qed

lemma chunks_okD:
  assumes "chunks_ok bl X S s" "chunk_data bl X s c = Some d"
  shows "d \<in> S \<and> length d = c_size c \<and> length d < 2 ^ 32 \<and> chunk_hash X d = c_hash c"
proof -
  from assms(2) obtain info where "hget (chunks s) c = Some info" "decoded bl X s (block_id info) = Some d"
    by (auto simp: chunk_data_def split: option.splits)
  with assms(1) show ?thesis by (fastforce simp: chunks_ok_def)
qed

text \<open>A read leaves everything as it is but for the internal state of the store.\<close>

definition store_eq :: "('s \<Rightarrow> uuid \<rightharpoonup> bytes) \<Rightarrow> 's repo_state \<Rightarrow> 's repo_state \<Rightarrow> bool" where
  "store_eq bl s s' \<longleftrightarrow> (\<exists>st. s' = s\<lparr>store := st\<rparr> \<and> bl st = bl (store s))"

lemma store_eq_refl [simp]: "store_eq bl s s"
  unfolding store_eq_def by (rule exI [of _ "store s"]) simp

lemma store_eq_trans: "store_eq bl s s' \<Longrightarrow> store_eq bl s' s'' \<Longrightarrow> store_eq bl s s''"
  by (auto simp: store_eq_def)

lemma store_eq_fields:
  assumes "store_eq bl s s'"
  shows "metadata s' = metadata s" "chunks s' = chunks s" "packs s' = packs s"
    "transactions s' = transactions s" "master_key s' = master_key s" "rng s' = rng s"
    "repo_lock s' = repo_lock s" "bl (store s') = bl (store s)"
  using assms by (auto simp: store_eq_def)

lemma store_eq_view:
  assumes "store_eq bl s s'"
  shows "decoded bl X s' = decoded bl X s" "chunk_data bl X s' = chunk_data bl X s"
    "direct_inv bl X S N s' = direct_inv bl X S N s"
proof -
  show d: "decoded bl X s' = decoded bl X s"
    using store_eq_fields [OF assms] by (auto simp: fun_eq_iff intro: decoded_cong)
  then show "chunk_data bl X s' = chunk_data bl X s"
    using store_eq_fields [OF assms] by (blast intro: chunk_data_cong)
  show "direct_inv bl X S N s' = direct_inv bl X S N s"
    using store_eq_fields [OF assms] d by (simp add: direct_inv_def chunks_ok_def fresh_ids_def)
qed

text \<open>The parts of the state that writing chunks does not touch.\<close>

definition same_rest :: "'s repo_state \<Rightarrow> 's repo_state \<Rightarrow> bool" where
  "same_rest s s' \<longleftrightarrow> metadata s' = metadata s \<and> packs s' = packs s \<and>
     transactions s' = transactions s \<and> master_key s' = master_key s \<and> repo_lock s' = repo_lock s"

lemma same_rest_refl [simp]: "same_rest s s"
  by (simp add: same_rest_def)

lemma same_rest_trans: "same_rest s s' \<Longrightarrow> same_rest s' s'' \<Longrightarrow> same_rest s s''"
  by (simp add: same_rest_def)

lemma store_eq_same_rest: "store_eq bl s s' \<Longrightarrow> same_rest s s'"
  by (simp add: same_rest_def store_eq_fields)

text \<open>The handles that reference a chunk.\<close>

definition refs_of :: "'s repo_state \<Rightarrow> chunk \<Rightarrow> u64 set" where
  "refs_of s c = (case hget (chunks s) c of Some info \<Rightarrow> references info | None \<Rightarrow> {})"

text \<open>The lock table is no part of the view.\<close>

lemma view_transactions [simp]:
  "chunk_data bl X (s\<lparr>transactions := t\<rparr>) = chunk_data bl X s"
  "direct_inv bl X S N (s\<lparr>transactions := t\<rparr>) = direct_inv bl X S N s"
  "refs_of (s\<lparr>transactions := t\<rparr>) = refs_of s"
proof -
  have d: "decoded bl X (s\<lparr>transactions := t\<rparr>) = decoded bl X s"
    by (intro ext decoded_cong) simp_all
  then show "chunk_data bl X (s\<lparr>transactions := t\<rparr>) = chunk_data bl X s"
    by (intro chunk_data_cong) simp_all
  show "direct_inv bl X S N (s\<lparr>transactions := t\<rparr>) = direct_inv bl X S N s"
    by (simp add: direct_inv_def chunks_ok_def fresh_ids_def d)
  show "refs_of (s\<lparr>transactions := t\<rparr>) = refs_of s"
    by (simp add: refs_of_def fun_eq_iff)
qed

text \<open>
  How the view grows: every chunk keeps its data and its references, and blocks stay.
\<close>

definition grows :: "('s \<Rightarrow> uuid \<rightharpoonup> bytes) \<Rightarrow> ext \<Rightarrow> 's repo_state \<Rightarrow> 's repo_state \<Rightarrow> bool" where
  "grows bl X s s' \<longleftrightarrow> same_rest s s' \<and> rng s \<le> rng s' \<and>
     (\<forall>c d. chunk_data bl X s c = Some d \<longrightarrow> chunk_data bl X s' c = Some d) \<and>
     (\<forall>c. refs_of s c \<subseteq> refs_of s' c) \<and>
     (\<forall>i e. bl (store s) i = Some e \<longrightarrow> bl (store s') i = Some e)"

lemma grows_refl [simp]: "grows bl X s s"
  by (simp add: grows_def)

lemma grows_trans: "grows bl X s s' \<Longrightarrow> grows bl X s' s'' \<Longrightarrow> grows bl X s s''"
  unfolding grows_def by (intro conjI) (blast intro: same_rest_trans order_trans)+

lemma store_eq_grows: "store_eq bl s s' \<Longrightarrow> grows bl X s s'"
  by (simp add: grows_def store_eq_same_rest store_eq_view store_eq_fields refs_of_def)

lemma chunk_of_unique:
  assumes "collision_free X S" "chunks_ok bl X S s" "d \<in> S" "length d < 2 ^ 32"
    "chunk_data bl X s (chunk_of X d) = Some d'"
  shows "d' = d"
proof -
  from chunks_okD [OF assms(2,5)]
  have "d' \<in> S" "length d' = length d" "chunk_hash X d' = chunk_hash X d"
    using assms(4) by (auto simp: chunk_of_def as_u32_exact)
  with assms(1,3) show ?thesis
    by (auto simp: collision_free_def dest: inj_onD)
qed

lemma chunk_of_exact: "length d < 2 ^ 32 \<Longrightarrow> c_size (chunk_of X d) = length d"
  by (simp add: chunk_of_def as_u32_exact)

lemma direct_inv_chunk:
  "direct_inv bl X S N s \<Longrightarrow> hget (chunks s) c = Some info \<Longrightarrow>
     \<exists>d \<in> S. chunk_data bl X s c = Some d \<and> length d = c_size c \<and> length d < 2 ^ 32 \<and> chunk_hash X d = c_hash c"
  by (auto simp: direct_inv_def chunks_ok_def chunk_data_def)

lemma direct_inv_chunk_data:
  "direct_inv bl X S N s \<Longrightarrow> chunk_data bl X s c = Some d \<Longrightarrow>
     d \<in> S \<and> length d = c_size c \<and> length d < 2 ^ 32 \<and> chunk_hash X d = c_hash c"
  unfolding direct_inv_def by (blast dest: chunks_okD)

section \<open>Reading and writing\<close>

locale repo_env = reliable_store D blocks for D :: "'s data_store_ops" and blocks +
  fixes X :: ext
  assumes laws: "ext_laws X"
begin

lemma direct_read_ok:
  assumes "decoded blocks X s i = Some d"
  shows "\<exists>s'. direct_read_block D X i s = (Ok d, s') \<and> store_eq blocks s s'"
proof -
  obtain st where st: "ds_read_block D i (store s) = (Done (blocks (store s) i), st)"
    "blocks st = blocks (store s)"
    using read_reliable by blast
  moreover obtain e where "blocks (store s) i = Some e" "decode_with X (cfg s) (master_key s) e = Ok d"
    using assms by (auto simp: decoded_def split: option.splits result.splits)
  ultimately show ?thesis
    by (auto simp: direct_read_block_def store_read_def store_result_def decode_data_def bindR_def
      store_eq_def)
qed

lemma direct_write_ok:
  assumes "key_ok X (cfg s) (master_key s)"
  shows "\<exists>e st c. direct_write_block D X i d s = (Ok (), s\<lparr>store := st, rng := c\<rparr>) \<and>
    blocks st = (blocks (store s))(i \<mapsto> e) \<and> decode_with X (cfg s) (master_key s) e = Ok d \<and> rng s \<le> c \<and>
    c \<le> Suc (rng s)"
proof -
  obtain e c where e: "encode_with X (cfg s) (master_key s) d (rng s) = (Ok e, c)"
    "decode_with X (cfg s) (master_key s) e = Ok d"
    using encode_with_roundtrip [OF laws assms] by blast
  moreover obtain st where "ds_write_block D i e (store s) = (Done (), st)"
    "blocks st = (blocks (store s))(i \<mapsto> e)"
    using write_reliable by blast
  ultimately show ?thesis
    using encode_with_counter [OF e(1)]
    by (intro exI [of _ e] exI [of _ st] exI [of _ c])
      (simp add: direct_write_block_def encode_data_def store_write_def store_result_def bindR_def)
qed

lemma read_block_ok:
  assumes "config_packing (cfg s) = PackingNone" "decoded blocks X s i = Some d"
  shows "\<exists>s'. read_block D X i (s, t) = (Ok d, (s', t)) \<and> store_eq blocks s s'"
  using direct_read_ok [OF assms(2)] assms(1) by (auto simp: read_block_def on_repo_def)

lemma read_chunk_ok:
  assumes "config_packing (cfg s) = PackingNone" "chunk_data blocks X s c = Some d"
  shows "\<exists>s'. read_chunk D X c (s, t) = (Ok d, (s', t)) \<and> store_eq blocks s s'"
  using assms read_block_ok [OF assms(1)]
  by (auto simp: read_chunk_def chunk_data_def split: option.splits)

text \<open>A new chunk is stored in a block with a fresh UUID.\<close>

lemma write_new_chunk_ok:
  assumes "direct_inv blocks X S N s" "d \<in> S" "length d < 2 ^ 32" "rng s + 2 \<le> N"
    "hget (chunks s) (chunk_of X d) = None"
  shows "\<exists>s'. write_chunk D X d h (s, t) = (Ok (chunk_of X d), (s', t)) \<and> rng s' \<le> rng s + 2 \<and>
    direct_inv blocks X S N s' \<and> grows blocks X s s' \<and>
    refs_of s' = (refs_of s)(chunk_of X d := insert h (refs_of s (chunk_of X d))) \<and>
    chunk_data blocks X s' = (chunk_data blocks X s)(chunk_of X d \<mapsto> d)"
proof -
  let ?c = "chunk_of X d" and ?i = "new_v4 X (rng s)" and ?s = "s\<lparr>rng := Suc (rng s)\<rparr>"
  have inv: "config_packing (cfg s) = PackingNone" "key_ok X (cfg s) (master_key s)"
    "chunks_ok blocks X S s" "fresh_ids blocks X N s"
    using assms(1) by (auto simp: direct_inv_def)
  then have "key_ok X (cfg ?s) (master_key ?s)" by simp
  then obtain e st n where w: "direct_write_block D X ?i d ?s = (Ok (), ?s\<lparr>store := st, rng := n\<rparr>)"
    "blocks st = (blocks (store s))(?i \<mapsto> e)" "decode_with X (cfg s) (master_key s) e = Ok d"
    "Suc (rng s) \<le> n" "n \<le> Suc (Suc (rng s))"
    using direct_write_ok [of ?s ?i d] by auto
  let ?info = "\<lparr>block_id = ?i, references = {h}\<rparr>"
  let ?s' = "put_chunk_info ?c ?info (?s\<lparr>store := st, rng := n\<rparr>)"
  have run: "write_chunk D X d h (s, t) = (Ok ?c, (?s', t))"
    using assms(3,5) inv(1) w(1)
    by (simp add: write_chunk_def on_repo_def new_uuid_def write_block_def bindR_def Let_def)
  have rest: "same_rest s ?s'" "rng s \<le> rng ?s'" "rng ?s' \<le> rng s + 2"
    using w(4,5) by (auto simp: same_rest_def put_chunk_info_def)
  have new: "blocks (store s) ?i = None" "?i \<notin> reserved_ids"
    using inv(4) assms(4) by (auto simp: fresh_ids_def put_chunk_info_def)
  have dec: "decoded blocks X ?s' = (decoded blocks X s)(?i \<mapsto> d)"
    using w(2,3) by (auto simp: decoded_def fun_eq_iff put_chunk_info_def split: option.split)
  have old: "decoded blocks X s ?i = None" using new(1) by (simp add: decoded_def)
  have data: "chunk_data blocks X ?s' = (chunk_data blocks X s)(?c \<mapsto> d)"
    using dec old inv(3)
    by (fastforce simp: chunk_data_def fun_eq_iff put_chunk_info_def chunks_ok_def split: option.splits)
  have "chunks_ok blocks X S ?s'"
    unfolding chunks_ok_def dec using inv(3) old assms(2,3) new(2)
    by (force simp: chunks_ok_def put_chunk_info_def chunk_of_def as_u32_exact)
  moreover have "fresh_ids blocks X N ?s'"
    using inv(4) w(2,4)
    by (intro fresh_ids_write [OF inv(4), of _ e]) (simp_all add: put_chunk_info_def)
  ultimately have "direct_inv blocks X S N ?s'"
    using inv by (simp add: direct_inv_def put_chunk_info_def)
  moreover have refs: "refs_of ?s' = (refs_of s)(?c := insert h (refs_of s ?c))"
    using assms(5) by (auto simp: refs_of_def fun_eq_iff put_chunk_info_def)
  moreover have "chunk_data blocks X s ?c = None"
    using assms(5) by (simp add: chunk_data_def)
  moreover have "blocks (store ?s') j = Some b" if "blocks (store s) j = Some b" for j b
    using that new w(2) by (auto simp: put_chunk_info_def)
  ultimately have "grows blocks X s ?s'"
    using rest data by (auto simp: grows_def)
  with run rest data refs \<open>direct_inv blocks X S N ?s'\<close> show ?thesis by blast
qed

text \<open>A chunk that exists gets another reference.\<close>

lemma write_old_chunk_ok:
  assumes "direct_inv blocks X S N s" "collision_free X S" "d \<in> S" "length d < 2 ^ 32"
    "hget (chunks s) (chunk_of X d) = Some info"
  shows "\<exists>s'. write_chunk D X d h (s, t) = (Ok (chunk_of X d), (s', t)) \<and> rng s' = rng s \<and>
    direct_inv blocks X S N s' \<and> grows blocks X s s' \<and>
    refs_of s' = (refs_of s)(chunk_of X d := insert h (refs_of s (chunk_of X d))) \<and>
    chunk_data blocks X s' = (chunk_data blocks X s)(chunk_of X d \<mapsto> d)"
proof -
  let ?c = "chunk_of X d"
  let ?s' = "put_chunk_info ?c (info\<lparr>references := insert h (references info)\<rparr>) s"
  have dec: "decoded blocks X ?s' = decoded blocks X s"
    by (auto simp: fun_eq_iff put_chunk_info_def intro: decoded_cong)
  have data: "chunk_data blocks X ?s' = chunk_data blocks X s"
    using dec assms(5) by (auto simp: chunk_data_def fun_eq_iff put_chunk_info_def split: option.split)
  have inv: "direct_inv blocks X S N ?s'"
    using assms(1,5) dec unfolding direct_inv_def chunks_ok_def fresh_ids_def
    by (auto simp: put_chunk_info_def)
  obtain d' where "chunk_data blocks X s ?c = Some d'"
    using direct_inv_chunk [OF assms(1,5)] by blast
  moreover have "d' = d"
    using chunk_of_unique [OF assms(2) _ assms(3,4) calculation] assms(1) by (simp add: direct_inv_def)
  ultimately have "chunk_data blocks X s ?c = Some d" by simp
  moreover have "refs_of ?s' = (refs_of s)(?c := insert h (refs_of s ?c))"
    using assms(5) by (auto simp: refs_of_def fun_eq_iff put_chunk_info_def)
  moreover have "same_rest s ?s'" "rng ?s' = rng s" "store ?s' = store s"
    by (simp_all add: same_rest_def put_chunk_info_def)
  ultimately have "grows blocks X s ?s'" using data by (auto simp: grows_def)
  moreover have "write_chunk D X d h (s, t) = (Ok ?c, (?s', t))"
    using assms(4,5) by (simp add: write_chunk_def Let_def)
  ultimately show ?thesis
    using inv data \<open>chunk_data blocks X s ?c = Some d\<close> \<open>rng ?s' = rng s\<close>
      \<open>refs_of ?s' = (refs_of s)(?c := insert h (refs_of s ?c))\<close> by (intro exI [of _ ?s']) auto
qed

lemma write_chunk_ok:
  assumes "direct_inv blocks X S N s" "collision_free X S" "d \<in> S" "length d < 2 ^ 32" "rng s + 2 \<le> N"
  shows "\<exists>s'. write_chunk D X d h (s, t) = (Ok (chunk_of X d), (s', t)) \<and> rng s' \<le> rng s + 2 \<and>
    direct_inv blocks X S N s' \<and> grows blocks X s s' \<and>
    refs_of s' = (refs_of s)(chunk_of X d := insert h (refs_of s (chunk_of X d))) \<and>
    chunk_data blocks X s' = (chunk_data blocks X s)(chunk_of X d \<mapsto> d)"
proof (cases "hget (chunks s) (chunk_of X d)")
  case None
  with assms show ?thesis by (intro write_new_chunk_ok)
next
  case (Some info)
  from write_old_chunk_ok [OF assms(1-4) Some] show ?thesis by (metis le_add1)
qed

end

interpretation mem_env: repo_env memory_store "\<lambda>s. hget s" ref_ext
  by unfold_locales (rule ref_ext_laws)

section \<open>A concrete repository\<close>

text \<open>A repository in memory that stores one chunk of three bytes.\<close>

definition ref_chunk :: chunk where
  "ref_chunk = \<lparr>c_size = 3, c_hash = [1, 2, 3]\<rparr>"

definition ref_repo :: "(uuid, bytes) hmap repo_state" where
  "ref_repo = \<lparr>store = [(0, [1, 2, 3])],
     metadata = \<lparr>md_id = 9, md_config = config_default\<lparr>config_chunking := Fixed 2\<rparr>, md_master_key = [], md_salt = [],
       md_header_id = 0\<rparr>,
     chunks = [(ref_chunk, \<lparr>block_id = 0, references = {1}\<rparr>)], packs = [], transactions = {}, master_key = [],
     repo_lock = Lock 9, rng = 1\<rparr>"

abbreviation mem_blocks :: "(uuid, bytes) hmap \<Rightarrow> uuid \<rightharpoonup> bytes" where
  "mem_blocks \<equiv> \<lambda>s. hget s"

lemma ref_collision_free: "collision_free ref_ext UNIV"
  by (auto simp: collision_free_def chunk_hash_def ref_ext_def inj_on_def)

lemma of_nat_uuid_eq: "a < 2 ^ 128 \<Longrightarrow> b < 2 ^ 128 \<Longrightarrow> (of_nat a :: uuid) = of_nat b \<longleftrightarrow> a = b"
  by (simp add: word_of_nat_eq_iff take_bit_nat_eq_self)

lemma ref_fresh: "fresh_ids mem_blocks ref_ext 100 ref_repo"
proof -
  have small: "a < 2 ^ 128" if "a < 100" for a :: nat using that by simp
  have "inj_on (new_v4 ref_ext) {1..<100}"
    by (auto simp: inj_on_def ref_ext_def of_nat_uuid_eq small)
  moreover have "new_v4 ref_ext k \<noteq> 0" if "1 \<le> k" "k < 100" for k
    using of_nat_uuid_eq [of k 0] small [OF that(2)] that(1) by (simp add: ref_ext_def)
  moreover have "new_v4 ref_ext k \<notin> reserved_ids" if "k < 100" for k
  proof -
    have "unat (new_v4 ref_ext k) = k" using small [OF that] by (simp add: ref_ext_def unat_of_nat)
    with that show ?thesis by (auto simp: reserved_ids_def METADATA_BLOCK_ID_def VERSION_BLOCK_ID_def)
  qed
  ultimately show ?thesis by (auto simp: fresh_ids_def ref_repo_def)
qed

lemma ref_chunk_data: "chunk_data mem_blocks ref_ext ref_repo = [ref_chunk \<mapsto> [1, 2, 3]]"
  by (auto simp: chunk_data_def decoded_def ref_repo_def decode_with_def decrypt_def decompress_def config_default_def
    fun_eq_iff)

lemma zero_not_reserved: "0 \<notin> reserved_ids"
  by (simp add: reserved_ids_def METADATA_BLOCK_ID_def VERSION_BLOCK_ID_def)

lemma ref_direct_inv: "direct_inv mem_blocks ref_ext UNIV 100 ref_repo"
  using ref_fresh ref_chunk_data zero_not_reserved
  by (auto simp: direct_inv_def ref_repo_def key_ok_def config_default_def chunks_ok_def chunk_hash_def ref_ext_def
    ref_chunk_def hwf_def decoded_def decode_with_def decrypt_def decompress_def split: if_splits)

lemma ref_refs: "refs_of ref_repo ref_chunk = {1}"
  by (simp add: refs_of_def ref_repo_def)

lemmas ref_repo_facts = ref_direct_inv ref_chunk_data ref_refs ref_collision_free

lemma ref_rng: "rng ref_repo = 1"
  by (simp add: ref_repo_def)

section \<open>The contract of the chunk store\<close>

text \<open>
  C6: Writing a chunk and reading it back gives its data.  The write succeeds; every other chunk keeps
  its data and its references, the chunk gets a reference to the object, the blocks of the store stay
  as they were, and when the repository has the chunk already nothing is stored.
\<close>

theorem chunk_write_read:
  assumes "repo_env D bl X" "direct_inv bl X S N s" "collision_free X S" "d \<in> S" "length d < 2 ^ 32"
    and "rng s + 2 \<le> N"
  shows "\<exists>s' s''. write_chunk D X d h (s, t) = (Ok (chunk_of X d), (s', t)) \<and>
    read_chunk D X (chunk_of X d) (s', t) = (Ok d, (s'', t)) \<and>
    chunk_data bl X s' = (chunk_data bl X s)(chunk_of X d \<mapsto> d) \<and>
    refs_of s' = (refs_of s)(chunk_of X d := insert h (refs_of s (chunk_of X d))) \<and>
    (\<forall>i e. bl (store s) i = Some e \<longrightarrow> bl (store s') i = Some e) \<and>
    (hget (chunks s) (chunk_of X d) \<noteq> None \<longrightarrow> store s' = store s) \<and> direct_inv bl X S N s'"
proof -
  obtain s' where s': "write_chunk D X d h (s, t) = (Ok (chunk_of X d), (s', t))" "direct_inv bl X S N s'"
    "grows bl X s s'" "refs_of s' = (refs_of s)(chunk_of X d := insert h (refs_of s (chunk_of X d)))"
    "chunk_data bl X s' = (chunk_data bl X s)(chunk_of X d \<mapsto> d)"
    using repo_env.write_chunk_ok [OF assms] by blast
  moreover obtain s'' where "read_chunk D X (chunk_of X d) (s', t) = (Ok d, (s'', t))"
    using repo_env.read_chunk_ok [OF assms(1), of s' "chunk_of X d" d t] s'(2,5) by (auto simp: direct_inv_def)
  moreover have "store s' = store s" if "hget (chunks s) (chunk_of X d) \<noteq> None"
    using that s'(1) assms(5) by (auto simp: write_chunk_def Let_def put_chunk_info_def)
  ultimately show ?thesis unfolding grows_def by blast
qed

theorem chunk_write_read_witness:
  "\<exists>s' s''. write_chunk memory_store ref_ext [8, 9] 5 (ref_repo, store_state_new) =
      (Ok \<lparr>c_size = 2, c_hash = [8, 9]\<rparr>, (s', store_state_new)) \<and>
    read_chunk memory_store ref_ext \<lparr>c_size = 2, c_hash = [8, 9]\<rparr> (s', store_state_new) = (Ok [8, 9], (s'', store_state_new)) \<and>
    chunk_data mem_blocks ref_ext s' ref_chunk = Some [1, 2, 3]"
proof -
  have c: "chunk_of ref_ext [8, 9] = \<lparr>c_size = 2, c_hash = [8, 9]\<rparr>" "chunk_of ref_ext [8, 9] \<noteq> ref_chunk"
    by (simp_all add: chunk_of_def chunk_hash_def ref_ext_def as_u32_def ref_chunk_def)
  show ?thesis
    using chunk_write_read [OF mem_env.repo_env_axioms ref_direct_inv ref_collision_free, of "[8, 9]" 5 store_state_new] c
    by (auto simp: ref_rng ref_chunk_data)
qed

section \<open>Packed blocks\<close>

text \<open>
  The concrete repository with packs of eight bytes and an empty store.
\<close>

definition ref_packed :: "(uuid, bytes) hmap repo_state" where
  "ref_packed = ref_repo\<lparr>store := [], chunks := [],
     metadata := (metadata ref_repo)\<lparr>md_config := config_default\<lparr>config_packing := PackingFixed 8\<rparr>\<rparr>, rng := 10\<rparr>"

text \<open>The pack that a write goes into: the one in the write buffer, or a new one.\<close>

definition open_pack :: "ext \<Rightarrow> 's cs \<Rightarrow> pack" where
  "open_pack X st = (case write_buffer (snd st) of Some p \<Rightarrow> p | None \<Rightarrow> \<lparr>pack_id = new_v4 X (rng (fst st)), pack_buffer = []\<rparr>)"

text \<open>
  A block that fits into the current pack, with room left, is appended to it; the padded pack is stored, and the read
  buffer is left alone.
\<close>

context repo_env
begin

lemma packing_write_fits:
  assumes key: "key_ok X (cfg s) (master_key s)" and n: "config_packing (cfg s) = PackingFixed n" "n < 2 ^ 32"
    and p: "open_pack X (s, t) = p" "length (pack_buffer p) + length d < n"
  shows "\<exists>s'. write_block D X i d (s, t) = (Ok (), (s', t\<lparr>write_buffer := Some (p\<lparr>pack_buffer := pack_buffer p @ d\<rparr>)\<rparr>)) \<and>
    cfg s' = cfg s \<and> master_key s' = master_key s \<and>
    decoded blocks X s' (pack_id p) = Some (pack_buffer p @ d @ replicate (n - length (pack_buffer p) - length d) 0) \<and>
    packs s' = hput i [\<lparr>pi_id = pack_id p, pi_offset = length (pack_buffer p), pi_size = length d\<rparr>] (packs s)"
proof -
  let ?c = "if write_buffer t = None then Suc (rng s) else rng s" and ?p = "p\<lparr>pack_buffer := pack_buffer p @ d\<rparr>"
  let ?s = "s\<lparr>rng := ?c\<rparr>" and ?t = "t\<lparr>write_buffer := Some p\<rparr>" and ?u = "t\<lparr>write_buffer := Some ?p\<rparr>"
  let ?data = "pack_buffer p @ d @ replicate (n - length (pack_buffer p) - length d) 0"
  let ?x = "\<lparr>pi_id = pack_id p, pi_offset = length (pack_buffer p), pi_size = length d\<rparr>"
  have len: "as_u32 (length (pack_buffer p)) = length (pack_buffer p)" "as_u32 (length d) = length d" "add32 0 (length d) = length d"
    using n(2) p(2) by (simp_all add: as_u32_def add32_def)
  have fill: "fill_pack n d \<lparr>current_offset = length (pack_buffer p), current_size = 0, bytes_written = 0, new_packs_indices = []\<rparr> (?s, ?t) =
      (Ok \<lparr>current_offset = length (pack_buffer p), current_size = length d, bytes_written = length d, new_packs_indices = [?x]\<rparr>, (?s, ?u))"
    using len p(2) n(2)
    by (simp add: fill_pack_def current_pack_def Let_def bindR_def slice_of_def sub64_def assertR_def set_write_buffer_def)
  have key': "key_ok X (cfg ?s) (master_key ?s)" using key by simp
  obtain e st c where w: "direct_write_block D X (pack_id p) ?data ?s = (Ok (), ?s\<lparr>store := st, rng := c\<rparr>)"
    "blocks st = (blocks (store ?s))(pack_id p \<mapsto> e)" "decode_with X (cfg ?s) (master_key ?s) e = Ok ?data"
    using direct_write_ok [OF key', of "pack_id p" ?data] by blast
  let ?s' = "?s\<lparr>store := st, rng := c, packs := hput i [?x] (packs s)\<rparr>"
  have step: "pack_write_step D X n i d \<lparr>current_offset = length (pack_buffer p), current_size = 0, bytes_written = 0, new_packs_indices = []\<rparr> (?s, ?t) =
      (Ok (Inr ()), (?s', ?u))"
    using fill w(1) p(2)
    by (simp add: pack_write_step_def bindR_def rotate_pack_def finish_pack_def current_pack_def Let_def padded_def write_pack_def on_repo_def)
  have "ensure_pack X (s, t) = (Ok (), (?s, ?t))"
    using p(1) by (auto simp: ensure_pack_def open_pack_def pack_new_def on_repo_def new_uuid_def bindR_def set_write_buffer_def split: option.splits)
  then have "write_block D X i d (s, t) = (Ok (), (?s', ?u))"
    using n(1) len(1) step
    by (simp add: write_block_def packing_write_block_def bindR_def current_pack_def pack_write_loop.simps option_result_def)
  moreover have "decoded blocks X ?s' (pack_id p) = Some ?data" using w(2,3) by (simp add: decoded_def)
  ultimately show ?thesis by (intro exI [of _ ?s']) simp
qed

text \<open>A block is read from the pack in the read buffer if that has the ID of its pack, and else from the store.\<close>

lemma packing_read_one:
  assumes n: "config_packing (cfg s) = PackingFixed n"
    and x: "hget (packs s) i = Some [\<lparr>pi_id = k, pi_offset = off, pi_size = sz\<rparr>]" "off + sz \<le> length b" "length b < 2 ^ 32"
  shows "read_buffer t = Some \<lparr>pack_id = k, pack_buffer = b\<rparr> \<Longrightarrow>
      read_block D X i (s, t) = (Ok (take sz (drop off b)), (s, t))"
    and "read_buffer t = None \<Longrightarrow> decoded blocks X s k = Some b \<Longrightarrow>
      \<exists>s'. read_block D X i (s, t) = (Ok (take sz (drop off b)), (s', t\<lparr>read_buffer := Some \<lparr>pack_id = k, pack_buffer = b\<rparr>\<rparr>)) \<and>
        store_eq blocks s s'"
proof -
  have slice: "slice_of off (add32 off sz) b = Ok (take sz (drop off b))"
    using x(2,3) by (simp add: slice_of_def add32_def take_drop)
  show "read_buffer t = Some \<lparr>pack_id = k, pack_buffer = b\<rparr> \<Longrightarrow> read_block D X i (s, t) = (Ok (take sz (drop off b)), (s, t))"
    using n x(1) slice by (simp add: read_block_def packing_read_block_def read_pack_index_def load_pack_def bindR_def)
  assume t: "read_buffer t = None" and d: "decoded blocks X s k = Some b"
  obtain s' where s': "direct_read_block D X k s = (Ok b, s')" "store_eq blocks s s'" using direct_read_ok [OF d] by blast
  then show "\<exists>s'. read_block D X i (s, t) = (Ok (take sz (drop off b)), (s', t\<lparr>read_buffer := Some \<lparr>pack_id = k, pack_buffer = b\<rparr>\<rparr>)) \<and>
        store_eq blocks s s'"
    using n x(1) slice t
    by (simp add: read_block_def packing_read_block_def read_pack_index_def load_pack_def bindR_def on_repo_def set_read_buffer_def)
qed

end

text \<open>
  C14: With packing, reading a block through the same buffers returns bytes that were never written, for every store,
  configuration and data.  A block is written and read back, as it should be; the read fills the read buffer with the
  current pack.  The next write, of a block that fits into the same pack, returns too; it appends to the pack in the write
  buffer and in the store.  But the read of the new block finds the old pack in the read buffer, and returns the zeros of
  its padding instead of the data.
\<close>

theorem packed_read_after_write_stale:
  assumes "repo_env D bl X" "key_ok X (cfg s) (master_key s)" "config_packing (cfg s) = PackingFixed n" "n < 2 ^ 32"
    and "length a + length b < n"
  shows "\<exists>st1 st2 st3 st4. write_block D X i a (s, store_state_new) = (Ok (), st1) \<and> read_block D X i st1 = (Ok a, st2) \<and>
    write_block D X j b st2 = (Ok (), st3) \<and> read_block D X j st3 = (Ok (replicate (length b) 0), st4)"
proof -
  let ?k = "new_v4 X (rng s)" and ?t = store_state_new
  let ?pad = "a @ replicate (n - length a) 0"
  have p: "open_pack X (s, ?t) = \<lparr>pack_id = ?k, pack_buffer = []\<rparr>" by (simp add: open_pack_def store_state_new_def)
  obtain s1 where s1: "write_block D X i a (s, ?t) = (Ok (), (s1, ?t\<lparr>write_buffer := Some \<lparr>pack_id = ?k, pack_buffer = a\<rparr>\<rparr>))"
    "cfg s1 = cfg s" "master_key s1 = master_key s" "decoded bl X s1 ?k = Some ?pad"
    "packs s1 = hput i [\<lparr>pi_id = ?k, pi_offset = 0, pi_size = length a\<rparr>] (packs s)"
    using repo_env.packing_write_fits [OF assms(1-4) p, of a i] assms(5) by auto
  let ?t1 = "?t\<lparr>write_buffer := Some \<lparr>pack_id = ?k, pack_buffer = a\<rparr>\<rparr>"
  let ?t2 = "?t1\<lparr>read_buffer := Some \<lparr>pack_id = ?k, pack_buffer = ?pad\<rparr>\<rparr>"
  obtain s2 where s2: "read_block D X i (s1, ?t1) = (Ok a, (s2, ?t2))" "store_eq bl s1 s2"
    using repo_env.packing_read_one(2) [OF assms(1), of s1 n i ?k 0 "length a" ?pad ?t1] s1(2,4,5) assms(3,4,5)
    by (auto simp: store_state_new_def)
  have cf: "cfg s2 = cfg s" "master_key s2 = master_key s" using store_eq_fields [OF s2(2)] s1(2,3) by simp_all
  have p2: "open_pack X (s2, ?t2) = \<lparr>pack_id = ?k, pack_buffer = a\<rparr>" by (simp add: open_pack_def)
  let ?t3 = "?t2\<lparr>write_buffer := Some \<lparr>pack_id = ?k, pack_buffer = a @ b\<rparr>\<rparr>"
  obtain s3 where s3: "write_block D X j b (s2, ?t2) = (Ok (), (s3, ?t3))" "cfg s3 = cfg s2"
    "packs s3 = hput j [\<lparr>pi_id = ?k, pi_offset = length a, pi_size = length b\<rparr>] (packs s2)"
    using repo_env.packing_write_fits [OF assms(1) _ _ assms(4) p2, of b j] assms(2,3,5) cf by auto
  have "read_block D X j (s3, ?t3) = (Ok (take (length b) (drop (length a) ?pad)), (s3, ?t3))"
    using repo_env.packing_read_one(1) [OF assms(1), of s3 n j ?k "length a" "length b" ?pad ?t3] s3(2,3) cf(1) assms(3-5) by simp
  moreover have "take (length b) (drop (length a) ?pad) = replicate (length b) 0" using assms(5) by simp
  ultimately show ?thesis using s1(1) s2(1) s3(1) by metis
qed

theorem packed_read_after_write_stale_witness:
  "\<exists>st1 st2 st3 st4. write_block memory_store ref_ext 100 [1, 2] (ref_packed, store_state_new) = (Ok (), st1) \<and>
    read_block memory_store ref_ext 100 st1 = (Ok [1, 2], st2) \<and>
    write_block memory_store ref_ext 101 [3, 4] st2 = (Ok (), st3) \<and> read_block memory_store ref_ext 101 st3 = (Ok [0, 0], st4)"
proof -
  have "key_ok ref_ext (cfg ref_packed) (master_key ref_packed)" "config_packing (cfg ref_packed) = PackingFixed 8"
    by (simp_all add: ref_packed_def key_ok_def ref_repo_def config_default_def)
  moreover have "replicate (length [3 :: byte, 4]) 0 = [0 :: byte, 0]" by (simp add: numeral_2_eq_2)
  ultimately show ?thesis
    using packed_read_after_write_stale [OF mem_env.repo_env_axioms, of ref_packed 8 "[1, 2]" "[3, 4]" 100 101] by simp
qed

end
