(* ===== verification/Object_Store.thy ===== *)
theory Object_Store
  imports Chunk_Store
begin

text \<open>
  Reading and writing one object (\<^verbatim>\<open>src/src/repo/common/object_store.rs\<close>, with \<^verbatim>\<open>ObjectState\<close>,
  \<^verbatim>\<open>SeekPosition\<close> and \<^verbatim>\<open>ExtentLocation\<close> of \<^verbatim>\<open>state.rs\<close>).  The operations work on the three parts an
  \<^verbatim>\<open>ObjectWriter\<close> borrows: the state of the repository, the state of the object and its handle.
\<close>

section \<open>State\<close>

record extent_location =
  el_extent :: extent
  el_start :: nat
  el_position :: nat
  el_index :: nat

datatype seek_position = SeekEmpty | SeekEnd | SeekExtent extent_location

definition relative_position :: "extent_location \<Rightarrow> nat" where
  "relative_position l = sub64 (el_position l) (el_start l)"

record 'c object_state =
  chunker :: "'c incremental_chunker"
  new_chunks :: "chunk list"
  start_position :: seek_position
  position :: nat
  buffered_chunk :: "chunk option"
  obj_read_buffer :: bytes
  hole_buffer :: bytes
  transaction_lock :: "u64 lock option"
  obj_store :: store_state

definition object_state_new :: "'c \<Rightarrow> 'c object_state" where
  "object_state_new c = \<lparr>chunker = ic_new c, new_chunks = [], start_position = SeekEmpty, position = 0,
     buffered_chunk = None, obj_read_buffer = [], hole_buffer = [], transaction_lock = None,
     obj_store = store_state_new\<rparr>"

record ('s, 'c) octx =
  o_repo :: "'s repo_state"
  o_state :: "'c object_state"
  o_handle :: object_handle

definition upd_state :: "('c object_state \<Rightarrow> 'c object_state) \<Rightarrow> ('s, 'c) octx \<Rightarrow> ('s, 'c) octx" where
  "upd_state f x = x\<lparr>o_state := f (o_state x)\<rparr>"

definition upd_extents :: "(extent list \<Rightarrow> extent list) \<Rightarrow> ('s, 'c) octx \<Rightarrow> ('s, 'c) octx" where
  "upd_extents f x = x\<lparr>o_handle := (o_handle x)\<lparr>extents := f (extents (o_handle x))\<rparr>\<rparr>"

text \<open>\<^verbatim>\<open>store_reader()\<close> and \<^verbatim>\<open>store_writer()\<close> borrow the repository and the buffers of the object.\<close>

definition on_chunks :: "('s cs, 'a) op \<Rightarrow> (('s, 'c) octx, 'a) op" where
  "on_chunks m x = (case m (o_repo x, obj_store (o_state x)) of
     (r, (s, t)) \<Rightarrow> (r, upd_state (\<lambda>ob. ob\<lparr>obj_store := t\<rparr>) (x\<lparr>o_repo := s\<rparr>)))"

definition on_chunker :: "('c incremental_chunker, 'a) op \<Rightarrow> (('s, 'c) octx, 'a) op" where
  "on_chunker m x = (case m (chunker (o_state x)) of
     (r, c) \<Rightarrow> (r, upd_state (\<lambda>ob. ob\<lparr>chunker := c\<rparr>) x))"

section \<open>Information\<close>

definition in_transaction :: "('s, 'c) octx \<Rightarrow> bool" where
  "in_transaction x \<longleftrightarrow> transaction_lock (o_state x) \<noteq> None"

definition info_size :: "('s, 'c) octx \<Rightarrow> nat result" where
  "info_size x = (if in_transaction x then Err TransactionInProgress else Ok (handle_size (o_handle x)))"

definition info_content_id :: "('s, 'c) octx \<Rightarrow> content_id result" where
  "info_content_id x = (if in_transaction x then Err TransactionInProgress
     else Ok \<lparr>cid_repo = md_id (metadata (o_repo x)), cid_extents = extents (o_handle x)\<rparr>)"

section \<open>Reading\<close>

definition chunk_valid :: "ext \<Rightarrow> chunk \<Rightarrow> bytes \<Rightarrow> bool" where
  "chunk_valid X c data \<longleftrightarrow> length data = c_size c \<and> chunk_hash X data = c_hash c"

fun verify_chunks :: "'s data_store_ops \<Rightarrow> ext \<Rightarrow> chunk list \<Rightarrow> ('s cs, bool) op" where
  "verify_chunks D X [] st = (Ok True, st)"
| "verify_chunks D X (c # cs) st = (case read_chunk D X c st of
      (Ok data, st') \<Rightarrow> if chunk_valid X c data then verify_chunks D X cs st' else (Ok False, st')
    | (Err InvalidData, st') \<Rightarrow> (Ok False, st')
    | (Err e, st') \<Rightarrow> (Err e, st')
    | (Panic m, st') \<Rightarrow> (Panic m, st')
    | (Diverge, st') \<Rightarrow> (Diverge, st'))"

definition object_verify :: "'s data_store_ops \<Rightarrow> ext \<Rightarrow> (('s, 'c) octx, bool) op" where
  "object_verify D X x = (if in_transaction x then (Err TransactionInProgress, x)
     else on_chunks (verify_chunks D X (handle_chunks (o_handle x))) x)"

fun locate :: "extent list \<Rightarrow> nat \<Rightarrow> nat \<Rightarrow> nat \<Rightarrow> nat \<Rightarrow> seek_position" where
  "locate [] index extent_start extent_end pos = SeekEnd"
| "locate (e # es) index extent_start extent_end pos =
     (let extent_end' = add64 extent_end (extent_size e) in
      if extent_start \<le> pos \<and> pos < extent_end' then
        SeekExtent \<lparr>el_extent = e, el_start = extent_start, el_position = pos, el_index = index\<rparr>
      else locate es (Suc index) (add64 extent_start (extent_size e)) extent_end' pos)"

definition position_in :: "object_handle \<Rightarrow> nat \<Rightarrow> seek_position" where
  "position_in h pos = (if extents h = [] then SeekEmpty else locate (extents h) 0 0 0 pos)"

definition current_position :: "('s, 'c) octx \<Rightarrow> seek_position" where
  "current_position x = position_in (o_handle x) (position (o_state x))"

definition read_hole :: "nat \<Rightarrow> (('s, 'c) octx, bytes) op" where
  "read_hole n x =
    (let b = hole_buffer (o_state x);
         b' = (if length b < n then b @ replicate (n - length b) 0 else b) in
     bindR (modify (upd_state (\<lambda>ob. ob\<lparr>hole_buffer := b'\<rparr>))) (\<lambda>_. lift_result (slice_of 0 n b')) x)"

text \<open>The chunk is marked as buffered before it is read.\<close>

definition buffer_chunk :: "'s data_store_ops \<Rightarrow> ext \<Rightarrow> chunk \<Rightarrow> (('s, 'c) octx, unit) op" where
  "buffer_chunk D X c x =
    (if buffered_chunk (o_state x) = Some c then (Ok (), x)
     else bindR (modify (upd_state (\<lambda>ob. ob\<lparr>buffered_chunk := Some c\<rparr>))) (\<lambda>_.
          bindR (on_chunks (read_chunk D X c)) (\<lambda>data.
          modify (upd_state (\<lambda>ob. ob\<lparr>obj_read_buffer := data\<rparr>)))) x)"

definition read_extent :: "'s data_store_ops \<Rightarrow> ext \<Rightarrow> nat \<Rightarrow> (('s, 'c) octx, bytes) op" where
  "read_extent D X n x = (case current_position x of
      SeekEmpty \<Rightarrow> (Ok [], x)
    | SeekEnd \<Rightarrow> (Ok [], x)
    | SeekExtent l \<Rightarrow> (case el_extent l of
        EChunk c \<Rightarrow> bindR (buffer_chunk D X c) (\<lambda>_ y.
          (slice_of (relative_position l) (min (relative_position l + n) (c_size c))
             (obj_read_buffer (o_state y)), y)) x
      | EHole hole_size \<Rightarrow> read_hole (min n (hole_size - relative_position l)) x))"

definition object_read :: "'s data_store_ops \<Rightarrow> ext \<Rightarrow> nat \<Rightarrow> (('s, 'c) octx, bytes) op" where
  "object_read D X n x = (if in_transaction x then (Err TransactionInProgress, x)
     else bindR (read_extent D X n) (\<lambda>next_chunk.
          bindR (modify (upd_state (\<lambda>ob. ob\<lparr>position := add64 (position ob) (length next_chunk)\<rparr>))) (\<lambda>_.
          ret next_chunk)) x)"

datatype seek_from = FromStart nat | FromEnd int | FromCurrent int

definition negative_seek :: error where
  "negative_seek = Io (IoError InvalidInput (OtherPayload ''Attempted to seek to a negative offset.''))"

definition seek_target :: "nat \<Rightarrow> nat \<Rightarrow> seek_from \<Rightarrow> nat result" where
  "seek_target object_size pos f = (case f of
      FromStart offset \<Rightarrow> Ok (min object_size offset)
    | FromEnd offset \<Rightarrow>
        if offset > as_i64 object_size then Err negative_seek
        else Ok (min object_size (as_u64 (wrap_i64 (as_i64 object_size - offset))))
    | FromCurrent offset \<Rightarrow>
        if wrap_i64 (as_i64 pos + offset) < 0 then Err negative_seek
        else Ok (min object_size (as_u64 (wrap_i64 (as_i64 pos + offset)))))"

definition object_seek :: "seek_from \<Rightarrow> (('s, 'c) octx, nat) op" where
  "object_seek f x = (if in_transaction x then (Err TransactionInProgress, x)
     else bindR (lift_result (seek_target (handle_size (o_handle x)) (position (o_state x)) f)) (\<lambda>new_position.
          bindR (modify (upd_state (\<lambda>ob. ob\<lparr>position := new_position\<rparr>))) (\<lambda>_. ret new_position)) x)"

section \<open>Deserializing\<close>

text \<open>
  \<^verbatim>\<open>rmp_serde::from_read\<close> pulls the bytes it needs from the reader.  A decoder is a value, a failure
  or a request for the next \<open>n\<close> bytes; it is run against the object with \<^verbatim>\<open>read_exact\<close>, and every
  failure is \<^verbatim>\<open>Error::Deserialize\<close>.
\<close>

datatype 'v decoder = Decoded 'v | DecodeError | Need nat "bytes \<Rightarrow> 'v decoder"

definition object_read_fn :: "'s data_store_ops \<Rightarrow> ext \<Rightarrow> ('s, 'c) octx read_fn" where
  "object_read_fn D X n x = (case object_read D X n x of
      (Ok b, x') \<Rightarrow> (Inr b, x')
    | (Err e, x') \<Rightarrow> (Inl (io_of_error e), x')
    | (_, x') \<Rightarrow> (Inl (IoError OtherKind NoPayload), x'))"

primrec run_decoder :: "'r read_fn \<Rightarrow> 'v decoder \<Rightarrow> 'r \<Rightarrow> 'v result \<times> 'r" where
  "run_decoder rd (Decoded v) r = (Ok v, r)"
| "run_decoder rd DecodeError r = (Err DeserializeError, r)"
| "run_decoder rd (Need n f) r = (case read_exact_loop rd n [] r of
      None \<Rightarrow> (Diverge, r)
    | Some (Inl e, r') \<Rightarrow> (Err DeserializeError, r')
    | Some (Inr b, r') \<Rightarrow> run_decoder rd (f b) r')"

definition object_deserialize :: "'s data_store_ops \<Rightarrow> ext \<Rightarrow> 'v decoder \<Rightarrow> (('s, 'c) octx, 'v) op" where
  "object_deserialize D X d = bindR (object_seek (FromStart 0)) (\<lambda>_. run_decoder (object_read_fn D X) d)"

section \<open>Writing\<close>

text \<open>Assigning \<^verbatim>\<open>None\<close> to the transaction lock drops the lock, which frees its ID in the table.\<close>

definition release_lock :: "('s, 'c) octx \<Rightarrow> ('s, 'c) octx" where
  "release_lock x = (case transaction_lock (o_state x) of
      None \<Rightarrow> x
    | Some l \<Rightarrow> upd_state (\<lambda>ob. ob\<lparr>transaction_lock := None\<rparr>)
        (x\<lparr>o_repo := (o_repo x)\<lparr>transactions := drop_lock l (transactions (o_repo x))\<rparr>\<rparr>))"

definition begin_transaction :: "(('s, 'c) octx, unit) op" where
  "begin_transaction x = (case acquire_lock (handle_id (o_handle x)) (transactions (o_repo x)) of
      (None, t) \<Rightarrow> (Err TransactionInProgress, x)
    | (Some l, t) \<Rightarrow> (Ok (), upd_state (\<lambda>ob. ob\<lparr>transaction_lock := Some l\<rparr>)
        (x\<lparr>o_repo := (o_repo x)\<lparr>transactions := t\<rparr>\<rparr>)))"

definition cut_extent :: "'s data_store_ops \<Rightarrow> ext \<Rightarrow> extent_location \<Rightarrow> (('s, 'c) octx, extent) op" where
  "cut_extent D X l x = (case el_extent l of
      EChunk c \<Rightarrow>
        bindR (on_chunks (read_chunk D X c)) (\<lambda>last_chunk_data.
        bindR (lift_result (slice_of 0 (relative_position l) last_chunk_data)) (\<lambda>new_last_chunk_data.
        bindR (on_chunks (write_chunk D X new_last_chunk_data (handle_id (o_handle x)))) (\<lambda>c'.
        ret (EChunk c')))) x
    | EHole n \<Rightarrow> (Ok (EHole (relative_position l)), x))"

definition truncate :: "'s data_store_ops \<Rightarrow> ext \<Rightarrow> nat \<Rightarrow> (('s, 'c) octx, unit) op" where
  "truncate D X n x =
    (if n \<ge> handle_size (o_handle x) then (Ok (), x)
     else let original_position = position (o_state x);
              y = upd_state (\<lambda>ob. ob\<lparr>position := n\<rparr>) x in
       case current_position y of
         SeekExtent l \<Rightarrow>
           bindR (cut_extent D X l) (\<lambda>new_last_extent.
           bindR (modify (upd_extents (\<lambda>es. take (el_index l) es @ [new_last_extent]))) (\<lambda>_.
           bindR (modify (upd_state (\<lambda>ob. ob\<lparr>position := min original_position n\<rparr>))) (\<lambda>_.
           modify release_lock))) y
       | _ \<Rightarrow> (Ok (), y))"

definition extend :: "nat \<Rightarrow> ('s, 'c) octx \<Rightarrow> ('s, 'c) octx" where
  "extend n x = (if n \<le> handle_size (o_handle x) then x
     else upd_extents (\<lambda>es. es @ [EHole (n - handle_size (o_handle x))]) x)"

definition set_len :: "'s data_store_ops \<Rightarrow> ext \<Rightarrow> nat \<Rightarrow> (('s, 'c) octx, unit) op" where
  "set_len D X n x = (if in_transaction x then (Err TransactionInProgress, x)
     else bindR begin_transaction (\<lambda>_ y.
       bindR (if n < handle_size (o_handle y) then truncate D X n
              else if n > handle_size (o_handle y) then modify (extend n)
              else ret ()) (\<lambda>_. modify release_lock) y) x)"

definition push_chunk :: "'s data_store_ops \<Rightarrow> ext \<Rightarrow> bytes \<Rightarrow> (('s, 'c) octx, unit) op" where
  "push_chunk D X chunk_data x =
     bindR (on_chunks (write_chunk D X chunk_data (handle_id (o_handle x)))) (\<lambda>c.
     modify (upd_state (\<lambda>ob. ob\<lparr>new_chunks := new_chunks ob @ [c]\<rparr>))) x"

definition write_chunks :: "'s data_store_ops \<Rightarrow> ext \<Rightarrow> (('s, 'c) octx, unit) op" where
  "write_chunks D X x = (case ic_take_chunks (chunker (o_state x)) of
     (cs, ic) \<Rightarrow> forM cs (push_chunk D X) (upd_state (\<lambda>ob. ob\<lparr>chunker := ic\<rparr>) x))"

text \<open>\<^verbatim>\<open>impl Write for ObjectWriter\<close>.\<close>

definition start_transaction :: "'s data_store_ops \<Rightarrow> ext \<Rightarrow> 'c chunker_ops \<Rightarrow> (('s, 'c) octx, unit) op" where
  "start_transaction D X C x = bindR begin_transaction (\<lambda>_ y.
     let p = current_position y in
     bindR (modify (upd_state (\<lambda>ob. ob\<lparr>start_position := p\<rparr>))) (\<lambda>_.
       (case p of
          SeekExtent l \<Rightarrow> (case el_extent l of
            EChunk c \<Rightarrow>
              bindR (on_chunks (read_chunk D X c)) (\<lambda>chunk_data.
              bindR (lift_result (slice_of 0 (relative_position l) chunk_data)) (\<lambda>prefix.
              on_chunker (ic_write_all C prefix)))
          | EHole n \<Rightarrow> ret ())
        | _ \<Rightarrow> ret ())) y) x"

definition object_write :: "'s data_store_ops \<Rightarrow> ext \<Rightarrow> 'c chunker_ops \<Rightarrow> bytes \<Rightarrow> (('s, 'c) octx, nat) op" where
  "object_write D X C buf x =
     bindR (if in_transaction x then ret () else start_transaction D X C) (\<lambda>_.
     bindR (on_chunker (ic_write_all C buf)) (\<lambda>_.
     bindR (write_chunks D X) (\<lambda>_.
     bindR (modify (upd_state (\<lambda>ob. ob\<lparr>position := add64 (position ob) (length buf)\<rparr>))) (\<lambda>_.
     ret (length buf))))) x"

definition object_write_all :: "'s data_store_ops \<Rightarrow> ext \<Rightarrow> 'c chunker_ops \<Rightarrow> bytes \<Rightarrow> (('s, 'c) octx, unit) op" where
  "object_write_all D X C buf = (if buf = [] then ret () else bindR (object_write D X C buf) (\<lambda>_. ret ()))"

text \<open>\<^verbatim>\<open>commit\<close>: the holes at both ends, the rest of the last chunk, and the splice.\<close>

definition start_hole :: "seek_position \<Rightarrow> extent list" where
  "start_hole p = (case p of
      SeekExtent l \<Rightarrow> (case el_extent l of EChunk c \<Rightarrow> [] | EHole n \<Rightarrow> [EHole (relative_position l)])
    | _ \<Rightarrow> [])"

definition end_hole :: "seek_position \<Rightarrow> extent list" where
  "end_hole p = (case p of
      SeekExtent l \<Rightarrow> (case el_extent l of EChunk c \<Rightarrow> [] | EHole n \<Rightarrow> [EHole (n - relative_position l)])
    | _ \<Rightarrow> [])"

definition start_index :: "extent list \<Rightarrow> seek_position \<Rightarrow> nat" where
  "start_index es p = (case p of SeekEmpty \<Rightarrow> 0 | SeekEnd \<Rightarrow> length es | SeekExtent l \<Rightarrow> el_index l)"

definition end_index :: "extent list \<Rightarrow> seek_position \<Rightarrow> nat" where
  "end_index es p = (case p of SeekEmpty \<Rightarrow> 0 | SeekEnd \<Rightarrow> length es | SeekExtent l \<Rightarrow> Suc (el_index l))"

definition save_suffix :: "'s data_store_ops \<Rightarrow> ext \<Rightarrow> 'c chunker_ops \<Rightarrow> seek_position \<Rightarrow> (('s, 'c) octx, unit) op" where
  "save_suffix D X C p = (case p of
      SeekExtent l \<Rightarrow> (case el_extent l of
        EChunk c \<Rightarrow>
          bindR (on_chunks (read_chunk D X c)) (\<lambda>last_chunk.
          bindR (lift_result (slice_of (relative_position l) (length last_chunk) last_chunk)) (\<lambda>suffix.
          on_chunker (ic_write_all C suffix)))
      | EHole n \<Rightarrow> ret ())
    | _ \<Rightarrow> ret ())"

definition splice_extents :: "nat \<Rightarrow> nat \<Rightarrow> extent list \<Rightarrow> (('s, 'c) octx, unit) op" where
  "splice_extents a b new_extents x =
    (if a \<le> b \<and> b \<le> length (extents (o_handle x))
     then (Ok (), upd_extents (\<lambda>es. take a es @ new_extents @ drop b es) x)
     else (Panic ''range out of bounds'', x))"

definition object_commit :: "'s data_store_ops \<Rightarrow> ext \<Rightarrow> 'c chunker_ops \<Rightarrow> (('s, 'c) octx, unit) op" where
  "object_commit D X C x =
    (if \<not> in_transaction x then (Ok (), x)
     else let current = current_position x in
       bindR (save_suffix D X C current) (\<lambda>_.
       bindR (modify (upd_state (\<lambda>ob. ob\<lparr>chunker := ic_flush C (chunker ob)\<rparr>))) (\<lambda>_.
       bindR (write_chunks D X) (\<lambda>_ y.
         let es = extents (o_handle y); start = start_position (o_state y);
             new_extents = start_hole start @ map EChunk (new_chunks (o_state y)) @ end_hole current in
         bindR (modify (upd_state (\<lambda>ob. ob\<lparr>new_chunks := []\<rparr>))) (\<lambda>_.
         bindR (splice_extents (start_index es start) (end_index es current) new_extents) (\<lambda>_.
         modify release_lock)) y))) x)"

text \<open>\<^verbatim>\<open>serialize\<close>: \<open>v\<close> is the serialized value, or \<open>None\<close> when it cannot be serialized.\<close>

definition object_serialize :: "'s data_store_ops \<Rightarrow> ext \<Rightarrow> 'c chunker_ops \<Rightarrow> bytes option \<Rightarrow> (('s, 'c) octx, unit) op" where
  "object_serialize D X C v = (case v of
      None \<Rightarrow> throw SerializeError
    | Some serialized \<Rightarrow>
        bindR (object_seek (FromStart 0)) (\<lambda>_.
        bindR (object_write_all D X C serialized) (\<lambda>_.
        bindR (object_commit D X C) (\<lambda>_.
        set_len D X (length serialized)))))"

end
