(* ===== verification/Object_Correct.thy ===== *)
theory Object_Correct
  imports Chunk_Correct Object_Store
begin

text \<open>
  What an object promises.  The abstract contents of an object is the byte string its extents
  describe; a read returns a piece of it, \<open>write\<close> calls followed by \<open>commit\<close> overwrite a part of it,
  \<open>set_len\<close> cuts it or extends it with zeros, and an operation outside the transaction protocol is
  refused.  Blocks are stored directly, and the data store does not fail (\<open>repo_env\<close>); the chunker is
  any that keeps the contract \<open>chunker_impl\<close>.
\<close>

section \<open>Contents\<close>

definition ebytes :: "(chunk \<rightharpoonup> bytes) \<Rightarrow> extent \<Rightarrow> bytes" where
  "ebytes V e = (case e of
      EChunk c \<Rightarrow> (case V c of Some d \<Rightarrow> d | None \<Rightarrow> [])
    | EHole n \<Rightarrow> replicate n 0)"

definition content :: "(chunk \<rightharpoonup> bytes) \<Rightarrow> extent list \<Rightarrow> bytes" where
  "content V es = concat (map (ebytes V) es)"

definition extents_ok :: "(chunk \<rightharpoonup> bytes) \<Rightarrow> extent list \<Rightarrow> bool" where
  "extents_ok V es \<longleftrightarrow> (\<forall>c. EChunk c \<in> set es \<longrightarrow> (\<exists>d. V c = Some d \<and> length d = c_size c))"

lemma content_simps [simp]:
  "content V [] = []" "content V (e # es) = ebytes V e @ content V es"
  "content V (es @ fs) = content V es @ content V fs"
  by (simp_all add: content_def)

lemma extents_ok_simps [simp]:
  "extents_ok V []"
  "extents_ok V (EHole n # es) \<longleftrightarrow> extents_ok V es"
  "extents_ok V (EChunk c # es) \<longleftrightarrow> (\<exists>d. V c = Some d \<and> length d = c_size c) \<and> extents_ok V es"
  "extents_ok V (es @ fs) \<longleftrightarrow> extents_ok V es \<and> extents_ok V fs"
  by (auto simp: extents_ok_def)

lemma ebytes_simps [simp]:
  "V c = Some d \<Longrightarrow> ebytes V (EChunk c) = d" "ebytes V (EHole n) = replicate n 0"
  by (simp_all add: ebytes_def)

lemma extents_ok_Cons: "extents_ok V (e # es) \<longleftrightarrow> extents_ok V [e] \<and> extents_ok V es"
  by (cases e) auto

lemma length_ebytes: "extents_ok V [e] \<Longrightarrow> length (ebytes V e) = extent_size e"
  by (cases e) (auto simp: extent_size_def)

lemma length_content: "extents_ok V es \<Longrightarrow> length (content V es) = total es"
proof (induction es)
  case (Cons e es)
  then have "extents_ok V [e]" "extents_ok V es" using extents_ok_Cons by blast+
  with Cons.IH show ?case by (simp add: length_ebytes)
qed simp

lemma extents_ok_mono:
  "extents_ok V es \<Longrightarrow> (\<And>c d. V c = Some d \<Longrightarrow> W c = Some d) \<Longrightarrow> extents_ok W es"
  by (fastforce simp: extents_ok_def)

lemma content_mono:
  assumes "extents_ok V es" "\<And>c d. V c = Some d \<Longrightarrow> W c = Some d"
  shows "content W es = content V es"
  using assms(1)
proof (induction es)
  case (Cons e es)
  then have ok: "extents_ok V [e]" "extents_ok V es" using extents_ok_Cons by blast+
  then have "ebytes W e = ebytes V e" by (cases e) (auto, frule assms(2), simp)
  with Cons.IH ok show ?case by simp
qed simp

lemma content_chunks:
  "length cs = length ds \<Longrightarrow> (\<And>i. i < length cs \<Longrightarrow> V (cs ! i) = Some (ds ! i)) \<Longrightarrow>
     content V (map EChunk cs) = concat ds"
proof (induction cs ds rule: list_induct2)
  case (Cons c cs d ds)
  have "V c = Some d" using Cons.prems [of 0] by simp
  moreover have "content V (map EChunk cs) = concat ds"
    using Cons.IH Cons.prems [of "Suc i" for i] by simp
  ultimately show ?case by simp
qed simp

section \<open>Positions\<close>

lemma locate_extent:
  assumes "s \<le> pos" "pos < s + total es" "s + total es < 2 ^ 64"
  shows "\<exists>pre e post. es = pre @ e # post \<and> s + total pre \<le> pos \<and> pos < s + total pre + extent_size e \<and>
    locate es k s s pos = SeekExtent \<lparr>el_extent = e, el_start = s + total pre, el_position = pos,
      el_index = k + length pre\<rparr>"
  using assms
proof (induction es arbitrary: k s)
  case (Cons e es)
  have add: "add64 s (extent_size e) = s + extent_size e"
    using Cons.prems(3) by (simp add: add64_exact)
  show ?case
  proof (cases "pos < s + extent_size e")
    case True
    with Cons.prems add show ?thesis
      by (intro exI [of _ "[]"] exI [of _ e] exI [of _ es]) simp
  next
    case False
    with Cons.prems Cons.IH [of "s + extent_size e" "Suc k"] obtain pre e' post where
      "es = pre @ e' # post" "s + extent_size e + total pre \<le> pos"
      "pos < s + extent_size e + total pre + extent_size e'"
      "locate es (Suc k) (s + extent_size e) (s + extent_size e) pos = SeekExtent \<lparr>el_extent = e',
        el_start = s + extent_size e + total pre, el_position = pos, el_index = Suc k + length pre\<rparr>"
      by (auto simp: add.assoc)
    with False add show ?thesis
      by (intro exI [of _ "e # pre"] exI [of _ e'] exI [of _ post]) (simp add: Let_def add.assoc)
  qed
qed simp

lemma locate_end:
  "s + total es \<le> pos \<Longrightarrow> s + total es < 2 ^ 64 \<Longrightarrow> locate es k s s pos = SeekEnd"
proof (induction es arbitrary: k s)
  case (Cons e es)
  then have "add64 s (extent_size e) = s + extent_size e" by (simp add: add64_exact)
  with Cons show ?case by (simp add: Let_def)
qed simp

text \<open>
  The three cases of a position: in an empty object, at the end, or inside an extent, \<open>r\<close> bytes
  after its start.
\<close>

lemma position_cases:
  assumes "total (extents h) < 2 ^ 64"
  obtains (empty) "extents h = []" "position_in h pos = SeekEmpty"
  | (finish) "extents h \<noteq> []" "total (extents h) \<le> pos" "position_in h pos = SeekEnd"
  | (inside) pre e post r l where "extents h = pre @ e # post" "pos = total pre + r" "r < extent_size e"
      "position_in h pos = SeekExtent l" "el_extent l = e" "relative_position l = r" "el_index l = length pre"
proof (cases "extents h = []")
  case True
  then show ?thesis using empty by (simp add: position_in_def)
next
  case ne: False
  show ?thesis
  proof (cases "pos < total (extents h)")
    case True
    then obtain pre e post where "extents h = pre @ e # post" "total pre \<le> pos" "pos < total pre + extent_size e"
      "locate (extents h) 0 0 0 pos = SeekExtent \<lparr>el_extent = e, el_start = total pre, el_position = pos,
        el_index = length pre\<rparr>"
      using locate_extent [of 0 pos "extents h" 0] assms by auto
    then show ?thesis
      using ne assms by (intro inside [of pre e post "pos - total pre"])
        (auto simp: position_in_def relative_position_def sub64_exact)
  next
    case False
    then show ?thesis
      using finish ne locate_end [of 0 "extents h" pos 0] assms by (simp add: position_in_def)
  qed
qed

section \<open>The invariant of an object\<close>

definition obj_view :: "('s \<Rightarrow> uuid \<rightharpoonup> bytes) \<Rightarrow> ext \<Rightarrow> ('s, 'c) octx \<Rightarrow> chunk \<rightharpoonup> bytes" where
  "obj_view bl X x = chunk_data bl X (o_repo x)"

definition obj_content :: "('s \<Rightarrow> uuid \<rightharpoonup> bytes) \<Rightarrow> ext \<Rightarrow> ('s, 'c) octx \<Rightarrow> bytes" where
  "obj_content bl X x = content (obj_view bl X x) (extents (o_handle x))"

definition buffer_ok :: "(chunk \<rightharpoonup> bytes) \<Rightarrow> 'c object_state \<Rightarrow> bool" where
  "buffer_ok V ob \<longleftrightarrow> (\<forall>c. buffered_chunk ob = Some c \<longrightarrow> V c = Some (obj_read_buffer ob)) \<and>
     set (hole_buffer ob) \<subseteq> {0} \<and> position ob < 2 ^ 64"

definition refs_ok :: "'s repo_state \<Rightarrow> object_handle \<Rightarrow> bool" where
  "refs_ok s h \<longleftrightarrow> (\<forall>c \<in> set (handle_chunks h). handle_id h \<in> refs_of s c)"

definition obj_ok :: "('s \<Rightarrow> uuid \<rightharpoonup> bytes) \<Rightarrow> ext \<Rightarrow> bytes set \<Rightarrow> nat \<Rightarrow> ('s, 'c) octx \<Rightarrow> bool" where
  "obj_ok bl X S N x \<longleftrightarrow> direct_inv bl X S N (o_repo x) \<and>
     extents_ok (obj_view bl X x) (extents (o_handle x)) \<and> total (extents (o_handle x)) < 2 ^ 63 \<and>
     refs_ok (o_repo x) (o_handle x) \<and> buffer_ok (obj_view bl X x) (o_state x)"

text \<open>What a read leaves as it was.\<close>

definition same_object :: "('s \<Rightarrow> uuid \<rightharpoonup> bytes) \<Rightarrow> ('s, 'c) octx \<Rightarrow> ('s, 'c) octx \<Rightarrow> bool" where
  "same_object bl x x' \<longleftrightarrow> store_eq bl (o_repo x) (o_repo x') \<and> o_handle x' = o_handle x \<and>
     chunker (o_state x') = chunker (o_state x) \<and> new_chunks (o_state x') = new_chunks (o_state x) \<and>
     start_position (o_state x') = start_position (o_state x) \<and>
     transaction_lock (o_state x') = transaction_lock (o_state x)"

lemma same_object_refl [simp]: "same_object bl x x"
  by (simp add: same_object_def)

lemma same_object_trans: "same_object bl x y \<Longrightarrow> same_object bl y z \<Longrightarrow> same_object bl x z"
  by (auto simp: same_object_def intro: store_eq_trans)

lemma same_object_view:
  "same_object bl x x' \<Longrightarrow> obj_view bl X x' = obj_view bl X x"
  "same_object bl x x' \<Longrightarrow> obj_content bl X x' = obj_content bl X x"
  by (auto simp: same_object_def obj_view_def obj_content_def store_eq_view)

lemma same_object_ok:
  assumes "same_object bl x x'" "obj_ok bl X S N x" "buffer_ok (obj_view bl X x) (o_state x')"
  shows "obj_ok bl X S N x'"
  using assms same_object_view(1) [OF assms(1), of X]
  by (auto simp: obj_ok_def same_object_def store_eq_view refs_ok_def refs_of_def store_eq_fields)

lemma upd_state_simps [simp]:
  "o_repo (upd_state f x) = o_repo x" "o_handle (upd_state f x) = o_handle x"
  "o_state (upd_state f x) = f (o_state x)" "upd_state f (upd_state g x) = upd_state (\<lambda>ob. f (g ob)) x"
  "obj_view bl X (upd_state f x) = obj_view bl X x"
  by (simp_all add: upd_state_def obj_view_def)

section \<open>Reading\<close>

text \<open>
  The bytes a read returns: at most as many as asked for, the next ones of the contents, and none
  only at the end.
\<close>

definition next_bytes :: "('s \<Rightarrow> uuid \<rightharpoonup> bytes) \<Rightarrow> ext \<Rightarrow> ('s, 'c) octx \<Rightarrow> nat \<Rightarrow> bytes \<Rightarrow> bool" where
  "next_bytes bl X x n b \<longleftrightarrow> length b \<le> n \<and> b = take (length b) (drop (position (o_state x)) (obj_content bl X x)) \<and>
     (b = [] \<longrightarrow> n = 0 \<or> length (obj_content bl X x) \<le> position (o_state x))"

context repo_env
begin

lemma chunk_read_ok:
  assumes "direct_inv blocks X S N (o_repo x)" "obj_view blocks X x c = Some d"
  shows "\<exists>s. on_chunks (read_chunk D X c) x = (Ok d, x\<lparr>o_repo := s\<rparr>) \<and> store_eq blocks (o_repo x) s"
proof -
  have "config_packing (cfg (o_repo x)) = PackingNone" using assms(1) by (simp add: direct_inv_def)
  then obtain s where "read_chunk D X c (o_repo x, obj_store (o_state x)) = (Ok d, (s, obj_store (o_state x)))"
    "store_eq blocks (o_repo x) s"
    using read_chunk_ok assms(2) unfolding obj_view_def by blast
  then show ?thesis by (intro exI [of _ s]) (simp add: on_chunks_def upd_state_def)
qed

lemma buffer_chunk_ok:
  assumes "obj_ok blocks X S N x" "obj_view blocks X x c = Some d"
  shows "\<exists>x'. buffer_chunk D X c x = (Ok (), x') \<and> obj_read_buffer (o_state x') = d \<and>
    same_object blocks x x' \<and> obj_ok blocks X S N x' \<and> position (o_state x') = position (o_state x)"
proof (cases "buffered_chunk (o_state x) = Some c")
  case True
  with assms show ?thesis by (auto simp: buffer_chunk_def obj_ok_def buffer_ok_def)
next
  case False
  let ?y = "upd_state (\<lambda>ob. ob\<lparr>buffered_chunk := Some c\<rparr>) x"
  obtain s where s: "on_chunks (read_chunk D X c) ?y = (Ok d, ?y\<lparr>o_repo := s\<rparr>)" "store_eq blocks (o_repo x) s"
    using chunk_read_ok [of S N ?y c d] assms by (auto simp: obj_ok_def)
  let ?x = "upd_state (\<lambda>ob. ob\<lparr>obj_read_buffer := d\<rparr>) (?y\<lparr>o_repo := s\<rparr>)"
  have "same_object blocks x ?x" using s by (simp add: same_object_def)
  moreover have "obj_ok blocks X S N ?x"
    using calculation assms by (rule_tac same_object_ok [of _ x]) (auto simp: obj_ok_def buffer_ok_def)
  ultimately show ?thesis using False s by (auto simp: buffer_chunk_def bindR_def)
qed

lemma read_hole_ok:
  assumes "obj_ok blocks X S N x"
  shows "\<exists>x'. read_hole n x = (Ok (replicate n 0), x') \<and> same_object blocks x x' \<and> obj_ok blocks X S N x' \<and>
    position (o_state x') = position (o_state x)"
proof -
  let ?b = "hole_buffer (o_state x)"
  define b where "b = (if length ?b < n then ?b @ replicate (n - length ?b) 0 else ?b)"
  have zero: "set b \<subseteq> {0}" "n \<le> length b"
    using assms by (auto simp: b_def obj_ok_def buffer_ok_def)
  then have "take n b = replicate n 0"
    by (auto intro!: replicate_eqI dest: in_set_takeD)
  moreover let ?x = "upd_state (\<lambda>ob. ob\<lparr>hole_buffer := b\<rparr>) x"
  have "same_object blocks x ?x" by (simp add: same_object_def)
  moreover have "obj_ok blocks X S N ?x"
    using calculation assms zero by (rule_tac same_object_ok [of _ x]) (auto simp: obj_ok_def buffer_ok_def)
  ultimately show ?thesis
    using zero by (auto simp: read_hole_def bindR_def slice_of_def b_def [symmetric] Let_def)
qed

lemma extents_ok_chunk: "extents_ok V (pre @ EChunk c # post) \<Longrightarrow> \<exists>d. V c = Some d \<and> length d = c_size c"
  by auto

lemma read_extent_ok:
  assumes "obj_ok blocks X S N x"
  shows "\<exists>b x'. read_extent D X n x = (Ok b, x') \<and> next_bytes blocks X x n b \<and> same_object blocks x x' \<and>
    obj_ok blocks X S N x' \<and> position (o_state x') = position (o_state x)"
proof -
  let ?es = "extents (o_handle x)" and ?V = "obj_view blocks X x" and ?pos = "position (o_state x)"
  have ok: "extents_ok ?V ?es" and "total ?es < 2 ^ 64" using assms by (auto simp: obj_ok_def)
  then have len: "length (obj_content blocks X x) = total ?es" by (simp add: obj_content_def length_content)
  from \<open>total ?es < 2 ^ 64\<close> show ?thesis
  proof (cases rule: position_cases [of "o_handle x" ?pos])
    case empty
    with assms len show ?thesis by (auto simp: read_extent_def current_position_def next_bytes_def)
  next
    case finish
    with assms len show ?thesis by (auto simp: read_extent_def current_position_def next_bytes_def)
  next
    case (inside pre e post r l)
    have pre: "drop ?pos (obj_content blocks X x) = drop r (ebytes ?V e) @ content ?V post"
      using ok inside by (simp add: obj_content_def length_content length_ebytes extents_ok_Cons [of _ e post])
    show ?thesis
    proof (cases e)
      case (EChunk c)
      then obtain d where d: "?V c = Some d" "length d = c_size c"
        using ok inside(1) extents_ok_chunk by metis
      with buffer_chunk_ok [OF assms d(1)] obtain x' where x': "buffer_chunk D X c x = (Ok (), x')"
        "obj_read_buffer (o_state x') = d" "same_object blocks x x'" "obj_ok blocks X S N x'"
        "position (o_state x') = ?pos" by blast
      have "next_bytes blocks X x n (take (min (r + n) (c_size c) - r) (drop r d))"
        using pre EChunk d inside by (auto simp: next_bytes_def extent_size_def)
      with x' EChunk d inside show ?thesis
        by (auto simp: read_extent_def current_position_def bindR_def slice_of_def extent_size_def)
    next
      case (EHole m)
      obtain x' where "read_hole (min n (m - r)) x = (Ok (replicate (min n (m - r)) 0), x')"
        "same_object blocks x x'" "obj_ok blocks X S N x'" "position (o_state x') = ?pos"
        using read_hole_ok [OF assms] by blast
      moreover have "next_bytes blocks X x n (replicate (min n (m - r)) 0)"
        using pre EHole inside by (auto simp: next_bytes_def extent_size_def min_def)
      ultimately show ?thesis using EHole inside by (auto simp: read_extent_def current_position_def)
    qed
  qed
qed

lemma object_read_ok:
  assumes "obj_ok blocks X S N x" "\<not> in_transaction x"
  shows "\<exists>b x'. object_read D X n x = (Ok b, x') \<and> next_bytes blocks X x n b \<and> same_object blocks x x' \<and>
    obj_ok blocks X S N x' \<and> position (o_state x') = position (o_state x) + length b"
proof -
  obtain b y where y: "read_extent D X n x = (Ok b, y)" "next_bytes blocks X x n b" "same_object blocks x y"
    "obj_ok blocks X S N y" "position (o_state y) = position (o_state x)"
    using read_extent_ok [OF assms(1)] by blast
  let ?x = "upd_state (\<lambda>ob. ob\<lparr>position := add64 (position ob) (length b)\<rparr>) y"
  have "length b \<le> length (drop (position (o_state x)) (obj_content blocks X x))"
    using y(2) unfolding next_bytes_def by (metis length_take min.cobounded1)
  moreover have "length (obj_content blocks X x) < 2 ^ 63" "position (o_state x) < 2 ^ 64"
    using assms(1) by (auto simp: obj_ok_def buffer_ok_def obj_content_def length_content)
  ultimately have pos: "add64 (position (o_state x)) (length b) = position (o_state x) + length b"
    by (intro add64_exact) (cases "b = []"; simp)
  have same: "same_object blocks x ?x" using y(3) by (simp add: same_object_def)
  have "buffer_ok (obj_view blocks X x) (o_state y)"
    using y(3,4) same_object_view(1) by (metis obj_ok_def)
  then have "buffer_ok (obj_view blocks X x) (o_state ?x)"
    using add64_less [of "position (o_state y)" "length b"] by (simp add: buffer_ok_def)
  with same assms(1) have "obj_ok blocks X S N ?x" by (rule same_object_ok)
  then show ?thesis
    using assms(2) y pos same by (auto simp: object_read_def bindR_def)
qed

text \<open>An object that is not being written is a reader of the rest of its contents.\<close>

definition obj_rest :: "('s, 'c) octx \<Rightarrow> bytes" where
  "obj_rest x = drop (position (o_state x)) (obj_content blocks X x)"

lemma object_reader:
  "reader (object_read_fn D X) obj_rest (\<lambda>x. obj_ok blocks X S N x \<and> \<not> in_transaction x \<and> same_object blocks x0 x)"
proof
  fix n and x :: "('s, 'a) octx"
  assume ok: "obj_ok blocks X S N x \<and> \<not> in_transaction x \<and> same_object blocks x0 x"
  then obtain b x' where x': "object_read D X n x = (Ok b, x')" "next_bytes blocks X x n b"
    "same_object blocks x x'" "obj_ok blocks X S N x'" "position (o_state x') = position (o_state x) + length b"
    using object_read_ok by blast
  have "obj_rest x = take (length b) (obj_rest x) @ drop (length b) (obj_rest x)" by simp
  also have "take (length b) (obj_rest x) = b" using x'(2) by (simp add: next_bytes_def obj_rest_def)
  also have "drop (length b) (obj_rest x) = obj_rest x'"
    using same_object_view(2) [OF x'(3)] x'(5) by (simp add: obj_rest_def add.commute)
  finally have "obj_rest x = b @ obj_rest x'" .
  moreover have "\<not> in_transaction x'" using ok x'(3) by (simp add: same_object_def in_transaction_def)
  moreover have "same_object blocks x0 x'" using ok x'(3) same_object_trans by blast
  ultimately show "\<exists>b x'. object_read_fn D X n x = (Inr b, x') \<and> obj_rest x = b @ obj_rest x' \<and> length b \<le> n \<and>
      obj_ok blocks X S N x' \<and> \<not> in_transaction x' \<and> same_object blocks x0 x'"
    using x' by (auto simp: object_read_fn_def next_bytes_def)
next
  fix n and x x' :: "('s, 'a) octx"
  assume ok: "obj_ok blocks X S N x \<and> \<not> in_transaction x \<and> same_object blocks x0 x"
    and read: "object_read_fn D X n x = (Inr [], x')" "0 < n"
  obtain b y where "object_read D X n x = (Ok b, y)" "next_bytes blocks X x n b"
    using object_read_ok ok by blast
  with read show "obj_rest x = []" by (auto simp: object_read_fn_def next_bytes_def obj_rest_def)
qed

end

end
