(* ===== verification/Object_Write.thy ===== *)
theory Object_Write
  imports Object_Correct
begin

text \<open>
  Writing an object: the transaction of \<open>object_write\<close> and \<open>object_commit\<close> overwrites the contents at
  the position where it began, \<open>set_len\<close> cuts or extends the contents, and both keep the invariant of
  the object and release the lock they took.
\<close>

section \<open>Splicing extents\<close>

definition head_bytes :: "(chunk \<rightharpoonup> bytes) \<Rightarrow> seek_position \<Rightarrow> bytes" where
  "head_bytes V p = (case p of
      SeekExtent l \<Rightarrow> (case el_extent l of
        EChunk c \<Rightarrow> take (relative_position l) (ebytes V (EChunk c)) | EHole n \<Rightarrow> [])
    | _ \<Rightarrow> [])"

definition tail_bytes :: "(chunk \<rightharpoonup> bytes) \<Rightarrow> seek_position \<Rightarrow> bytes" where
  "tail_bytes V p = (case p of
      SeekExtent l \<Rightarrow> (case el_extent l of
        EChunk c \<Rightarrow> drop (relative_position l) (ebytes V (EChunk c)) | EHole n \<Rightarrow> [])
    | _ \<Rightarrow> [])"

lemma head_content:
  assumes "extents_ok V (extents h)" "total (extents h) < 2 ^ 64" "pos \<le> total (extents h)"
  shows "content V (take (start_index (extents h) (position_in h pos)) (extents h)) @
    content V (start_hole (position_in h pos)) @ head_bytes V (position_in h pos) = take pos (content V (extents h))"
  using assms(2)
proof (cases rule: position_cases [of h pos])
  case (inside pre e post r l)
  have "take (total pre + r) (content V (extents h)) = content V pre @ take r (ebytes V e)"
    using assms(1) inside by (simp add: length_content length_ebytes extents_ok_Cons [of _ e post])
  with inside show ?thesis
    by (cases e) (auto simp: start_index_def start_hole_def head_bytes_def extent_size_def)
qed (use assms in \<open>simp_all add: start_index_def start_hole_def head_bytes_def length_content\<close>)

lemma tail_content:
  assumes "extents_ok V (extents h)" "total (extents h) < 2 ^ 64"
  shows "tail_bytes V (position_in h pos) @ content V (end_hole (position_in h pos)) @
    content V (drop (end_index (extents h) (position_in h pos)) (extents h)) = drop pos (content V (extents h))"
  using assms(2)
proof (cases rule: position_cases [of h pos])
  case (inside pre e post r l)
  have "drop (total pre + r) (content V (extents h)) = drop r (ebytes V e) @ content V post"
    using assms(1) inside by (simp add: length_content length_ebytes extents_ok_Cons [of _ e post])
  with inside show ?thesis
    by (cases e) (auto simp: end_index_def end_hole_def tail_bytes_def extent_size_def)
qed (use assms in \<open>simp_all add: end_index_def end_hole_def tail_bytes_def length_content\<close>)

lemma bytes_mono:
  assumes "extents_ok V (extents h)" "total (extents h) < 2 ^ 64" "\<And>c d. V c = Some d \<Longrightarrow> W c = Some d"
  shows "head_bytes W (position_in h pos) = head_bytes V (position_in h pos)"
    "tail_bytes W (position_in h pos) = tail_bytes V (position_in h pos)"
proof -
  have "head_bytes W (position_in h pos) = head_bytes V (position_in h pos) \<and>
    tail_bytes W (position_in h pos) = tail_bytes V (position_in h pos)"
    using assms(2)
  proof (cases rule: position_cases [of h pos])
    case (inside pre e post r l)
    then have "ebytes W e = ebytes V e"
      using assms(1) content_mono [of V "[e]" W] assms(3) by (simp add: extents_ok_Cons [of _ e post])
    with inside show ?thesis by (cases e) (simp_all add: head_bytes_def tail_bytes_def)
  qed (simp_all add: head_bytes_def tail_bytes_def)
  then show "head_bytes W (position_in h pos) = head_bytes V (position_in h pos)"
    "tail_bytes W (position_in h pos) = tail_bytes V (position_in h pos)" by simp_all
qed

lemma total_take_mono: "i \<le> j \<Longrightarrow> total (take i es) \<le> total (take j es)"
proof -
  assume "i \<le> j"
  then have "take j es = take i es @ take (j - i) (drop i es)"
    by (metis le_add_diff_inverse take_add)
  then show ?thesis by simp
qed

lemma start_index_bound:
  assumes "total (extents h) < 2 ^ 64" "pos \<le> total (extents h)"
  shows "start_index (extents h) (position_in h pos) \<le> length (extents h)"
    "total (take (start_index (extents h) (position_in h pos)) (extents h)) \<le> pos"
  using assms(1)
  by (cases rule: position_cases [of h pos]; use assms in \<open>simp add: start_index_def\<close>)+

lemma end_index_bound:
  assumes "total (extents h) < 2 ^ 64"
  shows "end_index (extents h) (position_in h pos) \<le> length (extents h)"
    "end_index (extents h) (position_in h pos) = length (extents h) \<or>
     pos < total (take (end_index (extents h) (position_in h pos)) (extents h))"
  using assms by (cases rule: position_cases [of h pos]; simp add: end_index_def)+

lemma splice_index:
  assumes "total (extents h) < 2 ^ 64" "pos \<le> total (extents h)" "pos \<le> pos'"
  shows "start_index (extents h) (position_in h pos) \<le> end_index (extents h) (position_in h pos')"
proof (rule ccontr)
  let ?i = "start_index (extents h) (position_in h pos)" and ?j = "end_index (extents h) (position_in h pos')"
  assume "\<not> ?i \<le> ?j"
  then have "total (take ?j (extents h)) \<le> total (take ?i (extents h))" "?j < length (extents h)"
    using total_take_mono [of ?j ?i "extents h"] start_index_bound(1) [OF assms(1,2)] by auto
  with start_index_bound(2) [OF assms(1,2)] end_index_bound(2) [OF assms(1), of pos'] assms(3)
  show False by auto
qed

text \<open>
  Replacing the extents between two positions: when the new extents in the middle hold the bytes
  saved from both ends around \<open>w\<close>, the contents is overwritten with \<open>w\<close>.
\<close>

lemma splice_content:
  assumes "extents_ok V (extents h)" "total (extents h) < 2 ^ 64" "pos \<le> total (extents h)"
    and "content V mid = head_bytes V (position_in h pos) @ w @ tail_bytes V (position_in h (pos + length w))"
  shows "content V (take (start_index (extents h) (position_in h pos)) (extents h) @
      (start_hole (position_in h pos) @ mid @ end_hole (position_in h (pos + length w))) @
      drop (end_index (extents h) (position_in h (pos + length w))) (extents h)) =
    overwrite pos w (content V (extents h))"
  using head_content [OF assms(1-3)] tail_content [OF assms(1,2), of "pos + length w"]
  by (simp add: overwrite_def assms(4) append_assoc [symmetric] del: append_assoc) (simp only: append_assoc)

lemma splice_ok:
  assumes "extents_ok V (extents h)" "extents_ok V mid"
  shows "extents_ok V (take i (extents h) @ (start_hole p @ mid @ end_hole q) @ drop j (extents h))"
  using assms
  by (auto simp: extents_ok_def start_hole_def end_hole_def dest!: in_set_takeD in_set_dropD
    split: seek_position.splits extent.splits)

section \<open>The environment of an object\<close>

text \<open>Setting the length of a byte string.\<close>

definition resize :: "nat \<Rightarrow> bytes \<Rightarrow> bytes" where
  "resize n b = take n b @ replicate (n - length b) 0"

text \<open>Several calls of \<^verbatim>\<open>write\<close>.\<close>

definition object_writes ::
  "'s data_store_ops \<Rightarrow> ext \<Rightarrow> 'c chunker_ops \<Rightarrow> bytes list \<Rightarrow> (('s, 'c) octx, unit) op" where
  "object_writes D X C ws = forM ws (\<lambda>b. bindR (object_write D X C b) (\<lambda>_. ret ()))"

text \<open>An object that is not being written: nobody holds its lock and its chunker is empty.\<close>

definition idle :: "('c \<Rightarrow> bool) \<Rightarrow> ('c \<Rightarrow> nat) \<Rightarrow> ('s, 'c) octx \<Rightarrow> bool" where
  "idle cinv pending x \<longleftrightarrow> transaction_lock (o_state x) = None \<and>
     handle_id (o_handle x) \<notin> transactions (o_repo x) \<and> new_chunks (o_state x) = [] \<and>
     ic_ok cinv pending (chunker (o_state x)) \<and> ic_is_empty (chunker (o_state x))"

text \<open>A reliable repository, a chunker, and a set of byte strings without checksum collisions.\<close>

locale object_env = repo_env D blocks X + chunker_impl C inv fresh pending
  for D :: "'s data_store_ops" and blocks X and C :: "'c chunker_ops" and inv fresh pending +
  fixes S :: "bytes set"
  assumes no_collision: "collision_free X S"
begin

lemma piece_in_S: "a @ b @ c \<in> S \<Longrightarrow> b \<in> S"
proof -
  assume "a @ b @ c \<in> S"
  then have "take (length b) (drop (length a) (a @ b @ c)) \<in> S"
    using no_collision unfolding collision_free_def by blast
  then show "b \<in> S" by simp
qed

lemma concat_in_S: "p @ concat ds @ q \<in> S \<Longrightarrow> d \<in> set ds \<Longrightarrow> d \<in> S"
proof -
  assume a: "p @ concat ds @ q \<in> S" "d \<in> set ds"
  then obtain es fs where "ds = es @ d # fs" by (meson split_list)
  with a(1) piece_in_S [of "p @ concat es" d "concat fs @ q"] show "d \<in> S" by simp
qed

lemma store_chunk_ok:
  assumes "direct_inv blocks X S N (o_repo x)" "d \<in> S" "length d < 2 ^ 32" "rng (o_repo x) + 2 \<le> N"
  shows "\<exists>s. on_chunks (write_chunk D X d h) x = (Ok (chunk_of X d), x\<lparr>o_repo := s\<rparr>) \<and>
    rng s \<le> rng (o_repo x) + 2 \<and> direct_inv blocks X S N s \<and> grows blocks X (o_repo x) s \<and>
    h \<in> refs_of s (chunk_of X d) \<and> chunk_data blocks X s (chunk_of X d) = Some d"
proof -
  obtain s where "write_chunk D X d h (o_repo x, obj_store (o_state x)) = (Ok (chunk_of X d), (s, obj_store (o_state x)))"
    "rng s \<le> rng (o_repo x) + 2" "direct_inv blocks X S N s" "grows blocks X (o_repo x) s"
    "refs_of s = (refs_of (o_repo x))(chunk_of X d := insert h (refs_of (o_repo x) (chunk_of X d)))"
    "chunk_data blocks X s = (chunk_data blocks X (o_repo x))(chunk_of X d \<mapsto> d)"
    using write_chunk_ok [OF assms(1) no_collision assms(2-4)] by blast
  then show ?thesis by (intro exI [of _ s]) (simp add: on_chunks_def upd_state_def)
qed

lemma obj_ok_grows:
  assumes "obj_ok blocks X S N x" "grows blocks X (o_repo x) s" "direct_inv blocks X S N s"
  shows "obj_ok blocks X S N (x\<lparr>o_repo := s\<rparr>)"
  using assms extents_ok_mono [of "obj_view blocks X x" _ "chunk_data blocks X s"]
  unfolding obj_ok_def refs_ok_def buffer_ok_def grows_def obj_view_def by auto blast

abbreviation push_chunks :: "chunk list \<Rightarrow> 'c object_state \<Rightarrow> 'c object_state" where
  "push_chunks cs ob \<equiv> ob\<lparr>new_chunks := new_chunks ob @ cs\<rparr>"

lemma write_list_ok:
  assumes "direct_inv blocks X S N (o_repo x)" "\<forall>d \<in> set ds. d \<in> S \<and> length d < 2 ^ 32"
    "rng (o_repo x) + 2 * length ds \<le> N"
  shows "\<exists>s. forM ds (push_chunk D X) x =
      (Ok (), upd_state (push_chunks (map (chunk_of X) ds)) (x\<lparr>o_repo := s\<rparr>)) \<and>
    rng s \<le> rng (o_repo x) + 2 * length ds \<and> direct_inv blocks X S N s \<and> grows blocks X (o_repo x) s \<and>
    (\<forall>d \<in> set ds. handle_id (o_handle x) \<in> refs_of s (chunk_of X d) \<and>
       chunk_data blocks X s (chunk_of X d) = Some d)"
  using assms
proof (induction ds arbitrary: x)
  case Nil
  then show ?case by (auto simp: upd_state_def intro!: exI [of _ "o_repo x"])
next
  case (Cons d ds)
  let ?h = "handle_id (o_handle x)"
  obtain s where s: "on_chunks (write_chunk D X d ?h) x = (Ok (chunk_of X d), x\<lparr>o_repo := s\<rparr>)"
    "rng s \<le> rng (o_repo x) + 2" "direct_inv blocks X S N s" "grows blocks X (o_repo x) s"
    "?h \<in> refs_of s (chunk_of X d)" "chunk_data blocks X s (chunk_of X d) = Some d"
    using store_chunk_ok [of N x d ?h] Cons.prems by auto
  let ?y = "upd_state (push_chunks [chunk_of X d]) (x\<lparr>o_repo := s\<rparr>)"
  obtain s' where s': "forM ds (push_chunk D X) ?y =
      (Ok (), upd_state (push_chunks (map (chunk_of X) ds)) (?y\<lparr>o_repo := s'\<rparr>))"
    "rng s' \<le> rng s + 2 * length ds" "direct_inv blocks X S N s'" "grows blocks X s s'"
    "\<forall>d \<in> set ds. ?h \<in> refs_of s' (chunk_of X d) \<and> chunk_data blocks X s' (chunk_of X d) = Some d"
    using Cons.IH [of ?y] Cons.prems s(2,3) by auto
  have "?h \<in> refs_of s' (chunk_of X d)" "chunk_data blocks X s' (chunk_of X d) = Some d"
    using s(5,6) s'(4) by (auto simp: grows_def)
  moreover have "push_chunk D X d x = (Ok (), ?y)"
    using s(1) by (simp add: push_chunk_def bindR_def)
  ultimately show ?case using s s'
    by (intro exI [of _ s']) (auto simp: bindR_def upd_state_def intro: grows_trans)
qed

text \<open>
  The state between two operations of a transaction that began in \<open>x0\<close>, and the bytes it holds: those
  of the chunks already stored and those in the chunker.
\<close>

definition begun :: "('s, 'c) octx \<Rightarrow> ('s, 'c) octx" where
  "begun x = upd_state (\<lambda>ob. ob\<lparr>transaction_lock := Some (Lock (handle_id (o_handle x)))\<rparr>)
     (x\<lparr>o_repo := (o_repo x)\<lparr>transactions := insert (handle_id (o_handle x)) (transactions (o_repo x))\<rparr>\<rparr>)"

definition wr_inv :: "nat \<Rightarrow> ('s, 'c) octx \<Rightarrow> ('s, 'c) octx \<Rightarrow> bool" where
  "wr_inv N x0 x \<longleftrightarrow> obj_ok blocks X S N x \<and> o_handle x = o_handle x0 \<and>
     transaction_lock (o_state x) = Some (Lock (handle_id (o_handle x0))) \<and>
     grows blocks X (o_repo (begun x0)) (o_repo x) \<and> start_position (o_state x) = current_position x0 \<and>
     ic_inv (chunker (o_state x)) \<and> extents_ok (obj_view blocks X x) (map EChunk (new_chunks (o_state x))) \<and>
     (\<forall>c \<in> set (new_chunks (o_state x)). handle_id (o_handle x) \<in> refs_of (o_repo x) c)"

definition held :: "('s, 'c) octx \<Rightarrow> bytes" where
  "held x = content (obj_view blocks X x) (map EChunk (new_chunks (o_state x))) @ ic_data (chunker (o_state x))"

abbreviation pos_of :: "('s, 'c) octx \<Rightarrow> nat" where
  "pos_of x \<equiv> position (o_state x)"

abbreviation draws :: "('s, 'c) octx \<Rightarrow> nat" where
  "draws x \<equiv> rng (o_repo x)"

abbreviation ready :: "('s, 'c) octx \<Rightarrow> nat" where
  "ready x \<equiv> length (ic_chunks (chunker (o_state x)))"

lemma feed_ok:
  assumes "wr_inv N x0 x" "length d < 2 ^ 63"
  shows "\<exists>x'. on_chunker (ic_write_all C d) x = (Ok (), x') \<and> wr_inv N x0 x' \<and> held x' = held x @ d \<and>
    pos_of x' = pos_of x \<and> draws x' = draws x \<and> ready x' \<le> ready x + length d + 1"
proof -
  obtain ic where ic: "ic_write_all C d (chunker (o_state x)) = (Ok (), ic)"
    "ic_data ic = ic_data (chunker (o_state x)) @ d" "ic_inv ic"
    "length (ic_chunks ic) \<le> ready x + length d + 1"
    using ic_write_all_ok [OF _ assms(2)] assms(1) unfolding wr_inv_def by blast
  let ?x = "upd_state (\<lambda>ob. ob\<lparr>chunker := ic\<rparr>) x"
  have "wr_inv N x0 ?x" using assms(1) ic(3) by (auto simp: wr_inv_def obj_ok_def buffer_ok_def)
  with ic show ?thesis by (intro exI [of _ ?x]) (simp add: on_chunker_def held_def)
qed

lemma wr_read_ok:
  assumes "wr_inv N x0 x" "obj_view blocks X x c = Some d"
  shows "\<exists>x'. on_chunks (read_chunk D X c) x = (Ok d, x') \<and> wr_inv N x0 x' \<and> held x' = held x \<and>
    o_state x' = o_state x \<and> draws x' = draws x \<and> obj_view blocks X x' = obj_view blocks X x"
proof -
  obtain s where s: "on_chunks (read_chunk D X c) x = (Ok d, x\<lparr>o_repo := s\<rparr>)" "store_eq blocks (o_repo x) s"
    using chunk_read_ok [of S N x c d] assms by (auto simp: wr_inv_def obj_ok_def)
  let ?x = "x\<lparr>o_repo := s\<rparr>"
  have view: "obj_view blocks X ?x = obj_view blocks X x"
    using s(2) by (simp add: obj_view_def store_eq_view)
  have refs: "refs_of s = refs_of (o_repo x)"
    using s(2) by (simp add: refs_of_def fun_eq_iff store_eq_fields)
  have "wr_inv N x0 ?x"
    using assms(1) s(2) view refs grows_trans [OF _ store_eq_grows [OF s(2)]]
    by (auto simp: wr_inv_def obj_ok_def refs_ok_def store_eq_view)
  with s view show ?thesis by (intro exI [of _ ?x]) (simp add: held_def store_eq_fields)
qed

lemma flush_ok:
  assumes "wr_inv N x0 x"
  defines "x' \<equiv> upd_state (\<lambda>ob. ob\<lparr>chunker := ic_flush C (chunker ob)\<rparr>) x"
  shows "wr_inv N x0 x'" "held x' = held x" "pos_of x' = pos_of x" "draws x' = draws x"
    "ready x' \<le> ready x + 1" "ic_buffer (chunker (o_state x')) = []"
  using assms ic_flush_ok [of "chunker (o_state x)"]
  by (auto simp: wr_inv_def obj_ok_def buffer_ok_def held_def)

lemma write_chunks_ok:
  assumes "wr_inv N x0 x" "held x \<in> S" "draws x + 2 * ready x \<le> N"
  shows "\<exists>x'. write_chunks D X x = (Ok (), x') \<and> wr_inv N x0 x' \<and> held x' = held x \<and> pos_of x' = pos_of x \<and>
    draws x' \<le> draws x + 2 * ready x \<and> ready x' = 0 \<and>
    ic_buffer (chunker (o_state x')) = ic_buffer (chunker (o_state x))"
proof -
  let ?ic = "chunker (o_state x)" and ?cs = "new_chunks (o_state x)" and ?h = "handle_id (o_handle x)"
  let ?ds = "ic_chunks ?ic" and ?y = "upd_state (\<lambda>ob. ob\<lparr>chunker := (chunker ob)\<lparr>ic_chunks := []\<rparr>\<rparr>) x"
  have "\<forall>d \<in> set ?ds. d \<in> S \<and> length d < 2 ^ 32"
    using assms(1,2) concat_in_S by (auto simp: wr_inv_def ic_inv_def held_def ic_data_def)
  then obtain s where s: "forM ?ds (push_chunk D X) ?y =
      (Ok (), upd_state (push_chunks (map (chunk_of X) ?ds)) (?y\<lparr>o_repo := s\<rparr>))"
    "rng s \<le> draws x + 2 * ready x" "direct_inv blocks X S N s" "grows blocks X (o_repo x) s"
    "\<forall>d \<in> set ?ds. ?h \<in> refs_of s (chunk_of X d) \<and> chunk_data blocks X s (chunk_of X d) = Some d"
    using write_list_ok [of N ?y ?ds] assms by (auto simp: wr_inv_def obj_ok_def)
  let ?x = "upd_state (push_chunks (map (chunk_of X) ?ds)) (?y\<lparr>o_repo := s\<rparr>)"
  let ?V = "obj_view blocks X x" and ?W = "chunk_data blocks X s"
  have mono: "\<And>c d. ?V c = Some d \<Longrightarrow> ?W c = Some d" "\<And>c. refs_of (o_repo x) c \<subseteq> refs_of s c"
    using s(4) by (auto simp: grows_def obj_view_def)
  have old: "extents_ok ?V (map EChunk ?cs)" using assms(1) by (simp add: wr_inv_def)
  have new: "extents_ok ?W (map EChunk (map (chunk_of X) ?ds))"
    using s(5) assms(1) chunk_of_exact by (auto simp: extents_ok_def wr_inv_def ic_inv_def)
  have "obj_ok blocks X S N (x\<lparr>o_repo := s\<rparr>)"
    using obj_ok_grows [OF _ s(4,3)] assms(1) unfolding wr_inv_def by blast
  then have "wr_inv N x0 ?x"
    using assms(1) s(4,5) new extents_ok_mono [OF old mono(1)] mono(2) grows_trans [OF _ s(4)]
    by (auto simp: wr_inv_def obj_ok_def buffer_ok_def ic_inv_def obj_view_def subset_iff)
  moreover have "content ?W (map EChunk (map (chunk_of X) ?ds)) = concat ?ds"
    using s(5) by (intro content_chunks) auto
  then have "held ?x = held x"
    using content_mono [OF old mono(1)] by (simp add: held_def obj_view_def ic_data_def)
  ultimately show ?thesis
    using s(1,2) by (intro exI [of _ ?x]) (simp add: write_chunks_def ic_take_chunks_def upd_state_def)
qed

lemma begin_ok: "idle inv pending x \<Longrightarrow> begin_transaction x = (Ok (), begun x)"
  by (simp add: begin_transaction_def acquire_lock_def idle_def begun_def)

lemma begun_view: "chunk_data blocks X (o_repo (begun x)) = chunk_data blocks X (o_repo x)"
  by (simp add: begun_def)

lemma begun_wr_inv:
  assumes "obj_ok blocks X S N x" "idle inv pending x"
  shows "wr_inv N x (upd_state (\<lambda>ob. ob\<lparr>start_position := current_position x\<rparr>) (begun x))"
proof -
  let ?s = "o_repo (begun x)"
  have "direct_inv blocks X S N ?s"
    using assms(1) by (simp add: obj_ok_def begun_def)
  moreover have "grows blocks X ?s ?s" by simp
  ultimately show ?thesis
    using assms begun_view [of x]
    by (simp add: wr_inv_def obj_ok_def begun_def buffer_ok_def refs_ok_def refs_of_def obj_view_def idle_def)
qed

text \<open>The first write takes the lock and saves the bytes of the first chunk before the position.\<close>

lemma start_transaction_ok:
  assumes "obj_ok blocks X S N x" "idle inv pending x"
  shows "\<exists>x'. start_transaction D X C x = (Ok (), x') \<and> wr_inv N x x' \<and>
    held x' = head_bytes (obj_view blocks X x) (current_position x) \<and> pos_of x' = pos_of x \<and>
    draws x' = draws x \<and> ready x' \<le> length (obj_content blocks X x) + 1"
proof -
  let ?p = "current_position x" and ?V = "obj_view blocks X x"
  let ?y = "upd_state (\<lambda>ob. ob\<lparr>start_position := ?p\<rparr>) (begun x)"
  have y: "wr_inv N x ?y" "held ?y = []" "pos_of ?y = pos_of x" "draws ?y = draws x" "ready ?y = 0"
    "obj_view blocks X ?y = ?V"
    using begun_wr_inv [OF assms] assms(2) begun_view [of x]
    by (simp_all add: held_def idle_def ic_is_empty_def begun_def ic_data_def obj_view_def)
  have p: "current_position (begun x) = ?p" by (simp add: current_position_def begun_def)
  have ok: "extents_ok ?V (extents (o_handle x))" "total (extents (o_handle x)) < 2 ^ 63"
    using assms(1) by (auto simp: obj_ok_def)
  then have "total (extents (o_handle x)) < 2 ^ 64" by simp
  then show ?thesis
  proof (cases rule: position_cases [of "o_handle x" "pos_of x"])
    case (inside pre e post r l)
    then have loc: "?p = SeekExtent l" by (simp add: current_position_def)
    show ?thesis
    proof (cases e)
      case (EHole m)
      with loc inside y p show ?thesis
        by (auto simp: start_transaction_def begin_ok [OF assms(2)] bindR_def Let_def head_bytes_def)
    next
      case (EChunk c)
      then obtain d where d: "?V c = Some d" "length d = c_size c"
        using ok inside(1) extents_ok_chunk by metis
      obtain z where z: "on_chunks (read_chunk D X c) ?y = (Ok d, z)" "wr_inv N x z" "held z = held ?y"
        "o_state z = o_state ?y" "draws z = draws ?y"
        using wr_read_ok [OF y(1)] d(1) y(6) by metis
      have r: "r < c_size c" using inside EChunk by (simp add: extent_size_def)
      have "c_size c \<le> length (obj_content blocks X x)"
        using ok d inside(1) EChunk by (simp add: obj_content_def)
      with r d(2) have "length (take r d) < 2 ^ 63" "length (take r d) \<le> length (obj_content blocks X x)"
        using ok by (auto simp: obj_content_def length_content)
      then obtain x' where "on_chunker (ic_write_all C (take r d)) z = (Ok (), x')" "wr_inv N x x'"
        "held x' = held z @ take r d" "pos_of x' = pos_of z" "draws x' = draws z"
        "ready x' \<le> ready z + length (take r d) + 1"
        using feed_ok [OF z(2)] by blast
      with y z d r loc inside EChunk p \<open>length (take r d) \<le> length (obj_content blocks X x)\<close> show ?thesis
        by (auto simp: start_transaction_def begin_ok [OF assms(2)] bindR_def Let_def slice_of_def head_bytes_def)
    qed
  qed (use y p in \<open>auto simp: start_transaction_def begin_ok [OF assms(2)] bindR_def Let_def
      head_bytes_def current_position_def\<close>)
qed

text \<open>The state of a transaction that began in \<open>x0\<close> and has written \<open>w\<close>.\<close>

definition txn :: "nat \<Rightarrow> ('s, 'c) octx \<Rightarrow> bytes \<Rightarrow> ('s, 'c) octx \<Rightarrow> bool" where
  "txn N x0 w x \<longleftrightarrow> wr_inv N x0 x \<and> held x = head_bytes (obj_view blocks X x0) (current_position x0) @ w \<and>
     pos_of x = pos_of x0 + length w \<and> ready x = 0"

text \<open>What a write does once the transaction has begun.\<close>

lemma write_body_ok:
  assumes "wr_inv N x0 x" "held x @ buf \<in> S" "length buf < 2 ^ 63" "pos_of x + length buf < 2 ^ 64"
    "draws x + 2 * (ready x + length buf + 1) \<le> N"
  shows "\<exists>x'. bindR (on_chunker (ic_write_all C buf)) (\<lambda>_. bindR (write_chunks D X) (\<lambda>_.
      bindR (modify (upd_state (\<lambda>ob. ob\<lparr>position := add64 (position ob) (length buf)\<rparr>))) (\<lambda>_.
      ret (length buf)))) x = (Ok (length buf), x') \<and>
    wr_inv N x0 x' \<and> held x' = held x @ buf \<and> pos_of x' = pos_of x + length buf \<and> ready x' = 0 \<and>
    draws x' \<le> draws x + 2 * (ready x + length buf + 1)"
proof -
  obtain y where y: "on_chunker (ic_write_all C buf) x = (Ok (), y)" "wr_inv N x0 y" "held y = held x @ buf"
    "pos_of y = pos_of x" "draws y = draws x" "ready y \<le> ready x + length buf + 1"
    using feed_ok [OF assms(1,3)] by blast
  moreover have "held y \<in> S" "draws y + 2 * ready y \<le> N" using y assms by auto
  ultimately obtain z where z: "write_chunks D X y = (Ok (), z)" "wr_inv N x0 z" "held z = held y"
    "pos_of z = pos_of y" "draws z \<le> draws y + 2 * ready y" "ready z = 0"
    using write_chunks_ok by blast
  let ?x = "upd_state (\<lambda>ob. ob\<lparr>position := add64 (position ob) (length buf)\<rparr>) z"
  have pos: "add64 (pos_of z) (length buf) = pos_of x + length buf"
    using assms(4) y z by (simp add: add64_exact)
  have "wr_inv N x0 ?x"
    using z(2) pos assms(4) by (auto simp: wr_inv_def obj_ok_def buffer_ok_def)
  then show ?thesis
    using y z pos by (intro exI [of _ ?x]) (auto simp: bindR_def held_def)
qed

lemma write_first_ok:
  assumes "obj_ok blocks X S N x" "idle inv pending x" "length buf < 2 ^ 63" "pos_of x + length buf < 2 ^ 64"
    "head_bytes (obj_view blocks X x) (current_position x) @ buf \<in> S"
    "draws x + 2 * (length (obj_content blocks X x) + length buf + 2) \<le> N"
  shows "\<exists>x'. object_write D X C buf x = (Ok (length buf), x') \<and> txn N x buf x' \<and>
    draws x' \<le> draws x + 2 * (length (obj_content blocks X x) + length buf + 2)"
proof -
  obtain y where y: "start_transaction D X C x = (Ok (), y)" "wr_inv N x y"
    "held y = head_bytes (obj_view blocks X x) (current_position x)" "pos_of y = pos_of x"
    "draws y = draws x" "ready y \<le> length (obj_content blocks X x) + 1"
    using start_transaction_ok [OF assms(1,2)] by blast
  have "\<not> in_transaction x" using assms(2) by (simp add: idle_def in_transaction_def)
  then have run: "object_write D X C buf x = bindR (on_chunker (ic_write_all C buf)) (\<lambda>_. bindR (write_chunks D X) (\<lambda>_.
      bindR (modify (upd_state (\<lambda>ob. ob\<lparr>position := add64 (position ob) (length buf)\<rparr>))) (\<lambda>_.
      ret (length buf)))) y"
    using y(1) by (simp add: object_write_def bindR_Ok)
  from write_body_ok [OF y(2), of buf] y assms obtain x' where
    "object_write D X C buf x = (Ok (length buf), x')" "wr_inv N x x'" "held x' = held y @ buf"
    "pos_of x' = pos_of y + length buf" "ready x' = 0" "draws x' \<le> draws y + 2 * (ready y + length buf + 1)"
    unfolding run by fastforce
  with y show ?thesis by (auto simp: txn_def)
qed

lemma write_next_ok:
  assumes "txn N x0 w x" "length buf < 2 ^ 63" "pos_of x + length buf < 2 ^ 64"
    "head_bytes (obj_view blocks X x0) (current_position x0) @ w @ buf \<in> S"
    "draws x + 2 * (length buf + 1) \<le> N"
  shows "\<exists>x'. object_write D X C buf x = (Ok (length buf), x') \<and> txn N x0 (w @ buf) x' \<and>
    draws x' \<le> draws x + 2 * (length buf + 1)"
proof -
  have x: "wr_inv N x0 x" "held x @ buf \<in> S" "ready x = 0" using assms by (auto simp: txn_def)
  then have "in_transaction x" by (simp add: wr_inv_def in_transaction_def)
  then have run: "object_write D X C buf x = bindR (on_chunker (ic_write_all C buf)) (\<lambda>_. bindR (write_chunks D X) (\<lambda>_.
      bindR (modify (upd_state (\<lambda>ob. ob\<lparr>position := add64 (position ob) (length buf)\<rparr>))) (\<lambda>_.
      ret (length buf)))) x"
    by (simp add: object_write_def bindR_Ok)
  from write_body_ok [OF x(1,2) assms(2,3)] assms(5) x(3) obtain x' where
    "object_write D X C buf x = (Ok (length buf), x')" "wr_inv N x0 x'" "held x' = held x @ buf"
    "pos_of x' = pos_of x + length buf" "ready x' = 0" "draws x' \<le> draws x + 2 * (length buf + 1)"
    unfolding run by auto
  with assms(1) show ?thesis by (auto simp: txn_def)
qed

lemma save_suffix_ok:
  assumes "wr_inv N x0 x"
  shows "\<exists>x'. save_suffix D X C (current_position x) x = (Ok (), x') \<and> wr_inv N x0 x' \<and>
    held x' = held x @ tail_bytes (obj_view blocks X x) (current_position x) \<and> pos_of x' = pos_of x \<and>
    draws x' = draws x \<and> ready x' \<le> ready x + length (obj_content blocks X x) + 1"
proof -
  let ?p = "current_position x" and ?V = "obj_view blocks X x"
  have ok: "extents_ok ?V (extents (o_handle x))" "total (extents (o_handle x)) < 2 ^ 63"
    using assms(1) by (auto simp: wr_inv_def obj_ok_def)
  then have "total (extents (o_handle x)) < 2 ^ 64" by simp
  then show ?thesis
  proof (cases rule: position_cases [of "o_handle x" "pos_of x"])
    case (inside pre e post r l)
    then have loc: "?p = SeekExtent l" by (simp add: current_position_def)
    show ?thesis
    proof (cases e)
      case (EHole m)
      with loc inside assms show ?thesis by (auto simp: save_suffix_def tail_bytes_def)
    next
      case (EChunk c)
      then obtain d where d: "?V c = Some d" "length d = c_size c"
        using ok inside(1) extents_ok_chunk by metis
      obtain z where z: "on_chunks (read_chunk D X c) x = (Ok d, z)" "wr_inv N x0 z" "held z = held x"
        "o_state z = o_state x" "draws z = draws x"
        using wr_read_ok [OF assms d(1)] by blast
      have r: "r < c_size c" using inside EChunk by (simp add: extent_size_def)
      have "c_size c \<le> length (obj_content blocks X x)"
        using ok d inside(1) EChunk by (simp add: obj_content_def)
      with r d(2) have len: "length (drop r d) < 2 ^ 63" "length (drop r d) \<le> length (obj_content blocks X x)"
        using ok by (auto simp: obj_content_def length_content)
      then obtain x' where "on_chunker (ic_write_all C (drop r d)) z = (Ok (), x')" "wr_inv N x0 x'"
        "held x' = held z @ drop r d" "pos_of x' = pos_of z" "draws x' = draws z"
        "ready x' \<le> ready z + length (drop r d) + 1"
        using feed_ok [OF z(2)] by blast
      with z d r loc inside EChunk len(2) show ?thesis
        by (auto simp: save_suffix_def bindR_def slice_of_def tail_bytes_def)
    qed
  qed (use assms in \<open>auto simp: save_suffix_def tail_bytes_def current_position_def\<close>)
qed

text \<open>The contents does not change before the commit.\<close>

lemma wr_content:
  assumes "wr_inv N x0 x" "obj_ok blocks X S N x0"
  shows "obj_content blocks X x = obj_content blocks X x0"
    "\<And>c d. obj_view blocks X x0 c = Some d \<Longrightarrow> obj_view blocks X x c = Some d"
proof -
  show *: "\<And>c d. obj_view blocks X x0 c = Some d \<Longrightarrow> obj_view blocks X x c = Some d"
    using assms(1) begun_view [of x0] by (auto simp: wr_inv_def grows_def obj_view_def)
  show "obj_content blocks X x = obj_content blocks X x0"
    using content_mono [OF _ *] assms by (simp add: obj_content_def wr_inv_def obj_ok_def)
qed

lemma piece_of_overwrite:
  assumes "obj_ok blocks X S N x" "pos_of x \<le> length (obj_content blocks X x)"
    "overwrite (pos_of x) w (obj_content blocks X x) \<in> S"
  shows "head_bytes (obj_view blocks X x) (current_position x) @ w @
    tail_bytes (obj_view blocks X x) (position_in (o_handle x) (pos_of x + length w)) \<in> S"
proof -
  let ?V = "obj_view blocks X x" and ?h = "o_handle x"
  have ok: "extents_ok ?V (extents ?h)" "total (extents ?h) < 2 ^ 64"
    using assms(1) by (auto simp: obj_ok_def)
  have pos: "pos_of x \<le> total (extents ?h)" using assms(2) ok by (simp add: obj_content_def length_content)
  show ?thesis
    using assms(3) piece_in_S
    unfolding overwrite_def obj_content_def current_position_def head_content [OF ok pos, symmetric]
      tail_content [OF ok, symmetric]
    by (metis append.assoc)
qed

text \<open>The end of a commit: the splice of the extents and the release of the lock.\<close>

lemma splice_step_ok:
  assumes "wr_inv N x0 y" "idle inv pending x0" "obj_ok blocks X S N x0"
    "pos_of x0 \<le> length (obj_content blocks X x0)" "pos_of y = pos_of x0 + length w"
    "length (overwrite (pos_of x0) w (obj_content blocks X x0)) < 2 ^ 63"
    "ready y = 0" "ic_buffer (chunker (o_state y)) = []"
    "held y = head_bytes (obj_view blocks X x0) (current_position x0) @ w @
      tail_bytes (obj_view blocks X x0) (position_in (o_handle x0) (pos_of y))"
  defines "h \<equiv> o_handle x0" and "p \<equiv> current_position x0" and "q \<equiv> position_in (o_handle x0) (pos_of y)"
  defines "es \<equiv> take (start_index (extents h) p) (extents h) @
      (start_hole p @ map EChunk (new_chunks (o_state y)) @ end_hole q) @ drop (end_index (extents h) q) (extents h)"
  defines "x' \<equiv> release_lock (upd_extents (\<lambda>_. es) (upd_state (\<lambda>ob. ob\<lparr>new_chunks := []\<rparr>) y))"
  shows "obj_ok blocks X S N x'" "idle inv pending x'"
    "obj_content blocks X x' = overwrite (pos_of x0) w (obj_content blocks X x0)"
    "pos_of x' = pos_of y" "handle_id (o_handle x') = handle_id h" "grows blocks X (o_repo x0) (o_repo x')"
    "draws x' = draws y"
proof -
  let ?V = "obj_view blocks X x0" and ?W = "obj_view blocks X y" and ?mid = "map EChunk (new_chunks (o_state y))"
  have ok: "extents_ok ?V (extents h)" "total (extents h) < 2 ^ 64"
    using assms(3) by (auto simp: obj_ok_def h_def)
  have pos: "pos_of x0 \<le> total (extents h)" using assms(4) ok by (simp add: obj_content_def length_content h_def)
  note mono = wr_content(2) [OF assms(1,3)]
  have okW: "extents_ok ?W (extents h)" "extents_ok ?W ?mid"
    using extents_ok_mono [OF ok(1) mono] assms(1) by (auto simp: wr_inv_def)
  have "content ?W ?mid = head_bytes ?W (position_in h (pos_of x0)) @ w @ tail_bytes ?W (position_in h (pos_of x0 + length w))"
    using assms(5,7-9) bytes_mono [OF ok mono]
    by (simp add: held_def ic_data_def p_def q_def h_def current_position_def)
  from splice_content [OF okW(1) ok(2) pos this]
  have content: "content ?W es = overwrite (pos_of x0) w (obj_content blocks X x0)"
    using content_mono [OF ok(1) mono] assms(5)
    by (simp add: es_def p_def q_def h_def current_position_def obj_content_def)
  have okes: "extents_ok ?W es" unfolding es_def by (rule splice_ok [OF okW])
  then have total: "total es < 2 ^ 63" using assms(6) content by (simp add: length_content [symmetric])
  have lock: "transaction_lock (o_state y) = Some (Lock (handle_id h))" "o_handle y = h"
    "transactions (o_repo y) = insert (handle_id h) (transactions (o_repo x0))"
    using assms(1) by (auto simp: wr_inv_def h_def grows_def same_rest_def begun_def)
  have x': "o_repo x' = (o_repo y)\<lparr>transactions := transactions (o_repo x0)\<rparr>" "o_handle x' = h\<lparr>extents := es\<rparr>"
    "o_state x' = (o_state y)\<lparr>new_chunks := [], transaction_lock := None\<rparr>"
    using lock assms(2) by (auto simp: x'_def release_lock_def upd_extents_def drop_lock_def idle_def h_def)
  have chunks: "set (extent_chunks es) \<subseteq> set (handle_chunks h) \<union> set (new_chunks (o_state y))"
    by (auto simp: es_def set_extent_chunks handle_chunks_def start_hole_def end_hole_def dest: in_set_takeD in_set_dropD
      split: seek_position.splits extent.splits)
  show "obj_ok blocks X S N x'"
    using assms(1) okes total chunks lock
    by (auto simp: obj_ok_def x' obj_view_def wr_inv_def buffer_ok_def refs_ok_def handle_chunks_def h_def)
  show "idle inv pending x'"
    using assms(1,2,7,8) by (auto simp: idle_def x' h_def wr_inv_def ic_is_empty_def)
  show "obj_content blocks X x' = overwrite (pos_of x0) w (obj_content blocks X x0)"
    using content by (simp add: obj_content_def obj_view_def x')
  show "grows blocks X (o_repo x0) (o_repo x')"
    using assms(1) begun_view [of x0]
    by (auto simp: x' wr_inv_def grows_def same_rest_def begun_def)
qed (simp_all add: x'_def release_lock_def upd_extents_def h_def split: option.splits,
  use assms(1) in \<open>auto simp: wr_inv_def\<close>)

lemma commit_ok:
  assumes "txn N x0 w x" "obj_ok blocks X S N x0" "idle inv pending x0"
    "pos_of x0 \<le> length (obj_content blocks X x0)"
    "overwrite (pos_of x0) w (obj_content blocks X x0) \<in> S"
    "length (overwrite (pos_of x0) w (obj_content blocks X x0)) < 2 ^ 63"
    "draws x + 2 * (length (obj_content blocks X x0) + 2) \<le> N"
  shows "\<exists>x'. object_commit D X C x = (Ok (), x') \<and> obj_ok blocks X S N x' \<and> idle inv pending x' \<and>
    obj_content blocks X x' = overwrite (pos_of x0) w (obj_content blocks X x0) \<and>
    pos_of x' = pos_of x0 + length w \<and> handle_id (o_handle x') = handle_id (o_handle x0) \<and>
    grows blocks X (o_repo x0) (o_repo x') \<and>
    draws x' \<le> draws x + 2 * (length (obj_content blocks X x0) + 2)"
proof -
  have wr: "wr_inv N x0 x" and x: "held x = head_bytes (obj_view blocks X x0) (current_position x0) @ w"
    "pos_of x = pos_of x0 + length w" "ready x = 0" "o_handle x = o_handle x0" "in_transaction x"
    using assms(1) by (auto simp: txn_def wr_inv_def in_transaction_def)
  let ?q = "position_in (o_handle x0) (pos_of x)"
  have q: "current_position x = ?q" using x by (simp add: current_position_def)
  have tail: "tail_bytes (obj_view blocks X x) ?q = tail_bytes (obj_view blocks X x0) ?q"
    using bytes_mono(2) [OF _ _ wr_content(2) [OF wr assms(2)]] assms(2) by (auto simp: obj_ok_def)
  obtain y where y: "save_suffix D X C ?q x = (Ok (), y)" "wr_inv N x0 y"
    "held y = held x @ tail_bytes (obj_view blocks X x0) ?q" "pos_of y = pos_of x" "draws y = draws x"
    "ready y \<le> length (obj_content blocks X x0) + 1"
    using save_suffix_ok [OF wr] x(3) wr_content(1) [OF wr assms(2)] unfolding q tail by auto
  let ?z = "upd_state (\<lambda>ob. ob\<lparr>chunker := ic_flush C (chunker ob)\<rparr>) y"
  note z = flush_ok [OF y(2)]
  have held: "held ?z = head_bytes (obj_view blocks X x0) (current_position x0) @ w @
      tail_bytes (obj_view blocks X x0) ?q"
    using z(2) y(3) x(1) by simp
  then have inS: "held ?z \<in> S" using piece_of_overwrite [OF assms(2,4,5)] x(2) by simp
  have ready: "ready ?z \<le> length (obj_content blocks X x0) + 2" using z(5) y(6) by linarith
  have budget: "draws ?z + 2 * ready ?z \<le> N" using y(5) ready assms(7) by simp
  obtain v where v: "write_chunks D X ?z = (Ok (), v)" "wr_inv N x0 v" "held v = held ?z"
    "pos_of v = pos_of ?z" "draws v \<le> draws ?z + 2 * ready ?z" "ready v = 0"
    "ic_buffer (chunker (o_state v)) = []"
    using write_chunks_ok [OF z(1) inS budget] unfolding z(6) by blast
  have pos: "pos_of v = pos_of x0 + length w" "pos_of v = pos_of x" using v(4) z(3) y(4) x(2) by auto
  note final = splice_step_ok [OF v(2) assms(3,2,4) pos(1) assms(6) v(6,7)]
  let ?h = "o_handle x0" and ?p = "current_position x0"
  let ?i = "start_index (extents ?h) ?p" and ?j = "end_index (extents ?h) ?q"
  let ?new = "start_hole ?p @ map EChunk (new_chunks (o_state v)) @ end_hole ?q"
  let ?x = "release_lock (upd_extents (\<lambda>_. take ?i (extents ?h) @ ?new @ drop ?j (extents ?h))
    (upd_state (\<lambda>ob. ob\<lparr>new_chunks := []\<rparr>) v))"
  have bounds: "total (extents ?h) < 2 ^ 64" "pos_of x0 \<le> total (extents ?h)"
    using assms(2,4) by (auto simp: obj_ok_def obj_content_def length_content)
  have "?i \<le> ?j" "?j \<le> length (extents ?h)"
    using splice_index [OF bounds, of "pos_of x"] end_index_bound(1) [OF bounds(1)] x(2)
    by (simp_all add: current_position_def)
  moreover have "o_handle v = ?h" "start_position (o_state v) = ?p" using v(2) by (auto simp: wr_inv_def)
  ultimately have "object_commit D X C x = (Ok (), ?x)"
    using x(5) y(1) v(1)
    by (simp add: object_commit_def q bindR_def splice_extents_def upd_extents_def Let_def)
  with final [unfolded pos(2)] held v(3,5) ready z(4) y(5) pos show ?thesis
    by (intro exI [of _ ?x]) (simp add: x(2))
qed

lemma writes_ok:
  assumes "txn N x0 w x" "pos_of x + length (concat ws) < 2 ^ 63"
    "head_bytes (obj_view blocks X x0) (current_position x0) @ w @ concat ws \<in> S"
    "draws x + 2 * (length (concat ws) + length ws) \<le> N"
  shows "\<exists>x'. object_writes D X C ws x = (Ok (), x') \<and> txn N x0 (w @ concat ws) x' \<and>
    draws x' \<le> draws x + 2 * (length (concat ws) + length ws)"
  using assms
proof (induction ws arbitrary: w x)
  case Nil
  then show ?case by (auto simp: object_writes_def)
next
  case (Cons b ws)
  have "head_bytes (obj_view blocks X x0) (current_position x0) @ w @ b \<in> S"
    using Cons.prems(3) piece_in_S [of "[]" _ "concat ws"] by simp
  then obtain y where y: "object_write D X C b x = (Ok (length b), y)" "txn N x0 (w @ b) y"
    "draws y \<le> draws x + 2 * (length b + 1)"
    using write_next_ok [of N x0 w x b] Cons.prems by auto
  moreover have "pos_of y = pos_of x + length b" using y(2) Cons.prems(1) by (simp add: txn_def)
  ultimately obtain x' where "object_writes D X C ws y = (Ok (), x')" "txn N x0 ((w @ b) @ concat ws) x'"
    "draws x' \<le> draws y + 2 * (length (concat ws) + length ws)"
    using Cons.IH [of "w @ b" y] Cons.prems by fastforce
  with y show ?case by (auto simp: object_writes_def bindR_def)
qed

lemma writes_first_ok:
  assumes "obj_ok blocks X S N x" "idle inv pending x" "pos_of x \<le> length (obj_content blocks X x)"
    "overwrite (pos_of x) (concat ws) (obj_content blocks X x) \<in> S"
    "length (overwrite (pos_of x) (concat ws) (obj_content blocks X x)) < 2 ^ 63"
    "draws x + 2 * (2 * length (obj_content blocks X x) + length (concat ws) + length ws + 4) \<le> N" "ws \<noteq> []"
  shows "\<exists>x'. object_writes D X C ws x = (Ok (), x') \<and> txn N x (concat ws) x' \<and>
    draws x' \<le> draws x + 2 * (length (obj_content blocks X x) + length (concat ws) + length ws + 1)"
proof -
  obtain b bs where Cons: "ws = b # bs" using assms(7) by (cases ws) auto
  let ?c = "obj_content blocks X x" and ?head = "head_bytes (obj_view blocks X x) (current_position x)"
  have "pos_of x + length (concat ws) < 2 ^ 63"
    using assms(3,5) by (simp add: length_overwrite)
  then have len: "length b < 2 ^ 63" "pos_of x + length b < 2 ^ 64"
    "pos_of x + length b + length (concat bs) < 2 ^ 63" using Cons by auto
  have S: "?head @ b @ concat bs \<in> S" "?head @ b \<in> S"
    using piece_of_overwrite [OF assms(1,3,4)] piece_in_S [of "[]" "?head @ concat ws"]
      piece_in_S [of "[]" "?head @ b"] Cons by auto
  obtain y where y: "object_write D X C b x = (Ok (length b), y)" "txn N x b y"
    "draws y \<le> draws x + 2 * (length ?c + length b + 2)"
    using write_first_ok [OF assms(1,2) len(1,2) S(2)] assms(6) Cons by auto
  moreover have "pos_of y = pos_of x + length b" using y(2) by (simp add: txn_def)
  ultimately obtain z where z: "object_writes D X C bs y = (Ok (), z)" "txn N x (b @ concat bs) z"
    "draws z \<le> draws y + 2 * (length (concat bs) + length bs)"
    using writes_ok [of N x b y bs] S(1) len(3) assms(6) Cons by fastforce
  with y Cons show ?thesis by (auto simp: object_writes_def bindR_def)
qed

lemma writes_isolated_ok:
  assumes "obj_ok blocks X S N x" "idle inv pending x" "pos_of x \<le> length (obj_content blocks X x)"
    "overwrite (pos_of x) (concat ws) (obj_content blocks X x) \<in> S"
    "length (overwrite (pos_of x) (concat ws) (obj_content blocks X x)) < 2 ^ 63"
    "draws x + 2 * (2 * length (obj_content blocks X x) + length (concat ws) + length ws + 4) \<le> N" "ws \<noteq> []"
  shows "\<exists>x'. object_writes D X C ws x = (Ok (), x') \<and> o_handle x' = o_handle x \<and>
    obj_content blocks X x' = obj_content blocks X x \<and> handle_id (o_handle x) \<in> transactions (o_repo x')"
proof -
  obtain x' where x': "object_writes D X C ws x = (Ok (), x')" "wr_inv N x x'"
    using writes_first_ok [OF assms] unfolding txn_def by blast
  with wr_content(1) [OF x'(2) assms(1)] show ?thesis
    by (auto simp: wr_inv_def grows_def same_rest_def begun_def)
qed

lemma write_commit_ok:
  assumes "obj_ok blocks X S N x" "idle inv pending x" "pos_of x \<le> length (obj_content blocks X x)"
    "overwrite (pos_of x) (concat ws) (obj_content blocks X x) \<in> S"
    "length (overwrite (pos_of x) (concat ws) (obj_content blocks X x)) < 2 ^ 63"
    "draws x + 2 * (2 * length (obj_content blocks X x) + length (concat ws) + length ws + 4) \<le> N"
  shows "\<exists>x'. bindR (object_writes D X C ws) (\<lambda>_. object_commit D X C) x = (Ok (), x') \<and>
    obj_ok blocks X S N x' \<and> idle inv pending x' \<and>
    obj_content blocks X x' = overwrite (pos_of x) (concat ws) (obj_content blocks X x) \<and>
    pos_of x' = pos_of x + length (concat ws) \<and> handle_id (o_handle x') = handle_id (o_handle x) \<and>
    grows blocks X (o_repo x) (o_repo x') \<and>
    draws x' \<le> draws x + 2 * (2 * length (obj_content blocks X x) + length (concat ws) + length ws + 4)"
proof (cases "ws = []")
  case True
  with assms show ?thesis
    by (auto simp: object_writes_def object_commit_def bindR_def in_transaction_def idle_def overwrite_def)
next
  case False
  let ?c = "obj_content blocks X x"
  obtain z where z: "object_writes D X C ws x = (Ok (), z)" "txn N x (concat ws) z"
    "draws z \<le> draws x + 2 * (length ?c + length (concat ws) + length ws + 1)"
    using writes_first_ok [OF assms False] by blast
  moreover have "draws z + 2 * (length ?c + 2) \<le> N" using z(3) assms(6) by simp
  ultimately obtain x' where "object_commit D X C z = (Ok (), x')" "obj_ok blocks X S N x'" "idle inv pending x'"
    "obj_content blocks X x' = overwrite (pos_of x) (concat ws) ?c" "pos_of x' = pos_of x + length (concat ws)"
    "handle_id (o_handle x') = handle_id (o_handle x)" "grows blocks X (o_repo x) (o_repo x')"
    "draws x' \<le> draws z + 2 * (length ?c + 2)"
    using commit_ok [OF _ assms(1,2,3,4,5)] by blast
  with z show ?thesis by (auto simp: bindR_def)
qed

text \<open>Cutting the last extent stores the part of its chunk that is kept.\<close>

lemma cut_extent_ok:
  assumes "obj_ok blocks X S N x" "extents (o_handle x) = pre @ e # post" "r < extent_size e"
    "el_extent l = e" "relative_position l = r" "draws x + 2 \<le> N"
  shows "\<exists>s e'. cut_extent D X l x = (Ok e', x\<lparr>o_repo := s\<rparr>) \<and> direct_inv blocks X S N s \<and>
    grows blocks X (o_repo x) s \<and> rng s \<le> draws x + 2 \<and> extents_ok (chunk_data blocks X s) [e'] \<and>
    ebytes (chunk_data blocks X s) e' = take r (ebytes (obj_view blocks X x) e) \<and>
    (\<forall>c. e' = EChunk c \<longrightarrow> handle_id (o_handle x) \<in> refs_of s c)"
proof (cases e)
  case (EHole n)
  have "x\<lparr>o_repo := o_repo x\<rparr> = x" by simp
  with EHole assms show ?thesis
    by (intro exI [of _ "o_repo x"] exI [of _ "EHole r"])
      (simp add: cut_extent_def extent_size_def obj_ok_def)
next
  case (EChunk c)
  let ?h = "handle_id (o_handle x)"
  obtain d where d: "obj_view blocks X x c = Some d" "length d = c_size c"
    using assms(1,2) EChunk extents_ok_chunk unfolding obj_ok_def by metis
  have inv: "direct_inv blocks X S N (o_repo x)" using assms(1) by (simp add: obj_ok_def)
  obtain s where s: "on_chunks (read_chunk D X c) x = (Ok d, x\<lparr>o_repo := s\<rparr>)" "store_eq blocks (o_repo x) s"
    using chunk_read_ok [OF inv d(1)] by blast
  have small: "take r d \<in> S" "length (take r d) < 2 ^ 32"
    using direct_inv_chunk_data [OF inv, of c d] d(1) piece_in_S [of "[]" "take r d" "drop r d"]
    by (auto simp: obj_view_def)
  obtain s' where s': "on_chunks (write_chunk D X (take r d) ?h) (x\<lparr>o_repo := s\<rparr>) =
      (Ok (chunk_of X (take r d)), x\<lparr>o_repo := s'\<rparr>)"
    "rng s' \<le> rng s + 2" "direct_inv blocks X S N s'" "grows blocks X s s'"
    "?h \<in> refs_of s' (chunk_of X (take r d))" "chunk_data blocks X s' (chunk_of X (take r d)) = Some (take r d)"
    using store_chunk_ok [of N "x\<lparr>o_repo := s\<rparr>" "take r d" ?h] inv s(2) small assms(6)
    by (auto simp: store_eq_view store_eq_fields)
  have "cut_extent D X l x = (Ok (EChunk (chunk_of X (take r d))), x\<lparr>o_repo := s'\<rparr>)"
    using assms(3-5) EChunk d s(1) s'(1) by (simp add: cut_extent_def bindR_def slice_of_def extent_size_def)
  moreover have "grows blocks X (o_repo x) s'" using store_eq_grows [OF s(2)] s'(4) grows_trans by blast
  moreover have "rng s' \<le> draws x + 2" using s'(2) s(2) by (simp add: store_eq_fields)
  moreover have "c_size (chunk_of X (take r d)) = length (take r d)" using small(2) by (rule chunk_of_exact)
  ultimately show ?thesis
    using s' d EChunk by (intro exI [of _ s'] exI [of _ "EChunk (chunk_of X (take r d))"]) auto
qed

text \<open>
  Replacing the extents of an object whose lock was taken from the idle state \<open>x0\<close>, and releasing it.
\<close>

lemma unlock_ok:
  assumes "idle inv pending x0" "obj_ok blocks X S N x0" "direct_inv blocks X S N s" "grows blocks X (o_repo (begun x0)) s"
    "extents_ok (chunk_data blocks X s) es" "total es < 2 ^ 63" "p < 2 ^ 64"
    "\<forall>c \<in> set (extent_chunks es). handle_id (o_handle x0) \<in> refs_of s c"
  defines "x' \<equiv> release_lock (upd_state (\<lambda>ob. ob\<lparr>position := p\<rparr>) (upd_extents (\<lambda>_. es) ((begun x0)\<lparr>o_repo := s\<rparr>)))"
  shows "obj_ok blocks X S N x'" "idle inv pending x'" "obj_content blocks X x' = content (chunk_data blocks X s) es"
    "pos_of x' = p" "handle_id (o_handle x') = handle_id (o_handle x0)" "grows blocks X (o_repo x0) (o_repo x')"
    "draws x' = rng s" "release_lock x' = x'"
proof -
  have t: "transactions s = insert (handle_id (o_handle x0)) (transactions (o_repo x0))"
    using assms(4) by (simp add: grows_def same_rest_def begun_def)
  have x': "o_repo x' = s\<lparr>transactions := transactions (o_repo x0)\<rparr>" "o_handle x' = (o_handle x0)\<lparr>extents := es\<rparr>"
    "o_state x' = (o_state x0)\<lparr>position := p\<rparr>"
    using t assms(1) by (auto simp: x'_def release_lock_def upd_extents_def begun_def drop_lock_def idle_def)
  have "\<And>c d. obj_view blocks X x0 c = Some d \<Longrightarrow> chunk_data blocks X s c = Some d"
    using assms(4) begun_view [of x0] by (auto simp: grows_def obj_view_def)
  with assms(1-8) show "obj_ok blocks X S N x'"
    by (auto simp: obj_ok_def x' obj_view_def buffer_ok_def refs_ok_def handle_chunks_def)
  show "idle inv pending x'" using assms(1) by (simp add: idle_def x')
  show "grows blocks X (o_repo x0) (o_repo x')"
    using assms(4) begun_view [of x0] by (auto simp: x' grows_def same_rest_def begun_def)
  show "release_lock x' = x'" using assms(1) by (simp add: release_lock_def x' idle_def)
qed (use assms(1) in \<open>auto simp: x'_def release_lock_def upd_extents_def begun_def obj_content_def obj_view_def\<close>)

lemma begun_fields [simp]:
  "o_handle (begun x) = o_handle x" "pos_of (begun x) = pos_of x" "draws (begun x) = draws x"
  by (simp_all add: begun_def)

lemma begun_ok: "obj_ok blocks X S N x \<Longrightarrow> obj_ok blocks X S N (begun x)"
  by (simp add: obj_ok_def begun_def obj_view_def refs_ok_def buffer_ok_def)

lemma set_len_same:
  assumes "obj_ok blocks X S N x" "idle inv pending x"
  shows "release_lock (begun x) = x"
proof -
  have "insert (handle_id (o_handle x)) (transactions (o_repo x)) - {handle_id (o_handle x)} = transactions (o_repo x)"
    using assms(2) by (auto simp: idle_def)
  moreover have "transaction_lock (o_state x) = None" using assms(2) by (simp add: idle_def)
  ultimately show ?thesis by (simp add: release_lock_def begun_def drop_lock_def upd_state_def)
qed

lemma set_len_longer:
  assumes "obj_ok blocks X S N x" "idle inv pending x" "length (obj_content blocks X x) < n" "n < 2 ^ 63"
  defines "x' \<equiv> release_lock (extend n (begun x))"
  shows "obj_ok blocks X S N x'" "idle inv pending x'"
    "obj_content blocks X x' = resize n (obj_content blocks X x)"
    "pos_of x' = pos_of x" "handle_id (o_handle x') = handle_id (o_handle x)"
    "grows blocks X (o_repo x) (o_repo x')" "draws x' = draws x"
proof -
  let ?es = "extents (o_handle x)" and ?V = "obj_view blocks X x"
  let ?new = "?es @ [EHole (n - total ?es)]"
  have len: "length (obj_content blocks X x) = total ?es" "total ?es < 2 ^ 64"
    using assms(1) by (auto simp: obj_ok_def obj_content_def length_content)
  then have size: "handle_size (o_handle x) = total ?es" by (simp add: handle_size_exact)
  have x': "x' = release_lock (upd_state (\<lambda>ob. ob\<lparr>position := pos_of x\<rparr>)
      (upd_extents (\<lambda>_. ?new) ((begun x)\<lparr>o_repo := o_repo (begun x)\<rparr>)))"
    unfolding x'_def using assms(3) len size
    by (intro arg_cong [where f = release_lock] octx.equality)
      (simp_all add: extend_def upd_extents_def upd_state_def begun_def)
  have "extents_ok (chunk_data blocks X (o_repo (begun x))) ?new" "total ?new < 2 ^ 63"
    "\<forall>c \<in> set (extent_chunks ?new). handle_id (o_handle x) \<in> refs_of (o_repo (begun x)) c"
    "direct_inv blocks X S N (o_repo (begun x))" "pos_of x < 2 ^ 64"
    using assms(1,3,4) len begun_view [of x]
    by (auto simp: obj_ok_def obj_view_def extent_size_def refs_ok_def handle_chunks_def begun_def buffer_ok_def)
  note facts = unlock_ok [OF assms(2,1) this(4) grows_refl this(1,2,5,3), folded x']
  show "obj_ok blocks X S N x'" "idle inv pending x'" "pos_of x' = pos_of x"
    "handle_id (o_handle x') = handle_id (o_handle x)" "grows blocks X (o_repo x) (o_repo x')" "draws x' = draws x"
    using facts by simp_all
  show "obj_content blocks X x' = resize n (obj_content blocks X x)"
    using facts(3) assms(3) len begun_view [of x] by (simp add: resize_def obj_content_def obj_view_def)
qed

text \<open>Cutting the object: all extents after the position go, and the extent at the position is cut.\<close>

lemma set_len_shorter:
  assumes "obj_ok blocks X S N x" "idle inv pending x" "n < length (obj_content blocks X x)" "draws x + 2 \<le> N"
  shows "\<exists>x'. truncate D X n (begun x) = (Ok (), x') \<and> release_lock x' = x' \<and> obj_ok blocks X S N x' \<and>
    idle inv pending x' \<and> obj_content blocks X x' = resize n (obj_content blocks X x) \<and>
    pos_of x' = min (pos_of x) n \<and> handle_id (o_handle x') = handle_id (o_handle x) \<and>
    grows blocks X (o_repo x) (o_repo x') \<and> draws x' \<le> draws x + 2"
proof -
  let ?es = "extents (o_handle x)" and ?V = "obj_view blocks X x"
  have ok: "extents_ok ?V ?es" "total ?es < 2 ^ 63" "refs_ok (o_repo x) (o_handle x)"
    using assms(1) by (auto simp: obj_ok_def)
  then have len: "length (obj_content blocks X x) = total ?es" "total ?es < 2 ^ 64" "handle_size (o_handle x) = total ?es"
    by (simp_all add: obj_content_def length_content handle_size_exact)
  let ?y = "upd_state (\<lambda>ob. ob\<lparr>position := n\<rparr>) (begun x)"
  obtain pre e post r l where i: "?es = pre @ e # post" "n = total pre + r" "r < extent_size e"
    "position_in (o_handle x) n = SeekExtent l" "el_extent l = e" "relative_position l = r" "el_index l = length pre"
    using len(2) by (cases rule: position_cases [of "o_handle x" n]) (use len(1) assms(3) in auto)
  have y: "obj_ok blocks X S N ?y" "extents (o_handle ?y) = pre @ e # post" "draws ?y + 2 \<le> N"
    "obj_view blocks X ?y = ?V" "current_position ?y = SeekExtent l"
    using begun_ok [OF assms(1)] i assms(3,4) len begun_view [of x]
    by (auto simp: obj_ok_def buffer_ok_def obj_view_def current_position_def)
  obtain s e' where c: "cut_extent D X l ?y = (Ok e', ?y\<lparr>o_repo := s\<rparr>)" "direct_inv blocks X S N s"
    "grows blocks X (o_repo (begun x)) s" "rng s \<le> draws x + 2" "extents_ok (chunk_data blocks X s) [e']"
    "ebytes (chunk_data blocks X s) e' = take r (ebytes ?V e)" "\<And>c. e' = EChunk c \<Longrightarrow> handle_id (o_handle x) \<in> refs_of s c"
    using cut_extent_ok [OF y(1,2) i(3,5,6) y(3)] unfolding y(4) by auto
  let ?new = "pre @ [e']" and ?p = "min (pos_of x) n" and ?W = "chunk_data blocks X s"
  let ?x = "release_lock (upd_state (\<lambda>ob. ob\<lparr>position := ?p\<rparr>) (upd_extents (\<lambda>_. ?new) ((begun x)\<lparr>o_repo := s\<rparr>)))"
  have mono: "\<And>c d. ?V c = Some d \<Longrightarrow> ?W c = Some d" "\<And>c. refs_of (o_repo x) c \<subseteq> refs_of s c"
    using c(3) begun_view [of x] by (auto simp: grows_def obj_view_def begun_def)
  have "extents_ok ?V pre" using ok(1) i(1) by simp
  note pre = extents_ok_mono [OF this mono(1)] content_mono [OF this mono(1)]
  have new: "extents_ok ?W ?new" "content ?W ?new = resize n (obj_content blocks X x)"
    using pre c(5,6) i ok(1) assms(3) len
    by (auto simp: obj_content_def resize_def length_content length_ebytes extents_ok_Cons [of _ e post])
  then have total: "total ?new < 2 ^ 63" "?p < 2 ^ 64"
    using length_content [OF new(1)] assms(1,3) len ok(2) by (auto simp: resize_def obj_ok_def buffer_ok_def)
  have refs: "\<forall>c \<in> set (extent_chunks ?new). handle_id (o_handle x) \<in> refs_of s c"
    using ok(3) mono(2) i(1) c(7) by (auto simp: refs_ok_def handle_chunks_def set_extent_chunks)
  note facts = unlock_ok [OF assms(2,1) c(2,3) new(1) total refs]
  have "truncate D X n (begun x) = (Ok (), ?x)"
  proof -
    have "upd_state (\<lambda>ob. ob\<lparr>position := ?p\<rparr>) (upd_extents (\<lambda>es. take (el_index l) es @ [e']) (?y\<lparr>o_repo := s\<rparr>)) =
      upd_state (\<lambda>ob. ob\<lparr>position := ?p\<rparr>) (upd_extents (\<lambda>_. ?new) ((begun x)\<lparr>o_repo := s\<rparr>))"
      using i(1,7) by (intro octx.equality) (simp_all add: upd_extents_def upd_state_def)
    then show ?thesis
      using assms(3) len y(5) c(1) by (simp add: truncate_def Let_def bindR_def)
  qed
  with facts c(4) new(2) show ?thesis by (intro exI [of _ ?x]) simp
qed

lemma set_len_ok:
  assumes "obj_ok blocks X S N x" "idle inv pending x" "n < 2 ^ 63" "draws x + 2 \<le> N"
  shows "\<exists>x'. set_len D X n x = (Ok (), x') \<and> obj_ok blocks X S N x' \<and> idle inv pending x' \<and>
    obj_content blocks X x' = resize n (obj_content blocks X x) \<and>
    pos_of x' = (if n < length (obj_content blocks X x) then min (pos_of x) n else pos_of x) \<and>
    handle_id (o_handle x') = handle_id (o_handle x) \<and> grows blocks X (o_repo x) (o_repo x') \<and>
    draws x' \<le> draws x + 2"
proof -
  have idle: "\<not> in_transaction x" using assms(2) by (simp add: in_transaction_def idle_def)
  have size: "handle_size (o_handle x) = length (obj_content blocks X x)"
    using assms(1) by (auto simp: obj_ok_def obj_content_def length_content handle_size_exact)
  consider "n < length (obj_content blocks X x)" | "n = length (obj_content blocks X x)"
    | "length (obj_content blocks X x) < n" by linarith
  then show ?thesis
  proof cases
    case 1
    with set_len_shorter [OF assms(1,2) 1 assms(4)] idle size begin_ok [OF assms(2)] show ?thesis
      by (auto simp: set_len_def bindR_def)
  next
    case 2
    with set_len_same [OF assms(1,2)] idle size begin_ok [OF assms(2)] assms show ?thesis
      by (auto simp: set_len_def bindR_def resize_def)
  next
    case 3
    with set_len_longer [OF assms(1,2) 3 assms(3)] idle size begin_ok [OF assms(2)] show ?thesis
      by (auto simp: set_len_def bindR_def)
  qed
qed

end

end
