(* ===== verification/Object_Contract.thy ===== *)
theory Object_Contract
  imports Object_Write
begin

text \<open>
  The contract of an object, read off the lemmas of the two theories before: reading, seeking,
  verifying, writing, resizing, serializing, and the transaction protocol.  The environment
  \<open>object_env\<close> is interpreted on the data store in memory and the fixed-size chunker, and a concrete
  object on it is the input of the evaluations.
\<close>

section \<open>Deserializing, verifying and comparing\<close>

context reader
begin

lemma run_decoder_slice:
  "ok r \<Longrightarrow> fst (run_decoder rd dec r) = fst (run_decoder slice_read dec (rest r)) \<and> ok (snd (run_decoder rd dec r))"
proof (induction dec arbitrary: r)
  case (Need n f)
  show ?case
  proof (cases "n \<le> length (rest r)")
    case True
    obtain r' where r': "read_exact_loop rd n [] r = Some (Inr (take n (rest r)), r')"
      "rest r' = drop n (rest r)" "ok r'"
      using read_exact_ok [OF Need.prems True, of "[]"] by auto
    moreover have "read_exact_loop slice_read n [] (rest r) = Some (Inr (take n (rest r)), drop n (rest r))"
      using slice_reader.read_exact_ok [where r = "rest r" and n = n and acc = "[]"] True by auto
    ultimately show ?thesis using Need.IH [OF _ r'(3)] by simp
  next
    case False
    then have "length (rest r) < n" by simp
    with read_exact_short [OF Need.prems, of n "[]"] slice_reader.read_exact_short [where r = "rest r" and n = n and acc = "[]"]
    show ?thesis by auto
  qed
qed simp_all

end

lemma matches_iff:
  assumes "extents_ok V es" "\<And>c d. V c = Some d \<Longrightarrow> d \<in> S \<and> chunk_hash X d = c_hash c"
    "collision_free X S" "b \<in> S" "length b = total es"
  shows "matches X es b \<longleftrightarrow> b = content V es"
  using assms(1,4,5)
proof (induction es arbitrary: b)
  case (Cons e es)
  have ok: "extents_ok V [e]" "extents_ok V es" using Cons.prems(1) extents_ok_Cons by blast+
  have S: "take (extent_size e) b \<in> S" "drop (extent_size e) b \<in> S"
    using collision_free_piece [OF assms(3) Cons.prems(2), of "extent_size e" 0]
      collision_free_piece [OF assms(3) Cons.prems(2), of "length b" "extent_size e"] by simp_all
  have IH: "matches X es (drop (extent_size e) b) \<longleftrightarrow> drop (extent_size e) b = content V es"
    using Cons.IH [OF ok(2) S(2)] Cons.prems(3) by simp
  have "matches X [e] b \<longleftrightarrow> take (extent_size e) b = ebytes V e"
  proof (cases e)
    case (EChunk c)
    then obtain d where d: "V c = Some d" "length d = c_size c" using Cons.prems(1) by auto
    have "chunk_hash X (take (c_size c) b) = chunk_hash X d \<longleftrightarrow> take (c_size c) b = d"
      using S(1) assms(2) [OF d(1)] assms(3) d(2) Cons.prems(3) EChunk
      by (auto simp: collision_free_def inj_on_def extent_size_def)
    with d EChunk assms(2) [OF d(1)] show ?thesis by (auto simp: extent_size_def)
  qed (simp add: extent_size_def)
  moreover have "matches X (e # es) b \<longleftrightarrow> matches X [e] b \<and> matches X es (drop (extent_size e) b)"
    by (cases e) (auto simp: extent_size_def)
  moreover have "length (ebytes V e) = extent_size e"
    using ok(1) by (rule length_ebytes)
  ultimately show ?case
    using IH by (metis append_eq_conv_conj append_take_drop_id content_simps(2))
qed simp

context object_env
begin

lemma verify_chunks_ok:
  assumes "direct_inv blocks X S N s" "\<forall>c \<in> set cs. \<exists>d. chunk_data blocks X s c = Some d"
  shows "\<exists>s'. verify_chunks D X cs (s, t) = (Ok True, (s', t)) \<and> store_eq blocks s s'"
  using assms
proof (induction cs arbitrary: s)
  case (Cons c cs)
  then obtain d where d: "chunk_data blocks X s c = Some d" by auto
  obtain s1 where s1: "read_chunk D X c (s, t) = (Ok d, (s1, t))" "store_eq blocks s s1"
    using read_chunk_ok [OF _ d] Cons.prems(1) by (auto simp: direct_inv_def)
  have "chunk_valid X c d"
    using direct_inv_chunk_data [OF Cons.prems(1) d] by (simp add: chunk_valid_def)
  moreover obtain s' where "verify_chunks D X cs (s1, t) = (Ok True, (s', t))" "store_eq blocks s1 s'"
    using Cons.IH [of s1] Cons.prems s1(2) by (auto simp: store_eq_view)
  ultimately show ?case using s1 store_eq_trans [OF s1(2)] by (auto)
qed auto

lemma verify_ok:
  assumes "obj_ok blocks X S N x" "\<not> in_transaction x"
  shows "\<exists>x'. object_verify D X x = (Ok True, x') \<and> same_object blocks x x'"
proof -
  have "\<forall>c \<in> set (handle_chunks (o_handle x)). \<exists>d. chunk_data blocks X (o_repo x) c = Some d"
    using assms(1) by (auto simp: obj_ok_def extents_ok_def handle_chunks_def set_extent_chunks obj_view_def)
  then obtain s where "verify_chunks D X (handle_chunks (o_handle x)) (o_repo x, obj_store (o_state x)) =
      (Ok True, (s, obj_store (o_state x)))" "store_eq blocks (o_repo x) s"
    using verify_chunks_ok assms(1) unfolding obj_ok_def by blast
  with assms(2) show ?thesis
    by (auto simp: object_verify_def on_chunks_def same_object_def)
qed

lemma seek_start_ok:
  assumes "\<not> in_transaction x"
  shows "object_seek (FromStart 0) x = (Ok 0, upd_state (\<lambda>ob. ob\<lparr>position := 0\<rparr>) x)"
  using assms by (simp add: object_seek_def seek_target_def bindR_def)

lemma rewind_ok:
  assumes "obj_ok blocks X S N x"
  shows "obj_ok blocks X S N (upd_state (\<lambda>ob. ob\<lparr>position := 0\<rparr>) x)"
    "obj_content blocks X (upd_state (\<lambda>ob. ob\<lparr>position := 0\<rparr>) x) = obj_content blocks X x"
    "idle inv pending (upd_state (\<lambda>ob. ob\<lparr>position := 0\<rparr>) x) = idle inv pending x"
  using assms by (simp_all add: obj_ok_def buffer_ok_def obj_content_def idle_def)

lemma deserialize_keeps_ok:
  fixes x :: "('s, 'c) octx"
  assumes "obj_ok blocks X S N x" "\<not> in_transaction x"
  shows "\<exists>x'. object_deserialize D X dec x = (fst (run_decoder slice_read dec (obj_content blocks X x)), x') \<and>
    same_object blocks x x' \<and> obj_ok blocks X S N x'"
proof -
  let ?y = "upd_state (\<lambda>ob. ob\<lparr>position := 0\<rparr>) x"
  have ok: "obj_ok blocks X S N ?y \<and> \<not> in_transaction ?y \<and> same_object blocks ?y ?y"
    using rewind_ok(1) [OF assms(1)] assms(2) by (simp add: in_transaction_def)
  have run: "object_deserialize D X dec x = run_decoder (object_read_fn D X) dec ?y"
    using seek_start_ok [OF assms(2)] by (simp add: object_deserialize_def bindR_def)
  have rest: "obj_rest ?y = obj_content blocks X x" using rewind_ok(2) [OF assms(1)] by (simp add: obj_rest_def)
  note facts = reader.run_decoder_slice [OF object_reader, OF ok, of dec, unfolded rest]
  have "same_object blocks x ?y" by (simp add: same_object_def)
  with facts have "same_object blocks x (snd (run_decoder (object_read_fn D X) dec ?y))"
    using same_object_trans by blast
  with facts show ?thesis unfolding run by (metis prod.collapse)
qed

lemma deserialize_ok:
  fixes x :: "('s, 'c) octx"
  assumes "obj_ok blocks X S N x" "\<not> in_transaction x"
  shows "\<exists>x'. object_deserialize D X dec x = (fst (run_decoder slice_read dec (obj_content blocks X x)), x') \<and>
    same_object blocks x x'"
  using deserialize_keeps_ok [OF assms] by blast

lemma serialize_ok:
  assumes "obj_ok blocks X S N x" "idle inv pending x" "overwrite 0 v (obj_content blocks X x) \<in> S"
    "length v < 2 ^ 63" "draws x + 2 * (2 * length (obj_content blocks X x) + length v + 6) \<le> N"
  shows "\<exists>x'. object_serialize D X C (Some v) x = (Ok (), x') \<and> obj_ok blocks X S N x' \<and> idle inv pending x' \<and>
    obj_content blocks X x' = v \<and> handle_id (o_handle x') = handle_id (o_handle x) \<and>
    grows blocks X (o_repo x) (o_repo x') \<and>
    draws x' \<le> draws x + 2 * (2 * length (obj_content blocks X x) + length v + 6)"
proof -
  let ?y = "upd_state (\<lambda>ob. ob\<lparr>position := 0\<rparr>) x" and ?c = "obj_content blocks X x"
  let ?ws = "if v = [] then [] else [v]"
  have y: "obj_ok blocks X S N ?y" "obj_content blocks X ?y = ?c" "idle inv pending ?y" "pos_of ?y = 0"
    using rewind_ok [OF assms(1)] assms(2) by simp_all
  have len: "length ?c < 2 ^ 63" using assms(1) by (auto simp: obj_ok_def obj_content_def length_content)
  have "length ?ws \<le> 1" by simp
  then have budget: "draws ?y + 2 * (2 * length ?c + length v + length ?ws + 4) \<le> N"
    using assms(5) by simp
  have ws: "concat ?ws = v" "object_writes D X C ?ws = object_write_all D X C v"
    by (auto simp: object_writes_def object_write_all_def bindR_def fun_eq_iff split: prod.splits result.splits)
  obtain z where z: "bindR (object_write_all D X C v) (\<lambda>_. object_commit D X C) ?y = (Ok (), z)"
    "obj_ok blocks X S N z" "idle inv pending z" "obj_content blocks X z = overwrite 0 v ?c"
    "handle_id (o_handle z) = handle_id (o_handle ?y)" "grows blocks X (o_repo ?y) (o_repo z)"
    "draws z \<le> draws ?y + 2 * (2 * length ?c + length v + length ?ws + 4)"
    using write_commit_ok [OF y(1,3), of ?ws] assms(3,4) len budget unfolding y(2,4) ws
    by (auto simp: length_overwrite)
  then have "draws z + 2 \<le> N" using assms(5) by (simp split: if_splits)
  then obtain x' where x': "set_len D X (length v) z = (Ok (), x')" "obj_ok blocks X S N x'" "idle inv pending x'"
    "obj_content blocks X x' = resize (length v) (overwrite 0 v ?c)"
    "handle_id (o_handle x') = handle_id (o_handle z)" "grows blocks X (o_repo z) (o_repo x')" "draws x' \<le> draws z + 2"
    using set_len_ok [OF z(2,3) assms(4)] z(4) by auto
  have "\<not> in_transaction x" using assms(2) by (simp add: idle_def in_transaction_def)
  then have "object_serialize D X C (Some v) x = bindR (object_write_all D X C v) (\<lambda>_.
      bindR (object_commit D X C) (\<lambda>_. set_len D X (length v))) ?y"
    by (simp add: object_serialize_def bindR_Ok [OF seek_start_ok])
  then have "object_serialize D X C (Some v) x = (Ok (), x')"
    using z(1) x'(1) by (auto simp: bindR_def split: prod.splits result.splits)
  moreover have "draws x' \<le> draws x + 2 * (2 * length ?c + length v + 6)"
    using x'(7) z(7) by (simp split: if_splits)
  ultimately show ?thesis
    using x' z grows_trans by (auto simp: resize_def overwrite_def)
qed

end

section \<open>A concrete object\<close>

text \<open>
  An object with the chunk of the concrete repository and a hole of two bytes, and a chunker that
  cuts at two bytes.
\<close>

definition ref_object :: "nat \<Rightarrow> ((uuid, bytes) hmap, fixed_chunker) octx" where
  "ref_object p = \<lparr>o_repo = ref_repo, o_state = (object_state_new (fixed_new 2))\<lparr>position := p\<rparr>,
     o_handle = \<lparr>handle_id = 1, extents = [EChunk ref_chunk, EHole 2]\<rparr>\<rparr>"

interpretation mem_obj: object_env memory_store mem_blocks ref_ext fixed_ops fixed_inv fixed_fresh bytes_read UNIV
  by unfold_locales (rule ref_collision_free)

lemma ref_object_ok: "p < 2 ^ 64 \<Longrightarrow> obj_ok mem_blocks ref_ext UNIV 100 (ref_object p)"
  using ref_direct_inv
  by (simp add: obj_ok_def ref_object_def obj_view_def ref_chunk_data refs_ok_def handle_chunks_def ref_refs
    extent_size_def buffer_ok_def object_state_new_def) (simp add: ref_chunk_def)

lemma ref_object_idle: "idle fixed_inv bytes_read (ref_object p)"
  by (simp add: idle_def ref_object_def ref_repo_def object_state_new_def ic_ok_def ic_new_def fixed_new_def
    fixed_inv_def ic_is_empty_def)

lemma ref_object_content: "obj_content mem_blocks ref_ext (ref_object p) = [1, 2, 3, 0, 0]"
  by (simp add: obj_content_def obj_view_def ref_object_def ref_chunk_data numeral_2_eq_2)

lemma ref_object_fields:
  "position (o_state (ref_object p)) = p" "rng (o_repo (ref_object p)) = 1" "handle_id (o_handle (ref_object p)) = 1"
  "\<not> in_transaction (ref_object p)"
  by (simp_all add: ref_object_def ref_repo_def object_state_new_def in_transaction_def)

lemmas ref_object_facts = ref_object_ok ref_object_idle ref_object_content ref_object_fields

section \<open>The contract\<close>

text \<open>
  C2: A transaction overwrites.  Any number of \<^verbatim>\<open>write\<close> calls followed by \<^verbatim>\<open>commit\<close>, on an object that
  nobody is writing, succeeds, for every chunker that keeps its contract and wherever the position
  lies in chunks and holes: the contents is the old one with the written bytes at the old position,
  the position advances past them, no chunk of the repository is lost or changed, and the object is
  again well-formed and unlocked.
\<close>

theorem object_write_commit:
  assumes "object_env D bl X C cinv fresh pending S"
    and "obj_ok bl X S N x" "idle cinv pending x"
    and "position (o_state x) \<le> length (obj_content bl X x)"
    and "overwrite (position (o_state x)) (concat ws) (obj_content bl X x) \<in> S"
    and "length (overwrite (position (o_state x)) (concat ws) (obj_content bl X x)) < 2 ^ 63"
    and "rng (o_repo x) + 2 * (2 * length (obj_content bl X x) + length (concat ws) + length ws + 4) \<le> N"
  shows "\<exists>x'. bindR (object_writes D X C ws) (\<lambda>_. object_commit D X C) x = (Ok (), x') \<and>
    obj_content bl X x' = overwrite (position (o_state x)) (concat ws) (obj_content bl X x) \<and>
    position (o_state x') = position (o_state x) + length (concat ws) \<and>
    handle_id (o_handle x') = handle_id (o_handle x) \<and>
    grows bl X (o_repo x) (o_repo x') \<and> obj_ok bl X S N x' \<and> idle cinv pending x'"
  using object_env.write_commit_ok [OF assms] by blast

theorem object_write_commit_witness:
  "\<exists>x'. bindR (object_writes memory_store ref_ext fixed_ops [[7], [8, 9]]) (\<lambda>_. object_commit memory_store ref_ext fixed_ops)
      (ref_object 2) = (Ok (), x') \<and> obj_content mem_blocks ref_ext x' = [1, 2, 7, 8, 9] \<and>
    position (o_state x') = 5"
  using object_write_commit [OF mem_obj.object_env_axioms ref_object_ok ref_object_idle, of 2 "[[7], [8, 9]]"]
  by (simp add: ref_object_facts overwrite_def) blast

text \<open>
  C7: \<^verbatim>\<open>set_len\<close> cuts the contents or extends it with zeros, wherever the new end lies; it pulls the
  position back to the new end, changes no chunk of the repository, and leaves the object unlocked.
\<close>

theorem object_set_len:
  assumes "object_env D bl X C cinv fresh pending S"
    and "obj_ok bl X S N x" "idle cinv pending x" "n < 2 ^ 63" "rng (o_repo x) + 2 \<le> N"
  shows "\<exists>x'. set_len D X n x = (Ok (), x') \<and> obj_content bl X x' = resize n (obj_content bl X x) \<and>
    position (o_state x') = (if n < length (obj_content bl X x) then min (position (o_state x)) n
      else position (o_state x)) \<and>
    handle_id (o_handle x') = handle_id (o_handle x) \<and>
    grows bl X (o_repo x) (o_repo x') \<and> obj_ok bl X S N x' \<and> idle cinv pending x'"
  using object_env.set_len_ok [OF assms] by blast

theorem object_set_len_witness:
  "\<exists>x'. set_len memory_store ref_ext 2 (ref_object 4) = (Ok (), x') \<and>
    obj_content mem_blocks ref_ext x' = [1, 2] \<and> position (o_state x') = 2"
  using object_set_len [OF mem_obj.object_env_axioms ref_object_ok ref_object_idle, of 4 2]
  by (simp add: ref_object_facts resize_def) blast

text \<open>
  C8: Serializing a value and deserializing it again, in a later operation, gives what decoding the
  serialized bytes gives: the object holds exactly these bytes, whatever it held before, and the
  decoder reads all of them across chunk boundaries.
\<close>

theorem object_serialize_roundtrip:
  assumes "object_env D bl X C cinv fresh pending S"
    and "obj_ok bl X S N x" "idle cinv pending x" "overwrite 0 v (obj_content bl X x) \<in> S" "length v < 2 ^ 63"
    and "rng (o_repo x) + 2 * (2 * length (obj_content bl X x) + length v + 6) \<le> N"
  shows "\<exists>x'. object_serialize D X C (Some v) x = (Ok (), x') \<and> obj_content bl X x' = v \<and>
    grows bl X (o_repo x) (o_repo x') \<and> obj_ok bl X S N x' \<and> idle cinv pending x' \<and>
    fst (object_deserialize D X dec x') = fst (run_decoder slice_read dec v)"
proof -
  obtain x' where x': "object_serialize D X C (Some v) x = (Ok (), x')" "obj_ok bl X S N x'" "idle cinv pending x'"
    "obj_content bl X x' = v" "grows bl X (o_repo x) (o_repo x')"
    using object_env.serialize_ok [OF assms] by blast
  then have "\<not> in_transaction x'" by (simp add: idle_def in_transaction_def)
  then obtain x'' where "object_deserialize D X dec x' = (fst (run_decoder slice_read dec v), x'')"
    using object_env.deserialize_ok [OF assms(1) x'(2)] x'(4) by metis
  with x' show ?thesis by (metis fst_conv)
qed

theorem object_serialize_roundtrip_witness:
  "\<exists>x'. object_serialize memory_store ref_ext fixed_ops (Some [4, 5, 6]) (ref_object 4) = (Ok (), x') \<and>
    fst (object_deserialize memory_store ref_ext (Need 3 (\<lambda>b. Decoded (sum_list b))) x') = Ok 15"
proof -
  have "fst (run_decoder slice_read (Need 3 (\<lambda>b. Decoded (sum_list b))) [4, 5, 6]) = Ok 15"
    by (simp add: exec_defs)
  then show ?thesis
    using object_serialize_roundtrip [OF mem_obj.object_env_axioms ref_object_ok ref_object_idle,
      of 4 "[4, 5, 6]" "Need 3 (\<lambda>b. Decoded (sum_list b))"]
    by (simp add: ref_object_facts) blast
qed

text \<open>
  C9: A read outside a transaction returns the next bytes of the contents, at most as many as asked
  for and none only at the end of the object, advances the position by their number, and changes
  neither the contents nor the repository, whatever chunk the read buffer holds.
\<close>

theorem object_read_next:
  assumes "repo_env D bl X" "obj_ok bl X S N x" "\<not> in_transaction x"
  shows "\<exists>b x'. object_read D X n x = (Ok b, x') \<and> length b \<le> n \<and>
    b = take (length b) (drop (position (o_state x)) (obj_content bl X x)) \<and>
    (b = [] \<longrightarrow> n = 0 \<or> length (obj_content bl X x) \<le> position (o_state x)) \<and>
    position (o_state x') = position (o_state x) + length b \<and>
    obj_content bl X x' = obj_content bl X x \<and> store_eq bl (o_repo x) (o_repo x') \<and> obj_ok bl X S N x'"
proof -
  obtain b x' where x': "object_read D X n x = (Ok b, x')" "next_bytes bl X x n b" "same_object bl x x'"
    "obj_ok bl X S N x'" "position (o_state x') = position (o_state x) + length b"
    using repo_env.object_read_ok [OF assms] by blast
  moreover have "obj_content bl X x' = obj_content bl X x" "store_eq bl (o_repo x) (o_repo x')"
    using same_object_view(2) [OF x'(3)] x'(3) by (auto simp: same_object_def)
  ultimately show ?thesis unfolding next_bytes_def by blast
qed

theorem object_read_next_witness:
  "\<exists>b x'. object_read memory_store ref_ext 9 (ref_object 1) = (Ok b, x') \<and> b \<noteq> [] \<and> hd b = 2"
proof -
  obtain b x' where b: "object_read memory_store ref_ext 9 (ref_object 1) = (Ok b, x')"
    "b = take (length b) [2, 3, 0, 0]" "b \<noteq> []"
    using object_read_next [OF mem_env.repo_env_axioms ref_object_ok ref_object_fields(4), of 1 9]
    unfolding ref_object_content ref_object_fields by auto
  moreover have "hd b = 2" using b(2,3) by (metis hd_take length_greater_0_conv list.sel(1))
  ultimately show ?thesis by blast
qed

text \<open>
  A content ID identifies contents.  Comparing the content ID of an object with any byte string
  that is at least as long, read from a slice, gives true exactly when the string is the contents of
  the object, given that no two stored strings have the same size and checksum.
\<close>

theorem content_id_identifies:
  assumes "object_env D bl X C cinv fresh pending S" "obj_ok bl X S N x" "\<not> in_transaction x"
    and "b \<in> S" "length (obj_content bl X x) \<le> length b"
  shows "\<exists>c. info_content_id x = Ok c \<and>
    fst (compare_contents X slice_read c b) = Ok (b = obj_content bl X x)"
proof -
  let ?es = "extents (o_handle x)" and ?V = "obj_view bl X x"
  let ?c = "\<lparr>cid_repo = md_id (metadata (o_repo x)), cid_extents = ?es\<rparr>"
  have ok: "extents_ok ?V ?es" "\<And>c d. ?V c = Some d \<Longrightarrow> d \<in> S \<and> chunk_hash X d = c_hash c"
    using assms(2) direct_inv_chunk_data by (fastforce simp: obj_ok_def obj_view_def)+
  then have len: "length (obj_content bl X x) = total ?es" by (simp add: obj_content_def length_content)
  have "collision_free X S" using assms(1) by (rule object_env.no_collision)
  with ok assms(4) have "length b = total ?es \<Longrightarrow> matches X ?es b \<longleftrightarrow> b = obj_content bl X x"
    unfolding obj_content_def by (intro matches_iff) auto
  with len have "(length b = total ?es \<and> matches X ?es b) = (b = obj_content bl X x)" by metis
  moreover have "fst (compare_contents X slice_read ?c b) = Ok (length b = total ?es \<and> matches X ?es b)"
    using slice_reader.compare_contents_ok [where c = ?c and r = b and X = X] assms(5) len by simp
  ultimately show ?thesis using assms(3) by (simp add: info_content_id_def)
qed

theorem content_id_identifies_witness:
  "\<exists>c. info_content_id (ref_object 0) = Ok c \<and>
    fst (compare_contents ref_ext slice_read c [1, 2, 3, 0, 4]) = Ok False"
  using content_id_identifies [OF mem_obj.object_env_axioms ref_object_ok, of 0 "[1, 2, 3, 0, 4]"]
  by (simp add: ref_object_facts)

text \<open>
  A well-formed object passes its integrity check, and the check changes nothing.
\<close>

theorem object_verify_intact:
  assumes "object_env D bl X C cinv fresh pending S" "obj_ok bl X S N x" "\<not> in_transaction x"
  shows "\<exists>x'. object_verify D X x = (Ok True, x') \<and> obj_content bl X x' = obj_content bl X x \<and>
    store_eq bl (o_repo x) (o_repo x') \<and> o_handle x' = o_handle x"
  using object_env.verify_ok [OF assms] same_object_view(2) unfolding same_object_def by metis

theorem object_verify_intact_witness:
  "\<exists>x'. object_verify memory_store ref_ext (ref_object 0) = (Ok True, x') \<and> o_handle x' = o_handle (ref_object 0)"
  using object_verify_intact [OF mem_obj.object_env_axioms ref_object_ok ref_object_fields(4), of 0] by auto

text \<open>
  C11: The transaction protocol.  While one \<^verbatim>\<open>Object\<close> holds the lock of a handle, another one with the same
  handle cannot write or resize it; and while an object has uncommitted writes, it cannot be read,
  positioned, verified, measured, identified or resized.  Every refused call returns
  \<^verbatim>\<open>TransactionInProgress\<close> and changes nothing.
\<close>

theorem transaction_exclusion:
  "(handle_id (o_handle x) \<in> transactions (o_repo x) \<and> \<not> in_transaction x \<longrightarrow>
      object_write D X C buf x = (Err TransactionInProgress, x) \<and>
      set_len D X n x = (Err TransactionInProgress, x)) \<and>
   (in_transaction x \<longrightarrow>
      object_read D X n x = (Err TransactionInProgress, x) \<and>
      object_seek f x = (Err TransactionInProgress, x) \<and>
      object_verify D X x = (Err TransactionInProgress, x) \<and>
      set_len D X n x = (Err TransactionInProgress, x) \<and>
      object_serialize D X C (Some v) x = (Err TransactionInProgress, x) \<and>
      info_size x = Err TransactionInProgress \<and> info_content_id x = Err TransactionInProgress)"
  by (simp add: object_write_def start_transaction_def begin_transaction_def acquire_lock_def set_len_def bindR_def
    object_read_def object_seek_def object_verify_def object_serialize_def info_size_def info_content_id_def)

theorem transaction_exclusion_witness:
  "set_len memory_store ref_ext 1 ((ref_object 0)\<lparr>o_repo := ref_repo\<lparr>transactions := {1}\<rparr>\<rparr>) =
     (Err TransactionInProgress, (ref_object 0)\<lparr>o_repo := ref_repo\<lparr>transactions := {1}\<rparr>\<rparr>)"
  using transaction_exclusion [of "(ref_object 0)\<lparr>o_repo := ref_repo\<lparr>transactions := {1}\<rparr>\<rparr>" memory_store ref_ext fixed_ops
      "[]" 1 "FromStart 0" "[]"]
  by (simp add: ref_object_def object_state_new_def in_transaction_def)

text \<open>
  C10: Isolation.  Writes that are not committed leave the handle, and with it the contents that
  every other reader sees, as they were.
\<close>

theorem uncommitted_writes_isolated:
  assumes "object_env D bl X C cinv fresh pending S"
    and "obj_ok bl X S N x" "idle cinv pending x" "ws \<noteq> []"
    and "position (o_state x) \<le> length (obj_content bl X x)"
    and "overwrite (position (o_state x)) (concat ws) (obj_content bl X x) \<in> S"
    and "length (overwrite (position (o_state x)) (concat ws) (obj_content bl X x)) < 2 ^ 63"
    and "rng (o_repo x) + 2 * (2 * length (obj_content bl X x) + length (concat ws) + length ws + 4) \<le> N"
  shows "\<exists>x'. object_writes D X C ws x = (Ok (), x') \<and> o_handle x' = o_handle x \<and>
    obj_content bl X x' = obj_content bl X x \<and> handle_id (o_handle x) \<in> transactions (o_repo x')"
  using object_env.writes_isolated_ok [OF assms(1-3,5-8,4)] .

theorem uncommitted_writes_isolated_witness:
  "\<exists>x'. object_writes memory_store ref_ext fixed_ops [[7], [8, 9]] (ref_object 2) = (Ok (), x') \<and>
    obj_content mem_blocks ref_ext x' = [1, 2, 3, 0, 0] \<and> 1 \<in> transactions (o_repo x')"
  using uncommitted_writes_isolated [OF mem_obj.object_env_axioms ref_object_ok ref_object_idle, of 2 "[[7], [8, 9]]"]
  by (auto simp: ref_object_facts overwrite_def)

text \<open>
  Seeking.  The target is the offset from the start, the current position plus the offset, or the
  size of the object minus the offset; a negative target is refused and the position stays, a target
  beyond the end becomes the end.  (\<^verbatim>\<open>std::io::Seek\<close> adds the offset to the size for \<^verbatim>\<open>SeekFrom::End\<close>.)
\<close>

definition seek_goal :: "nat \<Rightarrow> nat \<Rightarrow> seek_from \<Rightarrow> int" where
  "seek_goal n p f = (case f of
      FromStart k \<Rightarrow> int k | FromEnd k \<Rightarrow> int n - k | FromCurrent k \<Rightarrow> int p + k)"

theorem object_seek_target:
  assumes "\<not> in_transaction x" "total (extents (o_handle x)) < 2 ^ 62" "position (o_state x) < 2 ^ 62"
    and "\<bar>seek_goal (total (extents (o_handle x))) (position (o_state x)) f\<bar> < 2 ^ 62"
  defines "n \<equiv> total (extents (o_handle x))"
    and "g \<equiv> seek_goal (total (extents (o_handle x))) (position (o_state x)) f"
  shows "object_seek f x =
    (if g < 0 then (Err negative_seek, x)
     else (Ok (min n (nat g)), upd_state (\<lambda>ob. ob\<lparr>position := min n (nat g)\<rparr>) x))"
proof -
  have "handle_size (o_handle x) = n" using assms(2) by (simp add: handle_size_exact n_def)
  moreover have "seek_target n (position (o_state x)) f = (if g < 0 then Err negative_seek else Ok (min n (nat g)))"
    using assms(2-4)
    by (cases f) (auto simp: seek_target_def seek_goal_def n_def g_def as_i64_exact wrap_i64_exact as_u64_exact)
  ultimately show ?thesis using assms(1) by (simp add: object_seek_def bindR_def)
qed

theorem object_seek_target_witness:
  "object_seek (FromEnd 2) (ref_object 0) = (Ok 3, upd_state (\<lambda>ob. ob\<lparr>position := 3\<rparr>) (ref_object 0))"
  using object_seek_target [OF ref_object_fields(4), of 0 "FromEnd 2"]
  by (simp add: ref_object_fields seek_goal_def ref_object_def extent_size_def ref_chunk_def)

end
