(* ===== verification/Key_Repo.thy ===== *)
theory Key_Repo
  imports Object_Store
begin

text \<open>
  The repository (\<^verbatim>\<open>src/src/repo/common/repository.rs\<close>, \<^verbatim>\<open>metadata.rs\<close>, \<^verbatim>\<open>savepoint.rs\<close>, \<^verbatim>\<open>object.rs\<close>): the
  map of keys to object handles, the instances, the table of handle IDs, and the operations that
  change, commit, roll back, restore, verify and clean it.

  An \<^verbatim>\<open>Arc<RwLock<ObjectHandle>>\<close> is an address of the heap of handles: the map of objects holds the
  address, an \<^verbatim>\<open>Object\<close> holds it weakly and is valid while the handle is on the heap.  Serialization
  (\<^verbatim>\<open>rmp_serde\<close>) is a parameter.
\<close>

section \<open>State\<close>

record instance_info =
  version_id :: uuid
  instance_objects :: object_handle

record header =
  hd_chunks :: "(chunk, chunk_info) hmap"
  hd_packs :: "(uuid, pack_index list) hmap"
  hd_instances :: "(uuid, instance_info) hmap"
  hd_handle_table :: id_table

text \<open>What the repository is built on: the store, the external functions and the serializers.\<close>

record ('s, 'z) env =
  ev_store :: "'s data_store_ops"
  ev_ext :: ext
  ev_zpaq :: "'z zpaq"
  to_vec_header :: "header \<Rightarrow> bytes option"
  from_header :: "bytes \<Rightarrow> header option"
  to_vec_metadata :: "repo_metadata \<Rightarrow> bytes option"
  from_metadata :: "bytes \<Rightarrow> repo_metadata option"
  uuid_as_bytes :: "uuid \<Rightarrow> bytes"
  uuid_from_slice :: "bytes \<Rightarrow> uuid option"

record 'k map_codec =
  to_vec_objects :: "('k, object_handle) hmap \<Rightarrow> bytes option"
  from_objects :: "('k, object_handle) hmap decoder"

type_synonym addr = nat

record ('k, 's) key_repo =
  rstate :: "'s repo_state"
  instance_id :: uuid
  objects :: "('k, addr) hmap"
  heap :: "(addr, object_handle) hmap"
  next_addr :: addr
  instances :: "(uuid, instance_info) hmap"
  handle_table :: id_table
  transaction_id :: uuid

definition KEY_REPO_VERSION_ID :: uuid where
  "KEY_REPO_VERSION_ID = 0x989a6a769d8b46b79c05d1c5e0d9471a"

definition on_state :: "('s repo_state, 'a) op \<Rightarrow> (('k, 's) key_repo, 'a) op" where
  "on_state m r = (case m (rstate r) of (x, s) \<Rightarrow> (x, r\<lparr>rstate := s\<rparr>))"

definition deref :: "('k, 's) key_repo \<Rightarrow> addr \<Rightarrow> object_handle" where
  "deref r a = (case hget (heap r) a of Some h \<Rightarrow> h | None \<Rightarrow> \<lparr>handle_id = 0, extents = []\<rparr>)"

definition handles_of :: "('k, 's) key_repo \<Rightarrow> ('k, object_handle) hmap" where
  "handles_of r = map (\<lambda>(k, a). (k, deref r a)) (objects r)"

definition alloc_handle :: "object_handle \<Rightarrow> (('k, 's) key_repo, addr) op" where
  "alloc_handle h r = (Ok (next_addr r), r\<lparr>heap := hput (next_addr r) h (heap r), next_addr := Suc (next_addr r)\<rparr>)"

definition free_handles :: "addr list \<Rightarrow> ('k, 's) key_repo \<Rightarrow> ('k, 's) key_repo" where
  "free_handles as r = r\<lparr>heap := hretain (\<lambda>a. a \<notin> set as) (heap r)\<rparr>"

definition list_data_blocks :: "'s data_store_ops \<Rightarrow> ('s repo_state, uuid list) op" where
  "list_data_blocks D = bindR (store_list D) (\<lambda>all_blocks s.
     (Ok (filter (\<lambda>i. i \<noteq> METADATA_BLOCK_ID \<and> i \<noteq> VERSION_BLOCK_ID \<and> i \<noteq> md_header_id (metadata s)) all_blocks), s))"

section \<open>Objects\<close>

record 'c object =
  obj_handle :: addr
  object_state :: "'c object_state"
  object_id :: object_id

definition object_new :: "'z zpaq \<Rightarrow> 's repo_state \<Rightarrow> addr \<Rightarrow> object_id \<Rightarrow> 'z chunker object" where
  "object_new Z s a oid = \<lparr>obj_handle = a,
     object_state = object_state_new (to_chunker Z (config_chunking (cfg s))), object_id = oid\<rparr>"

definition repo_object_id :: "('k, 's) key_repo \<Rightarrow> u64 \<Rightarrow> object_id" where
  "repo_object_id r hid = object_id_new (md_id (metadata (rstate r))) (instance_id r) hid"

definition repo_contains :: "('k, 's) key_repo \<Rightarrow> 'k \<Rightarrow> bool" where
  "repo_contains r k = hcontains (objects r) k"

definition remove_reference :: "u64 \<Rightarrow> chunk \<Rightarrow> ('s repo_state, unit) op" where
  "remove_reference hid c s = (case hget (chunks s) c of
      None \<Rightarrow> (Panic ''This chunk was not found in the repository.'', s)
    | Some info \<Rightarrow>
        let refs = references info - {hid} in
        (Ok (), s\<lparr>chunks := if refs = {} then hdel c (chunks s)
                         else hput c (info\<lparr>references := refs\<rparr>) (chunks s)\<rparr>))"

definition add_reference :: "u64 \<Rightarrow> chunk \<Rightarrow> ('s repo_state, unit) op" where
  "add_reference hid c s = (case hget (chunks s) c of
      None \<Rightarrow> (Panic ''This chunk was not found in the repository.'', s)
    | Some info \<Rightarrow>
        (Ok (), s\<lparr>chunks := hput c (info\<lparr>references := insert hid (references info)\<rparr>) (chunks s)\<rparr>))"

definition remove_handle :: "object_handle \<Rightarrow> (('k, 's) key_repo, unit) op" where
  "remove_handle h =
     bindR (on_state (forM (handle_chunks h) (remove_reference (handle_id h)))) (\<lambda>_.
     modify (\<lambda>r. r\<lparr>handle_table := snd (id_recycle (handle_id h) (handle_table r))\<rparr>))"

definition repo_remove :: "'k \<Rightarrow> (('k, 's) key_repo, bool) op" where
  "repo_remove k r = (case hget (objects r) k of
      None \<Rightarrow> (Ok False, r)
    | Some a \<Rightarrow>
        bindR (modify (\<lambda>r. r\<lparr>objects := hdel k (objects r)\<rparr>)) (\<lambda>_.
        bindR (remove_handle (deref r a)) (\<lambda>_.
        bindR (modify (free_handles [a])) (\<lambda>_.
        ret True))) r)"

definition repo_insert :: "'z zpaq \<Rightarrow> 'k \<Rightarrow> (('k, 's) key_repo, 'z chunker object) op" where
  "repo_insert Z k =
     bindR (repo_remove k) (\<lambda>_ r. case id_next (handle_table r) of (hid, t) \<Rightarrow>
     bindR (modify (\<lambda>r. r\<lparr>handle_table := t\<rparr>)) (\<lambda>_ r.
       if repo_contains r k then (Panic ''assertion failed: !self.objects.contains_key(&key)'', r)
       else bindR (alloc_handle \<lparr>handle_id = hid, extents = []\<rparr>) (\<lambda>a.
            bindR (modify (\<lambda>r. r\<lparr>objects := hput k a (objects r)\<rparr>)) (\<lambda>_ r.
            (Ok (object_new Z (rstate r) a (repo_object_id r hid)), r))) r) r)"

definition repo_object :: "'z zpaq \<Rightarrow> 'k \<Rightarrow> ('k, 's) key_repo \<Rightarrow> 'z chunker object option" where
  "repo_object Z k r = (case hget (objects r) k of
      None \<Rightarrow> None
    | Some a \<Rightarrow> Some (object_new Z (rstate r) a (repo_object_id r (handle_id (deref r a)))))"

definition repo_keys :: "('k, 's) key_repo \<Rightarrow> 'k list" where
  "repo_keys r = hkeys (objects r)"

definition repo_copy :: "'k \<Rightarrow> 'k \<Rightarrow> (('k, 's) key_repo, bool) op" where
  "repo_copy source dest r = (case hget (objects r) source of
      None \<Rightarrow> (Ok False, r)
    | Some a \<Rightarrow>
        let source_chunks = extents (deref r a) in
        bindR (repo_remove dest) (\<lambda>_ r. case id_next (handle_table r) of (hid, t) \<Rightarrow>
        let dest_handle = \<lparr>handle_id = hid, extents = source_chunks\<rparr> in
        bindR (modify (\<lambda>r. r\<lparr>handle_table := t\<rparr>)) (\<lambda>_.
        bindR (on_state (forM (handle_chunks dest_handle) (add_reference hid))) (\<lambda>_.
        bindR (alloc_handle dest_handle) (\<lambda>b.
        bindR (modify (\<lambda>r. r\<lparr>objects := hput dest b (objects r)\<rparr>)) (\<lambda>_.
        ret True)))) r) r)"

section \<open>Object maps and instances\<close>

text \<open>
  An operation on the handle of an object map: a fresh \<^verbatim>\<open>ObjectState\<close> is made for it and dropped at
  the end, which releases the lock if it still holds it.
\<close>

definition with_object ::
  "('s, 'z) env \<Rightarrow> object_handle \<Rightarrow> (('s, 'z chunker) octx, 'a) op \<Rightarrow> 's repo_state \<Rightarrow>
     'a result \<times> object_handle \<times> 's repo_state" where
  "with_object E h m s = (case m \<lparr>o_repo = s,
       o_state = object_state_new (to_chunker (ev_zpaq E) (config_chunking (cfg s))), o_handle = h\<rparr> of
     (x, c) \<Rightarrow> (x, o_handle (release_lock c), o_repo (release_lock c)))"

definition write_object_map :: "('s, 'z) env \<Rightarrow> 'k map_codec \<Rightarrow> (('k, 's) key_repo, unit) op" where
  "write_object_map E M r = (case hget (instances r) (instance_id r) of
      None \<Rightarrow> (Panic ''There is no instance with the given ID.'', r)
    | Some info \<Rightarrow>
        (case with_object E (instance_objects info)
            (object_serialize (ev_store E) (ev_ext E) (dyn_ops (ev_zpaq E)) (to_vec_objects M (handles_of r)))
            (rstate r) of
          (x, h, s) \<Rightarrow> (x, r\<lparr>rstate := s,
             instances := hput (instance_id r) (info\<lparr>instance_objects := h\<rparr>) (instances r)\<rparr>)))"

definition read_object_map ::
  "('s, 'z) env \<Rightarrow> 'k map_codec \<Rightarrow> (('k, 's) key_repo, ('k, object_handle) hmap) op" where
  "read_object_map E M r = (case hget (instances r) (instance_id r) of
      None \<Rightarrow> (Ok [], r)
    | Some info \<Rightarrow>
        (case with_object E (instance_objects info)
            (object_deserialize (ev_store E) (ev_ext E) (from_objects M)) (rstate r) of
          (x, h, s) \<Rightarrow> (x, r\<lparr>rstate := s\<rparr>)))"

fun alloc_objects :: "('k, object_handle) hmap \<Rightarrow> (('k, 's) key_repo, ('k, addr) hmap) op" where
  "alloc_objects [] r = (Ok [], r)"
| "alloc_objects ((k, h) # m) r =
     bindR (alloc_handle h) (\<lambda>a. bindR (alloc_objects m) (\<lambda>as. ret ((k, a) # as))) r"

text \<open>Assigning a map of new handles to \<^verbatim>\<open>self.objects\<close> drops the old handles.\<close>

definition set_objects :: "('k, addr) hmap \<Rightarrow> ('k, 's) key_repo \<Rightarrow> ('k, 's) key_repo" where
  "set_objects m r = (free_handles (filter (\<lambda>a. a \<notin> set (hvalues m)) (hvalues (objects r))) r)\<lparr>objects := m\<rparr>"

section \<open>Header\<close>

definition clone_header :: "('k, 's) key_repo \<Rightarrow> header" where
  "clone_header r = \<lparr>hd_chunks = chunks (rstate r), hd_packs = packs (rstate r), hd_instances = instances r,
     hd_handle_table = handle_table r\<rparr>"

definition put_header :: "header \<Rightarrow> ('k, 's) key_repo \<Rightarrow> ('k, 's) key_repo" where
  "put_header h r = r\<lparr>rstate := (rstate r)\<lparr>chunks := hd_chunks h, packs := hd_packs h\<rparr>,
     instances := hd_instances h, handle_table := hd_handle_table h\<rparr>"

definition replace_header :: "header \<Rightarrow> (('k, 's) key_repo, header) op" where
  "replace_header h r = (Ok (clone_header r), put_header h r)"

text \<open>\<^verbatim>\<open>serialize_header\<close> moves the parts of the state into a \<^verbatim>\<open>Header\<close> and back: the state is unchanged.\<close>

definition serialize_header :: "('s, 'z) env \<Rightarrow> (('k, 's) key_repo, bytes) op" where
  "serialize_header E r = (case to_vec_header E (clone_header r) of
      None \<Rightarrow> (Panic ''Could not serialize the repository header.'', r)
    | Some b \<Rightarrow> (Ok b, r))"

definition write_serialized_header :: "('s, 'z) env \<Rightarrow> bytes \<Rightarrow> ('s repo_state, unit) op" where
  "write_serialized_header E serialized_header =
     bindR (encode_data (ev_ext E) serialized_header) (\<lambda>encoded_header.
     bindR (new_uuid (ev_ext E)) (\<lambda>header_id.
     bindR (store_write (ev_store E) header_id encoded_header) (\<lambda>_.
     bindR (modify (\<lambda>s. s\<lparr>metadata := (metadata s)\<lparr>md_header_id := header_id\<rparr>\<rparr>)) (\<lambda>_ s.
       (case to_vec_metadata E (metadata s) of
          None \<Rightarrow> (Panic ''Could not serialize repository metadata.'', s)
        | Some serialized_metadata \<Rightarrow> store_write (ev_store E) METADATA_BLOCK_ID serialized_metadata s)))))"

definition restore_header :: "('s, 'z) env \<Rightarrow> 'k map_codec \<Rightarrow> header \<Rightarrow> (('k, 's) key_repo, unit) op" where
  "restore_header E M h = bindR (replace_header h) (\<lambda>old_header r.
     (case read_object_map E M r of
        (Ok m, r') \<Rightarrow> bindR (alloc_objects m) (\<lambda>as. modify (set_objects as)) r'
      | (Err e, r') \<Rightarrow> (Err e, put_header old_header r')
      | (Panic p, r') \<Rightarrow> (Panic p, r')
      | (Diverge, r') \<Rightarrow> (Diverge, r')))"

definition read_header :: "('s, 'z) env \<Rightarrow> ('s repo_state, header) op" where
  "read_header E s =
     bindR (store_read (ev_store E) (md_header_id (metadata s))) (\<lambda>b. case b of
        None \<Rightarrow> throw Corrupt
      | Some encoded_header \<Rightarrow>
          bindR (decode_data (ev_ext E) encoded_header) (\<lambda>serialized_header.
            (case from_header E serialized_header of
               None \<Rightarrow> throw Corrupt
             | Some h \<Rightarrow> ret h))) s"

section \<open>Switching instances\<close>

text \<open>
  \<^verbatim>\<open>change_instance\<close> consumes the repository: on success it returns the repository of the new instance,
  which has another type of keys, and whether the instance is new, which decides between
  \<^verbatim>\<open>R::create_repo\<close> and \<^verbatim>\<open>R::open_repo\<close>; the state of the repository is returned in any case, since the
  data store outlives it.
\<close>

definition with_key_type :: "uuid \<Rightarrow> ('j, object_handle) hmap \<Rightarrow> ('k, 's) key_repo \<Rightarrow> ('j, 's) key_repo" where
  "with_key_type iid m r = snd (bindR (alloc_objects m) (\<lambda>as. modify (\<lambda>q. q\<lparr>objects := as\<rparr>))
     \<lparr>rstate = rstate r, instance_id = iid, objects = [], heap = [], next_addr = next_addr r,
      instances = instances r, handle_table = handle_table r, transaction_id = transaction_id r\<rparr>)"

definition change_instance ::
  "('s, 'z) env \<Rightarrow> 'j map_codec \<Rightarrow> uuid \<Rightarrow> uuid \<Rightarrow> ('k, 's) key_repo \<Rightarrow>
     (bool \<times> ('j, 's) key_repo) result \<times> 's repo_state" where
  "change_instance E M vid iid r = (case hget (instances r) iid of
      None \<Rightarrow> (case id_next (handle_table r) of (hid, t) \<Rightarrow>
        (case with_object E \<lparr>handle_id = hid, extents = []\<rparr>
            (object_serialize (ev_store E) (ev_ext E) (dyn_ops (ev_zpaq E)) (to_vec_objects M []))
            (rstate r) of
          (Ok u, h, s) \<Rightarrow>
            (Ok (True, with_key_type iid [] (r\<lparr>rstate := s, handle_table := t,
               instances := hput iid \<lparr>version_id = vid, instance_objects = h\<rparr> (instances r)\<rparr>)), s)
        | (Err e, h, s) \<Rightarrow> (Err e, s)
        | (Panic p, h, s) \<Rightarrow> (Panic p, s)
        | (Diverge, h, s) \<Rightarrow> (Diverge, s)))
    | Some info \<Rightarrow>
        if version_id info \<noteq> vid then (Err UnsupportedRepo, rstate r)
        else (case with_object E (instance_objects info)
            (object_deserialize (ev_store E) (ev_ext E) (from_objects M)) (rstate r) of
          (Ok m, h, s) \<Rightarrow> (Ok (False, with_key_type iid m (r\<lparr>rstate := s\<rparr>)), s)
        | (Err e, h, s) \<Rightarrow> (Err e, s)
        | (Panic p, h, s) \<Rightarrow> (Panic p, s)
        | (Diverge, h, s) \<Rightarrow> (Diverge, s)))"

definition switch_instance ::
  "('s, 'z) env \<Rightarrow> 'k map_codec \<Rightarrow> 'j map_codec \<Rightarrow> uuid \<Rightarrow> uuid \<Rightarrow> ('k, 's) key_repo \<Rightarrow>
     (bool \<times> ('j, 's) key_repo) result \<times> 's repo_state" where
  "switch_instance E M M' vid iid r = (case write_object_map E M r of
      (Ok u, r') \<Rightarrow> change_instance E M' vid iid r'
    | (Err e, r') \<Rightarrow> (Err e, rstate r')
    | (Panic p, r') \<Rightarrow> (Panic p, rstate r')
    | (Diverge, r') \<Rightarrow> (Diverge, rstate r'))"

section \<open>Verifying, clearing, passwords\<close>

fun corrupt_chunks :: "'s data_store_ops \<Rightarrow> ext \<Rightarrow> chunk list \<Rightarrow> ('s cs, bytes list) op" where
  "corrupt_chunks D X [] st = (Ok [], st)"
| "corrupt_chunks D X (c # cs) st = (case read_chunk D X c st of
      (Ok data, st') \<Rightarrow>
        bindR (corrupt_chunks D X cs) (\<lambda>hs. ret (if chunk_valid X c data then hs else List.insert (c_hash c) hs)) st'
    | (Err InvalidData, st') \<Rightarrow>
        bindR (corrupt_chunks D X cs) (\<lambda>hs. ret (List.insert (c_hash c) hs)) st'
    | (Err e, st') \<Rightarrow> (Err e, st')
    | (Panic m, st') \<Rightarrow> (Panic m, st')
    | (Diverge, st') \<Rightarrow> (Diverge, st'))"

definition repo_verify :: "('s, 'z) env \<Rightarrow> (('k, 's) key_repo, 'k list) op" where
  "repo_verify E r =
    (case corrupt_chunks (ev_store E) (ev_ext E) (hkeys (chunks (rstate r))) (rstate r, store_state_new) of
       (x, (s, t)) \<Rightarrow> bindR (lift_result x) (\<lambda>corrupt.
          if corrupt = [] then ret []
          else ret (map fst (filter (\<lambda>(k, h). list_ex (\<lambda>c. c_hash c \<in> set corrupt) (handle_chunks h)) (handles_of r))))
        (r\<lparr>rstate := s\<rparr>))"

definition clear_instance :: "(('k, 's) key_repo, unit) op" where
  "clear_instance r =
    (let as = hvalues (objects r) in
     bindR (modify (\<lambda>r. r\<lparr>objects := []\<rparr>)) (\<lambda>_.
     bindR (forM as (\<lambda>a r. bindR (remove_handle (deref r a)) (\<lambda>_. ret ()) r)) (\<lambda>_.
     modify (free_handles as))) r)"

definition on_rng :: "(nat, 'a) op \<Rightarrow> ('s repo_state, 'a) op" where
  "on_rng m s = (case m (rng s) of (x, c) \<Rightarrow> (x, s\<lparr>rng := c\<rparr>))"

definition change_password :: "ext \<Rightarrow> bytes \<Rightarrow> ('s repo_state, unit) op" where
  "change_password X new_password =
     bindR (on_rng (salt_generate X)) (\<lambda>salt s.
     bindR (lift_result (key_derive X new_password salt (key_size X (config_encryption (cfg s)))
       (config_memory_limit (cfg s)) (config_operations_limit (cfg s)))) (\<lambda>user_key.
     bindR (on_rng (encrypt X (config_encryption (cfg s)) (master_key s) user_key)) (\<lambda>encrypted_master_key.
     modify (\<lambda>s. s\<lparr>metadata := (metadata s)\<lparr>md_salt := salt, md_master_key := encrypted_master_key\<rparr>\<rparr>))) s)"

record repo_info =
  ri_id :: uuid
  ri_config :: repo_config

definition to_info :: "repo_metadata \<Rightarrow> repo_info" where
  "to_info m = \<lparr>ri_id = md_id m, ri_config = md_config m\<rparr>"

definition repo_get_info :: "('k, 's) key_repo \<Rightarrow> repo_info" where
  "repo_get_info r = to_info (metadata (rstate r))"

section \<open>Savepoints\<close>

text \<open>
  A savepoint refers weakly to the ID of the transaction it was made in; the reference is alive while
  that transaction is the current one of its repository.
\<close>

record savepoint =
  sp_header :: header
  sp_transaction :: uuid

record 'k key_restore =
  kr_objects :: "('k, addr) hmap"
  kr_header :: header
  kr_transaction :: uuid
  kr_instance :: uuid

definition savepoint_valid :: "('k, 's) key_repo \<Rightarrow> savepoint \<Rightarrow> bool" where
  "savepoint_valid r sp \<longleftrightarrow> sp_transaction sp = transaction_id r"

definition repo_savepoint :: "('s, 'z) env \<Rightarrow> 'k map_codec \<Rightarrow> (('k, 's) key_repo, savepoint) op" where
  "repo_savepoint E M = bindR (write_object_map E M) (\<lambda>_ r.
     (Ok \<lparr>sp_header = clone_header r, sp_transaction = transaction_id r\<rparr>, r))"

definition start_restore :: "('s, 'z) env \<Rightarrow> 'k map_codec \<Rightarrow> savepoint \<Rightarrow> (('k, 's) key_repo, 'k key_restore) op" where
  "start_restore E M sp r =
    (if \<not> savepoint_valid r sp then (Err InvalidSavepoint, r)
     else bindR (replace_header (sp_header sp)) (\<lambda>old_header r.
       (case read_object_map E M r of
          (Ok m, r') \<Rightarrow>
            bindR (alloc_objects m) (\<lambda>as.
            bindR (replace_header old_header) (\<lambda>h r.
              (Ok \<lparr>kr_objects = as, kr_header = h, kr_transaction = sp_transaction sp, kr_instance = instance_id r\<rparr>, r))) r'
        | (Err e, r') \<Rightarrow> (Err e, put_header old_header r')
        | (Panic p, r') \<Rightarrow> (Panic p, r')
        | (Diverge, r') \<Rightarrow> (Diverge, r'))) r)"

definition finish_restore :: "'k key_restore \<Rightarrow> (('k, 's) key_repo, bool) op" where
  "finish_restore k r =
    (if kr_transaction k \<noteq> transaction_id r then (Ok False, r)
     else if kr_instance k \<noteq> instance_id r then (Ok False, r)
     else (Ok True, set_objects (kr_objects k) (put_header (kr_header k) r)))"

definition repo_restore :: "('s, 'z) env \<Rightarrow> 'k map_codec \<Rightarrow> savepoint \<Rightarrow> (('k, 's) key_repo, unit) op" where
  "repo_restore E M sp = bindR (start_restore E M sp) (\<lambda>k. bindR (finish_restore k) (\<lambda>_. ret ()))"

section \<open>Commit and rollback\<close>

definition repo_commit :: "('s, 'z) env \<Rightarrow> 'k map_codec \<Rightarrow> (('k, 's) key_repo, unit) op" where
  "repo_commit E M =
     bindR (write_object_map E M) (\<lambda>_.
     bindR (serialize_header E) (\<lambda>serialized_header.
     bindR (on_state (write_serialized_header E serialized_header)) (\<lambda>_.
     bindR (on_state (new_uuid (ev_ext E))) (\<lambda>i.
     modify (\<lambda>r. r\<lparr>transaction_id := i\<rparr>)))))"

definition repo_rollback :: "('s, 'z) env \<Rightarrow> 'k map_codec \<Rightarrow> (('k, 's) key_repo, unit) op" where
  "repo_rollback E M = bindR (on_state (read_header E)) (\<lambda>h. restore_header E M h)"

section \<open>Clean\<close>

definition referenced_blocks :: "'s repo_state \<Rightarrow> header \<Rightarrow> uuid list" where
  "referenced_blocks s previous = map block_id (hvalues (chunks s)) @ map block_id (hvalues (hd_chunks previous))"

definition clean_direct :: "'s data_store_ops \<Rightarrow> uuid list \<Rightarrow> ('s repo_state, unit) op" where
  "clean_direct D referenced = bindR (list_data_blocks D) (\<lambda>block_ids.
     forM block_ids (\<lambda>i. if i \<notin> set referenced then store_remove D i else ret ()))"

definition add_pack_block :: "uuid \<Rightarrow> (uuid, uuid list) hmap \<Rightarrow> pack_index \<Rightarrow> (uuid, uuid list) hmap" where
  "add_pack_block i m x = (case hget m (pi_id x) of
      None \<Rightarrow> hput (pi_id x) [i] m
    | Some is \<Rightarrow> hput (pi_id x) (List.insert i is) m)"

definition packs_to_blocks :: "(uuid \<times> pack_index list) list \<Rightarrow> (uuid, uuid list) hmap" where
  "packs_to_blocks ps = foldl (\<lambda>m (i, xs). foldl (add_pack_block i) m xs) [] ps"

text \<open>The packs to remove, and the blocks to write again, for the packs that the store lists.\<close>

fun plan_repack :: "uuid list \<Rightarrow> (uuid, uuid list) hmap \<Rightarrow> uuid list \<Rightarrow> uuid list \<times> uuid list" where
  "plan_repack referenced m [] = ([], [])"
| "plan_repack referenced m (p # ps) = (case plan_repack referenced m ps of (rem, rep) \<Rightarrow>
     (case hget m p of
        None \<Rightarrow> (p # rem, rep)
      | Some is \<Rightarrow>
          if list_ex (\<lambda>i. i \<notin> set referenced) is
          then (p # rem, filter (\<lambda>i. i \<in> set referenced) is @ rep) else (rem, rep)))"

definition repack_block :: "'s data_store_ops \<Rightarrow> ext \<Rightarrow> uuid \<Rightarrow> ('s cs, unit) op" where
  "repack_block D X i = bindR (read_block D X i) (\<lambda>block_data. write_block D X i block_data)"

definition clean_packs :: "('s, 'z) env \<Rightarrow> header \<Rightarrow> uuid list \<Rightarrow> ('s repo_state, unit) op" where
  "clean_packs E previous referenced s0 =
    (let contained = packs_to_blocks (packs s0 @ hd_packs previous) in
     bindR (list_data_blocks (ev_store E)) (\<lambda>pack_ids.
       case plan_repack referenced contained pack_ids of (packs_to_remove, blocks_to_repack) \<Rightarrow>
       bindR (\<lambda>s. case forM blocks_to_repack (repack_block (ev_store E) (ev_ext E)) (s, store_state_new) of
          (x, (s', t)) \<Rightarrow> (x, s')) (\<lambda>_.
       bindR (forM packs_to_remove (store_remove (ev_store E))) (\<lambda>_.
       bindR (modify (\<lambda>s. s\<lparr>packs := hretain (\<lambda>i. i \<in> set referenced) (packs s)\<rparr>)) (\<lambda>_ s.
         (case to_vec_header E (previous\<lparr>hd_packs := packs s\<rparr>) of
            None \<Rightarrow> (Panic ''Could not serialize the repository header.'', s)
          | Some serialized_header \<Rightarrow>
              bindR (encode_data (ev_ext E) serialized_header) (\<lambda>encoded_header.
              write_serialized_header E encoded_header) s))))) s0)"

definition repo_clean :: "('s, 'z) env \<Rightarrow> (('k, 's) key_repo, unit) op" where
  "repo_clean E = on_state (bindR (read_header E) (\<lambda>previous_header s.
     (case config_packing (cfg s) of
        PackingNone \<Rightarrow> clean_direct (ev_store E) (referenced_blocks s previous_header) s
      | PackingFixed n \<Rightarrow> clean_packs E previous_header (referenced_blocks s previous_header) s)))"

section \<open>Object views\<close>

text \<open>
  The methods of \<^verbatim>\<open>Object\<close> upgrade the weak references first, and fail when the handle is gone.
\<close>

type_synonym ('k, 's, 'c) view = "('k, 's) key_repo \<times> 'c object"

definition object_is_valid :: "('k, 's, 'c) view \<Rightarrow> bool" where
  "object_is_valid v \<longleftrightarrow> hget (heap (fst v)) (obj_handle (snd v)) \<noteq> None"

definition on_object :: "(('s, 'c) octx, 'a) op \<Rightarrow> (('k, 's, 'c) view, 'a) op" where
  "on_object m v = (case hget (heap (fst v)) (obj_handle (snd v)) of
      None \<Rightarrow> (Err InvalidObject, v)
    | Some h \<Rightarrow> (case m \<lparr>o_repo = rstate (fst v), o_state = object_state (snd v), o_handle = h\<rparr> of
        (x, c) \<Rightarrow> (x, ((fst v)\<lparr>rstate := o_repo c, heap := hput (obj_handle (snd v)) (o_handle c) (heap (fst v))\<rparr>,
                     (snd v)\<lparr>object_state := o_state c\<rparr>))))"

definition view_size :: "(('k, 's, 'c) view, nat) op" where
  "view_size = on_object (\<lambda>x. (info_size x, x))"

definition view_content_id :: "(('k, 's, 'c) view, content_id) op" where
  "view_content_id = on_object (\<lambda>x. (info_content_id x, x))"

definition view_verify :: "'s data_store_ops \<Rightarrow> ext \<Rightarrow> (('k, 's, 'c) view, bool) op" where
  "view_verify D X = on_object (object_verify D X)"

definition view_set_len :: "'s data_store_ops \<Rightarrow> ext \<Rightarrow> nat \<Rightarrow> (('k, 's, 'c) view, unit) op" where
  "view_set_len D X n = on_object (set_len D X n)"

definition view_serialize ::
  "'s data_store_ops \<Rightarrow> ext \<Rightarrow> 'c chunker_ops \<Rightarrow> bytes option \<Rightarrow> (('k, 's, 'c) view, unit) op" where
  "view_serialize D X C v = on_object (object_serialize D X C v)"

definition view_deserialize :: "'s data_store_ops \<Rightarrow> ext \<Rightarrow> 'v decoder \<Rightarrow> (('k, 's, 'c) view, 'v) op" where
  "view_deserialize D X d = on_object (object_deserialize D X d)"

definition view_commit :: "'s data_store_ops \<Rightarrow> ext \<Rightarrow> 'c chunker_ops \<Rightarrow> (('k, 's, 'c) view, unit) op" where
  "view_commit D X C = on_object (object_commit D X C)"

definition view_read :: "'s data_store_ops \<Rightarrow> ext \<Rightarrow> nat \<Rightarrow> (('k, 's, 'c) view, bytes) op" where
  "view_read D X n = on_object (object_read D X n)"

definition view_seek :: "seek_from \<Rightarrow> (('k, 's, 'c) view, nat) op" where
  "view_seek f = on_object (object_seek f)"

definition view_write ::
  "'s data_store_ops \<Rightarrow> ext \<Rightarrow> 'c chunker_ops \<Rightarrow> bytes \<Rightarrow> (('k, 's, 'c) view, nat) op" where
  "view_write D X C buf = on_object (object_write D X C buf)"

definition view_flush :: "(('k, 's, 'c) view, unit) op" where
  "view_flush = on_object (ret ())"

text \<open>\<^verbatim>\<open>ReadOnlyObject::try_from\<close>: an object with a transaction in progress cannot become read-only.\<close>

datatype 'c read_only_object = ReadOnlyObject "'c object"

definition read_only_try_from :: "'c object \<Rightarrow> 'c read_only_object result" where
  "read_only_try_from ob =
     (if transaction_lock (object_state ob) \<noteq> None then Err TransactionInProgress else Ok (ReadOnlyObject ob))"

text \<open>The methods of a read-only object are those of the object it wraps.\<close>

fun on_read_only ::
  "(('k, 's, 'c) view, 'a) op \<Rightarrow> (('k, 's) key_repo \<times> 'c read_only_object, 'a) op" where
  "on_read_only m (r, ReadOnlyObject ob) = (case m (r, ob) of (x, (r', ob')) \<Rightarrow> (x, (r', ReadOnlyObject ob')))"

definition ro_size :: "(('k, 's) key_repo \<times> 'c read_only_object, nat) op" where
  "ro_size = on_read_only view_size"

definition ro_content_id :: "(('k, 's) key_repo \<times> 'c read_only_object, content_id) op" where
  "ro_content_id = on_read_only view_content_id"

definition ro_verify :: "'s data_store_ops \<Rightarrow> ext \<Rightarrow> (('k, 's) key_repo \<times> 'c read_only_object, bool) op" where
  "ro_verify D X = on_read_only (view_verify D X)"

definition ro_deserialize ::
  "'s data_store_ops \<Rightarrow> ext \<Rightarrow> 'v decoder \<Rightarrow> (('k, 's) key_repo \<times> 'c read_only_object, 'v) op" where
  "ro_deserialize D X d = on_read_only (view_deserialize D X d)"

definition ro_is_valid :: "('k, 's) key_repo \<times> 'c read_only_object \<Rightarrow> bool" where
  "ro_is_valid v = (case v of (r, ReadOnlyObject ob) \<Rightarrow> object_is_valid (r, ob))"

definition ro_read ::
  "'s data_store_ops \<Rightarrow> ext \<Rightarrow> nat \<Rightarrow> (('k, 's) key_repo \<times> 'c read_only_object, bytes) op" where
  "ro_read D X n = on_read_only (view_read D X n)"

definition ro_seek :: "seek_from \<Rightarrow> (('k, 's) key_repo \<times> 'c read_only_object, nat) op" where
  "ro_seek f = on_read_only (view_seek f)"

end
