(* ===== verification/Open_Options.thy ===== *)
theory Open_Options
  imports Key_Repo
begin

text \<open>
  Opening and creating repositories (\<^verbatim>\<open>src/src/repo/common/open_options.rs\<close>, \<^verbatim>\<open>peek_info\<close> of
  \<^verbatim>\<open>metadata.rs\<close>).  The operations run in a world that holds the data store, the table of locks on
  repositories of this process and the number of random values drawn.  A repository that cannot be
  opened drops the lock it acquired.
\<close>

section \<open>Options\<close>

definition DEFAULT_INSTANCE :: uuid where
  "DEFAULT_INSTANCE = 0xea978302bfd811eab92b031a9ad75c07"

definition FORMAT_VERSION_ID :: uuid where
  "FORMAT_VERSION_ID = 0x6f1c893ce6a811eba198b7fa995cc83b"

datatype open_mode = Open | Create | CreateNew

record open_options =
  oo_config :: repo_config
  oo_mode :: open_mode
  oo_password :: "bytes option"
  oo_instance :: uuid

definition options_new :: open_options where
  "options_new = \<lparr>oo_config = config_default, oo_mode = Open, oo_password = None, oo_instance = DEFAULT_INSTANCE\<rparr>"

definition set_mode :: "open_mode \<Rightarrow> open_options \<Rightarrow> open_options" where
  "set_mode m p = p\<lparr>oo_mode := m\<rparr>"

definition set_config :: "repo_config \<Rightarrow> open_options \<Rightarrow> open_options" where
  "set_config c p = p\<lparr>oo_config := c\<rparr>"

definition set_chunking :: "chunking \<Rightarrow> open_options \<Rightarrow> open_options" where
  "set_chunking m p = p\<lparr>oo_config := (oo_config p)\<lparr>config_chunking := m\<rparr>\<rparr>"

definition set_packing :: "packing \<Rightarrow> open_options \<Rightarrow> open_options" where
  "set_packing m p = p\<lparr>oo_config := (oo_config p)\<lparr>config_packing := m\<rparr>\<rparr>"

definition set_compression :: "compression \<Rightarrow> open_options \<Rightarrow> open_options" where
  "set_compression m p = p\<lparr>oo_config := (oo_config p)\<lparr>config_compression := m\<rparr>\<rparr>"

definition set_encryption :: "encryption \<Rightarrow> open_options \<Rightarrow> open_options" where
  "set_encryption m p = p\<lparr>oo_config := (oo_config p)\<lparr>config_encryption := m\<rparr>\<rparr>"

definition set_memory_limit :: "resource_limit \<Rightarrow> open_options \<Rightarrow> open_options" where
  "set_memory_limit l p = p\<lparr>oo_config := (oo_config p)\<lparr>config_memory_limit := l\<rparr>\<rparr>"

definition set_operations_limit :: "resource_limit \<Rightarrow> open_options \<Rightarrow> open_options" where
  "set_operations_limit l p = p\<lparr>oo_config := (oo_config p)\<lparr>config_operations_limit := l\<rparr>\<rparr>"

definition set_password :: "bytes \<Rightarrow> open_options \<Rightarrow> open_options" where
  "set_password b p = p\<lparr>oo_password := Some b\<rparr>"

definition set_instance :: "uuid \<Rightarrow> open_options \<Rightarrow> open_options" where
  "set_instance i p = p\<lparr>oo_instance := i\<rparr>"

section \<open>The world\<close>

record 's world =
  w_store :: 's
  w_locks :: "uuid lock_table"
  w_rng :: nat

definition world_read :: "'s data_store_ops \<Rightarrow> uuid \<Rightarrow> ('s world, bytes option) op" where
  "world_read D i w = (case store_result (ds_read_block D i (w_store w)) of (r, st) \<Rightarrow> (r, w\<lparr>w_store := st\<rparr>))"

definition world_write :: "'s data_store_ops \<Rightarrow> uuid \<Rightarrow> bytes \<Rightarrow> ('s world, unit) op" where
  "world_write D i d w = (case store_result (ds_write_block D i d (w_store w)) of (r, st) \<Rightarrow> (r, w\<lparr>w_store := st\<rparr>))"

definition world_rng :: "(nat, 'a) op \<Rightarrow> ('s world, 'a) op" where
  "world_rng m w = (case m (w_rng w) of (x, c) \<Rightarrow> (x, w\<lparr>w_rng := c\<rparr>))"

definition world_uuid :: "ext \<Rightarrow> ('s world, uuid) op" where
  "world_uuid X w = (Ok (new_v4 X (w_rng w)), w\<lparr>w_rng := Suc (w_rng w)\<rparr>)"

text \<open>\<^verbatim>\<open>Option::ok_or\<close> and \<^verbatim>\<open>Result::map_err\<close> with a constant error.\<close>

definition ok_or :: "'a option \<Rightarrow> error \<Rightarrow> ('s, 'a) op" where
  "ok_or x e = (case x of None \<Rightarrow> throw e | Some a \<Rightarrow> ret a)"

definition or_err :: "'a result \<Rightarrow> error \<Rightarrow> ('s, 'a) op" where
  "or_err r e = lift_result (case r of Err x \<Rightarrow> Err e | y \<Rightarrow> y)"

text \<open>An operation under a lock that is dropped when the operation does not succeed.\<close>

definition locked :: "uuid \<Rightarrow> error \<Rightarrow> (uuid lock \<Rightarrow> ('s world, 'a) op) \<Rightarrow> ('s world, 'a) op" where
  "locked i e m w = (case acquire_lock i (w_locks w) of
      (None, t) \<Rightarrow> (Err e, w)
    | (Some l, t) \<Rightarrow> (case m l (w\<lparr>w_locks := t\<rparr>) of
        (Ok a, w') \<Rightarrow> (Ok a, w')
      | (r, w') \<Rightarrow> (r, w'\<lparr>w_locks := drop_lock l (w_locks w')\<rparr>)))"

definition peek_metadata :: "('s, 'z) env \<Rightarrow> error \<Rightarrow> ('s world, repo_metadata) op" where
  "peek_metadata E missing =
     bindR (world_read (ev_store E) METADATA_BLOCK_ID) (\<lambda>b.
     bindR (ok_or b missing) (\<lambda>serialized_metadata.
     ok_or (from_metadata E serialized_metadata) Corrupt))"

definition peek_info_store :: "('s, 'z) env \<Rightarrow> ('s world, repo_info) op" where
  "peek_info_store E = bindR (peek_metadata E NotFound) (\<lambda>m. ret (to_info m))"

text \<open>The password that is used: none without encryption, and required with it.\<close>

definition required_password :: "encryption \<Rightarrow> bytes option \<Rightarrow> ('s, bytes option) op" where
  "required_password m p = (case p of
      Some b \<Rightarrow> if m \<noteq> EncryptionNone then ret (Some b) else ret None
    | None \<Rightarrow> if m \<noteq> EncryptionNone then throw Password else ret None)"

definition new_repo ::
  "repo_metadata \<Rightarrow> bytes \<Rightarrow> uuid lock \<Rightarrow> header \<Rightarrow> uuid \<Rightarrow> uuid \<Rightarrow> 's world \<Rightarrow> ('k, 's) key_repo" where
  "new_repo m key l h iid tid w = \<lparr>
     rstate = \<lparr>store = w_store w, metadata = m, chunks = hd_chunks h, packs = hd_packs h, transactions = lt_new,
       master_key = key, repo_lock = l, rng = w_rng w\<rparr>,
     instance_id = iid, objects = [], heap = [], next_addr = 0, instances = hd_instances h,
     handle_table = hd_handle_table h, transaction_id = tid\<rparr>"

text \<open>
  The last step, \<^verbatim>\<open>repo.change_instance(self.instance)\<close>.  The repository that is consumed has no
  objects; its type of keys is \<^verbatim>\<open>R::Key\<close>.
\<close>

definition enter_instance ::
  "('s, 'z) env \<Rightarrow> 'k map_codec \<Rightarrow> uuid \<Rightarrow> uuid \<Rightarrow> ('k, 's) key_repo \<Rightarrow> ('s world, bool \<times> ('k, 's) key_repo) op" where
  "enter_instance E M vid iid r w = (case change_instance E M vid iid r of
     (x, s) \<Rightarrow> (x, w\<lparr>w_store := store s, w_rng := rng s\<rparr>))"

section \<open>Opening\<close>

definition unlock_master_key :: "ext \<Rightarrow> repo_metadata \<Rightarrow> bytes option \<Rightarrow> ('s, bytes) op" where
  "unlock_master_key X m password = (case password of
      None \<Rightarrow> ret []
    | Some b \<Rightarrow>
        bindR (lift_result (key_derive X b (md_salt m) (key_size X (config_encryption (md_config m)))
          (config_memory_limit (md_config m)) (config_operations_limit (md_config m)))) (\<lambda>user_key.
        or_err (decrypt X (config_encryption (md_config m)) (md_master_key m) user_key) Password))"

definition load_header :: "('s, 'z) env \<Rightarrow> repo_metadata \<Rightarrow> bytes \<Rightarrow> ('s world, header) op" where
  "load_header E m key =
     bindR (world_read (ev_store E) (md_header_id m)) (\<lambda>b.
     bindR (ok_or b Corrupt) (\<lambda>encrypted_header.
     bindR (or_err (decrypt (ev_ext E) (config_encryption (md_config m)) encrypted_header key) Corrupt) (\<lambda>compressed_header.
     bindR (or_err (decompress (ev_ext E) (config_compression (md_config m)) compressed_header) Corrupt) (\<lambda>serialized_header.
     ok_or (from_header E serialized_header) Corrupt))))"

definition open_repo ::
  "('s, 'z) env \<Rightarrow> 'k map_codec \<Rightarrow> uuid \<Rightarrow> open_options \<Rightarrow> ('s world, bool \<times> ('k, 's) key_repo) op" where
  "open_repo E M vid p =
     bindR (peek_info_store E) (\<lambda>info.
     locked (ri_id info) Locked (\<lambda>l.
       bindR (world_read (ev_store E) VERSION_BLOCK_ID) (\<lambda>b.
       bindR (ok_or b NotFound) (\<lambda>serialized_version.
       bindR (ok_or (uuid_from_slice E serialized_version) Corrupt) (\<lambda>version.
       bindR (if version \<noteq> FORMAT_VERSION_ID then throw UnsupportedRepo else ret ()) (\<lambda>_.
       bindR (peek_metadata E Corrupt) (\<lambda>m.
       bindR (required_password (config_encryption (md_config m)) (oo_password p)) (\<lambda>password.
       bindR (unlock_master_key (ev_ext E) m password) (\<lambda>key.
       bindR (load_header E m key) (\<lambda>h.
       bindR (world_uuid (ev_ext E)) (\<lambda>tid w.
       enter_instance E M vid (oo_instance p) (new_repo m key l h (oo_instance p) tid w) w)))))))))))"

section \<open>Creating\<close>

definition empty_header :: header where
  "empty_header = \<lparr>hd_chunks = [], hd_packs = [], hd_instances = [], hd_handle_table = id_new\<rparr>"

definition make_master_key :: "ext \<Rightarrow> repo_config \<Rightarrow> bytes option \<Rightarrow> ('s world, bytes) op" where
  "make_master_key X c password = (case password of
      None \<Rightarrow> ret []
    | Some b \<Rightarrow> world_rng (key_generate X (key_size X (config_encryption c))))"

definition make_salt :: "ext \<Rightarrow> bytes option \<Rightarrow> ('s world, bytes) op" where
  "make_salt X password = (case password of None \<Rightarrow> ret salt_empty | Some b \<Rightarrow> world_rng (salt_generate X))"

definition lock_master_key :: "ext \<Rightarrow> repo_config \<Rightarrow> bytes option \<Rightarrow> bytes \<Rightarrow> bytes \<Rightarrow> ('s world, bytes) op" where
  "lock_master_key X c password salt key = (case password of
      None \<Rightarrow> ret []
    | Some b \<Rightarrow>
        bindR (lift_result (key_derive X b salt (key_size X (config_encryption c))
          (config_memory_limit c) (config_operations_limit c))) (\<lambda>user_key.
        world_rng (encrypt X (config_encryption c) key user_key)))"

definition expectR :: "'a option \<Rightarrow> string \<Rightarrow> ('s, 'a) op" where
  "expectR x m = (case x of None \<Rightarrow> panic m | Some a \<Rightarrow> ret a)"

definition create_repo ::
  "('s, 'z) env \<Rightarrow> 'k map_codec \<Rightarrow> uuid \<Rightarrow> open_options \<Rightarrow> ('s world, bool \<times> ('k, 's) key_repo) op" where
  "create_repo E M vid p = (let c = oo_config p; X = ev_ext E; D = ev_store E in
     bindR (required_password (config_encryption c) (oo_password p)) (\<lambda>password.
     bindR (world_uuid X) (\<lambda>i.
     locked i AlreadyExists (\<lambda>l.
       bindR (world_read D VERSION_BLOCK_ID) (\<lambda>b.
       bindR (if b \<noteq> None then throw AlreadyExists else ret ()) (\<lambda>_.
       bindR (make_master_key X c password) (\<lambda>key.
       bindR (make_salt X password) (\<lambda>salt.
       bindR (lock_master_key X c password salt key) (\<lambda>encrypted_master_key.
       bindR (expectR (to_vec_header E empty_header) ''Could not serialize the repository header.'') (\<lambda>serialized_header.
       bindR (world_rng (encode_with X c key serialized_header)) (\<lambda>encrypted_header.
       bindR (world_uuid X) (\<lambda>header_id.
       bindR (world_write D header_id encrypted_header) (\<lambda>_.
       let m = \<lparr>md_id = i, md_config = c, md_master_key = encrypted_master_key, md_salt = salt, md_header_id = header_id\<rparr> in
       bindR (expectR (to_vec_metadata E m) ''Could not serialize metadata.'') (\<lambda>serialized_metadata.
       bindR (world_write D METADATA_BLOCK_ID serialized_metadata) (\<lambda>_.
       bindR (world_write D VERSION_BLOCK_ID (uuid_as_bytes E FORMAT_VERSION_ID)) (\<lambda>_.
       bindR (world_uuid X) (\<lambda>tid w.
       enter_instance E M vid (oo_instance p) (new_repo m key l empty_header (oo_instance p) tid w) w)))))))))))))))))"

definition options_open ::
  "('s, 'z) env \<Rightarrow> 'k map_codec \<Rightarrow> uuid \<Rightarrow> open_options \<Rightarrow> ('s world, bool \<times> ('k, 's) key_repo) op" where
  "options_open E M vid p = (case oo_mode p of
      Open \<Rightarrow> open_repo E M vid p
    | Create \<Rightarrow> bindR (world_read (ev_store E) VERSION_BLOCK_ID) (\<lambda>b.
        if b \<noteq> None then open_repo E M vid p else create_repo E M vid p)
    | CreateNew \<Rightarrow> create_repo E M vid p)"

end
