(* ===== verification/Repo_Correct.thy ===== *)
theory Repo_Correct
  imports Object_Contract Open_Options
begin

text \<open>
  What the repository promises: a commit makes the objects of the current instance durable, and a
  rollback returns to them; a savepoint is restored; removing, inserting and copying objects touches
  no other object; cleaning removes no block that the current or the committed state needs.
\<close>

section \<open>Serialization\<close>

text \<open>
  Equality of deserialized values is equality of maps and sets; the order of iteration may differ.
\<close>

definition table_eq :: "id_table \<Rightarrow> id_table \<Rightarrow> bool" where
  "table_eq t t' \<longleftrightarrow> highest t = highest t' \<and> set (unused t) = set (unused t') \<and>
     distinct (unused t) = distinct (unused t')"

definition header_eq :: "header \<Rightarrow> header \<Rightarrow> bool" where
  "header_eq h h' \<longleftrightarrow> hget (hd_chunks h) = hget (hd_chunks h') \<and> hget (hd_packs h) = hget (hd_packs h') \<and>
     hget (hd_instances h) = hget (hd_instances h') \<and> table_eq (hd_handle_table h) (hd_handle_table h')"

text \<open>What the serializers promise: a value that was serialized is deserialized to an equal one.\<close>

definition codec_laws :: "('s, 'z) env \<Rightarrow> 'k map_codec \<Rightarrow> bool" where
  "codec_laws E M \<longleftrightarrow>
     (\<forall>h. \<exists>b h'. to_vec_header E h = Some b \<and> from_header E b = Some h' \<and> header_eq h' h \<and> hwf (hd_chunks h')) \<and>
     (\<forall>m. \<exists>b. to_vec_metadata E m = Some b \<and> from_metadata E b = Some m) \<and>
     (\<forall>i. uuid_from_slice E (uuid_as_bytes E i) = Some i) \<and>
     (\<forall>m b. hwf m \<longrightarrow> to_vec_objects M m = Some b \<longrightarrow>
        (\<exists>m'. fst (run_decoder slice_read (from_objects M) b) = Ok m' \<and> hget m' = hget m \<and> hwf m'))"

section \<open>Addresses of handles\<close>

definition addr_ok :: "('k, 's) key_repo \<Rightarrow> bool" where
  "addr_ok r \<longleftrightarrow> (\<forall>a \<in> dom (hget (heap r)). a < next_addr r)"

lemma alloc_handle_ok:
  assumes "addr_ok r"
  shows "alloc_handle h r = (Ok (next_addr r), r\<lparr>heap := hput (next_addr r) h (heap r), next_addr := Suc (next_addr r)\<rparr>)"
    "addr_ok (r\<lparr>heap := hput (next_addr r) h (heap r), next_addr := Suc (next_addr r)\<rparr>)"
  using assms by (auto simp: alloc_handle_def addr_ok_def less_Suc_eq)

text \<open>Allocating a map of handles gives every key a fresh address that holds its handle.\<close>

lemma alloc_objects_ok:
  assumes "addr_ok r"
  shows "\<exists>as hp n. alloc_objects m r = (Ok as, r\<lparr>heap := hp, next_addr := n\<rparr>) \<and>
    map fst as = map fst m \<and> map (\<lambda>(k, a). (k, hget hp a)) as = map (\<lambda>(k, h). (k, Some h)) m \<and>
    (\<forall>a. a < next_addr r \<longrightarrow> hget hp a = hget (heap r) a) \<and> (\<forall>a \<in> dom (hget hp). a < n) \<and>
    (\<forall>a \<in> set (map snd as). next_addr r \<le> a \<and> a < n) \<and> distinct (map snd as) \<and> next_addr r \<le> n"
  using assms
proof (induction m arbitrary: r)
  case Nil
  then show ?case by (intro exI [of _ "[]"] exI [of _ "heap r"] exI [of _ "next_addr r"]) (auto simp: addr_ok_def)
next
  case (Cons p m)
  obtain k h where p: "p = (k, h)" by (cases p)
  let ?r = "r\<lparr>heap := hput (next_addr r) h (heap r), next_addr := Suc (next_addr r)\<rparr>"
  obtain as hp n where IH: "alloc_objects m ?r = (Ok as, ?r\<lparr>heap := hp, next_addr := n\<rparr>)"
    "map fst as = map fst m" "map (\<lambda>(k, a). (k, hget hp a)) as = map (\<lambda>(k, h). (k, Some h)) m"
    "\<forall>a. a < Suc (next_addr r) \<longrightarrow> hget hp a = hget (hput (next_addr r) h (heap r)) a" "\<forall>a \<in> dom (hget hp). a < n"
    "\<forall>a \<in> set (map snd as). Suc (next_addr r) \<le> a \<and> a < n" "distinct (map snd as)" "Suc (next_addr r) \<le> n"
    using Cons.IH [OF alloc_handle_ok(2) [OF Cons.prems, of h]] by auto
  have "hget hp (next_addr r) = Some h" using IH(4) by simp
  moreover have "hget hp a = hget (heap r) a" if "a < next_addr r" for a using IH(4) that by auto
  moreover have "next_addr r \<notin> set (map snd as)" using IH(6) by auto
  moreover have "alloc_objects (p # m) r = (Ok ((k, next_addr r) # as), r\<lparr>heap := hp, next_addr := n\<rparr>)"
    using IH(1) by (simp add: p alloc_handle_def bindR_def)
  ultimately show ?case
    using IH p by (intro exI [of _ "(k, next_addr r) # as"] exI [of _ hp] exI [of _ n]) auto
qed

text \<open>Handles that are allocated on the heap and that no object has yet.\<close>

definition staged :: "('k, object_handle) hmap \<Rightarrow> ('k, addr) hmap \<Rightarrow> ('k, 's) key_repo \<Rightarrow> bool" where
  "staged m as r \<longleftrightarrow> map (\<lambda>(k, a). (k, hget (heap r) a)) as = map (\<lambda>(k, h). (k, Some h)) m \<and>
     set (hvalues as) \<inter> set (hvalues (objects r)) = {} \<and> (\<forall>a \<in> set (hvalues as). a < next_addr r)"

text \<open>What a start of a restore, and of a backup, leaves of the repository.\<close>

definition prepared :: "('s \<Rightarrow> uuid \<rightharpoonup> bytes) \<Rightarrow> ('k, 's) key_repo \<Rightarrow> ('k, 's) key_repo \<Rightarrow> bool" where
  "prepared bl r q \<longleftrightarrow> (\<exists>s hp n. q = r\<lparr>rstate := s, heap := hp, next_addr := n\<rparr> \<and> store_eq bl (rstate r) s \<and>
     (\<forall>a. a < next_addr r \<longrightarrow> hget hp a = hget (heap r) a) \<and> next_addr r \<le> n \<and> (\<forall>a \<in> dom (hget hp). a < n))"

lemma staged_alloc:
  assumes "addr_ok r" "\<forall>a \<in> set (hvalues (objects r)). a < next_addr r"
  shows "\<exists>as q. alloc_objects m r = (Ok as, q) \<and> staged m as q \<and> prepared bl r q \<and>
    (\<forall>a \<in> set (hvalues as). next_addr r \<le> a)"
proof -
  obtain as hp n where a: "alloc_objects m r = (Ok as, r\<lparr>heap := hp, next_addr := n\<rparr>)"
    "map (\<lambda>(k, a). (k, hget hp a)) as = map (\<lambda>(k, h). (k, Some h)) m"
    "\<forall>a. a < next_addr r \<longrightarrow> hget hp a = hget (heap r) a" "\<forall>a \<in> dom (hget hp). a < n"
    "\<forall>a \<in> set (map snd as). next_addr r \<le> a \<and> a < n" "next_addr r \<le> n"
    using alloc_objects_ok [OF assms(1)] by blast
  have "staged m as (r\<lparr>heap := hp, next_addr := n\<rparr>)"
    using a(2,5) assms(2) by (fastforce simp: staged_def hvalues_def)
  moreover have "prepared bl r (r\<lparr>heap := hp, next_addr := n\<rparr>)"
    unfolding prepared_def using a(3,4,6)
    by (intro exI [of _ "rstate r"] exI [of _ hp] exI [of _ n]) simp
  moreover have "\<forall>a \<in> set (hvalues as). next_addr r \<le> a" using a(5) by (auto simp: hvalues_def)
  ultimately show ?thesis using a(1) by blast
qed

text \<open>They are made the objects, and some of the handles before are dropped.\<close>

definition install :: "addr list \<Rightarrow> ('k, addr) hmap \<Rightarrow> ('k, 's) key_repo \<Rightarrow> ('k, 's) key_repo" where
  "install old as r = (free_handles old r)\<lparr>objects := as\<rparr>"

lemma set_objects_install: "set_objects as r = install (filter (\<lambda>a. a \<notin> set (hvalues as)) (hvalues (objects r))) as r"
  by (simp add: set_objects_def install_def)

lemma install_fields [simp]:
  "rstate (install old as r) = rstate r" "instances (install old as r) = instances r"
  "handle_table (install old as r) = handle_table r" "instance_id (install old as r) = instance_id r"
  "transaction_id (install old as r) = transaction_id r" "next_addr (install old as r) = next_addr r"
  "objects (install old as r) = as" "heap (install old as r) = hretain (\<lambda>a. a \<notin> set old) (heap r)"
  "clone_header (install old as r) = clone_header r"
  by (simp_all add: install_def free_handles_def clone_header_def)

lemma put_header_clone: "put_header (clone_header r) r = r" "clone_header (put_header h r) = h" "put_header h (put_header h' r) = put_header h r"
  by (simp_all add: put_header_def clone_header_def)

lemmas clone_header_put = put_header_clone(2)

lemma staged_installed:
  assumes "staged m as r" "addr_ok r" "hwf m" "set old \<inter> set (hvalues as) = {}"
  shows "handles_of (install old as r) = m" "hwf as" "addr_ok (install old as r)"
    "\<forall>k a. hget as k = Some a \<longrightarrow> hget (heap (install old as r)) a \<noteq> None"
    "\<forall>a \<in> set (hvalues as). a < next_addr r"
proof -
  let ?q = "install old as r"
  have m: "map (\<lambda>(k, a). (k, hget (heap r) a)) as = map (\<lambda>(k, h). (k, Some h)) m" using assms(1) by (simp add: staged_def)
  have keep: "hget (heap ?q) b = hget (heap r) b" if "b \<in> set (map snd as)" for b
    using that assms(4) by (auto simp: hvalues_def)
  have "handles_of ?q = map (\<lambda>(k, y). (k, case y of Some h \<Rightarrow> h | None \<Rightarrow> \<lparr>handle_id = 0, extents = []\<rparr>))
      (map (\<lambda>(k, a). (k, hget (heap r) a)) as)"
    unfolding handles_of_def install_fields(7) deref_def list.map_comp using keep
    by (intro map_cong) (force split: prod.splits)+
  then show "handles_of ?q = m" unfolding m by (simp add: case_prod_beta comp_def)
  have "map fst as = map fst m" using arg_cong [OF m, of "map fst"] by (simp add: case_prod_beta comp_def)
  then show "hwf as" using assms(3) by (simp add: hwf_def)
  show "addr_ok ?q" using assms(2) by (auto simp: addr_ok_def split: if_splits)
  show "\<forall>k a. hget as k = Some a \<longrightarrow> hget (heap ?q) a \<noteq> None"
  proof (intro allI impI)
    fix k a assume "hget as k = Some a"
    then have ka: "(k, a) \<in> set as" by (rule map_of_SomeD)
    then have "(k, hget (heap r) a) \<in> set (map (\<lambda>(k, h). (k, Some h)) m)" unfolding m [symmetric] by force
    then show "hget (heap ?q) a \<noteq> None" using keep [of a] ka by force
  qed
  show "\<forall>a \<in> set (hvalues as). a < next_addr r" using assms(1) by (simp add: staged_def)
qed

section \<open>Object maps\<close>

definition handle_ok :: "('s \<Rightarrow> uuid \<rightharpoonup> bytes) \<Rightarrow> ext \<Rightarrow> 's repo_state \<Rightarrow> object_handle \<Rightarrow> bool" where
  "handle_ok bl X s h \<longleftrightarrow> extents_ok (chunk_data bl X s) (extents h) \<and> total (extents h) < 2 ^ 63 \<and> refs_ok s h"

definition handle_content :: "('s \<Rightarrow> uuid \<rightharpoonup> bytes) \<Rightarrow> ext \<Rightarrow> 's repo_state \<Rightarrow> object_handle \<Rightarrow> bytes" where
  "handle_content bl X s h = content (chunk_data bl X s) (extents h)"

lemma handle_ok_mono:
  assumes "handle_ok bl X s h" "\<And>c d. chunk_data bl X s c = Some d \<Longrightarrow> chunk_data bl X s' c = Some d"
    "\<And>c. refs_of s c \<subseteq> refs_of s' c"
  shows "handle_ok bl X s' h" "handle_content bl X s' h = handle_content bl X s h"
proof -
  have "refs_ok s' h" using assms(1) subsetD [OF assms(3)] by (auto simp: handle_ok_def refs_ok_def)
  then show "handle_ok bl X s' h"
    using assms(1) extents_ok_mono [of "chunk_data bl X s" _ "chunk_data bl X s'"] assms(2) by (simp add: handle_ok_def)
  show "handle_content bl X s' h = handle_content bl X s h"
    using assms(1) content_mono [OF _ assms(2)] by (simp add: handle_ok_def handle_content_def)
qed

lemma handle_ok_grows:
  assumes "handle_ok bl X s h" "grows bl X s s'"
  shows "handle_ok bl X s' h" "handle_content bl X s' h = handle_content bl X s h"
proof -
  have mono: "\<And>c d. chunk_data bl X s c = Some d \<Longrightarrow> chunk_data bl X s' c = Some d" "\<And>c. refs_of s c \<subseteq> refs_of s' c"
    using assms(2) by (auto simp: grows_def)
  note H = handle_ok_mono [OF assms(1) mono]
  show "handle_ok bl X s' h" "handle_content bl X s' h = handle_content bl X s h" using H by blast+
qed

text \<open>
  The state of a repository is committed when the header block of the store decodes to the state's
  header, and the object map of the current instance decodes to its map of handles.
\<close>

definition committed ::
  "('s \<Rightarrow> uuid \<rightharpoonup> bytes) \<Rightarrow> bytes set \<Rightarrow> ('s, 'z) env \<Rightarrow> 'k map_codec \<Rightarrow> ('k, 's) key_repo \<Rightarrow> bool" where
  "committed bl S E M r \<longleftrightarrow> (\<exists>b h info m.
     decoded bl (ev_ext E) (rstate r) (md_header_id (metadata (rstate r))) = Some b \<and> from_header E b = Some h \<and>
     header_eq h (clone_header r) \<and> hwf (hd_chunks h) \<and>
     direct_inv bl (ev_ext E) S 0 (rstate r) \<and>
     hget (instances r) (instance_id r) = Some info \<and> handle_ok bl (ev_ext E) (rstate r) (instance_objects info) \<and>
     fst (run_decoder slice_read (from_objects M) (handle_content bl (ev_ext E) (rstate r) (instance_objects info))) = Ok m \<and>
     hget m = hget (handles_of r) \<and> hwf m)"

text \<open>What a commit needs of the repository: an instance whose object map can be written.\<close>

definition writable ::
  "('s \<Rightarrow> uuid \<rightharpoonup> bytes) \<Rightarrow> bytes set \<Rightarrow> ('s, 'z) env \<Rightarrow> (chunking \<Rightarrow> bool) \<Rightarrow> nat \<Rightarrow> ('k, 's) key_repo \<Rightarrow>
     instance_info \<Rightarrow> bool" where
  "writable bl S E good N r info \<longleftrightarrow> direct_inv bl (ev_ext E) S N (rstate r) \<and> hget (instances r) (instance_id r) = Some info \<and>
     handle_ok bl (ev_ext E) (rstate r) (instance_objects info) \<and>
     handle_id (instance_objects info) \<notin> transactions (rstate r) \<and> good (config_chunking (cfg (rstate r))) \<and>
     hwf (objects r)"

text \<open>The object map of the instance is written again as \<open>v\<close>; the objects and their data stay.\<close>

definition rewritten ::
  "('s \<Rightarrow> uuid \<rightharpoonup> bytes) \<Rightarrow> ext \<Rightarrow> bytes set \<Rightarrow> nat \<Rightarrow> instance_info \<Rightarrow> bytes \<Rightarrow> ('k, 's) key_repo \<Rightarrow> ('k, 's) key_repo \<Rightarrow> bool" where
  "rewritten bl X S N info v r r' \<longleftrightarrow>
     (\<exists>h. instances r' = hput (instance_id r) (info\<lparr>instance_objects := h\<rparr>) (instances r) \<and>
        handle_id h = handle_id (instance_objects info) \<and> handle_ok bl X (rstate r') h \<and> handle_content bl X (rstate r') h = v) \<and>
     direct_inv bl X S N (rstate r') \<and>
     (\<forall>c d. chunk_data bl X (rstate r) c = Some d \<longrightarrow> chunk_data bl X (rstate r') c = Some d) \<and>
     (\<forall>c. refs_of (rstate r) c \<subseteq> refs_of (rstate r') c) \<and>
     objects r' = objects r \<and> heap r' = heap r \<and> next_addr r' = next_addr r \<and>
     instance_id r' = instance_id r \<and> handle_table r' = handle_table r \<and>
     cfg (rstate r') = cfg (rstate r) \<and> md_id (metadata (rstate r')) = md_id (metadata (rstate r)) \<and>
     transactions (rstate r') = transactions (rstate r)"

text \<open>
  A later state of the repository keeps the blocks of the store, its metadata and its keys.
\<close>

definition extends :: "('s \<Rightarrow> uuid \<rightharpoonup> bytes) \<Rightarrow> ('k, 's) key_repo \<Rightarrow> ('k, 's) key_repo \<Rightarrow> bool" where
  "extends bl r1 r2 \<longleftrightarrow> metadata (rstate r2) = metadata (rstate r1) \<and> master_key (rstate r2) = master_key (rstate r1) \<and>
     instance_id r2 = instance_id r1 \<and>
     (\<forall>i e. bl (store (rstate r1)) i = Some e \<longrightarrow> bl (store (rstate r2)) i = Some e) \<and>
     addr_ok r2 \<and> (\<forall>a \<in> set (hvalues (objects r2)). a < next_addr r2)"

text \<open>A state whose object map is written, whether it is committed or not.\<close>

definition snapshot ::
  "('s \<Rightarrow> uuid \<rightharpoonup> bytes) \<Rightarrow> bytes set \<Rightarrow> ('s, 'z) env \<Rightarrow> 'k map_codec \<Rightarrow> ('k, 's) key_repo \<Rightarrow> bool" where
  "snapshot bl S E M r \<longleftrightarrow> (\<exists>info m. direct_inv bl (ev_ext E) S 0 (rstate r) \<and>
     hget (instances r) (instance_id r) = Some info \<and> handle_ok bl (ev_ext E) (rstate r) (instance_objects info) \<and>
     fst (run_decoder slice_read (from_objects M) (handle_content bl (ev_ext E) (rstate r) (instance_objects info))) = Ok m \<and>
     hget m = hget (handles_of r) \<and> hwf m)"

lemma header_eq_refl [simp]: "header_eq h h"
  by (simp add: header_eq_def table_eq_def)

lemma direct_inv_0: "direct_inv bl X S N s \<Longrightarrow> direct_inv bl X S 0 s"
  by (simp add: direct_inv_def fresh_ids_def)

lemma view_rng [simp]:
  "chunk_data bl X (s\<lparr>rng := c\<rparr>) = chunk_data bl X s" "refs_of (s\<lparr>rng := c\<rparr>) = refs_of s"
  "decoded bl X (s\<lparr>rng := c\<rparr>) = decoded bl X s"
proof -
  show d: "decoded bl X (s\<lparr>rng := c\<rparr>) = decoded bl X s" by (intro ext decoded_cong) simp_all
  then show "chunk_data bl X (s\<lparr>rng := c\<rparr>) = chunk_data bl X s" by (intro chunk_data_cong) simp_all
  show "refs_of (s\<lparr>rng := c\<rparr>) = refs_of s" by (simp add: refs_of_def fun_eq_iff)
qed

lemma direct_inv_rng:
  assumes "direct_inv bl X S N s" "rng s \<le> c"
  shows "direct_inv bl X S N (s\<lparr>rng := c\<rparr>)"
  using assms by (auto simp: direct_inv_def chunks_ok_def fresh_ids_def intro: inj_on_subset)

lemma hget_handles_of: "hget (handles_of r) k = map_option (deref r) (hget (objects r) k)"
proof -
  have "hget (map (\<lambda>(k, a). (k, f a)) m) k = map_option f (hget m k)" for m :: "('a \<times> addr) list" and f
    by (induction m) auto
  then show ?thesis by (simp add: handles_of_def)
qed

lemma hwf_handles_of: "hwf (objects r) \<Longrightarrow> hwf (handles_of r)"
  by (simp add: hwf_def handles_of_def comp_def case_prod_beta)

locale key_env = object_env "ev_store E" blocks "ev_ext E" "dyn_ops (ev_zpaq E)" cinv cfresh cpend S
  for E :: "('s, 'z) env" and blocks :: "'s \<Rightarrow> uuid \<rightharpoonup> bytes" and cinv cfresh cpend S +
  fixes M :: "'k map_codec" and good :: "chunking \<Rightarrow> bool"
  assumes codecs: "codec_laws E M"
    and new_chunker: "good m \<Longrightarrow> cinv (to_chunker (ev_zpaq E) m) \<and> cfresh (to_chunker (ev_zpaq E) m)"
begin

abbreviation X :: ext where "X \<equiv> ev_ext E"

lemma header_codec:
  "\<exists>b h'. to_vec_header E h = Some b \<and> from_header E b = Some h' \<and> header_eq h' h \<and> hwf (hd_chunks h')"
  using codecs unfolding codec_laws_def by blast

lemma metadata_codec: "\<exists>b. to_vec_metadata E m = Some b \<and> from_metadata E b = Some m"
  using codecs unfolding codec_laws_def by blast

lemma objects_codec:
  "hwf m \<Longrightarrow> to_vec_objects M m = Some b \<Longrightarrow>
     \<exists>m'. fst (run_decoder slice_read (from_objects M) b) = Ok m' \<and> hget m' = hget m \<and> hwf m'"
  using codecs unfolding codec_laws_def by blast

abbreviation fresh_octx :: "'s repo_state \<Rightarrow> object_handle \<Rightarrow> ('s, 'z chunker) octx" where
  "fresh_octx s h \<equiv> \<lparr>o_repo = s,
     o_state = object_state_new (to_chunker (ev_zpaq E) (config_chunking (cfg s))), o_handle = h\<rparr>"

lemma fresh_octx_ok:
  assumes "direct_inv blocks X S N s" "handle_ok blocks X s h"
  shows "obj_ok blocks X S N (fresh_octx s h)" "\<not> in_transaction (fresh_octx s h)"
    "obj_content blocks X (fresh_octx s h) = handle_content blocks X s h"
  using assms
  by (simp_all add: obj_ok_def handle_ok_def obj_view_def buffer_ok_def object_state_new_def in_transaction_def
    obj_content_def handle_content_def)

lemma fresh_octx_idle:
  assumes "good (config_chunking (cfg s))" "handle_id h \<notin> transactions s"
  shows "idle cinv cpend (fresh_octx s h)"
  using assms(2) ic_new_ok new_chunker [OF assms(1)]
  by (simp add: idle_def object_state_new_def ic_is_empty_def ic_new_def)

lemma read_with_object:
  assumes "direct_inv blocks X S N s" "handle_ok blocks X s h"
  shows "\<exists>s'. with_object E h (object_deserialize (ev_store E) X dec) s =
    (fst (run_decoder slice_read dec (handle_content blocks X s h)), h, s') \<and> store_eq blocks s s'"
proof -
  obtain x where x: "object_deserialize (ev_store E) X dec (fresh_octx s h) =
      (fst (run_decoder slice_read dec (handle_content blocks X s h)), x)" "same_object blocks (fresh_octx s h) x"
    using deserialize_ok [OF fresh_octx_ok(1,2) [OF assms]] fresh_octx_ok(3) [OF assms] by metis
  then have "release_lock x = x" "o_handle x = h" "store_eq blocks s (o_repo x)"
    by (simp_all add: same_object_def release_lock_def object_state_new_def)
  with x show ?thesis by (simp add: with_object_def)
qed

lemma write_with_object:
  assumes "direct_inv blocks X S N s" "handle_ok blocks X s h" "good (config_chunking (cfg s))"
    "handle_id h \<notin> transactions s" "overwrite 0 v (handle_content blocks X s h) \<in> S" "length v < 2 ^ 63"
    "rng s + 2 * (2 * length (handle_content blocks X s h) + length v + 6) \<le> N"
  shows "\<exists>h' s'. with_object E h (object_serialize (ev_store E) X (dyn_ops (ev_zpaq E)) (Some v)) s = (Ok (), h', s') \<and>
    handle_id h' = handle_id h \<and> handle_ok blocks X s' h' \<and> handle_content blocks X s' h' = v \<and>
    direct_inv blocks X S N s' \<and> grows blocks X s s' \<and>
    rng s' \<le> rng s + 2 * (2 * length (handle_content blocks X s h) + length v + 6)"
proof -
  note f = fresh_octx_ok [OF assms(1,2)]
  obtain x where x: "object_serialize (ev_store E) X (dyn_ops (ev_zpaq E)) (Some v) (fresh_octx s h) = (Ok (), x)"
    "obj_ok blocks X S N x" "idle cinv cpend x" "obj_content blocks X x = v" "handle_id (o_handle x) = handle_id h"
    "grows blocks X s (o_repo x)" "rng (o_repo x) \<le> rng s + 2 * (2 * length (handle_content blocks X s h) + length v + 6)"
    using serialize_ok [OF f(1) fresh_octx_idle [OF assms(3,4)], of v] f(3) assms(5-7) by auto
  have "release_lock x = x" using x(3) by (simp add: release_lock_def idle_def)
  with x show ?thesis
    by (auto simp: with_object_def obj_ok_def handle_ok_def obj_view_def obj_content_def handle_content_def)
qed

text \<open>Writing a header: a new block for it, and the metadata block that points to it.\<close>

lemma write_header_ok:
  assumes "direct_inv blocks X S N s" "rng s + 2 \<le> N"
  shows "\<exists>s' i c st. write_serialized_header E b s = (Ok (), s') \<and>
    s' = s\<lparr>metadata := (metadata s)\<lparr>md_header_id := i\<rparr>, rng := c, store := st\<rparr> \<and> c \<le> rng s + 2 \<and>
    decoded blocks X s' i = Some b \<and> chunk_data blocks X s' = chunk_data blocks X s \<and> direct_inv blocks X S N s' \<and>
    (\<exists>mb. blocks st METADATA_BLOCK_ID = Some mb \<and> from_metadata E mb = Some (metadata s')) \<and>
    (\<forall>j e. blocks (store s) j = Some e \<longrightarrow> j \<noteq> METADATA_BLOCK_ID \<longrightarrow> blocks st j = Some e)"
proof -
  have inv: "config_packing (cfg s) = PackingNone" "key_ok X (cfg s) (master_key s)"
    "chunks_ok blocks X S s" "fresh_ids blocks X N s"
    using assms(1) by (auto simp: direct_inv_def)
  obtain e c where e: "encode_with X (cfg s) (master_key s) b (rng s) = (Ok e, c)"
    "decode_with X (cfg s) (master_key s) e = Ok b"
    using encode_with_roundtrip [OF laws inv(2)] by blast
  have c: "rng s \<le> c" "c \<le> Suc (rng s)" using encode_with_counter [OF e(1)] by auto
  let ?i = "new_v4 X c" and ?m = "(metadata s)\<lparr>md_header_id := new_v4 X c\<rparr>"
  have new: "blocks (store s) ?i = None" "?i \<noteq> METADATA_BLOCK_ID"
    using inv(4) c assms(2) by (auto simp: fresh_ids_def reserved_ids_def)
  obtain st where st: "ds_write_block (ev_store E) ?i e (store s) = (Done (), st)" "blocks st = (blocks (store s))(?i \<mapsto> e)"
    using write_reliable by blast
  obtain mb where mb: "to_vec_metadata E ?m = Some mb" "from_metadata E mb = Some ?m"
    using metadata_codec by blast
  obtain st' where st': "ds_write_block (ev_store E) METADATA_BLOCK_ID mb st = (Done (), st')"
    "blocks st' = (blocks st)(METADATA_BLOCK_ID \<mapsto> mb)"
    using write_reliable by blast
  let ?s = "s\<lparr>metadata := ?m, rng := Suc c, store := st'\<rparr>"
  have run: "write_serialized_header E b s = (Ok (), ?s)"
    using e(1) st(1) st'(1) mb(1)
    by (simp add: write_serialized_header_def encode_data_def new_uuid_def store_write_def store_result_def bindR_def)
  have blocks: "blocks st' = (blocks (store s))(?i \<mapsto> e, METADATA_BLOCK_ID \<mapsto> mb)" using st st' by simp
  have dec: "decoded blocks X ?s j = decoded blocks X s j" if "j \<noteq> ?i" "j \<noteq> METADATA_BLOCK_ID" for j
    using that by (simp add: decoded_def blocks split: option.splits)
  have hd: "decoded blocks X ?s ?i = Some b" using e(2) new by (simp add: decoded_def blocks)
  have used: "block_id info \<noteq> ?i \<and> block_id info \<noteq> METADATA_BLOCK_ID" if "hget (chunks s) k = Some info" for k info
  proof -
    have "decoded blocks X s (block_id info) \<noteq> None" "block_id info \<notin> reserved_ids"
      using inv(3) that by (auto simp: chunks_ok_def)
    moreover have "decoded blocks X s ?i = None" using new(1) by (simp add: decoded_def)
    ultimately show ?thesis by (auto simp: reserved_ids_def)
  qed
  have data: "chunk_data blocks X ?s = chunk_data blocks X s"
    using dec used by (auto simp: chunk_data_def fun_eq_iff split: option.split)
  have "chunks_ok blocks X S ?s" using inv(3) dec used unfolding chunks_ok_def by fastforce
  moreover have "fresh_ids blocks X N ?s"
  proof -
    have "new_v4 X k \<noteq> ?i" if "Suc c \<le> k" "k < N" for k
      using inv(4) that c by (auto simp: fresh_ids_def dest!: inj_onD [of _ _ k c])
    moreover have "inj_on (new_v4 X) {Suc c..<N}"
      using inv(4) c by (auto simp: fresh_ids_def intro: inj_on_subset)
    ultimately show ?thesis using inv(4) c by (auto simp: fresh_ids_def blocks reserved_ids_def)
  qed
  ultimately have "direct_inv blocks X S N ?s" using inv by (simp add: direct_inv_def)
  moreover have "\<forall>j e'. blocks (store s) j = Some e' \<longrightarrow> j \<noteq> METADATA_BLOCK_ID \<longrightarrow> blocks st' j = Some e'"
    using new blocks by auto
  moreover have "\<exists>mb. blocks st' METADATA_BLOCK_ID = Some mb \<and> from_metadata E mb = Some (metadata ?s)"
    using mb(2) blocks by simp
  ultimately show ?thesis
    using run data hd c by (intro exI [of _ ?s] exI [of _ ?i] exI [of _ "Suc c"] exI [of _ st']) simp
qed

lemma write_object_map_ok:
  assumes "writable blocks S E good N r info" "to_vec_objects M (handles_of r) = Some v"
    "overwrite 0 v (handle_content blocks X (rstate r) (instance_objects info)) \<in> S" "length v < 2 ^ 63"
    "rng (rstate r) + 2 * (2 * length (handle_content blocks X (rstate r) (instance_objects info)) + length v + 6) \<le> N"
  shows "\<exists>h' s'. write_object_map E M r = (Ok (), r\<lparr>rstate := s',
      instances := hput (instance_id r) (info\<lparr>instance_objects := h'\<rparr>) (instances r)\<rparr>) \<and>
    handle_id h' = handle_id (instance_objects info) \<and> handle_ok blocks X s' h' \<and> handle_content blocks X s' h' = v \<and>
    direct_inv blocks X S N s' \<and> grows blocks X (rstate r) s' \<and>
    rng s' \<le> rng (rstate r) + 2 * (2 * length (handle_content blocks X (rstate r) (instance_objects info)) + length v + 6)"
proof -
  obtain h' s' where "with_object E (instance_objects info)
      (object_serialize (ev_store E) X (dyn_ops (ev_zpaq E)) (Some v)) (rstate r) = (Ok (), h', s')"
    "handle_id h' = handle_id (instance_objects info)" "handle_ok blocks X s' h'" "handle_content blocks X s' h' = v"
    "direct_inv blocks X S N s'" "grows blocks X (rstate r) s'"
    "rng s' \<le> rng (rstate r) + 2 * (2 * length (handle_content blocks X (rstate r) (instance_objects info)) + length v + 6)"
    using write_with_object [of N "rstate r" "instance_objects info" v] assms by (auto simp: writable_def)
  with assms(1,2) show ?thesis by (auto simp: write_object_map_def writable_def)
qed

lemma repo_commit_ok:
  assumes "writable blocks S E good N r info" "to_vec_objects M (handles_of r) = Some v"
    "overwrite 0 v (handle_content blocks X (rstate r) (instance_objects info)) \<in> S" "length v < 2 ^ 63"
    "rng (rstate r) + 2 * (2 * length (handle_content blocks X (rstate r) (instance_objects info)) + length v + 8) \<le> N"
  shows "\<exists>r'. repo_commit E M r = (Ok (), r') \<and> committed blocks S E M r' \<and> handles_of r' = handles_of r \<and>
    rewritten blocks X S N info v r r' \<and>
    (\<exists>mb. blocks (store (rstate r')) METADATA_BLOCK_ID = Some mb \<and> from_metadata E mb = Some (metadata (rstate r'))) \<and>
    rng (rstate r') \<le> rng (rstate r) + 2 * (2 * length (handle_content blocks X (rstate r) (instance_objects info)) + length v + 8)"
proof -
  obtain h s where w: "write_object_map E M r = (Ok (), r\<lparr>rstate := s,
      instances := hput (instance_id r) (info\<lparr>instance_objects := h\<rparr>) (instances r)\<rparr>)" (is "_ = (_, ?r1)")
    "handle_ok blocks X s h" "handle_content blocks X s h = v" "direct_inv blocks X S N s" "grows blocks X (rstate r) s"
    "rng s \<le> rng (rstate r) + 2 * (2 * length (handle_content blocks X (rstate r) (instance_objects info)) + length v + 6)"
    "handle_id h = handle_id (instance_objects info)"
    using write_object_map_ok [OF assms(1-4)] assms(5) by auto
  obtain b hd where b: "to_vec_header E (clone_header ?r1) = Some b" "from_header E b = Some hd"
    "header_eq hd (clone_header ?r1)" "hwf (hd_chunks hd)"
    using header_codec by blast
  obtain s' i c st where s': "write_serialized_header E b s = (Ok (), s')"
    "s' = s\<lparr>metadata := (metadata s)\<lparr>md_header_id := i\<rparr>, rng := c, store := st\<rparr>" "decoded blocks X s' i = Some b"
    "c \<le> rng s + 2"
    "chunk_data blocks X s' = chunk_data blocks X s" "direct_inv blocks X S N s'"
    and meta: "\<exists>mb. blocks st METADATA_BLOCK_ID = Some mb \<and> from_metadata E mb = Some (metadata s')"
    using write_header_ok [OF w(4), of b] w(6) assms(5) by auto
  let ?s = "s'\<lparr>rng := Suc (rng s')\<rparr>" and ?t = "new_v4 X (rng s')"
  let ?r = "?r1\<lparr>rstate := ?s, transaction_id := ?t\<rparr>"
  have run: "repo_commit E M r = (Ok (), ?r)"
    using w(1) b(1) s'(1) by (simp add: repo_commit_def serialize_header_def on_state_def new_uuid_def bindR_def)
  have "refs_of s' = refs_of s" by (simp add: s'(2) refs_of_def fun_eq_iff)
  then have view: "chunk_data blocks X ?s = chunk_data blocks X s" "refs_of ?s = refs_of s" "direct_inv blocks X S N ?s"
    using s'(5) direct_inv_rng [OF s'(6)] by simp_all
  have header: "header_eq hd (clone_header ?r)" using b(3) s'(2) by (simp add: clone_header_def)
  have h: "handle_ok blocks X ?s h" "handle_content blocks X ?s h = v"
    using w(2,3) view(1,2) by (simp_all add: handle_ok_def handle_content_def refs_ok_def)
  obtain m where m: "fst (run_decoder slice_read (from_objects M) v) = Ok m" "hget m = hget (handles_of r)" "hwf m"
    using objects_codec [OF hwf_handles_of assms(2)] assms(1) unfolding writable_def by blast
  have handles: "handles_of ?r = handles_of r" by (simp add: handles_of_def deref_def)
  have "md_header_id (metadata s') = i" by (simp add: s'(2))
  then have "committed blocks S E M ?r"
    unfolding committed_def using h m handles header direct_inv_0 [OF view(3)] s'(3) b(2,4)
    by (intro exI [of _ b] exI [of _ hd] exI [of _ "info\<lparr>instance_objects := h\<rparr>"] exI [of _ m]) simp
  moreover have "rewritten blocks X S N info v r ?r"
    unfolding rewritten_def using h view w(5,7) s'(2) by (auto simp: grows_def same_rest_def)
  ultimately show ?thesis using run handles w(6) s'(2,4) meta by (intro exI [of _ ?r]) simp
qed

text \<open>A later state that takes over the chunks of \<open>r1\<close> sees the same data.\<close>

lemma extends_decoded:
  assumes "extends blocks r1 r2" "decoded blocks X (rstate r1) i = Some d"
  shows "decoded blocks X (rstate r2) i = Some d"
  using assms by (auto simp: extends_def decoded_def split: option.splits)

lemma put_header_view:
  assumes "extends blocks r1 r2" "direct_inv blocks X S 0 (rstate r1)" "header_eq h (clone_header r1)" "hwf (hd_chunks h)"
  shows "chunk_data blocks X (rstate (put_header h r2)) = chunk_data blocks X (rstate r1)"
    "refs_of (rstate (put_header h r2)) = refs_of (rstate r1)"
    "direct_inv blocks X S 0 (rstate (put_header h r2))"
proof -
  let ?s = "rstate (put_header h r2)"
  have eq: "hget (chunks ?s) = hget (chunks (rstate r1))"
    using assms(3) by (simp add: header_eq_def clone_header_def put_header_def)
  have dec: "decoded blocks X ?s = decoded blocks X (rstate r2)"
    by (auto simp: fun_eq_iff put_header_def intro: decoded_cong)
  have old: "decoded blocks X ?s (block_id info) = decoded blocks X (rstate r1) (block_id info) \<and>
      decoded blocks X (rstate r1) (block_id info) \<noteq> None"
    if c: "hget (chunks (rstate r1)) c = Some info" for c info
  proof -
    obtain d where "decoded blocks X (rstate r1) (block_id info) = Some d"
      using assms(2) c unfolding direct_inv_def chunks_ok_def by blast
    with extends_decoded [OF assms(1)] dec show ?thesis by simp
  qed
  show "chunk_data blocks X ?s = chunk_data blocks X (rstate r1)"
    using old by (auto simp: chunk_data_def eq fun_eq_iff split: option.split)
  show "refs_of ?s = refs_of (rstate r1)" by (simp add: refs_of_def eq fun_eq_iff)
  have "hwf (chunks ?s)" using assms(4) by (simp add: put_header_def)
  then have "chunks_ok blocks X S ?s"
    using assms(2) old unfolding direct_inv_def chunks_ok_def eq by metis
  then show "direct_inv blocks X S 0 ?s"
    using assms(1,2) by (simp add: direct_inv_def extends_def put_header_def fresh_ids_def)
qed

lemma handle_view:
  assumes "chunk_data blocks X s = chunk_data blocks X s'" "refs_of s = refs_of s'"
  shows "handle_ok blocks X s h = handle_ok blocks X s' h" "handle_content blocks X s h = handle_content blocks X s' h"
  using assms by (simp_all add: handle_ok_def handle_content_def refs_ok_def)

text \<open>Going back to a header: the object map of the instance is read through its chunks.\<close>

lemma restore_header_ok:
  assumes "extends blocks r1 r2" "direct_inv blocks X S 0 (rstate r1)" "header_eq h (clone_header r1)" "hwf (hd_chunks h)"
    "hget (instances r1) (instance_id r1) = Some info" "handle_ok blocks X (rstate r1) (instance_objects info)"
    "fst (run_decoder slice_read (from_objects M) (handle_content blocks X (rstate r1) (instance_objects info))) = Ok m"
  shows "\<exists>s. read_object_map E M (put_header h r2) = (Ok m, (put_header h r2)\<lparr>rstate := s\<rparr>) \<and>
    store_eq blocks (rstate (put_header h r2)) s"
proof -
  note view = put_header_view [OF assms(1-4)]
  let ?r = "put_header h r2"
  have "hget (instances ?r) (instance_id ?r) = Some info"
    using assms(1,3,5) by (simp add: extends_def put_header_def header_eq_def clone_header_def)
  moreover obtain s where "with_object E (instance_objects info) (object_deserialize (ev_store E) X (from_objects M)) (rstate ?r) =
      (Ok m, instance_objects info, s)" "store_eq blocks (rstate ?r) s"
    using read_with_object [OF view(3), of "instance_objects info" "from_objects M"] assms(6,7)
      handle_view [OF view(1,2)] by auto
  ultimately show ?thesis by (intro exI [of _ s]) (simp add: read_object_map_def)
qed

lemma store_eq_refs: "store_eq blocks s s' \<Longrightarrow> refs_of s' = refs_of s"
  by (simp add: refs_of_def fun_eq_iff store_eq_fields)

lemma restore_header_run:
  assumes "extends blocks r1 r2" "direct_inv blocks X S 0 (rstate r1)" "header_eq h (clone_header r1)" "hwf (hd_chunks h)"
    "hget (instances r1) (instance_id r1) = Some info" "handle_ok blocks X (rstate r1) (instance_objects info)"
    "fst (run_decoder slice_read (from_objects M) (handle_content blocks X (rstate r1) (instance_objects info))) = Ok m"
  shows "\<exists>s as q. read_object_map E M (put_header h r2) = (Ok m, (put_header h r2)\<lparr>rstate := s\<rparr>) \<and>
    alloc_objects m ((put_header h r2)\<lparr>rstate := s\<rparr>) = (Ok as, q) \<and> staged m as q \<and>
    prepared blocks (put_header h r2) q \<and> (\<forall>a \<in> set (hvalues as). next_addr r2 \<le> a)"
proof -
  obtain s where s: "read_object_map E M (put_header h r2) = (Ok m, (put_header h r2)\<lparr>rstate := s\<rparr>)"
    "store_eq blocks (rstate (put_header h r2)) s"
    using restore_header_ok [OF assms] by blast
  let ?q = "(put_header h r2)\<lparr>rstate := s\<rparr>"
  have "addr_ok ?q" "\<forall>a \<in> set (hvalues (objects ?q)). a < next_addr ?q"
    using assms(1) by (simp_all add: extends_def put_header_def addr_ok_def)
  from staged_alloc [OF this, of m blocks] obtain as q where q: "alloc_objects m ?q = (Ok as, q)" "staged m as q"
    "prepared blocks ?q q" "\<forall>a \<in> set (hvalues as). next_addr r2 \<le> a"
    by (auto simp: put_header_def)
  obtain t hp n where t: "q = ?q\<lparr>rstate := t, heap := hp, next_addr := n\<rparr>" "store_eq blocks s t"
    "\<forall>a. a < next_addr ?q \<longrightarrow> hget hp a = hget (heap ?q) a" "next_addr ?q \<le> n" "\<forall>a \<in> dom (hget hp). a < n"
    using q(3) unfolding prepared_def by auto
  have "prepared blocks (put_header h r2) q"
    unfolding prepared_def using t store_eq_trans [OF s(2) t(2)]
    by (intro exI [of _ t] exI [of _ hp] exI [of _ n]) simp
  with s(1) q show ?thesis by blast
qed

text \<open>A rollback makes the objects of the committed header the objects of the repository.\<close>

lemma repo_rollback_run:
  assumes "committed blocks S E M r1" "extends blocks r1 r2"
  shows "\<exists>st h m as q. repo_rollback E M r2 = (Ok (), set_objects as q) \<and> blocks st = blocks (store (rstate r2)) \<and>
    header_eq h (clone_header r1) \<and> hwf (hd_chunks h) \<and> hget m = hget (handles_of r1) \<and> hwf m \<and> staged m as q \<and>
    prepared blocks (put_header h (r2\<lparr>rstate := (rstate r2)\<lparr>store := st\<rparr>\<rparr>)) q \<and> (\<forall>a \<in> set (hvalues as). next_addr r2 \<le> a)"
proof -
  obtain b h info m where c: "decoded blocks X (rstate r1) (md_header_id (metadata (rstate r1))) = Some b"
    "from_header E b = Some h" "header_eq h (clone_header r1)" "hwf (hd_chunks h)" "direct_inv blocks X S 0 (rstate r1)"
    "hget (instances r1) (instance_id r1) = Some info" "handle_ok blocks X (rstate r1) (instance_objects info)"
    "fst (run_decoder slice_read (from_objects M) (handle_content blocks X (rstate r1) (instance_objects info))) = Ok m"
    "hget m = hget (handles_of r1)" "hwf m"
    using assms(1) unfolding committed_def by blast
  have md: "metadata (rstate r2) = metadata (rstate r1)" using assms(2) by (simp add: extends_def)
  obtain st where st: "ds_read_block (ev_store E) (md_header_id (metadata (rstate r1))) (store (rstate r2)) =
      (Done (blocks (store (rstate r2)) (md_header_id (metadata (rstate r1)))), st)" "blocks st = blocks (store (rstate r2))"
    using read_reliable by blast
  let ?r = "r2\<lparr>rstate := (rstate r2)\<lparr>store := st\<rparr>\<rparr>"
  have ext: "extends blocks r1 ?r" using assms(2) st(2) by (simp add: extends_def addr_ok_def)
  obtain e where e: "blocks (store (rstate r2)) (md_header_id (metadata (rstate r1))) = Some e"
    "decode_with X (cfg (rstate r2)) (master_key (rstate r2)) e = Ok b"
    using extends_decoded [OF assms(2) c(1)] by (auto simp: decoded_def split: option.splits result.splits)
  have "on_state (read_header E) r2 = (Ok h, ?r)"
    using st(1) e c(2) md
    by (simp add: on_state_def read_header_def store_read_def store_result_def decode_data_def bindR_def)
  then have run: "repo_rollback E M r2 = restore_header E M h ?r"
    by (simp add: repo_rollback_def bindR_def)
  obtain s as q where q: "read_object_map E M (put_header h ?r) = (Ok m, (put_header h ?r)\<lparr>rstate := s\<rparr>)"
    "alloc_objects m ((put_header h ?r)\<lparr>rstate := s\<rparr>) = (Ok as, q)" "staged m as q"
    "prepared blocks (put_header h ?r) q" "\<forall>a \<in> set (hvalues as). next_addr r2 \<le> a"
    using restore_header_run [OF ext c(5,3,4,6-8)] by auto
  have "restore_header E M h ?r = (Ok (), set_objects as q)"
    using q(1,2) by (simp add: restore_header_def replace_header_def bindR_def)
  then show ?thesis using run st(2) c(3,4,9,10) q(3-5)
    by (intro exI [of _ st] exI [of _ h] exI [of _ m] exI [of _ as] exI [of _ q]) simp
qed

text \<open>The repository \<open>r\<close> is back at the header of \<open>r1\<close>.\<close>

lemma prepared_fields:
  assumes "prepared bl r q"
  shows "store_eq bl (rstate r) (rstate q)" "objects q = objects r" "clone_header q = clone_header r"
    "instance_id q = instance_id r" "transaction_id q = transaction_id r" "next_addr r \<le> next_addr q" "addr_ok q"
    "\<forall>a. a < next_addr r \<longrightarrow> hget (heap q) a = hget (heap r) a"
  using assms by (auto simp: prepared_def clone_header_def addr_ok_def store_eq_fields)

lemma prepared_extends:
  assumes "extends bl r1 r" "prepared bl r q"
  shows "extends bl r1 q"
  using assms(1) prepared_fields [OF assms(2)] store_eq_fields [OF prepared_fields(1) [OF assms(2)]]
  by (fastforce simp: extends_def)

lemma prepared_staged:
  assumes "staged m as r" "prepared bl r q"
  shows "staged m as q"
proof -
  note q = prepared_fields [OF assms(2)]
  have "a < next_addr r" if "(k, a) \<in> set as" for k a using assms(1) that by (force simp: staged_def hvalues_def)
  then have "map (\<lambda>(k, a). (k, hget (heap q) a)) as = map (\<lambda>(k, a). (k, hget (heap r) a)) as"
    using q(8) by (intro map_cong) auto
  then show ?thesis using assms(1) q(2,6) unfolding staged_def by (metis less_le_trans)
qed

lemma extends_install:
  assumes "extends bl r1 r" "staged m as r" "hwf m" "set old \<inter> set (hvalues as) = {}"
  shows "extends bl r1 (install old as r)"
  using assms(1) staged_installed(3,5) [OF assms(2) _ assms(3,4)] by (simp add: extends_def)

lemma back_view:
  assumes "extends blocks r1 r" "direct_inv blocks X S 0 (rstate r1)" "header_eq (clone_header r) (clone_header r1)"
    "hwf (chunks (rstate r))"
  shows "chunk_data blocks X (rstate r) = chunk_data blocks X (rstate r1)" "refs_of (rstate r) = refs_of (rstate r1)"
    "direct_inv blocks X S 0 (rstate r)"
  using put_header_view [OF assms(1-3)] assms(4) by (simp_all add: put_header_clone) (simp_all add: clone_header_def)

lemma repo_rollback_ok:
  assumes "committed blocks S E M r1" "extends blocks r1 r2"
  shows "\<exists>r3. repo_rollback E M r2 = (Ok (), r3) \<and> hget (handles_of r3) = hget (handles_of r1) \<and>
    header_eq (clone_header r3) (clone_header r1) \<and>
    chunk_data blocks X (rstate r3) = chunk_data blocks X (rstate r1)"
proof -
  obtain st h m as q where q: "repo_rollback E M r2 = (Ok (), set_objects as q)" "blocks st = blocks (store (rstate r2))"
    "header_eq h (clone_header r1)" "hwf (hd_chunks h)" "hget m = hget (handles_of r1)" "hwf m" "staged m as q"
    "prepared blocks (put_header h (r2\<lparr>rstate := (rstate r2)\<lparr>store := st\<rparr>\<rparr>)) q"
    using repo_rollback_run [OF assms] by blast
  have d: "direct_inv blocks X S 0 (rstate r1)" using assms(1) unfolding committed_def by blast
  have ext: "extends blocks r1 (put_header h (r2\<lparr>rstate := (rstate r2)\<lparr>store := st\<rparr>\<rparr>))"
    using assms(2) q(2) by (simp add: extends_def put_header_def addr_ok_def)
  have clone: "clone_header q = h" using prepared_fields(3) [OF q(8)] by (simp add: clone_header_put)
  then have "hwf (chunks (rstate q))" using q(4) by (auto simp: clone_header_def)
  from back_view(1) [OF prepared_extends [OF ext q(8)] d _ this] q(3)
  have "chunk_data blocks X (rstate q) = chunk_data blocks X (rstate r1)" by (simp add: clone)
  moreover have "handles_of (set_objects as q) = m"
    unfolding set_objects_install using prepared_fields(7) [OF q(8)] by (intro staged_installed(1) [OF q(7) _ q(6)]) auto
  ultimately show ?thesis using q(1,3,5) clone by (simp add: set_objects_install)
qed

lemma repo_savepoint_ok:
  assumes "writable blocks S E good N r info" "to_vec_objects M (handles_of r) = Some v"
    "overwrite 0 v (handle_content blocks X (rstate r) (instance_objects info)) \<in> S" "length v < 2 ^ 63"
    "rng (rstate r) + 2 * (2 * length (handle_content blocks X (rstate r) (instance_objects info)) + length v + 6) \<le> N"
  shows "\<exists>sp r'. repo_savepoint E M r = (Ok sp, r') \<and> snapshot blocks S E M r' \<and> handles_of r' = handles_of r \<and>
    sp = \<lparr>sp_header = clone_header r', sp_transaction = transaction_id r'\<rparr> \<and> transaction_id r' = transaction_id r \<and>
    rewritten blocks X S N info v r r' \<and> grows blocks X (rstate r) (rstate r') \<and>
    rng (rstate r') \<le> rng (rstate r) + 2 * (2 * length (handle_content blocks X (rstate r) (instance_objects info)) + length v + 6)"
proof -
  obtain h s where w: "write_object_map E M r = (Ok (), r\<lparr>rstate := s,
      instances := hput (instance_id r) (info\<lparr>instance_objects := h\<rparr>) (instances r)\<rparr>)" (is "_ = (_, ?r1)")
    "handle_id h = handle_id (instance_objects info)"
    "handle_ok blocks X s h" "handle_content blocks X s h = v" "direct_inv blocks X S N s" "grows blocks X (rstate r) s"
    "rng s \<le> rng (rstate r) + 2 * (2 * length (handle_content blocks X (rstate r) (instance_objects info)) + length v + 6)"
    using write_object_map_ok [OF assms] by auto
  obtain m where m: "fst (run_decoder slice_read (from_objects M) v) = Ok m" "hget m = hget (handles_of r)" "hwf m"
    using objects_codec [OF hwf_handles_of assms(2)] assms(1) unfolding writable_def by blast
  have handles: "handles_of ?r1 = handles_of r" by (simp add: handles_of_def deref_def)
  have "snapshot blocks S E M ?r1"
    unfolding snapshot_def using w m handles direct_inv_0 [OF w(5)]
    by (intro exI [of _ "info\<lparr>instance_objects := h\<rparr>"] exI [of _ m]) simp
  moreover have "rewritten blocks X S N info v r ?r1"
    unfolding rewritten_def using w(2-6) by (auto simp: grows_def same_rest_def)
  ultimately show ?thesis using w(1,6,7) handles by (simp add: repo_savepoint_def bindR_def)
qed

text \<open>Starting a restore prepares the objects and leaves the repository as it is.\<close>

lemma start_restore_ok:
  assumes "snapshot blocks S E M r1" "extends blocks r1 r2" "transaction_id r2 = transaction_id r1"
  shows "\<exists>k m q. start_restore E M \<lparr>sp_header = clone_header r1, sp_transaction = transaction_id r1\<rparr> r2 = (Ok k, q) \<and>
    kr_header k = clone_header r1 \<and> kr_transaction k = transaction_id r1 \<and> kr_instance k = instance_id r1 \<and>
    hget m = hget (handles_of r1) \<and> hwf m \<and> staged m (kr_objects k) q \<and> prepared blocks r2 q \<and>
    (\<forall>a \<in> set (hvalues (kr_objects k)). next_addr r2 \<le> a)"
proof -
  obtain info m where c: "direct_inv blocks X S 0 (rstate r1)"
    "hget (instances r1) (instance_id r1) = Some info" "handle_ok blocks X (rstate r1) (instance_objects info)"
    "fst (run_decoder slice_read (from_objects M) (handle_content blocks X (rstate r1) (instance_objects info))) = Ok m"
    "hget m = hget (handles_of r1)" "hwf m"
    using assms(1) unfolding snapshot_def by blast
  let ?h = "clone_header r1" and ?old = "clone_header r2"
  have wf: "hwf (hd_chunks ?h)" using c(1) by (simp add: clone_header_def direct_inv_def chunks_ok_def)
  obtain s as q where q: "read_object_map E M (put_header ?h r2) = (Ok m, (put_header ?h r2)\<lparr>rstate := s\<rparr>)"
    "alloc_objects m ((put_header ?h r2)\<lparr>rstate := s\<rparr>) = (Ok as, q)" "staged m as q"
    "prepared blocks (put_header ?h r2) q" "\<forall>a \<in> set (hvalues as). next_addr r2 \<le> a"
    using restore_header_run [OF assms(2) c(1) header_eq_refl wf c(2-4)] by blast
  obtain t hp n where t: "q = (put_header ?h r2)\<lparr>rstate := t, heap := hp, next_addr := n\<rparr>"
    "store_eq blocks (rstate (put_header ?h r2)) t"
    "\<forall>a. a < next_addr r2 \<longrightarrow> hget hp a = hget (heap r2) a" "next_addr r2 \<le> n" "\<forall>a \<in> dom (hget hp). a < n"
    using q(4) by (auto simp: prepared_def put_header_def)
  obtain st where st: "t = (rstate (put_header ?h r2))\<lparr>store := st\<rparr>" "blocks st = blocks (store (rstate r2))"
    using t(2) by (auto simp: store_eq_def put_header_def)
  have eq: "put_header ?old q = r2\<lparr>rstate := (rstate r2)\<lparr>store := st\<rparr>, heap := hp, next_addr := n\<rparr>" (is "_ = ?q")
    unfolding t(1) st(1) by (simp add: put_header_def clone_header_def)
  have "clone_header q = ?h" using prepared_fields(3) [OF q(4)] by (simp add: clone_header_put)
  then have "start_restore E M \<lparr>sp_header = ?h, sp_transaction = transaction_id r1\<rparr> r2 =
      (Ok \<lparr>kr_objects = as, kr_header = ?h, kr_transaction = transaction_id r1, kr_instance = instance_id r2\<rparr>, ?q)"
    using assms(3) q(1,2) eq
    by (simp add: start_restore_def savepoint_valid_def replace_header_def bindR_def)
  moreover have "instance_id r2 = instance_id r1" using assms(2) by (simp add: extends_def)
  moreover have "staged m as ?q" using q(3) by (simp add: staged_def t(1) put_header_def)
  moreover have "prepared blocks r2 ?q"
    unfolding prepared_def store_eq_def using st(2) t(3-5) by (intro exI conjI) (rule refl | assumption)+
  ultimately show ?thesis using c(5,6) q(5) by (intro exI conjI) (assumption | simp)+
qed

lemma repo_restore_ok:
  assumes "snapshot blocks S E M r1" "extends blocks r1 r2" "transaction_id r2 = transaction_id r1"
  shows "\<exists>r3. repo_restore E M \<lparr>sp_header = clone_header r1, sp_transaction = transaction_id r1\<rparr> r2 = (Ok (), r3) \<and>
    hget (handles_of r3) = hget (handles_of r1) \<and> clone_header r3 = clone_header r1 \<and>
    chunk_data blocks X (rstate r3) = chunk_data blocks X (rstate r1)"
proof -
  obtain k m q where q: "start_restore E M \<lparr>sp_header = clone_header r1, sp_transaction = transaction_id r1\<rparr> r2 = (Ok k, q)"
    "kr_header k = clone_header r1" "kr_transaction k = transaction_id r1" "kr_instance k = instance_id r1"
    "hget m = hget (handles_of r1)" "hwf m" "staged m (kr_objects k) q" "prepared blocks r2 q"
    using start_restore_ok [OF assms] by blast
  note p = prepared_fields [OF q(8)]
  let ?q = "put_header (clone_header r1) q"
  have d: "direct_inv blocks X S 0 (rstate r1)" using assms(1) unfolding snapshot_def by blast
  then have wf: "hwf (chunks (rstate ?q))" by (simp add: put_header_def clone_header_def direct_inv_def chunks_ok_def)
  have ext: "extends blocks r1 ?q"
    using prepared_extends [OF assms(2) q(8)] by (simp add: extends_def put_header_def addr_ok_def)
  have "chunk_data blocks X (rstate ?q) = chunk_data blocks X (rstate r1)"
    using back_view(1) [OF ext d _ wf] by (simp add: clone_header_put)
  moreover have "staged m (kr_objects k) ?q" "addr_ok ?q"
    using q(7) p(7) by (simp_all add: staged_def put_header_def addr_ok_def)
  then have "handles_of (set_objects (kr_objects k) ?q) = m"
    unfolding set_objects_install by (intro staged_installed(1) [OF _ _ q(6)]) auto
  moreover have "finish_restore k q = (Ok True, set_objects (kr_objects k) ?q)"
    using q(2-4) p(4,5) assms(2,3) by (simp add: finish_restore_def extends_def)
  ultimately show ?thesis using q(1,5)
    by (simp add: repo_restore_def bindR_def set_objects_install clone_header_put)
qed

end

end
