(* ===== verification/Repo_Objects.thy ===== *)
theory Repo_Objects
  imports Repo_Correct
begin

text \<open>
  The objects of a repository as a map from keys to contents: inserting, removing and copying an
  object, and serializing into it, change the map at one key and keep the repository well-formed.
\<close>

section \<open>References to chunks\<close>

definition drop_ref :: "u64 \<Rightarrow> chunk_info option \<Rightarrow> chunk_info option" where
  "drop_ref hid x = (case x of
      None \<Rightarrow> None
    | Some info \<Rightarrow> if references info - {hid} = {} then None else Some (info\<lparr>references := references info - {hid}\<rparr>))"

text \<open>
  When the references of a handle can be removed one by one: a chunk that occurs more than once must
  be referenced by another handle too, since it is removed with its last reference.
\<close>

definition removable :: "'s repo_state \<Rightarrow> u64 \<Rightarrow> chunk list \<Rightarrow> bool" where
  "removable s hid cs \<longleftrightarrow>
     (\<forall>c \<in> set cs. hget (chunks s) c \<noteq> None \<and> (count_list cs c \<le> 1 \<or> \<not> refs_of s c \<subseteq> {hid}))"

lemma drop_ref_idem [simp]: "drop_ref hid (drop_ref hid x) = drop_ref hid x"
  by (auto simp: drop_ref_def split: option.split)

lemma remove_reference_step:
  assumes "hget (chunks s) c = Some info"
  shows "\<exists>m. remove_reference hid c s = (Ok (), s\<lparr>chunks := m\<rparr>) \<and> (hwf (chunks s) \<longrightarrow> hwf m) \<and>
    hget m = (hget (chunks s))(c := drop_ref hid (hget (chunks s) c))"
proof -
  let ?refs = "references info - {hid}"
  let ?m = "if ?refs = {} then hdel c (chunks s) else hput c (info\<lparr>references := ?refs\<rparr>) (chunks s)"
  have "remove_reference hid c s = (Ok (), s\<lparr>chunks := ?m\<rparr>)" by (simp add: remove_reference_def assms Let_def)
  moreover have "hget ?m = (hget (chunks s))(c := drop_ref hid (hget (chunks s) c))" by (auto simp: drop_ref_def assms fun_eq_iff)
  moreover have "hwf (chunks s) \<longrightarrow> hwf ?m" by simp
  ultimately show ?thesis by blast
qed

lemma count_list_pos: "c \<in> set cs \<longleftrightarrow> 0 < count_list cs c"
  by (induction cs) auto

lemma removable_distinct:
  assumes "distinct cs" "\<forall>c \<in> set cs. hget (chunks s) c \<noteq> None"
  shows "removable s hid cs"
proof -
  have "distinct cs \<Longrightarrow> count_list cs c \<le> 1" for c
    by (induction cs) (auto simp: count_list_0_iff)
  with assms show ?thesis by (simp add: removable_def)
qed

lemma remove_references_ok:
  assumes "removable s hid cs" "hwf (chunks s)"
  shows "\<exists>m. forM cs (remove_reference hid) s = (Ok (), s\<lparr>chunks := m\<rparr>) \<and> hwf m \<and>
    hget m = (\<lambda>c. if c \<in> set cs then drop_ref hid (hget (chunks s) c) else hget (chunks s) c)"
  using assms
proof (induction cs arbitrary: s)
  case Nil
  then show ?case by (intro exI [of _ "chunks s"]) simp
next
  case (Cons c cs)
  then obtain info where info: "hget (chunks s) c = Some info" by (auto simp: removable_def)
  from remove_reference_step [OF info, of hid] obtain m where m:
    "remove_reference hid c s = (Ok (), s\<lparr>chunks := m\<rparr>)" "hwf m"
    "hget m = (hget (chunks s))(c := drop_ref hid (hget (chunks s) c))" using Cons.prems(2) by auto
  have "removable (s\<lparr>chunks := m\<rparr>) hid cs"
    unfolding removable_def
  proof (intro ballI)
    fix d assume d: "d \<in> set cs"
    show "hget (chunks (s\<lparr>chunks := m\<rparr>)) d \<noteq> None \<and> (count_list cs d \<le> 1 \<or> \<not> refs_of (s\<lparr>chunks := m\<rparr>) d \<subseteq> {hid})"
    proof (cases "d = c")
      case True
      then have "0 < count_list cs c" using d count_list_pos [of c cs] by simp
      then have "\<not> references info \<subseteq> {hid}"
        using Cons.prems(1) info unfolding removable_def refs_of_def by auto
      then show ?thesis using True info m(3) by (auto simp: drop_ref_def refs_of_def)
    next
      case False
      then show ?thesis using Cons.prems(1) d m(3) unfolding removable_def refs_of_def by (auto split: if_splits)
    qed
  qed
  moreover have "hwf (chunks (s\<lparr>chunks := m\<rparr>))" using m(2) by simp
  ultimately obtain m' where m': "forM cs (remove_reference hid) (s\<lparr>chunks := m\<rparr>) = (Ok (), (s\<lparr>chunks := m\<rparr>)\<lparr>chunks := m'\<rparr>)"
    "hwf m'" "hget m' = (\<lambda>c. if c \<in> set cs then drop_ref hid (hget (chunks (s\<lparr>chunks := m\<rparr>)) c)
       else hget (chunks (s\<lparr>chunks := m\<rparr>)) c)"
    using Cons.IH by blast
  have "hget m' = (\<lambda>d. if d \<in> set (c # cs) then drop_ref hid (hget (chunks s) d) else hget (chunks s) d)"
    unfolding m'(3) using m(3) by (auto simp: fun_eq_iff)
  with m(1) m'(1,2) show ?case by (intro exI [of _ m']) (simp add: bindR_def)
qed

lemma remove_references_panic:
  assumes "\<not> removable s hid cs"
  shows "\<exists>s'. forM cs (remove_reference hid) s = (Panic ''This chunk was not found in the repository.'', s')"
  using assms
proof (induction cs arbitrary: s)
  case (Cons c cs)
  show ?case
  proof (cases "hget (chunks s) c")
    case None
    then show ?thesis by (auto simp: remove_reference_def bindR_def)
  next
    case (Some info)
    from remove_reference_step [OF this, of hid] obtain m where m:
      "remove_reference hid c s = (Ok (), s\<lparr>chunks := m\<rparr>)"
      "hget m = (hget (chunks s))(c := drop_ref hid (hget (chunks s) c))" by blast
    have "\<not> removable (s\<lparr>chunks := m\<rparr>) hid cs"
    proof
      assume "removable (s\<lparr>chunks := m\<rparr>) hid cs"
      then have rest: "hget m d \<noteq> None" "count_list cs d \<le> 1 \<or> \<not> refs_of (s\<lparr>chunks := m\<rparr>) d \<subseteq> {hid}" if "d \<in> set cs" for d
        using that by (auto simp: removable_def)
      have "hget (chunks s) d \<noteq> None \<and> (count_list (c # cs) d \<le> 1 \<or> \<not> refs_of s d \<subseteq> {hid})"
        if d: "d \<in> set (c # cs)" for d
      proof (cases "d = c")
        case True
        show ?thesis
        proof (cases "c \<in> set cs")
          case in_cs: True
          then have "\<not> references info \<subseteq> {hid}"
            using rest(1) [OF in_cs] m(2) Some by (auto simp: drop_ref_def)
          then show ?thesis using True Some by (simp add: refs_of_def)
        qed (use True Some in \<open>simp add: count_list_0_iff\<close>)
      next
        case False
        then show ?thesis using d rest [of d] m(2) by (auto simp: refs_of_def)
      qed
      with Cons.prems show False unfolding removable_def by blast
    qed
    with Cons.IH m(1) show ?thesis by (simp add: bindR_def)
  qed
qed (simp add: removable_def)

lemma add_references_ok:
  assumes "\<forall>c \<in> set cs. hget (chunks s) c \<noteq> None" "hwf (chunks s)"
  shows "\<exists>m. forM cs (add_reference hid) s = (Ok (), s\<lparr>chunks := m\<rparr>) \<and> hwf m \<and>
    hget m = (\<lambda>c. if c \<in> set cs then map_option (\<lambda>info. info\<lparr>references := insert hid (references info)\<rparr>) (hget (chunks s) c)
                else hget (chunks s) c)"
  using assms
proof (induction cs arbitrary: s)
  case Nil
  then show ?case by (intro exI [of _ "chunks s"]) simp
next
  case (Cons c cs)
  then obtain info where info: "hget (chunks s) c = Some info" by auto
  let ?m = "hput c (info\<lparr>references := insert hid (references info)\<rparr>) (chunks s)"
  have step: "add_reference hid c s = (Ok (), s\<lparr>chunks := ?m\<rparr>)" by (simp add: add_reference_def info)
  have known: "\<forall>d \<in> set cs. hget ?m d \<noteq> None" using Cons.prems(1) by simp
  obtain m' where m': "forM cs (add_reference hid) (s\<lparr>chunks := ?m\<rparr>) = (Ok (), s\<lparr>chunks := m'\<rparr>)" "hwf m'"
    "hget m' = (\<lambda>c. if c \<in> set cs then map_option (\<lambda>info. info\<lparr>references := insert hid (references info)\<rparr>) (hget ?m c)
       else hget ?m c)"
    using Cons.IH [of "s\<lparr>chunks := ?m\<rparr>"] known Cons.prems(2) hwf_hput by fastforce
  have "hget m' = (\<lambda>d. if d \<in> set (c # cs) then map_option (\<lambda>info. info\<lparr>references := insert hid (references info)\<rparr>) (hget (chunks s) d)
      else hget (chunks s) d)"
    unfolding m'(3) using info by (auto simp: fun_eq_iff)
  with step m' show ?case by (intro exI [of _ m']) (simp add: bindR_def)
qed

section \<open>Handles under changes of the references\<close>

lemma content_cong: "(\<And>c. EChunk c \<in> set es \<Longrightarrow> V c = W c) \<Longrightarrow> content V es = content W es"
  by (induction es) (auto simp: ebytes_def split: extent.split)

lemma handle_ok_cong:
  assumes "handle_ok bl X s h" "\<And>c. c \<in> set (handle_chunks h) \<Longrightarrow> chunk_data bl X s' c = chunk_data bl X s c"
    "\<And>c. c \<in> set (handle_chunks h) \<Longrightarrow> handle_id h \<in> refs_of s' c"
  shows "handle_ok bl X s' h" "handle_content bl X s' h = handle_content bl X s h"
proof -
  have "handle_chunks h = extent_chunks (extents h)" by (simp add: handle_chunks_def)
  then have mem: "EChunk c \<in> set (extents h) \<longleftrightarrow> c \<in> set (handle_chunks h)" for c by (simp add: set_extent_chunks)
  show "handle_ok bl X s' h" using assms mem unfolding handle_ok_def extents_ok_def refs_ok_def by auto
  show "handle_content bl X s' h = handle_content bl X s h"
    unfolding handle_content_def by (rule content_cong) (use assms(2) mem in auto)
qed

lemma handle_chunk_known:
  assumes "handle_ok bl X s h" "c \<in> set (handle_chunks h)"
  shows "\<exists>info. hget (chunks s) c = Some info \<and> handle_id h \<in> references info"
  using assms unfolding handle_ok_def refs_ok_def refs_of_def by (auto split: option.splits)

lemma handle_removable:
  "handle_ok bl X s h \<Longrightarrow> distinct (handle_chunks h) \<Longrightarrow> removable s (handle_id h) (handle_chunks h)"
  by (rule removable_distinct) (auto dest: handle_chunk_known)

text \<open>The blocks of a state whose chunks are a part of the old ones.\<close>

lemma fewer_chunks_inv:
  assumes "direct_inv bl X S N s" "hwf m" "\<And>c i. hget m c = Some i \<Longrightarrow> \<exists>j. hget (chunks s) c = Some j \<and> block_id i = block_id j"
  shows "direct_inv bl X S N (s\<lparr>chunks := m\<rparr>)"
proof -
  have dec: "decoded bl X (s\<lparr>chunks := m\<rparr>) = decoded bl X s" by (intro ext decoded_cong) simp_all
  have "chunks_ok bl X S (s\<lparr>chunks := m\<rparr>)"
    unfolding chunks_ok_def dec
  proof (intro conjI allI impI)
    show "hwf (chunks (s\<lparr>chunks := m\<rparr>))" using assms(2) by simp
  next
    fix c i assume "hget (chunks (s\<lparr>chunks := m\<rparr>)) c = Some i"
    then have "hget m c = Some i" by simp
    with assms(3) obtain j where j: "hget (chunks s) c = Some j" "block_id i = block_id j" by blast
    with assms(1) show "block_id i \<notin> reserved_ids" "\<exists>d\<in>S. decoded bl X s (block_id i) = Some d \<and> length d = c_size c \<and>
        length d < 2 ^ 32 \<and> chunk_hash X d = c_hash c"
      unfolding direct_inv_def chunks_ok_def by auto
  qed
  with assms(1) show ?thesis by (simp add: direct_inv_def fresh_ids_def)
qed

lemma chunk_data_same_block:
  assumes "hget m c = Some i" "hget (chunks s) c = Some j" "block_id i = block_id j"
  shows "chunk_data bl X (s\<lparr>chunks := m\<rparr>) c = chunk_data bl X s c"
  using assms decoded_cong [of "s\<lparr>chunks := m\<rparr>" s bl "block_id j" X] by (simp add: chunk_data_def)

lemma drop_references_view:
  assumes "direct_inv bl X S N s" "hwf m"
    "hget m = (\<lambda>c. if c \<in> set cs then drop_ref hid (hget (chunks s) c) else hget (chunks s) c)"
  shows "direct_inv bl X S N (s\<lparr>chunks := m\<rparr>)"
    and "handle_ok bl X s h \<Longrightarrow> handle_id h \<noteq> hid \<Longrightarrow>
      handle_ok bl X (s\<lparr>chunks := m\<rparr>) h \<and> handle_content bl X (s\<lparr>chunks := m\<rparr>) h = handle_content bl X s h"
proof -
  have get: "hget m c = (if c \<in> set cs then drop_ref hid (hget (chunks s) c) else hget (chunks s) c)" for c
    using assms(3) by simp
  show "direct_inv bl X S N (s\<lparr>chunks := m\<rparr>)"
    by (rule fewer_chunks_inv [OF assms(1,2)]) (auto simp: get drop_ref_def split: if_splits option.splits)
  assume h: "handle_ok bl X s h" "handle_id h \<noteq> hid"
  have kept: "\<exists>i j. hget m c = Some i \<and> hget (chunks s) c = Some j \<and> block_id i = block_id j \<and> handle_id h \<in> references i"
    if "c \<in> set (handle_chunks h)" for c
    using handle_chunk_known [OF h(1) that] h(2) by (auto simp: get drop_ref_def)
  have "chunk_data bl X (s\<lparr>chunks := m\<rparr>) c = chunk_data bl X s c" "handle_id h \<in> refs_of (s\<lparr>chunks := m\<rparr>) c"
    if "c \<in> set (handle_chunks h)" for c
    using kept [OF that] chunk_data_same_block [of m c _ s] by (auto simp: refs_of_def)
  with handle_ok_cong [OF h(1), of "s\<lparr>chunks := m\<rparr>"]
  show "handle_ok bl X (s\<lparr>chunks := m\<rparr>) h \<and> handle_content bl X (s\<lparr>chunks := m\<rparr>) h = handle_content bl X s h" by blast
qed

lemma add_references_view:
  assumes "direct_inv bl X S N s" "hwf m"
    "hget m = (\<lambda>c. if c \<in> set cs then map_option (\<lambda>info. info\<lparr>references := insert hid (references info)\<rparr>) (hget (chunks s) c)
       else hget (chunks s) c)"
  shows "direct_inv bl X S N (s\<lparr>chunks := m\<rparr>)" "grows bl X s (s\<lparr>chunks := m\<rparr>)"
    "\<And>c. c \<in> set cs \<Longrightarrow> hget (chunks s) c \<noteq> None \<Longrightarrow> hid \<in> refs_of (s\<lparr>chunks := m\<rparr>) c"
proof -
  have get: "hget m c = (if c \<in> set cs then map_option (\<lambda>info. info\<lparr>references := insert hid (references info)\<rparr>) (hget (chunks s) c)
      else hget (chunks s) c)" for c
    using assms(3) by simp
  show "direct_inv bl X S N (s\<lparr>chunks := m\<rparr>)"
    by (rule fewer_chunks_inv [OF assms(1,2)]) (auto simp: get split: if_splits)
  have data: "chunk_data bl X (s\<lparr>chunks := m\<rparr>) c = chunk_data bl X s c" for c
  proof (cases "hget (chunks s) c")
    case None
    then show ?thesis by (simp add: chunk_data_def get)
  next
    case (Some j)
    then have "\<exists>i. hget m c = Some i \<and> block_id i = block_id j" by (simp add: get)
    with Some show ?thesis by (blast intro: chunk_data_same_block)
  qed
  show "grows bl X s (s\<lparr>chunks := m\<rparr>)"
    unfolding grows_def data by (auto simp: same_rest_def refs_of_def get split: option.splits)
  show "\<And>c. c \<in> set cs \<Longrightarrow> hget (chunks s) c \<noteq> None \<Longrightarrow> hid \<in> refs_of (s\<lparr>chunks := m\<rparr>) c"
    by (auto simp: refs_of_def get)
qed

section \<open>The invariant of a repository\<close>

text \<open>Room for \<open>n\<close> more IDs.\<close>

definition ids_left :: "nat \<Rightarrow> id_table \<Rightarrow> bool" where
  "ids_left n t \<longleftrightarrow> unat (highest t) + n < 2 ^ 64"

lemma ids_left_next:
  assumes "ids_left (Suc n) t" "id_inv t" "id_next t = (i, t')"
  shows "i \<notin> id_live t" "id_live t' = insert i (id_live t)" "id_inv t'" "ids_left n t'"
proof -
  have "highest t \<noteq> - 1" using assms(1) by (auto simp: ids_left_def unsigned_minus_1_eq_mask mask_eq_exp_minus_1)
  then have "id_room t" by (simp add: id_room_def)
  with id_next_spec [OF assms(2) _ assms(3)]
  show "i \<notin> id_live t" "id_live t' = insert i (id_live t)" "id_inv t'" by blast+
  have "unat (highest t + 1) = unat (highest t) + 1" using word_inc_nowrap(1) [OF \<open>highest t \<noteq> - 1\<close>] by simp
  then show "ids_left n t'" using assms(1,3) by (auto simp: ids_left_def id_next_def split: list.splits)
qed

lemma ids_left_recycle: "ids_left n t \<Longrightarrow> ids_left n (snd (id_recycle i t))"
  by (simp add: ids_left_def id_recycle_def)

definition repo_map :: "('s \<Rightarrow> uuid \<rightharpoonup> bytes) \<Rightarrow> ext \<Rightarrow> ('k, 's) key_repo \<Rightarrow> 'k \<rightharpoonup> bytes" where
  "repo_map bl X r k = map_option (handle_content bl X (rstate r)) (hget (handles_of r) k)"

text \<open>
  Every key has a handle on the heap, which is well-formed and has an allocated ID of its own; so have
  the object maps of the instances.
\<close>

definition repo_inv :: "('s \<Rightarrow> uuid \<rightharpoonup> bytes) \<Rightarrow> ext \<Rightarrow> bytes set \<Rightarrow> nat \<Rightarrow> ('k, 's) key_repo \<Rightarrow> bool" where
  "repo_inv bl X S N r \<longleftrightarrow> direct_inv bl X S N (rstate r) \<and> hwf (objects r) \<and> addr_ok r \<and> id_inv (handle_table r) \<and>
     (\<forall>k a. hget (objects r) k = Some a \<longrightarrow> hget (heap r) a \<noteq> None) \<and>
     (\<forall>k h. hget (handles_of r) k = Some h \<longrightarrow> handle_ok bl X (rstate r) h \<and> handle_id h \<in> id_live (handle_table r)) \<and>
     (\<forall>k k' h h'. hget (handles_of r) k = Some h \<longrightarrow> hget (handles_of r) k' = Some h' \<longrightarrow> handle_id h = handle_id h' \<longrightarrow> k = k') \<and>
     (\<forall>i info. hget (instances r) i = Some info \<longrightarrow> handle_ok bl X (rstate r) (instance_objects info) \<and>
        handle_id (instance_objects info) \<in> id_live (handle_table r) \<and>
        (\<forall>k h. hget (handles_of r) k = Some h \<longrightarrow> handle_id h \<noteq> handle_id (instance_objects info)))"

text \<open>What the operations on objects leave alone.\<close>

definition repo_step :: "('s \<Rightarrow> uuid \<rightharpoonup> bytes) \<Rightarrow> ('k, 's) key_repo \<Rightarrow> ('k, 's) key_repo \<Rightarrow> bool" where
  "repo_step bl r r' \<longleftrightarrow> same_rest (rstate r) (rstate r') \<and> instance_id r' = instance_id r \<and> instances r' = instances r \<and>
     transaction_id r' = transaction_id r \<and> next_addr r \<le> next_addr r' \<and> rng (rstate r) \<le> rng (rstate r') \<and>
     (\<forall>i e. bl (store (rstate r)) i = Some e \<longrightarrow> bl (store (rstate r')) i = Some e)"

lemma repo_step_refl [simp]: "repo_step bl r r"
  by (simp add: repo_step_def)

lemma repo_step_trans: "repo_step bl r r' \<Longrightarrow> repo_step bl r' r'' \<Longrightarrow> repo_step bl r r''"
  unfolding repo_step_def by (auto intro: same_rest_trans)

lemma repo_invD:
  assumes "repo_inv bl X S N r"
  shows "direct_inv bl X S N (rstate r)" "hwf (objects r)" "addr_ok r" "id_inv (handle_table r)"
    "\<And>k a. hget (objects r) k = Some a \<Longrightarrow> hget (heap r) a \<noteq> None"
    "\<And>k h. hget (handles_of r) k = Some h \<Longrightarrow> handle_ok bl X (rstate r) h \<and> handle_id h \<in> id_live (handle_table r)"
    "\<And>k k' h h'. hget (handles_of r) k = Some h \<Longrightarrow> hget (handles_of r) k' = Some h' \<Longrightarrow> handle_id h = handle_id h' \<Longrightarrow> k = k'"
    "\<And>i info. hget (instances r) i = Some info \<Longrightarrow> handle_ok bl X (rstate r) (instance_objects info) \<and>
        handle_id (instance_objects info) \<in> id_live (handle_table r) \<and>
        (\<forall>k h. hget (handles_of r) k = Some h \<longrightarrow> handle_id h \<noteq> handle_id (instance_objects info))"
  using assms unfolding repo_inv_def by blast+

text \<open>Two keys never share a handle.\<close>

lemma repo_inv_addr:
  assumes "repo_inv bl X S N r" "hget (objects r) k = Some a" "hget (objects r) k' = Some a"
  shows "k = k'"
proof -
  have "hget (handles_of r) k = Some (deref r a)" "hget (handles_of r) k' = Some (deref r a)"
    using assms(2,3) by (simp_all add: hget_handles_of)
  then show ?thesis using repo_invD(7) [OF assms(1)] by blast
qed

lemma repo_inv_cong:
  assumes "repo_inv bl X S N r" "rstate r' = rstate r" "handle_table r' = handle_table r" "instances r' = instances r"
    "objects r' = objects r" "heap r' = heap r" "next_addr r' = next_addr r"
  shows "repo_inv bl X S N r'"
proof -
  have "handles_of r' = handles_of r" using assms by (simp add: handles_of_def deref_def)
  then show ?thesis using assms by (simp add: repo_inv_def addr_ok_def)
qed

section \<open>Removing\<close>

lemma repo_remove_ok:
  assumes inv: "repo_inv bl X S N r" and k: "hget (handles_of r) k = Some h"
    and rem: "removable (rstate r) (handle_id h) (handle_chunks h)"
  shows "\<exists>r'. repo_remove k r = (Ok True, r') \<and> repo_inv bl X S N r' \<and> repo_step bl r r' \<and>
    hget (handles_of r') = (hget (handles_of r))(k := None) \<and> repo_map bl X r' = (repo_map bl X r)(k := None) \<and>
    objects r' = hdel k (objects r) \<and> rng (rstate r') = rng (rstate r) \<and>
    (\<forall>n. ids_left n (handle_table r) \<longrightarrow> ids_left n (handle_table r')) \<and>
    (\<forall>g. handle_ok bl X (rstate r) g \<and> handle_id g \<noteq> handle_id h \<longrightarrow>
       handle_ok bl X (rstate r') g \<and> handle_content bl X (rstate r') g = handle_content bl X (rstate r) g)"
proof -
  note I = repo_invD [OF inv]
  obtain a where a: "hget (objects r) k = Some a" "h = deref r a" using k by (auto simp: hget_handles_of)
  obtain m where m: "forM (handle_chunks h) (remove_reference (handle_id h)) (rstate r) = (Ok (), (rstate r)\<lparr>chunks := m\<rparr>)"
    "hwf m" "hget m = (\<lambda>c. if c \<in> set (handle_chunks h) then drop_ref (handle_id h) (hget (chunks (rstate r)) c)
       else hget (chunks (rstate r)) c)"
    using remove_references_ok [OF rem] I(1) by (auto simp: direct_inv_def chunks_ok_def)
  note view = drop_references_view [OF I(1) m(2,3)]
  let ?s = "(rstate r)\<lparr>chunks := m\<rparr>" and ?t = "snd (id_recycle (handle_id h) (handle_table r))"
  let ?r = "free_handles [a] (r\<lparr>objects := hdel k (objects r), rstate := ?s, handle_table := ?t\<rparr>)"
  have run: "repo_remove k r = (Ok True, ?r)"
    using a m(1) by (simp add: repo_remove_def remove_handle_def on_state_def bindR_def)
  have live: "id_live ?t = id_live (handle_table r) - {handle_id h}" "id_inv ?t"
    using id_recycle_live [OF I(4)] I(6) [OF k] by (metis snd_conv)+
  have heap: "hget (heap ?r) b = (if b = a then None else hget (heap r) b)" for b
    by (simp add: free_handles_def)
  have obj: "objects ?r = hdel k (objects r)" by (simp add: free_handles_def)
  have other: "b \<noteq> a" if "hget (objects r) j = Some b" "j \<noteq> k" for j b
    using repo_inv_addr [OF inv a(1)] that by blast
  have handles: "hget (handles_of ?r) = (hget (handles_of r))(k := None)"
    using other by (auto simp: hget_handles_of obj fun_eq_iff deref_def heap map_option_case split: option.split)
  have ids: "handle_id g \<noteq> handle_id h" if "hget (handles_of r) j = Some g" "j \<noteq> k" for j g
    using I(7) [OF k that(1)] that(2) by metis
  have kept: "handle_ok bl X ?s g \<and> handle_content bl X ?s g = handle_content bl X (rstate r) g"
    if "handle_ok bl X (rstate r) g" "handle_id g \<noteq> handle_id h" for g
    using view(2) that by blast
  have st: "rstate ?r = ?s" "handle_table ?r = ?t" "instances ?r = instances r" "instance_id ?r = instance_id r"
    "next_addr ?r = next_addr r" "transaction_id ?r = transaction_id r" by (simp_all add: free_handles_def)
  have inst: "handle_id (instance_objects info) \<noteq> handle_id h" if "hget (instances r) i = Some info" for i info
    using I(8) [OF that] k by metis
  have "repo_inv bl X S N ?r"
    unfolding repo_inv_def st handles
  proof (intro conjI allI impI)
    show "hwf (objects ?r)" using I(2) by (simp add: obj)
    show "addr_ok ?r" using I(3) by (auto simp: addr_ok_def heap st(5) split: if_splits)
  next
    fix j b assume "hget (objects ?r) j = Some b"
    then have "hget (objects r) j = Some b" "j \<noteq> k" by (auto simp: obj split: if_splits)
    with other I(5) show "hget (heap ?r) b \<noteq> None" by (auto simp: heap)
  next
    fix j g assume "((hget (handles_of r))(k := None)) j = Some g"
    then have g: "hget (handles_of r) j = Some g" "j \<noteq> k" by (auto split: if_splits)
    with I(6) [OF g(1)] kept ids live show "handle_ok bl X ?s g" "handle_id g \<in> id_live ?t" by auto
  qed (use view(1) live I(7,8) inst kept in \<open>auto split: if_splits\<close>)
  moreover have "repo_step bl r ?r" by (simp add: repo_step_def st same_rest_def)
  moreover have "repo_map bl X ?r = (repo_map bl X r)(k := None)"
  proof
    fix j show "repo_map bl X ?r j = ((repo_map bl X r)(k := None)) j"
      unfolding repo_map_def handles st
      using I(6) [of j] ids [of j] kept by (cases "hget (handles_of r) j") auto
  qed
  ultimately show ?thesis using run handles obj kept st ids_left_recycle
    by (intro exI [of _ ?r] conjI) (simp_all add: st fun_eq_iff)
qed

text \<open>Exactly the handles that are not removable make the removal panic.\<close>

lemma repo_remove_panic:
  assumes "hget (handles_of r) k = Some h" "\<not> removable (rstate r) (handle_id h) (handle_chunks h)"
  shows "\<exists>r'. repo_remove k r = (Panic ''This chunk was not found in the repository.'', r')"
proof -
  obtain a where a: "hget (objects r) k = Some a" "h = deref r a" using assms(1) by (auto simp: hget_handles_of)
  obtain s where "forM (handle_chunks h) (remove_reference (handle_id h)) (rstate r) =
      (Panic ''This chunk was not found in the repository.'', s)"
    using remove_references_panic [OF assms(2)] by blast
  with a show ?thesis by (simp add: repo_remove_def remove_handle_def on_state_def bindR_def)
qed

section \<open>Adding handles\<close>

text \<open>A new handle under a key that has none.\<close>

lemma add_handle_ok:
  assumes inv: "repo_inv bl X S N r" and new: "hget (objects r) k = None"
    and s: "direct_inv bl X S N s" "grows bl X (rstate r) s" "handle_ok bl X s \<lparr>handle_id = i, extents = es\<rparr>"
    and t: "i \<notin> id_live (handle_table r)" "id_live t = insert i (id_live (handle_table r))" "id_inv t"
  defines "h \<equiv> \<lparr>handle_id = i, extents = es\<rparr>" and "a \<equiv> next_addr r"
  defines "r' \<equiv> r\<lparr>rstate := s, handle_table := t, heap := hput a h (heap r), next_addr := Suc a, objects := hput k a (objects r)\<rparr>"
  shows "repo_inv bl X S N r'" "repo_step bl r r'" "hget (handles_of r') = (hget (handles_of r))(k \<mapsto> h)"
    "repo_map bl X r' = (repo_map bl X r)(k \<mapsto> handle_content bl X s h)"
proof -
  note I = repo_invD [OF inv]
  have fresh: "hget (heap r) a = None" using I(3) by (auto simp: addr_ok_def a_def)
  have other: "b \<noteq> a" if "hget (objects r) j = Some b" for j b using I(5) [OF that] fresh by auto
  show handles: "hget (handles_of r') = (hget (handles_of r))(k \<mapsto> h)"
  proof
    fix j show "hget (handles_of r') j = ((hget (handles_of r))(k \<mapsto> h)) j"
      using other [of j] by (cases "hget (objects r) j") (auto simp: hget_handles_of r'_def deref_def)
  qed
  have kept: "handle_ok bl X s g \<and> handle_content bl X s g = handle_content bl X (rstate r) g"
    if "handle_ok bl X (rstate r) g" for g using handle_ok_grows [OF that s(2)] by blast
  have st: "rstate r' = s" "handle_table r' = t" "instances r' = instances r" "handle_id h = i"
    by (simp_all add: r'_def h_def)
  have old: "handle_id g \<noteq> i" if "hget (handles_of r) j = Some g" for j g using I(6) [OF that] t(1) by auto
  have inst: "handle_id (instance_objects info) \<noteq> i" if "hget (instances r) c = Some info" for c info
    using I(8) [OF that] t(1) by auto
  show "repo_inv bl X S N r'"
    unfolding repo_inv_def handles st
  proof (intro conjI allI impI)
    show "hwf (objects r')" using I(2) by (simp add: r'_def)
    show "addr_ok r'" using I(3) by (auto simp: addr_ok_def r'_def a_def less_Suc_eq)
  next
    fix j b assume "hget (objects r') j = Some b"
    with I(5) show "hget (heap r') b \<noteq> None" by (auto simp: r'_def split: if_splits)
  next
    fix j g assume "((hget (handles_of r))(k \<mapsto> h)) j = Some g"
    with I(6) [of j g] kept s(3) t show "handle_ok bl X s g" "handle_id g \<in> id_live t"
      by (auto simp: h_def split: if_splits)
  next
    fix j j' g g' assume "((hget (handles_of r))(k \<mapsto> h)) j = Some g" "((hget (handles_of r))(k \<mapsto> h)) j' = Some g'"
      "handle_id g = handle_id g'"
    then show "j = j'" using I(7) old st(4) by (metis fun_upd_apply option.inject)
  next
    fix c info j g assume "hget (instances r) c = Some info" "((hget (handles_of r))(k \<mapsto> h)) j = Some g"
    then show "handle_id g \<noteq> handle_id (instance_objects info)"
      using I(8) inst [of c info] st(4) by (metis fun_upd_apply option.inject)
  qed (use s(1) t I(8) kept in auto)
  show "repo_step bl r r'" using s(2) by (simp add: repo_step_def r'_def a_def grows_def)
  show "repo_map bl X r' = (repo_map bl X r)(k \<mapsto> handle_content bl X s h)"
  proof
    fix j show "repo_map bl X r' j = ((repo_map bl X r)(k \<mapsto> handle_content bl X s h)) j"
      unfolding repo_map_def handles st using I(6) [of j] kept by (cases "hget (handles_of r) j") auto
  qed
qed

text \<open>A key that can get a new object: it has none, or one that can be removed.\<close>

definition replaceable :: "('k, 's) key_repo \<Rightarrow> 'k \<Rightarrow> bool" where
  "replaceable r k \<longleftrightarrow> (\<forall>h. hget (handles_of r) k = Some h \<longrightarrow> removable (rstate r) (handle_id h) (handle_chunks h))"

lemma vacate_ok:
  assumes "repo_inv bl X S N r" "replaceable r k"
  shows "\<exists>b r'. repo_remove k r = (Ok b, r') \<and> repo_inv bl X S N r' \<and> repo_step bl r r' \<and>
    hget (handles_of r') = (hget (handles_of r))(k := None) \<and> repo_map bl X r' = (repo_map bl X r)(k := None) \<and>
    hget (objects r') k = None \<and> rng (rstate r') = rng (rstate r) \<and>
    (\<forall>n. ids_left n (handle_table r) \<longrightarrow> ids_left n (handle_table r'))"
proof (cases "hget (handles_of r) k")
  case None
  then have "hget (objects r) k = None" by (simp add: hget_handles_of)
  then show ?thesis using assms(1) None
    by (intro exI [of _ False] exI [of _ r]) (auto simp: repo_remove_def repo_map_def)
next
  case (Some h)
  with assms(2) have "removable (rstate r) (handle_id h) (handle_chunks h)" by (simp add: replaceable_def)
  from repo_remove_ok [OF assms(1) Some this] Some show ?thesis by (elim exE conjE) (intro exI conjI; (assumption | simp))
qed

lemma repo_insert_ok:
  assumes "repo_inv bl X S N r" "replaceable r k" "ids_left (Suc n) (handle_table r)"
  shows "\<exists>ob r' i. repo_insert Z k r = (Ok ob, r') \<and> repo_inv bl X S N r' \<and> repo_step bl r r' \<and>
    hget (handles_of r') = (hget (handles_of r))(k \<mapsto> \<lparr>handle_id = i, extents = []\<rparr>) \<and>
    repo_map bl X r' = (repo_map bl X r)(k \<mapsto> []) \<and> rng (rstate r') = rng (rstate r) \<and>
    ids_left n (handle_table r') \<and> hget (objects r') k = Some (obj_handle ob) \<and>
    ob = object_new Z (rstate r') (obj_handle ob) (repo_object_id r' i)"
proof -
  obtain b q where q: "repo_remove k r = (Ok b, q)" "repo_inv bl X S N q" "repo_step bl r q"
    "hget (handles_of q) = (hget (handles_of r))(k := None)" "repo_map bl X q = (repo_map bl X r)(k := None)"
    "hget (objects q) k = None" "rng (rstate q) = rng (rstate r)"
    "\<forall>n. ids_left n (handle_table r) \<longrightarrow> ids_left n (handle_table q)"
    using vacate_ok [OF assms(1,2)] by blast
  obtain i t where it: "id_next (handle_table q) = (i, t)" by fastforce
  note T = ids_left_next [OF _ repo_invD(4) [OF q(2)] it, of n]
  have left: "ids_left (Suc n) (handle_table q)" using q(8) assms(3) by blast
  let ?h = "\<lparr>handle_id = i, extents = []\<rparr>" and ?a = "next_addr q"
  let ?r = "q\<lparr>rstate := rstate q, handle_table := t, heap := hput ?a ?h (heap q), next_addr := Suc ?a, objects := hput k ?a (objects q)\<rparr>"
  have ok: "handle_ok bl X (rstate q) ?h" by (simp add: handle_ok_def refs_ok_def handle_chunks_def extent_chunks_def)
  note new = add_handle_ok [OF q(2,6) repo_invD(1) [OF q(2)] grows_refl ok T(1-3) [OF left]]
  have "handle_content bl X (rstate q) ?h = []" by (simp add: handle_content_def)
  moreover have "repo_insert Z k r = (Ok (object_new Z (rstate ?r) ?a (repo_object_id ?r i)), ?r)"
    using q(1,6) it by (simp add: repo_insert_def repo_contains_def hcontains_def alloc_handle_def bindR_def repo_object_id_def)
  moreover have "obj_handle (object_new Z (rstate ?r) ?a (repo_object_id ?r i)) = ?a" by (simp add: object_new_def)
  ultimately show ?thesis using new q(4,5,7) repo_step_trans [OF q(3) new(2)] T(4) [OF left]
    by (intro exI [of _ "object_new Z (rstate ?r) ?a (repo_object_id ?r i)"] exI [of _ ?r] exI [of _ i] conjI) (simp_all add: fun_eq_iff)
qed

text \<open>A copy once the destination is vacated: the chunks of the source are all still there.\<close>

lemma copy_into_ok:
  assumes a: "hget (objects r) source = Some a" "deref r a = h" and q: "repo_remove dest r = (Ok b, q)" "repo_inv bl X S N q"
      "hget (objects q) dest = None" and left: "ids_left (Suc n) (handle_table q)"
    and h: "extents_ok (chunk_data bl X (rstate q)) (extents h)" "total (extents h) < 2 ^ 63"
  shows "\<exists>r' i. repo_copy source dest r = (Ok True, r') \<and> repo_inv bl X S N r' \<and> repo_step bl q r' \<and>
    hget (handles_of r') = (hget (handles_of q))(dest \<mapsto> \<lparr>handle_id = i, extents = extents h\<rparr>) \<and>
    repo_map bl X r' = (repo_map bl X q)(dest \<mapsto> handle_content bl X (rstate q) h) \<and> rng (rstate r') = rng (rstate q) \<and>
    ids_left n (handle_table r') \<and> i \<notin> id_live (handle_table q) \<and> (\<forall>c \<in> set (handle_chunks h). i \<in> refs_of (rstate r') c)"
proof -
  obtain i t where it: "id_next (handle_table q) = (i, t)" by fastforce
  note T = ids_left_next [OF left repo_invD(4) [OF q(2)] it]
  let ?h = "\<lparr>handle_id = i, extents = extents h\<rparr>" and ?a = "next_addr q"
  have chunks_h: "handle_chunks ?h = handle_chunks h" by (simp add: handle_chunks_def)
  have known: "\<forall>c \<in> set (handle_chunks h). hget (chunks (rstate q)) c \<noteq> None"
  proof
    fix c assume "c \<in> set (handle_chunks h)"
    then obtain d where "chunk_data bl X (rstate q) c = Some d"
      using h(1) by (auto simp: extents_ok_def handle_chunks_def set_extent_chunks)
    then show "hget (chunks (rstate q)) c \<noteq> None" by (auto simp: chunk_data_def split: option.splits)
  qed
  have "hwf (chunks (rstate q))" using repo_invD(1) [OF q(2)] by (simp add: direct_inv_def chunks_ok_def)
  then obtain m where m: "forM (handle_chunks h) (add_reference i) (rstate q) = (Ok (), (rstate q)\<lparr>chunks := m\<rparr>)" "hwf m"
    "hget m = (\<lambda>c. if c \<in> set (handle_chunks h) then map_option (\<lambda>info. info\<lparr>references := insert i (references info)\<rparr>)
       (hget (chunks (rstate q)) c) else hget (chunks (rstate q)) c)"
    using add_references_ok [OF known] by blast
  let ?s = "(rstate q)\<lparr>chunks := m\<rparr>"
  note view = add_references_view [OF repo_invD(1) [OF q(2)] m(2,3)]
  have mono: "\<And>c d. chunk_data bl X (rstate q) c = Some d \<Longrightarrow> chunk_data bl X ?s c = Some d"
    using view(2) by (simp add: grows_def)
  have ok: "handle_ok bl X ?s ?h" "handle_content bl X ?s ?h = handle_content bl X (rstate q) h"
    using extents_ok_mono [OF h(1) mono] content_mono [OF h(1) mono] h(2) view(3) known
    by (auto simp: handle_ok_def refs_ok_def chunks_h handle_content_def)
  let ?r = "q\<lparr>rstate := ?s, handle_table := t, heap := hput ?a ?h (heap q), next_addr := Suc ?a, objects := hput dest ?a (objects q)\<rparr>"
  note new = add_handle_ok [OF q(2,3) view(1,2) ok(1) T(1-3)]
  have "repo_copy source dest r = (Ok True, ?r)"
    using a q(1) it m(1) chunks_h
    by (simp add: repo_copy_def alloc_handle_def on_state_def bindR_def Let_def)
  then show ?thesis using new T(1,4) ok(2) view(3) known
    by (intro exI [of _ ?r] exI [of _ i] conjI) (simp_all add: fun_eq_iff)
qed

lemma repo_copy_ok:
  assumes "repo_inv bl X S N r" "replaceable r dest" "ids_left (Suc n) (handle_table r)" "source \<noteq> dest"
    "hget (handles_of r) source = Some h"
  shows "\<exists>r' i. repo_copy source dest r = (Ok True, r') \<and> repo_inv bl X S N r' \<and> repo_step bl r r' \<and>
    hget (handles_of r') = (hget (handles_of r))(dest \<mapsto> \<lparr>handle_id = i, extents = extents h\<rparr>) \<and>
    repo_map bl X r' = (repo_map bl X r)(dest \<mapsto> handle_content bl X (rstate r) h) \<and> rng (rstate r') = rng (rstate r) \<and>
    ids_left n (handle_table r') \<and> (\<forall>c \<in> set (handle_chunks h). \<not> refs_of (rstate r') c \<subseteq> {handle_id h})"
proof -
  obtain a where a: "hget (objects r) source = Some a" "deref r a = h" using assms(5) by (auto simp: hget_handles_of)
  obtain b q where q: "repo_remove dest r = (Ok b, q)" "repo_inv bl X S N q" "repo_step bl r q"
    "hget (handles_of q) = (hget (handles_of r))(dest := None)" "repo_map bl X q = (repo_map bl X r)(dest := None)"
    "hget (objects q) dest = None" "rng (rstate q) = rng (rstate r)"
    "\<forall>n. ids_left n (handle_table r) \<longrightarrow> ids_left n (handle_table q)"
    using vacate_ok [OF assms(1,2)] by blast
  have src: "hget (handles_of q) source = Some h" using q(4) assms(4,5) by simp
  have h_ok: "handle_ok bl X (rstate q) h" "handle_id h \<in> id_live (handle_table q)" using repo_invD(6) [OF q(2) src] by auto
  have "repo_map bl X q source = repo_map bl X r source" using q(5) assms(4) by simp
  then have cont: "handle_content bl X (rstate q) h = handle_content bl X (rstate r) h"
    using src assms(5) by (simp add: repo_map_def)
  have left: "ids_left (Suc n) (handle_table q)" using q(8) assms(3) by blast
  have ext: "extents_ok (chunk_data bl X (rstate q)) (extents h)" "total (extents h) < 2 ^ 63"
    using h_ok(1) by (simp_all add: handle_ok_def)
  obtain r' i where r': "repo_copy source dest r = (Ok True, r')" "repo_inv bl X S N r'" "repo_step bl q r'"
    "hget (handles_of r') = (hget (handles_of q))(dest \<mapsto> \<lparr>handle_id = i, extents = extents h\<rparr>)"
    "repo_map bl X r' = (repo_map bl X q)(dest \<mapsto> handle_content bl X (rstate q) h)" "rng (rstate r') = rng (rstate q)"
    "ids_left n (handle_table r')" "i \<notin> id_live (handle_table q)" "\<forall>c \<in> set (handle_chunks h). i \<in> refs_of (rstate r') c"
    using copy_into_ok [OF a q(1,2,6) left ext] by blast
  have "i \<noteq> handle_id h" using r'(8) h_ok(2) by blast
  then have "\<forall>c \<in> set (handle_chunks h). \<not> refs_of (rstate r') c \<subseteq> {handle_id h}" using r'(9) by blast
  moreover have "repo_step bl r r'" using repo_step_trans [OF q(3) r'(3)] .
  ultimately show ?thesis using r' q(4,5,7) cont by (intro exI [of _ r'] exI [of _ i]) (simp add: fun_eq_iff)
qed

text \<open>The same onto the source itself: it is removed first, and its chunks stay if other objects have them.\<close>

lemma repo_copy_self_ok:
  assumes inv: "repo_inv bl X S N r" and left: "ids_left (Suc n) (handle_table r)" and k: "hget (handles_of r) k = Some h"
    and shared: "\<And>c. c \<in> set (handle_chunks h) \<Longrightarrow> refs_of (rstate r) c \<noteq> {handle_id h}"
  shows "\<exists>r'. repo_copy k k r = (Ok True, r') \<and> repo_inv bl X S N r' \<and> repo_step bl r r' \<and>
    repo_map bl X r' = (repo_map bl X r)(k \<mapsto> handle_content bl X (rstate r) h)"
proof -
  note I = repo_invD [OF inv]
  have h: "handle_ok bl X (rstate r) h" using I(6) [OF k] by blast
  let ?V = "chunk_data bl X (rstate r)"
  have refs: "handle_id h \<in> refs_of (rstate r) c" if "c \<in> set (handle_chunks h)" for c
    using h that by (simp add: handle_ok_def refs_ok_def)
  have "removable (rstate r) (handle_id h) (handle_chunks h)"
    using handle_chunk_known [OF h] shared refs unfolding removable_def refs_of_def by fastforce
  from repo_remove_ok [OF inv k this] obtain q where q: "repo_remove k r = (Ok True, q)" "repo_inv bl X S N q" "repo_step bl r q"
    "repo_map bl X q = (repo_map bl X r)(k := None)" "objects q = hdel k (objects r)"
    "\<forall>n. ids_left n (handle_table r) \<longrightarrow> ids_left n (handle_table q)"
    "\<forall>g. handle_ok bl X (rstate r) g \<and> handle_id g \<noteq> handle_id h \<longrightarrow>
       handle_ok bl X (rstate q) g \<and> handle_content bl X (rstate q) g = handle_content bl X (rstate r) g"
    by blast
  let ?W = "chunk_data bl X (rstate q)"
  have data: "?W c = ?V c" if c: "EChunk c \<in> set (extents h)" for c
  proof -
    have mem: "c \<in> set (handle_chunks h)" using c by (simp add: handle_chunks_def set_extent_chunks)
    then obtain j where j: "j \<in> refs_of (rstate r) c" "j \<noteq> handle_id h" using shared refs by blast
    let ?g = "\<lparr>handle_id = j, extents = [EChunk c]\<rparr>"
    obtain d where d: "?V c = Some d" "length d = c_size c" using h c by (auto simp: handle_ok_def extents_ok_def)
    have "c_size c \<le> total (extents h)" using member_le_sum_list [of "c_size c" "map extent_size (extents h)"] c
      by (force simp: total_def extent_size_def)
    then have "handle_ok bl X (rstate r) ?g" using h d j(1)
      by (simp add: handle_ok_def refs_ok_def handle_chunks_def extent_chunks_def total_def extent_size_def)
    with q(7) j(2) have "handle_ok bl X (rstate q) ?g" "handle_content bl X (rstate q) ?g = handle_content bl X (rstate r) ?g"
      by simp_all
    then show ?thesis using d by (auto simp: handle_ok_def handle_content_def)
  qed
  have ext: "extents_ok ?W (extents h)" "total (extents h) < 2 ^ 63"
    using h data by (simp_all add: handle_ok_def extents_ok_def)
  have cont: "handle_content bl X (rstate q) h = handle_content bl X (rstate r) h"
    unfolding handle_content_def by (rule content_cong) (rule data)
  obtain a where a: "hget (objects r) k = Some a" "deref r a = h" using k by (auto simp: hget_handles_of)
  have free: "hget (objects q) k = None" "ids_left (Suc n) (handle_table q)" using q(5,6) left by simp_all
  from copy_into_ok [OF a q(1,2) free ext] obtain r' where "repo_copy k k r = (Ok True, r')" "repo_inv bl X S N r'"
    "repo_step bl q r'" "repo_map bl X r' = (repo_map bl X q)(k \<mapsto> handle_content bl X (rstate q) h)" by blast
  with repo_step_trans [OF q(3)] q(4) cont show ?thesis by auto
qed

section \<open>Operations through an object\<close>

lemma put_handle_ok:
  assumes inv: "repo_inv bl X S N r" and k: "hget (objects r) k = Some a"
    and s: "direct_inv bl X S N s" "grows bl X (rstate r) s" "handle_ok bl X s h" "handle_id h = handle_id (deref r a)"
  defines "r' \<equiv> r\<lparr>rstate := s, heap := hput a h (heap r)\<rparr>"
  shows "repo_inv bl X S N r'" "repo_step bl r r'" "hget (handles_of r') = (hget (handles_of r))(k \<mapsto> h)"
    "repo_map bl X r' = (repo_map bl X r)(k \<mapsto> handle_content bl X s h)"
proof -
  note I = repo_invD [OF inv]
  have old: "hget (handles_of r) k = Some (deref r a)" using k by (simp add: hget_handles_of)
  have other: "b \<noteq> a" if "hget (objects r) j = Some b" "j \<noteq> k" for j b
    using repo_inv_addr [OF inv k] that by blast
  show handles: "hget (handles_of r') = (hget (handles_of r))(k \<mapsto> h)"
  proof
    fix j show "hget (handles_of r') j = ((hget (handles_of r))(k \<mapsto> h)) j"
      using other [of j] k by (cases "hget (objects r) j") (auto simp: hget_handles_of r'_def deref_def)
  qed
  have kept: "handle_ok bl X s g \<and> handle_content bl X s g = handle_content bl X (rstate r) g"
    if "handle_ok bl X (rstate r) g" for g using handle_ok_grows [OF that s(2)] by blast
  have st: "rstate r' = s" "handle_table r' = handle_table r" "instances r' = instances r" "objects r' = objects r"
    by (simp_all add: r'_def)
  have ids: "\<exists>g'. hget (handles_of r) j = Some g' \<and> handle_id g' = handle_id g"
    if "((hget (handles_of r))(k \<mapsto> h)) j = Some g" for j g using that old s(4) by (auto split: if_splits)
  show "repo_inv bl X S N r'"
    unfolding repo_inv_def handles st
  proof (intro conjI allI impI)
    show "addr_ok r'" using I(3) I(5) [OF k] by (auto simp: addr_ok_def r'_def split: if_splits)
  next
    fix j b assume "hget (objects r) j = Some b"
    with I(5) show "hget (heap r') b \<noteq> None" by (simp add: r'_def)
  next
    fix j g assume g: "((hget (handles_of r))(k \<mapsto> h)) j = Some g"
    from ids [OF this] I(6) show "handle_id g \<in> id_live (handle_table r)" by metis
    from g I(6) kept s(3) show "handle_ok bl X s g" by (auto split: if_splits)
  next
    fix j j' g g' assume "((hget (handles_of r))(k \<mapsto> h)) j = Some g" "((hget (handles_of r))(k \<mapsto> h)) j' = Some g'"
      "handle_id g = handle_id g'"
    then show "j = j'" using ids I(7) by metis
  next
    fix c info j g assume "hget (instances r) c = Some info" "((hget (handles_of r))(k \<mapsto> h)) j = Some g"
    then show "handle_id g \<noteq> handle_id (instance_objects info)" using I(8) ids by metis
  qed (use s(1) I kept in auto)
  show "repo_step bl r r'" using s(2) by (simp add: repo_step_def r'_def grows_def)
  show "repo_map bl X r' = (repo_map bl X r)(k \<mapsto> handle_content bl X s h)"
  proof
    fix j show "repo_map bl X r' j = ((repo_map bl X r)(k \<mapsto> handle_content bl X s h)) j"
      unfolding repo_map_def handles st using I(6) [of j] kept by (cases "hget (handles_of r) j") auto
  qed
qed

lemma repo_store_eq:
  assumes "repo_inv bl X S N r" "store_eq bl (rstate r) s"
  shows "repo_inv bl X S N (r\<lparr>rstate := s\<rparr>)" "repo_step bl r (r\<lparr>rstate := s\<rparr>)"
    "repo_map bl X (r\<lparr>rstate := s\<rparr>) = repo_map bl X r" "handles_of (r\<lparr>rstate := s\<rparr>) = handles_of r"
proof -
  have refs: "refs_of s = refs_of (rstate r)" using store_eq_fields [OF assms(2)] by (simp add: refs_of_def fun_eq_iff)
  have h: "handle_ok bl X s g = handle_ok bl X (rstate r) g" "handle_content bl X s g = handle_content bl X (rstate r) g" for g
    using refs store_eq_view(2) [OF assms(2), of X] by (simp_all add: handle_ok_def handle_content_def refs_ok_def)
  show hs: "handles_of (r\<lparr>rstate := s\<rparr>) = handles_of r" by (simp add: handles_of_def deref_def)
  show "repo_inv bl X S N (r\<lparr>rstate := s\<rparr>)"
    using assms(1) store_eq_view(3) [OF assms(2), of X S N] unfolding repo_inv_def hs by (simp add: h addr_ok_def)
  show "repo_step bl r (r\<lparr>rstate := s\<rparr>)"
    using store_eq_fields [OF assms(2)] by (simp add: repo_step_def store_eq_same_rest [OF assms(2)])
  show "repo_map bl X (r\<lparr>rstate := s\<rparr>) = repo_map bl X r" by (simp add: repo_map_def fun_eq_iff hs h cong: map_option_cong)
qed

text \<open>Dropping an object releases the transaction it holds.\<close>

definition object_drop :: "('k, 's, 'c) view \<Rightarrow> ('k, 's) key_repo" where
  "object_drop v = (case transaction_lock (object_state (snd v)) of
      None \<Rightarrow> fst v
    | Some l \<Rightarrow> (fst v)\<lparr>rstate := (rstate (fst v))\<lparr>transactions := drop_lock l (transactions (rstate (fst v)))\<rparr>\<rparr>)"

context key_env
begin

text \<open>What serializing needs: the budget of random values for the chunks that are written.\<close>

abbreviation room_for :: "nat \<Rightarrow> 's repo_state \<Rightarrow> bytes \<Rightarrow> bytes \<Rightarrow> bool" where
  "room_for N s old v \<equiv> overwrite 0 v old \<in> S \<and> length v < 2 ^ 63 \<and> rng s + 2 * (2 * length old + length v + 6) \<le> N"

text \<open>An operation on a new \<^verbatim>\<open>Object\<close> that ends without a transaction.\<close>

lemma view_update_ok:
  fixes r :: "('j, 's) key_repo"
  assumes inv: "repo_inv blocks X S N r" and k: "hget (objects r) k = Some a" "hget (handles_of r) k = Some h"
    and m: "m (fresh_octx (rstate r) h) = (y, x)" "obj_ok blocks X S N x" "transaction_lock (o_state x) = None"
      "handle_id (o_handle x) = handle_id h" "grows blocks X (rstate r) (o_repo x)"
  shows "\<exists>r' ob. on_object m (r, object_new (ev_zpaq E) (rstate r) a oid) = (y, (r', ob)) \<and> object_drop (r', ob) = r' \<and>
    repo_inv blocks X S N r' \<and> repo_step blocks r r' \<and> objects r' = objects r \<and> handle_table r' = handle_table r \<and>
    hget (handles_of r') = (hget (handles_of r))(k \<mapsto> o_handle x) \<and>
    repo_map blocks X r' = (repo_map blocks X r)(k \<mapsto> obj_content blocks X x) \<and> rstate r' = o_repo x"
proof -
  have h: "deref r a = h" "hget (heap r) a = Some h"
    using k repo_invD(5) [OF inv k(1)] by (auto simp: hget_handles_of deref_def)
  let ?r = "r\<lparr>rstate := o_repo x, heap := hput a (o_handle x) (heap r)\<rparr>"
  let ?ob = "(object_new (ev_zpaq E) (rstate r) a oid)\<lparr>object_state := o_state x\<rparr>"
  have x_ok: "direct_inv blocks X S N (o_repo x)" "handle_ok blocks X (o_repo x) (o_handle x)"
    "handle_content blocks X (o_repo x) (o_handle x) = obj_content blocks X x"
    using m(2) by (simp_all add: obj_ok_def handle_ok_def obj_view_def handle_content_def obj_content_def)
  note P = put_handle_ok [OF inv k(1) x_ok(1) m(5) x_ok(2)]
  have "on_object m (r, object_new (ev_zpaq E) (rstate r) a oid) = (y, (?r, ?ob))"
    using h(2) m(1) by (simp add: on_object_def object_new_def)
  moreover have "object_drop (?r, ?ob) = ?r" using m(3) by (simp add: object_drop_def)
  ultimately show ?thesis
    using P m(4) h(1) x_ok(3) by (intro exI [of _ ?r] exI [of _ ?ob] conjI) (simp_all add: fun_eq_iff)
qed

lemma view_serialize_ok:
  fixes r :: "('j, 's) key_repo"
  assumes inv: "repo_inv blocks X S N r" and k: "hget (objects r) k = Some a" "hget (handles_of r) k = Some h"
    and idle: "good (config_chunking (cfg (rstate r)))" "handle_id h \<notin> transactions (rstate r)"
    and room: "room_for N (rstate r) (handle_content blocks X (rstate r) h) v"
  shows "\<exists>r' ob h'. view_serialize (ev_store E) X (dyn_ops (ev_zpaq E)) (Some v)
      (r, object_new (ev_zpaq E) (rstate r) a oid) = (Ok (), (r', ob)) \<and> object_drop (r', ob) = r' \<and>
    repo_inv blocks X S N r' \<and> repo_step blocks r r' \<and> objects r' = objects r \<and> handle_table r' = handle_table r \<and>
    hget (handles_of r') = (hget (handles_of r))(k \<mapsto> h') \<and> handle_id h' = handle_id h \<and>
    repo_map blocks X r' = (repo_map blocks X r)(k \<mapsto> v) \<and>
    rng (rstate r') \<le> rng (rstate r) + 2 * (2 * length (handle_content blocks X (rstate r) h) + length v + 6)"
proof -
  have ok: "handle_ok blocks X (rstate r) h" using repo_invD(6) [OF inv k(2)] by blast
  note O = fresh_octx_ok [OF repo_invD(1) [OF inv] ok]
  obtain x where x: "object_serialize (ev_store E) X (dyn_ops (ev_zpaq E)) (Some v) (fresh_octx (rstate r) h) = (Ok (), x)"
    "obj_ok blocks X S N x" "Object_Write.idle cinv cpend x" "obj_content blocks X x = v"
    "handle_id (o_handle x) = handle_id h" "grows blocks X (rstate r) (o_repo x)"
    "rng (o_repo x) \<le> rng (rstate r) + 2 * (2 * length (handle_content blocks X (rstate r) h) + length v + 6)"
    using serialize_ok [OF O(1) fresh_octx_idle [OF idle], of v] O(3) room by auto
  have "transaction_lock (o_state x) = None" using x(3) by (simp add: idle_def)
  from view_update_ok [where m = "object_serialize (ev_store E) X (dyn_ops (ev_zpaq E)) (Some v)" and oid = oid,
      OF inv k x(1,2) this x(5,6)] x(4,5,7) show ?thesis
    unfolding view_serialize_def by (metis (no_types, lifting))
qed

lemma view_deserialize_run:
  fixes r :: "('j, 's) key_repo"
  assumes inv: "repo_inv blocks X S N r" and k: "hget (objects r) k = Some a" "hget (handles_of r) k = Some h"
  shows "\<exists>s ob. view_deserialize (ev_store E) X dec (r, object_new (ev_zpaq E) (rstate r) a oid) =
      (fst (run_decoder slice_read dec (handle_content blocks X (rstate r) h)), (r\<lparr>rstate := s\<rparr>, ob)) \<and>
    object_drop (r\<lparr>rstate := s\<rparr>, ob) = r\<lparr>rstate := s\<rparr> \<and> store_eq blocks (rstate r) s"
proof -
  note I = repo_invD [OF inv]
  have h: "hget (heap r) a = Some h" using k I(5) [OF k(1)] by (auto simp: hget_handles_of deref_def)
  have ok: "handle_ok blocks X (rstate r) h" using I(6) [OF k(2)] by blast
  note O = fresh_octx_ok [OF I(1) ok]
  obtain x where x: "object_deserialize (ev_store E) X dec (fresh_octx (rstate r) h) =
      (fst (run_decoder slice_read dec (handle_content blocks X (rstate r) h)), x)" "same_object blocks (fresh_octx (rstate r) h) x"
    using deserialize_ok [OF O(1,2)] O(3) by metis
  then have f: "o_handle x = h" "store_eq blocks (rstate r) (o_repo x)" "transaction_lock (o_state x) = None"
    by (simp_all add: same_object_def object_state_new_def)
  let ?r = "r\<lparr>rstate := o_repo x\<rparr>" and ?ob = "(object_new (ev_zpaq E) (rstate r) a oid)\<lparr>object_state := o_state x\<rparr>"
  have "view_deserialize (ev_store E) X dec (r, object_new (ev_zpaq E) (rstate r) a oid) =
      (fst (run_decoder slice_read dec (handle_content blocks X (rstate r) h)), (?r, ?ob))"
    using h x(1) f(1) by (simp add: view_deserialize_def on_object_def object_new_def hput_same)
  moreover have "object_drop (?r, ?ob) = ?r" using f(3) by (simp add: object_drop_def)
  ultimately show ?thesis using f(2) by blast
qed

lemma view_deserialize_ok:
  fixes r :: "('j, 's) key_repo"
  assumes inv: "repo_inv blocks X S N r" and k: "hget (objects r) k = Some a" "hget (handles_of r) k = Some h"
  shows "\<exists>r' ob. view_deserialize (ev_store E) X dec (r, object_new (ev_zpaq E) (rstate r) a oid) =
      (fst (run_decoder slice_read dec (handle_content blocks X (rstate r) h)), (r', ob)) \<and> object_drop (r', ob) = r' \<and>
    repo_inv blocks X S N r' \<and> repo_step blocks r r' \<and> objects r' = objects r \<and> handle_table r' = handle_table r \<and>
    handles_of r' = handles_of r \<and> repo_map blocks X r' = repo_map blocks X r \<and> rng (rstate r') = rng (rstate r) \<and>
    heap r' = heap r \<and> next_addr r' = next_addr r \<and> grows blocks X (rstate r) (rstate r')"
proof -
  obtain s ob where s: "view_deserialize (ev_store E) X dec (r, object_new (ev_zpaq E) (rstate r) a oid) =
      (fst (run_decoder slice_read dec (handle_content blocks X (rstate r) h)), (r\<lparr>rstate := s\<rparr>, ob))"
    "object_drop (r\<lparr>rstate := s\<rparr>, ob) = r\<lparr>rstate := s\<rparr>" "store_eq blocks (rstate r) s"
    using view_deserialize_run [OF assms] by blast
  then show ?thesis using repo_store_eq [OF inv s(3)] store_eq_fields(6) [OF s(3)] store_eq_grows [OF s(3)]
    by (intro exI [of _ "r\<lparr>rstate := s\<rparr>"] exI [of _ ob] conjI) simp_all
qed

end

end
