(* ===== verification/Ref_Env.thy ===== *)
theory Ref_Env
  imports Repo_Correct "HOL-Library.Countable"
begin

text \<open>
  A concrete environment in which the contract of the repository holds: the data store in memory, the
  reference instance of the external functions, and serializers made from an enumeration of the
  types, which are countable.
\<close>

section \<open>The persisted types are countable\<close>

instance chunk_ext :: (countable) countable
  by (rule countable_classI [of "\<lambda>x. to_nat (c_size x, c_hash x, chunk.more x)"]) simp

instance extent :: countable
  by countable_datatype

instance object_handle_ext :: (countable) countable
  by (rule countable_classI [of "\<lambda>x. to_nat (handle_id x, extents x, object_handle.more x)"]) simp

instance chunk_info_ext :: (countable) countable
  by (rule countable_classI [of "\<lambda>x. to_nat (block_id x, references x, chunk_info.more x)"]) simp

instance pack_index_ext :: (countable) countable
  by (rule countable_classI [of "\<lambda>x. to_nat (pi_id x, pi_offset x, pi_size x, pack_index.more x)"]) simp

instance instance_info_ext :: (countable) countable
  by (rule countable_classI [of "\<lambda>x. to_nat (version_id x, instance_objects x, instance_info.more x)"]) simp

instance id_table_ext :: (countable) countable
  by (rule countable_classI [of "\<lambda>x. to_nat (highest x, unused x, id_table.more x)"]) simp

instance header_ext :: (countable) countable
  by (rule countable_classI [of "\<lambda>x. to_nat (hd_chunks x, hd_packs x, hd_instances x, hd_handle_table x, header.more x)"]) simp

instance chunking :: countable
  by countable_datatype

instance packing :: countable
  by countable_datatype

instance compression :: countable
  by countable_datatype

instance encryption :: countable
  by countable_datatype

instance resource_limit :: countable
  by countable_datatype

instance repo_config_ext :: (countable) countable
  by (rule countable_classI [of "\<lambda>x. to_nat (config_chunking x, config_packing x, config_compression x,
    config_encryption x, config_memory_limit x, config_operations_limit x, repo_config.more x)"]) simp

instance repo_metadata_ext :: (countable) countable
  by (rule countable_classI [of "\<lambda>x. to_nat (md_id x, md_config x, md_master_key x, md_salt x, md_header_id x,
    repo_metadata.more x)"]) simp

section \<open>The environment\<close>

definition unary :: "nat \<Rightarrow> bytes" where
  "unary n = replicate n 0"

definition ref_zpaq :: "fixed_chunker zpaq" where
  "ref_zpaq = \<lparr>zpaq_new = (\<lambda>b. fixed_new 2), zpaq_ops = fixed_ops\<rparr>"

definition ref_env :: "((uuid, bytes) hmap, fixed_chunker) env" where
  "ref_env = \<lparr>ev_store = memory_store, ev_ext = ref_ext, ev_zpaq = ref_zpaq,
     to_vec_header = (\<lambda>h. Some (unary (to_nat h))),
     from_header = (\<lambda>b. let h = from_nat (length b) in Some (h\<lparr>hd_chunks := AList.clearjunk (hd_chunks h)\<rparr>)),
     to_vec_metadata = (\<lambda>m. Some (unary (to_nat m))), from_metadata = (\<lambda>b. Some (from_nat (length b))),
     uuid_as_bytes = (\<lambda>i. unary (to_nat i)), uuid_from_slice = (\<lambda>b. Some (from_nat (length b)))\<rparr>"

definition ref_handle :: object_handle where
  "ref_handle = \<lparr>handle_id = 1, extents = [EChunk ref_chunk, EHole 2]\<rparr>"

text \<open>The map codec knows the empty map and the map with the one object of the concrete repository.\<close>

definition ref_codec :: "nat map_codec" where
  "ref_codec = \<lparr>
     to_vec_objects = (\<lambda>m. if m = [] then Some [0] else if m = [(7, ref_handle)] then Some [1] else None),
     from_objects = Need 1 (\<lambda>b. if b = [0] then Decoded [] else if b = [1] then Decoded [(7, ref_handle)] else DecodeError)\<rparr>"

lemma ref_codec_laws: "codec_laws ref_env ref_codec"
proof -
  have "\<exists>h'. from_header ref_env (unary (to_nat h)) = Some h' \<and> header_eq h' h \<and> hwf (hd_chunks h')" for h
    by (simp add: ref_env_def unary_def Let_def header_eq_def table_eq_def hwf_def map_of_clearjunk)
  moreover have "fst (run_decoder slice_read (from_objects ref_codec) b) = Ok m"
    if "to_vec_objects ref_codec m = Some b" for m b
    using that by (auto simp: ref_codec_def read_exact_loop.simps slice_read_def split: if_splits)
  ultimately show ?thesis
    by (auto simp: codec_laws_def) (simp_all add: ref_env_def unary_def)
qed

definition good_chunking :: "chunking \<Rightarrow> bool" where
  "good_chunking m \<longleftrightarrow> (case m of Fixed n \<Rightarrow> 0 < n \<and> n < 2 ^ 32 | Zpaq b \<Rightarrow> True)"

abbreviation "ref_cinv \<equiv> dyn_inv fixed_inv"
abbreviation "ref_cfresh \<equiv> dyn_fresh fixed_fresh"
abbreviation "ref_cpend \<equiv> dyn_pending bytes_read"

lemma ref_env_simps [simp]:
  "ev_store ref_env = memory_store" "ev_ext ref_env = ref_ext" "ev_zpaq ref_env = ref_zpaq"
  by (simp_all add: ref_env_def)

lemma ref_chunker: "chunker_impl (dyn_ops ref_zpaq) ref_cinv ref_cfresh ref_cpend"
  by (rule dyn_chunker_impl) (simp add: ref_zpaq_def fixed.chunker_impl_axioms)

interpretation ref_chunker: chunker_impl "dyn_ops ref_zpaq" ref_cinv ref_cfresh ref_cpend
  by (rule ref_chunker)

interpretation ref_obj: object_env memory_store mem_blocks ref_ext "dyn_ops ref_zpaq" ref_cinv ref_cfresh ref_cpend UNIV
  by unfold_locales (rule ref_collision_free)

interpretation ref_key: key_env ref_env mem_blocks ref_cinv ref_cfresh ref_cpend UNIV ref_codec good_chunking
proof -
  have "good_chunking m \<Longrightarrow> ref_cinv (to_chunker ref_zpaq m) \<and> ref_cfresh (to_chunker ref_zpaq m)" for m
    by (auto simp: good_chunking_def to_chunker_def dyn_inv_def dyn_fresh_def fixed_inv_def fixed_fresh_def fixed_new_def
      ref_zpaq_def split: chunking.splits)
  then show "key_env ref_env mem_blocks ref_cinv ref_cfresh ref_cpend UNIV ref_codec good_chunking"
    unfolding key_env_def key_env_axioms_def using ref_obj.object_env_axioms ref_codec_laws by simp
qed

end
