(* ===== verification/Repo_Contract.thy ===== *)
theory Repo_Contract
  imports Ref_Env
begin

text \<open>
  The contract of the repository, over the lemmas of \<open>Repo_Correct\<close>, with a concrete repository as
  the input of the evaluations.
\<close>

section \<open>A concrete repository\<close>

definition ref_info :: instance_info where
  "ref_info = \<lparr>version_id = KEY_REPO_VERSION_ID, instance_objects = \<lparr>handle_id = 2, extents = []\<rparr>\<rparr>"

definition ref_key_repo :: "(nat, (uuid, bytes) hmap) key_repo" where
  "ref_key_repo = \<lparr>rstate = ref_repo, instance_id = DEFAULT_INSTANCE, objects = [(7, 0)], heap = [(0, ref_handle)],
     next_addr = 1, instances = [(DEFAULT_INSTANCE, ref_info)], handle_table = \<lparr>highest = 2, unused = []\<rparr>,
     transaction_id = 50\<rparr>"

lemma ref_writable: "writable mem_blocks UNIV ref_env good_chunking 100 ref_key_repo ref_info"
  using ref_direct_inv
  by (simp add: writable_def ref_key_repo_def ref_info_def handle_ok_def refs_ok_def handle_chunks_def hwf_def)
    (simp add: ref_repo_def good_chunking_def config_default_def)

lemma ref_handles: "handles_of ref_key_repo = [(7, ref_handle)]"
  by (simp add: handles_of_def deref_def ref_key_repo_def)

lemma ref_map_bytes: "to_vec_objects ref_codec (handles_of ref_key_repo) = Some [1]"
  by (simp add: ref_handles ref_codec_def)

lemma ref_map_content: "handle_content mem_blocks ref_ext (rstate ref_key_repo) (instance_objects ref_info) = []"
  by (simp add: handle_content_def ref_info_def)

lemma ref_key_rng: "rng (rstate ref_key_repo) = 1"
  by (simp add: ref_key_repo_def ref_rng)

section \<open>Commit and rollback\<close>

text \<open>
  C1: A commit is durable.  A commit of a well-formed repository succeeds and leaves its objects as
  they are; whatever happens to the repository afterwards, as long as no block of the store is lost
  or replaced and nothing else is committed, a rollback succeeds and brings back the map of objects
  of the commit, the header and the data of every chunk, and with them the contents of every object.
\<close>

theorem commit_then_rollback:
  assumes "key_env E bl cinv cfresh cpend S M good" "writable bl S E good N r info"
    and "to_vec_objects M (handles_of r) = Some v"
    and "overwrite 0 v (handle_content bl (ev_ext E) (rstate r) (instance_objects info)) \<in> S" "length v < 2 ^ 63"
    and "rng (rstate r) + 2 * (2 * length (handle_content bl (ev_ext E) (rstate r) (instance_objects info)) + length v + 8) \<le> N"
  shows "\<exists>r1. repo_commit E M r = (Ok (), r1) \<and> objects r1 = objects r \<and> heap r1 = heap r \<and> next_addr r1 = next_addr r \<and>
    (\<forall>c d. chunk_data bl (ev_ext E) (rstate r) c = Some d \<longrightarrow> chunk_data bl (ev_ext E) (rstate r1) c = Some d) \<and>
    (\<forall>r2. extends bl r1 r2 \<longrightarrow> (\<exists>r3. repo_rollback E M r2 = (Ok (), r3) \<and>
       hget (handles_of r3) = hget (handles_of r) \<and> header_eq (clone_header r3) (clone_header r1) \<and>
       chunk_data bl (ev_ext E) (rstate r3) = chunk_data bl (ev_ext E) (rstate r1)))"
proof -
  obtain r1 where r1: "repo_commit E M r = (Ok (), r1)" "committed bl S E M r1" "handles_of r1 = handles_of r"
    "objects r1 = objects r" "heap r1 = heap r" "next_addr r1 = next_addr r"
    "\<forall>c d. chunk_data bl (ev_ext E) (rstate r) c = Some d \<longrightarrow> chunk_data bl (ev_ext E) (rstate r1) c = Some d"
    using key_env.repo_commit_ok [OF assms] unfolding rewritten_def by blast
  have "\<exists>r3. repo_rollback E M r2 = (Ok (), r3) \<and>
       hget (handles_of r3) = hget (handles_of r) \<and> header_eq (clone_header r3) (clone_header r1) \<and>
       chunk_data bl (ev_ext E) (rstate r3) = chunk_data bl (ev_ext E) (rstate r1)" if "extends bl r1 r2" for r2
    using key_env.repo_rollback_ok [OF assms(1) r1(2) that] unfolding r1(3) by blast
  with r1 show ?thesis by blast
qed

theorem commit_then_rollback_witness:
  "\<exists>r1 r3. repo_commit ref_env ref_codec ref_key_repo = (Ok (), r1) \<and>
    repo_rollback ref_env ref_codec (r1\<lparr>objects := []\<rparr>) = (Ok (), r3) \<and> hget (handles_of r3) 7 = Some ref_handle"
proof -
  obtain r1 where r1: "repo_commit ref_env ref_codec ref_key_repo = (Ok (), r1)" "heap r1 = heap ref_key_repo"
    "next_addr r1 = next_addr ref_key_repo"
    "\<forall>r2. extends mem_blocks r1 r2 \<longrightarrow> (\<exists>r3. repo_rollback ref_env ref_codec r2 = (Ok (), r3) \<and>
       hget (handles_of r3) = hget (handles_of ref_key_repo))"
    using commit_then_rollback [OF ref_key.key_env_axioms ref_writable ref_map_bytes]
    by (simp add: ref_map_content ref_key_rng overwrite_def) blast
  have "extends mem_blocks r1 (r1\<lparr>objects := []\<rparr>)"
    using r1(2,3) by (auto simp: extends_def addr_ok_def hvalues_def ref_key_repo_def split: if_splits)
  with r1 show ?thesis by (fastforce simp: ref_handles)
qed

section \<open>Savepoints\<close>

text \<open>
  C3: A savepoint can be restored.  Creating a savepoint of a well-formed repository succeeds and
  changes no object; from every later state of the same transaction that still has the blocks of the
  store, restoring to it succeeds and brings back the map of objects, the header and the chunk data,
  undoing and redoing alike.
\<close>

theorem savepoint_then_restore:
  assumes "key_env E bl cinv cfresh cpend S M good" "writable bl S E good N r info"
    and "to_vec_objects M (handles_of r) = Some v"
    and "overwrite 0 v (handle_content bl (ev_ext E) (rstate r) (instance_objects info)) \<in> S" "length v < 2 ^ 63"
    and "rng (rstate r) + 2 * (2 * length (handle_content bl (ev_ext E) (rstate r) (instance_objects info)) + length v + 6) \<le> N"
  shows "\<exists>sp r1. repo_savepoint E M r = (Ok sp, r1) \<and> objects r1 = objects r \<and> heap r1 = heap r \<and>
    next_addr r1 = next_addr r \<and> transaction_id r1 = transaction_id r \<and>
    (\<forall>r2. extends bl r1 r2 \<and> transaction_id r2 = transaction_id r1 \<longrightarrow>
       (\<exists>r3. repo_restore E M sp r2 = (Ok (), r3) \<and> hget (handles_of r3) = hget (handles_of r) \<and>
          clone_header r3 = clone_header r1 \<and>
          chunk_data bl (ev_ext E) (rstate r3) = chunk_data bl (ev_ext E) (rstate r1)))"
proof -
  obtain sp r1 where r1: "repo_savepoint E M r = (Ok sp, r1)" "snapshot bl S E M r1" "handles_of r1 = handles_of r"
    "sp = \<lparr>sp_header = clone_header r1, sp_transaction = transaction_id r1\<rparr>" "transaction_id r1 = transaction_id r"
    "objects r1 = objects r" "heap r1 = heap r" "next_addr r1 = next_addr r"
    using key_env.repo_savepoint_ok [OF assms] unfolding rewritten_def by blast
  have "\<exists>r3. repo_restore E M sp r2 = (Ok (), r3) \<and> hget (handles_of r3) = hget (handles_of r) \<and>
          clone_header r3 = clone_header r1 \<and>
          chunk_data bl (ev_ext E) (rstate r3) = chunk_data bl (ev_ext E) (rstate r1)"
    if "extends bl r1 r2 \<and> transaction_id r2 = transaction_id r1" for r2
    using key_env.repo_restore_ok [OF assms(1) r1(2), of r2] that unfolding r1(3,4) by blast
  with r1 show ?thesis by blast
qed

theorem savepoint_then_restore_witness:
  "\<exists>sp r1 r3. repo_savepoint ref_env ref_codec ref_key_repo = (Ok sp, r1) \<and>
    repo_restore ref_env ref_codec sp (r1\<lparr>objects := []\<rparr>) = (Ok (), r3) \<and> hget (handles_of r3) 7 = Some ref_handle"
proof -
  obtain sp r1 where r1: "repo_savepoint ref_env ref_codec ref_key_repo = (Ok sp, r1)" "heap r1 = heap ref_key_repo"
    "next_addr r1 = next_addr ref_key_repo"
    "\<forall>r2. extends mem_blocks r1 r2 \<and> transaction_id r2 = transaction_id r1 \<longrightarrow>
       (\<exists>r3. repo_restore ref_env ref_codec sp r2 = (Ok (), r3) \<and> hget (handles_of r3) = hget (handles_of ref_key_repo))"
    using savepoint_then_restore [OF ref_key.key_env_axioms ref_writable ref_map_bytes]
    by (simp add: ref_map_content ref_key_rng overwrite_def) blast
  have "extends mem_blocks r1 (r1\<lparr>objects := []\<rparr>)"
    using r1(2,3) by (auto simp: extends_def addr_ok_def hvalues_def ref_key_repo_def split: if_splits)
  with r1 show ?thesis by (fastforce simp: ref_handles)
qed

text \<open>
  C13: A commit invalidates the savepoints made before it: the new transaction has a new ID, starting
  a restore fails with \<^verbatim>\<open>InvalidSavepoint\<close> and finishing one returns false, and both change nothing.
\<close>

theorem commit_invalidates_savepoints:
  assumes "repo_commit E M r = (Ok (), r')" "new_v4 (ev_ext E) (rng (rstate r') - 1) \<noteq> transaction_id r"
    and "sp_transaction sp = transaction_id r" "kr_transaction k = transaction_id r"
  shows "start_restore E M sp r' = (Err InvalidSavepoint, r') \<and> finish_restore k r' = (Ok False, r')"
proof -
  have "transaction_id r' = new_v4 (ev_ext E) (rng (rstate r') - 1)"
    using assms(1) by (auto simp: repo_commit_def on_state_def new_uuid_def elim!: bindR_OkE split: prod.splits)
  with assms show ?thesis by (simp add: start_restore_def finish_restore_def savepoint_valid_def)
qed

theorem commit_invalidates_savepoints_witness:
  "\<exists>r'. repo_commit ref_env ref_codec ref_key_repo = (Ok (), r') \<and>
    start_restore ref_env ref_codec \<lparr>sp_header = empty_header, sp_transaction = 50\<rparr> r' = (Err InvalidSavepoint, r')"
proof -
  obtain r' where r': "repo_commit ref_env ref_codec ref_key_repo = (Ok (), r')" "rng (rstate r') \<le> 24"
    using ref_key.repo_commit_ok [OF ref_writable ref_map_bytes]
    by (auto simp: ref_map_content ref_key_rng overwrite_def)
  then have "new_v4 (ev_ext ref_env) (rng (rstate r') - 1) \<noteq> transaction_id ref_key_repo"
    using of_nat_uuid_eq [of "rng (rstate r') - 1" 50] by (simp add: ref_ext_def ref_key_repo_def)
  then show ?thesis
    using commit_invalidates_savepoints [OF r'(1), of "\<lparr>sp_header = empty_header, sp_transaction = 50\<rparr>"
      "\<lparr>kr_objects = [], kr_header = empty_header, kr_transaction = 50, kr_instance = 0\<rparr>"] r'(1)
    by (simp add: ref_key_repo_def)
qed

end
