(* ===== verification/Repo_Refine.thy ===== *)
theory Repo_Refine
  imports Repo_Objects Repo_Contract
begin

text \<open>
  The objects of a repository refine a map from keys to contents: what inserting, removing and copying
  do to the map, and when they panic instead.
\<close>

section \<open>The specification\<close>

datatype 'k command = CInsert 'k | CRemove 'k | CCopy 'k 'k

fun spec_command :: "'k command \<Rightarrow> ('k \<rightharpoonup> bytes) \<Rightarrow> bool \<times> ('k \<rightharpoonup> bytes)" where
  "spec_command (CInsert k) m = (True, m(k \<mapsto> []))"
| "spec_command (CRemove k) m = (m k \<noteq> None, m(k := None))"
| "spec_command (CCopy s d) m = (case m s of None \<Rightarrow> (False, m) | Some v \<Rightarrow> (True, m(d \<mapsto> v)))"

fun run_command :: "'z zpaq \<Rightarrow> 'k command \<Rightarrow> (('k, 's) key_repo, bool) op" where
  "run_command Z (CInsert k) r = bindR (repo_insert Z k) (\<lambda>_. ret True) r"
| "run_command Z (CRemove k) r = repo_remove k r"
| "run_command Z (CCopy s d) r = repo_copy s d r"

text \<open>The key that a command frees first: its object must be removable.\<close>

fun frees :: "'k command \<Rightarrow> 'k" where
  "frees (CInsert k) = k"
| "frees (CRemove k) = k"
| "frees (CCopy s d) = d"

text \<open>
  The command needs chunks that its own removal takes away: a chunk that no other object has occurs twice in the object
  that is removed, or an object with such a chunk is copied onto itself.
\<close>

definition own_chunk :: "('k, 's) key_repo \<Rightarrow> 'k \<Rightarrow> chunk \<Rightarrow> bool" where
  "own_chunk r k c \<longleftrightarrow> (\<exists>h. hget (handles_of r) k = Some h \<and> c \<in> set (handle_chunks h) \<and> refs_of (rstate r) c = {handle_id h})"

definition repeated_chunk :: "('k, 's) key_repo \<Rightarrow> 'k \<Rightarrow> chunk \<Rightarrow> bool" where
  "repeated_chunk r k c \<longleftrightarrow> (\<exists>h. hget (handles_of r) k = Some h \<and> 2 \<le> count_list (handle_chunks h) c)"

fun frees_needed :: "('k, 's) key_repo \<Rightarrow> 'k command \<Rightarrow> bool" where
  "frees_needed r (CCopy s d) \<longleftrightarrow> hget (objects r) s \<noteq> None \<and> (\<exists>c. own_chunk r d c \<and> (repeated_chunk r d c \<or> s = d))"
| "frees_needed r c \<longleftrightarrow> (\<exists>x. own_chunk r (frees c) x \<and> repeated_chunk r (frees c) x)"

section \<open>A concrete repository\<close>

definition ref_one :: "'k \<Rightarrow> object_handle \<Rightarrow> ('k, (uuid, bytes) hmap) key_repo" where
  "ref_one k h = \<lparr>rstate = ref_repo, instance_id = DEFAULT_INSTANCE, objects = [(k, 0)], heap = [(0, h)],
     next_addr = 1, instances = [(DEFAULT_INSTANCE, ref_info)], handle_table = \<lparr>highest = 2, unused = []\<rparr>,
     transaction_id = 50\<rparr>"

abbreviation "ref_keyed k \<equiv> ref_one k ref_handle"

text \<open>An object in which the one chunk occurs twice.\<close>

definition ref_twice :: object_handle where
  "ref_twice = \<lparr>handle_id = 1, extents = [EChunk ref_chunk, EChunk ref_chunk]\<rparr>"

lemma ref_handles_ok:
  "handle_ok mem_blocks ref_ext ref_repo ref_handle" "handle_ok mem_blocks ref_ext ref_repo ref_twice"
  "handle_ok mem_blocks ref_ext ref_repo (instance_objects ref_info)"
  by (simp_all add: handle_ok_def ref_handle_def ref_twice_def ref_info_def ref_chunk_data refs_ok_def handle_chunks_def
    extent_chunks_def ref_refs total_def) (simp_all add: ref_chunk_def extent_size_def)

lemma ref_one_handles: "handles_of (ref_one k h) = [(k, h)]"
  by (simp add: ref_one_def handles_of_def deref_def)

lemma ref_one_fields [simp]:
  "rstate (ref_one k h) = ref_repo" "handle_table (ref_one k h) = \<lparr>highest = 2, unused = []\<rparr>"
  "objects (ref_one k h) = [(k, 0)]" "instance_id (ref_one k h) = DEFAULT_INSTANCE"
  by (simp_all add: ref_one_def)

lemma ref_keyed_map: "repo_map mem_blocks ref_ext (ref_keyed k) = [k \<mapsto> [1, 2, 3, 0, 0]]"
  by (auto simp: fun_eq_iff repo_map_def ref_one_handles handle_content_def ref_handle_def ref_chunk_data ebytes_def
    numeral_2_eq_2)

lemma ref_one_inv:
  assumes "handle_ok mem_blocks ref_ext ref_repo h" "handle_id h = 1"
  shows "repo_inv mem_blocks ref_ext UNIV 100 (ref_one k h)"
proof -
  have live: "1 \<in> id_live \<lparr>highest = 2, unused = []\<rparr>" "2 \<in> id_live \<lparr>highest = 2, unused = []\<rparr>"
    by (simp_all add: id_live_def id_contains_def)
  have "addr_ok (ref_one k h)" by (auto simp: addr_ok_def ref_one_def split: if_splits)
  with live assms show ?thesis
    using ref_direct_inv ref_handles_ok(3)
    by (simp add: repo_inv_def ref_one_handles hwf_def id_inv_def) (simp add: ref_one_def ref_info_def)
qed

lemma ref_keyed_inv: "repo_inv mem_blocks ref_ext UNIV 100 (ref_keyed k)"
  by (rule ref_one_inv [OF ref_handles_ok(1)]) (simp add: ref_handle_def)

section \<open>Panics\<close>

text \<open>
  C37: Removing an object panics exactly when a chunk occurs more than once in it and no other object has
  that chunk: the first occurrence removes the entry of the chunk, which the second one expects.
\<close>

theorem repo_remove_panics_iff:
  assumes "repo_inv bl X S N r" "hget (handles_of r) k = Some h"
  shows "(\<exists>p r'. repo_remove k r = (Panic p, r')) \<longleftrightarrow>
    (\<exists>c \<in> set (handle_chunks h). 2 \<le> count_list (handle_chunks h) c \<and> refs_of (rstate r) c = {handle_id h})"
proof -
  have ok: "handle_ok bl X (rstate r) h" using repo_invD(6) [OF assms] by blast
  have known: "hget (chunks (rstate r)) c \<noteq> None \<and> handle_id h \<in> refs_of (rstate r) c" if "c \<in> set (handle_chunks h)" for c
    using handle_chunk_known [OF ok that] by (auto simp: refs_of_def)
  have "\<not> removable (rstate r) (handle_id h) (handle_chunks h) \<longleftrightarrow>
      (\<exists>c \<in> set (handle_chunks h). 2 \<le> count_list (handle_chunks h) c \<and> refs_of (rstate r) c = {handle_id h})"
    using known unfolding removable_def by fastforce
  moreover have "(\<exists>p r'. repo_remove k r = (Panic p, r')) \<longleftrightarrow> \<not> removable (rstate r) (handle_id h) (handle_chunks h)"
    using repo_remove_ok [OF assms] repo_remove_panic [OF assms(2)] by force
  ultimately show ?thesis by simp
qed

lemma ref_twice_facts:
  "repo_inv mem_blocks ref_ext UNIV 100 (ref_one k ref_twice)" "handle_id ref_twice = 1"
  "handle_chunks ref_twice = [ref_chunk, ref_chunk]"
  using ref_one_inv [OF ref_handles_ok(2)] by (simp_all add: ref_twice_def handle_chunks_def extent_chunks_def)

theorem repo_remove_panics_iff_witness: "\<exists>p r'. repo_remove 7 (ref_one (7 :: nat) ref_twice) = (Panic p, r')"
  using repo_remove_panics_iff [OF ref_twice_facts(1), of "7 :: nat" 7 ref_twice]
  by (simp add: ref_one_handles ref_twice_facts(2,3) ref_refs)

lemma add_references_panic:
  assumes "hget (chunks s) c = None" "c \<in> set cs"
  shows "\<exists>s'. forM cs (add_reference i) s = (Panic ''This chunk was not found in the repository.'', s')"
  using assms
proof (induction cs arbitrary: s)
  case (Cons d cs)
  show ?case
  proof (cases "hget (chunks s) d")
    case None
    then show ?thesis by (simp add: add_reference_def bindR_def)
  next
    case (Some info)
    with Cons.prems have "c \<noteq> d" "c \<in> set cs" by auto
    with Cons.prems(1) Some Cons.IH show ?thesis by (simp add: add_reference_def bindR_def)
  qed
qed simp

lemma copy_self_panics:
  assumes "repo_inv bl X S N r" "hget (handles_of r) k = Some h" "c \<in> set (handle_chunks h)"
    and "refs_of (rstate r) c = {handle_id h}"
  shows "\<exists>p r'. repo_copy k k r = (Panic p, r') \<and> repo_map bl X r' k = None"
proof -
  obtain a where a: "hget (objects r) k = Some a" "deref r a = h" using assms(2) by (auto simp: hget_handles_of)
  show ?thesis
  proof (cases "removable (rstate r) (handle_id h) (handle_chunks h)")
    case True
    then obtain m where m: "forM (handle_chunks h) (remove_reference (handle_id h)) (rstate r) = (Ok (), (rstate r)\<lparr>chunks := m\<rparr>)"
      "hget m = (\<lambda>c. if c \<in> set (handle_chunks h) then drop_ref (handle_id h) (hget (chunks (rstate r)) c)
         else hget (chunks (rstate r)) c)"
      using remove_references_ok [OF True] repo_invD(1) [OF assms(1)] by (auto simp: direct_inv_def chunks_ok_def)
    have "hget m c = None" using m(2) assms(3,4) by (auto simp: drop_ref_def refs_of_def split: option.splits)
    moreover obtain i t where it: "id_next (snd (id_recycle (handle_id h) (handle_table r))) = (i, t)" by fastforce
    ultimately obtain s where s: "forM (handle_chunks h) (add_reference i) ((rstate r)\<lparr>chunks := m\<rparr>) =
        (Panic ''This chunk was not found in the repository.'', s)"
      using add_references_panic [of "(rstate r)\<lparr>chunks := m\<rparr>" c "handle_chunks h" i] assms(3) by auto
    have "handle_chunks \<lparr>handle_id = i, extents = extents h\<rparr> = handle_chunks h" by (simp add: handle_chunks_def)
    with m(1) a it s show ?thesis
      by (simp add: repo_copy_def repo_remove_def remove_handle_def on_state_def bindR_def Let_def repo_map_def
        hget_handles_of free_handles_def)
  next
    case False
    then obtain s where "forM (handle_chunks h) (remove_reference (handle_id h)) (rstate r) =
        (Panic ''This chunk was not found in the repository.'', s)" using remove_references_panic by blast
    with a show ?thesis
      by (simp add: repo_copy_def repo_remove_def remove_handle_def on_state_def bindR_def Let_def repo_map_def hget_handles_of)
  qed
qed

text \<open>
  C38: Copying an object onto itself panics and loses the object, if it has a chunk that no other object
  has: the destination is removed before its chunks are referenced again.
\<close>

theorem repo_copy_self_panics:
  assumes "repo_inv bl X S N r" "hget (handles_of r) k = Some h" "c \<in> set (handle_chunks h)"
    and "refs_of (rstate r) c = {handle_id h}"
  shows "\<exists>p r'. repo_copy k k r = (Panic p, r') \<and> repo_map bl X r' k = None"
  using copy_self_panics [OF assms] .

theorem repo_copy_self_panics_witness:
  "\<exists>p r'. repo_copy 7 7 (ref_keyed (7 :: nat)) = (Panic p, r') \<and> repo_map mem_blocks ref_ext r' 7 = None"
  using repo_copy_self_panics [OF ref_keyed_inv, of "7 :: nat" 7 ref_handle ref_chunk]
  by (simp add: ref_one_handles) (simp add: ref_handle_def handle_chunks_def extent_chunks_def ref_refs)

lemma ref_keyed_replaceable: "replaceable (ref_keyed k) j"
proof -
  have "removable ref_repo 1 [ref_chunk]" by (simp add: removable_def) (simp add: ref_repo_def)
  then show ?thesis
    by (simp add: replaceable_def ref_one_handles) (simp add: ref_handle_def handle_chunks_def extent_chunks_def)
qed

section \<open>Refinement\<close>

lemma replaceable_iff:
  assumes "repo_inv bl X S N r"
  shows "replaceable r k \<longleftrightarrow> \<not> (\<exists>c. own_chunk r k c \<and> repeated_chunk r k c)"
proof (cases "hget (handles_of r) k")
  case (Some h)
  have ok: "handle_ok bl X (rstate r) h" using repo_invD(6) [OF assms Some] by blast
  have "hget (chunks (rstate r)) c \<noteq> None \<and> handle_id h \<in> refs_of (rstate r) c" if "c \<in> set (handle_chunks h)" for c
    using handle_chunk_known [OF ok that] by (auto simp: refs_of_def)
  then show ?thesis using Some unfolding replaceable_def own_chunk_def repeated_chunk_def removable_def by fastforce
qed (simp add: replaceable_def own_chunk_def)

lemma vacate_panics:
  assumes "\<not> replaceable r k"
  shows "panics (repo_remove k) r" "panics (repo_insert Z k) r" "hget (objects r) s \<noteq> None \<Longrightarrow> panics (repo_copy s k) r"
proof -
  obtain p r' where "repo_remove k r = (Panic p, r')" using assms repo_remove_panic [of r k] by (auto simp: replaceable_def)
  then show "panics (repo_remove k) r" "panics (repo_insert Z k) r" "hget (objects r) s \<noteq> None \<Longrightarrow> panics (repo_copy s k) r"
    by (auto simp: panics_iff repo_insert_def repo_copy_def bindR_def Let_def)
qed

lemma copy_refines_map:
  assumes "repo_inv bl X S N r" "ids_left 1 (handle_table r)" "\<not> frees_needed r (CCopy s d)"
  shows "\<exists>b r'. repo_copy s d r = (Ok b, r') \<and> spec_command (CCopy s d) (repo_map bl X r) = (b, repo_map bl X r') \<and>
    repo_inv bl X S N r' \<and> repo_step bl r r'"
proof (cases "hget (handles_of r) s")
  case None
  then show ?thesis using assms(1)
    by (intro exI [of _ False] exI [of _ r]) (simp add: repo_copy_def repo_map_def hget_handles_of)
next
  case (Some h)
  then have needed: "\<not> (\<exists>c. own_chunk r d c \<and> (repeated_chunk r d c \<or> s = d))" using assms(3) by (auto simp: hget_handles_of)
  have "\<exists>r'. repo_copy s d r = (Ok True, r') \<and> repo_inv bl X S N r' \<and> repo_step bl r r' \<and>
      repo_map bl X r' = (repo_map bl X r)(d \<mapsto> handle_content bl X (rstate r) h)"
  proof (cases "s = d")
    case True
    then have "refs_of (rstate r) c \<noteq> {handle_id h}" if "c \<in> set (handle_chunks h)" for c
      using needed Some that by (auto simp: own_chunk_def)
    with repo_copy_self_ok [OF assms(1), of 0 s h] assms(2) Some True show ?thesis by simp
  next
    case False
    have "replaceable r d" using needed replaceable_iff [OF assms(1)] by blast
    with repo_copy_ok [OF assms(1), of d 0 s h] assms(2) Some False show ?thesis by auto
  qed
  then show ?thesis using Some by (elim exE conjE) (rule exI [of _ True], simp add: repo_map_def)
qed

text \<open>
  C17: The objects of a repository refine a map from keys to contents.  From a well-formed repository with
  a free handle ID, inserting a key gives it an empty object, replacing the one it has, removing a key removes it and
  says whether it was there, and copying gives the destination the contents of the source; the result is again
  well-formed and no other key is touched.  The only exceptions are commands that remove chunks they still need, and
  these panic: a chunk that no other object has occurs twice in the object that is removed or replaced, or an object
  that has such a chunk is copied onto itself.
\<close>

theorem repo_refines_map:
  assumes "repo_inv bl X S N r" "ids_left 1 (handle_table r)"
  shows "if frees_needed r c then \<exists>p r'. run_command Z c r = (Panic p, r')
    else \<exists>b r'. run_command Z c r = (Ok b, r') \<and> spec_command c (repo_map bl X r) = (b, repo_map bl X r') \<and>
      repo_inv bl X S N r' \<and> repo_step bl r r'"
proof (cases "frees_needed r c")
  case True
  note panic = vacate_panics [of r "frees c"] replaceable_iff [OF assms(1), of "frees c"]
  have "panics (run_command Z c) r"
  proof (cases c)
    case (CCopy s d)
    show ?thesis
    proof (cases "replaceable r d")
      case True
      then obtain h x where x: "s = d" "hget (handles_of r) s = Some h" "x \<in> set (handle_chunks h)" "refs_of (rstate r) x = {handle_id h}"
        using \<open>frees_needed r c\<close> CCopy replaceable_iff [OF assms(1), of d] by (auto simp: own_chunk_def)
      from copy_self_panics [OF assms(1) x(2-4)] x(1) CCopy show ?thesis by (auto simp: panics_iff)
    qed (use \<open>frees_needed r c\<close> CCopy panic in \<open>auto simp: panics_def\<close>)
  next
    case (CInsert k)
    then have "panics (repo_insert Z k) r" using True panic by auto
    from panics_bind [OF this] CInsert show ?thesis by (simp add: panics_def)
  next
    case (CRemove k)
    then show ?thesis using True panic by (auto simp: panics_def)
  qed
  then show ?thesis using True by (simp add: panics_iff)
next
  case False
  show ?thesis
  proof (cases c)
    case (CInsert k)
    then have "replaceable r k" using False replaceable_iff [OF assms(1), of k] by simp
    then obtain ob r' where "repo_insert Z k r = (Ok ob, r')" "repo_inv bl X S N r'" "repo_step bl r r'"
      "repo_map bl X r' = (repo_map bl X r)(k \<mapsto> [])"
      using repo_insert_ok [OF assms(1), of k 0 Z] assms(2) by auto
    with False CInsert show ?thesis by (auto simp: bindR_def intro: exI [of _ True])
  next
    case (CRemove k)
    then have "replaceable r k" using False replaceable_iff [OF assms(1), of k] by simp
    then obtain b r' where r': "repo_remove k r = (Ok b, r')" "repo_inv bl X S N r'" "repo_step bl r r'"
      "repo_map bl X r' = (repo_map bl X r)(k := None)" using vacate_ok [OF assms(1)] by blast
    have "b \<longleftrightarrow> repo_map bl X r k \<noteq> None"
      using r'(1) by (auto simp: repo_remove_def bindR_def repo_map_def hget_handles_of split: option.splits prod.splits result.splits)
    with r' False CRemove show ?thesis by simp
  next
    case (CCopy s d)
    with copy_refines_map [OF assms, of s d] False show ?thesis by (simp del: frees_needed.simps)
  qed
qed

theorem repo_refines_map_witness:
  "(\<exists>r'. repo_copy 7 (8 :: nat) (ref_keyed 7) = (Ok True, r') \<and>
    repo_map mem_blocks ref_ext r' = [7 \<mapsto> [1, 2, 3, 0, 0], 8 \<mapsto> [1, 2, 3, 0, 0]]) \<and>
   (\<exists>p r'. repo_remove 7 (ref_one (7 :: nat) ref_twice) = (Panic p, r'))"
proof -
  have "\<not> frees_needed (ref_keyed 7) (CCopy 7 (8 :: nat))" by (simp add: own_chunk_def ref_one_handles)
  moreover have "frees_needed (ref_one (7 :: nat) ref_twice) (CRemove 7)"
    by (simp add: own_chunk_def repeated_chunk_def ref_one_handles ref_twice_facts(2,3) ref_refs)
  ultimately show ?thesis
    using repo_refines_map [OF ref_keyed_inv, of "7 :: nat" "CCopy 7 8" ref_zpaq]
      repo_refines_map [OF ref_twice_facts(1), of "7 :: nat" "CRemove 7" ref_zpaq]
    by (auto simp: ids_left_def ref_keyed_map simp del: frees_needed.simps)
qed

end
