(* ===== verification/State_Repo.thy ===== *)
theory State_Repo
  imports Repo_Objects
begin

text \<open>
  The state repository (\<^verbatim>\<open>src/src/repo/state/repository.rs\<close>, \<^verbatim>\<open>info.rs\<close>), on which the value, content, version
  and file repositories are built: objects with generated keys and one serialized state, both kept in a
  key repository.  The type of the state, its default and its serialization are parameters.
\<close>

section \<open>State\<close>

datatype repo_key = KObject u64 | KState | KIdTable | KStage

record object_key =
  ok_repo :: uuid
  ok_instance :: uuid
  ok_object :: u64

record 'st saved_state =
  ss_state :: 'st
  ss_ids :: id_table

record ('st, 's) state_repo =
  sr_repo :: "(repo_key, 's) key_repo"
  sr_ids :: id_table
  sr_state :: 'st

record 'st state_restore =
  str_state :: "'st saved_state"
  str_restore :: "repo_key key_restore"

record 'st state_codec =
  default_state :: 'st
  to_vec_state :: "'st \<Rightarrow> bytes option"
  from_state :: "'st decoder"
  to_vec_ids :: "id_table \<Rightarrow> bytes option"
  from_ids :: "id_table decoder"

definition STATE_REPO_VERSION_ID :: uuid where
  "STATE_REPO_VERSION_ID = 0xbb93f91ace4a11eb9c6bb78939b5b629"

definition on_key_repo :: "((repo_key, 's) key_repo, 'a) op \<Rightarrow> (('st, 's) state_repo, 'a) op" where
  "on_key_repo m r = (case m (sr_repo r) of (x, q) \<Rightarrow> (x, r\<lparr>sr_repo := q\<rparr>))"

text \<open>An operation on an \<^verbatim>\<open>Object\<close> that is dropped afterwards.\<close>

definition use_object :: "(('k, 's, 'c) view, 'a) op \<Rightarrow> 'c object \<Rightarrow> (('k, 's) key_repo, 'a) op" where
  "use_object m ob r = (case m (r, ob) of (x, v) \<Rightarrow> (x, object_drop v))"

section \<open>Reading and writing the state\<close>

definition read_stored :: "('s, 'z) env \<Rightarrow> 'k \<Rightarrow> 'v decoder \<Rightarrow> 'v \<Rightarrow> (('k, 's) key_repo, 'v) op" where
  "read_stored E k dec dflt r = (case repo_object (ev_zpaq E) k r of
      Some ob \<Rightarrow> use_object (view_deserialize (ev_store E) (ev_ext E) dec) ob r
    | None \<Rightarrow> (Ok dflt, r))"

definition read_state :: "('s, 'z) env \<Rightarrow> 'st state_codec \<Rightarrow> ((repo_key, 's) key_repo, 'st saved_state) op" where
  "read_state E C =
     bindR (read_stored E KState (from_state C) (default_state C)) (\<lambda>state.
     bindR (read_stored E KIdTable (from_ids C) id_new) (\<lambda>id_table.
     ret \<lparr>ss_state = state, ss_ids = id_table\<rparr>))"

definition write_stored :: "('s, 'z) env \<Rightarrow> repo_key \<Rightarrow> bytes option \<Rightarrow> ((repo_key, 's) key_repo, unit) op" where
  "write_stored E k v =
     bindR (repo_insert (ev_zpaq E) KStage) (\<lambda>ob.
     bindR (use_object (view_serialize (ev_store E) (ev_ext E) (dyn_ops (ev_zpaq E)) v) ob) (\<lambda>_.
     bindR (repo_copy KStage k) (\<lambda>_. ret ())))"

definition write_state :: "('s, 'z) env \<Rightarrow> 'st state_codec \<Rightarrow> (('st, 's) state_repo, unit) op" where
  "write_state E C r =
     bindR (on_key_repo (write_stored E KState (to_vec_state C (sr_state r)))) (\<lambda>_.
     on_key_repo (write_stored E KIdTable (to_vec_ids C (sr_ids r)))) r"

section \<open>Opening\<close>

definition state_repo_open :: "('s, 'z) env \<Rightarrow> 'st state_codec \<Rightarrow> ((repo_key, 's) key_repo, ('st, 's) state_repo) op" where
  "state_repo_open E C = bindR (read_state E C) (\<lambda>ss q.
     (Ok \<lparr>sr_repo = q, sr_ids = ss_ids ss, sr_state = ss_state ss\<rparr>, q))"

definition state_repo_create :: "('s, 'z) env \<Rightarrow> 'st state_codec \<Rightarrow> ((repo_key, 's) key_repo, ('st, 's) state_repo) op" where
  "state_repo_create E C q = (case write_state E C \<lparr>sr_repo = q, sr_ids = id_new, sr_state = default_state C\<rparr> of
      (Ok u, r) \<Rightarrow> (Ok r, sr_repo r)
    | (Err e, r) \<Rightarrow> (Err e, sr_repo r)
    | (Panic p, r) \<Rightarrow> (Panic p, sr_repo r)
    | (Diverge, r) \<Rightarrow> (Diverge, sr_repo r))"

definition state_into_repo :: "('s, 'z) env \<Rightarrow> 'st state_codec \<Rightarrow> (('st, 's) state_repo, (repo_key, 's) key_repo) op" where
  "state_into_repo E C = bindR (write_state E C) (\<lambda>_ r. (Ok (sr_repo r), r))"

definition state_mut :: "('st \<Rightarrow> 'st) \<Rightarrow> (('st, 's) state_repo, unit) op" where
  "state_mut f = modify (\<lambda>r. r\<lparr>sr_state := f (sr_state r)\<rparr>)"

section \<open>Objects\<close>

definition new_id :: "('st, 's) state_repo \<Rightarrow> u64 \<Rightarrow> object_key" where
  "new_id r i = \<lparr>ok_repo = ri_id (repo_get_info (sr_repo r)), ok_instance = instance_id (sr_repo r), ok_object = i\<rparr>"

definition check_key :: "('st, 's) state_repo \<Rightarrow> object_key \<Rightarrow> bool" where
  "check_key r key \<longleftrightarrow> ok_repo key = ri_id (repo_get_info (sr_repo r)) \<and> ok_instance key = instance_id (sr_repo r)"

definition state_contains :: "('st, 's) state_repo \<Rightarrow> object_key \<Rightarrow> bool" where
  "state_contains r key \<longleftrightarrow> check_key r key \<and> repo_contains (sr_repo r) (KObject (ok_object key))"

definition state_create :: "'z zpaq \<Rightarrow> (('st, 's) state_repo, object_key) op" where
  "state_create Z r = (case id_next (sr_ids r) of (i, t) \<Rightarrow>
     bindR (on_key_repo (repo_insert Z (KObject i))) (\<lambda>_ r. (Ok (new_id r i), r)) (r\<lparr>sr_ids := t\<rparr>))"

definition state_remove :: "object_key \<Rightarrow> (('st, 's) state_repo, bool) op" where
  "state_remove key r = (if \<not> check_key r key then (Ok False, r)
     else case id_recycle (ok_object key) (sr_ids r) of
        (False, t) \<Rightarrow> (Ok False, r\<lparr>sr_ids := t\<rparr>)
      | (True, t) \<Rightarrow> bindR (on_key_repo (repo_remove (KObject (ok_object key)))) (\<lambda>b.
          if b then ret True else panic ''assertion failed: self.repo.remove(&RepoKey::Object(key.object_id))'')
          (r\<lparr>sr_ids := t\<rparr>))"

definition state_object :: "'z zpaq \<Rightarrow> object_key \<Rightarrow> ('st, 's) state_repo \<Rightarrow> 'z chunker object option" where
  "state_object Z key r = (if \<not> check_key r key then None else repo_object Z (KObject (ok_object key)) (sr_repo r))"

definition unwrap_option :: "'a option \<Rightarrow> ('s, 'a) op" where
  "unwrap_option x = (case x of None \<Rightarrow> panic ''called `Option::unwrap()` on a `None` value'' | Some a \<Rightarrow> ret a)"

definition unwrap_result :: "('s, 'a) op \<Rightarrow> ('s, 'a) op" where
  "unwrap_result m r = (case m r of
      (Err e, r') \<Rightarrow> (Panic ''called `Result::unwrap()` on an `Err` value'', r')
    | (x, r') \<Rightarrow> (x, r'))"

text \<open>\<^verbatim>\<open>object(key).unwrap()\<close>, an operation on the object, and its end.\<close>

definition state_use :: "'z zpaq \<Rightarrow> object_key \<Rightarrow> ((repo_key, 's, 'z chunker) view, 'a) op \<Rightarrow> (('st, 's) state_repo, 'a) op" where
  "state_use Z key m r = bindR (unwrap_option (state_object Z key r)) (\<lambda>ob. on_key_repo (use_object m ob)) r"

definition state_keys :: "('st, 's) state_repo \<Rightarrow> object_key list" where
  "state_keys r = List.map_filter (\<lambda>k. case k of KObject i \<Rightarrow> Some (new_id r i) | _ \<Rightarrow> None) (repo_keys (sr_repo r))"

definition state_copy :: "object_key \<Rightarrow> (('st, 's) state_repo, object_key option) op" where
  "state_copy source r =
    (if \<not> check_key r source \<or> \<not> repo_contains (sr_repo r) (KObject (ok_object source)) then (Ok None, r)
     else case id_next (sr_ids r) of (dest_id, t) \<Rightarrow>
       bindR (on_key_repo (repo_copy (KObject (ok_object source)) (KObject dest_id))) (\<lambda>b r.
         if b then (Ok (Some (new_id r dest_id)), r)
         else (Panic ''assertion failed: self.repo.copy(&RepoKey::Object(source.object_id), RepoKey::Object(dest_id))'', r))
         (r\<lparr>sr_ids := t\<rparr>))"

definition state_verify :: "('s, 'z) env \<Rightarrow> (('st, 's) state_repo, object_key list) op" where
  "state_verify E = bindR (on_key_repo (repo_verify E)) (\<lambda>ks r.
     (Ok (List.map_filter (\<lambda>k. case k of KObject i \<Rightarrow> Some (new_id r i) | _ \<Rightarrow> None) ks), r))"

definition state_clear_instance :: "'st state_codec \<Rightarrow> (('st, 's) state_repo, unit) op" where
  "state_clear_instance C r = on_key_repo clear_instance (r\<lparr>sr_state := default_state C, sr_ids := id_new\<rparr>)"

definition state_change_password :: "ext \<Rightarrow> bytes \<Rightarrow> (('st, 's) state_repo, unit) op" where
  "state_change_password X p = on_key_repo (on_state (change_password X p))"

definition state_instance :: "('st, 's) state_repo \<Rightarrow> uuid" where
  "state_instance r = instance_id (sr_repo r)"

definition state_info :: "('st, 's) state_repo \<Rightarrow> repo_info" where
  "state_info r = repo_get_info (sr_repo r)"

section \<open>Commit, rollback and savepoints\<close>

definition state_commit :: "('s, 'z) env \<Rightarrow> repo_key map_codec \<Rightarrow> 'st state_codec \<Rightarrow> (('st, 's) state_repo, unit) op" where
  "state_commit E M C = bindR (write_state E C) (\<lambda>_. on_key_repo (repo_commit E M))"

definition put_saved :: "'st saved_state \<Rightarrow> ('st, 's) state_repo \<Rightarrow> ('st, 's) state_repo" where
  "put_saved ss r = r\<lparr>sr_state := ss_state ss, sr_ids := ss_ids ss\<rparr>"

text \<open>
  \<^verbatim>\<open>finish_restore\<close> while other values hold some handles strongly: those are not freed.
\<close>

definition finish_restore_with :: "addr set \<Rightarrow> 'k key_restore \<Rightarrow> (('k, 's) key_repo, bool) op" where
  "finish_restore_with P k r =
    (if kr_transaction k \<noteq> transaction_id r then (Ok False, r)
     else if kr_instance k \<noteq> instance_id r then (Ok False, r)
     else (Ok True, (free_handles (filter (\<lambda>a. a \<notin> set (hvalues (kr_objects k)) \<and> a \<notin> P) (hvalues (objects r)))
       (put_header (kr_header k) r))\<lparr>objects := kr_objects k\<rparr>))"

definition state_rollback :: "('s, 'z) env \<Rightarrow> repo_key map_codec \<Rightarrow> 'st state_codec \<Rightarrow> (('st, 's) state_repo, unit) op" where
  "state_rollback E M C =
     bindR (on_key_repo (repo_savepoint E M)) (\<lambda>backup_savepoint.
     bindR (on_key_repo (start_restore E M backup_savepoint)) (\<lambda>backup_restore.
     bindR (on_key_repo (repo_rollback E M)) (\<lambda>_ r.
       (case on_key_repo (read_state E C) r of
          (Ok ss, r') \<Rightarrow> (Ok (), put_saved ss r')
        | (Err e, r') \<Rightarrow> bindR (on_key_repo (finish_restore backup_restore)) (\<lambda>_. throw e) r'
        | (Panic p, r') \<Rightarrow> (Panic p, r')
        | (Diverge, r') \<Rightarrow> (Diverge, r')))))"

definition state_clean :: "('s, 'z) env \<Rightarrow> (('st, 's) state_repo, unit) op" where
  "state_clean E = on_key_repo (repo_clean E)"

definition state_savepoint :: "('s, 'z) env \<Rightarrow> repo_key map_codec \<Rightarrow> 'st state_codec \<Rightarrow> (('st, 's) state_repo, savepoint) op" where
  "state_savepoint E M C = bindR (write_state E C) (\<lambda>_. on_key_repo (repo_savepoint E M))"

text \<open>
  The restore that is returned shares its handles with the clone that is finished first, so finishing
  the backup does not free them.
\<close>

definition state_start_restore ::
  "('s, 'z) env \<Rightarrow> repo_key map_codec \<Rightarrow> 'st state_codec \<Rightarrow> savepoint \<Rightarrow> (('st, 's) state_repo, 'st state_restore) op" where
  "state_start_restore E M C sp =
     bindR (on_key_repo (repo_savepoint E M)) (\<lambda>backup_savepoint.
     bindR (on_key_repo (start_restore E M backup_savepoint)) (\<lambda>backup_restore.
     bindR (on_key_repo (start_restore E M sp)) (\<lambda>restore.
     bindR (on_key_repo (finish_restore restore)) (\<lambda>_ r.
       let finish_backup = on_key_repo (finish_restore_with (set (hvalues (kr_objects restore))) backup_restore) in
       (case on_key_repo (read_state E C) r of
          (Ok ss, r') \<Rightarrow> bindR finish_backup (\<lambda>_. ret \<lparr>str_state = ss, str_restore = restore\<rparr>) r'
        | (Err e, r') \<Rightarrow> bindR finish_backup (\<lambda>_. throw e) r'
        | (Panic p, r') \<Rightarrow> (Panic p, r')
        | (Diverge, r') \<Rightarrow> (Diverge, r'))))))"

definition state_finish_restore :: "'st state_restore \<Rightarrow> (('st, 's) state_repo, bool) op" where
  "state_finish_restore k = bindR (on_key_repo (finish_restore (str_restore k))) (\<lambda>b r.
     if b then (Ok True, put_saved (str_state k) r) else (Ok False, r))"

definition str_is_valid :: "('st, 's) state_repo \<Rightarrow> 'st state_restore \<Rightarrow> bool" where
  "str_is_valid r k \<longleftrightarrow> kr_transaction (str_restore k) = transaction_id (sr_repo r)"

definition str_instance :: "'st state_restore \<Rightarrow> uuid" where
  "str_instance k = kr_instance (str_restore k)"

end
