(* ===== verification/State_Correct.thy ===== *)
theory State_Correct
  imports State_Repo
begin

text \<open>
  What the state repository promises its clients: a pool of objects under generated keys, and a state
  that is read back as it was written.
\<close>

lemma ex_bool [simp]: "\<exists>b. b" "\<exists>b. \<not> b"
  by blast+

section \<open>The invariant\<close>

text \<open>Objects that can be removed: no chunk occurs twice in them.\<close>

definition unrepeated :: "('k, 's) key_repo \<Rightarrow> 'k \<Rightarrow> bool" where
  "unrepeated r k \<longleftrightarrow> (\<forall>h. hget (handles_of r) k = Some h \<longrightarrow> distinct (handle_chunks h))"

definition state_map :: "('s \<Rightarrow> uuid \<rightharpoonup> bytes) \<Rightarrow> ext \<Rightarrow> ('st, 's) state_repo \<Rightarrow> u64 \<rightharpoonup> bytes" where
  "state_map bl X r i = repo_map bl X (sr_repo r) (KObject i)"

text \<open>
  The allocated IDs are those of the objects, and 0, which is never allocated and which the table
  takes for allocated.
\<close>

definition state_inv ::
  "('s \<Rightarrow> uuid \<rightharpoonup> bytes) \<Rightarrow> ext \<Rightarrow> bytes set \<Rightarrow> nat \<Rightarrow> (chunking \<Rightarrow> bool) \<Rightarrow> ('st, 's) state_repo \<Rightarrow> bool" where
  "state_inv bl X S N good r \<longleftrightarrow> repo_inv bl X S N (sr_repo r) \<and> good (config_chunking (cfg (rstate (sr_repo r)))) \<and>
     transactions (rstate (sr_repo r)) = {} \<and> id_inv (sr_ids r) \<and>
     id_live (sr_ids r) = insert 0 (dom (state_map bl X r)) \<and> state_map bl X r 0 = None"

text \<open>What stays: the repository and its other objects.\<close>

definition state_step :: "('s \<Rightarrow> uuid \<rightharpoonup> bytes) \<Rightarrow> repo_key set \<Rightarrow> ('st, 's) state_repo \<Rightarrow> ('st, 's) state_repo \<Rightarrow> bool" where
  "state_step bl K r r' \<longleftrightarrow> repo_step bl (sr_repo r) (sr_repo r') \<and>
     (\<forall>k. k \<notin> K \<longrightarrow> hget (handles_of (sr_repo r')) k = hget (handles_of (sr_repo r)) k)"

lemma state_step_refl [simp]: "state_step bl K r r"
  by (simp add: state_step_def)

lemma state_step_trans: "state_step bl K r r' \<Longrightarrow> state_step bl L r' r'' \<Longrightarrow> state_step bl (K \<union> L) r r''"
  unfolding state_step_def using repo_step_trans by fastforce

lemma repo_map_None: "repo_map bl X r k = None \<longleftrightarrow> hget (objects r) k = None"
  by (simp add: repo_map_def hget_handles_of)

lemma handles_None: "hget (handles_of r) k = None \<longleftrightarrow> hget (objects r) k = None"
  by (simp add: hget_handles_of)

lemma state_map_None: "state_map bl X r i = None \<longleftrightarrow> hget (objects (sr_repo r)) (KObject i) = None"
  by (simp add: state_map_def repo_map_None)

lemma state_invD:
  assumes "state_inv bl X S N good r"
  shows "repo_inv bl X S N (sr_repo r)" "good (config_chunking (cfg (rstate (sr_repo r))))"
    "transactions (rstate (sr_repo r)) = {}" "id_inv (sr_ids r)"
    "id_live (sr_ids r) = insert 0 (dom (state_map bl X r))" "state_map bl X r 0 = None"
  using assms unfolding state_inv_def by auto

lemma repo_step_cfg: "repo_step bl r r' \<Longrightarrow> cfg (rstate r') = cfg (rstate r) \<and> transactions (rstate r') = transactions (rstate r)"
  by (simp add: repo_step_def same_rest_def)

lemma repo_step_new_id: "repo_step bl (sr_repo r) (sr_repo r') \<Longrightarrow> new_id r' = new_id r \<and> check_key r' = check_key r"
  by (auto simp: repo_step_def same_rest_def new_id_def check_key_def repo_get_info_def fun_eq_iff)

lemma check_new_id [simp]: "check_key r (new_id r i)" "ok_object (new_id r i) = i"
  by (simp_all add: check_key_def new_id_def)

lemma check_key_new_id: "check_key r key \<Longrightarrow> key = new_id r (ok_object key)"
  by (cases key) (simp add: check_key_def new_id_def)

lemma state_inv_change:
  assumes "state_inv bl X S N good r" "repo_inv bl X S N q" "repo_step bl (sr_repo r) q" "id_inv t"
    "id_live t = insert 0 (dom m)" "\<And>i. repo_map bl X q (KObject i) = m i" "m 0 = None"
  shows "state_inv bl X S N good (r\<lparr>sr_ids := t, sr_repo := q\<rparr>)" "state_map bl X (r\<lparr>sr_ids := t, sr_repo := q\<rparr>) = m"
proof -
  show m: "state_map bl X (r\<lparr>sr_ids := t, sr_repo := q\<rparr>) = m" using assms(6) by (simp add: fun_eq_iff state_map_def)
  show "state_inv bl X S N good (r\<lparr>sr_ids := t, sr_repo := q\<rparr>)"
    using assms m repo_step_cfg [OF assms(3)] by (simp add: state_inv_def)
qed

text \<open>The state itself does not matter for the objects.\<close>

lemma state_map_mut [simp]: "state_map bl X (r\<lparr>sr_state := x\<rparr>) = state_map bl X r"
  by (simp add: state_map_def fun_eq_iff)

lemma state_mut_facts [simp]:
  "state_mut f r = (Ok (), r\<lparr>sr_state := f (sr_state r)\<rparr>)"
  "state_inv bl X S N good (r\<lparr>sr_state := x\<rparr>) = state_inv bl X S N good r"
  "check_key (r\<lparr>sr_state := x\<rparr>) = check_key r" "new_id (r\<lparr>sr_state := x\<rparr>) = new_id r"
  by (simp_all add: state_mut_def state_inv_def check_key_def new_id_def fun_eq_iff)

lemma state_step_check: "state_step bl K r r' \<Longrightarrow> check_key r' = check_key r \<and> new_id r' = new_id r"
  using repo_step_new_id by (auto simp: state_step_def)

text \<open>The objects stay where they are, and the chunks that are there stay: what an \<^verbatim>\<open>Object\<close> that is open relies on.\<close>

definition same_places :: "('s \<Rightarrow> uuid \<rightharpoonup> bytes) \<Rightarrow> ext \<Rightarrow> ('st, 's) state_repo \<Rightarrow> ('st, 's) state_repo \<Rightarrow> bool" where
  "same_places bl X r r' \<longleftrightarrow> objects (sr_repo r') = objects (sr_repo r) \<and> grows bl X (rstate (sr_repo r)) (rstate (sr_repo r'))"

lemma same_places_trans: "same_places bl X r r' \<Longrightarrow> same_places bl X r' r'' \<Longrightarrow> same_places bl X r r''"
  unfolding same_places_def by (auto intro: grows_trans)

lemma state_step_unrepeated: "state_step bl K r r' \<Longrightarrow> k \<notin> K \<Longrightarrow> unrepeated (sr_repo r') k = unrepeated (sr_repo r) k"
  by (simp add: state_step_def unrepeated_def)

lemma unrepeated_replaceable:
  assumes "repo_inv bl X S N r" "unrepeated r k"
  shows "replaceable r k"
  using assms repo_invD(6) [OF assms(1)] unfolding unrepeated_def replaceable_def by (blast intro: handle_removable)

lemma unrepeated_cong: "hget (handles_of r') k = hget (handles_of r) k \<Longrightarrow> unrepeated r' k = unrepeated r k"
  by (simp add: unrepeated_def)

lemma replaceable_free: "hget (objects r) k = None \<Longrightarrow> replaceable r k"
  by (simp add: replaceable_def hget_handles_of)

section \<open>Creating, removing and copying objects\<close>

lemma state_create_ok:
  assumes inv: "state_inv bl X S N good r" and left: "ids_left (Suc m) (sr_ids r)" "ids_left (Suc n) (handle_table (sr_repo r))"
  shows "\<exists>i r'. state_create Z r = (Ok (new_id r i), r') \<and> i \<noteq> 0 \<and> state_map bl X r i = None \<and> state_inv bl X S N good r' \<and>
    state_step bl {KObject i} r r' \<and> state_map bl X r' = (state_map bl X r)(i \<mapsto> []) \<and> sr_state r' = sr_state r \<and>
    rng (rstate (sr_repo r')) = rng (rstate (sr_repo r)) \<and> ids_left m (sr_ids r') \<and> ids_left n (handle_table (sr_repo r')) \<and>
    map_option extents (hget (handles_of (sr_repo r')) (KObject i)) = Some []"
proof -
  note I = state_invD [OF inv]
  obtain i t where it: "id_next (sr_ids r) = (i, t)" by fastforce
  note T = ids_left_next [OF left(1) I(4) it]
  have i: "i \<noteq> 0" "state_map bl X r i = None" using T(1) I(5) by auto
  then have free: "hget (objects (sr_repo r)) (KObject i) = None" by (simp add: state_map_None)
  obtain ob q j where q: "repo_insert Z (KObject i) (sr_repo r) = (Ok ob, q)" "repo_inv bl X S N q" "repo_step bl (sr_repo r) q"
    "hget (handles_of q) = (hget (handles_of (sr_repo r)))(KObject i \<mapsto> \<lparr>handle_id = j, extents = []\<rparr>)"
    "repo_map bl X q = (repo_map bl X (sr_repo r))(KObject i \<mapsto> [])" "rng (rstate q) = rng (rstate (sr_repo r))"
    "ids_left n (handle_table q)"
    using repo_insert_ok [OF I(1) replaceable_free [OF free] left(2)] by blast
  let ?r = "r\<lparr>sr_ids := t, sr_repo := q\<rparr>"
  have run: "state_create Z r = (Ok (new_id ?r i), ?r)" by (simp add: state_create_def it on_key_repo_def q(1) bindR_def)
  have new: "new_id ?r = new_id r" using repo_step_new_id [of bl r ?r] q(3) by simp
  note R = state_inv_change [OF inv q(2,3) T(3), of "(state_map bl X r)(i \<mapsto> [])"]
  have "id_live t = insert 0 (dom ((state_map bl X r)(i \<mapsto> [])))" using T(2) I(5) by auto
  then have "state_inv bl X S N good ?r" "state_map bl X ?r = (state_map bl X r)(i \<mapsto> [])"
    using R I(6) i by (simp_all add: q(5) state_map_def)
  moreover have "state_step bl {KObject i} r ?r" using q(3,4) by (simp add: state_step_def)
  ultimately show ?thesis using run new i q(4,6,7) T(4) by auto
qed

text \<open>
  An object is removed unless the removal panics, which it only does if a chunk occurs twice in the object.  The lemmas on
  operations that remove objects have that alternative as a premise.
\<close>

lemma state_remove_ok:
  assumes inv: "state_inv bl X S N good r" and key: "check_key r key" "state_map bl X r (ok_object key) \<noteq> None"
    and un: "unrepeated (sr_repo r) (KObject (ok_object key)) \<or> \<not> panics (state_remove key) r"
  shows "\<exists>r'. state_remove key r = (Ok True, r') \<and> state_inv bl X S N good r' \<and> state_step bl {KObject (ok_object key)} r r' \<and>
    state_map bl X r' = (state_map bl X r)(ok_object key := None) \<and> sr_state r' = sr_state r \<and>
    rng (rstate (sr_repo r')) = rng (rstate (sr_repo r)) \<and> (\<forall>n. ids_left n (sr_ids r) \<longrightarrow> ids_left n (sr_ids r')) \<and>
    (\<forall>n. ids_left n (handle_table (sr_repo r)) \<longrightarrow> ids_left n (handle_table (sr_repo r')))"
proof -
  note I = state_invD [OF inv]
  let ?i = "ok_object key"
  obtain h where h: "hget (handles_of (sr_repo r)) (KObject ?i) = Some h"
    using key(2) by (auto simp: state_map_def repo_map_def)
  have i: "?i \<noteq> 0" "?i \<in> id_live (sr_ids r)" using key(2) I(5,6) by auto
  then obtain t where t: "id_recycle ?i (sr_ids r) = (True, t)" "id_live t = id_live (sr_ids r) - {?i}" "id_inv t"
    using id_recycle_live [OF I(4) i(2)] by blast
  have rem: "removable (rstate (sr_repo r)) (handle_id h) (handle_chunks h)"
  proof (rule ccontr)
    assume not: "\<not> ?thesis"
    then have "panics (state_remove key) r"
      using repo_remove_panic [OF h not] by (auto simp: panics_iff state_remove_def key(1) t(1) on_key_repo_def bindR_def)
    with un not unrepeated_replaceable [OF I(1)] h show False by (simp add: replaceable_def)
  qed
  obtain q where q: "repo_remove (KObject ?i) (sr_repo r) = (Ok True, q)" "repo_inv bl X S N q" "repo_step bl (sr_repo r) q"
    "hget (handles_of q) = (hget (handles_of (sr_repo r)))(KObject ?i := None)"
    "repo_map bl X q = (repo_map bl X (sr_repo r))(KObject ?i := None)" "rng (rstate q) = rng (rstate (sr_repo r))"
    "\<forall>n. ids_left n (handle_table (sr_repo r)) \<longrightarrow> ids_left n (handle_table q)"
    using repo_remove_ok [OF I(1) h rem] by blast
  let ?r = "r\<lparr>sr_ids := t, sr_repo := q\<rparr>"
  have run: "state_remove key r = (Ok True, ?r)"
    by (simp add: state_remove_def key(1) t(1) on_key_repo_def q(1) bindR_def)
  note R = state_inv_change [OF inv q(2,3) t(3), of "(state_map bl X r)(?i := None)"]
  have "id_live t = insert 0 (dom ((state_map bl X r)(?i := None)))" using t(2) I(5) i(1) by auto
  then have "state_inv bl X S N good ?r" "state_map bl X ?r = (state_map bl X r)(?i := None)"
    using R I(6) by (simp_all add: q(5) state_map_def)
  moreover have "state_step bl {KObject ?i} r ?r" using q(3,4) by (simp add: state_step_def)
  moreover have "ids_left n t" if "ids_left n (sr_ids r)" for n using ids_left_recycle [OF that, of ?i] t(1) by simp
  ultimately show ?thesis using run q(6,7) by auto
qed

lemma state_remove_absent:
  assumes "state_inv bl X S N good r" "\<not> check_key r key \<or> ok_object key \<noteq> 0 \<and> state_map bl X r (ok_object key) = None"
  shows "state_remove key r = (Ok False, r)"
proof (cases "check_key r key")
  case True
  with assms have "ok_object key \<notin> id_live (sr_ids r)" using state_invD(5) [OF assms(1)] by auto
  then show ?thesis by (simp add: state_remove_def True id_recycle_def id_live_def)
qed (simp add: state_remove_def)

lemma state_copy_ok:
  assumes inv: "state_inv bl X S N good r" and key: "check_key r key" "state_map bl X r (ok_object key) = Some v"
    and left: "ids_left (Suc m) (sr_ids r)" "ids_left (Suc n) (handle_table (sr_repo r))"
  shows "\<exists>i r'. state_copy key r = (Ok (Some (new_id r i)), r') \<and> i \<noteq> 0 \<and> state_map bl X r i = None \<and> state_inv bl X S N good r' \<and>
    state_step bl {KObject i} r r' \<and> state_map bl X r' = (state_map bl X r)(i \<mapsto> v) \<and> sr_state r' = sr_state r \<and>
    rng (rstate (sr_repo r')) = rng (rstate (sr_repo r)) \<and> ids_left m (sr_ids r') \<and> ids_left n (handle_table (sr_repo r')) \<and>
    map_option extents (hget (handles_of (sr_repo r')) (KObject i)) =
      map_option extents (hget (handles_of (sr_repo r)) (KObject (ok_object key)))"
proof -
  note I = state_invD [OF inv]
  let ?k = "KObject (ok_object key)"
  obtain h where h: "hget (handles_of (sr_repo r)) ?k = Some h" "v = handle_content bl X (rstate (sr_repo r)) h"
    using key(2) by (auto simp: state_map_def repo_map_def)
  obtain i t where it: "id_next (sr_ids r) = (i, t)" by fastforce
  note T = ids_left_next [OF left(1) I(4) it]
  have i: "i \<noteq> 0" "state_map bl X r i = None" using T(1) I(5) by auto
  then have free: "hget (objects (sr_repo r)) (KObject i) = None" by (simp add: state_map_None)
  have has: "hget (objects (sr_repo r)) ?k \<noteq> None" using key(2) state_map_None [of bl X r] by (metis option.distinct(1))
  with free have ne: "?k \<noteq> KObject i" by auto
  obtain q j where q: "repo_copy ?k (KObject i) (sr_repo r) = (Ok True, q)" "repo_inv bl X S N q" "repo_step bl (sr_repo r) q"
    "hget (handles_of q) = (hget (handles_of (sr_repo r)))(KObject i \<mapsto> \<lparr>handle_id = j, extents = extents h\<rparr>)"
    "repo_map bl X q = (repo_map bl X (sr_repo r))(KObject i \<mapsto> v)" "rng (rstate q) = rng (rstate (sr_repo r))"
    "ids_left n (handle_table q)"
    using repo_copy_ok [OF I(1) replaceable_free [OF free] left(2) ne h(1)] unfolding h(2) by blast
  let ?r = "r\<lparr>sr_ids := t, sr_repo := q\<rparr>"
  have new: "new_id ?r = new_id r" using repo_step_new_id [of bl r ?r] q(3) by simp
  have run: "state_copy key r = (Ok (Some (new_id r i)), ?r)"
    using has by (simp add: state_copy_def key(1) it on_key_repo_def q(1) bindR_def new repo_contains_def hcontains_def)
  note R = state_inv_change [OF inv q(2,3) T(3), of "(state_map bl X r)(i \<mapsto> v)"]
  have "id_live t = insert 0 (dom ((state_map bl X r)(i \<mapsto> v)))" using T(2) I(5) by auto
  then have "state_inv bl X S N good ?r" "state_map bl X ?r = (state_map bl X r)(i \<mapsto> v)"
    using R I(6) i by (simp_all add: q(5) state_map_def)
  moreover have "state_step bl {KObject i} r ?r" using q(3,4) by (simp add: state_step_def)
  moreover have "map_option extents (hget (handles_of q) (KObject i)) = map_option extents (hget (handles_of (sr_repo r)) ?k)"
    by (simp add: q(4) h(1))
  ultimately show ?thesis using run i q(6,7) T(4) by auto
qed

lemma state_copy_absent:
  assumes "\<not> check_key r key \<or> state_map bl X r (ok_object key) = None"
  shows "state_copy key r = (Ok None, r)"
  using assms by (auto simp: state_copy_def state_map_None repo_contains_def hcontains_def)

section \<open>Indexes of objects\<close>

text \<open>
  The clients keep the keys of their objects in their state.  An index gives the object key of each
  place of the state; the objects of different places are different.
\<close>

definition index_ok :: "('s \<Rightarrow> uuid \<rightharpoonup> bytes) \<Rightarrow> ext \<Rightarrow> ('st, 's) state_repo \<Rightarrow> ('a \<rightharpoonup> object_key) \<Rightarrow> bool" where
  "index_ok bl X r f \<longleftrightarrow>
     (\<forall>a key. f a = Some key \<longrightarrow> check_key r key \<and> state_map bl X r (ok_object key) \<noteq> None) \<and>
     (\<forall>a b key key'. f a = Some key \<longrightarrow> f b = Some key' \<longrightarrow> ok_object key = ok_object key' \<longrightarrow> a = b)"

definition index_map :: "('s \<Rightarrow> uuid \<rightharpoonup> bytes) \<Rightarrow> ext \<Rightarrow> ('st, 's) state_repo \<Rightarrow> ('a \<rightharpoonup> object_key) \<Rightarrow> 'a \<rightharpoonup> bytes" where
  "index_map bl X r f a = Option.bind (f a) (\<lambda>key. state_map bl X r (ok_object key))"

lemma index_okD:
  assumes "index_ok bl X r f"
  shows "\<And>a key. f a = Some key \<Longrightarrow> check_key r key \<and> state_map bl X r (ok_object key) \<noteq> None"
    "\<And>a b key key'. f a = Some key \<Longrightarrow> f b = Some key' \<Longrightarrow> ok_object key = ok_object key' \<Longrightarrow> a = b"
  using assms unfolding index_ok_def by blast+

lemma index_mut [simp]:
  "index_ok bl X (r\<lparr>sr_state := x\<rparr>) f = index_ok bl X r f" "index_map bl X (r\<lparr>sr_state := x\<rparr>) f = index_map bl X r f"
  by (simp_all add: index_ok_def index_map_def fun_eq_iff)

lemma index_map_None: "index_ok bl X r f \<Longrightarrow> index_map bl X r f a = None \<longleftrightarrow> f a = None"
  using index_okD(1) [of bl X r f a] by (cases "f a") (simp_all add: index_map_def)

lemma index_map_Some:
  assumes "index_ok bl X r f" "f a = Some key"
  obtains v where "check_key r key" "state_map bl X r (ok_object key) = Some v" "index_map bl X r f a = Some v"
  using index_okD(1) [OF assms] assms(2) by (auto simp: index_map_def)

text \<open>The index is unchanged, and no object of it is.\<close>

lemma index_same:
  assumes "index_ok bl X r f" "check_key r' = check_key r" "state_map bl X r' = state_map bl X r"
  shows "index_ok bl X r' f" "index_map bl X r' f = index_map bl X r f"
  using assms by (simp_all add: index_ok_def index_map_def fun_eq_iff)

text \<open>A place gets an object that no place has.\<close>

lemma index_bind:
  assumes ok: "index_ok bl X r f" and c: "check_key r' = check_key r"
    and m: "state_map bl X r' = (state_map bl X r)(i \<mapsto> v)" "state_map bl X r i = None"
    and key: "check_key r key" "ok_object key = i"
  shows "index_ok bl X r' (f(a \<mapsto> key))" "index_map bl X r' (f(a \<mapsto> key)) = (index_map bl X r f)(a \<mapsto> v)"
proof -
  note V = index_okD [OF ok]
  have other: "ok_object key' \<noteq> i" if "f b = Some key'" for b key' using V(1) [OF that] m(2) by auto
  show "index_map bl X r' (f(a \<mapsto> key)) = (index_map bl X r f)(a \<mapsto> v)"
  proof
    fix b show "index_map bl X r' (f(a \<mapsto> key)) b = ((index_map bl X r f)(a \<mapsto> v)) b"
      using other [of b] key m by (cases "f b") (simp_all add: index_map_def)
  qed
  show "index_ok bl X r' (f(a \<mapsto> key))"
    unfolding index_ok_def using c m key V other by (auto split: if_splits) metis+
qed

text \<open>A place loses its object, which stays in the repository.\<close>

lemma index_forget:
  assumes "index_ok bl X r f"
  shows "index_ok bl X r (f(a := None))" "index_map bl X r (f(a := None)) = (index_map bl X r f)(a := None)"
  using assms by (auto simp: index_ok_def index_map_def fun_eq_iff)

text \<open>An object that no place has is removed.\<close>

lemma index_unbind:
  assumes ok: "index_ok bl X r f" and c: "check_key r' = check_key r"
    and m: "state_map bl X r' = (state_map bl X r)(i := None)"
    and free: "i \<notin> ok_object ` ran f"
  shows "index_ok bl X r' f" "index_map bl X r' f = index_map bl X r f"
proof -
  have free: "ok_object key \<noteq> i" if "f a = Some key" for a key using free that by (auto simp: ran_def)
  show "index_map bl X r' f = index_map bl X r f"
  proof
    fix b show "index_map bl X r' f b = index_map bl X r f b"
      using free [of b] m by (cases "f b") (simp_all add: index_map_def)
  qed
  show "index_ok bl X r' f" unfolding index_ok_def using c m free index_okD [OF ok] by auto
qed

text \<open>The object of a place is written.\<close>

lemma index_write:
  assumes ok: "index_ok bl X r f" and c: "check_key r' = check_key r"
    and m: "state_map bl X r' = (state_map bl X r)(ok_object key \<mapsto> v)" and a: "f a = Some key"
  shows "index_ok bl X r' f" "index_map bl X r' f = (index_map bl X r f)(a \<mapsto> v)"
proof -
  note V = index_okD [OF ok]
  show "index_map bl X r' f = (index_map bl X r f)(a \<mapsto> v)"
  proof
    fix b show "index_map bl X r' f b = ((index_map bl X r f)(a \<mapsto> v)) b"
      using V(2) [of b _ a key] a m by (cases "f b") (auto simp: index_map_def)
  qed
  show "index_ok bl X r' f" unfolding index_ok_def using c m V by auto
qed

text \<open>The objects are put at other places, or forgotten.\<close>

lemma index_rename:
  assumes "index_ok bl X r f" "\<And>a key. g a = Some key \<Longrightarrow> \<exists>b. f b = Some key"
    and "\<And>a b key. g a = Some key \<Longrightarrow> g b = Some key \<Longrightarrow> a = b"
  shows "index_ok bl X r g"
  unfolding index_ok_def
proof (intro conjI allI impI)
  fix a key assume "g a = Some key"
  then show "check_key r key" "state_map bl X r (ok_object key) \<noteq> None" using assms(2) index_okD(1) [OF assms(1)] by blast+
next
  fix a b key key' assume g: "g a = Some key" "g b = Some key'" "ok_object key = ok_object key'"
  obtain c d where f: "f c = Some key" "f d = Some key'" using g assms(2) by blast
  with index_okD(2) [OF assms(1) f g(3)] have "key = key'" by simp
  with g assms(3) show "a = b" by blast
qed

lemma index_drop:
  assumes inv: "state_inv bl X S N good r" "index_ok bl X r f"
    and key: "check_key r key" "state_map bl X r (ok_object key) \<noteq> None"
      "unrepeated (sr_repo r) (KObject (ok_object key)) \<or> \<not> panics (state_remove key) r"
    and free: "ok_object key \<notin> ok_object ` ran f"
  shows "\<exists>r'. state_remove key r = (Ok True, r') \<and> state_inv bl X S N good r' \<and> index_ok bl X r' f \<and>
    index_map bl X r' f = index_map bl X r f \<and> state_step bl {KObject (ok_object key)} r r' \<and> sr_state r' = sr_state r \<and>
    state_map bl X r' = (state_map bl X r)(ok_object key := None) \<and>
    rng (rstate (sr_repo r')) = rng (rstate (sr_repo r))"
proof -
  obtain r' where r': "state_remove key r = (Ok True, r')" "state_inv bl X S N good r'"
    "state_step bl {KObject (ok_object key)} r r'" "state_map bl X r' = (state_map bl X r)(ok_object key := None)"
    "sr_state r' = sr_state r" "rng (rstate (sr_repo r')) = rng (rstate (sr_repo r))"
    using state_remove_ok [OF inv(1) key] by blast
  have "check_key r' = check_key r" using state_step_check [OF r'(3)] by simp
  from index_unbind [OF inv(2) this r'(4) free] r' show ?thesis by blast
qed

lemma index_drop_all:
  assumes "state_inv bl X S N good r" "index_ok bl X r f" "distinct (map ok_object keys)"
    and "\<And>key. key \<in> set keys \<Longrightarrow> check_key r key \<and> state_map bl X r (ok_object key) \<noteq> None"
    and "ok_object ` set keys \<inter> ok_object ` ran f = {}"
    and "(\<forall>key \<in> set keys. unrepeated (sr_repo r) (KObject (ok_object key))) \<or>
      \<not> panics (forM keys (\<lambda>key. bindR (state_remove key) (\<lambda>_. ret ()))) r"
  shows "\<exists>r'. forM keys (\<lambda>key. bindR (state_remove key) (\<lambda>_. ret ())) r = (Ok (), r') \<and> state_inv bl X S N good r' \<and>
    index_ok bl X r' f \<and> index_map bl X r' f = index_map bl X r f \<and>
    state_step bl ((KObject \<circ> ok_object) ` set keys) r r' \<and> sr_state r' = sr_state r \<and>
    state_map bl X r' = (\<lambda>i. if i \<in> ok_object ` set keys then None else state_map bl X r i)"
  using assms
proof (induction keys arbitrary: r)
  case (Cons key keys)
  let ?drop = "\<lambda>key. bindR (state_remove key) (\<lambda>_. ret ())"
  have loop: "panics (forM (key # keys) ?drop) r = panics (bindR (?drop key) (\<lambda>_. forM keys ?drop)) r"
    by (simp add: panics_def)
  have key: "check_key r key" "state_map bl X r (ok_object key) \<noteq> None"
    "unrepeated (sr_repo r) (KObject (ok_object key)) \<or> \<not> panics (state_remove key) r"
    using Cons.prems(4) [of key] Cons.prems(6) loop panics_bind [OF panics_bind, of "state_remove key" r] by auto
  have free: "ok_object key \<notin> ok_object ` ran f" "ok_object ` set keys \<inter> ok_object ` ran f = {}"
    using Cons.prems(5) by auto
  obtain q where q: "state_remove key r = (Ok True, q)" "state_inv bl X S N good q" "index_ok bl X q f"
    "index_map bl X q f = index_map bl X r f" "state_step bl {KObject (ok_object key)} r q" "sr_state q = sr_state r"
    "state_map bl X q = (state_map bl X r)(ok_object key := None)"
    using index_drop [OF Cons.prems(1,2) key free(1)] by blast
  have ne: "ok_object key' \<noteq> ok_object key" if "key' \<in> set keys" for key'
    using Cons.prems(3) that by (metis distinct.simps(2) image_eqI list.set_map list.simps(9))
  have rest: "check_key q key' \<and> state_map bl X q (ok_object key') \<noteq> None" if "key' \<in> set keys" for key'
    using Cons.prems(4) [of key'] ne [OF that] that state_step_check [OF q(5)] q(7) by simp
  have "?drop key r = (Ok (), q)" using q(1) by (simp add: bindR_def)
  from panics_bind_Ok [where m = "?drop key" and f = "\<lambda>_. forM keys ?drop", OF this]
  have "panics (forM (key # keys) ?drop) r = panics (forM keys ?drop) q" unfolding loop .
  moreover have "unrepeated (sr_repo q) (KObject (ok_object key')) = unrepeated (sr_repo r) (KObject (ok_object key'))"
    if "key' \<in> set keys" for key' using state_step_unrepeated [OF q(5), of "KObject (ok_object key')"] ne [OF that] by simp
  ultimately have un: "(\<forall>key \<in> set keys. unrepeated (sr_repo q) (KObject (ok_object key))) \<or> \<not> panics (forM keys ?drop) q"
    using Cons.prems(6) by (metis list.set_intros(2))
  have dist: "distinct (map ok_object keys)" using Cons.prems(3) by simp
  obtain r' where r': "forM keys (\<lambda>key. bindR (state_remove key) (\<lambda>_. ret ())) q = (Ok (), r')" "state_inv bl X S N good r'"
    "index_ok bl X r' f" "index_map bl X r' f = index_map bl X q f" "state_step bl ((KObject \<circ> ok_object) ` set keys) q r'"
    "sr_state r' = sr_state q" "state_map bl X r' = (\<lambda>i. if i \<in> ok_object ` set keys then None else state_map bl X q i)"
    using Cons.IH [OF q(2,3) dist rest free(2) un] by blast
  have "state_step bl ((KObject \<circ> ok_object) ` set (key # keys)) r r'" using state_step_trans [OF q(5) r'(5)] by simp
  moreover have "forM (key # keys) (\<lambda>key. bindR (state_remove key) (\<lambda>_. ret ())) r = (Ok (), r')"
    using r'(1) q(1) by (simp add: bindR_Ok)
  moreover have "state_map bl X r' = (\<lambda>i. if i \<in> ok_object ` set (key # keys) then None else state_map bl X r i)"
    using q(7) r'(7) by auto
  ultimately show ?case using q(4,6) r'(2-4,6) by (intro exI [of _ r'] conjI) (assumption | simp)+
qed auto

lemma index_free:
  "index_ok bl X r f \<Longrightarrow> state_map bl X r i = None \<Longrightarrow> i \<notin> ok_object ` ran f"
  "index_ok bl X r f \<Longrightarrow> f a = Some key \<Longrightarrow> ok_object key \<notin> ok_object ` ran (f(a := None))"
  using index_okD [of bl X r f] by (fastforce simp: ran_def split: if_splits)+

lemma index_free_upd:
  assumes "index_ok bl X r f" "f a = Some key" "ok_object key \<noteq> ok_object key'"
  shows "ok_object key \<notin> ok_object ` ran (f(a \<mapsto> key'))"
proof -
  have "ran (f(a \<mapsto> key')) = insert key' (ran (f(a := None)))" by (auto simp: ran_def)
  then show ?thesis using index_free(2) [OF assms(1,2)] assms(3) by auto
qed

section \<open>Contents of objects and the saved state\<close>

text \<open>What the serialized state and ID table are read as.\<close>

definition saved_value :: "'st state_codec \<Rightarrow> bytes \<Rightarrow> bytes \<Rightarrow> 'st saved_state result" where
  "saved_value C v w = fst (bindR (\<lambda>u. (fst (run_decoder slice_read (from_state C) v), u)) (\<lambda>st.
     bindR (\<lambda>u. (fst (run_decoder slice_read (from_ids C) w), u)) (\<lambda>ids. ret \<lparr>ss_state = st, ss_ids = ids\<rparr>)) ())"

lemma saved_value_Ok:
  "fst (run_decoder slice_read (from_state C) v) = Ok st \<Longrightarrow> fst (run_decoder slice_read (from_ids C) w) = Ok ids \<Longrightarrow>
     saved_value C v w = Ok \<lparr>ss_state = st, ss_ids = ids\<rparr>"
  by (simp add: saved_value_def bindR_def)

context key_env
begin

lemma write_stored_ok:
  assumes inv: "repo_inv blocks X S N r" and idle: "good (config_chunking (cfg (rstate r)))" "transactions (rstate r) = {}"
    and k: "replaceable r KStage" "unrepeated r k" "k \<noteq> KStage" and left: "ids_left (Suc (Suc n)) (handle_table r)"
    and v: "v \<in> S" "length v < 2 ^ 63" "rng (rstate r) + 2 * (length v + 6) \<le> N"
  shows "\<exists>r'. write_stored E k (Some v) r = (Ok (), r') \<and> repo_inv blocks X S N r' \<and> repo_step blocks r r' \<and>
    repo_map blocks X r' = (repo_map blocks X r)(KStage \<mapsto> v, k \<mapsto> v) \<and> replaceable r' KStage \<and>
    (\<forall>j. j \<noteq> KStage \<and> j \<noteq> k \<longrightarrow> hget (handles_of r') j = hget (handles_of r) j) \<and>
    ids_left n (handle_table r') \<and> rng (rstate r') \<le> rng (rstate r) + 2 * (length v + 6)"
proof -
  obtain ob q i where q: "repo_insert (ev_zpaq E) KStage r = (Ok ob, q)" "repo_inv blocks X S N q" "repo_step blocks r q"
    "hget (handles_of q) = (hget (handles_of r))(KStage \<mapsto> \<lparr>handle_id = i, extents = []\<rparr>)"
    "repo_map blocks X q = (repo_map blocks X r)(KStage \<mapsto> [])" "rng (rstate q) = rng (rstate r)"
    "ids_left (Suc n) (handle_table q)" "hget (objects q) KStage = Some (obj_handle ob)"
    "ob = object_new (ev_zpaq E) (rstate q) (obj_handle ob) (repo_object_id q i)"
    using repo_insert_ok [OF inv k(1) left, of "ev_zpaq E"] by blast
  let ?h = "\<lparr>handle_id = i, extents = []\<rparr>"
  have c0: "handle_content blocks X (rstate q) ?h = []" by (simp add: handle_content_def)
  have cf: "good (config_chunking (cfg (rstate q)))" "handle_id ?h \<notin> transactions (rstate q)"
    using idle repo_step_cfg [OF q(3)] by simp_all
  have room: "room_for N (rstate q) (handle_content blocks X (rstate q) ?h) v"
    using v q(6) by (simp add: c0 overwrite_def)
  have hq: "hget (handles_of q) KStage = Some ?h" by (simp add: q(4))
  obtain u ob' h' where u: "view_serialize (ev_store E) X (dyn_ops (ev_zpaq E)) (Some v) (q, ob) = (Ok (), (u, ob'))"
    "object_drop (u, ob') = u" "repo_inv blocks X S N u" "repo_step blocks q u" "handle_table u = handle_table q"
    "hget (handles_of u) = (hget (handles_of q))(KStage \<mapsto> h')" "repo_map blocks X u = (repo_map blocks X q)(KStage \<mapsto> v)"
    "rng (rstate u) \<le> rng (rstate q) + 2 * (length v + 6)"
    using view_serialize_ok [OF q(2,8) hq cf room, of "repo_object_id q i"] unfolding q(9) [symmetric] c0 by auto
  have hu: "hget (handles_of u) KStage = Some h'" "handle_content blocks X (rstate u) h' = v"
    using u(6) fun_cong [OF u(7), of KStage] unfolding repo_map_def by simp_all
  have "unrepeated u k" using k(2,3) u(6) q(4) by (simp add: unrepeated_def)
  note rep = unrepeated_replaceable [OF u(3) this]
  obtain w j where w: "repo_copy KStage k u = (Ok True, w)" "repo_inv blocks X S N w" "repo_step blocks u w"
    "hget (handles_of w) = (hget (handles_of u))(k \<mapsto> \<lparr>handle_id = j, extents = extents h'\<rparr>)"
    "repo_map blocks X w = (repo_map blocks X u)(k \<mapsto> v)" "rng (rstate w) = rng (rstate u)" "ids_left n (handle_table w)"
    "\<forall>c \<in> set (handle_chunks h'). \<not> refs_of (rstate w) c \<subseteq> {handle_id h'}"
    using repo_copy_ok [OF u(3) rep, of n KStage h'] q(7) u(5) k(3) hu by metis
  have hw: "hget (handles_of w) KStage = Some h'" using w(4) hu(1) k(3) by simp
  then have "replaceable w KStage"
    using w(8) handle_chunk_known [of blocks X "rstate w" h'] repo_invD(6) [OF w(2)]
    unfolding replaceable_def removable_def by fastforce
  moreover have "write_stored E k (Some v) r = (Ok (), w)"
    by (simp add: write_stored_def bindR_def q(1) use_object_def u(1,2) w(1))
  moreover have "repo_map blocks X w = (repo_map blocks X r)(KStage \<mapsto> v, k \<mapsto> v)"
    using w(5) u(7) q(5) by simp
  moreover have "repo_step blocks r w" using q(3) u(4) w(3) repo_step_trans by blast
  moreover have "\<forall>j. j \<noteq> KStage \<and> j \<noteq> k \<longrightarrow> hget (handles_of w) j = hget (handles_of r) j"
    using w(4) u(6) q(4) by simp
  ultimately show ?thesis using w(2,6,7) u(8) q(6) by (intro exI [of _ w]) simp
qed

lemma read_stored_ok:
  assumes inv: "repo_inv blocks X S N r" and k: "repo_map blocks X r k = Some v"
  shows "\<exists>s. read_stored E k dec dflt r = (fst (run_decoder slice_read dec v), r\<lparr>rstate := s\<rparr>) \<and> store_eq blocks (rstate r) s"
proof -
  obtain h where h: "hget (handles_of r) k = Some h" "v = handle_content blocks X (rstate r) h"
    using k by (auto simp: repo_map_def)
  then obtain a where a: "hget (objects r) k = Some a" by (auto simp: hget_handles_of)
  obtain s ob where s: "view_deserialize (ev_store E) X dec
      (r, object_new (ev_zpaq E) (rstate r) a (repo_object_id r (handle_id (deref r a)))) =
      (fst (run_decoder slice_read dec v), (r\<lparr>rstate := s\<rparr>, ob))" "object_drop (r\<lparr>rstate := s\<rparr>, ob) = r\<lparr>rstate := s\<rparr>"
    "store_eq blocks (rstate r) s"
    using view_deserialize_run [OF inv a h(1), of dec "repo_object_id r (handle_id (deref r a))"] unfolding h(2) by blast
  have "read_stored E k dec dflt r = (fst (run_decoder slice_read dec v), r\<lparr>rstate := s\<rparr>)"
    by (simp add: read_stored_def repo_object_def a use_object_def s(1,2))
  then show ?thesis using s(3) by blast
qed

lemma state_update_ok:
  fixes r :: "('st, 's) state_repo"
  assumes inv: "state_inv blocks X S N good r" and key: "check_key r key"
    and h: "hget (handles_of (sr_repo r)) (KObject (ok_object key)) = Some h"
    and m: "m (fresh_octx (rstate (sr_repo r)) h) = (y, x)" "obj_ok blocks X S N x" "transaction_lock (o_state x) = None"
      "handle_id (o_handle x) = handle_id h" "grows blocks X (rstate (sr_repo r)) (o_repo x)"
  shows "\<exists>r'. state_use (ev_zpaq E) key (on_object m) r = (y, r') \<and> state_inv blocks X S N good r' \<and>
    state_step blocks {KObject (ok_object key)} r r' \<and>
    state_map blocks X r' = (state_map blocks X r)(ok_object key \<mapsto> obj_content blocks X x) \<and> sr_state r' = sr_state r \<and>
    sr_ids r' = sr_ids r \<and> handle_table (sr_repo r') = handle_table (sr_repo r) \<and>
    rng (rstate (sr_repo r')) = rng (o_repo x) \<and> same_places blocks X r r'"
proof -
  note I = state_invD [OF inv]
  let ?i = "ok_object key"
  obtain a where a: "hget (objects (sr_repo r)) (KObject ?i) = Some a" "deref (sr_repo r) a = h"
    using h by (auto simp: hget_handles_of)
  let ?oid = "repo_object_id (sr_repo r) (handle_id h)"
  obtain q ob where q: "on_object m (sr_repo r, object_new (ev_zpaq E) (rstate (sr_repo r)) a ?oid) = (y, (q, ob))"
    "object_drop (q, ob) = q" "repo_inv blocks X S N q" "repo_step blocks (sr_repo r) q"
    "handle_table q = handle_table (sr_repo r)"
    "hget (handles_of q) = (hget (handles_of (sr_repo r)))(KObject ?i \<mapsto> o_handle x)"
    "repo_map blocks X q = (repo_map blocks X (sr_repo r))(KObject ?i \<mapsto> obj_content blocks X x)"
    "rstate q = o_repo x" "objects q = objects (sr_repo r)"
    using view_update_ok [where m = m and oid = ?oid, OF I(1) a(1) h m] by blast
  have has: "?i \<in> dom (state_map blocks X r)" using h by (simp add: domIff state_map_def repo_map_def)
  let ?m = "(state_map blocks X r)(?i \<mapsto> obj_content blocks X x)"
  note R = state_inv_change [OF inv q(3,4) I(4), of ?m]
  have "id_live (sr_ids r) = insert 0 (dom ?m)" "?m 0 = None" using I(5,6) has by auto
  then have "state_inv blocks X S N good (r\<lparr>sr_repo := q\<rparr>)" "state_map blocks X (r\<lparr>sr_repo := q\<rparr>) = ?m"
    using R by (simp_all add: q(7) state_map_def)
  moreover have "state_use (ev_zpaq E) key (on_object m) r = (y, r\<lparr>sr_repo := q\<rparr>)"
    using a by (simp add: state_use_def unwrap_option_def bindR_def state_object_def key repo_object_def on_key_repo_def use_object_def q(1,2))
  moreover have "state_step blocks {KObject ?i} r (r\<lparr>sr_repo := q\<rparr>)" using q(4,6) by (simp add: state_step_def)
  moreover have "same_places blocks X r (r\<lparr>sr_repo := q\<rparr>)" using m(5) q(8,9) by (simp add: same_places_def)
  ultimately show ?thesis using q(5,8) by (intro exI [of _ "r\<lparr>sr_repo := q\<rparr>"]) simp
qed

lemma state_serialize_ok:
  fixes r :: "('st, 's) state_repo"
  assumes inv: "state_inv blocks X S N good r" and key: "check_key r key" "state_map blocks X r (ok_object key) = Some old"
    and room: "room_for N (rstate (sr_repo r)) old v"
  shows "\<exists>r'. state_use (ev_zpaq E) key (view_serialize (ev_store E) X (dyn_ops (ev_zpaq E)) (Some v)) r = (Ok (), r') \<and>
    state_inv blocks X S N good r' \<and> state_step blocks {KObject (ok_object key)} r r' \<and>
    state_map blocks X r' = (state_map blocks X r)(ok_object key \<mapsto> v) \<and> sr_state r' = sr_state r \<and>
    sr_ids r' = sr_ids r \<and> handle_table (sr_repo r') = handle_table (sr_repo r) \<and>
    rng (rstate (sr_repo r')) \<le> rng (rstate (sr_repo r)) + 2 * (2 * length old + length v + 6)"
proof -
  note I = state_invD [OF inv]
  let ?s = "rstate (sr_repo r)"
  obtain h where h: "hget (handles_of (sr_repo r)) (KObject (ok_object key)) = Some h" "old = handle_content blocks X ?s h"
    using key(2) by (auto simp: state_map_def repo_map_def)
  have ok: "handle_ok blocks X ?s h" using repo_invD(6) [OF I(1) h(1)] by blast
  note O = fresh_octx_ok [OF repo_invD(1) [OF I(1)] ok]
  have idle: "handle_id h \<notin> transactions ?s" using I(3) by simp
  obtain x where x: "object_serialize (ev_store E) X (dyn_ops (ev_zpaq E)) (Some v) (fresh_octx ?s h) = (Ok (), x)"
    "obj_ok blocks X S N x" "Object_Write.idle cinv cpend x" "obj_content blocks X x = v"
    "handle_id (o_handle x) = handle_id h" "grows blocks X ?s (o_repo x)"
    "rng (o_repo x) \<le> rng ?s + 2 * (2 * length old + length v + 6)"
    using serialize_ok [OF O(1) fresh_octx_idle [OF I(2) idle], of v] O(3) room unfolding h(2) by auto
  have "transaction_lock (o_state x) = None" using x(3) by (simp add: idle_def)
  from state_update_ok [where m = "object_serialize (ev_store E) X (dyn_ops (ev_zpaq E)) (Some v)",
      OF inv key(1) h(1) x(1,2) this x(5,6)] x(4,7) show ?thesis
    unfolding view_serialize_def by (metis (no_types, lifting))
qed

lemma state_serialize_error:
  assumes inv: "state_inv bl Y T N g r" and key: "check_key r key" "state_map bl Y r (ok_object key) \<noteq> None"
  shows "state_use Z key (view_serialize D Y C None) r = (Err SerializeError, r)"
proof -
  obtain a where a: "hget (objects (sr_repo r)) (KObject (ok_object key)) = Some a" using key(2) by (auto simp: state_map_None)
  obtain h where "hget (heap (sr_repo r)) a = Some h" using repo_invD(5) [OF state_invD(1) [OF inv] a] by auto
  with a key(1) show ?thesis
    by (simp add: state_use_def unwrap_option_def bindR_def state_object_def repo_object_def on_key_repo_def use_object_def view_serialize_def
      on_object_def object_new_def object_serialize_def hput_same object_drop_def object_state_new_def)
qed

text \<open>A value is read from an object, and another one written through the same \<^verbatim>\<open>Object\<close>.\<close>

lemma octx_id: "\<lparr>o_repo = o_repo x, o_state = o_state x, o_handle = o_handle x\<rparr> = x"
  by simp

lemma on_object_bind: "bindR (on_object m) (\<lambda>x. on_object (n x)) v = on_object (bindR m n) v"
  by (auto simp: on_object_def bindR_def octx_id split: option.split prod.split result.split)

lemma state_rewrite_ok:
  fixes r :: "('st, 's) state_repo"
  assumes inv: "state_inv blocks X S N good r" and key: "check_key r key" "state_map blocks X r (ok_object key) = Some old"
    and e: "fst (run_decoder slice_read dec old) = Ok e" "g e = Some v" and room: "room_for N (rstate (sr_repo r)) old v"
  shows "\<exists>r'. state_use (ev_zpaq E) key (bindR (view_deserialize (ev_store E) X dec)
      (\<lambda>e. view_serialize (ev_store E) X (dyn_ops (ev_zpaq E)) (g e))) r = (Ok (), r') \<and>
    state_inv blocks X S N good r' \<and> state_step blocks {KObject (ok_object key)} r r' \<and>
    state_map blocks X r' = (state_map blocks X r)(ok_object key \<mapsto> v) \<and> sr_state r' = sr_state r \<and> same_places blocks X r r'"
proof -
  note I = state_invD [OF inv]
  let ?s = "rstate (sr_repo r)"
  let ?d = "object_deserialize (ev_store E) X dec" and ?w = "\<lambda>e. object_serialize (ev_store E) X (dyn_ops (ev_zpaq E)) (g e)"
  obtain h where h: "hget (handles_of (sr_repo r)) (KObject (ok_object key)) = Some h" "old = handle_content blocks X ?s h"
    using key(2) by (auto simp: state_map_def repo_map_def)
  have ok: "handle_ok blocks X ?s h" using repo_invD(6) [OF I(1) h(1)] by blast
  note O = fresh_octx_ok [OF repo_invD(1) [OF I(1)] ok]
  have idle: "idle cinv cpend (fresh_octx ?s h)" using fresh_octx_idle [OF I(2)] I(3) by simp
  obtain x where x: "?d (fresh_octx ?s h) = (Ok e, x)" "same_object blocks (fresh_octx ?s h) x" "obj_ok blocks X S N x"
    using deserialize_keeps_ok [OF O(1,2), of dec] e(1) O(3) h(2) by auto
  have cx: "obj_content blocks X x = old" using same_object_view(2) [OF x(2), of X] O(3) h(2) by simp
  have st: "store_eq blocks ?s (o_repo x)" and hx: "o_handle x = h" using x(2) by (simp_all add: same_object_def)
  have ix: "idle cinv cpend x" using idle x(2) store_eq_fields [OF st] by (simp add: idle_def same_object_def)
  obtain y where y: "?w e x = (Ok (), y)" "obj_ok blocks X S N y" "Object_Write.idle cinv cpend y" "obj_content blocks X y = v"
    "handle_id (o_handle y) = handle_id h" "grows blocks X (o_repo x) (o_repo y)"
    using serialize_ok [OF x(3) ix, of v] room cx hx store_eq_fields [OF st] e(2) by auto
  have g: "grows blocks X ?s (o_repo y)" using grows_trans [OF store_eq_grows [OF st] y(6)] .
  have run: "bindR ?d ?w (fresh_octx ?s h) = (Ok (), y)" by (simp add: bindR_def x(1) y(1))
  have lock: "transaction_lock (o_state y) = None" using y(3) by (simp add: idle_def)
  have "bindR (view_deserialize (ev_store E) X dec) (\<lambda>e. view_serialize (ev_store E) X (dyn_ops (ev_zpaq E)) (g e)) =
      (on_object (bindR ?d ?w) :: ((repo_key, 's, 'z chunker) view, unit) op)"
    by (rule ext) (simp add: view_deserialize_def view_serialize_def on_object_bind)
  with state_update_ok [where m = "bindR ?d ?w", OF inv key(1) h(1) run y(2) lock y(5) g] y(4) show ?thesis
    by (metis (no_types, lifting))
qed

text \<open>A new object is removed again when its value cannot be serialized.\<close>

lemma create_error_ok:
  fixes r :: "('st, 's) state_repo"
  assumes inv: "state_inv blocks X S N good r" and left: "ids_left 1 (sr_ids r)" "ids_left 1 (handle_table (sr_repo r))"
  shows "\<exists>i r1 r2. state_create (ev_zpaq E) r = (Ok (new_id r i), r1) \<and>
    state_use (ev_zpaq E) (new_id r i) (view_serialize (ev_store E) X (dyn_ops (ev_zpaq E)) None) r1 = (Err SerializeError, r1) \<and>
    state_remove (new_id r i) r1 = (Ok True, r2) \<and> state_inv blocks X S N good r2 \<and> state_step blocks {KObject i} r r2 \<and>
    state_map blocks X r2 = state_map blocks X r \<and> sr_state r2 = sr_state r"
proof -
  obtain i r1 where r1: "state_create (ev_zpaq E) r = (Ok (new_id r i), r1)" "state_map blocks X r i = None"
    "state_inv blocks X S N good r1" "state_step blocks {KObject i} r r1"
    "state_map blocks X r1 = (state_map blocks X r)(i \<mapsto> [])" "sr_state r1 = sr_state r"
    "map_option extents (hget (handles_of (sr_repo r1)) (KObject i)) = Some []"
    using state_create_ok [OF inv, of 0 0 "ev_zpaq E"] left by auto
  have key: "check_key r1 (new_id r i)" "ok_object (new_id r i) = i" by (simp_all add: state_step_check [OF r1(4)])
  have fail: "state_use (ev_zpaq E) (new_id r i) (view_serialize (ev_store E) X (dyn_ops (ev_zpaq E)) None) r1 =
      (Err SerializeError, r1)"
    using state_serialize_error [OF r1(3) key(1)] r1(5) by simp
  have "unrepeated (sr_repo r1) (KObject i)" using r1(7) by (auto simp: unrepeated_def handle_chunks_def extent_chunks_def)
  then have "unrepeated (sr_repo r1) (KObject (ok_object (new_id r i))) \<or> \<not> panics (state_remove (new_id r i)) r1" by simp
  then obtain r2 where r2: "state_remove (new_id r i) r1 = (Ok True, r2)" "state_inv blocks X S N good r2"
    "state_step blocks {KObject i} r1 r2" "state_map blocks X r2 = (state_map blocks X r1)(i := None)" "sr_state r2 = sr_state r1"
    using state_remove_ok [OF r1(3) key(1)] r1(5) unfolding key(2) by auto
  have "state_map blocks X r2 = state_map blocks X r" using r2(4) r1(2,5) by (auto simp: fun_eq_iff)
  then show ?thesis using r1(1,6) fail r2 state_step_trans [OF r1(4) r2(3)] by auto
qed

lemma state_deserialize_ok:
  fixes r :: "('st, 's) state_repo"
  assumes inv: "state_inv blocks X S N good r" and key: "check_key r key" "state_map blocks X r (ok_object key) = Some v"
  shows "\<exists>r'. state_use (ev_zpaq E) key (view_deserialize (ev_store E) X dec) r = (fst (run_decoder slice_read dec v), r') \<and>
    state_inv blocks X S N good r' \<and> state_step blocks {} r r' \<and> state_map blocks X r' = state_map blocks X r \<and>
    sr_state r' = sr_state r \<and> sr_ids r' = sr_ids r \<and> handle_table (sr_repo r') = handle_table (sr_repo r) \<and>
    rng (rstate (sr_repo r')) = rng (rstate (sr_repo r)) \<and> same_places blocks X r r'"
proof -
  note I = state_invD [OF inv]
  obtain h where h: "hget (handles_of (sr_repo r)) (KObject (ok_object key)) = Some h"
    "v = handle_content blocks X (rstate (sr_repo r)) h"
    using key(2) by (auto simp: state_map_def repo_map_def)
  obtain a where a: "hget (objects (sr_repo r)) (KObject (ok_object key)) = Some a" "deref (sr_repo r) a = h"
    using h(1) by (auto simp: hget_handles_of)
  let ?oid = "repo_object_id (sr_repo r) (handle_id h)"
  obtain q ob where q: "view_deserialize (ev_store E) X dec (sr_repo r, object_new (ev_zpaq E) (rstate (sr_repo r)) a ?oid) =
      (fst (run_decoder slice_read dec v), (q, ob))" "object_drop (q, ob) = q"
    "repo_inv blocks X S N q" "repo_step blocks (sr_repo r) q" "handle_table q = handle_table (sr_repo r)"
    "handles_of q = handles_of (sr_repo r)" "repo_map blocks X q = repo_map blocks X (sr_repo r)"
    "rng (rstate q) = rng (rstate (sr_repo r))" "objects q = objects (sr_repo r)" "grows blocks X (rstate (sr_repo r)) (rstate q)"
    using view_deserialize_ok [OF I(1) a(1) h(1), of dec ?oid] unfolding h(2) by blast
  have "state_inv blocks X S N good (r\<lparr>sr_repo := q\<rparr>)" "state_map blocks X (r\<lparr>sr_repo := q\<rparr>) = state_map blocks X r"
    using state_inv_change [OF inv q(3,4) I(4,5), OF _ I(6)] fun_cong [OF q(7)] by (simp_all add: state_map_def)
  moreover have "state_use (ev_zpaq E) key (view_deserialize (ev_store E) X dec) r =
      (fst (run_decoder slice_read dec v), r\<lparr>sr_repo := q\<rparr>)"
    using a by (simp add: state_use_def unwrap_option_def bindR_def state_object_def key(1) repo_object_def on_key_repo_def use_object_def q(1,2))
  moreover have "state_step blocks {} r (r\<lparr>sr_repo := q\<rparr>)" using q(4,6) by (simp add: state_step_def)
  ultimately show ?thesis using q(5,8-10) by (intro exI [of _ "r\<lparr>sr_repo := q\<rparr>"]) (simp add: same_places_def)
qed

lemma write_state_ok:
  assumes inv: "state_inv blocks X S N good r"
    and k: "replaceable (sr_repo r) KStage" "unrepeated (sr_repo r) KState" "unrepeated (sr_repo r) KIdTable"
    and left: "ids_left (4 + n) (handle_table (sr_repo r))"
    and v: "to_vec_state C (sr_state r) = Some v" "v \<in> S" "length v < 2 ^ 63"
    and w: "to_vec_ids C (sr_ids r) = Some w" "w \<in> S" "length w < 2 ^ 63"
    and room: "rng (rstate (sr_repo r)) + 2 * (length v + length w + 12) \<le> N"
  shows "\<exists>r'. write_state E C r = (Ok (), r') \<and> state_inv blocks X S N good r' \<and>
    state_step blocks {KStage, KState, KIdTable} r r' \<and>
    repo_map blocks X (sr_repo r') = (repo_map blocks X (sr_repo r))(KStage \<mapsto> w, KState \<mapsto> v, KIdTable \<mapsto> w) \<and>
    sr_state r' = sr_state r \<and> sr_ids r' = sr_ids r \<and> replaceable (sr_repo r') KStage \<and>
    ids_left n (handle_table (sr_repo r')) \<and>
    rng (rstate (sr_repo r')) \<le> rng (rstate (sr_repo r)) + 2 * (length v + length w + 12)"
proof -
  note I = state_invD [OF inv]
  have left': "ids_left (Suc (Suc (Suc (Suc n)))) (handle_table (sr_repo r))" using left by (simp add: ids_left_def)
  have "rng (rstate (sr_repo r)) + 2 * (length v + 6) \<le> N" using room by simp
  from write_stored_ok [OF I(1-3) k(1,2) _ left' v(2,3) this] obtain q where
    q: "write_stored E KState (Some v) (sr_repo r) = (Ok (), q)" "repo_inv blocks X S N q" "repo_step blocks (sr_repo r) q"
    "repo_map blocks X q = (repo_map blocks X (sr_repo r))(KStage \<mapsto> v, KState \<mapsto> v)" "replaceable q KStage"
    "\<forall>j. j \<noteq> KStage \<and> j \<noteq> KState \<longrightarrow> hget (handles_of q) j = hget (handles_of (sr_repo r)) j"
    "ids_left (Suc (Suc n)) (handle_table q)" "rng (rstate q) \<le> rng (rstate (sr_repo r)) + 2 * (length v + 6)"
    by auto
  have un: "unrepeated q KIdTable" using k(3) q(6) unrepeated_cong [of q KIdTable "sr_repo r"] by simp
  have cf: "good (config_chunking (cfg (rstate q)))" "transactions (rstate q) = {}"
    using I(2,3) repo_step_cfg [OF q(3)] by simp_all
  have "rng (rstate q) + 2 * (length w + 6) \<le> N" using room q(8) by simp
  from write_stored_ok [OF q(2) cf q(5) un _ q(7) w(2,3) this] obtain u where
    u: "write_stored E KIdTable (Some w) q = (Ok (), u)" "repo_inv blocks X S N u" "repo_step blocks q u"
    "repo_map blocks X u = (repo_map blocks X q)(KStage \<mapsto> w, KIdTable \<mapsto> w)" "replaceable u KStage"
    "\<forall>j. j \<noteq> KStage \<and> j \<noteq> KIdTable \<longrightarrow> hget (handles_of u) j = hget (handles_of q) j"
    "ids_left n (handle_table u)" "rng (rstate u) \<le> rng (rstate q) + 2 * (length w + 6)"
    by auto
  have st: "repo_step blocks (sr_repo r) u" using repo_step_trans [OF q(3) u(3)] .
  have "state_inv blocks X S N good (r\<lparr>sr_ids := sr_ids r, sr_repo := u\<rparr>)"
    by (rule state_inv_change [OF inv u(2) st I(4,5) _ I(6)]) (simp add: u(4) q(4) state_map_def)
  moreover have "write_state E C r = (Ok (), r\<lparr>sr_repo := u\<rparr>)"
    by (simp add: write_state_def v(1) w(1) bindR_def on_key_repo_def q(1) u(1))
  moreover have "state_step blocks {KStage, KState, KIdTable} r (r\<lparr>sr_repo := u\<rparr>)"
    using st u(6) q(6) by (simp add: state_step_def)
  moreover have "repo_map blocks X u = (repo_map blocks X (sr_repo r))(KStage \<mapsto> w, KState \<mapsto> v, KIdTable \<mapsto> w)"
    using u(4) q(4) by (auto simp: fun_eq_iff)
  ultimately show ?thesis using u(5,7,8) q(8) by (intro exI [of _ "r\<lparr>sr_repo := u\<rparr>"]) simp
qed

lemma read_state_ok:
  assumes inv: "repo_inv blocks X S N r" and v: "repo_map blocks X r KState = Some v" "repo_map blocks X r KIdTable = Some w"
  shows "\<exists>s. read_state E C r = (saved_value C v w, r\<lparr>rstate := s\<rparr>) \<and> store_eq blocks (rstate r) s"
proof -
  obtain s where s: "read_stored E KState (from_state C) (default_state C) r =
      (fst (run_decoder slice_read (from_state C) v), r\<lparr>rstate := s\<rparr>)" "store_eq blocks (rstate r) s"
    using read_stored_ok [OF inv v(1), of "from_state C" "default_state C"] by blast
  note R = repo_store_eq [OF inv s(2)]
  have "repo_map blocks X (r\<lparr>rstate := s\<rparr>) KIdTable = Some w" using v(2) by (simp only: R(3))
  from read_stored_ok [OF R(1) this, of "from_ids C" id_new] obtain t where
    t: "read_stored E KIdTable (from_ids C) id_new (r\<lparr>rstate := s\<rparr>) =
      (fst (run_decoder slice_read (from_ids C) w), r\<lparr>rstate := t\<rparr>)" "store_eq blocks s t"
    by auto
  show ?thesis
  proof (cases "fst (run_decoder slice_read (from_state C) v)")
    case (Ok st)
    then have "read_state E C r = (saved_value C v w, r\<lparr>rstate := t\<rparr>)"
      using s(1) t(1) by (auto simp: read_state_def saved_value_def bindR_def split: result.split)
    then show ?thesis using store_eq_trans [OF s(2) t(2)] by blast
  qed (use s in \<open>auto simp: read_state_def saved_value_def bindR_def\<close>)
qed

end

end
