(* ===== verification/State_Contract.thy ===== *)
theory State_Contract
  imports State_Correct Repo_Refine
begin

text \<open>
  The contract of the state repository, with a concrete state repository as the input of the
  evaluations.
\<close>

section \<open>A concrete state repository\<close>

definition ref_ids :: id_table where
  "ref_ids = \<lparr>highest = 1, unused = []\<rparr>"

definition ref_state :: "'st \<Rightarrow> ('st, (uuid, bytes) hmap) state_repo" where
  "ref_state st = \<lparr>sr_repo = ref_keyed (KObject 1), sr_ids = ref_ids, sr_state = st\<rparr>"

text \<open>A state of one byte; of the ID tables, the codec knows the one of the concrete repository.\<close>

definition ref_state_codec :: "byte state_codec" where
  "ref_state_codec = \<lparr>default_state = 0, to_vec_state = (\<lambda>st. Some [st]), from_state = Need 1 (\<lambda>b. Decoded (hd b)),
     to_vec_ids = (\<lambda>t. if t = ref_ids then Some [5] else None),
     from_ids = Need 1 (\<lambda>b. if b = [5] then Decoded ref_ids else DecodeError)\<rparr>"

definition ref_state_map :: "repo_key map_codec" where
  "ref_state_map = \<lparr>to_vec_objects = (\<lambda>m. if m = [] then Some [0] else None),
     from_objects = Need 1 (\<lambda>b. if b = [0] then Decoded [] else DecodeError)\<rparr>"

interpretation ref_state: key_env ref_env mem_blocks ref_cinv ref_cfresh ref_cpend UNIV ref_state_map good_chunking
proof -
  have "fst (run_decoder slice_read (from_objects ref_state_map) b) = Ok m" if "to_vec_objects ref_state_map m = Some b" for m b
    using that by (auto simp: ref_state_map_def read_exact_loop.simps slice_read_def split: if_splits)
  then have "codec_laws ref_env ref_state_map" using ref_key.codecs unfolding codec_laws_def by blast
  then show "key_env ref_env mem_blocks ref_cinv ref_cfresh ref_cpend UNIV ref_state_map good_chunking"
    using ref_key.key_env_axioms unfolding key_env_def key_env_axioms_def by blast
qed

lemma ref_state_fields [simp]:
  "sr_repo (ref_state st) = ref_keyed (KObject 1)" "sr_ids (ref_state st) = ref_ids" "sr_state (ref_state st) = st"
  by (simp_all add: ref_state_def)

lemma ref_state_contents: "state_map mem_blocks ref_ext (ref_state st) = [1 \<mapsto> [1, 2, 3, 0, 0]]"
  by (auto simp: fun_eq_iff state_map_def ref_keyed_map)

lemma ref_state_inv: "state_inv mem_blocks ref_ext UNIV 100 good_chunking (ref_state st)"
proof -
  have "x \<le> 1 \<longleftrightarrow> x = 0 \<or> x = 1" for x :: u64 by (auto simp: word_le_nat_alt unat_arith_simps)
  then have "id_live ref_ids = {0, 1}" by (auto simp: id_live_def id_contains_def ref_ids_def)
  moreover have "id_inv ref_ids" by (simp add: id_inv_def ref_ids_def)
  moreover have "good_chunking (config_chunking (cfg ref_repo))" "transactions ref_repo = {}"
    by (simp_all add: ref_repo_def good_chunking_def)
  ultimately show ?thesis unfolding state_inv_def ref_state_contents by (simp add: ref_keyed_inv insert_commute)
qed

lemma ref_state_left: "ids_left 50 (sr_ids (ref_state st))" "ids_left 50 (handle_table (sr_repo (ref_state st)))"
  by (simp_all add: ids_left_def ref_ids_def)

lemma ref_check: "check_key (ref_state st) \<lparr>ok_repo = 9, ok_instance = DEFAULT_INSTANCE, ok_object = i\<rparr>"
  by (simp add: check_key_def repo_get_info_def to_info_def) (simp add: ref_repo_def)

section \<open>Objects\<close>

lemma ids_left_mono: "ids_left n t \<Longrightarrow> m \<le> n \<Longrightarrow> ids_left m t"
  by (simp add: ids_left_def)

lemma state_contains_iff: "state_contains r key \<longleftrightarrow> check_key r key \<and> state_map bl X r (ok_object key) \<noteq> None"
  by (simp add: state_contains_def repo_contains_def hcontains_def state_map_None)

text \<open>
  The life of an object.  Creating an object gives a key that no object of the repository has and an
  empty object under it; removing it returns true and brings back the objects there were before, and
  removing it again returns false and changes nothing.
\<close>

theorem state_create_then_remove:
  assumes "state_inv bl X S N good r" "ids_left 1 (sr_ids r)" "ids_left 1 (handle_table (sr_repo r))"
  shows "\<exists>key r1 r2. state_create Z r = (Ok key, r1) \<and> \<not> state_contains r key \<and> state_contains r1 key \<and>
    state_map bl X r1 = (state_map bl X r)(ok_object key \<mapsto> []) \<and>
    state_remove key r1 = (Ok True, r2) \<and> state_map bl X r2 = state_map bl X r \<and> state_inv bl X S N good r2 \<and>
    state_remove key r2 = (Ok False, r2)"
proof -
  obtain i r1 where r1: "state_create Z r = (Ok (new_id r i), r1)" "i \<noteq> 0" "state_map bl X r i = None"
    "state_inv bl X S N good r1" "state_step bl {KObject i} r r1" "state_map bl X r1 = (state_map bl X r)(i \<mapsto> [])"
    "map_option extents (hget (handles_of (sr_repo r1)) (KObject i)) = Some []"
    using state_create_ok [OF assms(1), of 0 0 Z] assms(2,3) by auto
  define key where "key = new_id r i"
  have keys: "check_key r1 = check_key r" using state_step_check [OF r1(5)] by simp
  have key_ok: "check_key r1 key" "ok_object key = i" by (simp_all add: keys key_def)
  have "unrepeated (sr_repo r1) (KObject i)" using r1(7) by (auto simp: unrepeated_def handle_chunks_def extent_chunks_def)
  then obtain r2 where r2: "state_remove key r1 = (Ok True, r2)" "state_inv bl X S N good r2" "state_step bl {KObject i} r1 r2"
    "state_map bl X r2 = (state_map bl X r1)(i := None)"
    using state_remove_ok [OF r1(4) key_ok(1)] r1(6) unfolding key_ok(2) by auto
  have same: "state_map bl X r2 = state_map bl X r" using r2(4) r1(3,6) by auto
  then have "state_remove key r2 = (Ok False, r2)" using state_remove_absent [OF r2(2), of key] r1(2,3) key_ok(2) by simp
  then show ?thesis using r1 r2 same key_ok key_def
    by (intro exI [of _ key] exI [of _ r1] exI [of _ r2]) (simp add: state_contains_iff [of _ _ bl X])
qed

theorem state_create_then_remove_witness:
  "\<exists>key r1 r2. state_create ref_zpaq (ref_state (3 :: byte)) = (Ok key, r1) \<and> state_contains r1 key \<and>
    state_remove key r1 = (Ok True, r2) \<and> state_map mem_blocks ref_ext r2 = [1 \<mapsto> [1, 2, 3, 0, 0]] \<and>
    state_remove key r2 = (Ok False, r2)"
  using state_create_then_remove [OF ref_state_inv, of "3 :: byte" ref_zpaq] ref_state_left [of "3 :: byte"]
  unfolding ref_state_contents by (blast intro: ids_left_mono [OF _ one_le_numeral])

text \<open>
  A key of another repository or of another instance of it is refused: there is no object under it,
  and removing or copying it changes nothing, even if there is an object with its ID.
\<close>

theorem state_foreign_key:
  assumes "ok_repo key \<noteq> md_id (metadata (rstate (sr_repo r))) \<or> ok_instance key \<noteq> instance_id (sr_repo r)"
  shows "\<not> state_contains r key \<and> state_object Z key r = None \<and> state_remove key r = (Ok False, r) \<and>
    state_copy key r = (Ok None, r)"
proof -
  have "\<not> check_key r key" using assms by (auto simp: check_key_def repo_get_info_def to_info_def)
  then show ?thesis by (simp add: state_contains_def state_object_def state_remove_def state_copy_def)
qed

theorem state_foreign_key_witness:
  "state_contains (ref_state (3 :: byte)) \<lparr>ok_repo = 9, ok_instance = DEFAULT_INSTANCE, ok_object = 1\<rparr> \<and>
   state_remove \<lparr>ok_repo = 8, ok_instance = DEFAULT_INSTANCE, ok_object = 1\<rparr> (ref_state (3 :: byte)) =
     (Ok False, ref_state 3)"
  using state_foreign_key [of "\<lparr>ok_repo = 8, ok_instance = DEFAULT_INSTANCE, ok_object = 1\<rparr>" "ref_state (3 :: byte)" ref_zpaq]
  by (simp add: state_contains_def check_key_def repo_get_info_def repo_contains_def hcontains_def) (simp add: ref_repo_def to_info_def)

section \<open>The state\<close>

text \<open>
  C26: The state and the ID table survive the repository.  Giving the key repository back writes both,
  through the staging object, and opening a state repository on it reads what the serializer
  makes of them; the objects keep their contents.
\<close>

theorem state_reopen:
  fixes r :: "('st, 's) state_repo"
  assumes "key_env E bl cinv cfresh cpend S M good" "state_inv bl (ev_ext E) S N good r"
    and "replaceable (sr_repo r) KStage" "unrepeated (sr_repo r) KState" "unrepeated (sr_repo r) KIdTable"
    and "ids_left 4 (handle_table (sr_repo r))"
    and "to_vec_state C (sr_state r) = Some v" "v \<in> S" "length v < 2 ^ 63" "fst (run_decoder slice_read (from_state C) v) = Ok st"
    and "to_vec_ids C (sr_ids r) = Some w" "w \<in> S" "length w < 2 ^ 63" "fst (run_decoder slice_read (from_ids C) w) = Ok ids"
    and "rng (rstate (sr_repo r)) + 2 * (length v + length w + 12) \<le> N"
  shows "\<exists>q r1 r2 q'. state_into_repo E C r = (Ok q, r1) \<and> state_repo_open E C q = (Ok r2, q') \<and>
    sr_state r2 = st \<and> sr_ids r2 = ids \<and> state_map bl (ev_ext E) r2 = state_map bl (ev_ext E) r"
proof -
  have "ids_left (4 + 0) (handle_table (sr_repo r))" using assms(6) by simp
  from key_env.write_state_ok [OF assms(1-5) this assms(7-9,11-13,15)] obtain r1 where
    r1: "write_state E C r = (Ok (), r1)" "state_inv bl (ev_ext E) S N good r1"
    "repo_map bl (ev_ext E) (sr_repo r1) = (repo_map bl (ev_ext E) (sr_repo r))(KStage \<mapsto> w, KState \<mapsto> v, KIdTable \<mapsto> w)"
    by blast
  obtain s where s: "read_state E C (sr_repo r1) = (Ok \<lparr>ss_state = st, ss_ids = ids\<rparr>, (sr_repo r1)\<lparr>rstate := s\<rparr>)"
    "store_eq bl (rstate (sr_repo r1)) s"
    using key_env.read_state_ok [OF assms(1) state_invD(1) [OF r1(2)], of v w C] r1(3) saved_value_Ok [OF assms(10,14)] by auto
  let ?q = "(sr_repo r1)\<lparr>rstate := s\<rparr>"
  have q: "read_state E C (sr_repo r1) = (Ok \<lparr>ss_state = st, ss_ids = ids\<rparr>, ?q)"
    "repo_map bl (ev_ext E) ?q = repo_map bl (ev_ext E) (sr_repo r1)"
    using s(1) repo_store_eq(3) [OF state_invD(1) [OF r1(2)] s(2)] by simp_all
  let ?r2 = "\<lparr>sr_repo = ?q, sr_ids = ids, sr_state = st\<rparr>"
  have "state_map bl (ev_ext E) ?r2 = state_map bl (ev_ext E) r"
    by (simp add: fun_eq_iff state_map_def q(2) r1(3))
  then show ?thesis using r1(1) q(1)
    by (intro exI [of _ "sr_repo r1"] exI [of _ r1] exI [of _ ?r2] exI [of _ ?q])
      (simp add: state_into_repo_def state_repo_open_def bindR_def)
qed

theorem state_reopen_witness:
  "\<exists>q r1 r2 q'. state_into_repo ref_env ref_state_codec (ref_state 3) = (Ok q, r1) \<and>
    state_repo_open ref_env ref_state_codec q = (Ok r2, q') \<and> sr_state r2 = 3 \<and> sr_ids r2 = ref_ids \<and>
    state_map mem_blocks ref_ext r2 = [1 \<mapsto> [1, 2, 3, 0, 0]]"
proof -
  have "ids_left 4 (handle_table (sr_repo (ref_state (3 :: byte))))" by (simp add: ids_left_def)
  moreover have "unrepeated (sr_repo (ref_state (3 :: byte))) k" if "k = KState \<or> k = KIdTable" for k
    using that by (auto simp: unrepeated_def ref_one_handles)
  moreover have "replaceable (sr_repo (ref_state (3 :: byte))) KStage" by (simp add: ref_keyed_replaceable)
  ultimately show ?thesis
    using state_reopen [OF ref_state.key_env_axioms, of 100 "ref_state 3" ref_state_codec "[3]" 3 "[5]" ref_ids]
      ref_state_inv [of "3 :: byte"]
    by (simp add: ref_rng ref_state_contents) (simp add: ref_state_codec_def read_exact_loop.simps slice_read_def)
qed

end
