(* ===== verification/Value_Repo.thy ===== *)
theory Value_Repo
  imports State_Contract
begin

text \<open>
  The value repository (\<^verbatim>\<open>src/src/repo/value/repository.rs\<close>): a persistent map from keys to serialized
  values.  Its state maps each key to the object that holds the value; the operations refine those of a
  map.
\<close>

section \<open>Operations\<close>

type_synonym ('k, 's) value_repo = "(('k, object_key) hmap, 's) state_repo"

definition VALUE_REPO_VERSION_ID :: uuid where
  "VALUE_REPO_VERSION_ID = 0x4db4c84ccfc711eb9e0677121c3277f7"

definition value_repo_open ::
  "('s, 'z) env \<Rightarrow> ('k, object_key) hmap state_codec \<Rightarrow> ((repo_key, 's) key_repo, ('k, 's) value_repo) op" where
  "value_repo_open E C = state_repo_open E C"

definition value_repo_create ::
  "('s, 'z) env \<Rightarrow> ('k, object_key) hmap state_codec \<Rightarrow> ((repo_key, 's) key_repo, ('k, 's) value_repo) op" where
  "value_repo_create E C = state_repo_create E C"

definition value_into_repo ::
  "('s, 'z) env \<Rightarrow> ('k, object_key) hmap state_codec \<Rightarrow> (('k, 's) value_repo, (repo_key, 's) key_repo) op" where
  "value_into_repo E C = state_into_repo E C"

definition value_contains :: "('k, 's) value_repo \<Rightarrow> 'k \<Rightarrow> bool" where
  "value_contains r k = hcontains (sr_state r) k"

text \<open>The value is given by its serialization, \<open>None\<close> if it cannot be serialized.\<close>

definition value_insert :: "('s, 'z) env \<Rightarrow> 'k \<Rightarrow> bytes option \<Rightarrow> (('k, 's) value_repo, unit) op" where
  "value_insert E k v = bindR (state_create (ev_zpaq E)) (\<lambda>oid r.
     (case state_use (ev_zpaq E) oid (view_serialize (ev_store E) (ev_ext E) (dyn_ops (ev_zpaq E)) v) r of
        (Ok u, r1) \<Rightarrow>
          bindR (state_mut (hput k oid)) (\<lambda>_.
            case hget (sr_state r1) k of
              None \<Rightarrow> ret ()
            | Some prev_oid \<Rightarrow> bindR (state_remove prev_oid) (\<lambda>_. ret ())) r1
      | (Err e, r1) \<Rightarrow> bindR (state_remove oid) (\<lambda>_. throw e) r1
      | (Panic p, r1) \<Rightarrow> (Panic p, r1)
      | (Diverge, r1) \<Rightarrow> (Diverge, r1)))"

definition value_remove :: "'k \<Rightarrow> (('k, 's) value_repo, bool) op" where
  "value_remove k r = (case hget (sr_state r) k of
      None \<Rightarrow> (Ok False, r)
    | Some oid \<Rightarrow>
        bindR (state_mut (hdel k)) (\<lambda>_. bindR (state_remove oid) (\<lambda>_. ret True)) r)"

definition value_get :: "('s, 'z) env \<Rightarrow> 'v decoder \<Rightarrow> 'k \<Rightarrow> (('k, 's) value_repo, 'v) op" where
  "value_get E dec k r = (case hget (sr_state r) k of
      None \<Rightarrow> (Err NotFound, r)
    | Some oid \<Rightarrow> state_use (ev_zpaq E) oid (view_deserialize (ev_store E) (ev_ext E) dec) r)"

definition value_keys :: "('k, 's) value_repo \<Rightarrow> 'k list" where
  "value_keys r = hkeys (sr_state r)"

definition value_copy :: "'k \<Rightarrow> 'k \<Rightarrow> (('k, 's) value_repo, unit) op" where
  "value_copy source dest r =
    (if hcontains (sr_state r) dest then (Err AlreadyExists, r)
     else case hget (sr_state r) source of
        None \<Rightarrow> (Err NotFound, r)
      | Some oid \<Rightarrow> bindR (state_copy oid) (\<lambda>x. bindR (unwrap_option x) (\<lambda>new_oid.
            state_mut (hput dest new_oid))) r)"

definition value_verify :: "('s, 'z) env \<Rightarrow> (('k, 's) value_repo, 'k list) op" where
  "value_verify E = bindR (state_verify E) (\<lambda>corrupt_keys r.
     (Ok (map fst (filter (\<lambda>(k, oid). oid \<in> set corrupt_keys) (sr_state r))), r))"

definition value_clear_instance :: "('k, object_key) hmap state_codec \<Rightarrow> (('k, 's) value_repo, unit) op" where
  "value_clear_instance C = state_clear_instance C"

definition value_change_password :: "ext \<Rightarrow> bytes \<Rightarrow> (('k, 's) value_repo, unit) op" where
  "value_change_password X p = state_change_password X p"

definition value_commit ::
  "('s, 'z) env \<Rightarrow> repo_key map_codec \<Rightarrow> ('k, object_key) hmap state_codec \<Rightarrow> (('k, 's) value_repo, unit) op" where
  "value_commit E M C = state_commit E M C"

definition value_rollback ::
  "('s, 'z) env \<Rightarrow> repo_key map_codec \<Rightarrow> ('k, object_key) hmap state_codec \<Rightarrow> (('k, 's) value_repo, unit) op" where
  "value_rollback E M C = state_rollback E M C"

definition value_clean :: "('s, 'z) env \<Rightarrow> (('k, 's) value_repo, unit) op" where
  "value_clean E = state_clean E"

definition value_savepoint ::
  "('s, 'z) env \<Rightarrow> repo_key map_codec \<Rightarrow> ('k, object_key) hmap state_codec \<Rightarrow> (('k, 's) value_repo, savepoint) op" where
  "value_savepoint E M C = state_savepoint E M C"

definition value_start_restore ::
  "('s, 'z) env \<Rightarrow> repo_key map_codec \<Rightarrow> ('k, object_key) hmap state_codec \<Rightarrow> savepoint \<Rightarrow>
     (('k, 's) value_repo, ('k, object_key) hmap state_restore) op" where
  "value_start_restore E M C sp = state_start_restore E M C sp"

definition value_finish_restore :: "('k, object_key) hmap state_restore \<Rightarrow> (('k, 's) value_repo, bool) op" where
  "value_finish_restore k = state_finish_restore k"

definition value_instance :: "('k, 's) value_repo \<Rightarrow> uuid" where
  "value_instance r = state_instance r"

definition value_info :: "('k, 's) value_repo \<Rightarrow> repo_info" where
  "value_info r = state_info r"

section \<open>Invariant and abstraction\<close>

definition value_map :: "('s \<Rightarrow> uuid \<rightharpoonup> bytes) \<Rightarrow> ext \<Rightarrow> ('k, 's) value_repo \<Rightarrow> 'k \<rightharpoonup> bytes" where
  "value_map bl X r = index_map bl X r (hget (sr_state r))"

text \<open>Every key has an object of its own.\<close>

definition value_inv ::
  "('s \<Rightarrow> uuid \<rightharpoonup> bytes) \<Rightarrow> ext \<Rightarrow> bytes set \<Rightarrow> nat \<Rightarrow> (chunking \<Rightarrow> bool) \<Rightarrow> ('k, 's) value_repo \<Rightarrow> bool" where
  "value_inv bl X S N good r \<longleftrightarrow> state_inv bl X S N good r \<and> index_ok bl X r (hget (sr_state r))"

lemma value_invD:
  assumes "value_inv bl X S N good r"
  shows "state_inv bl X S N good r" "index_ok bl X r (hget (sr_state r))"
  using assms unfolding value_inv_def by blast+

lemma value_map_None: "value_inv bl X S N good r \<Longrightarrow> value_map bl X r k = None \<longleftrightarrow> hget (sr_state r) k = None"
  unfolding value_inv_def value_map_def by (simp add: index_map_None)

text \<open>Binding a key to an object that no key has, and removing an object that no key has.\<close>

lemma value_bind:
  assumes inv: "value_inv bl X S N good r" and s: "state_inv bl X S N good r'" "state_step bl K r r'"
    and m: "state_map bl X r' = (state_map bl X r)(i \<mapsto> v)" "state_map bl X r i = None" "sr_state r' = sr_state r"
  shows "value_inv bl X S N good (r'\<lparr>sr_state := hput k (new_id r i) (sr_state r')\<rparr>)"
    "value_map bl X (r'\<lparr>sr_state := hput k (new_id r i) (sr_state r')\<rparr>) = (value_map bl X r)(k \<mapsto> v)"
proof -
  note B = index_bind [OF value_invD(2) [OF inv] _ m(1,2) check_new_id, of k]
  show "value_inv bl X S N good (r'\<lparr>sr_state := hput k (new_id r i) (sr_state r')\<rparr>)"
    "value_map bl X (r'\<lparr>sr_state := hput k (new_id r i) (sr_state r')\<rparr>) = (value_map bl X r)(k \<mapsto> v)"
    using B s state_step_check [OF s(2)] m(3) by (simp_all add: value_inv_def value_map_def fun_upd_def)
qed

lemma value_unbind:
  assumes inv: "value_inv bl X S N good r" and s: "state_inv bl X S N good r'" "state_step bl K r r'"
    and m: "state_map bl X r' = (state_map bl X r)(i := None)" "sr_state r' = sr_state r"
    and free: "i \<notin> ok_object ` ran (hget (sr_state r))"
  shows "value_inv bl X S N good r'" "value_map bl X r' = value_map bl X r"
  using index_unbind [OF value_invD(2) [OF inv] _ m(1) free] s state_step_check [OF s(2)] m(2)
  by (simp_all add: value_inv_def value_map_def)

section \<open>Refinement of a map\<close>

datatype 'k value_command = VInsert 'k "bytes option" | VRemove 'k | VCopy 'k 'k

fun spec_value :: "'k value_command \<Rightarrow> ('k \<rightharpoonup> bytes) \<Rightarrow> bool result \<times> ('k \<rightharpoonup> bytes)" where
  "spec_value (VInsert k None) m = (Err SerializeError, m)"
| "spec_value (VInsert k (Some v)) m = (Ok True, m(k \<mapsto> v))"
| "spec_value (VRemove k) m = (Ok (m k \<noteq> None), m(k := None))"
| "spec_value (VCopy s d) m = (if m d \<noteq> None then (Err AlreadyExists, m) else
     case m s of None \<Rightarrow> (Err NotFound, m) | Some v \<Rightarrow> (Ok True, m(d \<mapsto> v)))"

fun run_value :: "('s, 'z) env \<Rightarrow> 'k value_command \<Rightarrow> (('k, 's) value_repo, bool) op" where
  "run_value E (VInsert k v) r = bindR (value_insert E k v) (\<lambda>_. ret True) r"
| "run_value E (VRemove k) r = value_remove k r"
| "run_value E (VCopy s d) r = bindR (value_copy s d) (\<lambda>_. ret True) r"

text \<open>The object of a key has no chunk twice, so removing it does not panic.\<close>

definition value_unrepeated :: "('k, 's) value_repo \<Rightarrow> 'k \<Rightarrow> bool" where
  "value_unrepeated r k \<longleftrightarrow> (\<forall>key. hget (sr_state r) k = Some key \<longrightarrow> unrepeated (sr_repo r) (KObject (ok_object key)))"

text \<open>The key whose object a command removes, if it has one.\<close>

fun value_frees :: "'k value_command \<Rightarrow> 'k option" where
  "value_frees (VInsert k v) = (if v = None then None else Some k)"
| "value_frees (VRemove k) = Some k"
| "value_frees (VCopy s d) = None"

text \<open>A value that is inserted fits into the repository.\<close>

fun value_feasible :: "bytes set \<Rightarrow> nat \<Rightarrow> 'k value_command \<Rightarrow> ('k, 's) value_repo \<Rightarrow> bool" where
  "value_feasible S N (VInsert k None) r \<longleftrightarrow> True"
| "value_feasible S N (VInsert k (Some v)) r \<longleftrightarrow> v \<in> S \<and> length v < 2 ^ 63 \<and>
     rng (rstate (sr_repo r)) + 2 * (length v + 6) \<le> N"
| "value_feasible S N (VRemove k) r \<longleftrightarrow> True"
| "value_feasible S N (VCopy s d) r \<longleftrightarrow> True"

lemma value_remove_ok:
  assumes inv: "value_inv bl X S N good r" and k: "hget (sr_state r) k = Some key"
    and un: "value_unrepeated r k \<or> \<not> panics (value_remove k) r"
  shows "\<exists>r'. value_remove k r = (Ok True, r') \<and> value_inv bl X S N good r' \<and>
    value_map bl X r' = (value_map bl X r)(k := None)"
proof -
  note V = value_invD [OF inv]
  let ?r = "r\<lparr>sr_state := hdel k (sr_state r)\<rparr>"
  have inv': "value_inv bl X S N good ?r" "value_map bl X ?r = (value_map bl X r)(k := None)"
    using V index_forget [OF V(2), of k] by (simp_all add: value_inv_def value_map_def fun_upd_def)
  have "panics (value_remove k) r" if "panics (state_remove key) ?r"
    using that k by (auto simp: panics_iff value_remove_def bindR_def)
  then have un: "unrepeated (sr_repo ?r) (KObject (ok_object key)) \<or> \<not> panics (state_remove key) ?r"
    using k un by (auto simp: value_unrepeated_def)
  obtain r' where r': "state_remove key ?r = (Ok True, r')" "state_inv bl X S N good r'"
    "state_step bl {KObject (ok_object key)} ?r r'" "state_map bl X r' = (state_map bl X ?r)(ok_object key := None)"
    "sr_state r' = sr_state ?r"
    using state_remove_ok [OF value_invD(1) [OF inv'(1)] _ _ un] index_okD(1) [OF V(2) k] by auto
  have free: "ok_object key \<notin> ok_object ` ran (hget (sr_state ?r))"
    using index_free(2) [OF V(2) k] by (simp add: fun_upd_def)
  have "value_remove k r = (Ok True, r')" using k r'(1) by (simp add: value_remove_def bindR_def)
  with value_unbind [OF inv'(1) r'(2,3,4,5) free] inv'(2) show ?thesis by auto
qed

context key_env
begin

lemma value_insert_error:
  fixes r :: "('j, 's) value_repo"
  assumes inv: "value_inv blocks X S N good r" and left: "ids_left 1 (sr_ids r)" "ids_left 1 (handle_table (sr_repo r))"
  shows "\<exists>r'. value_insert E k None r = (Err SerializeError, r') \<and> value_inv blocks X S N good r' \<and>
    value_map blocks X r' = value_map blocks X r"
proof -
  note V = value_invD [OF inv]
  obtain i r1 r2 where r: "state_create (ev_zpaq E) r = (Ok (new_id r i), r1)"
    "state_use (ev_zpaq E) (new_id r i) (view_serialize (ev_store E) X (dyn_ops (ev_zpaq E)) None) r1 = (Err SerializeError, r1)"
    "state_remove (new_id r i) r1 = (Ok True, r2)" "state_inv blocks X S N good r2" "state_step blocks {KObject i} r r2"
    "state_map blocks X r2 = state_map blocks X r" "sr_state r2 = sr_state r"
    using create_error_ok [OF V(1) left] by blast
  have "check_key r2 = check_key r" using state_step_check [OF r(5)] by simp
  then have "value_inv blocks X S N good r2" "value_map blocks X r2 = value_map blocks X r"
    using index_same [OF V(2) _ r(6)] r(4,7) by (simp_all add: value_inv_def value_map_def)
  then show ?thesis using r(1-3) by (simp add: value_insert_def bindR_def)
qed

lemma value_insert_ok:
  fixes r :: "('j, 's) value_repo"
  assumes inv: "value_inv blocks X S N good r" and left: "ids_left 1 (sr_ids r)" "ids_left 1 (handle_table (sr_repo r))"
    and v: "value_feasible S N (VInsert k (Some v)) r"
    and un: "value_unrepeated r k \<or> \<not> panics (value_insert E k (Some v)) r"
  shows "\<exists>r'. value_insert E k (Some v) r = (Ok (), r') \<and> value_inv blocks X S N good r' \<and>
    value_map blocks X r' = (value_map blocks X r)(k \<mapsto> v)"
proof -
  note V = value_invD [OF inv]
  obtain i r1 where r1: "state_create (ev_zpaq E) r = (Ok (new_id r i), r1)" "state_map blocks X r i = None"
    "state_inv blocks X S N good r1" "state_step blocks {KObject i} r r1"
    "state_map blocks X r1 = (state_map blocks X r)(i \<mapsto> [])" "sr_state r1 = sr_state r"
    "rng (rstate (sr_repo r1)) = rng (rstate (sr_repo r))"
    using state_create_ok [OF V(1), of 0 0 "ev_zpaq E"] left by auto
  let ?key = "new_id r i"
  have key1: "check_key r1 ?key" using state_step_check [OF r1(4)] by simp
  have room: "room_for N (rstate (sr_repo r1)) [] v" using v r1(7) by (simp add: overwrite_def)
  have "state_map blocks X r1 (ok_object ?key) = Some []" using r1(5) by simp
  from state_serialize_ok [OF r1(3) key1 this room] obtain r2 where
    r2: "state_use (ev_zpaq E) ?key (view_serialize (ev_store E) X (dyn_ops (ev_zpaq E)) (Some v)) r1 = (Ok (), r2)"
    "state_inv blocks X S N good r2" "state_step blocks {KObject i} r1 r2"
    "state_map blocks X r2 = (state_map blocks X r)(i \<mapsto> v)" "sr_state r2 = sr_state r"
    using r1(5,6) by auto
  have step: "state_step blocks {KObject i} r r2" using state_step_trans [OF r1(4) r2(3)] by simp
  have check: "check_key r2 = check_key r" using state_step_check [OF step] by simp
  let ?r3 = "r2\<lparr>sr_state := hput k ?key (sr_state r2)\<rparr>"
  note bound = value_bind [OF inv r2(2) step r2(4) r1(2) r2(5), of k]
  show ?thesis
  proof (cases "hget (sr_state r) k")
    case None
    then have "value_insert E k (Some v) r = (Ok (), ?r3)" using r1(1) r2(1,5) by (simp add: value_insert_def bindR_def)
    with bound show ?thesis by blast
  next
    case (Some prev)
    have prev: "check_key ?r3 prev" "ok_object prev \<noteq> i" "state_map blocks X ?r3 (ok_object prev) \<noteq> None"
      using index_okD(1) [OF V(2) Some] r1(2) r2(4) check by auto
    have "panics (value_insert E k (Some v)) r" if "panics (state_remove prev) ?r3"
      using that r1(1) r2(1,5) Some by (auto simp: panics_iff value_insert_def bindR_def)
    then have "unrepeated (sr_repo ?r3) (KObject (ok_object prev)) \<or> \<not> panics (state_remove prev) ?r3"
      using un Some state_step_unrepeated [OF step, of "KObject (ok_object prev)"] prev(2) by (auto simp: value_unrepeated_def)
    from state_remove_ok [OF value_invD(1) [OF bound(1)] prev(1,3) this] obtain r4 where
      r4: "state_remove prev ?r3 = (Ok True, r4)" "state_inv blocks X S N good r4"
      "state_step blocks {KObject (ok_object prev)} ?r3 r4" "state_map blocks X r4 = (state_map blocks X ?r3)(ok_object prev := None)"
      "sr_state r4 = sr_state ?r3"
      by blast
    have free: "ok_object prev \<notin> ok_object ` ran (hget (sr_state ?r3))"
      using index_free_upd [OF V(2) Some, of ?key] prev(2) r2(5) by (simp add: fun_upd_def)
    have "value_inv blocks X S N good r4" "value_map blocks X r4 = value_map blocks X ?r3"
      using value_unbind [OF bound(1) r4(2,3,4,5) free] by auto
    moreover have "value_insert E k (Some v) r = (Ok (), r4)"
      using r1(1) r2(1,5) Some r4(1) by (simp add: value_insert_def bindR_def)
    ultimately show ?thesis using bound(2) by auto
  qed
qed

end

lemma value_copy_ok:
  assumes inv: "value_inv bl X S N good r" and left: "ids_left 1 (sr_ids r)" "ids_left 1 (handle_table (sr_repo r))"
    and k: "hget (sr_state r) d = None" "value_map bl X r s = Some v"
  shows "\<exists>r'. value_copy s d r = (Ok (), r') \<and> value_inv bl X S N good r' \<and> value_map bl X r' = (value_map bl X r)(d \<mapsto> v)"
proof -
  obtain key where key: "hget (sr_state r) s = Some key" "state_map bl X r (ok_object key) = Some v"
    using k(2) by (auto simp: value_map_def index_map_def split: Option.bind_splits)
  have c: "check_key r key" using index_okD(1) [OF value_invD(2) [OF inv] key(1)] by blast
  obtain i r' where r': "state_copy key r = (Ok (Some (new_id r i)), r')" "state_map bl X r i = None"
    "state_inv bl X S N good r'" "state_step bl {KObject i} r r'" "state_map bl X r' = (state_map bl X r)(i \<mapsto> v)"
    "sr_state r' = sr_state r"
    using state_copy_ok [OF value_invD(1) [OF inv] c key(2), of 0 0] left by auto
  have "value_copy s d r = (Ok (), r'\<lparr>sr_state := hput d (new_id r i) (sr_state r')\<rparr>)"
    using k(1) key(1) r'(1) by (simp add: value_copy_def hcontains_def bindR_def unwrap_option_def)
  with value_bind [OF inv r'(3,4,5,2,6), of d] show ?thesis by blast
qed

text \<open>
  C16: A value repository refines a map from keys to serialized values.  Inserting binds the key to the
  value, replacing an old one; if the value cannot be serialized it fails and the map is unchanged.
  Removing says whether the key was there.  Copying fails if the destination exists or the source does
  not.  Every step keeps the invariant: each key has an object of its own, and no object is leaked to
  another key.  The one exception: a command that removes the object of a key may panic if a chunk occurs twice in
  that object.  A free ID for an object and for a handle is assumed, and that an inserted value fits: its data is hashed
  without collisions, and it is not longer than the UUIDs at hand and 63 bits allow.
\<close>

theorem value_refines_map:
  fixes r :: "('k, 's) value_repo"
  assumes "key_env E bl cinv cfresh cpend S M good" "value_inv bl (ev_ext E) S N good r"
    and "ids_left 1 (sr_ids r)" "ids_left 1 (handle_table (sr_repo r))" "value_feasible S N c r"
  shows "(\<exists>x r'. run_value E c r = (x, r') \<and> spec_value c (value_map bl (ev_ext E) r) = (x, value_map bl (ev_ext E) r') \<and>
      value_inv bl (ev_ext E) S N good r') \<or>
    (\<exists>k p r'. value_frees c = Some k \<and> \<not> value_unrepeated r k \<and> run_value E c r = (Panic p, r'))"
proof (cases "\<exists>k. value_frees c = Some k \<and> \<not> value_unrepeated r k \<and> panics (run_value E c) r")
  case True
  then show ?thesis by (auto simp: panics_iff)
next
  case un: False
  note none = value_map_None [OF assms(2)]
  consider k where "c = VInsert k None" | k v where "c = VInsert k (Some v)" | k where "c = VRemove k" | s d where "c = VCopy s d"
    by (metis option.exhaust value_command.exhaust)
  then show ?thesis
  proof cases
    case (1 k)
    from key_env.value_insert_error [OF assms(1-4), of k] 1 show ?thesis by (elim exE conjE) (simp add: bindR_def)
  next
    case (2 k v)
    then have "value_feasible S N (VInsert k (Some v)) r" using assms(5) by simp
    moreover have "value_unrepeated r k \<or> \<not> panics (value_insert E k (Some v)) r"
      using un 2 panics_bind [of "value_insert E k (Some v)" r "\<lambda>_. ret True"] by (auto simp: panics_def)
    ultimately obtain r' where "value_insert E k (Some v) r = (Ok (), r')" "value_inv bl (ev_ext E) S N good r'"
      "value_map bl (ev_ext E) r' = (value_map bl (ev_ext E) r)(k \<mapsto> v)" using key_env.value_insert_ok [OF assms(1-4)] by blast
    then show ?thesis using 2 by (simp add: bindR_def)
  next
    case (3 k)
    show ?thesis
    proof (cases "hget (sr_state r) k")
      case None
      then show ?thesis using assms(2) none [of k] 3 by (simp add: value_remove_def fun_upd_idem_iff)
    next
      case (Some key)
      have "value_unrepeated r k \<or> \<not> panics (value_remove k) r" using un 3 by (auto simp: panics_def)
      from value_remove_ok [OF assms(2) Some this] show ?thesis using none [of k] Some 3 by (elim exE conjE) simp
    qed
  next
    case (4 s d)
    show ?thesis
    proof (cases "hget (sr_state r) d = None \<and> value_map bl (ev_ext E) r s \<noteq> None")
      case True
      then obtain v where v: "value_map bl (ev_ext E) r s = Some v" and d: "hget (sr_state r) d = None" by auto
      from value_copy_ok [OF assms(2-4) d v] show ?thesis using none [of d] v d 4
        by (elim exE conjE) (simp add: bindR_def)
    next
      case False
      then show ?thesis using assms(2) none [of d] none [of s] 4
        by (auto simp: value_copy_def bindR_def hcontains_def)
    qed
  qed
qed

definition ref_values :: "(nat, (uuid, bytes) hmap) value_repo" where
  "ref_values = ref_state [(7, \<lparr>ok_repo = 9, ok_instance = DEFAULT_INSTANCE, ok_object = 1\<rparr>)]"

lemma ref_values_fields:
  "sr_state ref_values = [(7, \<lparr>ok_repo = 9, ok_instance = DEFAULT_INSTANCE, ok_object = 1\<rparr>)]"
  "sr_repo ref_values = ref_keyed (KObject 1)" "value_map mem_blocks ref_ext ref_values = [7 \<mapsto> [1, 2, 3, 0, 0]]"
  by (simp_all add: ref_values_def value_map_def index_map_def ref_state_contents fun_eq_iff)

lemma ref_values_inv: "value_inv mem_blocks ref_ext UNIV 100 good_chunking ref_values"
  unfolding value_inv_def index_ok_def ref_values_fields using ref_state_inv ref_check
  by (auto simp: ref_values_def ref_state_contents split: if_splits)

lemma ref_values_feasible:
  "value_feasible UNIV 100 (VInsert 7 (Some [4, 2])) ref_values" "value_unrepeated ref_values 7"
  by (simp_all add: value_unrepeated_def ref_values_fields unrepeated_def ref_one_handles ref_rng)
    (simp_all add: ref_handle_def handle_chunks_def extent_chunks_def)

lemma ref_values_left: "ids_left 1 (sr_ids ref_values)" "ids_left 1 (handle_table (sr_repo ref_values))"
  by (simp_all add: ref_values_def ids_left_def ref_ids_def)

theorem value_refines_map_witness:
  "\<exists>r'. run_value ref_env (VInsert 7 (Some [4, 2])) ref_values = (Ok True, r') \<and>
    value_map mem_blocks ref_ext r' = [7 \<mapsto> [4, 2]]"
  using value_refines_map [OF ref_state.key_env_axioms, of 100 ref_values, simplified ref_env_simps,
    OF ref_values_inv ref_values_left ref_values_feasible(1)] ref_values_feasible(2)
  by (auto simp: ref_values_fields)

text \<open>
  What \<^verbatim>\<open>get\<close> returns after \<^verbatim>\<open>insert\<close> is what the deserializer makes of the serialized value, for the key
  that was inserted; for every other key it is what it was before.  A missing key is \<^verbatim>\<open>NotFound\<close>.
\<close>

theorem value_get_after_insert:
  fixes r :: "('k, 's) value_repo"
  assumes "key_env E bl cinv cfresh cpend S M good" "value_inv bl (ev_ext E) S N good r"
    and "ids_left 1 (sr_ids r)" "ids_left 1 (handle_table (sr_repo r))" "value_feasible S N (VInsert k (Some v)) r"
    and "value_unrepeated r k"
  shows "\<exists>r'. value_insert E k (Some v) r = (Ok (), r') \<and>
    fst (value_get E dec k r') = fst (run_decoder slice_read dec v) \<and>
    (\<forall>j. j \<noteq> k \<longrightarrow> fst (value_get E dec j r') = fst (value_get E dec j r)) \<and>
    (\<forall>j. value_get E dec j r = (Err NotFound, r) \<or> value_contains r j)"
proof -
  obtain r' where r': "value_insert E k (Some v) r = (Ok (), r')" "value_inv bl (ev_ext E) S N good r'"
    "value_map bl (ev_ext E) r' = (value_map bl (ev_ext E) r)(k \<mapsto> v)"
    using key_env.value_insert_ok [OF assms(1-5)] assms(6) by blast
  have get: "fst (value_get E dec j q) = (case value_map bl (ev_ext E) q j of None \<Rightarrow> Err NotFound
      | Some w \<Rightarrow> fst (run_decoder slice_read dec w))" if "value_inv bl (ev_ext E) S N good q" for q j
  proof (cases "hget (sr_state q) j")
    case None
    then show ?thesis by (simp add: value_get_def value_map_def index_map_def)
  next
    case (Some key)
    note q = value_invD [OF that]
    obtain w where w: "check_key q key" "state_map bl (ev_ext E) q (ok_object key) = Some w" "value_map bl (ev_ext E) q j = Some w"
      using index_map_Some [OF q(2) Some] unfolding value_map_def by blast
    from key_env.state_deserialize_ok [OF assms(1) q(1) w(1,2), of dec] Some w(3) show ?thesis
      by (elim exE conjE) (simp add: value_get_def)
  qed
  have "value_get E dec j r = (Err NotFound, r) \<or> value_contains r j" for j
    by (simp add: value_get_def value_contains_def hcontains_def split: option.split)
  with r' get [OF r'(2)] get [OF assms(2)] show ?thesis by (intro exI [of _ r']) simp
qed

theorem value_get_after_insert_witness:
  "\<exists>r'. value_insert ref_env 7 (Some [4, 2]) ref_values = (Ok (), r') \<and>
    fst (value_get ref_env (Need 2 (\<lambda>b. Decoded (b ! 1))) 7 r') = Ok 2"
  using value_get_after_insert [OF ref_state.key_env_axioms, of 100 ref_values, simplified ref_env_simps,
    OF ref_values_inv ref_values_left ref_values_feasible, of "Need 2 (\<lambda>b. Decoded (b ! 1))"]
  by (auto simp: read_exact_loop.simps slice_read_def)

end
