(* ===== verification/Version_Repo.thy ===== *)
theory Version_Repo
  imports Value_Repo
begin

text \<open>
  The version repository (\<^verbatim>\<open>src/src/repo/version/repository.rs\<close>, \<^verbatim>\<open>info.rs\<close>): each key has a current
  object and numbered versions, which are copies of it.  A \<^verbatim>\<open>BTreeMap\<close> is an association list in the
  order of its keys; the time a version is created is an argument.
\<close>

section \<open>State\<close>

type_synonym u32 = "32 word"

type_synonym system_time = int

record version =
  v_id :: u32
  v_created :: system_time
  v_content_id :: content_id

definition version_size :: "version \<Rightarrow> nat" where
  "version_size v = content_id_size (v_content_id v)"

record version_info =
  vi_created :: system_time
  vi_id :: object_key

record key_info =
  ki_versions :: "(u32 \<times> version_info) list"
  ki_object :: object_key

type_synonym ('k, 's) version_repo = "(('k, key_info) hmap, 's) state_repo"

definition VERSION_REPO_VERSION_ID :: uuid where
  "VERSION_REPO_VERSION_ID = 0x41a76832cfc411ebad0593c1b714dd17"

definition INITIAL_VERSION_ID :: u32 where
  "INITIAL_VERSION_ID = 1"

fun bt_insert :: "'a :: linorder \<Rightarrow> 'b \<Rightarrow> ('a \<times> 'b) list \<Rightarrow> ('a \<times> 'b) list" where
  "bt_insert k v [] = [(k, v)]"
| "bt_insert k v ((a, b) # xs) =
     (if k < a then (k, v) # (a, b) # xs else if k = a then (k, v) # xs else (a, b) # bt_insert k v xs)"

definition bt_remove :: "'a \<Rightarrow> ('a \<times> 'b) list \<Rightarrow> ('a \<times> 'b) list" where
  "bt_remove k xs = filter (\<lambda>(a, b). a \<noteq> k) xs"

definition bt_wf :: "('a :: linorder \<times> 'b) list \<Rightarrow> bool" where
  "bt_wf xs = sorted_wrt (<) (map fst xs)"

section \<open>Operations\<close>

definition version_repo_open ::
  "('s, 'z) env \<Rightarrow> ('k, key_info) hmap state_codec \<Rightarrow> ((repo_key, 's) key_repo, ('k, 's) version_repo) op" where
  "version_repo_open E C = state_repo_open E C"

definition version_repo_create ::
  "('s, 'z) env \<Rightarrow> ('k, key_info) hmap state_codec \<Rightarrow> ((repo_key, 's) key_repo, ('k, 's) version_repo) op" where
  "version_repo_create E C = state_repo_create E C"

definition version_into_repo ::
  "('s, 'z) env \<Rightarrow> ('k, key_info) hmap state_codec \<Rightarrow> (('k, 's) version_repo, (repo_key, 's) key_repo) op" where
  "version_into_repo E C = state_into_repo E C"

definition version_contains :: "('k, 's) version_repo \<Rightarrow> 'k \<Rightarrow> bool" where
  "version_contains r k = hcontains (sr_state r) k"

definition version_insert :: "'z zpaq \<Rightarrow> 'k \<Rightarrow> (('k, 's) version_repo, 'z chunker object option) op" where
  "version_insert Z k r =
    (if hcontains (sr_state r) k then (Ok None, r)
     else bindR (state_create Z) (\<lambda>oid.
          bindR (state_mut (hput k \<lparr>ki_versions = [], ki_object = oid\<rparr>)) (\<lambda>_ r.
          (Ok (state_object Z oid r), r))) r)"

definition version_remove :: "'k \<Rightarrow> (('k, 's) version_repo, bool) op" where
  "version_remove k r = (case hget (sr_state r) k of
      None \<Rightarrow> (Ok False, r)
    | Some info \<Rightarrow>
        bindR (state_mut (hdel k)) (\<lambda>_.
        bindR (forM (map (vi_id \<circ> snd) (ki_versions info)) (\<lambda>i. bindR (state_remove i) (\<lambda>_. ret ()))) (\<lambda>_.
        bindR (state_remove (ki_object info)) (\<lambda>_. ret True))) r)"

definition version_object :: "'z zpaq \<Rightarrow> 'k \<Rightarrow> (('k, 's) version_repo, 'z chunker object option) op" where
  "version_object Z k r = (case hget (sr_state r) k of
      None \<Rightarrow> (Ok None, r)
    | Some info \<Rightarrow> bindR (unwrap_option (state_object Z (ki_object info) r)) (\<lambda>ob. ret (Some ob)) r)"

definition version_keys :: "('k, 's) version_repo \<Rightarrow> 'k list" where
  "version_keys r = hkeys (sr_state r)"

definition next_version_id :: "(u32 \<times> version_info) list \<Rightarrow> u32" where
  "next_version_id versions = (case rev (map fst versions) of [] \<Rightarrow> INITIAL_VERSION_ID | i # _ \<Rightarrow> i + 1)"

text \<open>The \<^verbatim>\<open>Version\<close> of a stored version.\<close>

definition to_version :: "'z zpaq \<Rightarrow> u32 \<Rightarrow> version_info \<Rightarrow> (('k, 's) version_repo, version) op" where
  "to_version Z i info = bindR (unwrap_result (state_use Z (vi_id info) view_content_id)) (\<lambda>cid.
     ret \<lparr>v_id = i, v_created = vi_created info, v_content_id = cid\<rparr>)"

definition create_version :: "'z zpaq \<Rightarrow> system_time \<Rightarrow> 'k \<Rightarrow> (('k, 's) version_repo, version option) op" where
  "create_version Z now k r = (case hget (sr_state r) k of
      None \<Rightarrow> (Ok None, r)
    | Some key_info \<Rightarrow>
        let vid = next_version_id (ki_versions key_info) in
        bindR (state_copy (ki_object key_info)) (\<lambda>x.
        bindR (unwrap_option x) (\<lambda>version_oid.
        let version_info = \<lparr>vi_created = now, vi_id = version_oid\<rparr> in
        bindR (to_version Z vid version_info) (\<lambda>version r.
          case hget (sr_state r) k of
            None \<Rightarrow> (Ok None, r)
          | Some info \<Rightarrow>
              bindR (state_mut (hput k (info\<lparr>ki_versions := bt_insert vid version_info (ki_versions info)\<rparr>)))
                (\<lambda>_. ret (Some version)) r))) r)"

definition remove_version :: "'k \<Rightarrow> u32 \<Rightarrow> (('k, 's) version_repo, bool) op" where
  "remove_version k vid r = (case hget (sr_state r) k of
      None \<Rightarrow> (Ok False, r)
    | Some info \<Rightarrow>
        (case map_of (ki_versions info) vid of
           None \<Rightarrow> (Ok False, r)
         | Some version_info \<Rightarrow>
             bindR (state_mut (hput k (info\<lparr>ki_versions := bt_remove vid (ki_versions info)\<rparr>))) (\<lambda>_.
             bindR (state_remove (vi_id version_info)) (\<lambda>b.
               if b then ret True else panic ''assertion failed: self.0.remove(version_info.id)'')) r))"

definition read_version_object :: "'z zpaq \<Rightarrow> 'k \<Rightarrow> u32 \<Rightarrow> (('k, 's) version_repo, 'z chunker read_only_object option) op" where
  "read_version_object Z k vid r = (case Option.bind (hget (sr_state r) k) (\<lambda>info. map_of (ki_versions info) vid) of
      None \<Rightarrow> (Ok None, r)
    | Some info \<Rightarrow> bindR (unwrap_option (state_object Z (vi_id info) r)) (\<lambda>ob.
        bindR (unwrap_result (lift_result (read_only_try_from ob))) (\<lambda>ro. ret (Some ro))) r)"

definition get_version :: "'z zpaq \<Rightarrow> 'k \<Rightarrow> u32 \<Rightarrow> (('k, 's) version_repo, version option) op" where
  "get_version Z k vid r = (case Option.bind (hget (sr_state r) k) (\<lambda>info. map_of (ki_versions info) vid) of
      None \<Rightarrow> (Ok None, r)
    | Some info \<Rightarrow> bindR (to_version Z vid info) (\<lambda>v. ret (Some v)) r)"

definition versions :: "'z zpaq \<Rightarrow> 'k \<Rightarrow> (('k, 's) version_repo, version list option) op" where
  "versions Z k r = (case hget (sr_state r) k of
      None \<Rightarrow> (Ok None, r)
    | Some info \<Rightarrow> bindR (mapM (\<lambda>(i, info). to_version Z i info) (ki_versions info)) (\<lambda>vs. ret (Some vs)) r)"

definition restore_version :: "'k \<Rightarrow> u32 \<Rightarrow> (('k, 's) version_repo, bool) op" where
  "restore_version k vid r = (case hget (sr_state r) k of
      None \<Rightarrow> (Ok False, r)
    | Some info \<Rightarrow>
        (case map_of (ki_versions info) vid of
           None \<Rightarrow> (Ok False, r)
         | Some version_info \<Rightarrow>
             bindR (state_copy (vi_id version_info)) (\<lambda>x.
             bindR (unwrap_option x) (\<lambda>new_oid r.
             bindR (unwrap_option (hget (sr_state r) k)) (\<lambda>key_info.
             bindR (state_mut (hput k (key_info\<lparr>ki_object := new_oid\<rparr>))) (\<lambda>_.
             bindR (state_remove (ki_object key_info)) (\<lambda>_. ret True))) r)) r))"

definition version_clear_instance :: "('k, key_info) hmap state_codec \<Rightarrow> (('k, 's) version_repo, unit) op" where
  "version_clear_instance C = state_clear_instance C"

definition version_change_password :: "ext \<Rightarrow> bytes \<Rightarrow> (('k, 's) version_repo, unit) op" where
  "version_change_password X p = state_change_password X p"

definition version_instance :: "('k, 's) version_repo \<Rightarrow> uuid" where
  "version_instance r = state_instance r"

definition version_repo_info :: "('k, 's) version_repo \<Rightarrow> repo_info" where
  "version_repo_info r = state_info r"

definition version_commit ::
  "('s, 'z) env \<Rightarrow> repo_key map_codec \<Rightarrow> ('k, key_info) hmap state_codec \<Rightarrow> (('k, 's) version_repo, unit) op" where
  "version_commit E M C = state_commit E M C"

definition version_rollback ::
  "('s, 'z) env \<Rightarrow> repo_key map_codec \<Rightarrow> ('k, key_info) hmap state_codec \<Rightarrow> (('k, 's) version_repo, unit) op" where
  "version_rollback E M C = state_rollback E M C"

definition version_clean :: "('s, 'z) env \<Rightarrow> (('k, 's) version_repo, unit) op" where
  "version_clean E = state_clean E"

definition version_savepoint ::
  "('s, 'z) env \<Rightarrow> repo_key map_codec \<Rightarrow> ('k, key_info) hmap state_codec \<Rightarrow> (('k, 's) version_repo, savepoint) op" where
  "version_savepoint E M C = state_savepoint E M C"

definition version_start_restore ::
  "('s, 'z) env \<Rightarrow> repo_key map_codec \<Rightarrow> ('k, key_info) hmap state_codec \<Rightarrow> savepoint \<Rightarrow>
     (('k, 's) version_repo, ('k, key_info) hmap state_restore) op" where
  "version_start_restore E M C sp = state_start_restore E M C sp"

definition version_finish_restore :: "('k, key_info) hmap state_restore \<Rightarrow> (('k, 's) version_repo, bool) op" where
  "version_finish_restore k = state_finish_restore k"

section \<open>Ordered maps\<close>

lemma map_of_bt_insert: "map_of (bt_insert k v xs) = (map_of xs)(k \<mapsto> v)" if "bt_wf xs"
  using that
proof (induction k v xs rule: bt_insert.induct)
  case (2 k v a b xs)
  then have "map_of xs a = None" by (force simp: bt_wf_def map_of_eq_None_iff)
  with 2 show ?case by (auto simp: bt_wf_def fun_eq_iff)
qed (simp add: fun_eq_iff)

lemma keys_bt_insert: "fst ` set (bt_insert k v xs) = insert k (fst ` set xs)"
  by (induction k v xs rule: bt_insert.induct) auto

lemma bt_wf_insert: "bt_wf xs \<Longrightarrow> bt_wf (bt_insert k v xs)"
proof (induction k v xs rule: bt_insert.induct)
  case (2 k v a b xs)
  have "\<forall>x \<in> fst ` set (bt_insert k v xs). a < x" if "a < k" using 2(2) that unfolding keys_bt_insert by (auto simp: bt_wf_def)
  with 2 show ?case by (fastforce simp: bt_wf_def)
qed (simp add: bt_wf_def)

lemma map_of_bt_remove: "map_of (bt_remove k xs) = (map_of xs)(k := None)"
  by (induction xs) (auto simp: bt_remove_def fun_eq_iff)

lemma bt_wf_remove: "bt_wf xs \<Longrightarrow> bt_wf (bt_remove k xs)"
proof -
  have "map fst (bt_remove k xs) = filter (\<lambda>a. a \<noteq> k) (map fst xs)" by (induction xs) (auto simp: bt_remove_def)
  then show "bt_wf xs \<Longrightarrow> bt_wf (bt_remove k xs)" by (simp add: bt_wf_def sorted_wrt_filter)
qed

text \<open>
  The next version ID is above all others, unless the largest ID is taken.
\<close>

lemma next_version_id_above:
  assumes "bt_wf vs" "map_of vs (- 1) = None" "i \<in> fst ` set vs"
  shows "i < next_version_id vs"
proof -
  have "vs \<noteq> []" using assms(3) by auto
  then obtain ws m v where vs: "vs = ws @ [(m, v)]" by (metis rev_exhaust surj_pair)
  have "m \<noteq> - 1" using assms(2) vs by (auto simp: map_add_def split: option.splits)
  then have "m < m + 1" by (rule word_inc_nowrap(2))
  moreover have "i \<le> m" using assms(1,3) vs by (auto simp: bt_wf_def sorted_wrt_append intro: less_imp_le)
  ultimately show ?thesis by (simp add: next_version_id_def vs)
qed

lemma keys_bt_remove: "fst ` set (bt_remove k xs) = fst ` set xs - {k}"
  by (force simp: bt_remove_def)

lemma next_version_id_Max:
  assumes "bt_wf vs"
  shows "next_version_id vs = (if vs = [] then 1 else Max (fst ` set vs) + 1)"
proof (cases vs rule: rev_cases)
  case Nil
  then show ?thesis by (simp add: next_version_id_def INITIAL_VERSION_ID_def)
next
  case (snoc ws p)
  then have "Max (fst ` set vs) = fst p"
    using assms by (intro Max_eqI) (auto simp: bt_wf_def sorted_wrt_append intro: less_imp_le)
  then show ?thesis using snoc by (simp add: next_version_id_def)
qed

section \<open>Invariant and abstraction\<close>

text \<open>The places of objects: the current object of a key, and its versions.\<close>

fun slot :: "('k, key_info) hmap \<Rightarrow> 'k \<times> u32 option \<rightharpoonup> object_key" where
  "slot st (k, None) = map_option ki_object (hget st k)"
| "slot st (k, Some i) = Option.bind (hget st k) (\<lambda>info. map_option vi_id (map_of (ki_versions info) i))"

definition version_inv ::
  "('s \<Rightarrow> uuid \<rightharpoonup> bytes) \<Rightarrow> ext \<Rightarrow> bytes set \<Rightarrow> nat \<Rightarrow> (chunking \<Rightarrow> bool) \<Rightarrow> ('k, 's) version_repo \<Rightarrow> bool" where
  "version_inv bl X S N good r \<longleftrightarrow> state_inv bl X S N good r \<and> index_ok bl X r (slot (sr_state r)) \<and>
     (\<forall>k info. hget (sr_state r) k = Some info \<longrightarrow> bt_wf (ki_versions info))"

definition version_map :: "('s \<Rightarrow> uuid \<rightharpoonup> bytes) \<Rightarrow> ext \<Rightarrow> ('k, 's) version_repo \<Rightarrow> 'k \<times> u32 option \<rightharpoonup> bytes" where
  "version_map bl X r = index_map bl X r (slot (sr_state r))"

lemma version_invD:
  assumes "version_inv bl X S N good r"
  shows "state_inv bl X S N good r" "index_ok bl X r (slot (sr_state r))"
    "\<And>k info. hget (sr_state r) k = Some info \<Longrightarrow> bt_wf (ki_versions info)"
  using assms unfolding version_inv_def by blast+

lemma slot_eqI: "(\<And>k. f (k, None) = g (k, None)) \<Longrightarrow> (\<And>k i. f (k, Some i) = g (k, Some i)) \<Longrightarrow> f = g"
  by (metis ext not_None_eq surj_pair)

lemma slot_new: "hget st k = None \<Longrightarrow> slot (hput k \<lparr>ki_versions = [], ki_object = oid\<rparr> st) = (slot st)((k, None) \<mapsto> oid)"
  by (rule slot_eqI) auto

lemma slot_object: "hget st k = Some info \<Longrightarrow> slot (hput k (info\<lparr>ki_object := oid\<rparr>) st) = (slot st)((k, None) \<mapsto> oid)"
  by (rule slot_eqI) auto

lemma slot_version:
  "hget st k = Some info \<Longrightarrow> bt_wf (ki_versions info) \<Longrightarrow>
     slot (hput k (info\<lparr>ki_versions := bt_insert i vi (ki_versions info)\<rparr>) st) = (slot st)((k, Some i) \<mapsto> vi_id vi)"
  by (rule slot_eqI) (auto simp: map_of_bt_insert)

lemma slot_remove_version:
  "hget st k = Some info \<Longrightarrow>
     slot (hput k (info\<lparr>ki_versions := bt_remove i (ki_versions info)\<rparr>) st) = (slot st)((k, Some i) := None)"
  by (rule slot_eqI) (auto simp: map_of_bt_remove)

lemma slot_remove: "slot (hdel k st) = (\<lambda>p. if fst p = k then None else slot st p)"
  by (rule slot_eqI) auto

text \<open>A change of the state that keeps the order of the versions.\<close>

lemma version_put:
  assumes inv: "version_inv bl X S N good r" and s: "state_inv bl X S N good r'" "sr_state r' = sr_state r"
    and info: "bt_wf (ki_versions info)" and f: "slot (hput k info (sr_state r)) = f"
    and ok: "index_ok bl X r' f" "index_map bl X r' f = m"
  shows "version_inv bl X S N good (r'\<lparr>sr_state := hput k info (sr_state r')\<rparr>)"
    "version_map bl X (r'\<lparr>sr_state := hput k info (sr_state r')\<rparr>) = m"
  using assms by (auto simp: version_inv_def version_map_def split: if_splits)

section \<open>Content IDs\<close>

lemma state_content_id:
  assumes inv: "state_inv bl X S N good r" and key: "check_key r key" "state_map bl X r (ok_object key) = Some v"
  shows "\<exists>cid. state_use Z key view_content_id r = (Ok cid, r) \<and> content_id_size cid = length v"
proof -
  obtain h where h: "hget (handles_of (sr_repo r)) (KObject (ok_object key)) = Some h"
    "v = handle_content bl X (rstate (sr_repo r)) h"
    using key(2) by (auto simp: state_map_def repo_map_def)
  then obtain a where a: "hget (objects (sr_repo r)) (KObject (ok_object key)) = Some a" "deref (sr_repo r) a = h"
    by (auto simp: hget_handles_of)
  have hp: "hget (heap (sr_repo r)) a = Some h"
    using repo_invD(5) [OF state_invD(1) [OF inv] a(1)] a(2) by (auto simp: deref_def)
  have ok: "handle_ok bl X (rstate (sr_repo r)) h" using repo_invD(6) [OF state_invD(1) [OF inv] h(1)] by blast
  then have "content_id_size \<lparr>cid_repo = md_id (metadata (rstate (sr_repo r))), cid_extents = extents h\<rparr> = length v"
    by (simp add: content_id_size_def sum64_eq h(2) handle_content_def handle_ok_def length_content total_def)
  moreover have "state_use Z key view_content_id r =
      (Ok \<lparr>cid_repo = md_id (metadata (rstate (sr_repo r))), cid_extents = extents h\<rparr>, r)"
    using a hp key(1)
    by (simp add: state_use_def unwrap_option_def bindR_def state_object_def repo_object_def on_key_repo_def use_object_def
      view_content_id_def on_object_def object_new_def object_state_new_def info_content_id_def in_transaction_def hput_same
      object_drop_def)
  ultimately show ?thesis by blast
qed

section \<open>The operations\<close>

definition slot_unrepeated :: "('k, 's) version_repo \<Rightarrow> 'k \<times> u32 option \<Rightarrow> bool" where
  "slot_unrepeated r p \<longleftrightarrow> (\<forall>key. slot (sr_state r) p = Some key \<longrightarrow> unrepeated (sr_repo r) (KObject (ok_object key)))"

lemma version_insert_ok:
  assumes inv: "version_inv bl X S N good r" and left: "ids_left 1 (sr_ids r)" "ids_left 1 (handle_table (sr_repo r))"
    and k: "hget (sr_state r) k = None"
  shows "\<exists>ob r'. version_insert Z k r = (Ok (Some ob), r') \<and> version_inv bl X S N good r' \<and>
    version_map bl X r' = (version_map bl X r)((k, None) \<mapsto> [])"
proof -
  note V = version_invD [OF inv]
  obtain i q where q: "state_create Z r = (Ok (new_id r i), q)" "state_map bl X r i = None" "state_inv bl X S N good q"
    "state_step bl {KObject i} r q" "state_map bl X q = (state_map bl X r)(i \<mapsto> [])" "sr_state q = sr_state r"
    using state_create_ok [OF V(1), of 0 0 Z] left by auto
  have check: "check_key q = check_key r" using state_step_check [OF q(4)] by simp
  note B = index_bind [OF V(2) check q(5,2) check_new_id, of "(k, None)"]
  let ?info = "\<lparr>ki_versions = [], ki_object = new_id r i\<rparr>"
  note P = version_put [where info = ?info, OF inv q(3,6) _ slot_new [OF k] B]
  have "state_map bl X q i = Some []" using q(5) by simp
  then have "hget (objects (sr_repo q)) (KObject i) \<noteq> None" using state_map_None [of bl X q i] by simp
  then obtain ob where "state_object Z (new_id r i) (q\<lparr>sr_state := hput k ?info (sr_state q)\<rparr>) = Some ob"
    by (auto simp: state_object_def check repo_object_def)
  then have "version_insert Z k r = (Ok (Some ob), q\<lparr>sr_state := hput k ?info (sr_state q)\<rparr>)"
    using k q(1) by (simp add: version_insert_def hcontains_def bindR_def)
  with P show ?thesis by (auto simp: version_map_def bt_wf_def)
qed

lemma create_version_ok:
  assumes inv: "version_inv bl X S N good r" and left: "ids_left 1 (sr_ids r)" "ids_left 1 (handle_table (sr_repo r))"
    and k: "hget (sr_state r) k = Some info" "version_map bl X r (k, None) = Some v"
  shows "\<exists>ver r'. create_version Z now k r = (Ok (Some ver), r') \<and> v_id ver = next_version_id (ki_versions info) \<and>
    v_created ver = now \<and> version_size ver = length v \<and>
    version_inv bl X S N good r' \<and> version_map bl X r' = (version_map bl X r)((k, Some (v_id ver)) \<mapsto> v)"
proof -
  note V = version_invD [OF inv]
  have cur: "check_key r (ki_object info)" "state_map bl X r (ok_object (ki_object info)) = Some v"
    using index_okD(1) [OF V(2), of "(k, None)"] k by (auto simp: version_map_def index_map_def)
  obtain i q where q: "state_copy (ki_object info) r = (Ok (Some (new_id r i)), q)" "state_map bl X r i = None"
    "state_inv bl X S N good q" "state_step bl {KObject i} r q" "state_map bl X q = (state_map bl X r)(i \<mapsto> v)" "sr_state q = sr_state r"
    using state_copy_ok [OF V(1) cur, of 0 0] left by auto
  have check: "check_key q = check_key r" using state_step_check [OF q(4)] by simp
  let ?vid = "next_version_id (ki_versions info)" and ?vi = "\<lparr>vi_created = now, vi_id = new_id r i\<rparr>"
  let ?info = "info\<lparr>ki_versions := bt_insert ?vid ?vi (ki_versions info)\<rparr>"
  note wf = V(3) [OF k(1)]
  have "check_key q (new_id r i)" "state_map bl X q (ok_object (new_id r i)) = Some v" using q(5) check by simp_all
  then obtain cid where cid: "state_use Z (new_id r i) view_content_id q = (Ok cid, q)" "content_id_size cid = length v"
    using state_content_id [OF q(3)] by blast
  let ?ver = "\<lparr>v_id = ?vid, v_created = now, v_content_id = cid\<rparr>" and ?r = "q\<lparr>sr_state := hput k ?info (sr_state q)\<rparr>"
  note B = index_bind [OF V(2) check q(5,2) check_new_id, of "(k, Some ?vid)"]
  have "slot (hput k ?info (sr_state r)) = (slot (sr_state r))((k, Some ?vid) \<mapsto> new_id r i)"
    using slot_version [OF k(1) wf, of ?vid ?vi] by simp
  note P = version_put [where info = ?info, OF inv q(3,6) _ this B]
  have "create_version Z now k r = (Ok (Some ?ver), ?r)"
    using k(1) q(1,6) cid(1)
    by (simp add: create_version_def Let_def bindR_def unwrap_option_def to_version_def unwrap_result_def)
  then show ?thesis using P bt_wf_insert [OF wf] cid(2)
    by (intro exI [of _ ?ver] exI [of _ ?r]) (simp add: version_size_def version_map_def)
qed

lemma remove_version_ok:
  assumes inv: "version_inv bl X S N good r" and k: "slot (sr_state r) (k, Some i) \<noteq> None"
    and un: "slot_unrepeated r (k, Some i) \<or> \<not> panics (remove_version k i) r"
  shows "\<exists>r'. remove_version k i r = (Ok True, r') \<and> version_inv bl X S N good r' \<and>
    version_map bl X r' = (version_map bl X r)((k, Some i) := None)"
proof -
  note V = version_invD [OF inv]
  obtain info vi where info: "hget (sr_state r) k = Some info" "map_of (ki_versions info) i = Some vi"
    using k by (auto split: Option.bind_splits)
  let ?p = "(k, Some i)" and ?f = "(slot (sr_state r))((k, Some i) := None)"
  have vi: "slot (sr_state r) ?p = Some (vi_id vi)" using info by simp
  let ?info = "info\<lparr>ki_versions := bt_remove i (ki_versions info)\<rparr>"
  let ?r = "r\<lparr>sr_state := hput k ?info (sr_state r)\<rparr>"
  note F = index_forget [OF V(2), of ?p]
  have wf: "bt_wf (ki_versions ?info)" using bt_wf_remove [OF V(3) [OF info(1)]] by simp
  note P = version_put [where info = ?info, OF inv V(1) refl wf slot_remove_version [OF info(1)] F]
  have "panics (remove_version k i) r" if "panics (state_remove (vi_id vi)) ?r"
    using that info by (auto simp: panics_iff remove_version_def bindR_def)
  then have key: "check_key ?r (vi_id vi)" "state_map bl X ?r (ok_object (vi_id vi)) \<noteq> None"
    "unrepeated (sr_repo ?r) (KObject (ok_object (vi_id vi))) \<or> \<not> panics (state_remove (vi_id vi)) ?r"
    using index_okD(1) [OF V(2) vi] un vi by (auto simp: slot_unrepeated_def simp del: slot.simps)
  have f: "slot (sr_state ?r) = ?f" using slot_remove_version [OF info(1)] by simp
  obtain r' where r': "state_remove (vi_id vi) ?r = (Ok True, r')" "state_inv bl X S N good r'" "index_ok bl X r' ?f"
    "index_map bl X r' ?f = index_map bl X ?r ?f" "sr_state r' = sr_state ?r"
    using index_drop [OF version_invD(1,2) [OF P(1)] key] index_free(2) [OF V(2) vi] unfolding f by blast
  have "version_inv bl X S N good r'" using r'(2,3,5) version_invD(3) [OF P(1)] f by (simp add: version_inv_def)
  moreover have "version_map bl X r' = (version_map bl X r)(?p := None)"
    using r'(4,5) f P(2) F(2) by (simp add: version_map_def)
  moreover have "remove_version k i r = (Ok True, r')" using info r'(1) by (simp add: remove_version_def bindR_def)
  ultimately show ?thesis by blast
qed

lemma restore_version_ok:
  assumes inv: "version_inv bl X S N good r" and left: "ids_left 1 (sr_ids r)" "ids_left 1 (handle_table (sr_repo r))"
    and k: "version_map bl X r (k, Some i) = Some v"
    and un: "slot_unrepeated r (k, None) \<or> \<not> panics (restore_version k i) r"
  shows "\<exists>r'. restore_version k i r = (Ok True, r') \<and> version_inv bl X S N good r' \<and>
    version_map bl X r' = (version_map bl X r)((k, None) \<mapsto> v)"
proof -
  note V = version_invD [OF inv]
  obtain info vi where info: "hget (sr_state r) k = Some info" "map_of (ki_versions info) i = Some vi"
    "state_map bl X r (ok_object (vi_id vi)) = Some v"
    using k by (auto simp: version_map_def index_map_def split: Option.bind_splits)
  have vi: "check_key r (vi_id vi)" using index_okD(1) [OF V(2), of "(k, Some i)"] info by simp
  obtain j q where q: "state_copy (vi_id vi) r = (Ok (Some (new_id r j)), q)" "state_map bl X r j = None"
    "state_inv bl X S N good q" "state_step bl {KObject j} r q" "state_map bl X q = (state_map bl X r)(j \<mapsto> v)" "sr_state q = sr_state r"
    using state_copy_ok [OF V(1) vi info(3), of 0 0] left by auto
  have check: "check_key q = check_key r" using state_step_check [OF q(4)] by simp
  let ?p = "(k, None)" and ?old = "ki_object info" and ?info = "info\<lparr>ki_object := new_id r j\<rparr>"
  let ?f = "(slot (sr_state r))((k, None) \<mapsto> new_id r j)" and ?r = "q\<lparr>sr_state := hput k ?info (sr_state q)\<rparr>"
  note B = index_bind [OF V(2) check q(5,2) check_new_id, of ?p]
  have wf: "bt_wf (ki_versions ?info)" using V(3) [OF info(1)] by simp
  note P = version_put [where info = ?info, OF inv q(3,6) wf slot_object [OF info(1)] B]
  have old: "slot (sr_state r) ?p = Some ?old" using info(1) by simp
  have ne: "ok_object ?old \<noteq> j" using index_okD(1) [OF V(2) old] q(2) by auto
  have "panics (restore_version k i) r" if "panics (state_remove ?old) ?r"
    using that info q(1,6) by (auto simp: panics_iff restore_version_def bindR_def unwrap_option_def)
  then have key: "check_key ?r ?old" "state_map bl X ?r (ok_object ?old) \<noteq> None"
    "unrepeated (sr_repo ?r) (KObject (ok_object ?old)) \<or> \<not> panics (state_remove ?old) ?r"
    using index_okD(1) [OF V(2) old] un old ne check q(5) state_step_unrepeated [OF q(4), of "KObject (ok_object ?old)"]
    by (auto simp: slot_unrepeated_def simp del: slot.simps)
  have f: "slot (sr_state ?r) = ?f" using slot_object [OF info(1)] q(6) by simp
  have free: "ok_object ?old \<notin> ok_object ` ran ?f"
    using index_free_upd [OF V(2) old, of "new_id r j"] ne by simp
  obtain r' where r': "state_remove ?old ?r = (Ok True, r')" "state_inv bl X S N good r'" "index_ok bl X r' ?f"
    "index_map bl X r' ?f = index_map bl X ?r ?f" "sr_state r' = sr_state ?r"
    using index_drop [OF version_invD(1,2) [OF P(1)] key] free unfolding f by blast
  have "version_inv bl X S N good r'" using r'(2,3,5) version_invD(3) [OF P(1)] f by (simp add: version_inv_def)
  moreover have "version_map bl X r' = (version_map bl X r)(?p \<mapsto> v)"
    using r'(4,5) f P(2) B(2) by (simp add: version_map_def)
  moreover have "restore_version k i r = (Ok True, r')"
    using info q(1,6) r'(1) by (simp add: restore_version_def bindR_def unwrap_option_def)
  ultimately show ?thesis by blast
qed

text \<open>The objects of the versions of a key are different from each other and from those of the other places.\<close>

lemma version_keys:
  assumes inv: "version_inv bl X S N good r" and k: "hget (sr_state r) k = Some info"
  shows "key \<in> (vi_id \<circ> snd) ` set (ki_versions info) \<Longrightarrow> \<exists>i. slot (sr_state r) (k, Some i) = Some key"
    and "distinct (map ok_object (map (vi_id \<circ> snd) (ki_versions info)))"
    and "ok_object (ki_object info) \<notin> ok_object ` set (map (vi_id \<circ> snd) (ki_versions info))"
proof -
  note V = version_invD [OF inv]
  have dist: "distinct (map fst (ki_versions info))" using V(3) [OF k] by (simp add: bt_wf_def strict_sorted_iff)
  have slots: "slot (sr_state r) (k, Some i) = Some (vi_id vi)" if "(i, vi) \<in> set (ki_versions info)" for i vi
    using that k dist by (simp add: map_of_eq_Some_iff)
  then show "key \<in> (vi_id \<circ> snd) ` set (ki_versions info) \<Longrightarrow> \<exists>i. slot (sr_state r) (k, Some i) = Some key"
    by (fastforce simp del: slot.simps)
  have "inj_on (ok_object \<circ> (vi_id \<circ> snd)) (set (ki_versions info))"
  proof (rule inj_onI, clarsimp)
    fix i vi j vj assume m: "(i, vi) \<in> set (ki_versions info)" "(j, vj) \<in> set (ki_versions info)"
      "ok_object (vi_id vi) = ok_object (vi_id vj)"
    then have "i = j" using index_okD(2) [OF V(2) slots slots] by blast
    then show "i = j \<and> vi = vj" using m dist by (metis eq_key_imp_eq_value)
  qed
  then have "distinct (map (ok_object \<circ> (vi_id \<circ> snd)) (ki_versions info))" using dist by (simp add: distinct_map)
  then show "distinct (map ok_object (map (vi_id \<circ> snd) (ki_versions info)))" by simp
  show "ok_object (ki_object info) \<notin> ok_object ` set (map (vi_id \<circ> snd) (ki_versions info))"
  proof
    assume "ok_object (ki_object info) \<in> ok_object ` set (map (vi_id \<circ> snd) (ki_versions info))"
    then obtain i vi where m: "(i, vi) \<in> set (ki_versions info)" "ok_object (ki_object info) = ok_object (vi_id vi)" by auto
    have "slot (sr_state r) (k, None) = Some (ki_object info)" using k by simp
    from index_okD(2) [OF V(2) this slots [OF m(1)] m(2)] show False by simp
  qed
qed

lemma version_remove_ok:
  assumes inv: "version_inv bl X S N good r" and k: "hget (sr_state r) k = Some info"
    and un: "(\<forall>x. slot_unrepeated r (k, x)) \<or> \<not> panics (version_remove k) r"
  shows "\<exists>r'. version_remove k r = (Ok True, r') \<and> version_inv bl X S N good r' \<and>
    version_map bl X r' = (\<lambda>p. if fst p = k then None else version_map bl X r p)"
proof -
  note V = version_invD [OF inv]
  note K = version_keys [OF inv k]
  let ?f = "\<lambda>p. if fst p = k then None else slot (sr_state r) p" and ?r = "r\<lparr>sr_state := hdel k (sr_state r)\<rparr>"
  let ?keys = "map (vi_id \<circ> snd) (ki_versions info)"
  have cur: "slot (sr_state r) (k, None) = Some (ki_object info)" using k by simp
  have f_ok: "index_ok bl X ?r ?f" using V(2) by (auto simp: index_ok_def split: if_splits)
  have f_map: "index_map bl X ?r ?f = (\<lambda>p. if fst p = k then None else version_map bl X r p)"
    by (auto simp: index_map_def version_map_def fun_eq_iff)
  have place: "\<exists>x. slot (sr_state r) (k, x) = Some key" if "key \<in> set ?keys" for key
    using K(1) [of key] that unfolding set_map by blast
  have free: "ok_object key \<notin> ok_object ` ran ?f" if key: "slot (sr_state r) (k, x) = Some key" for x key
  proof
    assume "ok_object key \<in> ok_object ` ran ?f"
    then obtain p key' where p: "slot (sr_state r) p = Some key'" "fst p \<noteq> k" "ok_object key = ok_object key'"
      by (auto simp: ran_def simp del: slot.simps split: if_splits)
    with index_okD(2) [OF V(2) key p(1)] show False by auto
  qed
  have valid: "check_key ?r key \<and> state_map bl X ?r (ok_object key) \<noteq> None"
    if key: "slot (sr_state r) (k, x) = Some key" for x key
    using index_okD(1) [OF V(2) key] by simp
  have disj: "ok_object ` set ?keys \<inter> ok_object ` ran ?f = {}" using free place by blast
  have all: "check_key ?r key \<and> state_map bl X ?r (ok_object key) \<noteq> None" if "key \<in> set ?keys" for key
    using place [OF that] valid by blast
  let ?drop = "\<lambda>i. bindR (state_remove i) (\<lambda>_. ret ())" and ?o = "ki_object info"
  have run: "version_remove k r = bindR (forM ?keys ?drop) (\<lambda>_. bindR (state_remove ?o) (\<lambda>_. ret True)) ?r"
    using k by (simp add: version_remove_def bindR_Ok)
  have un': "(\<forall>x. slot_unrepeated r (k, x)) \<or> \<not> panics (bindR (forM ?keys ?drop) (\<lambda>_. bindR (state_remove ?o) (\<lambda>_. ret True))) ?r"
    using un run by (simp add: panics_def)
  have "unrepeated (sr_repo ?r) (KObject (ok_object key))" if all_un: "\<forall>x. slot_unrepeated r (k, x)" and key: "key \<in> set ?keys" for key
  proof -
    obtain x where "slot (sr_state r) (k, x) = Some key" using place [OF key] by blast
    with all_un show ?thesis by (simp add: slot_unrepeated_def del: slot.simps)
  qed
  then have un_keys: "(\<forall>key \<in> set ?keys. unrepeated (sr_repo ?r) (KObject (ok_object key))) \<or> \<not> panics (forM ?keys ?drop) ?r"
    using un' panics_bind [of "forM ?keys ?drop" ?r] by metis
  have inv': "state_inv bl X S N good ?r" using V(1) by simp
  obtain q where q: "forM ?keys (\<lambda>i. bindR (state_remove i) (\<lambda>_. ret ())) ?r = (Ok (), q)"
    "state_inv bl X S N good q" "index_ok bl X q ?f" "index_map bl X q ?f = index_map bl X ?r ?f"
    "state_step bl ((KObject \<circ> ok_object) ` set ?keys) ?r q" "sr_state q = sr_state ?r"
    "state_map bl X q = (\<lambda>i. if i \<in> ok_object ` set ?keys then None else state_map bl X ?r i)"
    using index_drop_all [OF inv' f_ok K(2) all disj un_keys] by blast
  have "panics (bindR (state_remove ?o) (\<lambda>_. ret True)) q = panics (version_remove k) r"
    unfolding panics_def run using q(1) by (simp add: bindR_Ok)
  moreover have "KObject (ok_object ?o) \<notin> (KObject \<circ> ok_object) ` set ?keys" using K(3) by auto
  from state_step_unrepeated [OF q(5) this] have "unrepeated (sr_repo q) (KObject (ok_object ?o))" if "\<forall>x. slot_unrepeated r (k, x)"
    using that cur by (auto simp: slot_unrepeated_def simp del: slot.simps)
  ultimately have "unrepeated (sr_repo q) (KObject (ok_object ?o)) \<or> \<not> panics (state_remove ?o) q"
    using un panics_bind [of "state_remove ?o" q] by blast
  moreover have "check_key q ?o" "state_map bl X q (ok_object ?o) \<noteq> None" "ok_object ?o \<notin> ok_object ` ran ?f"
    using valid [OF cur] free [OF cur] K(3) q(7) state_step_check [OF q(5)] by auto
  ultimately obtain r' where r': "state_remove ?o q = (Ok True, r')" "state_inv bl X S N good r'"
    "index_ok bl X r' ?f" "index_map bl X r' ?f = index_map bl X q ?f" "sr_state r' = sr_state q"
    using index_drop [OF q(2,3)] by blast
  have "slot (sr_state r') = ?f" using r'(5) q(6) slot_remove [of k "sr_state r"] by simp
  moreover have "version_remove k r = (Ok True, r')"
    using k q(1) r'(1) by (simp add: version_remove_def bindR_Ok)
  ultimately show ?thesis using r' q(4,6) f_map V(3)
    by (intro exI [of _ r']) (auto simp: version_inv_def version_map_def split: if_splits)
qed

section \<open>Refinement\<close>

text \<open>
  The specification: every key has a current contents and a finite map from version IDs to contents.
\<close>

datatype 'k version_command =
    RInsert 'k
  | RRemove 'k
  | RCreate 'k
  | RRemoveVersion 'k u32
  | RRestore 'k u32

fun spec_version :: "u32 \<Rightarrow> 'k version_command \<Rightarrow> ('k \<times> u32 option \<rightharpoonup> bytes) \<Rightarrow> bool \<times> ('k \<times> u32 option \<rightharpoonup> bytes)" where
  "spec_version i (RInsert k) m = (if m (k, None) \<noteq> None then (False, m) else (True, m((k, None) \<mapsto> [])))"
| "spec_version i (RRemove k) m = (m (k, None) \<noteq> None, \<lambda>p. if fst p = k then None else m p)"
| "spec_version i (RCreate k) m = (case m (k, None) of None \<Rightarrow> (False, m) | Some v \<Rightarrow> (True, m((k, Some i) \<mapsto> v)))"
| "spec_version i (RRemoveVersion k j) m = (m (k, Some j) \<noteq> None, m((k, Some j) := None))"
| "spec_version i (RRestore k j) m = (case m (k, Some j) of None \<Rightarrow> (False, m) | Some v \<Rightarrow> (True, m((k, None) \<mapsto> v)))"

fun run_version :: "'z zpaq \<Rightarrow> system_time \<Rightarrow> 'k version_command \<Rightarrow> (('k, 's) version_repo, bool) op" where
  "run_version Z now (RInsert k) r = bindR (version_insert Z k) (\<lambda>x. ret (x \<noteq> None)) r"
| "run_version Z now (RRemove k) r = version_remove k r"
| "run_version Z now (RCreate k) r = bindR (create_version Z now k) (\<lambda>x. ret (x \<noteq> None)) r"
| "run_version Z now (RRemoveVersion k i) r = remove_version k i r"
| "run_version Z now (RRestore k i) r = restore_version k i r"

text \<open>The places whose objects a command removes.\<close>

fun version_frees :: "'k version_command \<Rightarrow> 'k \<times> u32 option \<Rightarrow> bool" where
  "version_frees (RRemove k) p \<longleftrightarrow> fst p = k"
| "version_frees (RRemoveVersion k i) p \<longleftrightarrow> p = (k, Some i)"
| "version_frees (RRestore k i) p \<longleftrightarrow> p = (k, None)"
| "version_frees c p \<longleftrightarrow> False"

fun command_key :: "'k version_command \<Rightarrow> 'k" where
  "command_key (RInsert k) = k"
| "command_key (RRemove k) = k"
| "command_key (RCreate k) = k"
| "command_key (RRemoveVersion k i) = k"
| "command_key (RRestore k i) = k"

definition fresh_version :: "('k, 's) version_repo \<Rightarrow> 'k \<Rightarrow> u32" where
  "fresh_version r k = (case hget (sr_state r) k of None \<Rightarrow> INITIAL_VERSION_ID | Some info \<Rightarrow> next_version_id (ki_versions info))"

lemma version_map_iff:
  assumes "version_inv bl X S N good r"
  shows "version_map bl X r (k, None) = None \<longleftrightarrow> hget (sr_state r) k = None"
    "version_map bl X r (k, Some i) = None \<longleftrightarrow> slot (sr_state r) (k, Some i) = None"
    "hget (sr_state r) k = None \<Longrightarrow> version_map bl X r (k, x) = None"
  using index_map_None [OF version_invD(2) [OF assms]] unfolding version_map_def by (cases x; simp)+

text \<open>A command does what it does on the map, and keeps the invariant.\<close>

abbreviation version_simulated ::
  "('s \<Rightarrow> uuid \<rightharpoonup> bytes) \<Rightarrow> ext \<Rightarrow> bytes set \<Rightarrow> nat \<Rightarrow> (chunking \<Rightarrow> bool) \<Rightarrow> 'z zpaq \<Rightarrow> system_time \<Rightarrow> 'k version_command \<Rightarrow> ('k, 's) version_repo \<Rightarrow> bool" where
  "version_simulated bl X S N good Z now c r \<equiv> (\<exists>b r'. run_version Z now c r = (Ok b, r') \<and> version_inv bl X S N good r' \<and>
    spec_version (fresh_version r (command_key c)) c (version_map bl X r) = (b, version_map bl X r'))"

lemma version_insert_refines:
  assumes "version_inv bl X S N good r" "ids_left 1 (sr_ids r)" "ids_left 1 (handle_table (sr_repo r))"
  shows "version_simulated bl X S N good Z now (RInsert k) r"
proof (cases "hget (sr_state r) k")
  case None
  from version_insert_ok [OF assms(1-3) None, of Z] version_map_iff(1) [OF assms(1), of k] None show ?thesis
    by (elim exE conjE) (simp add: bindR_def)
next
  case (Some info)
  then show ?thesis using assms(1) version_map_iff(1) [OF assms(1), of k] by (auto simp: version_insert_def hcontains_def bindR_def)
qed

lemma version_remove_refines:
  assumes "version_inv bl X S N good r" "ids_left 1 (sr_ids r)" "ids_left 1 (handle_table (sr_repo r))"
    and "(\<forall>p. version_frees (RRemove k) p \<longrightarrow> slot_unrepeated r p) \<or> \<not> panics (run_version Z now (RRemove k)) r"
  shows "version_simulated bl X S N good Z now (RRemove k) r"
proof (cases "hget (sr_state r) k")
  case None
  then have "(\<lambda>p. if fst p = k then None else version_map bl X r p) = version_map bl X r"
    using version_map_iff(3) [OF assms(1) None] by (auto simp: fun_eq_iff)
  then show ?thesis using assms(1) version_map_iff(1) [OF assms(1), of k] None by (simp add: version_remove_def)
next
  case (Some info)
  have "(\<forall>x. slot_unrepeated r (k, x)) \<or> \<not> panics (version_remove k) r" using assms(4) by (auto simp: panics_def)
  from version_remove_ok [OF assms(1) Some this] version_map_iff(1) [OF assms(1), of k] Some show ?thesis by (elim exE conjE) simp
qed

lemma create_version_refines:
  assumes "version_inv bl X S N good r" "ids_left 1 (sr_ids r)" "ids_left 1 (handle_table (sr_repo r))"
  shows "version_simulated bl X S N good Z now (RCreate k) r"
proof (cases "hget (sr_state r) k")
  case None
  then show ?thesis using assms(1) version_map_iff(1) [OF assms(1), of k] by (simp add: create_version_def bindR_def)
next
  case (Some info)
  then obtain v where v: "version_map bl X r (k, None) = Some v" using version_map_iff(1) [OF assms(1), of k] by auto
  from create_version_ok [OF assms(1-3) Some v, of Z now] Some v show ?thesis
    by (elim exE conjE) (simp add: bindR_def fresh_version_def)
qed

lemma remove_version_refines:
  assumes "version_inv bl X S N good r" "ids_left 1 (sr_ids r)" "ids_left 1 (handle_table (sr_repo r))"
    and "(\<forall>p. version_frees (RRemoveVersion k i) p \<longrightarrow> slot_unrepeated r p) \<or> \<not> panics (run_version Z now (RRemoveVersion k i)) r"
  shows "version_simulated bl X S N good Z now (RRemoveVersion k i) r"
proof (cases "slot (sr_state r) (k, Some i)")
  case None
  then have "version_map bl X r (k, Some i) = None" "remove_version k i r = (Ok False, r)"
    using version_map_iff(2) [OF assms(1), of k i] by (auto simp: remove_version_def split: option.splits Option.bind_splits)
  then show ?thesis using assms(1) by (simp add: fun_upd_idem_iff)
next
  case (Some key)
  have "slot_unrepeated r (k, Some i) \<or> \<not> panics (remove_version k i) r" using assms(4) by (auto simp: panics_def)
  moreover have "slot (sr_state r) (k, Some i) \<noteq> None" using Some by simp
  ultimately obtain r' where "remove_version k i r = (Ok True, r')" "version_inv bl X S N good r'"
    "version_map bl X r' = (version_map bl X r)((k, Some i) := None)" using remove_version_ok [OF assms(1)] by blast
  then show ?thesis using version_map_iff(2) [OF assms(1), of k i] Some
    by (intro exI [of _ True] exI [of _ r']) (simp del: slot.simps)
qed

lemma restore_version_refines:
  assumes "version_inv bl X S N good r" "ids_left 1 (sr_ids r)" "ids_left 1 (handle_table (sr_repo r))"
    and "(\<forall>p. version_frees (RRestore k i) p \<longrightarrow> slot_unrepeated r p) \<or> \<not> panics (run_version Z now (RRestore k i)) r"
  shows "version_simulated bl X S N good Z now (RRestore k i) r"
proof (cases "version_map bl X r (k, Some i)")
  case None
  then have "restore_version k i r = (Ok False, r)"
    using version_map_iff(2) [OF assms(1), of k i] by (auto simp: restore_version_def split: option.splits Option.bind_splits)
  then show ?thesis using assms(1) None by simp
next
  case (Some v)
  have "slot_unrepeated r (k, None) \<or> \<not> panics (restore_version k i) r" using assms(4) by (auto simp: panics_def)
  from restore_version_ok [OF assms(1-3) Some this] Some show ?thesis by (elim exE conjE) simp
qed

text \<open>
  C18: A version repository refines its specification.  Inserting a new key gives it an empty current
  object; creating a version stores a copy of the current contents under the next version ID (above all others, until
  the largest ID is in use); restoring a version makes its contents current and keeps the version; removing a version or
  a key removes exactly its objects.  Each operation says whether the key or version existed and changes
  nothing if not; the version IDs stay in order and every object belongs to one place.  The one exception: removing a
  version or a key and restoring a version may panic if a chunk occurs twice in an object that they remove.  A free ID
  for an object and for a handle is assumed.
\<close>

theorem version_refines:
  assumes "version_inv bl X S N good r" "ids_left 1 (sr_ids r)" "ids_left 1 (handle_table (sr_repo r))"
  shows "(\<exists>b r'. run_version Z now c r = (Ok b, r') \<and> version_inv bl X S N good r' \<and>
      spec_version (fresh_version r (command_key c)) c (version_map bl X r) = (b, version_map bl X r')) \<or>
    (\<exists>p msg r'. version_frees c p \<and> \<not> slot_unrepeated r p \<and> run_version Z now c r = (Panic msg, r'))"
proof (cases "(\<exists>p. version_frees c p \<and> \<not> slot_unrepeated r p) \<and> panics (run_version Z now c) r")
  case True
  then show ?thesis by (auto simp: panics_iff)
next
  case False
  then have un: "(\<forall>p. version_frees c p \<longrightarrow> slot_unrepeated r p) \<or> \<not> panics (run_version Z now c) r" by blast
  have "version_simulated bl X S N good Z now c r"
  proof (cases c)
    case (RInsert k)
    then show ?thesis using version_insert_refines [OF assms] by blast
  next
    case (RRemove k)
    then show ?thesis using version_remove_refines [OF assms] un by blast
  next
    case (RCreate k)
    then show ?thesis using create_version_refines [OF assms] by blast
  next
    case (RRemoveVersion k i)
    then show ?thesis using remove_version_refines [OF assms] un by blast
  next
    case (RRestore k i)
    then show ?thesis using restore_version_refines [OF assms] un by blast
  qed
  then show ?thesis by blast
qed

definition ref_versions :: "(nat, (uuid, bytes) hmap) version_repo" where
  "ref_versions = ref_state [(7, \<lparr>ki_versions = [],
     ki_object = \<lparr>ok_repo = 9, ok_instance = DEFAULT_INSTANCE, ok_object = 1\<rparr>\<rparr>)]"

lemma ref_versions_slot:
  "slot (sr_state ref_versions) = [(7, None) \<mapsto> \<lparr>ok_repo = 9, ok_instance = DEFAULT_INSTANCE, ok_object = 1\<rparr>]"
  by (rule slot_eqI) (simp_all add: ref_versions_def)

lemma ref_versions_facts:
  "version_inv mem_blocks ref_ext UNIV 100 good_chunking ref_versions"
  "version_map mem_blocks ref_ext ref_versions = [(7, None) \<mapsto> [1, 2, 3, 0, 0]]"
  "ids_left 1 (sr_ids ref_versions)" "ids_left 1 (handle_table (sr_repo ref_versions))"
proof -
  show "version_inv mem_blocks ref_ext UNIV 100 good_chunking ref_versions"
    unfolding version_inv_def index_ok_def ref_versions_slot using ref_state_inv ref_check
    by (auto simp: ref_versions_def ref_state_contents bt_wf_def split: if_splits)
  show "version_map mem_blocks ref_ext ref_versions = [(7, None) \<mapsto> [1, 2, 3, 0, 0]]"
    unfolding version_map_def ref_versions_slot by (simp add: ref_versions_def index_map_def ref_state_contents fun_eq_iff)
  show "ids_left 1 (sr_ids ref_versions)" "ids_left 1 (handle_table (sr_repo ref_versions))"
    by (simp_all add: ref_versions_def ids_left_def ref_ids_def)
qed

theorem version_refines_witness:
  "\<exists>r'. run_version ref_zpaq 0 (RCreate 7) ref_versions = (Ok True, r') \<and>
    version_map mem_blocks ref_ext r' = [(7, None) \<mapsto> [1, 2, 3, 0, 0], (7, Some 1) \<mapsto> [1, 2, 3, 0, 0]]"
proof -
  have "fresh_version ref_versions 7 = 1"
    by (simp add: fresh_version_def ref_versions_def next_version_id_def INITIAL_VERSION_ID_def)
  then show ?thesis
    using version_refines [OF ref_versions_facts(1,3,4), of ref_zpaq 0 "RCreate 7"] by (auto simp: ref_versions_facts(2))
qed

text \<open>
  C33: The ID of a new version.  It is 1 for the first version and one more than the largest ID otherwise,
  and above every ID in use as long as the largest 32-bit value is not in use; then it wraps to 0, and
  the next version but one has the ID 0 again and replaces the one before.  The ID of the newest version is
  used again once that version is removed.
\<close>

theorem next_version_id_bounds:
  assumes "bt_wf vs"
  shows "(vs = [] \<longrightarrow> next_version_id vs = 1) \<and>
    (map_of vs (- 1) = None \<longrightarrow> (\<forall>i \<in> fst ` set vs. i < next_version_id vs)) \<and>
    (map_of vs (- 1) \<noteq> None \<longrightarrow> next_version_id vs = 0 \<and> next_version_id (bt_insert 0 vi vs) = 0) \<and>
    (map_of vs (- 1) = None \<longrightarrow>
       next_version_id (bt_remove (next_version_id vs) (bt_insert (next_version_id vs) vi vs)) = next_version_id vs)"
proof (intro conjI impI)
  show "vs = [] \<Longrightarrow> next_version_id vs = 1" by (simp add: next_version_id_def INITIAL_VERSION_ID_def)
  show "\<forall>i \<in> fst ` set vs. i < next_version_id vs" if "map_of vs (- 1) = None"
    using next_version_id_above [OF assms that] by blast
  have wrap: "next_version_id ws = 0" if ws: "bt_wf ws" "- 1 \<in> fst ` set ws" for ws :: "(u32 \<times> version_info) list"
  proof -
    have "- 1 \<le> Max (fst ` set ws)" using ws(2) by simp
    then have "Max (fst ` set ws) = - 1" by (metis max_word_max order_antisym)
    then show ?thesis using next_version_id_Max [OF ws(1)] ws(2) by auto
  qed
  assume "map_of vs (- 1) \<noteq> None"
  then have "- 1 \<in> fst ` set vs" by (metis map_of_eq_None_iff)
  then show "next_version_id vs = 0" "next_version_id (bt_insert 0 vi vs) = 0"
    using wrap [OF assms] wrap [OF bt_wf_insert [OF assms]] by (simp_all add: keys_bt_insert)
next
  let ?n = "next_version_id vs" and ?ws = "bt_remove (next_version_id vs) (bt_insert (next_version_id vs) vi vs)"
  assume "map_of vs (- 1) = None"
  then have "?n \<notin> fst ` set vs" using next_version_id_above [OF assms] by blast
  then have keys: "fst ` set ?ws = fst ` set vs" by (simp add: keys_bt_remove keys_bt_insert)
  then have "?ws = [] \<longleftrightarrow> vs = []" by (metis image_is_empty set_empty)
  moreover have "bt_wf ?ws" using assms by (simp add: bt_wf_insert bt_wf_remove)
  ultimately show "next_version_id ?ws = ?n" by (metis keys assms next_version_id_Max)
qed

theorem next_version_id_bounds_witness:
  "next_version_id [(4, \<lparr>vi_created = 0, vi_id = \<lparr>ok_repo = 9, ok_instance = 0, ok_object = 1\<rparr>\<rparr>)] = 5"
proof -
  let ?vi = "\<lparr>vi_created = 0, vi_id = \<lparr>ok_repo = 9, ok_instance = 0, ok_object = 1\<rparr>\<rparr>"
  have "bt_wf [(4 :: u32, ?vi)]" by (simp add: bt_wf_def)
  from next_version_id_bounds [OF this, of ?vi] have "4 < next_version_id [(4 :: u32, ?vi)]" by simp
  then show ?thesis by (simp add: next_version_id_def)
qed

end
