(* ===== verification/Content_Repo.thy ===== *)
theory Content_Repo
  imports Value_Repo
begin

text \<open>
  The content repository (\<^verbatim>\<open>src/src/repo/content/repository.rs\<close>, \<^verbatim>\<open>hash.rs\<close>): objects that are addressed by
  the hash of their contents.  The hash functions of the crates \<^verbatim>\<open>sha2\<close>, \<^verbatim>\<open>sha3\<close>, \<^verbatim>\<open>blake2\<close> and \<^verbatim>\<open>blake3\<close> are a
  parameter; the contract of a digest is the locale \<open>digests\<close>.
\<close>

section \<open>Hash algorithms\<close>

datatype hash_algorithm =
    Sha224 | Sha256 | Sha384 | Sha512 | Sha512Trunc224 | Sha512Trunc256
  | Sha3_224 | Sha3_256 | Sha3_384 | Sha3_512
  | Blake2b nat | Blake2s nat | Blake3

definition DEFAULT_ALGORITHM :: hash_algorithm where
  "DEFAULT_ALGORITHM = Blake3"

definition BUFFER_SIZE :: nat where
  "BUFFER_SIZE = 1024 * 16"

text \<open>
  The traits \<^verbatim>\<open>Update\<close>, \<^verbatim>\<open>FixedOutput\<close> and \<^verbatim>\<open>VariableOutput\<close> of the \<^verbatim>\<open>digest\<close> crate: the hashers with a fixed size have
  a default state, the others are made for a size, which may be refused.
\<close>

record 'd hashers =
  hs_default :: "hash_algorithm \<Rightarrow> 'd"
  hs_new :: "hash_algorithm \<Rightarrow> nat \<Rightarrow> 'd option"
  hs_update :: "'d \<Rightarrow> bytes \<Rightarrow> 'd"
  hs_finalize_fixed :: "'d \<Rightarrow> bytes"
  hs_finalize_boxed :: "'d \<Rightarrow> bytes"
  hs_output_size :: "hash_algorithm \<Rightarrow> nat"

datatype 'd simple_digest = FixedDigest 'd | VariableDigest 'd

fun digest_update :: "'d hashers \<Rightarrow> 'd simple_digest \<Rightarrow> bytes \<Rightarrow> 'd simple_digest" where
  "digest_update G (FixedDigest d) data = FixedDigest (hs_update G d data)"
| "digest_update G (VariableDigest d) data = VariableDigest (hs_update G d data)"

fun digest_result :: "'d hashers \<Rightarrow> 'd simple_digest \<Rightarrow> bytes" where
  "digest_result G (FixedDigest d) = hs_finalize_fixed G d"
| "digest_result G (VariableDigest d) = hs_finalize_boxed G d"

definition output_size :: "'d hashers \<Rightarrow> hash_algorithm \<Rightarrow> nat" where
  "output_size G alg = (case alg of Blake2b n \<Rightarrow> n | Blake2s n \<Rightarrow> n | _ \<Rightarrow> hs_output_size G alg)"

definition digest :: "'d hashers \<Rightarrow> hash_algorithm \<Rightarrow> ('s, 'd simple_digest) op" where
  "digest G alg = (case alg of
      Blake2b n \<Rightarrow> (case hs_new G alg n of
          None \<Rightarrow> panic ''Invalid digest size for BLAKE2b.'' | Some d \<Rightarrow> ret (VariableDigest d))
    | Blake2s n \<Rightarrow> (case hs_new G alg n of
          None \<Rightarrow> panic ''Invalid digest size for BLAKE2s.'' | Some d \<Rightarrow> ret (VariableDigest d))
    | _ \<Rightarrow> ret (FixedDigest (hs_default G alg)))"

partial_function (option) hash_loop ::
  "'d hashers \<Rightarrow> 'r read_fn \<Rightarrow> 'd simple_digest \<Rightarrow> 'r \<Rightarrow> ('d simple_digest result \<times> 'r) option" where
  "hash_loop G rd dg r = (case rd BUFFER_SIZE r of
      (Inl e, r') \<Rightarrow> Some (Err (error_of_io e), r')
    | (Inr b, r') \<Rightarrow> if b = [] then Some (Ok dg, r') else hash_loop G rd (digest_update G dg b) r')"

definition hash_data :: "'d hashers \<Rightarrow> hash_algorithm \<Rightarrow> 'r read_fn \<Rightarrow> ('r, bytes) op" where
  "hash_data G alg rd =
     bindR (digest G alg) (\<lambda>dg.
     bindR (\<lambda>r. option_result (hash_loop G rd dg r) r) (\<lambda>dg'.
     ret (digest_result G dg')))"

section \<open>State\<close>

record content_state =
  cs_table :: "(bytes, object_key) hmap"
  cs_algorithm :: hash_algorithm
  cs_stage :: "object_key option"

definition content_default :: content_state where
  "content_default = \<lparr>cs_table = [], cs_algorithm = DEFAULT_ALGORITHM, cs_stage = None\<rparr>"

type_synonym 's content_repo = "(content_state, 's) state_repo"

definition CONTENT_REPO_VERSION_ID :: uuid where
  "CONTENT_REPO_VERSION_ID = 0x91e098e0cfe311eb882377511adc39c8"

definition content_repo_open ::
  "('s, 'z) env \<Rightarrow> content_state state_codec \<Rightarrow> ((repo_key, 's) key_repo, 's content_repo) op" where
  "content_repo_open E C = state_repo_open E C"

definition content_repo_create ::
  "('s, 'z) env \<Rightarrow> content_state state_codec \<Rightarrow> ((repo_key, 's) key_repo, 's content_repo) op" where
  "content_repo_create E C = state_repo_create E C"

definition content_into_repo ::
  "('s, 'z) env \<Rightarrow> content_state state_codec \<Rightarrow> ('s content_repo, (repo_key, 's) key_repo) op" where
  "content_into_repo E C = state_into_repo E C"

section \<open>Operations\<close>

definition content_contains :: "'s content_repo \<Rightarrow> bytes \<Rightarrow> bool" where
  "content_contains r hash = hcontains (cs_table (sr_state r)) hash"

text \<open>
  The loop that hashes the data and writes it to the staging object.  The repository is borrowed
  exclusively meanwhile, so the handle of the object stays valid and is looked up once.
\<close>

partial_function (option) put_loop ::
  "'s data_store_ops \<Rightarrow> ext \<Rightarrow> 'c chunker_ops \<Rightarrow> 'd hashers \<Rightarrow> 'r read_fn \<Rightarrow> 'd simple_digest \<Rightarrow> 'r \<Rightarrow> ('s, 'c) octx \<Rightarrow>
     ('d simple_digest result \<times> ('s, 'c) octx) option" where
  "put_loop D X C G rd dg r x = (case rd BUFFER_SIZE r of
      (Inl e, r') \<Rightarrow> Some (Err (error_of_io e), x)
    | (Inr b, r') \<Rightarrow>
        if b = [] then Some (Ok dg, x)
        else (case object_write_all D X C b x of
            (y, x') \<Rightarrow> (case y of
                Ok u \<Rightarrow> put_loop D X C G rd (digest_update G dg b) r' x'
              | Err e \<Rightarrow> Some (Err e, x')
              | Panic p \<Rightarrow> Some (Panic p, x')
              | Diverge \<Rightarrow> Some (Diverge, x'))))"

definition put_stage ::
  "('s, 'z) env \<Rightarrow> 'd hashers \<Rightarrow> 'r read_fn \<Rightarrow> 'd simple_digest \<Rightarrow> 'r \<Rightarrow> (('s, 'z chunker) octx, bytes) op" where
  "put_stage E G rd dg r =
     bindR (set_len (ev_store E) (ev_ext E) 0) (\<lambda>_.
     bindR (\<lambda>x. option_result (put_loop (ev_store E) (ev_ext E) (dyn_ops (ev_zpaq E)) G rd dg r x) x) (\<lambda>dg'.
     bindR (object_commit (ev_store E) (ev_ext E) (dyn_ops (ev_zpaq E))) (\<lambda>_.
     ret (digest_result G dg'))))"

definition ensure_stage :: "'z zpaq \<Rightarrow> ('s content_repo, unit) op" where
  "ensure_stage Z r =
    (if cs_stage (sr_state r) = None
     then bindR (state_create Z) (\<lambda>oid. state_mut (\<lambda>st. st\<lparr>cs_stage := Some oid\<rparr>)) r
     else (Ok (), r))"

definition content_put :: "('s, 'z) env \<Rightarrow> 'd hashers \<Rightarrow> 'r read_fn \<Rightarrow> 'r \<Rightarrow> ('s content_repo, bytes) op" where
  "content_put E G rd data r =
     bindR (digest G (cs_algorithm (sr_state r))) (\<lambda>dg.
     bindR (ensure_stage (ev_zpaq E)) (\<lambda>_ r.
     bindR (unwrap_option (cs_stage (sr_state r))) (\<lambda>stage.
     bindR (state_use (ev_zpaq E) stage (on_object (put_stage E G rd dg data))) (\<lambda>hash r.
       if hcontains (cs_table (sr_state r)) hash then (Ok hash, r)
       else bindR (state_copy stage) (\<lambda>x.
            bindR (unwrap_option x) (\<lambda>oid.
            bindR (state_mut (\<lambda>st. st\<lparr>cs_table := hput hash oid (cs_table st)\<rparr>)) (\<lambda>_.
            ret hash))) r)) r)) r"

definition content_remove :: "bytes \<Rightarrow> ('s content_repo, bool) op" where
  "content_remove hash r = (case hget (cs_table (sr_state r)) hash of
      None \<Rightarrow> (Ok False, r)
    | Some oid \<Rightarrow>
        bindR (state_mut (\<lambda>st. st\<lparr>cs_table := hdel hash (cs_table st)\<rparr>)) (\<lambda>_.
        bindR (state_remove oid) (\<lambda>b.
          if b then ret True else panic ''assertion failed: self.0.remove(object_id)'')) r)"

definition content_object :: "'z zpaq \<Rightarrow> bytes \<Rightarrow> ('s content_repo, 'z chunker read_only_object option) op" where
  "content_object Z hash r = (case hget (cs_table (sr_state r)) hash of
      None \<Rightarrow> (Ok None, r)
    | Some oid \<Rightarrow> bindR (unwrap_option (state_object Z oid r)) (\<lambda>ob.
        bindR (unwrap_result (lift_result (read_only_try_from ob))) (\<lambda>ro. ret (Some ro))) r)"

definition content_list :: "'s content_repo \<Rightarrow> bytes list" where
  "content_list r = hkeys (cs_table (sr_state r))"

definition content_algorithm :: "'s content_repo \<Rightarrow> hash_algorithm" where
  "content_algorithm r = cs_algorithm (sr_state r)"

fun rehash :: "('s, 'z) env \<Rightarrow> 'd hashers \<Rightarrow> hash_algorithm \<Rightarrow> object_key list \<Rightarrow> (bytes, object_key) hmap \<Rightarrow>
    ('s content_repo, (bytes, object_key) hmap) op" where
  "rehash E G alg [] new_table r = (Ok new_table, r)"
| "rehash E G alg (oid # oids) new_table r =
     bindR (state_use (ev_zpaq E) oid (on_object (hash_data G alg (object_read_fn (ev_store E) (ev_ext E))))) (\<lambda>new_hash.
     rehash E G alg oids (hput new_hash oid new_table)) r"

definition change_algorithm :: "('s, 'z) env \<Rightarrow> 'd hashers \<Rightarrow> hash_algorithm \<Rightarrow> ('s content_repo, unit) op" where
  "change_algorithm E G new_algorithm r =
    (if new_algorithm = cs_algorithm (sr_state r) then (Ok (), r)
     else bindR (rehash E G new_algorithm (hvalues (cs_table (sr_state r))) []) (\<lambda>new_table.
          bindR (state_mut (\<lambda>st. st\<lparr>cs_algorithm := new_algorithm\<rparr>)) (\<lambda>_.
          state_mut (\<lambda>st. st\<lparr>cs_table := new_table\<rparr>))) r)"

definition content_verify :: "('s, 'z) env \<Rightarrow> ('s content_repo, bytes list) op" where
  "content_verify E = bindR (state_verify E) (\<lambda>corrupt_keys r.
     (Ok (map fst (filter (\<lambda>(hash, oid). oid \<in> set corrupt_keys) (cs_table (sr_state r)))), r))"

definition content_clear_instance :: "content_state state_codec \<Rightarrow> ('s content_repo, unit) op" where
  "content_clear_instance C = state_clear_instance C"

definition content_change_password :: "ext \<Rightarrow> bytes \<Rightarrow> ('s content_repo, unit) op" where
  "content_change_password X p = state_change_password X p"

definition content_instance :: "'s content_repo \<Rightarrow> uuid" where
  "content_instance r = state_instance r"

definition content_info :: "'s content_repo \<Rightarrow> repo_info" where
  "content_info r = state_info r"

definition content_commit ::
  "('s, 'z) env \<Rightarrow> repo_key map_codec \<Rightarrow> content_state state_codec \<Rightarrow> ('s content_repo, unit) op" where
  "content_commit E M C = state_commit E M C"

definition content_rollback ::
  "('s, 'z) env \<Rightarrow> repo_key map_codec \<Rightarrow> content_state state_codec \<Rightarrow> ('s content_repo, unit) op" where
  "content_rollback E M C = state_rollback E M C"

definition content_clean :: "('s, 'z) env \<Rightarrow> ('s content_repo, unit) op" where
  "content_clean E = state_clean E"

definition content_savepoint ::
  "('s, 'z) env \<Rightarrow> repo_key map_codec \<Rightarrow> content_state state_codec \<Rightarrow> ('s content_repo, savepoint) op" where
  "content_savepoint E M C = state_savepoint E M C"

definition content_start_restore ::
  "('s, 'z) env \<Rightarrow> repo_key map_codec \<Rightarrow> content_state state_codec \<Rightarrow> savepoint \<Rightarrow>
     ('s content_repo, content_state state_restore) op" where
  "content_start_restore E M C sp = state_start_restore E M C sp"

definition content_finish_restore :: "content_state state_restore \<Rightarrow> ('s content_repo, bool) op" where
  "content_finish_restore k = state_finish_restore k"

section \<open>The contract of the digests\<close>

abbreviation updates :: "'d hashers \<Rightarrow> bytes list \<Rightarrow> 'd \<Rightarrow> 'd" where
  "updates G ps d \<equiv> fold (\<lambda>p d. hs_update G d p) ps d"

text \<open>A digest depends only on the concatenation of the data it was updated with.\<close>

locale digests =
  fixes G :: "'d hashers" and hash :: "hash_algorithm \<Rightarrow> bytes \<Rightarrow> bytes"
  assumes fixed: "hs_finalize_fixed G (updates G ps (hs_default G alg)) = hash alg (concat ps)"
    and variable: "hs_new G alg n = Some d \<Longrightarrow> alg \<in> {Blake2b n, Blake2s n} \<Longrightarrow>
      hs_finalize_boxed G (updates G ps d) = hash alg (concat ps)"
begin

definition usable :: "hash_algorithm \<Rightarrow> bool" where
  "usable alg \<longleftrightarrow> (case alg of Blake2b n \<Rightarrow> hs_new G alg n \<noteq> None | Blake2s n \<Rightarrow> hs_new G alg n \<noteq> None | _ \<Rightarrow> True)"

lemma fold_update:
  "fold (\<lambda>p d. digest_update G d p) ps (FixedDigest d) = FixedDigest (updates G ps d)"
  "fold (\<lambda>p d. digest_update G d p) ps (VariableDigest d) = VariableDigest (updates G ps d)"
  by (induction ps arbitrary: d) simp_all

lemma digest_ok:
  assumes "usable alg"
  shows "\<exists>dg. (\<forall>s :: 'x. digest G alg s = (Ok dg, s)) \<and>
    (\<forall>ps. digest_result G (fold (\<lambda>p d. digest_update G d p) ps dg) = hash alg (concat ps))"
  using assms by (cases alg) (auto simp: usable_def digest_def fold_update fixed variable)

end

section \<open>Hashing and storing a reader\<close>

context reader
begin

lemma hash_loop_ok:
  "ok r \<Longrightarrow> \<exists>ps r'. concat ps = rest r \<and> ok r' \<and>
     (\<forall>dg. hash_loop G rd dg r = Some (Ok (fold (\<lambda>p d. digest_update G d p) ps dg), r'))"
proof (induction "length (rest r)" arbitrary: r rule: less_induct)
  case less
  obtain b q where q: "rd BUFFER_SIZE r = (Inr b, q)" "rest r = b @ rest q" "ok q"
    using read_total [OF less.prems] by blast
  show ?case
  proof (cases "b = []")
    case True
    then have "rest r = []" using read_end [OF less.prems, of BUFFER_SIZE q] q(1) by (simp add: BUFFER_SIZE_def)
    then show ?thesis using q True by (intro exI [of _ "[]"] exI [of _ q]) (simp add: hash_loop.simps)
  next
    case False
    then have "length (rest q) < length (rest r)" using q(2) by simp
    from less.hyps [OF this q(3)] obtain ps r' where ps: "concat ps = rest q" "ok r'"
      "\<And>dg. hash_loop G rd dg q = Some (Ok (fold (\<lambda>p d. digest_update G d p) ps dg), r')" by blast
    have "hash_loop G rd dg r = Some (Ok (fold (\<lambda>p d. digest_update G d p) (b # ps) dg), r')" for dg
      by (subst hash_loop.simps) (simp add: q(1) False ps(3))
    then show ?thesis using ps(1,2) q(2) by (intro exI [of _ "b # ps"] exI [of _ r']) simp
  qed
qed

lemma put_loop_ok:
  "ok r \<Longrightarrow> \<exists>ps. concat ps = rest r \<and> length ps \<le> length (rest r) \<and>
     (\<forall>dg x x'. object_writes D X C ps x = (Ok (), x') \<longrightarrow>
        put_loop D X C G rd dg r x = Some (Ok (fold (\<lambda>p d. digest_update G d p) ps dg), x'))"
proof (induction "length (rest r)" arbitrary: r rule: less_induct)
  case less
  obtain b q where q: "rd BUFFER_SIZE r = (Inr b, q)" "rest r = b @ rest q" "ok q"
    using read_total [OF less.prems] by blast
  show ?case
  proof (cases "b = []")
    case True
    then have "rest r = []" using read_end [OF less.prems, of BUFFER_SIZE q] q(1) by (simp add: BUFFER_SIZE_def)
    then show ?thesis using q True by (intro exI [of _ "[]"]) (simp add: put_loop.simps object_writes_def)
  next
    case False
    then have "length (rest q) < length (rest r)" using q(2) by simp
    from less.hyps [OF this q(3)] obtain ps where ps: "concat ps = rest q" "length ps \<le> length (rest q)"
      "\<And>dg x x'. object_writes D X C ps x = (Ok (), x') \<Longrightarrow>
         put_loop D X C G rd dg q x = Some (Ok (fold (\<lambda>p d. digest_update G d p) ps dg), x')" by blast
    have "put_loop D X C G rd dg r x = Some (Ok (fold (\<lambda>p d. digest_update G d p) (b # ps) dg), x')"
      if w: "object_writes D X C (b # ps) x = (Ok (), x')" for dg x x'
    proof -
      have "bindR (object_write_all D X C b) (\<lambda>_. object_writes D X C ps) x = (Ok (), x')"
        using w False by (simp add: object_writes_def object_write_all_def)
      then obtain y where y: "object_write_all D X C b x = (Ok (), y)" "object_writes D X C ps y = (Ok (), x')"
        by (elim bindR_OkE) auto
      then show ?thesis by (subst put_loop.simps) (simp add: q(1) False ps(3))
    qed
    moreover have "length (b # ps) \<le> length (rest r)" using ps(2) q(2) False by (cases b) auto
    ultimately show ?thesis using ps(1) q(2) by (intro exI [of _ "b # ps"]) simp
  qed
qed

end

context key_env
begin

lemma put_stage_ok:
  fixes x :: "('s, 'z chunker) octx"
  assumes G: "digests G hash" "\<And>ps. digest_result G (fold (\<lambda>p d. digest_update G d p) ps dg) = hash alg (concat ps)"
    and rd: "reader rd rest rok" "rok data"
    and x: "obj_ok blocks X S N x" "idle cinv cpend x" "position (o_state x) = 0"
    and v: "rest data \<in> S" "length (rest data) < 2 ^ 63" "rng (o_repo x) + 2 * (2 * length (rest data) + 5) \<le> N"
  shows "\<exists>x'. put_stage E G rd dg data x = (Ok (hash alg (rest data)), x') \<and> obj_ok blocks X S N x' \<and> idle cinv cpend x' \<and>
    obj_content blocks X x' = rest data \<and> handle_id (o_handle x') = handle_id (o_handle x) \<and>
    grows blocks X (o_repo x) (o_repo x') \<and> rng (o_repo x') \<le> rng (o_repo x) + 2 * (2 * length (rest data) + 5)"
proof -
  let ?D = "ev_store E" and ?C = "dyn_ops (ev_zpaq E)" and ?v = "rest data"
  obtain y where y: "set_len ?D X 0 x = (Ok (), y)" "obj_ok blocks X S N y" "idle cinv cpend y"
    "obj_content blocks X y = resize 0 (obj_content blocks X x)" "position (o_state y) = 0"
    "handle_id (o_handle y) = handle_id (o_handle x)" "grows blocks X (o_repo x) (o_repo y)" "rng (o_repo y) \<le> rng (o_repo x) + 2"
    using set_len_ok [OF x(1,2), of 0] v(3) x(3) by auto
  have empty: "obj_content blocks X y = []" using y(4) by (simp add: resize_def)
  obtain ps where ps: "concat ps = ?v" "length ps \<le> length ?v"
    "\<And>dg x x'. object_writes ?D X ?C ps x = (Ok (), x') \<Longrightarrow>
       put_loop ?D X ?C G rd dg data x = Some (Ok (fold (\<lambda>p d. digest_update G d p) ps dg), x')"
    using reader.put_loop_ok [OF rd, of ?D X ?C G] by blast
  have "rng (o_repo y) + 2 * (2 * length (obj_content blocks X y) + length (concat ps) + length ps + 4) \<le> N"
    using y(8) v(3) ps(1,2) by (simp add: empty)
  then obtain x' where x': "bindR (object_writes ?D X ?C ps) (\<lambda>_. object_commit ?D X ?C) y = (Ok (), x')"
    "obj_ok blocks X S N x'" "idle cinv cpend x'" "obj_content blocks X x' = ?v" "handle_id (o_handle x') = handle_id (o_handle y)"
    "grows blocks X (o_repo y) (o_repo x')"
    "rng (o_repo x') \<le> rng (o_repo y) + 2 * (length ?v + length ps + 4)"
    using write_commit_ok [OF y(2,3), of ps] v(1,2) y(5) unfolding empty ps(1) by (auto simp: overwrite_def)
  from x'(1) obtain z where z: "object_writes ?D X ?C ps y = (Ok (), z)" "object_commit ?D X ?C z = (Ok (), x')"
    by (elim bindR_OkE) auto
  have "put_stage E G rd dg data x = (Ok (hash alg ?v), x')"
    by (simp add: put_stage_def bindR_def y(1) ps(3) [OF z(1)] option_result_def z(2) G(2) ps(1))
  then show ?thesis using x' y(6,7,8) ps(2) grows_trans by auto
qed

end

section \<open>Invariant and abstraction\<close>

datatype place = Table bytes | Stage

fun content_slot :: "content_state \<Rightarrow> place \<rightharpoonup> object_key" where
  "content_slot st (Table h) = hget (cs_table st) h"
| "content_slot st Stage = cs_stage st"

definition content_map :: "('s \<Rightarrow> uuid \<rightharpoonup> bytes) \<Rightarrow> ext \<Rightarrow> 's content_repo \<Rightarrow> bytes \<rightharpoonup> bytes" where
  "content_map bl X r h = index_map bl X r (content_slot (sr_state r)) (Table h)"

text \<open>Every object of the table is found under the hash of its contents.\<close>

definition content_inv :: "('s \<Rightarrow> uuid \<rightharpoonup> bytes) \<Rightarrow> ext \<Rightarrow> bytes set \<Rightarrow> nat \<Rightarrow> (chunking \<Rightarrow> bool) \<Rightarrow>
    (hash_algorithm \<Rightarrow> bytes \<Rightarrow> bytes) \<Rightarrow> 's content_repo \<Rightarrow> bool" where
  "content_inv bl X S N good hash r \<longleftrightarrow> state_inv bl X S N good r \<and> index_ok bl X r (content_slot (sr_state r)) \<and>
     hwf (cs_table (sr_state r)) \<and>
     (\<forall>h v. content_map bl X r h = Some v \<longrightarrow> h = hash (cs_algorithm (sr_state r)) v)"

lemma content_invD:
  assumes "content_inv bl X S N good hash r"
  shows "state_inv bl X S N good r" "index_ok bl X r (content_slot (sr_state r))" "hwf (cs_table (sr_state r))"
    "\<And>h v. content_map bl X r h = Some v \<Longrightarrow> h = hash (cs_algorithm (sr_state r)) v"
  using assms unfolding content_inv_def by blast+

lemma content_map_None:
  "content_inv bl X S N good hash r \<Longrightarrow> content_map bl X r h = None \<longleftrightarrow> hget (cs_table (sr_state r)) h = None"
  using index_map_None content_invD(2) unfolding content_map_def by (metis content_slot.simps(1))

lemma slot_stage: "content_slot (st\<lparr>cs_stage := Some key\<rparr>) = (content_slot st)(Stage \<mapsto> key)"
  by (rule ext, case_tac x) auto

lemma slot_table: "content_slot (st\<lparr>cs_table := hput h key (cs_table st)\<rparr>) = (content_slot st)(Table h \<mapsto> key)"
  by (rule ext, case_tac x) auto

lemma slot_untable: "content_slot (st\<lparr>cs_table := hdel h (cs_table st)\<rparr>) = (content_slot st)(Table h := None)"
  by (rule ext, case_tac x) auto

section \<open>Putting data\<close>

lemma ensure_stage_ok:
  assumes inv: "content_inv bl X S N good hash r" and left: "ids_left (Suc m) (sr_ids r)" "ids_left (Suc n) (handle_table (sr_repo r))"
  shows "\<exists>r' stage. ensure_stage Z r = (Ok (), r') \<and> content_inv bl X S N good hash r' \<and> cs_stage (sr_state r') = Some stage \<and>
    content_map bl X r' = content_map bl X r \<and> cs_algorithm (sr_state r') = cs_algorithm (sr_state r) \<and>
    cs_table (sr_state r') = cs_table (sr_state r) \<and> rng (rstate (sr_repo r')) = rng (rstate (sr_repo r)) \<and>
    ids_left m (sr_ids r') \<and> ids_left n (handle_table (sr_repo r'))"
proof (cases "cs_stage (sr_state r)")
  case None
  note V = content_invD [OF inv]
  obtain i q where q: "state_create Z r = (Ok (new_id r i), q)" "state_map bl X r i = None" "state_inv bl X S N good q"
    "state_step bl {KObject i} r q" "state_map bl X q = (state_map bl X r)(i \<mapsto> [])" "sr_state q = sr_state r"
    "rng (rstate (sr_repo q)) = rng (rstate (sr_repo r))" "ids_left m (sr_ids q)" "ids_left n (handle_table (sr_repo q))"
    using state_create_ok [OF V(1) left, of Z] by blast
  have "check_key q = check_key r" using state_step_check [OF q(4)] by simp
  note B = index_bind [OF V(2) this q(5,2) check_new_id, of Stage]
  let ?r = "q\<lparr>sr_state := (sr_state q)\<lparr>cs_stage := Some (new_id r i)\<rparr>\<rparr>"
  have m: "content_map bl X ?r = content_map bl X r" using B(2) q(6) by (simp add: content_map_def slot_stage fun_eq_iff)
  have "content_inv bl X S N good hash ?r"
    unfolding content_inv_def m using q(3,6) B(1) V(3,4) by (simp add: slot_stage)
  then show ?thesis using m q None by (intro exI [of _ ?r]) (simp add: ensure_stage_def bindR_def)
next
  case (Some stage)
  then show ?thesis using inv left by (intro exI [of _ r] exI [of _ stage]) (auto simp: ensure_stage_def ids_left_def)
qed

lemma content_store_ok:
  assumes inv: "content_inv bl X S N good hash r" and left: "ids_left 1 (sr_ids r)" "ids_left 1 (handle_table (sr_repo r))"
    and stage: "cs_stage (sr_state r) = Some stage" "index_map bl X r (content_slot (sr_state r)) Stage = Some v"
    and h: "h = hash (cs_algorithm (sr_state r)) v" "hget (cs_table (sr_state r)) h = None"
  shows "\<exists>i r'. state_copy stage r = (Ok (Some (new_id r i)), r') \<and> sr_state r' = sr_state r \<and>
    (let r'' = r'\<lparr>sr_state := (sr_state r')\<lparr>cs_table := hput h (new_id r i) (cs_table (sr_state r'))\<rparr>\<rparr> in
     content_inv bl X S N good hash r'' \<and> content_map bl X r'' = (content_map bl X r)(h \<mapsto> v))"
proof -
  note V = content_invD [OF inv]
  have st: "check_key r stage" "state_map bl X r (ok_object stage) = Some v"
    using index_okD(1) [OF V(2), of Stage] stage by (auto simp: index_map_def)
  obtain i q where q: "state_copy stage r = (Ok (Some (new_id r i)), q)" "state_map bl X r i = None" "state_inv bl X S N good q"
    "state_step bl {KObject i} r q" "state_map bl X q = (state_map bl X r)(i \<mapsto> v)" "sr_state q = sr_state r"
    using state_copy_ok [OF V(1) st, of 0 0] left by auto
  have "check_key q = check_key r" using state_step_check [OF q(4)] by simp
  note B = index_bind [OF V(2) this q(5,2) check_new_id, of "Table h"]
  let ?r = "q\<lparr>sr_state := (sr_state q)\<lparr>cs_table := hput h (new_id r i) (cs_table (sr_state q))\<rparr>\<rparr>"
  have m: "content_map bl X ?r = (content_map bl X r)(h \<mapsto> v)" using B(2) q(6) by (auto simp: content_map_def slot_table fun_eq_iff)
  have "content_inv bl X S N good hash ?r"
    unfolding content_inv_def m using q(3,6) B(1) V(3,4) h(1) by (simp add: slot_table)
  with q(1,6) m show ?thesis by (intro exI [of _ i] exI [of _ q]) (simp add: Let_def)
qed

context key_env
begin

lemma stage_handle:
  fixes r :: "'s content_repo"
  assumes inv: "state_inv blocks X S N good r" and key: "check_key r key" "state_map blocks X r (ok_object key) = Some v"
  obtains h where "hget (handles_of (sr_repo r)) (KObject (ok_object key)) = Some h"
    "obj_ok blocks X S N (fresh_octx (rstate (sr_repo r)) h)" "idle cinv cpend (fresh_octx (rstate (sr_repo r)) h)"
    "position (o_state (fresh_octx (rstate (sr_repo r)) h)) = 0" "obj_content blocks X (fresh_octx (rstate (sr_repo r)) h) = v"
proof -
  note I = state_invD [OF inv]
  obtain h where h: "hget (handles_of (sr_repo r)) (KObject (ok_object key)) = Some h" "v = handle_content blocks X (rstate (sr_repo r)) h"
    using key(2) by (auto simp: state_map_def repo_map_def)
  have "handle_ok blocks X (rstate (sr_repo r)) h" using repo_invD(6) [OF I(1) h(1)] by blast
  note O = fresh_octx_ok [OF repo_invD(1) [OF I(1)] this]
  have "idle cinv cpend (fresh_octx (rstate (sr_repo r)) h)" using fresh_octx_idle [OF I(2), of h] I(3) by simp
  with that [OF h(1) O(1)] O(3) h(2) show thesis by (simp add: object_state_new_def)
qed

lemma content_stage_ok:
  fixes r :: "'s content_repo"
  assumes G: "digests G hash" "\<And>ps. digest_result G (fold (\<lambda>p d. digest_update G d p) ps dg) = hash alg (concat ps)"
    and rd: "reader rd rest rok" "rok data" and inv: "content_inv blocks X S N good hash r" and stage: "cs_stage (sr_state r) = Some stage"
    and v: "rest data \<in> S" "length (rest data) < 2 ^ 63" "rng (rstate (sr_repo r)) + 2 * (2 * length (rest data) + 5) \<le> N"
  shows "\<exists>r'. state_use (ev_zpaq E) stage (on_object (put_stage E G rd dg data)) r = (Ok (hash alg (rest data)), r') \<and>
    content_inv blocks X S N good hash r' \<and> content_map blocks X r' = content_map blocks X r \<and>
    index_map blocks X r' (content_slot (sr_state r')) Stage = Some (rest data) \<and> sr_state r' = sr_state r \<and>
    sr_ids r' = sr_ids r \<and> handle_table (sr_repo r') = handle_table (sr_repo r)"
proof -
  note V = content_invD [OF inv]
  have "content_slot (sr_state r) Stage = Some stage" using stage by simp
  from index_map_Some [OF V(2) this] obtain w where st: "check_key r stage" "state_map blocks X r (ok_object stage) = Some w"
    by blast
  let ?s = "rstate (sr_repo r)"
  obtain h where h: "hget (handles_of (sr_repo r)) (KObject (ok_object stage)) = Some h" "obj_ok blocks X S N (fresh_octx ?s h)"
    "idle cinv cpend (fresh_octx ?s h)" "position (o_state (fresh_octx ?s h)) = 0"
    using stage_handle [OF V(1) st] by blast
  have "rng (o_repo (fresh_octx ?s h)) + 2 * (2 * length (rest data) + 5) \<le> N" using v(3) by simp
  from put_stage_ok [OF G rd h(2-4) v(1,2) this] obtain x where
    x: "put_stage E G rd dg data (fresh_octx ?s h) = (Ok (hash alg (rest data)), x)" "obj_ok blocks X S N x" "idle cinv cpend x"
    "obj_content blocks X x = rest data" "handle_id (o_handle x) = handle_id h" "grows blocks X ?s (o_repo x)" by auto
  have "transaction_lock (o_state x) = None" using x(3) by (simp add: idle_def)
  from state_update_ok [where m = "put_stage E G rd dg data", OF V(1) st(1) h(1) x(1,2) this x(5,6)] obtain r' where
    r': "state_use (ev_zpaq E) stage (on_object (put_stage E G rd dg data)) r = (Ok (hash alg (rest data)), r')"
    "state_inv blocks X S N good r'" "state_step blocks {KObject (ok_object stage)} r r'"
    "state_map blocks X r' = (state_map blocks X r)(ok_object stage \<mapsto> rest data)"
    "sr_state r' = sr_state r" "sr_ids r' = sr_ids r" "handle_table (sr_repo r') = handle_table (sr_repo r)"
    unfolding x(4) by blast
  have "check_key r' = check_key r" using state_step_check [OF r'(3)] by simp
  from index_write [OF V(2) this r'(4), of Stage] stage r' V(3,4) show ?thesis
    by (intro exI [of _ r']) (auto simp: content_map_def content_inv_def fun_eq_iff)
qed

end

text \<open>
  C19: Putting data into a content repository returns the hash of the data.  If there is no object with
  that hash, the data is stored under it; otherwise nothing is stored again.  The staging object, which
  may hold data from an earlier attempt, does not matter, and every object is still found under the hash of
  its contents.
\<close>

theorem content_put_stores:
  fixes r :: "'s content_repo"
  assumes "key_env E bl cinv cfresh cpend S M good" "digests G hash" "digests.usable G (cs_algorithm (sr_state r))"
    and "reader rd rest rok" "rok data" "content_inv bl (ev_ext E) S N good hash r"
    and "ids_left 2 (sr_ids r)" "ids_left 2 (handle_table (sr_repo r))"
    and "rest data \<in> S" "length (rest data) < 2 ^ 63" "rng (rstate (sr_repo r)) + 2 * (2 * length (rest data) + 5) \<le> N"
  defines "h \<equiv> hash (cs_algorithm (sr_state r)) (rest data)"
  shows "\<exists>r'. content_put E G rd data r = (Ok h, r') \<and> content_inv bl (ev_ext E) S N good hash r' \<and>
    content_map bl (ev_ext E) r' = (if content_map bl (ev_ext E) r h = None then (content_map bl (ev_ext E) r)(h \<mapsto> rest data)
      else content_map bl (ev_ext E) r)"
proof -
  let ?X = "ev_ext E" and ?Z = "ev_zpaq E"
  obtain dg where dg: "\<And>s :: 's content_repo. digest G (cs_algorithm (sr_state r)) s = (Ok dg, s)"
    "\<And>ps. digest_result G (fold (\<lambda>p d. digest_update G d p) ps dg) = hash (cs_algorithm (sr_state r)) (concat ps)"
    using digests.digest_ok [OF assms(2,3)] by metis
  have "ids_left (Suc 1) (sr_ids r)" "ids_left (Suc 1) (handle_table (sr_repo r))" using assms(7,8) by (simp_all add: numeral_2_eq_2)
  from ensure_stage_ok [OF assms(6) this, of ?Z] obtain r1 stage where r1: "ensure_stage ?Z r = (Ok (), r1)"
    "content_inv bl ?X S N good hash r1" "cs_stage (sr_state r1) = Some stage" "content_map bl ?X r1 = content_map bl ?X r"
    "cs_algorithm (sr_state r1) = cs_algorithm (sr_state r)" "cs_table (sr_state r1) = cs_table (sr_state r)"
    "rng (rstate (sr_repo r1)) = rng (rstate (sr_repo r))" "ids_left 1 (sr_ids r1)" "ids_left 1 (handle_table (sr_repo r1))"
    by blast
  have "rng (rstate (sr_repo r1)) + 2 * (2 * length (rest data) + 5) \<le> N" using assms(11) r1(7) by simp
  from key_env.content_stage_ok [OF assms(1,2) dg(2) assms(4,5) r1(2,3) assms(9,10) this] obtain r2 where
    r2: "state_use ?Z stage (on_object (put_stage E G rd dg data)) r1 = (Ok h, r2)" "content_inv bl ?X S N good hash r2"
    "content_map bl ?X r2 = content_map bl ?X r" "index_map bl ?X r2 (content_slot (sr_state r2)) Stage = Some (rest data)"
    "sr_state r2 = sr_state r1" "sr_ids r2 = sr_ids r1" "handle_table (sr_repo r2) = handle_table (sr_repo r1)"
    unfolding h_def r1(4) by blast
  have run: "content_put E G rd data r = (if hcontains (cs_table (sr_state r)) h then (Ok h, r2)
      else bindR (state_copy stage) (\<lambda>x. bindR (unwrap_option x) (\<lambda>oid.
        bindR (state_mut (\<lambda>st. st\<lparr>cs_table := hput h oid (cs_table st)\<rparr>)) (\<lambda>_. ret h))) r2)"
    using r1(1,3,6) r2(1,5) dg(1) by (simp add: content_put_def bindR_Ok unwrap_option_def)
  note none = content_map_None [OF assms(6), of h]
  show ?thesis
  proof (cases "hget (cs_table (sr_state r)) h")
    case None
    have "ids_left 1 (sr_ids r2)" "ids_left 1 (handle_table (sr_repo r2))" using r1(8,9) r2(6,7) by simp_all
    then obtain i r3 where "state_copy stage r2 = (Ok (Some (new_id r2 i)), r3)"
      "let r'' = r3\<lparr>sr_state := (sr_state r3)\<lparr>cs_table := hput h (new_id r2 i) (cs_table (sr_state r3))\<rparr>\<rparr> in
       content_inv bl ?X S N good hash r'' \<and> content_map bl ?X r'' = (content_map bl ?X r2)(h \<mapsto> rest data)"
      using content_store_ok [OF r2(2) _ _ _ r2(4), of stage h] r1(3,5,6) r2(5) None h_def by auto
    then show ?thesis using run None none r2(3) by (auto simp: hcontains_def bindR_Ok unwrap_option_def Let_def)
  next
    case (Some oid)
    then show ?thesis using run none r2(2,3) by (intro exI [of _ r2]) (auto simp: hcontains_def)
  qed
qed

section \<open>Changing the algorithm\<close>

context key_env
begin

lemma hash_object_ok:
  fixes r :: "'s content_repo"
  assumes G: "digests G hash" "digests.usable G alg" and inv: "state_inv blocks X S N good r"
    and key: "check_key r key" "state_map blocks X r (ok_object key) = Some v"
  shows "\<exists>r'. state_use (ev_zpaq E) key (on_object (hash_data G alg (object_read_fn (ev_store E) X))) r = (Ok (hash alg v), r') \<and>
    state_inv blocks X S N good r' \<and> state_map blocks X r' = state_map blocks X r \<and> check_key r' = check_key r \<and> sr_state r' = sr_state r"
proof -
  let ?s = "rstate (sr_repo r)" and ?rd = "object_read_fn (ev_store E) X"
  obtain h where h: "hget (handles_of (sr_repo r)) (KObject (ok_object key)) = Some h" "obj_ok blocks X S N (fresh_octx ?s h)"
    "idle cinv cpend (fresh_octx ?s h)" "position (o_state (fresh_octx ?s h)) = 0" "obj_content blocks X (fresh_octx ?s h) = v"
    using stage_handle [OF inv key] by blast
  let ?x = "fresh_octx ?s h"
  have rest: "obj_rest ?x = v" using h(4,5) by (simp add: obj_rest_def)
  have "\<not> in_transaction ?x" using h(3) by (simp add: in_transaction_def idle_def)
  with h(2) have "obj_ok blocks X S N ?x \<and> \<not> in_transaction ?x \<and> same_object blocks ?x ?x" by simp
  from reader.hash_loop_ok [OF object_reader this, of G] obtain ps x where ps: "concat ps = v" "obj_ok blocks X S N x"
    "same_object blocks ?x x" "\<And>dg. hash_loop G ?rd dg ?x = Some (Ok (fold (\<lambda>p d. digest_update G d p) ps dg), x)"
    unfolding rest by blast
  obtain dg where dg: "\<And>y :: ('s, 'z chunker) octx. digest G alg y = (Ok dg, y)"
    "\<And>ps. digest_result G (fold (\<lambda>p d. digest_update G d p) ps dg) = hash alg (concat ps)"
    using digests.digest_ok [OF G] by metis
  have run: "hash_data G alg ?rd ?x = (Ok (hash alg v), x)"
    by (simp add: hash_data_def bindR_def dg ps(1,4) option_result_def)
  have x: "transaction_lock (o_state x) = None" "handle_id (o_handle x) = handle_id h" "grows blocks X ?s (o_repo x)"
    "obj_content blocks X x = v"
    using ps(3) store_eq_grows [of blocks ?s "o_repo x" X] same_object_view(2) [OF ps(3), of X] h(5)
    by (simp_all add: same_object_def object_state_new_def)
  from state_update_ok [where m = "hash_data G alg ?rd", OF inv key(1) h(1) run ps(2) x(1-3)] obtain r' where
    r': "state_use (ev_zpaq E) key (on_object (hash_data G alg ?rd)) r = (Ok (hash alg v), r')" "state_inv blocks X S N good r'"
    "state_step blocks {KObject (ok_object key)} r r'" "state_map blocks X r' = (state_map blocks X r)(ok_object key \<mapsto> v)"
    "sr_state r' = sr_state r"
    unfolding x(4) by blast
  then show ?thesis using key(2) state_step_check [OF r'(3)] by (intro exI [of _ r']) (simp add: fun_upd_idem_iff)
qed

lemma rehash_ok:
  fixes r :: "'s content_repo"
  assumes "digests G hash" "digests.usable G alg" "state_inv blocks X S N good r"
    and "\<forall>key \<in> set keys. check_key r key \<and> state_map blocks X r (ok_object key) \<noteq> None"
  shows "\<exists>r'. rehash E G alg keys T r =
      (Ok (fold (\<lambda>key T. hput (hash alg (the (state_map blocks X r (ok_object key)))) key T) keys T), r') \<and>
    state_inv blocks X S N good r' \<and> state_map blocks X r' = state_map blocks X r \<and> check_key r' = check_key r \<and> sr_state r' = sr_state r"
  using assms(3,4)
proof (induction keys arbitrary: T r)
  case (Cons key keys)
  then obtain v where v: "check_key r key" "state_map blocks X r (ok_object key) = Some v" by auto
  obtain q where q: "state_use (ev_zpaq E) key (on_object (hash_data G alg (object_read_fn (ev_store E) X))) r = (Ok (hash alg v), q)"
    "state_inv blocks X S N good q" "state_map blocks X q = state_map blocks X r" "check_key q = check_key r" "sr_state q = sr_state r"
    using hash_object_ok [OF assms(1,2) Cons.prems(1) v] by blast
  have "\<forall>key \<in> set keys. check_key q key \<and> state_map blocks X q (ok_object key) \<noteq> None" using Cons.prems(2) q(3,4) by simp
  from Cons.IH [OF q(2) this, of "hput (hash alg v) key T"] q v(2) show ?case by (auto simp: bindR_Ok)
qed auto

end

text \<open>The table that is built by hashing distinct objects again.\<close>

lemma rehashed_table:
  assumes "inj_on f (set keys)"
  shows "(hget (fold (\<lambda>key T. hput (f key) key T) keys T) h = Some key \<longleftrightarrow>
      key \<in> set keys \<and> h = f key \<or> h \<notin> f ` set keys \<and> hget T h = Some key) \<and>
    (hwf T \<longrightarrow> hwf (fold (\<lambda>key T. hput (f key) key T) keys T))"
  using assms
proof (induction keys arbitrary: T rule: rev_induct)
  case (snoc k keys)
  then have "inj_on f (set keys)" by (simp add: inj_on_Un)
  from snoc.IH [OF this, of T] snoc.prems show ?case by (auto simp: inj_on_def)
qed simp

text \<open>The objects of the table, which are all different.\<close>

lemma content_keys:
  assumes inv: "content_inv bl X S N good hash r"
  defines "keys \<equiv> hvalues (cs_table (sr_state r))"
  shows "distinct keys" "\<And>key. key \<in> set keys \<longleftrightarrow> (\<exists>h. hget (cs_table (sr_state r)) h = Some key)"
    "\<forall>key \<in> set keys. check_key r key \<and> state_map bl X r (ok_object key) \<noteq> None"
proof -
  note V = content_invD [OF inv]
  let ?t = "cs_table (sr_state r)"
  have slot: "content_slot (sr_state r) (Table h) = Some key" if "(h, key) \<in> set ?t" for h key
    using that V(3) by (simp add: hwf_def)
  show keys: "key \<in> set keys \<longleftrightarrow> (\<exists>h. hget ?t h = Some key)" for key
    using set_hvalues [OF V(3)] by (auto simp: keys_def ran_def)
  then show "\<forall>key \<in> set keys. check_key r key \<and> state_map bl X r (ok_object key) \<noteq> None"
    using index_okD(1) [OF V(2), of "Table _"] by auto
  have "inj_on snd (set ?t)"
  proof (rule inj_onI, clarsimp)
    fix h h' key assume "(h, key) \<in> set ?t" "(h', key) \<in> set ?t"
    from index_okD(2) [OF V(2) slot [OF this(1)] slot [OF this(2)]] show "h = h'" by simp
  qed
  then show "distinct keys" using V(3) by (simp add: keys_def hvalues_def distinct_map hwf_def)
qed

lemma content_rehash_inj:
  assumes inv: "content_inv bl X S N good hash r" and inj: "inj_on (hash alg) (ran (content_map bl X r))"
  shows "inj_on (\<lambda>key. hash alg (the (state_map bl X r (ok_object key)))) (set (hvalues (cs_table (sr_state r))))"
proof (rule inj_onI)
  note V = content_invD [OF inv]
  fix k k' assume k: "k \<in> set (hvalues (cs_table (sr_state r)))" "k' \<in> set (hvalues (cs_table (sr_state r)))"
    and eq: "hash alg (the (state_map bl X r (ok_object k))) = hash alg (the (state_map bl X r (ok_object k')))"
  obtain h h' v v' where h: "hget (cs_table (sr_state r)) h = Some k" "hget (cs_table (sr_state r)) h' = Some k'"
    "state_map bl X r (ok_object k) = Some v" "state_map bl X r (ok_object k') = Some v'"
    using k content_keys(2,3) [OF inv] by (metis not_None_eq)
  then have m: "content_map bl X r h = Some v" "content_map bl X r h' = Some v'" by (simp_all add: content_map_def index_map_def)
  then have "v = v'" using inj eq h(3,4) by (auto simp: inj_on_def ran_def)
  then have "h = h'" using V(4) [OF m(1)] V(4) [OF m(2)] by simp
  then show "k = k'" using h(1,2) by simp
qed

text \<open>
  C20: Changing the hash algorithm hashes every object again: afterwards every object is found under its
  hash by the new algorithm and no object is lost or added, provided that the new algorithm
  has no collision among the stored objects.
\<close>

theorem content_change_algorithm:
  fixes r :: "'s content_repo"
  assumes "key_env E bl cinv cfresh cpend S M good" "digests G hash" "digests.usable G alg"
    and "content_inv bl (ev_ext E) S N good hash r" "inj_on (hash alg) (ran (content_map bl (ev_ext E) r))"
  shows "\<exists>r'. change_algorithm E G alg r = (Ok (), r') \<and> cs_algorithm (sr_state r') = alg \<and>
    content_inv bl (ev_ext E) S N good hash r' \<and> ran (content_map bl (ev_ext E) r') = ran (content_map bl (ev_ext E) r) \<and>
    (\<forall>v \<in> ran (content_map bl (ev_ext E) r). content_map bl (ev_ext E) r' (hash alg v) = Some v)"
proof (cases "alg = cs_algorithm (sr_state r)")
  case True
  then show ?thesis using assms(4) content_invD(4) [OF assms(4)] by (intro exI [of _ r]) (auto simp: change_algorithm_def ran_def)
next
  case False
  let ?X = "ev_ext E" and ?keys = "hvalues (cs_table (sr_state r))"
  let ?f = "\<lambda>key. hash alg (the (state_map bl ?X r (ok_object key)))"
  let ?T = "fold (\<lambda>key T. hput (?f key) key T) ?keys []"
  note V = content_invD [OF assms(4)] and K = content_keys [OF assms(4)]
  note inj = content_rehash_inj [OF assms(4,5)]
  obtain q where q: "rehash E G alg ?keys [] r = (Ok ?T, q)" "state_inv bl ?X S N good q"
    "state_map bl ?X q = state_map bl ?X r" "check_key q = check_key r" "sr_state q = sr_state r"
    using key_env.rehash_ok [OF assms(1-3) V(1) K(3)] by blast
  note T = rehashed_table [OF inj, of "[]"]
  have get: "hget ?T h = Some key \<longleftrightarrow> key \<in> set ?keys \<and> h = ?f key" for h key
    using T by simp
  let ?r = "q\<lparr>sr_state := (sr_state q)\<lparr>cs_algorithm := alg, cs_table := ?T\<rparr>\<rparr>"
  have map: "content_map bl ?X ?r h = Some v \<longleftrightarrow> (\<exists>key \<in> set ?keys. h = ?f key \<and> state_map bl ?X r (ok_object key) = Some v)" for h v
    using q(3) by (auto simp: content_map_def index_map_def bind_eq_Some_conv get)
  have old: "v \<in> ran (content_map bl ?X r) \<longleftrightarrow> (\<exists>key \<in> set ?keys. state_map bl ?X r (ok_object key) = Some v)" for v
    unfolding ran_def content_map_def index_map_def using K(2) by (fastforce simp: bind_eq_Some_conv)
  have "index_ok bl ?X r (content_slot (sr_state ?r))"
  proof (rule index_rename [OF V(2)])
    fix a key assume "content_slot (sr_state ?r) a = Some key"
    then show "\<exists>b. content_slot (sr_state r) b = Some key"
      using q(5) K(2) by (cases a) (auto simp: get intro: exI [of _ Stage] exI [of _ "Table _"])
  next
    fix a b key assume "content_slot (sr_state ?r) a = Some key" "content_slot (sr_state ?r) b = Some key"
    then show "a = b"
      using q(5) K(2) [of key] index_okD(2) [OF V(2), of Stage key "Table _" key] by (cases a; cases b) (auto simp: get)
  qed
  from index_same(1) [OF this q(4,3)] have "index_ok bl ?X ?r (content_slot (sr_state ?r))" by simp
  moreover have "hwf ?T" using T by (simp add: hwf_def)
  moreover have "h = hash alg v" if "content_map bl ?X ?r h = Some v" for h v using that unfolding map by auto
  ultimately have "content_inv bl ?X S N good hash ?r" using q(2) by (simp add: content_inv_def)
  moreover have "change_algorithm E G alg r = (Ok (), ?r)" using q(1) False by (simp add: change_algorithm_def bindR_Ok)
  moreover have "ran (content_map bl ?X ?r) = ran (content_map bl ?X r)"
    using old unfolding ran_def map by fastforce
  moreover have "content_map bl ?X ?r (hash alg v) = Some v" if "v \<in> ran (content_map bl ?X r)" for v
    using that unfolding old map by force
  ultimately show ?thesis by (intro exI [of _ ?r]) simp
qed

section \<open>A concrete content repository\<close>

text \<open>Hashers that remember the data: the hash of a byte string is the string.\<close>

definition ref_hashers :: "bytes hashers" where
  "ref_hashers = \<lparr>hs_default = (\<lambda>alg. []), hs_new = (\<lambda>alg n. if n \<le> 64 then Some [] else None), hs_update = (\<lambda>d b. d @ b),
     hs_finalize_fixed = (\<lambda>d. d), hs_finalize_boxed = (\<lambda>d. d), hs_output_size = (\<lambda>alg. 32)\<rparr>"

lemma ref_updates: "updates ref_hashers ps d = d @ concat ps"
  by (induction ps arbitrary: d) (simp_all add: ref_hashers_def)

interpretation ref_digests: digests ref_hashers "\<lambda>alg v. v"
  by unfold_locales (simp_all add: ref_updates, simp_all add: ref_hashers_def split: if_splits)

definition ref_contents :: "(uuid, bytes) hmap content_repo" where
  "ref_contents = ref_state \<lparr>cs_table = [([1, 2, 3, 0, 0], \<lparr>ok_repo = 9, ok_instance = DEFAULT_INSTANCE, ok_object = 1\<rparr>)],
     cs_algorithm = Blake3, cs_stage = None\<rparr>"

lemma ref_contents_slot:
  "content_slot (sr_state ref_contents) =
     [Table [1, 2, 3, 0, 0] \<mapsto> \<lparr>ok_repo = 9, ok_instance = DEFAULT_INSTANCE, ok_object = 1\<rparr>]"
  by (rule ext, case_tac x) (auto simp: ref_contents_def)

lemma ref_contents_map: "content_map mem_blocks ref_ext ref_contents = [[1, 2, 3, 0, 0] \<mapsto> [1, 2, 3, 0, 0]]"
  unfolding content_map_def ref_contents_slot by (auto simp: ref_contents_def index_map_def ref_state_contents fun_eq_iff)

lemma ref_contents_facts:
  "content_inv mem_blocks ref_ext UNIV 100 good_chunking (\<lambda>alg v. v) ref_contents"
  "ids_left 2 (sr_ids ref_contents)" "ids_left 2 (handle_table (sr_repo ref_contents))" "rng (rstate (sr_repo ref_contents)) = 1"
  "ref_digests.usable (cs_algorithm (sr_state ref_contents))"
proof -
  show "content_inv mem_blocks ref_ext UNIV 100 good_chunking (\<lambda>alg v. v) ref_contents"
    unfolding content_inv_def index_ok_def ref_contents_slot ref_contents_map using ref_state_inv ref_check
    by (auto simp: ref_contents_def ref_state_contents hwf_def split: if_splits)
qed (simp_all add: ref_contents_def ids_left_def ref_ids_def ref_rng ref_digests.usable_def)

theorem content_put_stores_witness:
  "\<exists>r'. content_put ref_env ref_hashers slice_read [6, 7] ref_contents = (Ok [6, 7], r') \<and>
    content_map mem_blocks ref_ext r' = [[1, 2, 3, 0, 0] \<mapsto> [1, 2, 3, 0, 0], [6, 7] \<mapsto> [6, 7]]"
  using content_put_stores [where data = "[6, 7]" and N = 100, OF ref_state.key_env_axioms ref_digests.digests_axioms
    ref_contents_facts(5) slice_reader.reader_axioms, unfolded ref_env_simps, OF _ ref_contents_facts(1-3)]
  by (auto simp: ref_contents_facts(4) ref_contents_map)


theorem content_change_algorithm_witness:
  "\<exists>r'. change_algorithm ref_env ref_hashers (Blake2b 64) ref_contents = (Ok (), r') \<and>
    content_map mem_blocks ref_ext r' [1, 2, 3, 0, 0] = Some [1, 2, 3, 0, 0]"
proof -
  have "ref_digests.usable (Blake2b 64)" by (simp add: ref_digests.usable_def) (simp add: ref_hashers_def)
  from content_change_algorithm [where N = 100, OF ref_state.key_env_axioms ref_digests.digests_axioms this, unfolded ref_env_simps,
    OF ref_contents_facts(1)]
  show ?thesis by (auto simp: ref_contents_map)
qed

end
