(* ===== verification/Path_Tree.thy ===== *)
theory Path_Tree
  imports Prelude "HOL-Library.Sublist"
begin

text \<open>
  The tree of paths of a file repository (\<^verbatim>\<open>src/src/repo/file/path_tree.rs\<close>): the operations, and that
  they implement a map from paths to values whose domain is closed under parents.

  Paths are those of the crate \<^verbatim>\<open>relative_path\<close>, a parameter: a record of the functions that the
  sources call.  Two paths are equal when their components are, and \<^verbatim>\<open>iter\<close> yields the components.
\<close>

section \<open>Relative paths\<close>

record 'p path_ops =
  p_iter :: "'p \<Rightarrow> string list"
  p_new :: "string \<Rightarrow> 'p"
  p_parent :: "'p \<Rightarrow> 'p option"
  p_join :: "'p \<Rightarrow> 'p \<Rightarrow> 'p"
  p_strip_prefix :: "'p \<Rightarrow> 'p \<Rightarrow> 'p option"

definition p_eq :: "'p path_ops \<Rightarrow> 'p \<Rightarrow> 'p \<Rightarrow> bool" where
  "p_eq P p q \<longleftrightarrow> p_iter P p = p_iter P q"

abbreviation p_child :: "'p path_ops \<Rightarrow> 'p \<Rightarrow> string \<Rightarrow> 'p" where
  "p_child P p name \<equiv> p_join P p (p_new P name)"

text \<open>A component of a path: not empty and without a separator.\<close>

definition is_segment :: "string \<Rightarrow> bool" where
  "is_segment s \<longleftrightarrow> s \<noteq> [] \<and> CHR ''/'' \<notin> set s"

locale rel_path =
  fixes P :: "'p path_ops"
  assumes iter_segments: "\<forall>s \<in> set (p_iter P p). is_segment s"
    and iter_new: "is_segment s \<Longrightarrow> p_iter P (p_new P s) = [s]"
    and iter_empty: "p_iter P (p_new P []) = []"
    and iter_join: "p_iter P (p_join P p q) = p_iter P p @ p_iter P q"
    and parent_none: "p_iter P p = [] \<Longrightarrow> p_parent P p = None"
    and parent_some: "p_iter P p \<noteq> [] \<Longrightarrow> \<exists>q. p_parent P p = Some q \<and> p_iter P q = butlast (p_iter P p)"
    and strip_some: "p_iter P p = p_iter P b @ ss \<Longrightarrow> \<exists>q. p_strip_prefix P p b = Some q \<and> p_iter P q = ss"

section \<open>Trees\<close>

datatype 'v path_node = PathNode (node_children: "(string \<times> 'v path_node) list") (node_value: 'v)

type_synonym 'v nodes = "(string, 'v path_node) hmap"

record 'v path_tree =
  nodes :: "'v nodes"

definition path_tree_new :: "'v path_tree" where
  "path_tree_new = \<lparr>nodes = []\<rparr>"

definition path_node_new :: "'v \<Rightarrow> 'v path_node" where
  "path_node_new v = PathNode [] v"

text \<open>\<^verbatim>\<open>get\<close>: the loop over the components with the current nodes and the current value.\<close>

fun get_nodes :: "'v nodes \<Rightarrow> 'v option \<Rightarrow> string list \<Rightarrow> 'v option" where
  "get_nodes current_nodes current_value [] = current_value"
| "get_nodes current_nodes current_value (segment # segments) = (case hget current_nodes segment of
      None \<Rightarrow> None
    | Some node \<Rightarrow> get_nodes (node_children node) (Some (node_value node)) segments)"

definition tree_get :: "'p path_ops \<Rightarrow> 'p \<Rightarrow> 'v path_tree \<Rightarrow> 'v option" where
  "tree_get P path t = get_nodes (nodes t) None (p_iter P path)"

definition tree_contains :: "'p path_ops \<Rightarrow> 'p \<Rightarrow> 'v path_tree \<Rightarrow> bool" where
  "tree_contains P path t \<longleftrightarrow> tree_get P path t \<noteq> None"

text \<open>\<^verbatim>\<open>get_mut\<close>: what is assigned through the reference it returns.\<close>

fun put_nodes :: "('v \<Rightarrow> 'v) \<Rightarrow> 'v nodes \<Rightarrow> string list \<Rightarrow> 'v nodes option" where
  "put_nodes f current_nodes [] = None"
| "put_nodes f current_nodes (segment # segments) = (case hget current_nodes segment of
      None \<Rightarrow> None
    | Some node \<Rightarrow>
        if segments = [] then Some (hput segment (PathNode (node_children node) (f (node_value node))) current_nodes)
        else map_option (\<lambda>c. hput segment (PathNode c (node_value node)) current_nodes)
          (put_nodes f (node_children node) segments))"

definition tree_get_mut :: "'p path_ops \<Rightarrow> 'p \<Rightarrow> ('v \<Rightarrow> 'v) \<Rightarrow> 'v path_tree \<Rightarrow> 'v path_tree option" where
  "tree_get_mut P path f t = map_option (\<lambda>c. t\<lparr>nodes := c\<rparr>) (put_nodes f (nodes t) (p_iter P path))"

text \<open>\<^verbatim>\<open>insert\<close>: the new node has no children.\<close>

fun insert_nodes :: "'v \<Rightarrow> string \<Rightarrow> string list \<Rightarrow> ('v nodes, 'v option) op" where
  "insert_nodes v segment [] current_nodes =
     (Ok (map_option node_value (hget current_nodes segment)), hput segment (path_node_new v) current_nodes)"
| "insert_nodes v segment (next_segment # segments) current_nodes = (case hget current_nodes segment of
      None \<Rightarrow> (Panic ''The parent path does not exist.'', current_nodes)
    | Some node \<Rightarrow> (case insert_nodes v next_segment segments (node_children node) of
        (x, c) \<Rightarrow> (x, hput segment (PathNode c (node_value node)) current_nodes)))"

definition tree_insert :: "'p path_ops \<Rightarrow> 'p \<Rightarrow> 'v \<Rightarrow> ('v path_tree, 'v option) op" where
  "tree_insert P path v t = (case p_iter P path of
      [] \<Rightarrow> (Ok None, t)
    | segment # segments \<Rightarrow> (case insert_nodes v segment segments (nodes t) of
        (x, c) \<Rightarrow> (x, t\<lparr>nodes := c\<rparr>)))"

text \<open>\<^verbatim>\<open>remove\<close> and \<^verbatim>\<open>drain\<close> take the node out of its parent.\<close>

fun remove_nodes :: "string \<Rightarrow> string list \<Rightarrow> 'v nodes \<Rightarrow> 'v path_node option \<times> 'v nodes" where
  "remove_nodes segment [] current_nodes = (hget current_nodes segment, hdel segment current_nodes)"
| "remove_nodes segment (next_segment # segments) current_nodes = (case hget current_nodes segment of
      None \<Rightarrow> (None, current_nodes)
    | Some node \<Rightarrow> (case remove_nodes next_segment segments (node_children node) of
        (x, c) \<Rightarrow> (x, hput segment (PathNode c (node_value node)) current_nodes)))"

definition tree_take :: "'p path_ops \<Rightarrow> 'p \<Rightarrow> 'v path_tree \<Rightarrow> 'v path_node option \<times> 'v path_tree" where
  "tree_take P path t = (case p_iter P path of
      [] \<Rightarrow> (None, t)
    | segment # segments \<Rightarrow> (case remove_nodes segment segments (nodes t) of
        (x, c) \<Rightarrow> (x, t\<lparr>nodes := c\<rparr>)))"

definition tree_remove :: "'p path_ops \<Rightarrow> 'p \<Rightarrow> 'v path_tree \<Rightarrow> 'v option \<times> 'v path_tree" where
  "tree_remove P path t = (case tree_take P path t of (x, t') \<Rightarrow> (map_option node_value x, t'))"

fun children_at :: "'v nodes \<Rightarrow> string list \<Rightarrow> 'v nodes option" where
  "children_at current_nodes [] = Some current_nodes"
| "children_at current_nodes (segment # segments) = (case hget current_nodes segment of
      None \<Rightarrow> None
    | Some node \<Rightarrow> children_at (node_children node) segments)"

definition tree_list :: "'p path_ops \<Rightarrow> 'p \<Rightarrow> 'v path_tree \<Rightarrow> ('p \<times> 'v) list option" where
  "tree_list P path t = map_option (map (\<lambda>(name, node). (p_child P path name, node_value node)))
     (children_at (nodes t) (p_iter P path))"

text \<open>\<^verbatim>\<open>walk_nodes\<close> and \<^verbatim>\<open>drain_nodes\<close>: depth first, every node before its descendants.\<close>

fun walk_nodes :: "'p path_ops \<Rightarrow> 'p \<Rightarrow> 'v nodes \<Rightarrow> ('p \<times> 'v) list" where
  "walk_nodes P parent [] = []"
| "walk_nodes P parent ((name, PathNode children v) # rest) =
     (p_child P parent name, v) # walk_nodes P (p_child P parent name) children @ walk_nodes P parent rest"

definition tree_walk :: "'p path_ops \<Rightarrow> 'p \<Rightarrow> 'v path_tree \<Rightarrow> ('p \<times> 'v) list option" where
  "tree_walk P path t = map_option (walk_nodes P path) (children_at (nodes t) (p_iter P path))"

definition tree_drain :: "'p path_ops \<Rightarrow> 'p \<Rightarrow> 'v path_tree \<Rightarrow> ('p \<times> 'v) list option \<times> 'v path_tree" where
  "tree_drain P path t = (case tree_take P path t of
      (None, t') \<Rightarrow> (None, t')
    | (Some node, t') \<Rightarrow> (Some ((path, node_value node) # walk_nodes P path (node_children node)), t'))"

definition tree_clear :: "'v path_tree \<Rightarrow> 'v path_tree" where
  "tree_clear t = t\<lparr>nodes := []\<rparr>"

section \<open>The map of a tree\<close>

definition nodes_map :: "'v nodes \<Rightarrow> string list \<rightharpoonup> 'v" where
  "nodes_map ns ss = get_nodes ns None ss"

definition tree_map :: "'v path_tree \<Rightarrow> string list \<rightharpoonup> 'v" where
  "tree_map t = nodes_map (nodes t)"

text \<open>Every level has distinct names, which are components of paths.\<close>

fun nodes_wf :: "'v nodes \<Rightarrow> bool" where
  "nodes_wf [] \<longleftrightarrow> True"
| "nodes_wf ((name, PathNode children v) # rest) \<longleftrightarrow>
     is_segment name \<and> name \<notin> set (hkeys rest) \<and> nodes_wf children \<and> nodes_wf rest"

definition tree_wf :: "'v path_tree \<Rightarrow> bool" where
  "tree_wf t \<longleftrightarrow> nodes_wf (nodes t)"

lemma nodes_map_simps [simp]:
  "nodes_map ns [] = None"
  "nodes_map ns [s] = map_option node_value (hget ns s)"
  "ss \<noteq> [] \<Longrightarrow> nodes_map ns (s # ss) = (case hget ns s of None \<Rightarrow> None | Some node \<Rightarrow> nodes_map (node_children node) ss)"
  by (cases ss; simp add: nodes_map_def split: option.split)+

lemma nodes_map_Nil [simp]: "nodes_map [] ss = None"
  by (cases ss) (simp_all add: nodes_map_def)

lemma nodes_wf_iff:
  "nodes_wf ns \<longleftrightarrow> hwf ns \<and> (\<forall>(s, node) \<in> set ns. is_segment s \<and> nodes_wf (node_children node))"
  by (induction ns rule: nodes_wf.induct) (auto simp: hwf_def)

lemma nodes_wf_get: "nodes_wf ns \<Longrightarrow> hget ns s = Some node \<Longrightarrow> is_segment s \<and> nodes_wf (node_children node)"
  by (auto simp: nodes_wf_iff [of ns] dest!: map_of_SomeD)

lemma nodes_wf_put:
  assumes "nodes_wf ns" "is_segment s" "nodes_wf (node_children node)"
  shows "nodes_wf (hput s node ns)"
proof -
  have "set (hput s node ns) \<subseteq> insert (s, node) (set ns)"
    by (induction ns) auto
  with assms show ?thesis unfolding nodes_wf_iff [of ns] nodes_wf_iff [of "hput s node ns"] by auto
qed

lemma nodes_wf_del: "nodes_wf ns \<Longrightarrow> nodes_wf (hdel s ns)"
proof -
  have "set (hdel s ns) \<subseteq> set ns" by (auto simp: AList.delete_eq)
  then show "nodes_wf ns \<Longrightarrow> nodes_wf (hdel s ns)"
    unfolding nodes_wf_iff [of ns] nodes_wf_iff [of "hdel s ns"] by auto
qed

section \<open>What the operations do to the map\<close>

text \<open>A value put at a path replaces the subtree; removing a path removes the subtree.\<close>

definition prune :: "string list \<Rightarrow> (string list \<rightharpoonup> 'v) \<Rightarrow> (string list \<rightharpoonup> 'v)" where
  "prune p m = (\<lambda>q. if prefix p q then None else m q)"

definition graft :: "string list \<Rightarrow> 'v \<Rightarrow> (string list \<rightharpoonup> 'v) \<Rightarrow> (string list \<rightharpoonup> 'v)" where
  "graft p v m = (prune p m)(p \<mapsto> v)"

definition parent_in :: "(string list \<rightharpoonup> 'v) \<Rightarrow> string list \<Rightarrow> bool" where
  "parent_in m p \<longleftrightarrow> butlast p = [] \<or> m (butlast p) \<noteq> None"

lemma nodes_map_put:
  "nodes_map (hput s node ns) = (\<lambda>q. case q of [] \<Rightarrow> None
     | t # ts \<Rightarrow> if t = s then (if ts = [] then Some (node_value node) else nodes_map (node_children node) ts)
                else nodes_map ns q)"
proof
  fix q show "nodes_map (hput s node ns) q = (case q of [] \<Rightarrow> None
     | t # ts \<Rightarrow> if t = s then (if ts = [] then Some (node_value node) else nodes_map (node_children node) ts)
                else nodes_map ns q)"
    by (cases q; cases "tl q") auto
qed

lemma nodes_map_del:
  "nodes_map (hdel s ns) = (\<lambda>q. case q of [] \<Rightarrow> None | t # ts \<Rightarrow> if t = s then None else nodes_map ns q)"
proof
  fix q show "nodes_map (hdel s ns) q = (case q of [] \<Rightarrow> None | t # ts \<Rightarrow> if t = s then None else nodes_map ns q)"
    by (cases q; cases "tl q") auto
qed

lemma parent_in_Cons:
  "hget ns s = Some node \<Longrightarrow> parent_in (nodes_map ns) (s # t # ss) \<longleftrightarrow> parent_in (nodes_map (node_children node)) (t # ss)"
  by (cases ss) (simp_all add: parent_in_def)

lemma insert_nodes_ok:
  assumes "nodes_wf ns" "is_segment s" "\<forall>t \<in> set ss. is_segment t" "parent_in (nodes_map ns) (s # ss)"
  shows "\<exists>ns'. insert_nodes v s ss ns = (Ok (nodes_map ns (s # ss)), ns') \<and> nodes_wf ns' \<and>
    nodes_map ns' = graft (s # ss) v (nodes_map ns)"
  using assms
proof (induction ss arbitrary: s ns)
  case Nil
  then show ?case
    by (auto simp: path_node_new_def nodes_wf_put graft_def prune_def nodes_map_put fun_eq_iff split: list.split)
next
  case (Cons t ss)
  then obtain node where node: "hget ns s = Some node" "is_segment s" "nodes_wf (node_children node)"
    by (cases "hget ns s") (auto simp: parent_in_def nodes_wf_get split: list.splits if_splits)
  then obtain c where c: "insert_nodes v t ss (node_children node) = (Ok (nodes_map (node_children node) (t # ss)), c)"
    "nodes_wf c" "nodes_map c = graft (t # ss) v (nodes_map (node_children node))"
    using Cons.IH [of "node_children node" t] Cons.prems parent_in_Cons [OF node(1)] by auto
  have "nodes_map (hput s (PathNode c (node_value node)) ns) q = graft (s # t # ss) v (nodes_map ns) q" for q
    using node(1) c(3) by (cases q; cases "tl q") (auto simp: nodes_map_put graft_def prune_def)
  with Cons.prems(1) node c show ?case by (auto simp: nodes_wf_put)
qed

lemma insert_nodes_orphan:
  assumes "\<not> parent_in (nodes_map ns) (s # ss)"
  shows "insert_nodes v s ss ns = (Panic ''The parent path does not exist.'', ns)"
  using assms
proof (induction ss arbitrary: s ns)
  case (Cons t ss)
  show ?case
  proof (cases "hget ns s")
    case (Some node)
    with Cons parent_in_Cons [OF Some] show ?thesis by (simp add: hput_same)
  qed simp
qed (simp add: parent_in_def)

lemma remove_nodes_ok:
  assumes "nodes_wf ns"
  shows "\<exists>x ns'. remove_nodes s ss ns = (x, ns') \<and> map_option node_value x = nodes_map ns (s # ss) \<and>
    map_option node_children x = children_at ns (s # ss) \<and>
    nodes_wf ns' \<and> nodes_map ns' = prune (s # ss) (nodes_map ns)"
  using assms
proof (induction ss arbitrary: s ns)
  case Nil
  then show ?case by (auto simp: nodes_wf_del nodes_map_del prune_def fun_eq_iff split: list.split option.split)
next
  case (Cons t ss)
  show ?case
  proof (cases "hget ns s")
    case None
    then have "nodes_map ns = prune (s # t # ss) (nodes_map ns)"
      by (auto simp: prune_def fun_eq_iff prefix_def)
    with None Cons.prems show ?thesis by simp
  next
    case (Some node)
    then have node: "is_segment s" "nodes_wf (node_children node)" using Cons.prems nodes_wf_get by blast+
    then obtain x c where c: "remove_nodes t ss (node_children node) = (x, c)"
      "map_option node_value x = nodes_map (node_children node) (t # ss)"
      "map_option node_children x = children_at (node_children node) (t # ss)"
      "nodes_wf c" "nodes_map c = prune (t # ss) (nodes_map (node_children node))"
      using Cons.IH by blast
    have "nodes_map (hput s (PathNode c (node_value node)) ns) q = prune (s # t # ss) (nodes_map ns) q" for q
      using Some c(5) by (cases q; cases "tl q") (auto simp: nodes_map_put prune_def)
    with Some Cons.prems node c show ?thesis by (auto simp: nodes_wf_put)
  qed
qed

lemma children_at_map:
  "children_at ns ss = Some c \<Longrightarrow> r \<noteq> [] \<Longrightarrow> nodes_map c r = nodes_map ns (ss @ r)"
  by (induction ss arbitrary: ns) (auto split: option.splits)

lemma children_at_none: "children_at ns ss = None \<longleftrightarrow> ss \<noteq> [] \<and> nodes_map ns ss = None"
proof (induction ss arbitrary: ns)
  case (Cons s ss)
  then show ?case by (cases ss) (auto split: option.split)
qed simp

lemma children_at_wf: "nodes_wf ns \<Longrightarrow> children_at ns ss = Some c \<Longrightarrow> nodes_wf c"
  by (induction ss arbitrary: ns) (auto split: option.splits dest: nodes_wf_get)

text \<open>The domain is closed under parents.\<close>

lemma nodes_map_prefix: "nodes_map ns (p @ q) = Some v \<Longrightarrow> p \<noteq> [] \<Longrightarrow> nodes_map ns p \<noteq> None"
proof (induction p arbitrary: ns)
  case (Cons s p)
  show ?case
  proof (cases "hget ns s")
    case None
    with Cons.prems show ?thesis by (cases "p @ q") auto
  next
    case (Some node)
    with Cons show ?thesis by (cases p) auto
  qed
qed simp

text \<open>The walk of a tree: the paths below \<open>p\<close> with their values, each before those below it.\<close>

definition below :: "(string list \<rightharpoonup> 'v) \<Rightarrow> string list \<Rightarrow> (string list \<times> 'v) set" where
  "below m p = {(p @ r, v) | r v. r \<noteq> [] \<and> m (p @ r) = Some v}"

definition top_down :: "string list list \<Rightarrow> bool" where
  "top_down ps \<longleftrightarrow> sorted_wrt (\<lambda>a b. \<not> prefix b a) ps"

lemma nodes_map_Cons:
  assumes "name \<notin> set (hkeys rest)"
  shows "nodes_map ((name, PathNode c v) # rest) q = Some w \<longleftrightarrow>
    q = [name] \<and> w = v \<or> (\<exists>r. q = name # r \<and> nodes_map c r = Some w) \<or> nodes_map rest q = Some w"
proof -
  have "hget rest name = None" using assms by (simp add: map_of_eq_None_iff)
  then show ?thesis by (cases q; cases "tl q") auto
qed

definition steps :: "'p path_ops \<Rightarrow> ('p \<times> 'v) list \<Rightarrow> (string list \<times> 'v) list" where
  "steps P w = map (\<lambda>(p, v). (p_iter P p, v)) w"

lemma steps_simps [simp]:
  "steps P [] = []" "steps P ((p, v) # w) = (p_iter P p, v) # steps P w" "steps P (w @ w') = steps P w @ steps P w'"
  by (simp_all add: steps_def)

lemma steps_path: "q \<in> set (map fst (steps P w)) \<Longrightarrow> \<exists>v. (q, v) \<in> set (steps P w)"
  by auto

context rel_path
begin

lemma child_iter: "is_segment name \<Longrightarrow> p_iter P (p_child P p name) = p_iter P p @ [name]"
  by (simp add: iter_join iter_new)

lemma walk_nodes_set:
  "nodes_wf ns \<Longrightarrow> set (steps P (walk_nodes P par ns)) = {(p_iter P par @ r, v) | r v. nodes_map ns r = Some v}"
proof (induction ns arbitrary: par rule: nodes_wf.induct)
  case (2 name c v rest)
  then have seg: "is_segment name" and new: "name \<notin> set (hkeys rest)" by simp_all
  have "set (steps P (walk_nodes P par ((name, PathNode c v) # rest))) =
      insert (p_iter P par @ [name], v) ({(p_iter P par @ [name] @ r, v) | r v. nodes_map c r = Some v} \<union>
        {(p_iter P par @ r, v) | r v. nodes_map rest r = Some v})"
    using 2 by (simp add: child_iter [OF seg])
  also have "\<dots> = {(p_iter P par @ r, w) | r w. nodes_map ((name, PathNode c v) # rest) r = Some w}"
    unfolding nodes_map_Cons [OF new] by (simp add: set_eq_iff) blast
  finally show ?case .
qed simp

lemma walk_nodes_path:
  assumes "nodes_wf ns" "q \<in> set (map fst (steps P (walk_nodes P par ns)))"
  shows "\<exists>t r. q = p_iter P par @ t # r \<and> t \<in> set (hkeys ns)"
proof -
  from assms(2) obtain w where "(q, w) \<in> set (steps P (walk_nodes P par ns))" using steps_path by blast
  then obtain r where r: "q = p_iter P par @ r" "nodes_map ns r = Some w"
    unfolding walk_nodes_set [OF assms(1)] by auto
  then obtain t ts where ts: "r = t # ts" by (cases r) auto
  then have "hget ns t \<noteq> None" using r(2) by (cases ts) (auto split: option.splits)
  then have "t \<in> set (hkeys ns)" by (simp add: map_of_eq_None_iff)
  with r(1) ts show ?thesis by blast
qed

lemma walk_nodes_top_down:
  "nodes_wf ns \<Longrightarrow> top_down (map fst (steps P (walk_nodes P par ns)))"
proof (induction ns arbitrary: par rule: nodes_wf.induct)
  case (2 name c v rest)
  let ?p = "p_child P par name"
  let ?C = "map fst (steps P (walk_nodes P ?p c))" and ?R = "map fst (steps P (walk_nodes P par rest))"
  from 2 have seg: "is_segment name" and new: "name \<notin> set (hkeys rest)" and wf: "nodes_wf c" "nodes_wf rest" by simp_all
  have root: "\<not> prefix b (p_iter P ?p)" if "b \<in> set ?C" for b
    using walk_nodes_path [OF wf(1) that] by (auto simp: prefix_def)
  have apart: "\<not> prefix b (p_iter P ?p @ r)" if "b \<in> set ?R" for b r
    using walk_nodes_path [OF wf(2) that] new by (force simp: prefix_def child_iter [OF seg])
  have "top_down (p_iter P ?p # ?C @ ?R)"
    unfolding top_down_def
  proof (simp only: sorted_wrt.simps sorted_wrt_append, intro conjI ballI)
    fix b assume "b \<in> set (?C @ ?R)"
    then have "b \<in> set ?C \<or> b \<in> set ?R" by simp
    with root apart [of b "[]"] show "\<not> prefix b (p_iter P ?p)" by (metis append_Nil2)
  next
    fix a b assume "a \<in> set ?C" "b \<in> set ?R"
    with walk_nodes_path [OF wf(1), of a] apart show "\<not> prefix b a" by blast
  qed (use 2 wf in \<open>simp_all add: top_down_def\<close>)
  then show ?case by simp
qed (simp add: top_down_def)

text \<open>The laws of the tree over the map it represents.\<close>

lemma tree_get_ok: "tree_get P p t = tree_map t (p_iter P p)"
  by (simp add: tree_get_def tree_map_def nodes_map_def)

lemma tree_insert_ok:
  assumes "tree_wf t" "p_iter P p \<noteq> []" "parent_in (tree_map t) (p_iter P p)"
  shows "\<exists>t'. tree_insert P p v t = (Ok (tree_map t (p_iter P p)), t') \<and> tree_wf t' \<and>
    tree_map t' = graft (p_iter P p) v (tree_map t)"
proof -
  obtain s ss where ss: "p_iter P p = s # ss" using assms(2) by (cases "p_iter P p") auto
  then have "is_segment s" "\<forall>t \<in> set ss. is_segment t" using iter_segments [of p] by auto
  then obtain ns where "insert_nodes v s ss (nodes t) = (Ok (nodes_map (nodes t) (s # ss)), ns)" "nodes_wf ns"
    "nodes_map ns = graft (s # ss) v (nodes_map (nodes t))"
    using insert_nodes_ok [of "nodes t" s ss v] assms(1,3) ss by (auto simp: tree_wf_def tree_map_def)
  with ss show ?thesis by (simp add: tree_insert_def tree_map_def tree_wf_def)
qed

lemma tree_insert_orphan:
  assumes "\<not> parent_in (tree_map t) (p_iter P p)"
  shows "tree_insert P p v t = (Panic ''The parent path does not exist.'', t)"
proof -
  obtain s ss where ss: "p_iter P p = s # ss" using assms by (cases "p_iter P p") (auto simp: parent_in_def)
  with insert_nodes_orphan [of "nodes t" s ss v] assms show ?thesis by (simp add: tree_insert_def tree_map_def)
qed

lemma tree_take_ok:
  assumes "tree_wf t" "p_iter P p \<noteq> []"
  shows "\<exists>x t'. tree_take P p t = (x, t') \<and> map_option node_value x = tree_map t (p_iter P p) \<and>
    map_option node_children x = children_at (nodes t) (p_iter P p) \<and> tree_wf t' \<and>
    tree_map t' = prune (p_iter P p) (tree_map t)"
proof -
  obtain s ss where ss: "p_iter P p = s # ss" using assms(2) by (cases "p_iter P p") auto
  obtain x ns where "remove_nodes s ss (nodes t) = (x, ns)" "map_option node_value x = nodes_map (nodes t) (s # ss)"
    "map_option node_children x = children_at (nodes t) (s # ss)" "nodes_wf ns"
    "nodes_map ns = prune (s # ss) (nodes_map (nodes t))"
    using remove_nodes_ok [of "nodes t" s ss] assms(1) by (auto simp: tree_wf_def)
  with ss show ?thesis by (simp add: tree_take_def tree_map_def tree_wf_def)
qed

lemma tree_remove_ok:
  assumes "tree_wf t" "p_iter P p \<noteq> []"
  shows "\<exists>t'. tree_remove P p t = (tree_map t (p_iter P p), t') \<and> tree_wf t' \<and>
    tree_map t' = prune (p_iter P p) (tree_map t)"
  using tree_take_ok [OF assms] by (auto simp: tree_remove_def)

lemma children_below:
  assumes "nodes_wf ns" "children_at ns (p_iter P p) = Some c"
  shows "set (steps P (walk_nodes P p c)) = below (nodes_map ns) (p_iter P p)"
proof -
  have "set (steps P (walk_nodes P p c)) = {(p_iter P p @ r, v) | r v. nodes_map c r = Some v}"
    by (rule walk_nodes_set) (rule children_at_wf [OF assms])
  also have "\<dots> = below (nodes_map ns) (p_iter P p)"
    unfolding below_def using children_at_map [OF assms(2)] by (intro Collect_cong) (metis nodes_map_simps(1) option.distinct(1))
  finally show ?thesis .
qed

lemma tree_walk_ok:
  assumes "tree_wf t"
  shows "tree_walk P p t = None \<longleftrightarrow> p_iter P p \<noteq> [] \<and> tree_map t (p_iter P p) = None"
    and "tree_walk P p t = Some w \<Longrightarrow> set (steps P w) = below (tree_map t) (p_iter P p) \<and> top_down (map fst (steps P w))"
proof -
  show "tree_walk P p t = None \<longleftrightarrow> p_iter P p \<noteq> [] \<and> tree_map t (p_iter P p) = None"
    by (simp add: tree_walk_def children_at_none tree_map_def)
  assume "tree_walk P p t = Some w"
  then obtain c where c: "children_at (nodes t) (p_iter P p) = Some c" "w = walk_nodes P p c"
    by (auto simp: tree_walk_def)
  have wf: "nodes_wf (nodes t)" using assms by (simp add: tree_wf_def)
  show "set (steps P w) = below (tree_map t) (p_iter P p) \<and> top_down (map fst (steps P w))"
    using children_below [OF wf c(1)] walk_nodes_top_down [OF children_at_wf [OF wf c(1)]] c(2)
    by (simp add: tree_map_def)
qed

lemma tree_drain_ok:
  assumes "tree_wf t" "tree_map t (p_iter P p) = Some v"
  shows "\<exists>w t'. tree_drain P p t = (Some ((p, v) # w), t') \<and> tree_walk P p t = Some w \<and> tree_wf t' \<and>
    tree_map t' = prune (p_iter P p) (tree_map t)"
proof -
  have "p_iter P p \<noteq> []" using assms(2) by (auto simp: tree_map_def)
  then obtain x t' where "tree_take P p t = (x, t')" "map_option node_value x = tree_map t (p_iter P p)"
    "map_option node_children x = children_at (nodes t) (p_iter P p)" "tree_wf t'"
    "tree_map t' = prune (p_iter P p) (tree_map t)"
    using tree_take_ok [OF assms(1)] by blast
  moreover obtain n where "x = Some n" "node_value n = v" using calculation(2) assms(2) by (cases x) auto
  ultimately show ?thesis by (auto simp: tree_drain_def tree_walk_def dest: sym)
qed

end

section \<open>Evaluation\<close>

text \<open>Paths as lists of components, and a tree with a file in a directory.\<close>

fun split_slash :: "string \<Rightarrow> string list" where
  "split_slash [] = [[]]"
| "split_slash (c # cs) = (case split_slash cs of
      [] \<Rightarrow> [[c]]
    | s # ss \<Rightarrow> if c = CHR ''/'' then [] # s # ss else (c # s) # ss)"

definition ref_paths :: "string list path_ops" where
  "ref_paths = \<lparr>p_iter = filter is_segment, p_new = (\<lambda>s. filter is_segment (split_slash s)),
     p_parent = (\<lambda>p. if filter is_segment p = [] then None else Some (butlast (filter is_segment p))),
     p_join = (@),
     p_strip_prefix = (\<lambda>p b. if prefix (filter is_segment b) (filter is_segment p)
        then Some (drop (length (filter is_segment b)) (filter is_segment p)) else None)\<rparr>"

lemma split_slash_segment: "is_segment s \<Longrightarrow> split_slash s = [s]"
proof -
  have "CHR ''/'' \<notin> set s \<Longrightarrow> split_slash s = [s]" by (induction s) auto
  then show "is_segment s \<Longrightarrow> split_slash s = [s]" by (simp add: is_segment_def)
qed

lemma filter_butlast_all: "\<forall>s \<in> set xs. Q s \<Longrightarrow> filter Q (butlast xs) = butlast xs"
  by (auto intro!: filter_True dest: in_set_butlastD)

interpretation ref_path: rel_path ref_paths
proof
  fix p b :: "string list" and ss
  have "\<forall>s \<in> set (filter is_segment p). is_segment s" by simp
  from filter_butlast_all [OF this]
  show "p_iter ref_paths p \<noteq> [] \<Longrightarrow> \<exists>q. p_parent ref_paths p = Some q \<and> p_iter ref_paths q = butlast (p_iter ref_paths p)"
    by (simp add: ref_paths_def)
  assume "p_iter ref_paths p = p_iter ref_paths b @ ss"
  then have eq: "filter is_segment p = filter is_segment b @ ss" by (simp add: ref_paths_def)
  have "set ss \<subseteq> set (filter is_segment p)" unfolding eq by simp
  then have "filter is_segment ss = ss" by (auto intro: filter_True)
  with eq show "\<exists>q. p_strip_prefix ref_paths p b = Some q \<and> p_iter ref_paths q = ss"
    by (simp add: ref_paths_def)
qed (auto simp: ref_paths_def split_slash_segment, simp add: is_segment_def)

definition ref_tree :: "nat path_tree" where
  "ref_tree = \<lparr>nodes = [(''a'', PathNode [(''b'', PathNode [] 2)] 1), (''c'', PathNode [] 3)]\<rparr>"

lemma ref_tree_facts:
  "tree_wf ref_tree" "tree_map ref_tree [''a''] = Some 1" "tree_map ref_tree [''a'', ''b''] = Some 2"
  "tree_map ref_tree [''b''] = None"
  by (simp_all add: tree_wf_def ref_tree_def is_segment_def tree_map_def)

lemma ref_iter: "p_iter ref_paths [''a''] = [''a'']" "p_iter ref_paths [''a'', ''b''] = [''a'', ''b'']"
  "p_iter ref_paths [''a'', ''b'', ''c''] = [''a'', ''b'', ''c'']"
  by (simp_all add: ref_paths_def is_segment_def)

section \<open>The contract of the tree\<close>

text \<open>
  Inserting into a tree of paths.  If the parent is in the tree, or the path is at the top level, the value
  that was there is returned, and the map of the tree has the new value at the path and nothing below it;
  otherwise the operation panics and the tree is unchanged.
\<close>

theorem path_tree_insert:
  assumes "rel_path P" "tree_wf t" "p_iter P p \<noteq> []"
  shows "if parent_in (tree_map t) (p_iter P p)
    then \<exists>t'. tree_insert P p v t = (Ok (tree_get P p t), t') \<and> tree_wf t' \<and>
      tree_map t' = graft (p_iter P p) v (tree_map t)
    else tree_insert P p v t = (Panic ''The parent path does not exist.'', t)"
  using rel_path.tree_insert_ok [OF assms(1-3), of v] rel_path.tree_insert_orphan [OF assms(1), of t p v]
    rel_path.tree_get_ok [OF assms(1), of p t] by auto

theorem path_tree_insert_witness:
  "\<exists>t'. tree_insert ref_paths [''a'', ''b'', ''c''] 9 ref_tree = (Ok (tree_get ref_paths [''a'', ''b'', ''c''] ref_tree), t') \<and>
     tree_wf t' \<and> tree_map t' = graft [''a'', ''b'', ''c''] 9 (tree_map ref_tree)"
  using path_tree_insert [OF ref_path.rel_path_axioms ref_tree_facts(1), of "[''a'', ''b'', ''c'']" 9]
  by (simp add: ref_iter parent_in_def ref_tree_facts)

text \<open>
  Removing a path returns its value and removes exactly the path and everything below it; \<^verbatim>\<open>drain\<close> has the same
  effect and yields the path with its value, followed by the walk of the subtree.
\<close>

theorem path_tree_remove:
  assumes "rel_path P" "tree_wf t" "tree_get P p t = Some v"
  shows "\<exists>w t'. tree_remove P p t = (Some v, t') \<and> tree_drain P p t = (Some ((p, v) # w), t') \<and>
    tree_walk P p t = Some w \<and> tree_wf t' \<and> tree_map t' = prune (p_iter P p) (tree_map t)"
proof -
  have v: "tree_map t (p_iter P p) = Some v" using rel_path.tree_get_ok [OF assms(1), of p t] assms(3) by simp
  obtain w t' where w: "tree_drain P p t = (Some ((p, v) # w), t')" "tree_walk P p t = Some w" "tree_wf t'"
    "tree_map t' = prune (p_iter P p) (tree_map t)"
    using rel_path.tree_drain_ok [OF assms(1,2) v] by blast
  have "tree_remove P p t = (Some v, t')"
    using w(1) by (auto simp: tree_remove_def tree_drain_def split: prod.splits option.splits)
  with w show ?thesis by blast
qed

theorem path_tree_remove_witness:
  "\<exists>w t'. tree_remove ref_paths [''a''] ref_tree = (Some 1, t') \<and>
     tree_drain ref_paths [''a''] ref_tree = (Some (([''a''], 1) # w), t') \<and>
     tree_walk ref_paths [''a''] ref_tree = Some w \<and> tree_wf t' \<and> tree_map t' = prune [''a''] (tree_map ref_tree)"
proof -
  have "tree_get ref_paths [''a''] ref_tree = Some 1"
    by (simp add: ref_path.tree_get_ok ref_iter ref_tree_facts)
  from path_tree_remove [OF ref_path.rel_path_axioms ref_tree_facts(1) this] show ?thesis by (simp add: ref_iter)
qed

text \<open>
  Walking a path that is in the tree, or the empty path, yields exactly the paths strictly below it with their
  values, and every path before those below it; walking any other path yields nothing.
\<close>

theorem path_tree_walk:
  assumes "rel_path P" "tree_wf t"
  shows "case tree_walk P p t of
      None \<Rightarrow> p_iter P p \<noteq> [] \<and> tree_get P p t = None
    | Some w \<Rightarrow> set (steps P w) = below (tree_map t) (p_iter P p) \<and> top_down (map fst (steps P w))"
  using rel_path.tree_walk_ok [OF assms(1,2), of p] rel_path.tree_get_ok [OF assms(1), of p t]
  by (auto split: option.split)

theorem path_tree_walk_witness:
  "case tree_walk ref_paths [''a''] ref_tree of
      None \<Rightarrow> p_iter ref_paths [''a''] \<noteq> [] \<and> tree_get ref_paths [''a''] ref_tree = None
    | Some w \<Rightarrow> set (steps ref_paths w) = below (tree_map ref_tree) (p_iter ref_paths [''a'']) \<and>
        top_down (map fst (steps ref_paths w))"
  by (rule path_tree_walk [OF ref_path.rel_path_axioms ref_tree_facts(1)])

end
