(* ===== verification/File_Repo.thy ===== *)
theory File_Repo
  imports State_Contract Path_Tree
begin

text \<open>
  The file repository (\<^verbatim>\<open>src/src/repo/file/repository.rs\<close>, \<^verbatim>\<open>entry.rs\<close>): a tree of entries on a state
  repository.  Every entry has an object with its serialized metadata, and every regular file one with its
  contents.  Paths are a parameter as in the tree of paths; the types of special files and of metadata are type
  parameters, and the serialization of entries is a parameter.  What moves data between the repository and
  the file system of the machine is in \<^verbatim>\<open>File_Archive\<close>.
\<close>

section \<open>Entries\<close>

datatype 'p file_type = TFile | TDirectory | TSpecial 'p

record ('p, 'm) entry =
  file_type :: "'p file_type"
  entry_metadata :: "'m option"

definition entry_file :: "('p, 'm) entry" where
  "entry_file = \<lparr>file_type = TFile, entry_metadata = None\<rparr>"

definition entry_directory :: "('p, 'm) entry" where
  "entry_directory = \<lparr>file_type = TDirectory, entry_metadata = None\<rparr>"

definition entry_special :: "'p \<Rightarrow> ('p, 'm) entry" where
  "entry_special file = \<lparr>file_type = TSpecial file, entry_metadata = None\<rparr>"

definition entry_is_file :: "('p, 'm) entry \<Rightarrow> bool" where
  "entry_is_file e \<longleftrightarrow> (case file_type e of TFile \<Rightarrow> True | _ \<Rightarrow> False)"

definition entry_is_directory :: "('p, 'm) entry \<Rightarrow> bool" where
  "entry_is_directory e \<longleftrightarrow> (case file_type e of TDirectory \<Rightarrow> True | _ \<Rightarrow> False)"

definition entry_is_special :: "('p, 'm) entry \<Rightarrow> bool" where
  "entry_is_special e \<longleftrightarrow> (case file_type e of TSpecial _ \<Rightarrow> True | _ \<Rightarrow> False)"

datatype entry_type = EFile object_key | EDirectory | ESpecial

record entry_handle =
  eh_entry :: object_key
  eh_type :: entry_type

record ('p, 'm) entry_codec =
  to_vec_entry :: "('p, 'm) entry \<Rightarrow> bytes option"
  from_entry :: "('p, 'm) entry decoder"

section \<open>The repository\<close>

type_synonym 's file_repo = "(entry_handle path_tree, 's) state_repo"

abbreviation EMPTY_PATH :: "'q path_ops \<Rightarrow> 'q" where
  "EMPTY_PATH P \<equiv> p_new P []"

definition FILE_REPO_VERSION_ID :: uuid where
  "FILE_REPO_VERSION_ID = 0x075bc448d03c11eba9e843df5f0eb6a0"

definition file_repo_open ::
  "('s, 'z) env \<Rightarrow> entry_handle path_tree state_codec \<Rightarrow> ((repo_key, 's) key_repo, 's file_repo) op" where
  "file_repo_open E C = state_repo_open E C"

definition file_repo_create ::
  "('s, 'z) env \<Rightarrow> entry_handle path_tree state_codec \<Rightarrow> ((repo_key, 's) key_repo, 's file_repo) op" where
  "file_repo_create E C = state_repo_create E C"

definition file_into_repo ::
  "('s, 'z) env \<Rightarrow> entry_handle path_tree state_codec \<Rightarrow> ('s file_repo, (repo_key, 's) key_repo) op" where
  "file_into_repo E C = state_into_repo E C"

definition on_tree :: "(entry_handle path_tree, 'a) op \<Rightarrow> ('s file_repo, 'a) op" where
  "on_tree m r = (case m (sr_state r) of (x, t) \<Rightarrow> (x, r\<lparr>sr_state := t\<rparr>))"

definition file_exists :: "'q path_ops \<Rightarrow> 's file_repo \<Rightarrow> 'q \<Rightarrow> bool" where
  "file_exists P r path \<longleftrightarrow> tree_contains P path (sr_state r)"

definition is_file :: "'q path_ops \<Rightarrow> 's file_repo \<Rightarrow> 'q \<Rightarrow> bool" where
  "is_file P r path \<longleftrightarrow> (case tree_get P path (sr_state r) of
      Some h \<Rightarrow> (case eh_type h of EFile _ \<Rightarrow> True | _ \<Rightarrow> False)
    | None \<Rightarrow> False)"

definition is_directory :: "'q path_ops \<Rightarrow> 's file_repo \<Rightarrow> 'q \<Rightarrow> bool" where
  "is_directory P r path \<longleftrightarrow> (case tree_get P path (sr_state r) of
      Some h \<Rightarrow> (case eh_type h of EDirectory \<Rightarrow> True | _ \<Rightarrow> False)
    | None \<Rightarrow> False)"

definition is_special :: "'q path_ops \<Rightarrow> 's file_repo \<Rightarrow> 'q \<Rightarrow> bool" where
  "is_special P r path \<longleftrightarrow> (case tree_get P path (sr_state r) of
      Some h \<Rightarrow> (case eh_type h of ESpecial \<Rightarrow> True | _ \<Rightarrow> False)
    | None \<Rightarrow> False)"

definition has_parent :: "'q path_ops \<Rightarrow> 's file_repo \<Rightarrow> 'q \<Rightarrow> bool" where
  "has_parent P r path \<longleftrightarrow> (case p_parent P path of
      None \<Rightarrow> True
    | Some par \<Rightarrow>
        if p_eq P par (EMPTY_PATH P) then True
        else case tree_get P par (sr_state r) of
            Some h \<Rightarrow> (case eh_type h of EDirectory \<Rightarrow> True | _ \<Rightarrow> False)
          | None \<Rightarrow> False)"

section \<open>Creating entries\<close>

definition new_entry_type :: "'z zpaq \<Rightarrow> 'p file_type \<Rightarrow> ('s file_repo, entry_type) op" where
  "new_entry_type Z ty = (case ty of
      TFile \<Rightarrow> bindR (state_create Z) (\<lambda>oid. ret (EFile oid))
    | TDirectory \<Rightarrow> ret EDirectory
    | TSpecial _ \<Rightarrow> ret ESpecial)"

definition file_create ::
  "('s, 'z) env \<Rightarrow> 'q path_ops \<Rightarrow> ('p, 'm) entry_codec \<Rightarrow> 'q \<Rightarrow> ('p, 'm) entry \<Rightarrow> ('s file_repo, unit) op" where
  "file_create E P K path entry r =
    (if p_eq P path (EMPTY_PATH P) then (Err InvalidPath, r)
     else if file_exists P r path then (Err AlreadyExists, r)
     else if \<not> has_parent P r path then (Err InvalidPath, r)
     else bindR (state_create (ev_zpaq E)) (\<lambda>entry_id r1.
       (case state_use (ev_zpaq E) entry_id
            (view_serialize (ev_store E) (ev_ext E) (dyn_ops (ev_zpaq E)) (to_vec_entry K entry)) r1 of
          (Ok _, r2) \<Rightarrow>
            bindR (new_entry_type (ev_zpaq E) (file_type entry)) (\<lambda>entry_type.
            bindR (on_tree (tree_insert P path \<lparr>eh_entry = entry_id, eh_type = entry_type\<rparr>)) (\<lambda>_. ret ())) r2
        | (Err e, r2) \<Rightarrow> bindR (state_remove entry_id) (\<lambda>_. throw e) r2
        | (Panic p, r2) \<Rightarrow> (Panic p, r2)
        | (Diverge, r2) \<Rightarrow> (Diverge, r2))) r)"

text \<open>The loop over the components of the parent.\<close>

fun create_ancestors ::
  "('s, 'z) env \<Rightarrow> 'q path_ops \<Rightarrow> ('p, 'm) entry_codec \<Rightarrow> 'q \<Rightarrow> string list \<Rightarrow> ('s file_repo, unit) op" where
  "create_ancestors E P K ancestor [] r = (Ok (), r)"
| "create_ancestors E P K ancestor (component # components) r =
    (let ancestor' = p_join P ancestor (p_new P component) in
     case file_create E P K ancestor' entry_directory r of
        (Ok _, r1) \<Rightarrow> create_ancestors E P K ancestor' components r1
      | (Err AlreadyExists, r1) \<Rightarrow> create_ancestors E P K ancestor' components r1
      | (x, r1) \<Rightarrow> (x, r1))"

definition create_parents ::
  "('s, 'z) env \<Rightarrow> 'q path_ops \<Rightarrow> ('p, 'm) entry_codec \<Rightarrow> 'q \<Rightarrow> ('p, 'm) entry \<Rightarrow> ('s file_repo, unit) op" where
  "create_parents E P K path entry r = (case p_parent P path of
      None \<Rightarrow> file_create E P K path entry r
    | Some par \<Rightarrow>
        if p_eq P par (EMPTY_PATH P) then file_create E P K path entry r
        else bindR (create_ancestors E P K (EMPTY_PATH P) (p_iter P par)) (\<lambda>_. file_create E P K path entry) r)"

section \<open>Removing entries\<close>

definition remove_objects :: "entry_handle \<Rightarrow> ('s file_repo, unit) op" where
  "remove_objects h =
     bindR (case eh_type h of EFile oid \<Rightarrow> bindR (state_remove oid) (\<lambda>_. ret ()) | _ \<Rightarrow> ret ()) (\<lambda>_.
     bindR (state_remove (eh_entry h)) (\<lambda>_. ret ()))"

definition file_remove :: "'q path_ops \<Rightarrow> 'q \<Rightarrow> ('s file_repo, unit) op" where
  "file_remove P path r =
    (if p_eq P path (EMPTY_PATH P) then (Err InvalidPath, r)
     else case tree_list P path (sr_state r) of
        None \<Rightarrow> (Err NotFound, r)
      | Some children \<Rightarrow>
          if children \<noteq> [] then (Err NotEmpty, r)
          else bindR (on_tree (\<lambda>t. case tree_remove P path t of (x, t') \<Rightarrow> (Ok x, t'))) (\<lambda>x.
               bindR (unwrap_option x) remove_objects) r)"

definition remove_tree :: "'q path_ops \<Rightarrow> 'q \<Rightarrow> ('s file_repo, unit) op" where
  "remove_tree P path r =
    (if p_eq P path (EMPTY_PATH P) then (Err InvalidPath, r)
     else bindR (on_tree (\<lambda>t. case tree_drain P path t of (x, t') \<Rightarrow> (Ok x, t'))) (\<lambda>x.
       case x of None \<Rightarrow> throw NotFound | Some handles \<Rightarrow> forM (map snd handles) remove_objects) r)"

section \<open>Entries and contents\<close>

definition file_entry ::
  "('s, 'z) env \<Rightarrow> 'q path_ops \<Rightarrow> ('p, 'm) entry_codec \<Rightarrow> 'q \<Rightarrow> ('s file_repo, ('p, 'm) entry) op" where
  "file_entry E P K path r =
    (if p_eq P path (EMPTY_PATH P) then (Err InvalidPath, r)
     else case tree_get P path (sr_state r) of
        None \<Rightarrow> (Err NotFound, r)
      | Some h \<Rightarrow> state_use (ev_zpaq E) (eh_entry h) (view_deserialize (ev_store E) (ev_ext E) (from_entry K)) r)"

definition update_entry ::
  "('s, 'z) env \<Rightarrow> ('p, 'm) entry_codec \<Rightarrow> 'm option \<Rightarrow> ((repo_key, 's, 'z chunker) view, unit) op" where
  "update_entry E K new_metadata =
     bindR (view_deserialize (ev_store E) (ev_ext E) (from_entry K)) (\<lambda>entry.
     view_serialize (ev_store E) (ev_ext E) (dyn_ops (ev_zpaq E)) (to_vec_entry K (entry\<lparr>entry_metadata := new_metadata\<rparr>)))"

definition set_metadata ::
  "('s, 'z) env \<Rightarrow> 'q path_ops \<Rightarrow> ('p, 'm) entry_codec \<Rightarrow> 'q \<Rightarrow> 'm option \<Rightarrow> ('s file_repo, unit) op" where
  "set_metadata E P K path new_metadata r =
    (if p_eq P path (EMPTY_PATH P) then (Err InvalidPath, r)
     else case tree_get P path (sr_state r) of
        None \<Rightarrow> (Err NotFound, r)
      | Some h \<Rightarrow> state_use (ev_zpaq E) (eh_entry h) (update_entry E K new_metadata) r)"

definition file_open :: "'z zpaq \<Rightarrow> 'q path_ops \<Rightarrow> 'q \<Rightarrow> ('s file_repo, 'z chunker object) op" where
  "file_open Z P path r =
    (if p_eq P path (EMPTY_PATH P) then (Err InvalidPath, r)
     else case tree_get P path (sr_state r) of
        None \<Rightarrow> (Err NotFound, r)
      | Some h \<Rightarrow> (case eh_type h of
            EFile oid \<Rightarrow> unwrap_option (state_object Z oid r) r
          | _ \<Rightarrow> (Err NotFile, r)))"

section \<open>Copying entries\<close>

definition copy_entry_handle :: "entry_handle \<Rightarrow> ('s file_repo, entry_handle) op" where
  "copy_entry_handle h =
     bindR (state_copy (eh_entry h)) (\<lambda>x. bindR (unwrap_option x) (\<lambda>new_entry_id.
     bindR (case eh_type h of
         EFile file_id \<Rightarrow> bindR (state_copy file_id) (\<lambda>y. bindR (unwrap_option y) (\<lambda>oid. ret (EFile oid)))
       | EDirectory \<Rightarrow> ret EDirectory
       | ESpecial \<Rightarrow> ret ESpecial) (\<lambda>ty.
     ret \<lparr>eh_entry = new_entry_id, eh_type = ty\<rparr>)))"

definition put_copy :: "'q path_ops \<Rightarrow> 'q \<Rightarrow> entry_handle \<Rightarrow> ('s file_repo, unit) op" where
  "put_copy P dest h = bindR (copy_entry_handle h) (\<lambda>h'. bindR (on_tree (tree_insert P dest h')) (\<lambda>_. ret ()))"

definition copy_guard :: "'q path_ops \<Rightarrow> 'q \<Rightarrow> 'q \<Rightarrow> ('s file_repo, entry_handle) op" where
  "copy_guard P source dest r =
    (if p_eq P source (EMPTY_PATH P) \<or> p_eq P dest (EMPTY_PATH P) then (Err InvalidPath, r)
     else if file_exists P r dest then (Err AlreadyExists, r)
     else if \<not> has_parent P r dest then (Err InvalidPath, r)
     else case tree_get P source (sr_state r) of None \<Rightarrow> (Err NotFound, r) | Some h \<Rightarrow> (Ok h, r))"

definition file_copy :: "'q path_ops \<Rightarrow> 'q \<Rightarrow> 'q \<Rightarrow> ('s file_repo, unit) op" where
  "file_copy P source dest = bindR (copy_guard P source dest) (put_copy P dest)"

text \<open>\<^verbatim>\<open>copy_tree\<close> first builds the tree of the destination paths with the handles of the source.\<close>

fun dest_paths :: "'q path_ops \<Rightarrow> 'q \<Rightarrow> ('q \<times> entry_handle) list \<Rightarrow> (entry_handle path_tree, unit) op" where
  "dest_paths P source [] dest_tree = (Ok (), dest_tree)"
| "dest_paths P source ((path, source_handle) # rest) dest_tree =
     bindR (unwrap_option (p_strip_prefix P path source)) (\<lambda>relative_path.
     bindR (tree_insert P (p_join P (p_new P ''dest_rot'') relative_path) source_handle) (\<lambda>_.
     dest_paths P source rest)) dest_tree"

definition build_dest_tree ::
  "'q path_ops \<Rightarrow> 'q \<Rightarrow> entry_handle \<Rightarrow> ('q \<times> entry_handle) list \<Rightarrow> entry_handle path_tree result" where
  "build_dest_tree P source root ws =
    (case bindR (tree_insert P (p_new P ''dest_rot'') root) (\<lambda>_. dest_paths P source ws) path_tree_new of
        (Ok _, t) \<Rightarrow> Ok t
      | (Err e, _) \<Rightarrow> Err e
      | (Panic p, _) \<Rightarrow> Panic p
      | (Diverge, _) \<Rightarrow> Diverge)"

definition put_dest :: "'q path_ops \<Rightarrow> 'q \<Rightarrow> 'q \<times> entry_handle \<Rightarrow> ('s file_repo, unit) op" where
  "put_dest P dest x =
     bindR (copy_entry_handle (snd x)) (\<lambda>dest_handle.
     bindR (unwrap_option (p_strip_prefix P (fst x) (p_new P ''dest_rot''))) (\<lambda>relative_path.
     bindR (on_tree (tree_insert P (p_join P dest relative_path) dest_handle)) (\<lambda>_. ret ())))"

definition copy_tree :: "'q path_ops \<Rightarrow> 'q \<Rightarrow> 'q \<Rightarrow> ('s file_repo, unit) op" where
  "copy_tree P source dest =
     bindR (copy_guard P source dest) (\<lambda>source_root_handle.
     bindR (put_copy P dest source_root_handle) (\<lambda>_ r.
       bindR (unwrap_option (tree_walk P source (sr_state r))) (\<lambda>ws.
       bindR (lift_result (build_dest_tree P source source_root_handle ws)) (\<lambda>dest_tree.
       bindR (unwrap_option (fst (tree_drain P (p_new P ''dest_rot'') dest_tree))) (\<lambda>xs.
       forM xs (put_dest P dest)))) r))"

section \<open>Listing\<close>

definition listed :: "'q path_ops \<Rightarrow> 'q \<Rightarrow> ('s file_repo, unit) op" where
  "listed P par r =
    (if p_eq P par (EMPTY_PATH P) then (Ok (), r)
     else case tree_get P par (sr_state r) of
        None \<Rightarrow> (Err NotFound, r)
      | Some h \<Rightarrow> (case eh_type h of EDirectory \<Rightarrow> (Ok (), r) | _ \<Rightarrow> (Err NotDirectory, r)))"

definition file_list :: "'q path_ops \<Rightarrow> 'q \<Rightarrow> ('s file_repo, 'q list) op" where
  "file_list P par = bindR (listed P par) (\<lambda>_ r.
     bindR (unwrap_option (tree_list P par (sr_state r))) (\<lambda>xs. ret (map fst xs)) r)"

definition file_walk :: "'q path_ops \<Rightarrow> 'q \<Rightarrow> ('s file_repo, 'q list) op" where
  "file_walk P par = bindR (listed P par) (\<lambda>_ r.
     bindR (unwrap_option (tree_walk P par (sr_state r))) (\<lambda>xs. ret (map fst xs)) r)"

section \<open>The whole repository\<close>

definition file_verify :: "('s, 'z) env \<Rightarrow> 'q path_ops \<Rightarrow> ('s file_repo, 'q list) op" where
  "file_verify E P = bindR (state_verify E) (\<lambda>corrupt_keys r.
     bindR (unwrap_option (tree_walk P (EMPTY_PATH P) (sr_state r))) (\<lambda>xs.
     ret (map fst (filter (\<lambda>(_, h). eh_entry h \<in> set corrupt_keys \<or>
       (case eh_type h of EFile oid \<Rightarrow> oid \<in> set corrupt_keys | _ \<Rightarrow> False)) xs))) r)"

definition file_clear_instance :: "entry_handle path_tree state_codec \<Rightarrow> ('s file_repo, unit) op" where
  "file_clear_instance C = state_clear_instance C"

definition file_change_password :: "ext \<Rightarrow> bytes \<Rightarrow> ('s file_repo, unit) op" where
  "file_change_password X p = state_change_password X p"

definition file_instance :: "'s file_repo \<Rightarrow> uuid" where
  "file_instance r = state_instance r"

definition file_info :: "'s file_repo \<Rightarrow> repo_info" where
  "file_info r = state_info r"

definition file_commit ::
  "('s, 'z) env \<Rightarrow> repo_key map_codec \<Rightarrow> entry_handle path_tree state_codec \<Rightarrow> ('s file_repo, unit) op" where
  "file_commit E M C = state_commit E M C"

definition file_rollback ::
  "('s, 'z) env \<Rightarrow> repo_key map_codec \<Rightarrow> entry_handle path_tree state_codec \<Rightarrow> ('s file_repo, unit) op" where
  "file_rollback E M C = state_rollback E M C"

definition file_clean :: "('s, 'z) env \<Rightarrow> ('s file_repo, unit) op" where
  "file_clean E = state_clean E"

definition file_savepoint ::
  "('s, 'z) env \<Rightarrow> repo_key map_codec \<Rightarrow> entry_handle path_tree state_codec \<Rightarrow> ('s file_repo, savepoint) op" where
  "file_savepoint E M C = state_savepoint E M C"

definition file_start_restore ::
  "('s, 'z) env \<Rightarrow> repo_key map_codec \<Rightarrow> entry_handle path_tree state_codec \<Rightarrow> savepoint \<Rightarrow>
     ('s file_repo, entry_handle path_tree state_restore) op" where
  "file_start_restore E M C sp = state_start_restore E M C sp"

definition file_finish_restore :: "entry_handle path_tree state_restore \<Rightarrow> ('s file_repo, bool) op" where
  "file_finish_restore k = state_finish_restore k"

end
