(* ===== verification/File_Correct.thy ===== *)
theory File_Correct
  imports File_Repo
begin

text \<open>
  The invariant of a file repository and the map of nodes it represents; what creating, removing and copying
  entries does to them.
\<close>

section \<open>Nodes and objects\<close>

datatype file_node = FileNode bytes bytes | DirectoryNode bytes | SpecialNode bytes

text \<open>The objects of a handle, in the order in which they are removed.\<close>

definition handle_keys :: "entry_handle \<Rightarrow> object_key list" where
  "handle_keys h = (case eh_type h of EFile oid \<Rightarrow> [oid] | _ \<Rightarrow> []) @ [eh_entry h]"

definition node_view :: "(u64 \<rightharpoonup> bytes) \<Rightarrow> entry_handle \<Rightarrow> file_node" where
  "node_view M h = (let e = the (M (ok_object (eh_entry h))) in case eh_type h of
      EFile oid \<Rightarrow> FileNode e (the (M (ok_object oid)))
    | EDirectory \<Rightarrow> DirectoryNode e
    | ESpecial \<Rightarrow> SpecialNode e)"

definition file_map :: "('s \<Rightarrow> uuid \<rightharpoonup> bytes) \<Rightarrow> ext \<Rightarrow> 's file_repo \<Rightarrow> string list \<rightharpoonup> file_node" where
  "file_map bl X r p = map_option (node_view (state_map bl X r)) (tree_map (sr_state r) p)"

lemma node_view_cong:
  "(\<And>key. key \<in> set (handle_keys h) \<Longrightarrow> M' (ok_object key) = M (ok_object key)) \<Longrightarrow> node_view M' h = node_view M h"
  by (cases "eh_type h") (auto simp: node_view_def handle_keys_def)

text \<open>The places of objects in the tree.\<close>

datatype file_place = EntryAt (place_path: "string list") | DataAt (place_path: "string list")

fun file_slot :: "(string list \<rightharpoonup> entry_handle) \<Rightarrow> file_place \<rightharpoonup> object_key" where
  "file_slot m (EntryAt p) = map_option eh_entry (m p)"
| "file_slot m (DataAt p) = Option.bind (m p) (\<lambda>h. case eh_type h of EFile oid \<Rightarrow> Some oid | _ \<Rightarrow> None)"

lemma file_slot_local: "m (place_path a) = m' (place_path a) \<Longrightarrow> file_slot m a = file_slot m' a"
  by (cases a) simp_all

lemma file_slot_keys:
  assumes "file_slot m a = Some key"
  obtains h where "m (place_path a) = Some h" "key \<in> set (handle_keys h)"
  using assms that by (cases a) (auto simp: handle_keys_def split: Option.bind_splits entry_type.splits)

lemma file_slot_of_keys:
  assumes "m p = Some h" "key \<in> set (handle_keys h)"
  obtains a where "place_path a = p" "file_slot m a = Some key"
proof (cases "key = eh_entry h")
  case True
  with assms that [of "EntryAt p"] show ?thesis by simp
next
  case False
  with assms that [of "DataAt p"] show ?thesis by (cases "eh_type h") (auto simp: handle_keys_def)
qed

lemma file_slot_ran: "ran (file_slot m) = (\<Union>h \<in> ran m. set (handle_keys h))"
proof (intro set_eqI iffI)
  fix key assume "key \<in> ran (file_slot m)"
  then obtain a where "file_slot m a = Some key" by (auto simp: ran_def)
  then show "key \<in> (\<Union>h \<in> ran m. set (handle_keys h))" by (elim file_slot_keys) (auto intro: ranI)
next
  fix key assume "key \<in> (\<Union>h \<in> ran m. set (handle_keys h))"
  then obtain p h where "m p = Some h" "key \<in> set (handle_keys h)" by (auto simp: ran_def)
  then show "key \<in> ran (file_slot m)" by (elim file_slot_of_keys) (auto intro: ranI)
qed

lemma file_slot_inj:
  assumes "file_slot m a = Some k" "file_slot m b = Some k'" "place_path a = place_path b"
    "m (place_path b) = Some h" "distinct (map ok_object (handle_keys h))" "ok_object k = ok_object k'"
  shows "a = b"
  using assms by (cases a; cases b) (auto simp: handle_keys_def split: entry_type.splits)

section \<open>The invariant\<close>

text \<open>
  Every entry is at the top level or in a directory, and every place has an object of its own.  Objects of the
  repository that no place has are orphans: nothing removes them.
\<close>

definition in_directory :: "(string list \<rightharpoonup> entry_handle) \<Rightarrow> string list \<Rightarrow> bool" where
  "in_directory m p \<longleftrightarrow> butlast p = [] \<or> (\<exists>h. m (butlast p) = Some h \<and> eh_type h = EDirectory)"

definition file_inv ::
  "('s \<Rightarrow> uuid \<rightharpoonup> bytes) \<Rightarrow> ext \<Rightarrow> bytes set \<Rightarrow> nat \<Rightarrow> (chunking \<Rightarrow> bool) \<Rightarrow> 's file_repo \<Rightarrow> bool" where
  "file_inv bl X S N good r \<longleftrightarrow> state_inv bl X S N good r \<and> tree_wf (sr_state r) \<and>
     (\<forall>p \<in> dom (tree_map (sr_state r)). in_directory (tree_map (sr_state r)) p) \<and>
     index_ok bl X r (file_slot (tree_map (sr_state r)))"

definition orphans :: "('s \<Rightarrow> uuid \<rightharpoonup> bytes) \<Rightarrow> ext \<Rightarrow> 's file_repo \<Rightarrow> u64 set" where
  "orphans bl X r = dom (state_map bl X r) - ok_object ` ran (file_slot (tree_map (sr_state r)))"

lemma file_invD:
  assumes "file_inv bl X S N good r"
  shows "state_inv bl X S N good r" "tree_wf (sr_state r)"
    "\<And>p. tree_map (sr_state r) p \<noteq> None \<Longrightarrow> in_directory (tree_map (sr_state r)) p"
    "index_ok bl X r (file_slot (tree_map (sr_state r)))"
  using assms unfolding file_inv_def by auto

lemma tree_map_Nil [simp]: "tree_map t [] = None"
  by (simp add: tree_map_def)

lemma tree_map_prefix: "tree_map t q \<noteq> None \<Longrightarrow> prefix p q \<Longrightarrow> p \<noteq> [] \<Longrightarrow> tree_map t p \<noteq> None"
  unfolding tree_map_def by (auto simp: prefix_def dest: nodes_map_prefix)

lemma file_map_None: "file_map bl X r p = None \<longleftrightarrow> tree_map (sr_state r) p = None"
  by (simp add: file_map_def)

lemma handle_key_ok:
  assumes "file_inv bl X S N good r" "tree_map (sr_state r) p = Some h" "key \<in> set (handle_keys h)"
  shows "check_key r key" "state_map bl X r (ok_object key) \<noteq> None"
  using file_slot_of_keys [where m = "tree_map (sr_state r)", OF assms(2,3)] index_okD(1) [OF file_invD(4) [OF assms(1)]] by metis+

lemma handle_keys_apart:
  assumes inv: "file_inv bl X S N good r" and h: "tree_map (sr_state r) p = Some h" "tree_map (sr_state r) q = Some h'"
    and k: "key \<in> set (handle_keys h)" "key' \<in> set (handle_keys h')" "ok_object key = ok_object key'"
  shows "p = q"
proof -
  obtain a b where "place_path a = p" "file_slot (tree_map (sr_state r)) a = Some key"
    "place_path b = q" "file_slot (tree_map (sr_state r)) b = Some key'"
    using file_slot_of_keys [where m = "tree_map (sr_state r)", OF h(1) k(1)]
      file_slot_of_keys [where m = "tree_map (sr_state r)", OF h(2) k(2)] by metis
  with index_okD(2) [OF file_invD(4) [OF inv]] k(3) show ?thesis by metis
qed

lemma handle_keys_distinct:
  assumes inv: "file_inv bl X S N good r" and h: "tree_map (sr_state r) p = Some h"
  shows "distinct (map ok_object (handle_keys h))"
proof (cases "eh_type h")
  case (EFile oid)
  then show ?thesis
    using h index_okD(2) [OF file_invD(4) [OF inv], of "EntryAt p" "eh_entry h" "DataAt p" oid]
    by (auto simp: handle_keys_def)
qed (simp_all add: handle_keys_def)

section \<open>Adding and replacing a node\<close>

text \<open>The objects of a handle are new.\<close>

definition adds :: "('s \<Rightarrow> uuid \<rightharpoonup> bytes) \<Rightarrow> ext \<Rightarrow> 's file_repo \<Rightarrow> 's file_repo \<Rightarrow> entry_handle \<Rightarrow> bool" where
  "adds bl X r r' h \<longleftrightarrow> (\<forall>key \<in> set (handle_keys h). check_key r key \<and> state_map bl X r (ok_object key) = None) \<and>
     distinct (map ok_object (handle_keys h)) \<and> state_map bl X r \<subseteq>\<^sub>m state_map bl X r' \<and>
     dom (state_map bl X r') = dom (state_map bl X r) \<union> ok_object ` set (handle_keys h)"

lemma graft_leaf: "(\<And>q. q \<noteq> [] \<Longrightarrow> m (p @ q) = None) \<Longrightarrow> graft p v m = m(p \<mapsto> v)"
  by (auto simp: graft_def prune_def fun_eq_iff prefix_def) metis

lemma in_directory_parent: "in_directory m p \<Longrightarrow> parent_in m p"
  by (auto simp: in_directory_def parent_in_def)

lemma in_directory_upd:
  assumes "in_directory m q" "\<And>x. x \<noteq> [] \<Longrightarrow> m (p @ x) = None" "m q \<noteq> None" "q \<noteq> []"
  shows "in_directory (m(p \<mapsto> h)) q"
proof -
  have "butlast q \<noteq> p"
  proof
    assume "butlast q = p"
    then have "q = p @ [last q]" using assms(4) append_butlast_last_id by metis
    with assms(2) [of "[last q]"] assms(3) show False by simp
  qed
  with assms(1) show ?thesis by (auto simp: in_directory_def)
qed

lemma put_index:
  assumes ok: "index_ok bl X r (file_slot m)" and a: "adds bl X r r' h" and c: "check_key r' = check_key r"
  shows "index_ok bl X r' (file_slot (m(p \<mapsto> h)))"
proof -
  note I = index_okD [OF ok]
  let ?f = "file_slot (m(p \<mapsto> h))"
  have A: "key \<in> set (handle_keys h) \<Longrightarrow> check_key r key \<and> state_map bl X r (ok_object key) = None" for key
    using a by (auto simp: adds_def)
  have dom: "dom (state_map bl X r') = dom (state_map bl X r) \<union> ok_object ` set (handle_keys h)"
    using a by (simp add: adds_def)
  have old: "file_slot m a = Some key" if "?f a = Some key" "place_path a \<noteq> p" for a key
    using that file_slot_local [of "m(p \<mapsto> h)" a m] by simp
  have new: "key \<in> set (handle_keys h)" if "?f a = Some key" "place_path a = p" for a key
    using that(1) by (rule file_slot_keys) (use that(2) in auto)
  show ?thesis
    unfolding index_ok_def
  proof (intro conjI allI impI)
    fix a key assume f: "?f a = Some key"
    have "ok_object key \<in> dom (state_map bl X r')"
      by (cases "place_path a = p") (use new [OF f] old [OF f] I(1) [of a key] dom in auto)
    then show "state_map bl X r' (ok_object key) \<noteq> None" by auto
    show "check_key r' key"
      by (cases "place_path a = p") (use new [OF f] old [OF f] I(1) [of a key] A [of key] c in auto)
  next
    fix a b key key' assume f: "?f a = Some key" "?f b = Some key'" "ok_object key = ok_object key'"
    show "a = b"
    proof (cases "place_path a = p"; cases "place_path b = p")
      assume p: "place_path a = p" "place_path b = p"
      show ?thesis using a by (intro file_slot_inj [where h = h, OF f(1,2) _ _ _ f(3)]) (simp_all add: p adds_def)
    next
      assume p: "place_path a = p" "place_path b \<noteq> p"
      with A [OF new [OF f(1)]] I(1) [OF old [OF f(2)]] f(3) show ?thesis by simp
    next
      assume p: "place_path a \<noteq> p" "place_path b = p"
      with A [OF new [OF f(2)]] I(1) [OF old [OF f(1)]] f(3) show ?thesis by simp
    next
      assume p: "place_path a \<noteq> p" "place_path b \<noteq> p"
      with I(2) [OF old [OF f(1)] old [OF f(2)] f(3)] show ?thesis by simp
    qed
  qed
qed

lemma orphan_algebra:
  "D' = D \<union> H \<Longrightarrow> H \<inter> D = {} \<Longrightarrow> R' = H \<union> Q \<Longrightarrow> R = A \<union> Q \<Longrightarrow> A \<inter> Q = {} \<Longrightarrow> R \<subseteq> D \<Longrightarrow> D' - R' = (D - R) \<union> A"
  by blast

lemma put_directories:
  assumes inv: "file_inv bl X S N good r" and p: "p \<noteq> []" "in_directory (tree_map (sr_state r)) p"
    and leaf: "\<And>q. q \<noteq> [] \<Longrightarrow> tree_map (sr_state r) (p @ q) = None" and q: "q \<in> dom ((tree_map (sr_state r))(p \<mapsto> h))"
  shows "in_directory ((tree_map (sr_state r))(p \<mapsto> h)) q"
proof (cases "q = p")
  case True
  then have "butlast q \<noteq> p" using p(1) by (metis length_butlast diff_less length_greater_0_conv less_irrefl zero_less_one)
  with True p(2) show ?thesis by (auto simp: in_directory_def)
next
  case False
  with q have q': "tree_map (sr_state r) q \<noteq> None" "q \<noteq> []" using file_invD(3) [OF inv] by (auto simp: domIff)
  show ?thesis by (rule in_directory_upd [OF file_invD(3) [OF inv q'(1)] leaf q']) simp
qed

text \<open>The objects of a node that is replaced are left over.\<close>

lemma put_orphans:
  assumes inv: "file_inv bl X S N good r" and a: "adds bl X r r' h" and t': "tree_map (sr_state r'') = (tree_map (sr_state r))(p \<mapsto> h)"
    and m: "state_map bl X r'' = state_map bl X r'"
  shows "orphans bl X r'' = orphans bl X r \<union> (case tree_map (sr_state r) p of None \<Rightarrow> {} | Some h' \<Rightarrow> ok_object ` set (handle_keys h'))"
    (is "_ = _ \<union> ?old")
proof -
  let ?m = "tree_map (sr_state r)" and ?R = "\<lambda>m. ok_object ` (\<Union>h \<in> ran m. set (handle_keys h))"
  let ?D = "dom (state_map bl X r)" and ?H = "ok_object ` set (handle_keys h)"
  have D: "dom (state_map bl X r') = ?D \<union> ?H" "?H \<inter> ?D = {}" using a by (auto simp: adds_def)
  have R: "?R (?m(p \<mapsto> h)) = ?H \<union> ?R (?m(p := None))" by (auto simp: ran_def)
  have O: "?R ?m = ?old \<union> ?R (?m(p := None))"
  proof (cases "?m p")
    case None
    then show ?thesis by (simp add: fun_upd_idem)
  next
    case (Some h')
    then have "ran ?m = insert h' (ran (?m(p := None)))" by (auto simp: ran_def) (metis option.inject)
    with Some show ?thesis by auto
  qed
  have A: "?old \<inter> ?R (?m(p := None)) = {}"
  proof (cases "?m p")
    case (Some h')
    have False if "key \<in> set (handle_keys h')" "?m q = Some h2" "q \<noteq> p" "key2 \<in> set (handle_keys h2)"
      "ok_object key = ok_object key2" for key q h2 key2
      using handle_keys_apart [OF inv Some that(2,1,4,5)] that(3) by simp
    then show ?thesis using Some by (fastforce simp: ran_def split: if_splits)
  qed simp
  have "?R ?m \<subseteq> ?D" using handle_key_ok(2) [OF inv] by (auto simp: ran_def)
  from orphan_algebra [OF D R O A this] show ?thesis unfolding orphans_def file_slot_ran by (simp add: t' m)
qed

lemma put_node:
  assumes P: "rel_path P" and inv: "file_inv bl X S N good r" and s: "state_inv bl X S N good r'" "state_step bl K r r'"
    and a: "adds bl X r r' h" "sr_state r' = sr_state r"
    and p: "p_iter P path = p" "p \<noteq> []" "in_directory (tree_map (sr_state r)) p"
    and leaf: "\<And>q. q \<noteq> [] \<Longrightarrow> tree_map (sr_state r) (p @ q) = None"
  shows "\<exists>x r''. on_tree (tree_insert P path h) r' = (Ok x, r'') \<and> r'' = r'\<lparr>sr_state := sr_state r''\<rparr> \<and> file_inv bl X S N good r'' \<and>
    tree_map (sr_state r'') = (tree_map (sr_state r))(p \<mapsto> h) \<and>
    file_map bl X r'' = (file_map bl X r)(p \<mapsto> node_view (state_map bl X r') h) \<and>
    orphans bl X r'' = orphans bl X r \<union> (case tree_map (sr_state r) p of None \<Rightarrow> {} | Some h' \<Rightarrow> ok_object ` set (handle_keys h'))"
proof -
  note I = file_invD [OF inv]
  let ?m = "tree_map (sr_state r)"
  obtain t' where t': "tree_insert P path h (sr_state r) = (Ok (?m p), t')" "tree_wf t'" "tree_map t' = ?m(p \<mapsto> h)"
    using rel_path.tree_insert_ok [OF P I(2), of path h] p in_directory_parent [OF p(3)] graft_leaf [where m = ?m, OF leaf] by auto
  let ?r = "r'\<lparr>sr_state := t'\<rparr>"
  have c: "check_key r' = check_key r" using state_step_check [OF s(2)] by simp
  have keep: "state_map bl X r' i = state_map bl X r i" if "state_map bl X r i \<noteq> None" for i
    using a(1) that unfolding adds_def map_le_def by (metis domIff)
  have "in_directory (?m(p \<mapsto> h)) q" if "q \<in> dom (?m(p \<mapsto> h))" for q
    using put_directories [OF inv p(2,3) leaf that] .
  then have inv': "file_inv bl X S N good ?r" using s(1) t'(2,3) put_index [OF I(4) a(1) c, of p] by (simp add: file_inv_def)
  have "file_map bl X ?r q = ((file_map bl X r)(p \<mapsto> node_view (state_map bl X r') h)) q" for q
  proof (cases "q = p \<or> ?m q = None")
    case True
    then show ?thesis by (auto simp: file_map_def t'(3))
  next
    case False
    then obtain h' where h': "?m q = Some h'" "q \<noteq> p" by auto
    have "node_view (state_map bl X r') h' = node_view (state_map bl X r) h'"
      by (rule node_view_cong) (use keep handle_key_ok [OF inv h'(1)] in simp)
    with h' show ?thesis by (simp add: file_map_def t'(3))
  qed
  moreover have "orphans bl X ?r = orphans bl X r \<union> (case ?m p of None \<Rightarrow> {} | Some h' \<Rightarrow> ok_object ` set (handle_keys h'))"
    by (rule put_orphans [OF inv a(1)]) (simp_all add: t'(3))
  moreover have "on_tree (tree_insert P path h) r' = (Ok (?m p), ?r)" using t'(1) a(2) by (simp add: on_tree_def)
  ultimately show ?thesis using inv' t'(3) by (intro exI [of _ "?m p"] exI [of _ ?r]) (simp add: fun_eq_iff)
qed

lemma ids_left_Suc: "ids_left (Suc n) t \<Longrightarrow> ids_left n t"
  by (simp add: ids_left_def)

section \<open>Copying a handle\<close>

lemma adds_one:
  assumes "state_map bl X r' = (state_map bl X r)(i \<mapsto> v)" "state_map bl X r i = None" "ty = EDirectory \<or> ty = ESpecial"
  shows "adds bl X r r' \<lparr>eh_entry = new_id r i, eh_type = ty\<rparr>"
  using assms by (auto simp: adds_def handle_keys_def map_le_def)

lemma adds_two:
  assumes "state_map bl X r' = (state_map bl X r)(i \<mapsto> v, j \<mapsto> w)" "state_map bl X r i = None"
    "state_map bl X r j = None" "i \<noteq> j"
  shows "adds bl X r r' \<lparr>eh_entry = new_id r i, eh_type = EFile (new_id r j)\<rparr>"
  using assms by (auto simp: adds_def handle_keys_def map_le_def)

lemma copy_handle_ok:
  assumes inv: "state_inv bl X S N good r" and left: "ids_left (Suc (Suc m)) (sr_ids r)" "ids_left (Suc (Suc n)) (handle_table (sr_repo r))"
    and h: "\<And>key. key \<in> set (handle_keys h) \<Longrightarrow> check_key r key \<and> state_map bl X r (ok_object key) \<noteq> None"
  shows "\<exists>h' r' K. copy_entry_handle h r = (Ok h', r') \<and> state_inv bl X S N good r' \<and> state_step bl K r r' \<and>
    adds bl X r r' h' \<and> node_view (state_map bl X r') h' = node_view (state_map bl X r) h \<and> sr_state r' = sr_state r \<and>
    (eh_type h' = EDirectory \<longleftrightarrow> eh_type h = EDirectory) \<and> length (handle_keys h') = length (handle_keys h) \<and>
    rng (rstate (sr_repo r')) = rng (rstate (sr_repo r)) \<and> ids_left m (sr_ids r') \<and> ids_left n (handle_table (sr_repo r'))"
proof -
  obtain v where v: "check_key r (eh_entry h)" "state_map bl X r (ok_object (eh_entry h)) = Some v"
    using h [of "eh_entry h"] by (auto simp: handle_keys_def)
  obtain i r1 where r1: "state_copy (eh_entry h) r = (Ok (Some (new_id r i)), r1)" "state_map bl X r i = None"
    "state_inv bl X S N good r1" "state_step bl {KObject i} r r1" "state_map bl X r1 = (state_map bl X r)(i \<mapsto> v)"
    "sr_state r1 = sr_state r" "rng (rstate (sr_repo r1)) = rng (rstate (sr_repo r))"
    "ids_left (Suc m) (sr_ids r1)" "ids_left (Suc n) (handle_table (sr_repo r1))"
    using state_copy_ok [OF inv v left] by blast
  show ?thesis
  proof (cases "eh_type h")
    case (EFile oid)
    then obtain w where w: "check_key r oid" "state_map bl X r (ok_object oid) = Some w" using h [of oid] by (auto simp: handle_keys_def)
    have w1: "check_key r1 oid" "state_map bl X r1 (ok_object oid) = Some w"
      using w r1(2,5) state_step_check [OF r1(4)] by auto
    obtain j r2 where r2: "state_copy oid r1 = (Ok (Some (new_id r1 j)), r2)" "state_map bl X r1 j = None"
      "state_inv bl X S N good r2" "state_step bl {KObject j} r1 r2" "state_map bl X r2 = (state_map bl X r1)(j \<mapsto> w)"
      "sr_state r2 = sr_state r1" "rng (rstate (sr_repo r2)) = rng (rstate (sr_repo r1))"
      "ids_left m (sr_ids r2)" "ids_left n (handle_table (sr_repo r2))"
      using state_copy_ok [OF r1(3) w1 r1(8,9)] by blast
    let ?h = "\<lparr>eh_entry = new_id r i, eh_type = EFile (new_id r j)\<rparr>"
    have ij: "i \<noteq> j" "state_map bl X r j = None" using r2(2) r1(5) by (auto split: if_splits)
    have new: "new_id r1 = new_id r" using state_step_check [OF r1(4)] by simp
    have run: "copy_entry_handle h r = (Ok ?h, r2)"
      using r1(1) r2(1) new by (simp add: copy_entry_handle_def EFile bindR_def unwrap_option_def)
    have "adds bl X r r2 ?h" using adds_two [of bl X r2 r i v j w] r1(2,5) r2(5) ij by simp
    moreover have "node_view (state_map bl X r2) ?h = node_view (state_map bl X r) h"
      using v w r1(5) r2(5) ij by (simp add: node_view_def EFile)
    moreover note state_step_trans [OF r1(4) r2(4)]
    ultimately show ?thesis using run r1(6,7) r2(3,6-9)
      by (intro exI [of _ ?h] exI [of _ r2] exI [of _ "{KObject i} \<union> {KObject j}"]) (simp add: EFile handle_keys_def)
  next
    case EDirectory
    let ?h = "\<lparr>eh_entry = new_id r i, eh_type = EDirectory\<rparr>"
    have "copy_entry_handle h r = (Ok ?h, r1)" using r1(1) by (simp add: copy_entry_handle_def EDirectory bindR_def unwrap_option_def)
    moreover have "node_view (state_map bl X r1) ?h = node_view (state_map bl X r) h" using v r1(5) by (simp add: node_view_def EDirectory)
    ultimately show ?thesis using adds_one [OF r1(5,2)] r1(3,4,6-9) ids_left_Suc
      by (intro exI [of _ ?h] exI [of _ r1] exI [of _ "{KObject i}"]) (simp add: EDirectory handle_keys_def)
  next
    case ESpecial
    let ?h = "\<lparr>eh_entry = new_id r i, eh_type = ESpecial\<rparr>"
    have "copy_entry_handle h r = (Ok ?h, r1)" using r1(1) by (simp add: copy_entry_handle_def ESpecial bindR_def unwrap_option_def)
    moreover have "node_view (state_map bl X r1) ?h = node_view (state_map bl X r) h" using v r1(5) by (simp add: node_view_def ESpecial)
    ultimately show ?thesis using adds_one [OF r1(5,2)] r1(3,4,6-9) ids_left_Suc
      by (intro exI [of _ ?h] exI [of _ r1] exI [of _ "{KObject i}"]) (simp add: ESpecial handle_keys_def)
  qed
qed

section \<open>Guards\<close>

context rel_path
begin

lemma is_empty_path: "p_eq P path (EMPTY_PATH P) \<longleftrightarrow> p_iter P path = []"
  by (simp add: p_eq_def iter_empty)

lemma file_exists_iff: "file_exists P r path \<longleftrightarrow> tree_map (sr_state r) (p_iter P path) \<noteq> None"
  by (simp add: file_exists_def tree_contains_def tree_get_ok)

lemma has_parent_iff:
  assumes "p_iter P path \<noteq> []"
  shows "has_parent P r path \<longleftrightarrow> in_directory (tree_map (sr_state r)) (p_iter P path)"
proof -
  obtain q where q: "p_parent P path = Some q" "p_iter P q = butlast (p_iter P path)" using parent_some [OF assms] by blast
  show ?thesis
    by (auto simp: has_parent_def q is_empty_path tree_get_ok in_directory_def split: option.split entry_type.split)
qed

end

text \<open>What creating entries needs: IDs, and room for the new objects.\<close>

definition may_store :: "bytes set \<Rightarrow> nat \<Rightarrow> 's file_repo \<Rightarrow> bytes \<Rightarrow> bool" where
  "may_store S N r v \<longleftrightarrow> v \<in> S \<and> length v < 2 ^ 63 \<and> rng (rstate (sr_repo r)) + 2 * (length v + 6) \<le> N"

definition may_add :: "nat \<Rightarrow> 's file_repo \<Rightarrow> bool" where
  "may_add n r \<longleftrightarrow> ids_left n (sr_ids r) \<and> ids_left n (handle_table (sr_repo r))"

fun new_node :: "'p file_type \<Rightarrow> bytes \<Rightarrow> file_node" where
  "new_node TFile v = FileNode v []"
| "new_node TDirectory v = DirectoryNode v"
| "new_node (TSpecial x) v = SpecialNode v"

section \<open>Creating an entry\<close>

lemma leaf_of_absent: "tree_map t p = None \<Longrightarrow> p \<noteq> [] \<Longrightarrow> tree_map t (p @ q) = None"
  using tree_map_prefix [of t "p @ q" p] by fastforce

lemma orphan_new: "state_map bl X r i = None \<Longrightarrow> i \<notin> orphans bl X r"
  by (auto simp: orphans_def)

lemma file_inv_unchanged:
  assumes inv: "file_inv bl X S N good r" and s: "state_inv bl X S N good r'" "state_step bl K r r'"
    and m: "state_map bl X r' = state_map bl X r" "sr_state r' = sr_state r"
  shows "file_inv bl X S N good r'" "file_map bl X r' = file_map bl X r" "orphans bl X r' = orphans bl X r"
proof -
  have c: "check_key r' = check_key r" using state_step_check [OF s(2)] by simp
  show "file_inv bl X S N good r'" using inv s(1) m index_same(1) [OF file_invD(4) [OF inv] c m(1)] by (simp add: file_inv_def)
  show "file_map bl X r' = file_map bl X r" "orphans bl X r' = orphans bl X r"
    using m by (simp_all add: file_map_def [abs_def] orphans_def)
qed

context key_env
begin

lemma new_type_ok:
  fixes r :: "'s file_repo"
  assumes inv: "state_inv blocks X S N good r" and left: "may_add (Suc n) r"
  shows "\<exists>ty r' K. new_entry_type Z fty r = (Ok ty, r') \<and> state_inv blocks X S N good r' \<and> state_step blocks K r r' \<and>
    sr_state r' = sr_state r \<and> rng (rstate (sr_repo r')) = rng (rstate (sr_repo r)) \<and> may_add n r' \<and>
    (case fty of TFile \<Rightarrow> \<exists>j. ty = EFile (new_id r j) \<and> state_map blocks X r j = None \<and>
        state_map blocks X r' = (state_map blocks X r)(j \<mapsto> [])
      | TDirectory \<Rightarrow> ty = EDirectory \<and> state_map blocks X r' = state_map blocks X r
      | TSpecial _ \<Rightarrow> ty = ESpecial \<and> state_map blocks X r' = state_map blocks X r)"
proof (cases fty)
  case TFile
  obtain j r' where r': "state_create Z r = (Ok (new_id r j), r')" "state_map blocks X r j = None" "state_inv blocks X S N good r'"
    "state_step blocks {KObject j} r r'" "state_map blocks X r' = (state_map blocks X r)(j \<mapsto> [])" "sr_state r' = sr_state r"
    "rng (rstate (sr_repo r')) = rng (rstate (sr_repo r))" "ids_left n (sr_ids r')" "ids_left n (handle_table (sr_repo r'))"
    using state_create_ok [OF inv, of n n Z] left by (auto simp: may_add_def)
  then show ?thesis by (intro exI [of _ "EFile (new_id r j)"] exI [of _ r'] exI [of _ "{KObject j}"])
      (auto simp: new_entry_type_def TFile bindR_def may_add_def)
qed (use inv left in \<open>auto simp: new_entry_type_def may_add_def ids_left_Suc intro!: exI [of _ "{}"]\<close>)

lemma store_entry_ok:
  fixes r :: "'s file_repo"
  assumes inv: "state_inv blocks X S N good r" and left: "may_add (Suc n) r" and v: "may_store S N r v"
  shows "\<exists>i r1 r2. state_create (ev_zpaq E) r = (Ok (new_id r i), r1) \<and> state_map blocks X r i = None \<and>
    state_use (ev_zpaq E) (new_id r i) (view_serialize (ev_store E) X (dyn_ops (ev_zpaq E)) (Some v)) r1 = (Ok (), r2) \<and>
    state_inv blocks X S N good r2 \<and> state_step blocks {KObject i} r r2 \<and> state_map blocks X r2 = (state_map blocks X r)(i \<mapsto> v) \<and>
    sr_state r2 = sr_state r \<and> may_add n r2 \<and> rng (rstate (sr_repo r2)) \<le> rng (rstate (sr_repo r)) + 2 * (length v + 6)"
proof -
  obtain i r1 where r1: "state_create (ev_zpaq E) r = (Ok (new_id r i), r1)" "state_map blocks X r i = None"
    "state_inv blocks X S N good r1" "state_step blocks {KObject i} r r1"
    "state_map blocks X r1 = (state_map blocks X r)(i \<mapsto> [])" "sr_state r1 = sr_state r"
    "rng (rstate (sr_repo r1)) = rng (rstate (sr_repo r))" "ids_left n (sr_ids r1)" "ids_left n (handle_table (sr_repo r1))"
    using state_create_ok [OF inv, of n n "ev_zpaq E"] left by (auto simp: may_add_def)
  have key: "check_key r1 (new_id r i)" using state_step_check [OF r1(4)] by simp
  have "room_for N (rstate (sr_repo r1)) [] v" using v r1(7) by (simp add: may_store_def overwrite_def)
  moreover have "state_map blocks X r1 (ok_object (new_id r i)) = Some []" using r1(5) by simp
  ultimately obtain r2 where
    r2: "state_use (ev_zpaq E) (new_id r i) (view_serialize (ev_store E) X (dyn_ops (ev_zpaq E)) (Some v)) r1 = (Ok (), r2)"
    "state_inv blocks X S N good r2" "state_step blocks {KObject i} r1 r2" "state_map blocks X r2 = (state_map blocks X r)(i \<mapsto> v)"
    "sr_state r2 = sr_state r" "may_add n r2" "rng (rstate (sr_repo r2)) \<le> rng (rstate (sr_repo r)) + 2 * (length v + 6)"
    using state_serialize_ok [OF r1(3) key] r1(5-9) by (fastforce simp: may_add_def)
  with r1(1,2) state_step_trans [OF r1(4) r2(3)] show ?thesis by auto
qed

lemma file_create_ok:
  fixes r :: "'s file_repo"
  assumes P: "rel_path P" and inv: "file_inv blocks X S N good r" and left: "may_add (Suc (Suc n)) r" and v: "may_store S N r v"
    and e: "to_vec_entry K e = Some v" and p: "p_iter P path = p" "p \<noteq> []" "tree_map (sr_state r) p = None"
      "in_directory (tree_map (sr_state r)) p"
  shows "\<exists>h r'. file_create E P K path e r = (Ok (), r') \<and> file_inv blocks X S N good r' \<and>
    file_map blocks X r' = (file_map blocks X r)(p \<mapsto> new_node (file_type e) v) \<and> orphans blocks X r' = orphans blocks X r \<and>
    tree_map (sr_state r') = (tree_map (sr_state r))(p \<mapsto> h) \<and> (eh_type h = EDirectory \<longleftrightarrow> file_type e = TDirectory) \<and>
    may_add n r' \<and> rng (rstate (sr_repo r')) \<le> rng (rstate (sr_repo r)) + 2 * (length v + 6)"
proof -
  note I = file_invD [OF inv]
  obtain i r1 r2 where r1: "state_create (ev_zpaq E) r = (Ok (new_id r i), r1)" "state_map blocks X r i = None"
    "state_use (ev_zpaq E) (new_id r i) (view_serialize (ev_store E) X (dyn_ops (ev_zpaq E)) (Some v)) r1 = (Ok (), r2)"
    "state_inv blocks X S N good r2" "state_step blocks {KObject i} r r2" "state_map blocks X r2 = (state_map blocks X r)(i \<mapsto> v)"
    "sr_state r2 = sr_state r" "may_add (Suc n) r2" "rng (rstate (sr_repo r2)) \<le> rng (rstate (sr_repo r)) + 2 * (length v + 6)"
    using store_entry_ok [OF I(1) left v] by blast
  obtain ty r3 L where r3: "new_entry_type (ev_zpaq E) (file_type e) r2 = (Ok ty, r3)" "state_inv blocks X S N good r3"
    "state_step blocks L r2 r3" "sr_state r3 = sr_state r2" "rng (rstate (sr_repo r3)) = rng (rstate (sr_repo r2))" "may_add n r3"
    "case file_type e of TFile \<Rightarrow> \<exists>j. ty = EFile (new_id r2 j) \<and> state_map blocks X r2 j = None \<and>
        state_map blocks X r3 = (state_map blocks X r2)(j \<mapsto> [])
      | TDirectory \<Rightarrow> ty = EDirectory \<and> state_map blocks X r3 = state_map blocks X r2
      | TSpecial _ \<Rightarrow> ty = ESpecial \<and> state_map blocks X r3 = state_map blocks X r2"
    using new_type_ok [OF r1(4,8), of "ev_zpaq E" "file_type e"] by blast
  let ?h = "\<lparr>eh_entry = new_id r i, eh_type = ty\<rparr>"
  have new: "new_id r2 = new_id r" using state_step_check [OF r1(5)] by simp
  have h: "adds blocks X r r3 ?h \<and> node_view (state_map blocks X r3) ?h = new_node (file_type e) v \<and>
      (ty = EDirectory \<longleftrightarrow> file_type e = TDirectory)"
  proof (cases "file_type e")
    case TFile
    then obtain j where j: "ty = EFile (new_id r j)" "state_map blocks X r2 j = None" "state_map blocks X r3 = (state_map blocks X r)(i \<mapsto> v, j \<mapsto> [])"
      using r3(7) r1(6) new by auto
    then have ij: "i \<noteq> j" "state_map blocks X r j = None" using r1(6) by (auto split: if_splits)
    from adds_two [OF j(3) r1(2) ij(2,1)] show ?thesis using j ij TFile by (simp add: node_view_def)
  qed (use adds_one [of blocks X r3 r i v ty] r3(7) r1(2,6) in \<open>simp_all add: node_view_def\<close>)
  have step: "state_step blocks ({KObject i} \<union> L) r r3" using state_step_trans [OF r1(5) r3(3)] .
  have st: "sr_state r3 = sr_state r" using r3(4) r1(7) by simp
  from put_node [OF P inv r3(2) step conjunct1 [OF h] st p(1,2,4) leaf_of_absent [OF p(3,2)]]
  obtain x r' where r': "on_tree (tree_insert P path ?h) r3 = (Ok x, r')" "r' = r3\<lparr>sr_state := sr_state r'\<rparr>" "file_inv blocks X S N good r'"
    "tree_map (sr_state r') = (tree_map (sr_state r))(p \<mapsto> ?h)"
    "file_map blocks X r' = (file_map blocks X r)(p \<mapsto> new_node (file_type e) v)" "orphans blocks X r' = orphans blocks X r"
    using h p(3) by auto
  have "file_create E P K path e r = (Ok (), r')"
    using p e r1(1,3) r3(1) r'(1) by (simp add: file_create_def rel_path.is_empty_path [OF P] rel_path.file_exists_iff [OF P]
      rel_path.has_parent_iff [OF P] bindR_def)
  moreover have "may_add n r'" "rng (rstate (sr_repo r')) = rng (rstate (sr_repo r3))"
    using r3(6) by (subst r'(2), simp add: may_add_def)+
  ultimately show ?thesis using r' h r3(5) r1(9) by (intro exI [of _ ?h] exI [of _ r']) simp
qed

lemma file_create_error:
  fixes r :: "'s file_repo"
  assumes P: "rel_path P" and inv: "file_inv blocks X S N good r" and left: "may_add 1 r"
    and e: "to_vec_entry K e = None" and p: "p_iter P path = p" "p \<noteq> []" "tree_map (sr_state r) p = None"
      "in_directory (tree_map (sr_state r)) p"
  shows "\<exists>r'. file_create E P K path e r = (Err SerializeError, r') \<and> file_inv blocks X S N good r' \<and>
    file_map blocks X r' = file_map blocks X r \<and> orphans blocks X r' = orphans blocks X r"
proof -
  obtain i r1 r2 where r: "state_create (ev_zpaq E) r = (Ok (new_id r i), r1)"
    "state_use (ev_zpaq E) (new_id r i) (view_serialize (ev_store E) X (dyn_ops (ev_zpaq E)) None) r1 = (Err SerializeError, r1)"
    "state_remove (new_id r i) r1 = (Ok True, r2)" "state_inv blocks X S N good r2" "state_step blocks {KObject i} r r2"
    "state_map blocks X r2 = state_map blocks X r" "sr_state r2 = sr_state r"
    using create_error_ok [OF file_invD(1) [OF inv]] left unfolding may_add_def by blast
  have "file_create E P K path e r = (Err SerializeError, r2)"
    using p e r(1-3) by (simp add: file_create_def rel_path.is_empty_path [OF P] rel_path.file_exists_iff [OF P]
      rel_path.has_parent_iff [OF P] bindR_def)
  with file_inv_unchanged [OF inv r(4-7)] show ?thesis by blast
qed

end

section \<open>Removing entries\<close>

abbreviation drop_object :: "object_key \<Rightarrow> ('s file_repo, unit) op" where
  "drop_object \<equiv> \<lambda>key. bindR (state_remove key) (\<lambda>_. ret ())"

lemma forM_append: "forM (xs @ ys) f s = bindR (forM xs f) (\<lambda>_. forM ys f) s"
  by (induction xs arbitrary: s) (auto simp: bindR_def split: prod.split result.split)

lemma remove_objects_keys: "remove_objects h s = forM (handle_keys h) drop_object s"
  by (cases "eh_type h") (auto simp: remove_objects_def handle_keys_def bindR_def split: prod.split result.split)

lemma remove_all_keys: "forM hs remove_objects s = forM (concat (map handle_keys hs)) drop_object s"
  by (induction hs arbitrary: s) (auto simp: forM_append remove_objects_keys bindR_def split: prod.split result.split)

lemma top_down_distinct: "top_down ps \<Longrightarrow> distinct ps"
  by (induction ps) (auto simp: top_down_def)

text \<open>The objects at or below a path, none of which is shared with another entry.\<close>

lemma subtree_keys:
  assumes inv: "file_inv bl X S N good r" and ws: "distinct (map fst ws)" "\<And>p h. (p, h) \<in> set ws \<Longrightarrow> tree_map (sr_state r) p = Some h"
  shows "distinct (map ok_object (concat (map (\<lambda>x. handle_keys (snd x)) ws)))"
  using ws
proof (induction ws)
  case (Cons w ws)
  obtain p h where w: "w = (p, h)" by (cases w)
  have h: "tree_map (sr_state r) p = Some h" using Cons.prems(2) w by simp
  have "ok_object key \<noteq> ok_object key'" if "key \<in> set (handle_keys h)" "(q, h') \<in> set ws" "key' \<in> set (handle_keys h')" for key q h' key'
  proof
    assume "ok_object key = ok_object key'"
    then have "p = q" using handle_keys_apart [OF inv h Cons.prems(2) that(1,3)] that(2) by auto
    with Cons.prems(1) w that(2) show False by (auto simp: image_iff)
  qed
  then have "ok_object ` set (handle_keys h) \<inter> ok_object ` set (concat (map (\<lambda>x. handle_keys (snd x)) ws)) = {}"
    by fastforce
  with Cons handle_keys_distinct [OF inv h] w show ?case by (simp add: image_Un)
qed simp

lemma prune_ran:
  assumes "\<And>q h. (q, h) \<in> set ws \<longleftrightarrow> prefix p q \<and> m q = Some h"
  shows "ran m = snd ` set ws \<union> ran (prune p m)"
proof (intro set_eqI iffI)
  fix h assume "h \<in> ran m"
  then obtain q where "m q = Some h" by (auto simp: ran_def)
  then have "(q, h) \<in> set ws \<or> prune p m q = Some h" using assms [of q h] by (simp add: prune_def)
  then show "h \<in> snd ` set ws \<union> ran (prune p m)" by (force intro: ranI)
next
  fix h assume "h \<in> snd ` set ws \<union> ran (prune p m)"
  then show "h \<in> ran m" using assms by (auto simp: ran_def prune_def split: if_splits)
qed

definition removable_below :: "'s file_repo \<Rightarrow> string list \<Rightarrow> bool" where
  "removable_below r p \<longleftrightarrow> (\<forall>q h. prefix p q \<longrightarrow> tree_map (sr_state r) q = Some h \<longrightarrow>
     (\<forall>key \<in> set (handle_keys h). unrepeated (sr_repo r) (KObject (ok_object key))))"

lemma dom_without: "dom (\<lambda>i. if i \<in> A then None else f i) = dom f - A"
  by (auto split: if_splits)

lemma prune_ok:
  assumes inv: "file_inv bl X S N good r" and t: "tree_wf t" "tree_map t = prune p (tree_map (sr_state r))"
    and ws: "distinct (map fst ws)" "\<And>q h. (q, h) \<in> set ws \<longleftrightarrow> prefix p q \<and> tree_map (sr_state r) q = Some h"
    and un: "removable_below r p \<or> \<not> panics (forM (map snd ws) remove_objects) (r\<lparr>sr_state := t\<rparr>)"
  shows "\<exists>r'. forM (map snd ws) remove_objects (r\<lparr>sr_state := t\<rparr>) = (Ok (), r') \<and> file_inv bl X S N good r' \<and>
    file_map bl X r' = prune p (file_map bl X r) \<and> orphans bl X r' = orphans bl X r"
proof -
  note I = file_invD [OF inv]
  let ?m = "tree_map (sr_state r)" and ?r = "r\<lparr>sr_state := t\<rparr>"
  let ?keys = "concat (map handle_keys (map snd ws))" and ?f = "file_slot (prune p ?m)"
  have keys: "\<exists>q h. (q, h) \<in> set ws \<and> key \<in> set (handle_keys h)" if "key \<in> set ?keys" for key using that by clarsimp blast
  have slot: "file_slot ?m a = Some key \<and> \<not> prefix p (place_path a)" if "?f a = Some key" for a key
    using that by (cases a) (auto simp: prune_def split: if_splits)
  have idx: "index_ok bl X ?r ?f"
    using index_rename [OF I(4), of ?f] slot index_okD(2) [OF I(4)] by (metis index_mut(1))
  have dist: "distinct (map ok_object ?keys)" using subtree_keys [OF inv ws(1)] ws(2) by (simp add: comp_def)
  have each: "check_key ?r key \<and> state_map bl X ?r (ok_object key) \<noteq> None" if "key \<in> set ?keys" for key
    using keys [OF that] handle_key_ok [OF inv] ws(2) by auto
  have "unrepeated (sr_repo ?r) (KObject (ok_object key))" if "removable_below r p" "key \<in> set ?keys" for key
    using keys [OF that(2)] that(1) ws(2) by (auto simp: removable_below_def)
  moreover have "panics (forM (map snd ws) remove_objects) ?r = panics (forM ?keys drop_object) ?r"
    by (rule panics_cong) (simp only: remove_all_keys)
  ultimately have un_keys: "(\<forall>key \<in> set ?keys. unrepeated (sr_repo ?r) (KObject (ok_object key))) \<or>
      \<not> panics (forM ?keys drop_object) ?r"
    using un by blast
  have apart: "ok_object ` set ?keys \<inter> ok_object ` ran ?f = {}"
  proof (rule ccontr)
    assume "\<not> ?thesis"
    then obtain key a key' where k: "key \<in> set ?keys" "?f a = Some key'" "ok_object key = ok_object key'" by (auto simp: ran_def)
    obtain q h where q: "prefix p q" "?m q = Some h" "key \<in> set (handle_keys h)" using keys [OF k(1)] ws(2) by blast
    obtain h' where h': "?m (place_path a) = Some h'" "key' \<in> set (handle_keys h')" using slot [OF k(2)] file_slot_keys by blast
    from handle_keys_apart [OF inv q(2) h'(1) q(3) h'(2) k(3)] slot [OF k(2)] q(1) show False by simp
  qed
  have sinv: "state_inv bl X S N good ?r" using I(1) by simp
  obtain r' where r': "forM ?keys drop_object ?r = (Ok (), r')" "state_inv bl X S N good r'" "index_ok bl X r' ?f"
    "sr_state r' = sr_state ?r" "state_map bl X r' = (\<lambda>i. if i \<in> ok_object ` set ?keys then None else state_map bl X ?r i)"
    using index_drop_all [OF sinv idx dist each apart un_keys] by blast
  note r' = r'(1-4) r'(5) [unfolded state_map_mut]
  have dirs: "in_directory (prune p ?m) q" if "q \<in> dom (prune p ?m)" for q
  proof -
    have q: "?m q \<noteq> None" "\<not> prefix p q" using that by (auto simp: prune_def dom_def split: if_splits)
    then have "\<not> prefix p (butlast q)" using prefix_order.trans prefixeq_butlast by blast
    with I(3) [OF q(1)] show ?thesis by (auto simp: in_directory_def prune_def)
  qed
  have "file_map bl X r' q = prune p (file_map bl X r) q" for q
  proof (cases "prune p ?m q")
    case None
    then show ?thesis using r'(4) t(2) by (auto simp: file_map_def prune_def split: if_splits)
  next
    case (Some h)
    then have q: "\<not> prefix p q" "?m q = Some h" by (auto simp: prune_def split: if_splits)
    have "ok_object key \<notin> ok_object ` set ?keys" if "key \<in> set (handle_keys h)" for key
      using apart that Some file_slot_ran [of "prune p ?m"] by (blast intro: ranI)
    then have "node_view (state_map bl X r') h = node_view (state_map bl X r) h"
      by (intro node_view_cong) (simp add: r'(5))
    with q Some show ?thesis using r'(4) t(2) by (simp add: file_map_def prune_def)
  qed
  moreover have "orphans bl X r' = orphans bl X r"
  proof -
    have "ran (file_slot ?m) = set ?keys \<union> ran ?f"
      unfolding file_slot_ran prune_ran [of ws p ?m, OF ws(2)] by (simp add: UN_Un)
    then have R: "ok_object ` ran (file_slot ?m) = ok_object ` set ?keys \<union> ok_object ` ran ?f" by (simp add: image_Un)
    have D: "dom (state_map bl X r') = dom (state_map bl X r) - ok_object ` set ?keys"
      unfolding r'(5) by (rule dom_without)
    have T: "tree_map (sr_state r') = prune p ?m" using r'(4) t(2) by simp
    have "D - K - F = D - (K \<union> F)" for D K F :: "u64 set" by blast
    then show ?thesis unfolding orphans_def T D R .
  qed
  moreover have "file_inv bl X S N good r'" using r'(2-4) t dirs by (simp add: file_inv_def)
  ultimately show ?thesis using r'(1) by (intro exI [of _ r']) (simp add: remove_all_keys fun_eq_iff)
qed

end
