(* ===== verification/File_Contract.thy ===== *)
theory File_Contract
  imports File_Correct
begin

text \<open>
  The operations of a file repository refine a map from paths to nodes: the specification, the remaining lemmas on
  removing and copying, and the refinement.
\<close>

section \<open>Removing\<close>

lemma leaf_prefix: "(\<And>x. x \<noteq> [] \<Longrightarrow> m (p @ x) = None) \<Longrightarrow> prefix p q \<Longrightarrow> m q = Some h \<Longrightarrow> q = p"
  by (metis append_Nil2 option.distinct(1) prefix_def)

lemma remove_nodes_absent: "nodes_map ns (s # ss) = None \<Longrightarrow> remove_nodes s ss ns = (None, ns)"
proof (induction ss arbitrary: s ns)
  case Nil
  then show ?case by (simp add: AList.delete_id map_of_eq_None_iff)
next
  case (Cons t ss)
  show ?case
  proof (cases "hget ns s")
    case (Some node)
    then have "remove_nodes t ss (node_children node) = (None, node_children node)" using Cons by simp
    with Some show ?thesis by (simp add: hput_same)
  qed simp
qed

lemma forM_single: "forM [x] f s = f x s"
  by (simp add: bindR_def split: prod.split result.split)

context rel_path
begin

lemma tree_drain_absent: "tree_map t (p_iter P p) = None \<Longrightarrow> tree_drain P p t = (None, t)"
  by (cases "p_iter P p") (simp_all add: tree_drain_def tree_take_def tree_map_def remove_nodes_absent)

lemma tree_list_none: "tree_list P p t = None \<longleftrightarrow> p_iter P p \<noteq> [] \<and> tree_map t (p_iter P p) = None"
  by (simp add: tree_list_def children_at_none tree_map_def)

lemma tree_list_empty:
  assumes "tree_list P p t = Some cs"
  shows "cs = [] \<longleftrightarrow> (\<forall>q. q \<noteq> [] \<longrightarrow> tree_map t (p_iter P p @ q) = None)"
proof -
  obtain c where c: "children_at (nodes t) (p_iter P p) = Some c" "cs = [] \<longleftrightarrow> c = []"
    using assms by (auto simp: tree_list_def)
  have "nodes_map c [fst (hd c)] \<noteq> None" if "c \<noteq> []" using that by (cases c) auto
  moreover have "tree_map t (p_iter P p @ q) = nodes_map c q" if "q \<noteq> []" for q
    using children_at_map [OF c(1) that] by (simp add: tree_map_def)
  ultimately show ?thesis using c(2) by (metis list.distinct(1) nodes_map_Nil)
qed

lemma file_remove_ok:
  assumes inv: "file_inv bl X S N good r" and p: "p_iter P path = p" "tree_map (sr_state r) p = Some h"
    and leaf: "\<And>q. q \<noteq> [] \<Longrightarrow> tree_map (sr_state r) (p @ q) = None" 
    and un: "removable_below r p \<or> \<not> panics (file_remove P path) r"
  shows "\<exists>r'. file_remove P path r = (Ok (), r') \<and> file_inv bl X S N good r' \<and>
    file_map bl X r' = (file_map bl X r)(p := None) \<and> orphans bl X r' = orphans bl X r"
proof -
  have ne: "p \<noteq> []" using p(2) by auto
  obtain t where t: "tree_remove P path (sr_state r) = (Some h, t)" "tree_wf t" "tree_map t = prune p (tree_map (sr_state r))"
    using tree_remove_ok [OF file_invD(2) [OF inv], of path] p ne by auto
  have ws: "(q, h') \<in> set [(p, h)] \<longleftrightarrow> prefix p q \<and> tree_map (sr_state r) q = Some h'" for q h'
    using p(2) leaf_prefix [where m = "tree_map (sr_state r)", OF leaf] by auto (metis option.inject)
  obtain cs where "tree_list P path (sr_state r) = Some cs" using tree_list_none [of path "sr_state r"] p by fastforce
  with tree_list_empty [of path "sr_state r" cs] p(1) leaf have "tree_list P path (sr_state r) = Some []" by auto
  then have run: "file_remove P path r = remove_objects h (r\<lparr>sr_state := t\<rparr>)"
    using p ne t(1) by (simp add: file_remove_def is_empty_path on_tree_def bindR_def unwrap_option_def)
  have "removable_below r p \<or> \<not> panics (forM (map snd [(p, h)]) remove_objects) (r\<lparr>sr_state := t\<rparr>)"
    using un run by (simp add: panics_def forM_single del: forM.simps)
  then obtain r' where r': "remove_objects h (r\<lparr>sr_state := t\<rparr>) = (Ok (), r')" "file_inv bl X S N good r'"
    "file_map bl X r' = prune p (file_map bl X r)" "orphans bl X r' = orphans bl X r"
    using prune_ok [OF inv t(2,3) _ ws] by (auto simp: forM_single simp del: forM.simps)
  have "file_map bl X r q = None" if "prefix p q" "q \<noteq> p" for q
  proof -
    obtain zs where "q = p @ zs" "zs \<noteq> []" using \<open>prefix p q\<close> \<open>q \<noteq> p\<close> by (auto simp: prefix_def)
    with leaf [of zs] show ?thesis by (simp add: file_map_def)
  qed
  then have "prune p (file_map bl X r) = (file_map bl X r)(p := None)" by (auto simp: prune_def fun_eq_iff)
  then show ?thesis using r' run by auto
qed

lemma remove_tree_ok:
  assumes inv: "file_inv bl X S N good r" and p: "p_iter P path = p" "tree_map (sr_state r) p = Some h"
    and un: "removable_below r p \<or> \<not> panics (remove_tree P path) r"
  shows "\<exists>r'. remove_tree P path r = (Ok (), r') \<and> file_inv bl X S N good r' \<and>
    file_map bl X r' = prune p (file_map bl X r) \<and> orphans bl X r' = orphans bl X r"
proof -
  have ne: "p \<noteq> []" using p(2) by auto
  obtain w t where t: "tree_drain P path (sr_state r) = (Some ((path, h) # w), t)" "tree_walk P path (sr_state r) = Some w"
    "tree_wf t" "tree_map t = prune p (tree_map (sr_state r))"
    using tree_drain_ok [OF file_invD(2) [OF inv], of path h] p by auto
  have w: "set (steps P w) = below (tree_map (sr_state r)) p" "top_down (map fst (steps P w))"
    using tree_walk_ok(2) [OF file_invD(2) [OF inv] t(2)] p(1) by auto
  let ?ws = "(p, h) # steps P w"
  have dist: "distinct (map fst ?ws)"
    using top_down_distinct [OF w(2)] w(1) by (force simp: below_def)
  have ws: "(q, h') \<in> set ?ws \<longleftrightarrow> prefix p q \<and> tree_map (sr_state r) q = Some h'" for q h'
    using p(2) w(1) by (auto simp: prefix_def below_def)
  have snd: "map snd ?ws = map snd ((path, h) # w)" by (simp add: steps_def comp_def case_prod_unfold)
  have run: "remove_tree P path r = forM (map snd ((path, h) # w)) remove_objects (r\<lparr>sr_state := t\<rparr>)"
    using p ne t(1) by (simp add: remove_tree_def is_empty_path on_tree_def bindR_def)
  have "removable_below r p \<or> \<not> panics (forM (map snd ?ws) remove_objects) (r\<lparr>sr_state := t\<rparr>)"
    unfolding snd using un run by (simp add: panics_def del: forM.simps)
  then obtain r' where r': "forM (map snd ((path, h) # w)) remove_objects (r\<lparr>sr_state := t\<rparr>) = (Ok (), r')" "file_inv bl X S N good r'"
    "file_map bl X r' = prune p (file_map bl X r)" "orphans bl X r' = orphans bl X r"
    using prune_ok [OF inv t(3,4) dist ws] unfolding snd by blast
  with run show ?thesis by simp
qed

end

section \<open>Copying\<close>

lemma adds_keys:
  assumes "adds bl X r r' h'" "check_key r' = check_key r" "check_key r key \<and> state_map bl X r (ok_object key) \<noteq> None"
  shows "check_key r' key \<and> state_map bl X r' (ok_object key) \<noteq> None"
  using assms unfolding adds_def map_le_def by (metis domIff)

lemma adds_view:
  assumes "adds bl X r r' h'" "\<And>key. key \<in> set (handle_keys h) \<Longrightarrow> state_map bl X r (ok_object key) \<noteq> None"
  shows "node_view (state_map bl X r') h = node_view (state_map bl X r) h"
  by (rule node_view_cong) (use assms in \<open>unfold adds_def map_le_def, metis domIff\<close>)

lemma adds_card:
  assumes "adds bl X r r' h"
  shows "ok_object ` set (handle_keys h) \<inter> orphans bl X r = {}" "card (ok_object ` set (handle_keys h)) = length (handle_keys h)"
  using assms distinct_card [of "map ok_object (handle_keys h)"] by (auto simp: adds_def orphans_def)

text \<open>The objects of a handle are in the repository.\<close>

definition handle_live :: "('s \<Rightarrow> uuid \<rightharpoonup> bytes) \<Rightarrow> ext \<Rightarrow> 's file_repo \<Rightarrow> entry_handle \<Rightarrow> bool" where
  "handle_live bl X r h \<longleftrightarrow> (\<forall>key \<in> set (handle_keys h). check_key r key \<and> state_map bl X r (ok_object key) \<noteq> None)"

lemma handle_live_tree: "file_inv bl X S N good r \<Longrightarrow> tree_map (sr_state r) p = Some h \<Longrightarrow> handle_live bl X r h"
  using handle_key_ok by (fastforce simp: handle_live_def)

text \<open>What a copied tree looks like; the destination may be below the source, and then it is copied as well.\<close>

definition copied_tree :: "string list \<Rightarrow> string list \<Rightarrow> (string list \<rightharpoonup> 'v) \<Rightarrow> (string list \<rightharpoonup> 'v)" where
  "copied_tree s d m = (\<lambda>x. if prefix d x then (m(d := m s)) (s @ drop (length d) x) else m x)"

lemma may_add_le: "may_add k r \<Longrightarrow> j \<le> k \<Longrightarrow> may_add j r"
  by (simp add: may_add_def ids_left_def)

context rel_path
begin

lemma insert_copy_ok:
  assumes inv: "file_inv bl X S N good r" and left: "may_add (Suc (Suc n)) r" and live: "handle_live bl X r h"
    and p: "p_iter P path = p" "p \<noteq> []" "in_directory (tree_map (sr_state r)) p"
    and leaf: "\<And>q. q \<noteq> [] \<Longrightarrow> tree_map (sr_state r) (p @ q) = None"
  shows "\<exists>h' r1 x r'. copy_entry_handle h r = (Ok h', r1) \<and> on_tree (tree_insert P path h') r1 = (Ok x, r') \<and>
    file_inv bl X S N good r' \<and> tree_map (sr_state r') = (tree_map (sr_state r))(p \<mapsto> h') \<and>
    file_map bl X r' = (file_map bl X r)(p \<mapsto> node_view (state_map bl X r) h) \<and>
    orphans bl X r' = orphans bl X r \<union> (case tree_map (sr_state r) p of None \<Rightarrow> {} | Some g \<Rightarrow> ok_object ` set (handle_keys g)) \<and>
    (eh_type h' = EDirectory \<longleftrightarrow> eh_type h = EDirectory) \<and> length (handle_keys h') = length (handle_keys h) \<and> may_add n r' \<and>
    ok_object ` set (handle_keys h') \<inter> orphans bl X r = {} \<and> card (ok_object ` set (handle_keys h')) = length (handle_keys h) \<and>
    (\<forall>g. handle_live bl X r g \<longrightarrow> handle_live bl X r' g \<and> node_view (state_map bl X r') g = node_view (state_map bl X r) g)"
proof -
  obtain h' r1 K where r1: "copy_entry_handle h r = (Ok h', r1)" "state_inv bl X S N good r1" "state_step bl K r r1"
    "adds bl X r r1 h'" "node_view (state_map bl X r1) h' = node_view (state_map bl X r) h" "sr_state r1 = sr_state r"
    "eh_type h' = EDirectory \<longleftrightarrow> eh_type h = EDirectory" "length (handle_keys h') = length (handle_keys h)" "may_add n r1"
    using copy_handle_ok [OF file_invD(1) [OF inv], of n n h] left live by (auto simp: may_add_def handle_live_def)
  obtain x r' where r': "on_tree (tree_insert P path h') r1 = (Ok x, r')" "r' = r1\<lparr>sr_state := sr_state r'\<rparr>" "file_inv bl X S N good r'"
    "tree_map (sr_state r') = (tree_map (sr_state r))(p \<mapsto> h')"
    "file_map bl X r' = (file_map bl X r)(p \<mapsto> node_view (state_map bl X r1) h')"
    "orphans bl X r' = orphans bl X r \<union> (case tree_map (sr_state r) p of None \<Rightarrow> {} | Some g \<Rightarrow> ok_object ` set (handle_keys g))"
    using put_node [OF rel_path_axioms inv r1(2,3,4,6) p leaf] by blast
  have same: "state_map bl X r' = state_map bl X r1" "check_key r' = check_key r1" "may_add n r'"
    using r1(9) by (subst r'(2), simp add: may_add_def)+
  have "check_key r1 = check_key r" using state_step_check [OF r1(3)] by simp
  then have "handle_live bl X r' g \<and> node_view (state_map bl X r') g = node_view (state_map bl X r) g" if "handle_live bl X r g" for g
    using that adds_keys [OF r1(4)] adds_view [OF r1(4), of g] same by (simp add: handle_live_def)
  with r1 r' same adds_card [OF r1(4)] show ?thesis by auto
qed

text \<open>The rest of the loop of \<^verbatim>\<open>copy_tree\<close>: the destinations are free, and every parent comes before its children.\<close>

lemma top_down_parent:
  assumes "top_down (p # ps)" "p \<noteq> []"
  shows "butlast p \<notin> set (p # ps)"
proof -
  have "\<not> prefix b p" if "b \<in> set ps" for b using assms(1) that by (simp add: top_down_def)
  moreover have "butlast p \<noteq> p" using assms(2) by (metis append_butlast_last_id append_self_conv list.distinct(1))
  ultimately show ?thesis using prefixeq_butlast by auto
qed

lemma root_iter: "p_iter P (p_new P ''dest_rot'') = [''dest_rot'']"
  by (simp add: iter_new is_segment_def)

text \<open>Putting a node of a copied tree in its place leaves the places of the nodes below it and beside it free.\<close>

lemma put_dest_rest:
  assumes td: "top_down (p_iter P path # map fst (steps P xs))" and q: "p_iter P path = ''dest_rot'' # q"
    and m: "m (d @ q) = None" "eh_type h' = EDirectory \<longleftrightarrow> eh_type h = EDirectory"
    and y: "(y, g) \<in> set (steps P xs)" "y = ''dest_rot'' # z" "z \<noteq> []" "\<forall>u. m (d @ z @ u) = None"
      "in_directory m (d @ z) \<or> (\<exists>h'. (butlast y, h') \<in> set (steps P ((path, h) # xs)) \<and> eh_type h' = EDirectory)"
  shows "\<forall>u. (m(d @ q \<mapsto> h')) (d @ z @ u) = None"
    "in_directory (m(d @ q \<mapsto> h')) (d @ z) \<or> (\<exists>h'. (butlast y, h') \<in> set (steps P xs) \<and> eh_type h' = EDirectory)"
proof -
  have "\<not> prefix y (p_iter P path)" using td y(1) by (force simp: top_down_def)
  then have "d @ z @ u \<noteq> d @ q" for u using y(2) q by (auto simp: prefix_def)
  then show "\<forall>u. (m(d @ q \<mapsto> h')) (d @ z @ u) = None" using y(4) by simp
  consider "in_directory m (d @ z)" | "butlast y = p_iter P path" "eh_type h = EDirectory"
    | "\<exists>h'. (butlast y, h') \<in> set (steps P xs) \<and> eh_type h' = EDirectory"
    using y(5) by auto
  then show "in_directory (m(d @ q \<mapsto> h')) (d @ z) \<or> (\<exists>h'. (butlast y, h') \<in> set (steps P xs) \<and> eh_type h' = EDirectory)"
  proof cases
    case 1
    then show ?thesis using m(1) by (auto simp: in_directory_def)
  next
    case 2
    then have "butlast (d @ z) = d @ q" using y(2,3) q by (simp add: butlast_append)
    with 2 show ?thesis using m(2) by (simp add: in_directory_def)
  qed blast
qed

lemma put_dests_ok:
  assumes "file_inv bl X S N good r" "may_add (2 * length xs) r" "p_iter P dest = d" "d \<noteq> []"
    and "top_down (map fst (steps P xs))"
    and "\<And>x h. (x, h) \<in> set (steps P xs) \<Longrightarrow> \<exists>q. x = ''dest_rot'' # q \<and> q \<noteq> [] \<and> handle_live bl X r h \<and>
      (\<forall>u. tree_map (sr_state r) (d @ q @ u) = None) \<and>
      (in_directory (tree_map (sr_state r)) (d @ q) \<or> (\<exists>h'. (butlast x, h') \<in> set (steps P xs) \<and> eh_type h' = EDirectory))"
  shows "\<exists>r'. forM xs (put_dest P dest) r = (Ok (), r') \<and> file_inv bl X S N good r' \<and> orphans bl X r' = orphans bl X r \<and>
    (\<forall>y. file_map bl X r' y = (case map_of (steps P xs) (''dest_rot'' # drop (length d) y) of
        Some h \<Rightarrow> if prefix d y then Some (node_view (state_map bl X r) h) else file_map bl X r y
      | None \<Rightarrow> file_map bl X r y))"
  using assms
proof (induction xs arbitrary: r)
  case (Cons a xs)
  obtain path h where a: "a = (path, h)" by (cases a)
  let ?m = "tree_map (sr_state r)"
  have mem: "(p_iter P path, h) \<in> set (steps P (a # xs))" using a by simp
  obtain q where q: "p_iter P path = ''dest_rot'' # q" "q \<noteq> []" "handle_live bl X r h" "\<And>u. ?m (d @ q @ u) = None"
    "in_directory ?m (d @ q) \<or> (\<exists>h'. (butlast (p_iter P path), h') \<in> set (steps P (a # xs)) \<and> eh_type h' = EDirectory)"
    using Cons.prems(6) [OF mem] by blast
  have td: "top_down (p_iter P path # map fst (steps P xs))" using Cons.prems(5) a by simp
  have "butlast (p_iter P path) \<notin> set (map fst (steps P (a # xs)))" using top_down_parent [OF td] q(1) a by simp
  then have dir: "in_directory ?m (d @ q)" using q(5) by force
  obtain rel where rel: "p_strip_prefix P path (p_new P ''dest_rot'') = Some rel" "p_iter P rel = q"
    using strip_some [of path "p_new P ''dest_rot''" q] q(1) root_iter by auto
  have path: "p_iter P (p_join P dest rel) = d @ q" by (simp add: iter_join rel(2) Cons.prems(3))
  have left: "may_add (Suc (Suc (2 * length xs))) r" using Cons.prems(2) by simp
  have leaf: "?m ((d @ q) @ u) = None" for u using q(4) [of u] by simp
  obtain h' r1 x r2 where r2: "copy_entry_handle h r = (Ok h', r1)" "on_tree (tree_insert P (p_join P dest rel) h') r1 = (Ok x, r2)"
    "file_inv bl X S N good r2" "tree_map (sr_state r2) = ?m(d @ q \<mapsto> h')"
    "file_map bl X r2 = (file_map bl X r)(d @ q \<mapsto> node_view (state_map bl X r) h)" "orphans bl X r2 = orphans bl X r"
    "eh_type h' = EDirectory \<longleftrightarrow> eh_type h = EDirectory" "may_add (2 * length xs) r2"
    "\<forall>g. handle_live bl X r g \<longrightarrow> handle_live bl X r2 g \<and> node_view (state_map bl X r2) g = node_view (state_map bl X r) g"
    using insert_copy_ok [OF Cons.prems(1) left q(3) path _ dir leaf] q(2) leaf [of "[]"] by auto
  have "put_dest P dest a r = (Ok (), r2)"
    using r2(1,2) rel(1) by (simp add: put_dest_def a bindR_def unwrap_option_def)
  moreover have rest: "\<exists>q. y = ''dest_rot'' # q \<and> q \<noteq> [] \<and> handle_live bl X r2 g \<and> (\<forall>u. tree_map (sr_state r2) (d @ q @ u) = None) \<and>
      (in_directory (tree_map (sr_state r2)) (d @ q) \<or> (\<exists>h'. (butlast y, h') \<in> set (steps P xs) \<and> eh_type h' = EDirectory))"
    if "(y, g) \<in> set (steps P xs)" for y g
  proof -
    have mem: "(y, g) \<in> set (steps P (a # xs))" using \<open>(y, g) \<in> set (steps P xs)\<close> a by simp
    obtain z where z: "y = ''dest_rot'' # z" "z \<noteq> []" "handle_live bl X r g" "\<forall>u. ?m (d @ z @ u) = None"
      "in_directory ?m (d @ z) \<or> (\<exists>h'. (butlast y, h') \<in> set (steps P (a # xs)) \<and> eh_type h' = EDirectory)"
      using Cons.prems(6) [OF mem] by blast
    note R = put_dest_rest [OF td q(1) leaf [of "[]", simplified] r2(7) that z(1,2,4) z(5) [unfolded a]]
    show ?thesis using z(1-3) R r2(4,9) by auto
  qed
  ultimately obtain r' where r': "forM xs (put_dest P dest) r2 = (Ok (), r')" "file_inv bl X S N good r'"
    "orphans bl X r' = orphans bl X r2" "\<And>y. file_map bl X r' y = (case map_of (steps P xs) (''dest_rot'' # drop (length d) y) of
        Some h \<Rightarrow> if prefix d y then Some (node_view (state_map bl X r2) h) else file_map bl X r2 y | None \<Rightarrow> file_map bl X r2 y)"
    using Cons.IH [OF r2(3,8) Cons.prems(3,4) _ rest] td by (auto simp: top_down_def)
  have fresh: "map_of (steps P xs) (''dest_rot'' # q) = None"
    using top_down_distinct [OF td] q(1) by (auto simp: map_of_eq_None_iff)
  have "file_map bl X r' y = (case map_of (steps P (a # xs)) (''dest_rot'' # drop (length d) y) of
        Some h \<Rightarrow> if prefix d y then Some (node_view (state_map bl X r) h) else file_map bl X r y
      | None \<Rightarrow> file_map bl X r y)" for y
  proof (cases "y = d @ q")
    case True
    then show ?thesis using r'(4) [of y] fresh r2(5) a q(1) by simp
  next
    case False
    have view: "node_view (state_map bl X r2) g = node_view (state_map bl X r) g" if "map_of (steps P xs) z = Some g" for z g
      using Cons.prems(6) [of z g] map_of_SomeD [OF that] a r2(9) by auto
    have "\<not> (prefix d y \<and> drop (length d) y = q)" using False by (auto simp: prefix_def)
    then show ?thesis using r'(4) [of y] False r2(5) a q(1) view fresh by (auto split: option.split)
  qed
  then show ?case using r' r2(6) \<open>put_dest P dest a r = (Ok (), r2)\<close> by (intro exI [of _ r']) (simp add: bindR_Ok)
qed (auto simp: steps_def)

lemma dest_paths_ok:
  assumes "tree_wf t" "p_iter P source = s" "top_down (map fst (steps P ws))"
    and "\<And>x h. (x, h) \<in> set (steps P ws) \<Longrightarrow> \<exists>q. x = s @ q \<and> q \<noteq> [] \<and> (\<forall>u. tree_map t (''dest_rot'' # q @ u) = None) \<and>
      (tree_map t (''dest_rot'' # butlast q) \<noteq> None \<or> butlast x \<in> set (map fst (steps P ws)))"
  shows "\<exists>t'. dest_paths P source ws t = (Ok (), t') \<and> tree_wf t' \<and>
    (\<forall>q. tree_map t' (''dest_rot'' # q) = (case map_of (steps P ws) (s @ q) of Some h \<Rightarrow> Some h | None \<Rightarrow> tree_map t (''dest_rot'' # q)))"
  using assms
proof (induction ws arbitrary: t)
  case (Cons a ws)
  obtain path h where a: "a = (path, h)" by (cases a)
  have mem: "(p_iter P path, h) \<in> set (steps P (a # ws))" using a by simp
  obtain q where q: "p_iter P path = s @ q" "q \<noteq> []" "\<And>u. tree_map t (''dest_rot'' # q @ u) = None"
    "tree_map t (''dest_rot'' # butlast q) \<noteq> None \<or> butlast (p_iter P path) \<in> set (map fst (steps P (a # ws)))"
    using Cons.prems(4) [OF mem] by blast
  have td: "top_down (p_iter P path # map fst (steps P ws))" using Cons.prems(3) a by simp
  have "butlast (p_iter P path) \<notin> set (map fst (steps P (a # ws)))" using top_down_parent [OF td] q(1,2) a by simp
  then have up: "parent_in (tree_map t) (''dest_rot'' # q)" using q(2,4) by (simp add: parent_in_def)
  obtain rel where rel: "p_strip_prefix P path source = Some rel" "p_iter P rel = q"
    using strip_some [of path source q] q(1) Cons.prems(2) by auto
  have path: "p_iter P (p_join P (p_new P ''dest_rot'') rel) = ''dest_rot'' # q" by (simp add: iter_join rel(2) root_iter)
  have leaf: "tree_map t ((''dest_rot'' # q) @ u) = None" for u using q(3) [of u] by simp
  obtain t1 x where t1: "tree_insert P (p_join P (p_new P ''dest_rot'') rel) h t = (Ok x, t1)" "tree_wf t1"
    "tree_map t1 = (tree_map t)(''dest_rot'' # q \<mapsto> h)"
    using tree_insert_ok [OF Cons.prems(1), of "p_join P (p_new P ''dest_rot'') rel" h] path up
      graft_leaf [where m = "tree_map t" and p = "''dest_rot'' # q", OF leaf] by auto
  have rest: "\<exists>z. y = s @ z \<and> z \<noteq> [] \<and> (\<forall>u. tree_map t1 (''dest_rot'' # z @ u) = None) \<and>
      (tree_map t1 (''dest_rot'' # butlast z) \<noteq> None \<or> butlast y \<in> set (map fst (steps P ws)))"
    if "(y, g) \<in> set (steps P ws)" for y g
  proof -
    have mem: "(y, g) \<in> set (steps P (a # ws))" using \<open>(y, g) \<in> set (steps P ws)\<close> a by simp
    obtain z where z: "y = s @ z" "z \<noteq> []" "\<forall>u. tree_map t (''dest_rot'' # z @ u) = None"
      "tree_map t (''dest_rot'' # butlast z) \<noteq> None \<or> butlast y \<in> set (map fst (steps P (a # ws)))"
      using Cons.prems(4) [OF mem] by blast
    have "\<not> prefix y (p_iter P path)" using td \<open>(y, g) \<in> set (steps P ws)\<close> by (force simp: top_down_def)
    then have "z @ u \<noteq> q" for u using z(1) q(1) by (auto simp: prefix_def)
    moreover have "butlast y = s @ butlast z" using z(1,2) by (simp add: butlast_append)
    ultimately show ?thesis using z a q(1) by (intro exI [of _ z]) (auto simp: t1(3))
  qed
  have td': "top_down (map fst (steps P ws))" using td by (simp add: top_down_def)
  have "\<exists>t'. dest_paths P source ws t1 = (Ok (), t') \<and> tree_wf t' \<and> (\<forall>q. tree_map t' (''dest_rot'' # q) =
      (case map_of (steps P ws) (s @ q) of Some h \<Rightarrow> Some h | None \<Rightarrow> tree_map t1 (''dest_rot'' # q)))"
    by (rule Cons.IH [OF t1(2) Cons.prems(2) td']) (erule rest)
  then obtain t' where
    t': "dest_paths P source ws t1 = (Ok (), t')" "tree_wf t'" "\<And>q. tree_map t' (''dest_rot'' # q) =
      (case map_of (steps P ws) (s @ q) of Some h \<Rightarrow> Some h | None \<Rightarrow> tree_map t1 (''dest_rot'' # q))"
    by blast
  have fresh: "map_of (steps P ws) (s @ q) = None" using top_down_distinct [OF td] q(1) by (auto simp: map_of_eq_None_iff)
  have "dest_paths P source (a # ws) t = (Ok (), t')"
    using t'(1) t1(1) rel(1) by (simp add: a bindR_def unwrap_option_def)
  moreover have "tree_map t' (''dest_rot'' # z) = (case map_of (steps P (a # ws)) (s @ z) of Some h \<Rightarrow> Some h
      | None \<Rightarrow> tree_map t (''dest_rot'' # z))" for z
    using t'(3) [of z] fresh by (cases "z = q") (simp_all add: a q(1) t1(3) split: option.split)
  ultimately show ?case using t'(2) by blast
qed (auto simp: steps_def)

lemma walk_lookup:
  assumes "set (steps P w) = below m p" "top_down (map fst (steps P w))"
  shows "map_of (steps P w) (p @ q) = (if q = [] then None else m (p @ q))"
proof -
  have "map_of (steps P w) (p @ q) = Some h \<longleftrightarrow> q \<noteq> [] \<and> m (p @ q) = Some h" for h
    unfolding map_of_eq_Some_iff [OF top_down_distinct [OF assms(2)]] assms(1) by (auto simp: below_def)
  then show ?thesis by (metis option.exhaust)
qed

text \<open>The tree of destinations has the handles at and below the source.\<close>

lemma build_dest_tree_ok:
  assumes t: "tree_wf t" "tree_walk P source t = Some ws" "p_iter P source = s" "tree_map t s = Some root"
  shows "\<exists>t'. build_dest_tree P source root ws = Ok t' \<and> tree_wf t' \<and> (\<forall>q. tree_map t' (''dest_rot'' # q) = tree_map t (s @ q))"
proof -
  have w: "set (steps P ws) = below (tree_map t) s" "top_down (map fst (steps P ws))" using tree_walk_ok(2) [OF t(1,2)] t(3) by auto
  have ne: "s \<noteq> []" using t(4) by auto
  have empty: "tree_wf path_tree_new" "tree_map path_tree_new = Map.empty"
    by (simp_all add: tree_wf_def path_tree_new_def tree_map_def fun_eq_iff)
  obtain x t1 where t1: "tree_insert P (p_new P ''dest_rot'') root path_tree_new = (Ok x, t1)" "tree_wf t1"
    "tree_map t1 = [[''dest_rot''] \<mapsto> root]"
    using tree_insert_ok [OF empty(1), of "p_new P ''dest_rot''" root] graft_leaf [of "tree_map path_tree_new" "[''dest_rot'']" root]
    by (auto simp: root_iter parent_in_def empty(2))
  have all: "\<exists>q. x = s @ q \<and> q \<noteq> [] \<and> (\<forall>u. tree_map t1 (''dest_rot'' # q @ u) = None) \<and>
      (tree_map t1 (''dest_rot'' # butlast q) \<noteq> None \<or> butlast x \<in> set (map fst (steps P ws)))"
    if "(x, h) \<in> set (steps P ws)" for x h
  proof -
    obtain q where q: "x = s @ q" "q \<noteq> []" "tree_map t (s @ q) = Some h"
      using \<open>(x, h) \<in> set (steps P ws)\<close> w(1) by (auto simp: below_def)
    have b: "butlast x = s @ butlast q" using q(1,2) by (simp add: butlast_append)
    have "tree_map t (butlast x) \<noteq> None" using tree_map_prefix [of t x "butlast x"] q ne b by (simp add: prefixeq_butlast)
    then have "butlast q = [] \<or> butlast x \<in> fst ` set (steps P ws)" unfolding w(1) below_def b by force
    with q show ?thesis by (auto simp: t1(3))
  qed
  have "\<exists>t'. dest_paths P source ws t1 = (Ok (), t') \<and> tree_wf t' \<and> (\<forall>q. tree_map t' (''dest_rot'' # q) =
      (case map_of (steps P ws) (s @ q) of Some h \<Rightarrow> Some h | None \<Rightarrow> tree_map t1 (''dest_rot'' # q)))"
    by (rule dest_paths_ok [OF t1(2) t(3) w(2)]) (erule all)
  then obtain t' where t': "dest_paths P source ws t1 = (Ok (), t')" "tree_wf t'"
    "\<And>q. tree_map t' (''dest_rot'' # q) = (case map_of (steps P ws) (s @ q) of Some h \<Rightarrow> Some h | None \<Rightarrow> tree_map t1 (''dest_rot'' # q))"
    by blast
  have "tree_map t' (''dest_rot'' # q) = tree_map t (s @ q)" for q
    using t'(3) [of q] t(4) walk_lookup [OF w, of q] by (cases "q = []") (auto simp: t1(3) split: option.split)
  moreover have "build_dest_tree P source root ws = Ok t'" using t1(1) t'(1) by (simp add: build_dest_tree_def bindR_def)
  ultimately show ?thesis using t'(2) by blast
qed

lemma copy_guard_ok:
  "p_iter P source \<noteq> [] \<Longrightarrow> p_iter P dest \<noteq> [] \<Longrightarrow> tree_map (sr_state r) (p_iter P dest) = None \<Longrightarrow>
    in_directory (tree_map (sr_state r)) (p_iter P dest) \<Longrightarrow> tree_map (sr_state r) (p_iter P source) = Some h \<Longrightarrow>
    copy_guard P source dest r = (Ok h, r)"
  by (simp add: copy_guard_def is_empty_path file_exists_iff has_parent_iff tree_get_ok)

lemma file_copy_ok:
  assumes inv: "file_inv bl X S N good r" and left: "may_add 2 r" and s: "p_iter P source = s" "tree_map (sr_state r) s = Some h"
    and d: "p_iter P dest = d" "d \<noteq> []" "tree_map (sr_state r) d = None" "in_directory (tree_map (sr_state r)) d"
  shows "\<exists>r'. file_copy P source dest r = (Ok (), r') \<and> file_inv bl X S N good r' \<and>
    file_map bl X r' = (file_map bl X r)(d := file_map bl X r s) \<and> orphans bl X r' = orphans bl X r"
proof -
  have leaf: "tree_map (sr_state r) (d @ q) = None" for q using leaf_of_absent [OF d(3,2)] .
  have ne: "s \<noteq> []" using s(2) by auto
  have "may_add (Suc (Suc 0)) r" using left by (simp add: numeral_2_eq_2)
  from insert_copy_ok [OF inv this handle_live_tree [OF inv s(2)] d(1,2,4) leaf] obtain h' r1 x r' where
    r': "copy_entry_handle h r = (Ok h', r1)" "on_tree (tree_insert P dest h') r1 = (Ok x, r')" "file_inv bl X S N good r'"
    "file_map bl X r' = (file_map bl X r)(d \<mapsto> node_view (state_map bl X r) h)" "orphans bl X r' = orphans bl X r"
    using d(3) by auto
  have "file_copy P source dest r = (Ok (), r')"
    using copy_guard_ok [of source dest r h] s d r'(1,2) ne by (auto simp: file_copy_def put_copy_def bindR_def)
  then show ?thesis using r' s(2) by (auto simp: file_map_def)
qed

lemma below_finite: "tree_wf t \<Longrightarrow> finite (below (tree_map t) p)"
proof -
  assume wf: "tree_wf t"
  have "below (tree_map t) p \<subseteq> {x. x \<in> set (steps P (walk_nodes P (p_new P []) (nodes t)))}"
    using walk_nodes_set [of "nodes t" "p_new P []"] wf by (auto simp: tree_wf_def below_def iter_empty tree_map_def)
  then show ?thesis using finite_subset by fastforce
qed

text \<open>The list that the second loop of \<^verbatim>\<open>copy_tree\<close> runs over.\<close>

lemma dest_list_ok:
  assumes t: "tree_wf t" "p_iter P source = s" "tree_map t s = Some h"
  shows "\<exists>ws t1 w t2. tree_walk P source t = Some ws \<and> build_dest_tree P source h ws = Ok t1 \<and>
    tree_drain P (p_new P ''dest_rot'') t1 = (Some ((p_new P ''dest_rot'', h) # w), t2) \<and> top_down (map fst (steps P w)) \<and>
    (\<forall>q. map_of (steps P w) (''dest_rot'' # q) = (if q = [] then None else tree_map t (s @ q))) \<and>
    (\<forall>x g. (x, g) \<in> set (steps P w) \<longrightarrow> (\<exists>q. x = ''dest_rot'' # q)) \<and> length w = card (below (tree_map t) s)"
proof -
  obtain ws where ws: "tree_walk P source t = Some ws" using tree_walk_ok(1) [OF t(1), of source] t(2,3) by fastforce
  obtain t1 where t1: "build_dest_tree P source h ws = Ok t1" "tree_wf t1" "\<And>q. tree_map t1 (''dest_rot'' # q) = tree_map t (s @ q)"
    using build_dest_tree_ok [OF t(1) ws t(2,3)] by blast
  have "tree_map t1 (p_iter P (p_new P ''dest_rot'')) = Some h" using t1(3) [of "[]"] t(3) by (simp add: root_iter)
  from tree_drain_ok [OF t1(2) this] obtain w t2 where
    w: "tree_drain P (p_new P ''dest_rot'') t1 = (Some ((p_new P ''dest_rot'', h) # w), t2)" "tree_walk P (p_new P ''dest_rot'') t1 = Some w"
    by blast
  have W: "set (steps P w) = below (tree_map t1) [''dest_rot'']" "top_down (map fst (steps P w))"
    using tree_walk_ok(2) [OF t1(2) w(2)] by (simp_all add: root_iter)
  have look: "\<forall>q. map_of (steps P w) (''dest_rot'' # q) = (if q = [] then None else tree_map t (s @ q))"
    using walk_lookup [OF W] t1(3) by simp
  have "below (tree_map t1) [''dest_rot''] = (\<lambda>(x, v). (''dest_rot'' # drop (length s) x, v)) ` below (tree_map t) s"
    by (force simp: below_def t1(3) image_iff)
  moreover have "inj_on (\<lambda>(x, v). (''dest_rot'' # drop (length s) x, v)) (below (tree_map t) s)"
    by (auto simp: inj_on_def below_def)
  ultimately have "card (set (steps P w)) = card (below (tree_map t) s)" using W(1) by (simp add: card_image)
  moreover have "distinct (steps P w)" using top_down_distinct [OF W(2)] by (simp add: distinct_map)
  ultimately have "length w = card (below (tree_map t) s)" using distinct_card [of "steps P w"] by (simp add: steps_def)
  moreover have "\<forall>x g. (x, g) \<in> set (steps P w) \<longrightarrow> (\<exists>q. x = ''dest_rot'' # q)" unfolding W(1) by (auto simp: below_def)
  ultimately show ?thesis using ws t1(1) w(1) W(2) look by blast
qed

lemma below_upd:
  assumes "tree_wf t"
  shows "card (below ((tree_map t)(d \<mapsto> h)) s) \<le> Suc (card (below (tree_map t) s))"
proof -
  have fin: "finite (below (tree_map t) s)" by (rule below_finite [OF assms])
  have "below ((tree_map t)(d \<mapsto> h)) s \<subseteq> insert (d, h) (below (tree_map t) s)" by (auto simp: below_def split: if_splits)
  then have "card (below ((tree_map t)(d \<mapsto> h)) s) \<le> card (insert (d, h) (below (tree_map t) s))"
    using fin by (intro card_mono) auto
  also have "\<dots> \<le> Suc (card (below (tree_map t) s))" using card_insert_if [OF fin, of "(d, h)"] by simp
  finally show ?thesis .
qed

text \<open>The second loop, from the repository \<open>r1\<close> that has the copy of the root at the destination.\<close>

lemma copy_rest_ok:
  assumes inv: "file_inv bl X S N good r1" and s: "s \<noteq> []" "tree_map (sr_state r1) s = Some h"
    and d: "p_iter P dest = d" "d \<noteq> []" "tree_map (sr_state r1) d = Some h1" "\<And>q. q \<noteq> [] \<Longrightarrow> tree_map (sr_state r1) (d @ q) = None"
    and w: "top_down (map fst (steps P w))"
      "\<And>x g. (x, g) \<in> set (steps P w) \<Longrightarrow> \<exists>q. x = ''dest_rot'' # q"
      "\<And>q. map_of (steps P w) (''dest_rot'' # q) = (if q = [] then None else tree_map (sr_state r1) (s @ q))"
    and left: "may_add (2 * Suc (length w)) r1"
  shows "\<exists>r'. forM ((p_new P ''dest_rot'', h) # w) (put_dest P dest) r1 = (Ok (), r') \<and> file_inv bl X S N good r' \<and>
    file_map bl X r' = (\<lambda>x. if prefix d x then file_map bl X r1 (s @ drop (length d) x) else file_map bl X r1 x) \<and>
    orphans bl X r' = orphans bl X r1 \<union> ok_object ` set (handle_keys h1)"
proof -
  note I = file_invD [OF inv]
  let ?m = "tree_map (sr_state r1)"
  have W: "(''dest_rot'' # q, g) \<in> set (steps P w) \<longleftrightarrow> q \<noteq> [] \<and> ?m (s @ q) = Some g" for q g
    using map_of_eq_Some_iff [OF top_down_distinct [OF w(1)], of "''dest_rot'' # q" g] w(3) [of q] by (auto split: if_splits)
  obtain rel where rel: "p_strip_prefix P (p_new P ''dest_rot'') (p_new P ''dest_rot'') = Some rel" "p_iter P rel = []"
    using strip_some [of "p_new P ''dest_rot''" "p_new P ''dest_rot''" "[]"] by auto
  have path: "p_iter P (p_join P dest rel) = d" by (simp add: iter_join rel(2) d(1))
  have "may_add (Suc (Suc (2 * length w))) r1" using left by simp
  from insert_copy_ok [OF inv this handle_live_tree [OF inv s(2)] path d(2) I(3) d(4)] obtain h2 r2' y r2 where
    r2: "copy_entry_handle h r1 = (Ok h2, r2')" "on_tree (tree_insert P (p_join P dest rel) h2) r2' = (Ok y, r2)" "file_inv bl X S N good r2"
    "tree_map (sr_state r2) = ?m(d \<mapsto> h2)" "file_map bl X r2 = (file_map bl X r1)(d \<mapsto> node_view (state_map bl X r1) h)"
    "orphans bl X r2 = orphans bl X r1 \<union> ok_object ` set (handle_keys h1)" "eh_type h2 = EDirectory \<longleftrightarrow> eh_type h = EDirectory"
    "may_add (2 * length w) r2"
    "\<And>g. handle_live bl X r1 g \<Longrightarrow> handle_live bl X r2 g \<and> node_view (state_map bl X r2) g = node_view (state_map bl X r1) g"
    using d(3) by auto
  have root: "put_dest P dest (p_new P ''dest_rot'', h) r1 = (Ok (), r2)"
    using r2(1,2) rel(1) by (simp add: put_dest_def bindR_def unwrap_option_def)
  have rest: "\<exists>q. x = ''dest_rot'' # q \<and> q \<noteq> [] \<and> handle_live bl X r2 g \<and> (\<forall>u. tree_map (sr_state r2) (d @ q @ u) = None) \<and>
      (in_directory (tree_map (sr_state r2)) (d @ q) \<or> (\<exists>h'. (butlast x, h') \<in> set (steps P w) \<and> eh_type h' = EDirectory))"
    if "(x, g) \<in> set (steps P w)" for x g
  proof -
    obtain q where q: "x = ''dest_rot'' # q" "q \<noteq> []" "?m (s @ q) = Some g"
      using w(2) [OF \<open>(x, g) \<in> set (steps P w)\<close>] \<open>(x, g) \<in> set (steps P w)\<close> W by blast
    obtain h' where h': "?m (s @ butlast q) = Some h'" "eh_type h' = EDirectory"
      using I(3) [of "s @ q"] q(2,3) s(1) by (auto simp: in_directory_def butlast_append)
    have "in_directory (tree_map (sr_state r2)) (d @ q) \<or> (\<exists>h'. (butlast x, h') \<in> set (steps P w) \<and> eh_type h' = EDirectory)"
    proof (cases "butlast q = []")
      case True
      then have "eh_type h2 = EDirectory" using h' s(2) r2(7) by simp
      with True q(2) show ?thesis by (simp add: in_directory_def butlast_append r2(4))
    qed (use h' W [of "butlast q" h'] q(1,2) in auto)
    with q r2(4,9) d(4) handle_live_tree [OF inv q(3)] show ?thesis by auto
  qed
  have "\<exists>r'. forM w (put_dest P dest) r2 = (Ok (), r') \<and> file_inv bl X S N good r' \<and> orphans bl X r' = orphans bl X r2 \<and>
    (\<forall>y. file_map bl X r' y = (case map_of (steps P w) (''dest_rot'' # drop (length d) y) of
        Some h \<Rightarrow> if prefix d y then Some (node_view (state_map bl X r2) h) else file_map bl X r2 y
      | None \<Rightarrow> file_map bl X r2 y))"
    by (rule put_dests_ok [OF r2(3,8) d(1,2) w(1)]) (erule rest)
  then obtain r' where r': "forM w (put_dest P dest) r2 = (Ok (), r')" "file_inv bl X S N good r'" "orphans bl X r' = orphans bl X r2"
    "\<And>y. file_map bl X r' y = (case map_of (steps P w) (''dest_rot'' # drop (length d) y) of
        Some h \<Rightarrow> if prefix d y then Some (node_view (state_map bl X r2) h) else file_map bl X r2 y
      | None \<Rightarrow> file_map bl X r2 y)"
    by blast
  have "file_map bl X r' y = (if prefix d y then file_map bl X r1 (s @ drop (length d) y) else file_map bl X r1 y)" for y
  proof (cases "prefix d y")
    case True
    then obtain q where q: "y = d @ q" by (auto simp: prefix_def)
    have "node_view (state_map bl X r2) g = node_view (state_map bl X r1) g" if "?m x = Some g" for x g
      using r2(9) [OF handle_live_tree [OF inv that]] by simp
    with r'(4) [of y] w(3) [of q] d(4) [of q] s(2) show ?thesis
      by (cases "q = []") (auto simp: q r2(5) file_map_def split: option.split)
  qed (use r'(4) [of y] r2(5) in \<open>auto split: option.split\<close>)
  with root r' r2(6) show ?thesis by (intro exI [of _ r']) (auto simp: bindR_Ok fun_eq_iff)
qed

lemma copy_tree_ok:
  assumes inv: "file_inv bl X S N good r" and s: "p_iter P source = s" "tree_map (sr_state r) s = Some h"
    and left: "may_add (2 * (card (below (tree_map (sr_state r)) s) + 3)) r"
    and d: "p_iter P dest = d" "d \<noteq> []" "tree_map (sr_state r) d = None" "in_directory (tree_map (sr_state r)) d"
  shows "\<exists>r' L. copy_tree P source dest r = (Ok (), r') \<and> file_inv bl X S N good r' \<and>
    file_map bl X r' = copied_tree s d (file_map bl X r) \<and>
    orphans bl X r' = orphans bl X r \<union> L \<and> L \<inter> orphans bl X r = {} \<and> card L = length (handle_keys h)"
proof -
  let ?m = "tree_map (sr_state r)" and ?n = "card (below (tree_map (sr_state r)) s)"
  have leaf: "?m (d @ q) = None" for q using leaf_of_absent [OF d(3,2)] .
  have ne: "s \<noteq> []" "s \<noteq> d" using s(2) d(3) by auto
  have "may_add (Suc (Suc (2 * (?n + 2)))) r" by (rule may_add_le [OF left]) simp
  from insert_copy_ok [OF inv this handle_live_tree [OF inv s(2)] d(1,2,4) leaf] obtain h1 r0 x r1 where
    r1: "copy_entry_handle h r = (Ok h1, r0)" "on_tree (tree_insert P dest h1) r0 = (Ok x, r1)" "file_inv bl X S N good r1"
    "tree_map (sr_state r1) = ?m(d \<mapsto> h1)" "file_map bl X r1 = (file_map bl X r)(d \<mapsto> node_view (state_map bl X r) h)"
    "orphans bl X r1 = orphans bl X r" "may_add (2 * (?n + 2)) r1"
    "ok_object ` set (handle_keys h1) \<inter> orphans bl X r = {}" "card (ok_object ` set (handle_keys h1)) = length (handle_keys h)"
    using d(3) by auto
  have s1: "tree_map (sr_state r1) s = Some h" using r1(4) s(2) ne(2) by simp
  obtain ws t1 w t2 where w: "tree_walk P source (sr_state r1) = Some ws" "build_dest_tree P source h ws = Ok t1"
    "tree_drain P (p_new P ''dest_rot'') t1 = (Some ((p_new P ''dest_rot'', h) # w), t2)" "top_down (map fst (steps P w))"
    "\<And>q. map_of (steps P w) (''dest_rot'' # q) = (if q = [] then None else tree_map (sr_state r1) (s @ q))"
    "\<And>y g. (y, g) \<in> set (steps P w) \<Longrightarrow> \<exists>q. y = ''dest_rot'' # q" "length w = card (below (tree_map (sr_state r1)) s)"
    using dest_list_ok [OF file_invD(2) [OF r1(3)] s(1) s1] by blast
  have "length w \<le> Suc ?n" using below_upd [OF file_invD(2) [OF inv], of d h1 s] w(7) r1(4) by simp
  then have left2: "may_add (2 * Suc (length w)) r1" by (intro may_add_le [OF r1(7)]) simp
  have d2: "tree_map (sr_state r1) d = Some h1" "\<And>q. q \<noteq> [] \<Longrightarrow> tree_map (sr_state r1) (d @ q) = None"
    using leaf by (simp_all add: r1(4))
  have "\<exists>r'. forM ((p_new P ''dest_rot'', h) # w) (put_dest P dest) r1 = (Ok (), r') \<and> file_inv bl X S N good r' \<and>
    file_map bl X r' = (\<lambda>x. if prefix d x then file_map bl X r1 (s @ drop (length d) x) else file_map bl X r1 x) \<and>
    orphans bl X r' = orphans bl X r1 \<union> ok_object ` set (handle_keys h1)"
    by (rule copy_rest_ok [OF r1(3) ne(1) s1 d(1,2) d2 w(4) _ w(5) left2]) (assumption, erule w(6))
  then obtain r' where r': "forM ((p_new P ''dest_rot'', h) # w) (put_dest P dest) r1 = (Ok (), r')" "file_inv bl X S N good r'"
    "file_map bl X r' = (\<lambda>x. if prefix d x then file_map bl X r1 (s @ drop (length d) x) else file_map bl X r1 x)"
    "orphans bl X r' = orphans bl X r1 \<union> ok_object ` set (handle_keys h1)"
    by blast
  have "copy_tree P source dest r = (Ok (), r')"
    using copy_guard_ok [of source dest r h] s d ne r1(1,2) w(1-3) r'(1)
    by (auto simp: copy_tree_def put_copy_def bindR_def unwrap_option_def lift_result_def simp del: forM.simps)
  moreover have "file_map bl X r' = copied_tree s d (file_map bl X r)"
    using r1(5) s(2) by (auto simp: r'(3) copied_tree_def fun_eq_iff file_map_def)
  ultimately show ?thesis using r'(2,4) r1(6,8,9) by (intro exI [of _ r'] exI [of _ "ok_object ` set (handle_keys h1)"]) auto
qed

end

section \<open>Refinement of a map of nodes\<close>

datatype ('q, 'p, 'm) file_command =
  FCreate 'q "('p, 'm) entry" | FRemove 'q | FRemoveTree 'q | FCopy 'q 'q | FCopyTree 'q 'q

definition dir_above :: "(string list \<rightharpoonup> file_node) \<Rightarrow> string list \<Rightarrow> bool" where
  "dir_above m p \<longleftrightarrow> butlast p = [] \<or> (\<exists>e. m (butlast p) = Some (DirectoryNode e))"

fun spec_create :: "'p file_type \<Rightarrow> bytes option \<Rightarrow> string list \<Rightarrow> (string list \<rightharpoonup> file_node) \<Rightarrow> unit result \<times> (string list \<rightharpoonup> file_node)" where
  "spec_create ty v p m =
    (if p = [] then (Err InvalidPath, m) else if m p \<noteq> None then (Err AlreadyExists, m)
     else if \<not> dir_above m p then (Err InvalidPath, m)
     else case v of None \<Rightarrow> (Err SerializeError, m) | Some v \<Rightarrow> (Ok (), m(p \<mapsto> new_node ty v)))"

fun spec_copy :: "((string list \<rightharpoonup> file_node) \<Rightarrow> (string list \<rightharpoonup> file_node)) \<Rightarrow> string list \<Rightarrow> string list \<Rightarrow> (string list \<rightharpoonup> file_node) \<Rightarrow>
    unit result \<times> (string list \<rightharpoonup> file_node)" where
  "spec_copy f s d m =
    (if s = [] \<or> d = [] then (Err InvalidPath, m) else if m d \<noteq> None then (Err AlreadyExists, m)
     else if \<not> dir_above m d then (Err InvalidPath, m)
     else if m s = None then (Err NotFound, m) else (Ok (), f m))"

fun spec_file :: "'q path_ops \<Rightarrow> ('p, 'm) entry_codec \<Rightarrow> ('q, 'p, 'm) file_command \<Rightarrow> (string list \<rightharpoonup> file_node) \<Rightarrow>
    unit result \<times> (string list \<rightharpoonup> file_node)" where
  "spec_file P K (FCreate q e) m = spec_create (file_type e) (to_vec_entry K e) (p_iter P q) m"
| "spec_file P K (FRemove q) m =
    (if p_iter P q = [] then (Err InvalidPath, m) else if m (p_iter P q) = None then (Err NotFound, m)
     else if below m (p_iter P q) \<noteq> {} then (Err NotEmpty, m) else (Ok (), m(p_iter P q := None)))"
| "spec_file P K (FRemoveTree q) m =
    (if p_iter P q = [] then (Err InvalidPath, m) else if m (p_iter P q) = None then (Err NotFound, m)
     else (Ok (), prune (p_iter P q) m))"
| "spec_file P K (FCopy s d) m = spec_copy (\<lambda>m. m(p_iter P d := m (p_iter P s))) (p_iter P s) (p_iter P d) m"
| "spec_file P K (FCopyTree s d) m = spec_copy (copied_tree (p_iter P s) (p_iter P d)) (p_iter P s) (p_iter P d) m"

fun run_file :: "('s, 'z) env \<Rightarrow> 'q path_ops \<Rightarrow> ('p, 'm) entry_codec \<Rightarrow> ('q, 'p, 'm) file_command \<Rightarrow> ('s file_repo, unit) op" where
  "run_file E P K (FCreate q e) r = file_create E P K q e r"
| "run_file E P K (FRemove q) r = file_remove P q r"
| "run_file E P K (FRemoveTree q) r = remove_tree P q r"
| "run_file E P K (FCopy s d) r = file_copy P s d r"
| "run_file E P K (FCopyTree s d) r = copy_tree P s d r"

text \<open>The paths whose objects a command removes.\<close>

fun file_frees :: "'q path_ops \<Rightarrow> ('q, 'p, 'm) file_command \<Rightarrow> string list option" where
  "file_frees P (FRemove q) = Some (p_iter P q)"
| "file_frees P (FRemoveTree q) = Some (p_iter P q)"
| "file_frees P c = None"

text \<open>There are IDs for the objects that a command creates, and its entry fits into the repository.\<close>

fun file_feasible :: "'q path_ops \<Rightarrow> ('p, 'm) entry_codec \<Rightarrow> bytes set \<Rightarrow> nat \<Rightarrow> ('q, 'p, 'm) file_command \<Rightarrow> 's file_repo \<Rightarrow> bool" where
  "file_feasible P K S N (FCreate q e) r \<longleftrightarrow> may_add 2 r \<and> (\<forall>v. to_vec_entry K e = Some v \<longrightarrow> may_store S N r v)"
| "file_feasible P K S N (FRemove q) r \<longleftrightarrow> True"
| "file_feasible P K S N (FRemoveTree q) r \<longleftrightarrow> True"
| "file_feasible P K S N (FCopy s d) r \<longleftrightarrow> may_add 2 r"
| "file_feasible P K S N (FCopyTree s d) r \<longleftrightarrow> may_add (2 * (card (below (tree_map (sr_state r)) (p_iter P s)) + 3)) r"

lemma node_view_dir: "(\<exists>e. node_view M h = DirectoryNode e) \<longleftrightarrow> eh_type h = EDirectory"
  by (simp add: node_view_def Let_def split: entry_type.split)

lemma dir_above_iff: "dir_above (file_map bl X r) p \<longleftrightarrow> in_directory (tree_map (sr_state r)) p"
  by (cases "tree_map (sr_state r) (butlast p)") (simp_all add: dir_above_def in_directory_def file_map_def node_view_dir)

lemma below_file_map: "below (file_map bl X r) p = {} \<longleftrightarrow> (\<forall>q. q \<noteq> [] \<longrightarrow> tree_map (sr_state r) (p @ q) = None)"
proof -
  have "below m p = {} \<longleftrightarrow> (\<forall>q. q \<noteq> [] \<longrightarrow> m (p @ q) = None)" for m :: "string list \<rightharpoonup> file_node"
    by (auto simp: below_def set_eq_iff) (metis option.exhaust)
  then show ?thesis by (simp add: file_map_None)
qed

lemma create_refines:
  fixes r :: "'s file_repo"
  assumes "key_env E bl cinv cfresh cpend S M good" and P: "rel_path P" and inv: "file_inv bl (ev_ext E) S N good r"
    and f: "may_add 2 r" "\<And>v. to_vec_entry K e = Some v \<Longrightarrow> may_store S N r v"
  shows "\<exists>x r'. file_create E P K q e r = (x, r') \<and>
    spec_create (file_type e) (to_vec_entry K e) (p_iter P q) (file_map bl (ev_ext E) r) = (x, file_map bl (ev_ext E) r') \<and>
    file_inv bl (ev_ext E) S N good r' \<and> orphans bl (ev_ext E) r' = orphans bl (ev_ext E) r"
proof -
  let ?p = "p_iter P q" and ?m = "tree_map (sr_state r)"
  note iff = rel_path.is_empty_path [OF P] rel_path.file_exists_iff [OF P] rel_path.has_parent_iff [OF P]
  consider "?p = []" | "?p \<noteq> []" "?m ?p \<noteq> None" | "?p \<noteq> []" "?m ?p = None" "\<not> in_directory ?m ?p"
    | "?p \<noteq> []" "?m ?p = None" "in_directory ?m ?p" by blast
  then show ?thesis
  proof cases
    case 4
    show ?thesis
    proof (cases "to_vec_entry K e")
      case None
      have "may_add 1 r" by (rule may_add_le [OF f(1)]) simp
      from key_env.file_create_error [OF assms(1) P inv this None refl 4] show ?thesis
        using 4 None by (auto simp: dir_above_iff file_map_None)
    next
      case (Some v)
      have "may_add (Suc (Suc 0)) r" using f(1) by (simp add: numeral_2_eq_2)
      from key_env.file_create_ok [OF assms(1) P inv this f(2) [OF Some] Some refl 4] show ?thesis
        using 4 Some by (auto simp: dir_above_iff file_map_None)
    qed
  qed (use inv in \<open>auto simp: file_create_def iff dir_above_iff file_map_None\<close>)
qed

lemma remove_refines:
  assumes P: "rel_path P" and inv: "file_inv bl X S N good r" 
    and f: "removable_below r (p_iter P q) \<or> \<not> panics (file_remove P q) r"
  shows "\<exists>x r'. run_file E P K (FRemove q) r = (x, r') \<and> spec_file P K (FRemove q) (file_map bl X r) = (x, file_map bl X r') \<and>
    file_inv bl X S N good r' \<and> orphans bl X r' = orphans bl X r"
proof -
  let ?p = "p_iter P q" and ?m = "tree_map (sr_state r)"
  note list = rel_path.tree_list_none [OF P, of q "sr_state r"] rel_path.tree_list_empty [OF P, of q "sr_state r"]
  note none = rel_path.is_empty_path [OF P] file_map_None below_file_map
  consider "?p = []" | "?p \<noteq> []" "?m ?p = None" | "?p \<noteq> []" "?m ?p \<noteq> None" "\<exists>u. u \<noteq> [] \<and> ?m (?p @ u) \<noteq> None"
    | h where "?m ?p = Some h" "\<And>u. u \<noteq> [] \<Longrightarrow> ?m (?p @ u) = None" by blast
  then show ?thesis
  proof cases
    case 3
    then obtain cs where "tree_list P q (sr_state r) = Some cs" "cs \<noteq> []" using list by fastforce
    with 3 inv show ?thesis by (auto simp: file_remove_def none)
  next
    case (4 h)
    then have "?p \<noteq> []" by auto
    with rel_path.file_remove_ok [OF P inv refl 4 f] 4 show ?thesis by (auto simp: none)
  qed (use inv list in \<open>auto simp: file_remove_def none\<close>)
qed

lemma remove_tree_refines:
  assumes P: "rel_path P" and inv: "file_inv bl X S N good r" 
    and f: "removable_below r (p_iter P q) \<or> \<not> panics (remove_tree P q) r"
  shows "\<exists>x r'. run_file E P K (FRemoveTree q) r = (x, r') \<and> spec_file P K (FRemoveTree q) (file_map bl X r) = (x, file_map bl X r') \<and>
    file_inv bl X S N good r' \<and> orphans bl X r' = orphans bl X r"
proof -
  let ?p = "p_iter P q" and ?m = "tree_map (sr_state r)"
  consider "?p = []" | "?p \<noteq> []" "?m ?p = None" | h where "?m ?p = Some h" by blast
  then show ?thesis
  proof cases
    case 2
    with inv rel_path.tree_drain_absent [OF P 2(2)] show ?thesis
      by (auto simp: remove_tree_def rel_path.is_empty_path [OF P] on_tree_def bindR_def file_map_None)
  next
    case (3 h)
    then have "?p \<noteq> []" by auto
    with rel_path.remove_tree_ok [OF P inv refl 3 f] 3 show ?thesis by (auto simp: file_map_None)
  qed (use inv in \<open>auto simp: remove_tree_def rel_path.is_empty_path [OF P]\<close>)
qed

lemma copy_refines:
  assumes P: "rel_path P" and inv: "file_inv bl X S N good r"
    and op: "op = bindR (copy_guard P s d) m"
    and ok: "\<And>h. tree_map (sr_state r) (p_iter P s) = Some h \<Longrightarrow> p_iter P d \<noteq> [] \<Longrightarrow> tree_map (sr_state r) (p_iter P d) = None \<Longrightarrow>
      in_directory (tree_map (sr_state r)) (p_iter P d) \<Longrightarrow> \<exists>r'. op r = (Ok (), r') \<and> file_inv bl X S N good r' \<and>
        file_map bl X r' = f (file_map bl X r) \<and> Q (orphans bl X r')" and Q: "Q (orphans bl X r)"
  shows "\<exists>x r'. op r = (x, r') \<and> spec_copy f (p_iter P s) (p_iter P d) (file_map bl X r) = (x, file_map bl X r') \<and>
    file_inv bl X S N good r' \<and> Q (orphans bl X r')"
proof -
  let ?s = "p_iter P s" and ?d = "p_iter P d" and ?m = "tree_map (sr_state r)"
  note iff = rel_path.is_empty_path [OF P] rel_path.file_exists_iff [OF P] rel_path.has_parent_iff [OF P] rel_path.tree_get_ok [OF P]
  consider "?s = [] \<or> ?d = []" | "?s \<noteq> []" "?d \<noteq> []" "?m ?d \<noteq> None" | "?s \<noteq> []" "?d \<noteq> []" "?m ?d = None" "\<not> in_directory ?m ?d"
    | "?s \<noteq> []" "?d \<noteq> []" "?m ?d = None" "in_directory ?m ?d" "?m ?s = None"
    | h where "?s \<noteq> []" "?d \<noteq> []" "?m ?d = None" "in_directory ?m ?d" "?m ?s = Some h" by blast
  then show ?thesis
  proof cases
    case (5 h)
    with ok [OF 5(5,2,3,4)] show ?thesis by (auto simp: dir_above_iff file_map_None)
  qed (use inv Q in \<open>auto simp: op bindR_def copy_guard_def iff dir_above_iff file_map_None\<close>)
qed

lemma file_simulated:
  fixes r :: "'s file_repo"
  assumes "key_env E bl cinv cfresh cpend S M good" "rel_path P" "file_inv bl (ev_ext E) S N good r" "file_feasible P K S N c r"
    and un: "(\<forall>p. file_frees P c = Some p \<longrightarrow> removable_below r p) \<or> \<not> panics (run_file E P K c) r"
  shows "\<exists>x r'. run_file E P K c r = (x, r') \<and> spec_file P K c (file_map bl (ev_ext E) r) = (x, file_map bl (ev_ext E) r') \<and>
    file_inv bl (ev_ext E) S N good r' \<and>
    (case c of FCopyTree _ _ \<Rightarrow> orphans bl (ev_ext E) r \<subseteq> orphans bl (ev_ext E) r' | _ \<Rightarrow> orphans bl (ev_ext E) r' = orphans bl (ev_ext E) r)"
proof (cases c)
  case (FCreate q e)
  with create_refines [OF assms(1-3), of K e q] assms(4) show ?thesis by (simp del: spec_create.simps)
next
  case (FRemove q)
  then have "removable_below r (p_iter P q) \<or> \<not> panics (file_remove P q) r" using un by (auto simp: panics_def)
  with FRemove remove_refines [OF assms(2,3), of q E K] show ?thesis by (simp del: spec_file.simps run_file.simps)
next
  case (FRemoveTree q)
  then have "removable_below r (p_iter P q) \<or> \<not> panics (remove_tree P q) r" using un by (auto simp: panics_def)
  with FRemoveTree remove_tree_refines [OF assms(2,3), of q E K] show ?thesis by (simp del: spec_file.simps run_file.simps)
next
  case (FCopy s d)
  have "\<exists>x r'. file_copy P s d r = (x, r') \<and> spec_copy (\<lambda>m. m(p_iter P d := m (p_iter P s))) (p_iter P s) (p_iter P d)
      (file_map bl (ev_ext E) r) = (x, file_map bl (ev_ext E) r') \<and> file_inv bl (ev_ext E) S N good r' \<and>
      orphans bl (ev_ext E) r' = orphans bl (ev_ext E) r"
  proof (rule copy_refines [OF assms(2,3), of "file_copy P s d" s d, OF file_copy_def])
    fix h assume h: "tree_map (sr_state r) (p_iter P s) = Some h" "p_iter P d \<noteq> []" "tree_map (sr_state r) (p_iter P d) = None"
      "in_directory (tree_map (sr_state r)) (p_iter P d)"
    have "may_add 2 r" using FCopy assms(4) by simp
    from rel_path.file_copy_ok [OF assms(2,3) this refl h(1) refl h(2-4)]
    show "\<exists>r'. file_copy P s d r = (Ok (), r') \<and> file_inv bl (ev_ext E) S N good r' \<and>
        file_map bl (ev_ext E) r' = (file_map bl (ev_ext E) r)(p_iter P d := file_map bl (ev_ext E) r (p_iter P s)) \<and>
        orphans bl (ev_ext E) r' = orphans bl (ev_ext E) r" .
  qed simp
  then show ?thesis by (simp add: FCopy del: spec_copy.simps)
next
  case (FCopyTree s d)
  have "\<exists>x r'. copy_tree P s d r = (x, r') \<and> spec_copy (copied_tree (p_iter P s) (p_iter P d)) (p_iter P s) (p_iter P d)
      (file_map bl (ev_ext E) r) = (x, file_map bl (ev_ext E) r') \<and> file_inv bl (ev_ext E) S N good r' \<and>
      orphans bl (ev_ext E) r \<subseteq> orphans bl (ev_ext E) r'"
  proof (rule copy_refines [OF assms(2,3), of "copy_tree P s d" s d, OF copy_tree_def])
    fix h assume h: "tree_map (sr_state r) (p_iter P s) = Some h" "p_iter P d \<noteq> []" "tree_map (sr_state r) (p_iter P d) = None"
      "in_directory (tree_map (sr_state r)) (p_iter P d)"
    have "may_add (2 * (card (below (tree_map (sr_state r)) (p_iter P s)) + 3)) r" using FCopyTree assms(4) by simp
    from rel_path.copy_tree_ok [OF assms(2,3) refl h(1) this refl h(2-4)]
    show "\<exists>r'. copy_tree P s d r = (Ok (), r') \<and> file_inv bl (ev_ext E) S N good r' \<and>
        file_map bl (ev_ext E) r' = copied_tree (p_iter P s) (p_iter P d) (file_map bl (ev_ext E) r) \<and>
        orphans bl (ev_ext E) r \<subseteq> orphans bl (ev_ext E) r'" by auto
  qed simp
  then show ?thesis by (simp add: FCopyTree del: spec_copy.simps)
qed

text \<open>
  C21: A file repository refines a map from paths to nodes: files with an entry and contents, directories and
  special files with an entry.  Creating, removing, removing a tree, copying and copying a tree have the effect and the
  errors of the specification on every branch: the empty path, a missing parent or one that is no
  directory, an existing destination, a missing source, a directory that is not empty, and an entry that cannot be
  serialized.  Every step keeps the invariant: entries are in directories and have objects of their own.  Except for
  copying a tree, the objects that belong to no entry stay the same, so no operation leaks an object.  The one exception:
  removing a file or a tree may panic if a chunk occurs twice in one of the objects that it removes, as in a file of
  repeated blocks.  Free IDs for the objects that are created are assumed, and that a new entry fits into the repository.
\<close>

theorem file_refines:
  fixes r :: "'s file_repo"
  assumes "key_env E bl cinv cfresh cpend S M good" "rel_path P" "file_inv bl (ev_ext E) S N good r" "file_feasible P K S N c r"
  shows "(\<exists>x r'. run_file E P K c r = (x, r') \<and> spec_file P K c (file_map bl (ev_ext E) r) = (x, file_map bl (ev_ext E) r') \<and>
      file_inv bl (ev_ext E) S N good r' \<and>
      (case c of FCopyTree _ _ \<Rightarrow> orphans bl (ev_ext E) r \<subseteq> orphans bl (ev_ext E) r' | _ \<Rightarrow> orphans bl (ev_ext E) r' = orphans bl (ev_ext E) r)) \<or>
    (\<exists>p msg r'. file_frees P c = Some p \<and> \<not> removable_below r p \<and> run_file E P K c r = (Panic msg, r'))"
proof (cases "(\<forall>p. file_frees P c = Some p \<longrightarrow> removable_below r p) \<or> \<not> panics (run_file E P K c) r")
  case True
  from file_simulated [OF assms this] show ?thesis by blast
next
  case False
  then show ?thesis by (auto simp: panics_iff)
qed

text \<open>
  C36: Copying a tree copies its root twice and forgets the first copy: each time it succeeds, the objects of that
  copy (the entry, and the contents if it is a file) stay in the repository and belong to no entry, so they are never
  removed again.
\<close>

theorem copy_tree_leaks:
  assumes "rel_path P" "file_inv bl X S N good r" "file_exists P r source" "may_add (2 * (card (below (tree_map (sr_state r)) (p_iter P source)) + 3)) r"
    and "\<not> p_eq P dest (EMPTY_PATH P)" "\<not> file_exists P r dest" "has_parent P r dest"
  shows "\<exists>r' L. copy_tree P source dest r = (Ok (), r') \<and> orphans bl X r' = orphans bl X r \<union> L \<and>
    L \<inter> orphans bl X r = {} \<and> card L = (if is_file P r source then 2 else 1)"
proof -
  note iff = rel_path.is_empty_path [OF assms(1)] rel_path.file_exists_iff [OF assms(1)]
  have d: "p_iter P dest \<noteq> []" using assms(5) iff(1) by simp
  then have dir: "in_directory (tree_map (sr_state r)) (p_iter P dest)" using assms(7) rel_path.has_parent_iff [OF assms(1) d, of r] by blast
  obtain h where h: "tree_map (sr_state r) (p_iter P source) = Some h" using assms(3) iff(2) by auto
  have len: "length (handle_keys h) = (if is_file P r source then 2 else 1)"
    by (simp add: is_file_def rel_path.tree_get_ok [OF assms(1)] h handle_keys_def split: entry_type.split)
  have "tree_map (sr_state r) (p_iter P dest) = None" using assms(6) iff(2) by blast
  from rel_path.copy_tree_ok [OF assms(1,2) refl h assms(4) refl d this dir] obtain r' L where
    "copy_tree P source dest r = (Ok (), r')" "orphans bl X r' = orphans bl X r \<union> L" "L \<inter> orphans bl X r = {}"
    "card L = length (handle_keys h)" by blast
  then show ?thesis unfolding len by blast
qed

end
