(* ===== verification/File_Data.thy ===== *)
theory File_Data
  imports File_Contract
begin

text \<open>
  Reading and changing the entries of a file repository, creating the ancestors of an entry, and evaluation on a
  concrete repository.
\<close>

section \<open>Entries\<close>

fun node_entry :: "file_node \<Rightarrow> bytes" where
  "node_entry (FileNode e c) = e"
| "node_entry (DirectoryNode e) = e"
| "node_entry (SpecialNode e) = e"

fun with_entry :: "bytes \<Rightarrow> file_node \<Rightarrow> file_node" where
  "with_entry v (FileNode e c) = FileNode v c"
| "with_entry v (DirectoryNode e) = DirectoryNode v"
| "with_entry v (SpecialNode e) = SpecialNode v"

text \<open>What is serialized is read back.\<close>

definition entry_codec_ok :: "('p, 'm) entry_codec \<Rightarrow> bool" where
  "entry_codec_ok K \<longleftrightarrow> (\<forall>e v. to_vec_entry K e = Some v \<longrightarrow> fst (run_decoder slice_read (from_entry K) v) = Ok e)"

lemma node_entry_view: "node_entry (node_view M h) = the (M (ok_object (eh_entry h)))"
  by (simp add: node_view_def Let_def split: entry_type.split)

lemma node_view_write:
  assumes "distinct (map ok_object (handle_keys h))"
  shows "node_view (M(ok_object (eh_entry h) \<mapsto> v)) h = with_entry v (node_view M h)"
  using assms by (auto simp: node_view_def handle_keys_def split: entry_type.splits)

lemma write_entry:
  assumes inv: "file_inv bl X S N good r" and h: "tree_map (sr_state r) p = Some h"
    and s: "state_inv bl X S N good r'" "state_step bl L r r'" "sr_state r' = sr_state r"
    and m: "state_map bl X r' = (state_map bl X r)(ok_object (eh_entry h) \<mapsto> v)"
  shows "file_inv bl X S N good r'" "file_map bl X r' = (file_map bl X r)(p \<mapsto> with_entry v (node_view (state_map bl X r) h))"
    "orphans bl X r' = orphans bl X r"
proof -
  have key: "eh_entry h \<in> set (handle_keys h)" by (simp add: handle_keys_def)
  have c: "check_key r' = check_key r" using state_step_check [OF s(2)] by simp
  have "file_slot (tree_map (sr_state r)) (EntryAt p) = Some (eh_entry h)" using h by simp
  from index_write(1) [OF file_invD(4) [OF inv] c m this] show "file_inv bl X S N good r'"
    using inv s by (simp add: file_inv_def)
  have "dom (state_map bl X r') = dom (state_map bl X r)" using handle_key_ok(2) [OF inv h key] by (auto simp: m)
  then show "orphans bl X r' = orphans bl X r" by (simp add: orphans_def s(3))
  show "file_map bl X r' = (file_map bl X r)(p \<mapsto> with_entry v (node_view (state_map bl X r) h))"
  proof
    fix q show "file_map bl X r' q = ((file_map bl X r)(p \<mapsto> with_entry v (node_view (state_map bl X r) h))) q"
    proof (cases "q = p \<or> tree_map (sr_state r) q = None")
      case True
      then show ?thesis using node_view_write [OF handle_keys_distinct [OF inv h]] h by (auto simp: file_map_def s(3) m)
    next
      case False
      then obtain g where g: "tree_map (sr_state r) q = Some g" "q \<noteq> p" by auto
      have "node_view (state_map bl X r') g = node_view (state_map bl X r) g"
        by (rule node_view_cong) (use handle_keys_apart [OF inv g(1) h _ key] g(2) in \<open>auto simp: m\<close>)
      with g show ?thesis by (simp add: file_map_def s(3))
    qed
  qed
qed

context key_env
begin

lemma file_entry_ok:
  fixes r :: "'s file_repo"
  assumes P: "rel_path P" and inv: "file_inv blocks X S N good r" and n: "file_map blocks X r (p_iter P path) = Some n"
  shows "\<exists>r'. file_entry E P K path r = (fst (run_decoder slice_read (from_entry K) (node_entry n)), r') \<and>
    file_inv blocks X S N good r' \<and> file_map blocks X r' = file_map blocks X r \<and> orphans blocks X r' = orphans blocks X r \<and>
    sr_state r' = sr_state r \<and> rng (rstate (sr_repo r')) = rng (rstate (sr_repo r)) \<and> state_step blocks {} r r' \<and>
    same_places blocks X r r'"
proof -
  obtain h where h: "tree_map (sr_state r) (p_iter P path) = Some h" "n = node_view (state_map blocks X r) h"
    using n by (auto simp: file_map_def)
  have key: "check_key r (eh_entry h)" "state_map blocks X r (ok_object (eh_entry h)) = Some (node_entry n)"
    using handle_key_ok [OF inv h(1), of "eh_entry h"] by (auto simp: handle_keys_def h(2) node_entry_view)
  obtain r' where r': "state_use (ev_zpaq E) (eh_entry h) (view_deserialize (ev_store E) X (from_entry K)) r =
      (fst (run_decoder slice_read (from_entry K) (node_entry n)), r')" "state_inv blocks X S N good r'" "state_step blocks {} r r'"
    "state_map blocks X r' = state_map blocks X r" "sr_state r' = sr_state r" "rng (rstate (sr_repo r')) = rng (rstate (sr_repo r))"
    "same_places blocks X r r'"
    using state_deserialize_ok [OF file_invD(1) [OF inv] key, of "from_entry K"] by blast
  have "p_iter P path \<noteq> []" using h(1) by auto
  then have "file_entry E P K path r = (fst (run_decoder slice_read (from_entry K) (node_entry n)), r')"
    using r'(1) h(1) by (simp add: file_entry_def rel_path.is_empty_path [OF P] rel_path.tree_get_ok [OF P])
  moreover have "file_inv blocks X S N good r'"
    using inv r'(2,5) index_same(1) [OF file_invD(4) [OF inv] _ r'(4)] state_step_check [OF r'(3)] by (simp add: file_inv_def)
  moreover have "file_map blocks X r' = file_map blocks X r" by (rule ext) (simp add: file_map_def r'(4,5))
  ultimately show ?thesis using r'(3-7) by (intro exI [of _ r']) (simp add: orphans_def)
qed

lemma set_metadata_ok:
  fixes r :: "'s file_repo"
  assumes P: "rel_path P" and inv: "file_inv blocks X S N good r" and n: "file_map blocks X r (p_iter P path) = Some n"
    and e: "fst (run_decoder slice_read (from_entry K) (node_entry n)) = Ok e"
      "to_vec_entry K (e\<lparr>entry_metadata := md\<rparr>) = Some v" and room: "room_for N (rstate (sr_repo r)) (node_entry n) v"
  shows "\<exists>r'. set_metadata E P K path md r = (Ok (), r') \<and> file_inv blocks X S N good r' \<and>
    file_map blocks X r' = (file_map blocks X r)(p_iter P path \<mapsto> with_entry v n) \<and> orphans blocks X r' = orphans blocks X r \<and>
    sr_state r' = sr_state r \<and> same_places blocks X r r' \<and>
    (\<forall>h. tree_map (sr_state r) (p_iter P path) = Some h \<longrightarrow> state_step blocks {KObject (ok_object (eh_entry h))} r r')"
proof -
  obtain h where h: "tree_map (sr_state r) (p_iter P path) = Some h" "n = node_view (state_map blocks X r) h"
    using n by (auto simp: file_map_def)
  have key: "check_key r (eh_entry h)" "state_map blocks X r (ok_object (eh_entry h)) = Some (node_entry n)"
    using handle_key_ok [OF inv h(1), of "eh_entry h"] by (auto simp: handle_keys_def h(2) node_entry_view)
  obtain r' where r': "state_use (ev_zpaq E) (eh_entry h) (update_entry E K md) r = (Ok (), r')" "state_inv blocks X S N good r'"
    "state_step blocks {KObject (ok_object (eh_entry h))} r r'" "sr_state r' = sr_state r"
    "state_map blocks X r' = (state_map blocks X r)(ok_object (eh_entry h) \<mapsto> v)" "same_places blocks X r r'"
    using state_rewrite_ok [OF file_invD(1) [OF inv] key e(1), of "\<lambda>e. to_vec_entry K (e\<lparr>entry_metadata := md\<rparr>)" v] e(2) room
    unfolding update_entry_def by blast
  have "p_iter P path \<noteq> []" using h(1) by auto
  then have "set_metadata E P K path md r = (Ok (), r')"
    using r'(1) h(1) by (simp add: set_metadata_def rel_path.is_empty_path [OF P] rel_path.tree_get_ok [OF P])
  with write_entry [OF inv h(1) r'(2-5)] h r'(3,4,6) show ?thesis by auto
qed

end

text \<open>
  The metadata of an entry.  Setting it changes the entry of the path and nothing else: the type of the entry, the
  contents of a file and all other nodes stay, and afterwards the entry is read back with the new metadata.
\<close>

theorem file_metadata_roundtrip:
  fixes r :: "'s file_repo"
  assumes "key_env E bl cinv cfresh cpend S M good" "rel_path P" "entry_codec_ok K" "file_inv bl (ev_ext E) S N good r"
    and "file_map bl (ev_ext E) r (p_iter P path) = Some n" "fst (run_decoder slice_read (from_entry K) (node_entry n)) = Ok e"
    and "to_vec_entry K (e\<lparr>entry_metadata := md\<rparr>) = Some v" "overwrite 0 v (node_entry n) \<in> S" "length v < 2 ^ 63"
      "rng (rstate (sr_repo r)) + 2 * (2 * length (node_entry n) + length v + 6) \<le> N"
  shows "\<exists>r'. set_metadata E P K path md r = (Ok (), r') \<and> file_inv bl (ev_ext E) S N good r' \<and>
    file_map bl (ev_ext E) r' = (file_map bl (ev_ext E) r)(p_iter P path \<mapsto> with_entry v n) \<and>
    fst (file_entry E P K path r') = Ok (e\<lparr>entry_metadata := md\<rparr>)"
proof -
  obtain r' where r': "set_metadata E P K path md r = (Ok (), r')" "file_inv bl (ev_ext E) S N good r'"
    "file_map bl (ev_ext E) r' = (file_map bl (ev_ext E) r)(p_iter P path \<mapsto> with_entry v n)"
    using key_env.set_metadata_ok [OF assms(1,2,4-7)] assms(8-10) by blast
  have "file_map bl (ev_ext E) r' (p_iter P path) = Some (with_entry v n)" "node_entry (with_entry v n) = v"
    by (simp add: r'(3), cases n) simp_all
  with key_env.file_entry_ok [OF assms(1,2) r'(2), of path "with_entry v n" K] assms(3,7)
  have "fst (file_entry E P K path r') = Ok (e\<lparr>entry_metadata := md\<rparr>)" by (auto simp: entry_codec_ok_def)
  with r' show ?thesis by blast
qed

section \<open>Creating ancestors\<close>

text \<open>The map with directories at all prefixes of a path that are not in it.\<close>

definition with_ancestors :: "bytes \<Rightarrow> string list \<Rightarrow> string list \<Rightarrow> (string list \<rightharpoonup> file_node) \<Rightarrow> (string list \<rightharpoonup> file_node)" where
  "with_ancestors dv a cs m = (\<lambda>q. if (\<exists>c. c \<noteq> [] \<and> prefix c cs \<and> q = a @ c) \<and> m q = None then Some (DirectoryNode dv) else m q)"

definition dirs_along :: "(string list \<rightharpoonup> file_node) \<Rightarrow> string list \<Rightarrow> string list \<Rightarrow> bool" where
  "dirs_along m a cs \<longleftrightarrow> (\<forall>c n. c \<noteq> [] \<longrightarrow> prefix c cs \<longrightarrow> m (a @ c) = Some n \<longrightarrow> (\<exists>e. n = DirectoryNode e))"

lemma prefix_Cons_iff: "c \<noteq> [] \<and> prefix c (x # xs) \<longleftrightarrow> c = [x] \<or> (\<exists>c'. c = x # c' \<and> c' \<noteq> [] \<and> prefix c' xs)"
  by (cases c) auto

lemma with_ancestors_Cons:
  "with_ancestors dv a (x # cs) m = with_ancestors dv (a @ [x]) cs (if m (a @ [x]) = None then m(a @ [x] \<mapsto> DirectoryNode dv) else m)"
proof
  fix q
  have "(\<exists>c. c \<noteq> [] \<and> prefix c (x # cs) \<and> q = a @ c) \<longleftrightarrow> q = a @ [x] \<or> (\<exists>c. c \<noteq> [] \<and> prefix c cs \<and> q = (a @ [x]) @ c)"
    unfolding conj_assoc [symmetric] prefix_Cons_iff by auto
  then show "with_ancestors dv a (x # cs) m q =
      with_ancestors dv (a @ [x]) cs (if m (a @ [x]) = None then m(a @ [x] \<mapsto> DirectoryNode dv) else m) q"
    unfolding with_ancestors_def by auto
qed

lemma dirs_along_Cons:
  assumes "dirs_along m a (x # cs)"
  shows "dirs_along m (a @ [x]) cs" "dirs_along (m(a @ [x] \<mapsto> n)) (a @ [x]) cs"
    "m (a @ [x]) = Some n \<Longrightarrow> \<exists>e. n = DirectoryNode e"
proof -
  have all: "\<And>c n. c \<noteq> [] \<Longrightarrow> prefix c (x # cs) \<Longrightarrow> m (a @ c) = Some n \<Longrightarrow> \<exists>e. n = DirectoryNode e"
    using assms by (simp add: dirs_along_def)
  show "m (a @ [x]) = Some n \<Longrightarrow> \<exists>e. n = DirectoryNode e" using all [of "[x]"] by simp
  show "dirs_along m (a @ [x]) cs" "dirs_along (m(a @ [x] \<mapsto> n)) (a @ [x]) cs"
    unfolding dirs_along_def using all [of "x # c" for c] by (auto split: if_splits)
qed

definition may_create :: "bytes set \<Rightarrow> nat \<Rightarrow> 's file_repo \<Rightarrow> nat \<Rightarrow> bytes \<Rightarrow> nat \<Rightarrow> bool" where
  "may_create S N r k dv b \<longleftrightarrow> may_add (2 * k + 2) r \<and> dv \<in> S \<and> length dv < 2 ^ 63 \<and>
     rng (rstate (sr_repo r)) + 2 * (length dv + 6) * k + b \<le> N"

context key_env
begin

lemma file_create_exists:
  fixes r :: "'s file_repo"
  assumes P: "rel_path P" and p: "p_iter P path \<noteq> []" "file_map blocks X r (p_iter P path) \<noteq> None"
  shows "file_create E P K path e r = (Err AlreadyExists, r)"
  using assms by (auto simp: file_create_def rel_path.is_empty_path [OF P] rel_path.file_exists_iff [OF P] file_map_None)

lemma create_ancestors_ok:
  fixes r :: "'s file_repo"
  assumes P: "rel_path P" and dv: "to_vec_entry K (entry_directory :: ('p, 'm) entry) = Some dv"
    and "file_inv blocks X S N good r" "p_iter P anc = a" "\<forall>c \<in> set cs. is_segment c"
    and "a = [] \<or> (\<exists>e. file_map blocks X r a = Some (DirectoryNode e))" "dirs_along (file_map blocks X r) a cs"
    and "may_create S N r (length cs) dv b"
  shows "\<exists>r'. create_ancestors E P (K :: ('p, 'm) entry_codec) anc cs r = (Ok (), r') \<and> file_inv blocks X S N good r' \<and>
    file_map blocks X r' = with_ancestors dv a cs (file_map blocks X r) \<and> orphans blocks X r' = orphans blocks X r \<and>
    may_create S N r' 0 dv b"
  using assms(3-)
proof (induction cs arbitrary: r anc a)
  case Nil
  then show ?case by (auto simp: with_ancestors_def may_create_def)
next
  case (Cons x cs)
  let ?anc = "p_join P anc (p_new P x)" and ?q = "a @ [x]" and ?m = "file_map blocks X r"
  have it: "p_iter P ?anc = ?q" using rel_path.child_iter [OF P, of x anc] Cons.prems(2,3) by simp
  have seg: "\<forall>c \<in> set cs. is_segment c" using Cons.prems(3) by simp
  show ?case
  proof (cases "?m ?q")
    case (Some n)
    then obtain e where e: "n = DirectoryNode e" using dirs_along_Cons(3) [OF Cons.prems(5)] by blast
    have "may_create S N r (length cs) dv b" using Cons.prems(6) by (auto simp: may_create_def intro: may_add_le)
    then obtain r' where r': "create_ancestors E P K ?anc cs r = (Ok (), r')" "file_inv blocks X S N good r'"
      "file_map blocks X r' = with_ancestors dv ?q cs ?m" "orphans blocks X r' = orphans blocks X r" "may_create S N r' 0 dv b"
      using Cons.IH [OF Cons.prems(1) it seg _ dirs_along_Cons(1) [OF Cons.prems(5)]] Some e by blast
    have "file_create E P K ?anc entry_directory r = (Err AlreadyExists, r)"
      by (rule file_create_exists [OF P]) (simp_all add: it Some)
    with r' Some show ?thesis by (auto simp: with_ancestors_Cons)
  next
    case None
    have dir: "in_directory (tree_map (sr_state r)) ?q"
      using Cons.prems(4) dir_above_iff [of blocks X r ?q] by (auto simp: dir_above_def)
    have left: "may_add (Suc (Suc (2 * length cs + 2))) r" and store: "may_store S N r dv"
      using Cons.prems(6) by (simp_all add: may_create_def may_store_def)
    obtain r1 h where r1: "file_create E P K ?anc entry_directory r = (Ok (), r1)" "file_inv blocks X S N good r1"
      "file_map blocks X r1 = ?m(?q \<mapsto> DirectoryNode dv)" "orphans blocks X r1 = orphans blocks X r"
      "may_add (2 * length cs + 2) r1" "rng (rstate (sr_repo r1)) \<le> rng (rstate (sr_repo r)) + 2 * (length dv + 6)"
      using file_create_ok [OF P Cons.prems(1) left store dv it _ _ dir] None by (auto simp: file_map_None entry_directory_def)
    have "may_create S N r1 (length cs) dv b" using Cons.prems(6) r1(5,6) by (simp add: may_create_def)
    moreover have "dirs_along (file_map blocks X r1) ?q cs" using dirs_along_Cons(2) [OF Cons.prems(5)] r1(3) by simp
    ultimately obtain r' where r': "create_ancestors E P K ?anc cs r1 = (Ok (), r')" "file_inv blocks X S N good r'"
      "file_map blocks X r' = with_ancestors dv ?q cs (file_map blocks X r1)" "orphans blocks X r' = orphans blocks X r1"
      "may_create S N r' 0 dv b"
      using Cons.IH [OF r1(2) it seg] r1(3) by fastforce
    with r1 None show ?thesis by (auto simp: with_ancestors_Cons)
  qed
qed

end

text \<open>
  C31: Creating an entry with its parents.  If the path is not empty and free, and every ancestor that exists is a
  directory, then afterwards the missing ancestors are directories without metadata, the entry is at the path, and
  everything else is as it was; no object is leaked.
\<close>

theorem file_create_parents:
  fixes r :: "'s file_repo" and e :: "('p, 'm) entry"
  assumes "key_env E bl cinv cfresh cpend S M good" "rel_path P" "file_inv bl (ev_ext E) S N good r"
    and "to_vec_entry K (entry_directory :: ('p, 'm) entry) = Some dv" "to_vec_entry K e = Some v"
    and "p_iter P path = a @ [x]" "file_map bl (ev_ext E) r (a @ [x]) = None" "dirs_along (file_map bl (ev_ext E) r) [] a"
    and "may_create S N r (length a) dv (2 * (length v + 6))" "v \<in> S" "length v < 2 ^ 63"
  shows "\<exists>r'. create_parents E P K path e r = (Ok (), r') \<and> file_inv bl (ev_ext E) S N good r' \<and>
    file_map bl (ev_ext E) r' = (with_ancestors dv [] a (file_map bl (ev_ext E) r))(a @ [x] \<mapsto> new_node (file_type e) v) \<and>
    orphans bl (ev_ext E) r' = orphans bl (ev_ext E) r"
proof -
  note P = assms(2)
  let ?m = "file_map bl (ev_ext E) r" and ?m' = "with_ancestors dv [] a (file_map bl (ev_ext E) r)"
  obtain q where q: "p_parent P path = Some q" "p_iter P q = a" using rel_path.parent_some [OF P, of path] assms(6) by auto
  have "\<forall>c \<in> set a. is_segment c" using rel_path.iter_segments [OF P, of q] q(2) by simp
  from key_env.create_ancestors_ok [OF assms(1) P assms(4,3) rel_path.iter_empty [OF P] this _ assms(8,9)] obtain r1 where
    r1: "create_ancestors E P K (EMPTY_PATH P) a r = (Ok (), r1)" "file_inv bl (ev_ext E) S N good r1"
    "file_map bl (ev_ext E) r1 = ?m'" "orphans bl (ev_ext E) r1 = orphans bl (ev_ext E) r" "may_create S N r1 0 dv (2 * (length v + 6))"
    by auto
  have free: "tree_map (sr_state r1) (a @ [x]) = None"
  proof -
    have "\<not> (\<exists>c. c \<noteq> [] \<and> prefix c a \<and> a @ [x] = [] @ c)" by (auto dest: prefix_length_le)
    then show ?thesis using assms(7) fun_cong [OF r1(3), of "a @ [x]"] file_map_None [of bl "ev_ext E" r1 "a @ [x]"]
      unfolding with_ancestors_def by simp
  qed
  have "dir_above ?m' (a @ [x])"
  proof (cases "a = []")
    case False
    then show ?thesis using assms(8) by (cases "?m a") (auto simp: dir_above_def with_ancestors_def dirs_along_def)
  qed (simp add: dir_above_def)
  then have dir: "in_directory (tree_map (sr_state r1)) (a @ [x])" using dir_above_iff r1(3) by metis
  have "may_add (Suc (Suc 0)) r1" "may_store S N r1 v"
    using r1(5) assms(10,11) may_add_le [of "2 * 0 + 2" r1 "Suc (Suc 0)"] by (simp_all add: may_create_def may_store_def)
  from key_env.file_create_ok [OF assms(1) P r1(2) this assms(5,6) _ free dir] obtain r' where
    r': "file_create E P K path e r1 = (Ok (), r')" "file_inv bl (ev_ext E) S N good r'"
    "file_map bl (ev_ext E) r' = ?m'(a @ [x] \<mapsto> new_node (file_type e) v)" "orphans bl (ev_ext E) r' = orphans bl (ev_ext E) r1"
    using r1(3) by auto
  have "create_parents E P K path e r = (Ok (), r')"
    using q r1(1) r'(1) by (cases "a = []") (auto simp: create_parents_def rel_path.is_empty_path [OF P] bindR_def)
  with r' r1(4) show ?thesis by auto
qed

section \<open>Evaluation\<close>

text \<open>A repository with one directory, whose entry is encoded as its type, a flag and its metadata of one byte.\<close>

definition ref_entries :: "(unit, byte) entry_codec" where
  "ref_entries = \<lparr>to_vec_entry = (\<lambda>e. Some [case file_type e of TFile \<Rightarrow> 0 | TDirectory \<Rightarrow> 1 | TSpecial _ \<Rightarrow> 2,
       case entry_metadata e of None \<Rightarrow> 0 | Some _ \<Rightarrow> 2, case entry_metadata e of None \<Rightarrow> 0 | Some b \<Rightarrow> b]),
     from_entry = Need 3 (\<lambda>b. Decoded \<lparr>file_type = (if b ! 0 = 0 then TFile else if b ! 0 = 1 then TDirectory else TSpecial ()),
       entry_metadata = (if b ! 1 = 0 then None else Some (b ! 2))\<rparr>)\<rparr>"

definition ref_files :: "(uuid, bytes) hmap file_repo" where
  "ref_files = ref_state \<lparr>nodes = [(''a'', PathNode []
     \<lparr>eh_entry = \<lparr>ok_repo = 9, ok_instance = DEFAULT_INSTANCE, ok_object = 1\<rparr>, eh_type = EDirectory\<rparr>)]\<rparr>"

lemma ref_entries_ok: "entry_codec_ok ref_entries"
  by (auto simp: entry_codec_ok_def ref_entries_def read_exact_loop.simps slice_read_def split: file_type.splits option.splits)

lemma ref_files_tree:
  "tree_map (sr_state ref_files) = [[''a''] \<mapsto>
     \<lparr>eh_entry = \<lparr>ok_repo = 9, ok_instance = DEFAULT_INSTANCE, ok_object = 1\<rparr>, eh_type = EDirectory\<rparr>]"
proof
  fix p show "tree_map (sr_state ref_files) p = ([[''a''] \<mapsto>
     \<lparr>eh_entry = \<lparr>ok_repo = 9, ok_instance = DEFAULT_INSTANCE, ok_object = 1\<rparr>, eh_type = EDirectory\<rparr>]) p"
    by (cases p; cases "tl p") (auto simp: ref_files_def tree_map_def)
qed

lemma ref_files_facts:
  "file_inv mem_blocks ref_ext UNIV 100 good_chunking ref_files"
  "file_map mem_blocks ref_ext ref_files = [[''a''] \<mapsto> DirectoryNode [1, 2, 3, 0, 0]]"
  "may_add 50 ref_files" "rng (rstate (sr_repo ref_files)) = rng ref_repo"
proof -
  have slot: "file_slot (tree_map (sr_state ref_files)) a = Some key \<longleftrightarrow>
      a = EntryAt [''a''] \<and> key = \<lparr>ok_repo = 9, ok_instance = DEFAULT_INSTANCE, ok_object = 1\<rparr>" for a key
    unfolding ref_files_tree by (cases a) auto
  show "file_inv mem_blocks ref_ext UNIV 100 good_chunking ref_files"
    unfolding file_inv_def index_ok_def slot unfolding ref_files_tree using ref_state_inv
    by (auto simp: ref_files_def ref_check ref_state_contents tree_wf_def is_segment_def in_directory_def split: if_splits)
  show "file_map mem_blocks ref_ext ref_files = [[''a''] \<mapsto> DirectoryNode [1, 2, 3, 0, 0]]"
    unfolding file_map_def [abs_def] ref_files_tree by (auto simp: fun_eq_iff node_view_def ref_files_def ref_state_contents)
  show "may_add 50 ref_files" using ref_state_left by (simp add: may_add_def ref_files_def)
  show "rng (rstate (sr_repo ref_files)) = rng ref_repo" by (simp add: ref_files_def)
qed

theorem file_metadata_roundtrip_witness:
  "\<exists>r'. set_metadata ref_env ref_paths ref_entries [''a''] (Some 8) ref_files = (Ok (), r') \<and>
    file_map mem_blocks ref_ext r' = [[''a''] \<mapsto> DirectoryNode [1, 2, 8]] \<and>
    fst (file_entry ref_env ref_paths ref_entries [''a''] r') = Ok \<lparr>file_type = TDirectory, entry_metadata = Some 8\<rparr>"
proof -
  have "fst (run_decoder slice_read (from_entry ref_entries) (node_entry (DirectoryNode [1, 2, 3, 0, 0]))) =
      Ok \<lparr>file_type = TDirectory, entry_metadata = Some 3\<rparr>"
    by (simp add: ref_entries_def read_exact_loop.simps slice_read_def)
  moreover have "to_vec_entry ref_entries (\<lparr>file_type = TDirectory, entry_metadata = Some 3\<rparr>\<lparr>entry_metadata := Some 8\<rparr>) = Some [1, 2, 8]"
    by (simp add: ref_entries_def)
  moreover have "file_map mem_blocks ref_ext ref_files (p_iter ref_paths [''a'']) = Some (DirectoryNode [1, 2, 3, 0, 0])"
    by (simp add: ref_iter ref_files_facts(2))
  moreover have "rng (rstate (sr_repo ref_files)) + 2 * (2 * 5 + 3 + 6) \<le> 100" by (simp add: ref_files_facts(4) ref_rng)
  ultimately show ?thesis
    using file_metadata_roundtrip [OF ref_state.key_env_axioms ref_path.rel_path_axioms ref_entries_ok, of 100 ref_files,
      simplified ref_env_simps, OF ref_files_facts(1)] by (fastforce simp: ref_files_facts(2) ref_iter)
qed

theorem file_refines_witness:
  "\<exists>r'. file_create ref_env ref_paths ref_entries [''a'', ''b''] entry_file ref_files = (Ok (), r') \<and>
    file_map mem_blocks ref_ext r' = [[''a''] \<mapsto> DirectoryNode [1, 2, 3, 0, 0], [''a'', ''b''] \<mapsto> FileNode [0, 0, 0] []]"
proof -
  have v: "to_vec_entry ref_entries entry_file = Some [0, 0, 0]" "file_type (entry_file :: (unit, byte) entry) = TFile"
    by (simp_all add: ref_entries_def entry_file_def)
  have "file_feasible ref_paths ref_entries UNIV 100 (FCreate [''a'', ''b''] entry_file) ref_files"
    using may_add_le [OF ref_files_facts(3), of 2] by (simp add: v may_store_def ref_files_facts(4) ref_rng)
  then show ?thesis
    using file_refines [OF ref_state.key_env_axioms ref_path.rel_path_axioms, of 100 ref_files ref_entries "FCreate [''a'', ''b''] entry_file",
      simplified ref_env_simps, OF ref_files_facts(1)]
    by (auto simp: v ref_iter ref_files_facts(2) dir_above_def)
qed

lemma ref_files_below: "below (tree_map (sr_state ref_files)) [''a''] = {}"
  unfolding ref_files_tree by (auto simp: below_def split: if_splits)

theorem copy_tree_leaks_witness:
  "\<exists>r' L. copy_tree ref_paths [''a''] [''b''] ref_files = (Ok (), r') \<and>
    orphans mem_blocks ref_ext r' = orphans mem_blocks ref_ext ref_files \<union> L \<and> L \<noteq> {} \<and> L \<inter> orphans mem_blocks ref_ext ref_files = {}"
proof -
  note iff = ref_path.is_empty_path ref_path.file_exists_iff ref_path.has_parent_iff
  have b: "p_iter ref_paths [''b''] = [''b'']" by (simp add: ref_paths_def is_segment_def)
  have "may_add (2 * (card (below (tree_map (sr_state ref_files)) (p_iter ref_paths [''a''])) + 3)) ref_files"
    using may_add_le [OF ref_files_facts(3), of 6] by (simp add: ref_iter ref_files_below)
  from copy_tree_leaks [OF ref_path.rel_path_axioms ref_files_facts(1) _ this, of "[''b'']"] obtain r' L where
    r': "copy_tree ref_paths [''a''] [''b''] ref_files = (Ok (), r')"
    "orphans mem_blocks ref_ext r' = orphans mem_blocks ref_ext ref_files \<union> L" "L \<inter> orphans mem_blocks ref_ext ref_files = {}"
    "card L = (if is_file ref_paths ref_files [''a''] then 2 else 1)"
    by (auto simp: iff ref_iter b ref_files_tree in_directory_def)
  then have "L \<noteq> {}" by (metis card.empty zero_neq_numeral zero_neq_one)
  with r' show ?thesis by blast
qed

theorem file_create_parents_witness:
  "\<exists>r'. create_parents ref_env ref_paths ref_entries [''a'', ''b'', ''c''] entry_file ref_files = (Ok (), r') \<and>
    file_map mem_blocks ref_ext r' [''a''] = Some (DirectoryNode [1, 2, 3, 0, 0]) \<and>
    file_map mem_blocks ref_ext r' [''a'', ''b''] = Some (DirectoryNode [1, 0, 0]) \<and>
    file_map mem_blocks ref_ext r' [''a'', ''b'', ''c''] = Some (FileNode [0, 0, 0] [])"
proof -
  have v: "to_vec_entry ref_entries entry_file = Some [0, 0, 0]" "to_vec_entry ref_entries entry_directory = Some [1, 0, 0]"
    "file_type (entry_file :: (unit, byte) entry) = TFile"
    by (simp_all add: ref_entries_def entry_file_def entry_directory_def)
  have it: "p_iter ref_paths [''a'', ''b'', ''c''] = [''a'', ''b''] @ [''c'']" by (simp add: ref_iter)
  have free: "file_map mem_blocks ref_ext ref_files ([''a'', ''b''] @ [''c'']) = None" by (simp add: ref_files_facts(2))
  have dirs: "dirs_along (file_map mem_blocks ref_ext ref_files) [] [''a'', ''b'']" by (auto simp: dirs_along_def ref_files_facts(2))
  have "may_add (2 * length [''a'', ''b''] + 2) ref_files" by (rule may_add_le [OF ref_files_facts(3)]) simp
  then have room: "may_create UNIV 100 ref_files (length [''a'', ''b'']) [1, 0, 0] (2 * (length [0 :: byte, 0, 0] + 6))"
    by (simp add: may_create_def ref_files_facts(4) ref_rng)
  from file_create_parents [OF ref_state.key_env_axioms ref_path.rel_path_axioms, of 100 ref_files, simplified ref_env_simps,
      OF ref_files_facts(1) v(2,1) it free dirs room]
  show ?thesis by (auto simp: with_ancestors_def ref_files_facts(2) v(3))
qed

end
