(* ===== verification/Unix_Metadata.thy ===== *)
theory Unix_Metadata
  imports State_Repo
begin

unbundle bit_operations_syntax

text \<open>
  Metadata and special files (\<^verbatim>\<open>src/src/repo/file/metadata.rs\<close>, \<^verbatim>\<open>special.rs\<close>).  What the code calls outside the
  repository is a parameter: the flags of the crates \<^verbatim>\<open>bitflags\<close>, \<^verbatim>\<open>exacl\<close> and \<^verbatim>\<open>nix\<close> (\<open>flag_ops\<close>, with the
  documented values in \<open>flag_laws\<close>) and the file system of the machine (\<open>os\<close>).
\<close>

type_synonym u32 = "32 word"

section \<open>Flags\<close>

record flag_ops =
  fl_contains :: "u32 \<Rightarrow> u32 \<Rightarrow> bool"
  fl_intersects :: "u32 \<Rightarrow> u32 \<Rightarrow> bool"
  am_from_bits :: "u32 \<Rightarrow> u32 option"
  perm_from_bits :: "u32 \<Rightarrow> u32 option"
  perm_read :: u32
  perm_write :: u32
  perm_execute :: u32
  sf_from_bits :: "u32 \<Rightarrow> u32 option"
  sf_from_bits_truncate :: "u32 \<Rightarrow> u32"
  s_ifmt :: u32
  s_iflnk :: u32
  s_ififo :: u32
  s_ifblk :: u32
  s_ifchr :: u32
  s_ifreg :: u32
  s_ifdir :: u32
  s_ifsock :: u32
  of_from_bits_truncate :: "u32 \<Rightarrow> u32"
  o_direct :: u32
  o_tmpfile :: u32
  o_noatime :: u32
  o_sync :: u32
  o_dsync :: u32
  dev_major :: "u64 \<Rightarrow> u64"
  dev_minor :: "u64 \<Rightarrow> u64"
  makedev :: "u64 \<Rightarrow> u64 \<Rightarrow> u64"

text \<open>The documented behaviour: flags are sets of bits, with the values of Linux.\<close>

definition flag_laws :: "flag_ops \<Rightarrow> bool" where
  "flag_laws F \<longleftrightarrow>
     (\<forall>a b. fl_contains F a b \<longleftrightarrow> a AND b = b) \<and> (\<forall>a b. fl_intersects F a b \<longleftrightarrow> a AND b \<noteq> 0) \<and>
     (\<forall>b. am_from_bits F b = (if b AND NOT 7 = 0 then Some b else None)) \<and>
     (\<forall>b. perm_from_bits F b = (if b AND NOT 7 = 0 then Some b else None)) \<and>
     perm_read F = 4 \<and> perm_write F = 2 \<and> perm_execute F = 1 \<and>
     (\<forall>b. sf_from_bits F b = (if b AND NOT 0xF000 = 0 then Some b else None)) \<and>
     (\<forall>b. sf_from_bits_truncate F b = b AND 0xF000) \<and>
     s_ifmt F = 0xF000 \<and> s_iflnk F = 0xA000 \<and> s_ififo F = 0x1000 \<and> s_ifblk F = 0x6000 \<and> s_ifchr F = 0x2000 \<and>
     s_ifreg F = 0x8000 \<and> s_ifdir F = 0x4000 \<and> s_ifsock F = 0xC000"

definition ref_flags :: flag_ops where
  "ref_flags = \<lparr>fl_contains = (\<lambda>a b. a AND b = b), fl_intersects = (\<lambda>a b. a AND b \<noteq> 0),
     am_from_bits = (\<lambda>b. if b AND NOT 7 = 0 then Some b else None),
     perm_from_bits = (\<lambda>b. if b AND NOT 7 = 0 then Some b else None),
     perm_read = 4, perm_write = 2, perm_execute = 1,
     sf_from_bits = (\<lambda>b. if b AND NOT 0xF000 = 0 then Some b else None), sf_from_bits_truncate = (\<lambda>b. b AND 0xF000),
     s_ifmt = 0xF000, s_iflnk = 0xA000, s_ififo = 0x1000, s_ifblk = 0x6000, s_ifchr = 0x2000,
     s_ifreg = 0x8000, s_ifdir = 0x4000, s_ifsock = 0xC000, of_from_bits_truncate = (\<lambda>b. b),
     o_direct = 0x4000, o_tmpfile = 0x410000, o_noatime = 0x40000, o_sync = 0x101000, o_dsync = 0x1000,
     dev_major = (\<lambda>d. drop_bit 8 d), dev_minor = (\<lambda>d. d AND 0xFF), makedev = (\<lambda>a b. push_bit 8 a OR b)\<rparr>"

lemma ref_flags_laws: "flag_laws ref_flags"
  by (simp add: flag_laws_def ref_flags_def)

section \<open>Access control lists\<close>

datatype access_qualifier = QUser u32 | QGroup u32 | UserObj | GroupObj | QOther | QMask

type_synonym acl_map = "(access_qualifier, u32) hmap"

definition ACL_ACCESS :: u32 where
  "ACL_ACCESS = 1"

definition ACL_DEFAULT :: u32 where
  "ACL_DEFAULT = 2"

record acl =
  acl_access :: acl_map
  acl_default :: acl_map

definition acl_new :: acl where
  "acl_new = \<lparr>acl_access = [], acl_default = []\<rparr>"

definition user_perm :: "u32 \<Rightarrow> u32" where
  "user_perm mode = drop_bit 6 (mode AND 0x1C0)"

definition group_perm :: "u32 \<Rightarrow> u32" where
  "group_perm mode = drop_bit 3 (mode AND 0x38)"

definition other_perm :: "u32 \<Rightarrow> u32" where
  "other_perm mode = mode AND 7"

definition calculate_mask :: "flag_ops \<Rightarrow> acl_map \<Rightarrow> u32 \<Rightarrow> ('s, u32) op" where
  "calculate_mask F m mode =
    (let named = map snd (filter (\<lambda>(q, _). case q of QUser _ \<Rightarrow> True | QGroup _ \<Rightarrow> True | _ \<Rightarrow> False) m);
         mask_perm = foldl (\<lambda>accumulator perm. accumulator OR perm) 0 named OR
           (case hget m GroupObj of Some perm \<Rightarrow> perm | None \<Rightarrow> group_perm mode) in
     unwrap_option (am_from_bits F mask_perm))"

section \<open>Times\<close>

text \<open>
  A \<^verbatim>\<open>SystemTime\<close> is the number of nanoseconds since the epoch, a \<^verbatim>\<open>Duration\<close> a number of nanoseconds.  The
  seconds of a \<^verbatim>\<open>SystemTime\<close> are an \<^verbatim>\<open>i64\<close>: adding and subtracting panics outside its range.
\<close>

type_synonym system_time = int

abbreviation NANOS :: int where
  "NANOS \<equiv> 1000000000"

definition time_ok :: "system_time \<Rightarrow> bool" where
  "time_ok t \<longleftrightarrow> - (2 ^ 63) * NANOS \<le> t \<and> t < 2 ^ 63 * NANOS"

definition time_add :: "system_time \<Rightarrow> int \<Rightarrow> ('s, system_time) op" where
  "time_add t d = (if time_ok (t + d) then ret (t + d) else panic ''overflow when adding duration to instant'')"

definition time_sub :: "system_time \<Rightarrow> int \<Rightarrow> ('s, system_time) op" where
  "time_sub t d = (if time_ok (t - d) then ret (t - d) else panic ''overflow when subtracting duration from instant'')"

definition unix_file_time :: "int \<Rightarrow> int \<Rightarrow> ('s, system_time) op" where
  "unix_file_time secs nsec =
     bindR (if 0 < secs then time_add 0 (int (as_u64 secs) * NANOS) else time_sub 0 (int (as_u64 secs) * NANOS)) (\<lambda>file_time.
     if 0 < nsec then time_add file_time (int (as_u64 nsec)) else time_sub file_time (int (as_u64 nsec)))"

section \<open>Unix metadata\<close>

record unix_metadata =
  um_mode :: u32
  um_modified :: system_time
  um_accessed :: system_time
  um_changed :: system_time
  um_user :: u32
  um_group :: u32
  um_attributes :: "(string, bytes) hmap"
  um_acl :: acl

definition access_entry :: "flag_ops \<Rightarrow> access_qualifier \<Rightarrow> u32 \<Rightarrow> (acl_map, unit) op" where
  "access_entry F q perm m = (case hget m q of
      Some _ \<Rightarrow> (Ok (), m)
    | None \<Rightarrow> bindR (unwrap_option (am_from_bits F perm)) (\<lambda>x. modify (hput q x)) m)"

definition mandatory_entries :: "flag_ops \<Rightarrow> u32 \<Rightarrow> (acl_map, unit) op" where
  "mandatory_entries F mode =
     bindR (access_entry F UserObj (user_perm mode)) (\<lambda>_.
     bindR (access_entry F GroupObj (group_perm mode)) (\<lambda>_.
     access_entry F QOther (other_perm mode)))"

definition on_access :: "(acl_map, 'a) op \<Rightarrow> (unix_metadata, 'a) op" where
  "on_access m u = (case m (acl_access (um_acl u)) of (x, a) \<Rightarrow> (x, u\<lparr>um_acl := (um_acl u)\<lparr>acl_access := a\<rparr>\<rparr>))"

definition on_default :: "(acl_map, 'a) op \<Rightarrow> (unix_metadata, 'a) op" where
  "on_default m u = (case m (acl_default (um_acl u)) of (x, a) \<Rightarrow> (x, u\<lparr>um_acl := (um_acl u)\<lparr>acl_default := a\<rparr>\<rparr>))"

definition update_acl :: "flag_ops \<Rightarrow> u32 \<Rightarrow> (unix_metadata, unit) op" where
  "update_acl F kind u =
     bindR (if fl_contains F kind ACL_ACCESS then on_access (mandatory_entries F (um_mode u)) else ret ()) (\<lambda>_.
     if fl_contains F kind ACL_DEFAULT then on_default (mandatory_entries F (um_mode u)) else ret ()) u"

definition update_mask :: "flag_ops \<Rightarrow> u32 \<Rightarrow> (unix_metadata, unit) op" where
  "update_mask F kind u =
    (let put = (\<lambda>m. bindR (calculate_mask F m (um_mode u)) (\<lambda>x. modify (hput QMask x)) m) in
     bindR (if fl_contains F kind ACL_ACCESS then on_access put else ret ()) (\<lambda>_.
     if fl_contains F kind ACL_DEFAULT then on_default put else ret ()) u)"

section \<open>Entries of access control lists\<close>

datatype acl_entry_kind = AkUser | AkGroup | AkMask | AkOther | AkUnknown

record acl_entry =
  ae_kind :: acl_entry_kind
  ae_name :: string
  ae_perms :: u32
  ae_default :: bool
  ae_allow :: bool

text \<open>The decimal notation of the standard library: a \<^verbatim>\<open>u32\<close> may be parsed with a leading plus sign.\<close>

fun decimal :: "nat \<Rightarrow> string" where
  "decimal n = (if n < 10 then [char_of (48 + n)] else decimal (n div 10) @ [char_of (48 + n mod 10)])"

declare decimal.simps [simp del]

fun parse_decimal :: "nat \<Rightarrow> string \<Rightarrow> nat option" where
  "parse_decimal acc [] = Some acc"
| "parse_decimal acc (c # cs) =
    (let d = of_char c :: nat in
     if 48 \<le> d \<and> d \<le> 57 \<and> 10 * acc + (d - 48) < 2 ^ 32 then parse_decimal (10 * acc + (d - 48)) cs else None)"

definition parse_u32 :: "string \<Rightarrow> u32 option" where
  "parse_u32 s = (case s of
      [] \<Rightarrow> None
    | c # cs \<Rightarrow>
        if c = CHR ''+'' then (if cs = [] then None else map_option of_nat (parse_decimal 0 cs))
        else map_option of_nat (parse_decimal 0 s))"

definition u32_to_string :: "u32 \<Rightarrow> string" where
  "u32_to_string n = decimal (unat n)"

text \<open>The names of users and groups are looked up by the crate \<^verbatim>\<open>users\<close>.\<close>

record user_ops =
  get_user_by_name :: "string \<Rightarrow> u32 option"
  get_group_by_name :: "string \<Rightarrow> u32 option"

definition entry_to_qualifier :: "user_ops \<Rightarrow> acl_entry \<Rightarrow> access_qualifier option" where
  "entry_to_qualifier U e = (case ae_kind e of
      AkUser \<Rightarrow> if ae_name e = [] then Some UserObj
        else (case parse_u32 (ae_name e) of Some uid \<Rightarrow> Some (QUser uid)
              | None \<Rightarrow> map_option QUser (get_user_by_name U (ae_name e)))
    | AkGroup \<Rightarrow> if ae_name e = [] then Some GroupObj
        else (case parse_u32 (ae_name e) of Some gid \<Rightarrow> Some (QGroup gid)
              | None \<Rightarrow> map_option QGroup (get_group_by_name U (ae_name e)))
    | AkOther \<Rightarrow> Some QOther
    | AkMask \<Rightarrow> Some QMask
    | AkUnknown \<Rightarrow> None)"

definition qualifier_to_entry :: "flag_ops \<Rightarrow> access_qualifier \<Rightarrow> u32 \<Rightarrow> bool \<Rightarrow> ('s, acl_entry) op" where
  "qualifier_to_entry F q mode flags =
    (let (kind, name) = (case q of
        UserObj \<Rightarrow> (AkUser, [])
      | QUser uid \<Rightarrow> (AkUser, u32_to_string uid)
      | GroupObj \<Rightarrow> (AkGroup, [])
      | QGroup gid \<Rightarrow> (AkGroup, u32_to_string gid)
      | QOther \<Rightarrow> (AkOther, [])
      | QMask \<Rightarrow> (AkMask, [])) in
     bindR (unwrap_option (perm_from_bits F mode)) (\<lambda>perms.
     ret \<lparr>ae_kind = kind, ae_name = name, ae_perms = perms, ae_default = flags, ae_allow = True\<rparr>))"

section \<open>The file system of the machine\<close>

text \<open>
  The functions of \<^verbatim>\<open>std::fs\<close> and of the crates \<^verbatim>\<open>xattr\<close>, \<^verbatim>\<open>exacl\<close>, \<^verbatim>\<open>nix\<close>, \<^verbatim>\<open>filetime\<close> and \<^verbatim>\<open>tempfile\<close> that the sources call,
  on a state of the machine.  An error of \<^verbatim>\<open>nix\<close> is \<^verbatim>\<open>EPERM\<close> or one that is passed on.
\<close>

record lstat =
  st_mode :: u32
  st_is_file :: bool
  st_is_dir :: bool
  st_mtime :: int
  st_mtime_nsec :: int
  st_atime :: int
  st_atime_nsec :: int
  st_ctime :: int
  st_ctime_nsec :: int
  st_uid :: u32
  st_gid :: u32
  st_rdev :: u64
  st_modified :: "io_error + system_time"
  st_accessed :: "io_error + system_time"

datatype nix_error = NixEPERM | NixError string

type_synonym ('w, 'a) io_op = "'w \<Rightarrow> (io_error + 'a) \<times> 'w"

record ('l, 'w) os =
  os_metadata :: "'l \<Rightarrow> ('w, lstat) io_op"
  os_symlink_metadata :: "'l \<Rightarrow> ('w, lstat) io_op"
  os_read_link :: "'l \<Rightarrow> ('w, 'l) io_op"
  xattr_supported :: bool
  xattr_list :: "'l \<Rightarrow> ('w, bytes list) io_op"
  xattr_get :: "'l \<Rightarrow> bytes \<Rightarrow> ('w, bytes option) io_op"
  xattr_set :: "'l \<Rightarrow> string \<Rightarrow> bytes \<Rightarrow> ('w, unit) io_op"
  to_string_lossy :: "bytes \<Rightarrow> string"
  os_getfacl :: "'l \<Rightarrow> ('w, acl_entry list) io_op"
  os_setfacl :: "'l \<Rightarrow> acl_entry list \<Rightarrow> bool \<Rightarrow> ('w, unit) io_op"
  os_set_permissions :: "'l \<Rightarrow> u32 \<Rightarrow> ('w, unit) io_op"
  os_chown :: "'l \<Rightarrow> u32 \<Rightarrow> u32 \<Rightarrow> 'w \<Rightarrow> (nix_error + unit) \<times> 'w"
  os_set_file_times :: "'l \<Rightarrow> system_time \<Rightarrow> system_time \<Rightarrow> ('w, unit) io_op"
  os_symlink :: "'l \<Rightarrow> 'l \<Rightarrow> ('w, unit) io_op"
  os_mkfifo :: "'l \<Rightarrow> 'w \<Rightarrow> (nix_error + unit) \<times> 'w"
  os_mknod :: "'l \<Rightarrow> u32 \<Rightarrow> u64 \<Rightarrow> 'w \<Rightarrow> (nix_error + unit) \<times> 'w"
  os_exists :: "'l \<Rightarrow> 'w \<Rightarrow> bool"
  os_parent :: "'l \<Rightarrow> 'l option"
  os_create_dir_all :: "'l \<Rightarrow> ('w, unit) io_op"
  os_create_dir :: "'l \<Rightarrow> ('w, unit) io_op"
  os_tempdir :: "('w, 'l) io_op"
  os_remove_tempdir :: "'l \<Rightarrow> 'w \<Rightarrow> 'w"
  os_users :: user_ops

definition io_call :: "('w, 'a) io_op \<Rightarrow> ('w, 'a) op" where
  "io_call m w = (case m w of (x, w') \<Rightarrow> (io_result x, w'))"

definition nix_other :: "string \<Rightarrow> error" where
  "nix_other m = error_of_io (IoError OtherKind (OtherPayload m))"

text \<open>A call whose \<^verbatim>\<open>EPERM\<close> is ignored.\<close>

definition unless_forbidden :: "('w \<Rightarrow> (nix_error + unit) \<times> 'w) \<Rightarrow> ('w, unit) op" where
  "unless_forbidden m w = (case m w of
      (Inl NixEPERM, w') \<Rightarrow> (Ok (), w')
    | (Inl (NixError e), w') \<Rightarrow> (Err (nix_other e), w')
    | (Inr _, w') \<Rightarrow> (Ok (), w'))"

section \<open>Reading and writing metadata\<close>

fun read_attributes ::
  "('l, 'w) os \<Rightarrow> 'l \<Rightarrow> bytes list \<Rightarrow> (string, bytes) hmap \<Rightarrow> ('w, (string, bytes) hmap) op" where
  "read_attributes W path [] attributes w = (Ok attributes, w)"
| "read_attributes W path (attr_name # names) attributes w =
     bindR (io_call (xattr_get W path attr_name)) (\<lambda>v. case v of
        Some attr_value \<Rightarrow> read_attributes W path names (hput (to_string_lossy W attr_name) attr_value attributes)
      | None \<Rightarrow> read_attributes W path names attributes) w"

definition owner_bits :: "acl_entry \<Rightarrow> u32" where
  "owner_bits e = (if ae_default e then 0 else case ae_kind e of
      AkUser \<Rightarrow> if ae_name e = [] then push_bit 6 (ae_perms e) else 0
    | AkGroup \<Rightarrow> if ae_name e = [] then push_bit 3 (ae_perms e) else 0
    | AkOther \<Rightarrow> ae_perms e
    | _ \<Rightarrow> 0)"

fun read_acl :: "flag_ops \<Rightarrow> user_ops \<Rightarrow> acl_entry list \<Rightarrow> acl \<Rightarrow> ('w, acl) op" where
  "read_acl F U [] a w = (Ok a, w)"
| "read_acl F U (e # es) a w = (case entry_to_qualifier U e of
      None \<Rightarrow> read_acl F U es a w
    | Some qualifier \<Rightarrow> bindR (unwrap_option (am_from_bits F (ae_perms e))) (\<lambda>mode.
        if ae_default e then read_acl F U es (a\<lparr>acl_default := hput qualifier mode (acl_default a)\<rparr>)
        else read_acl F U es (a\<lparr>acl_access := hput qualifier mode (acl_access a)\<rparr>)) w)"

definition unix_from_file :: "flag_ops \<Rightarrow> ('l, 'w) os \<Rightarrow> 'l \<Rightarrow> ('w, unix_metadata) op" where
  "unix_from_file F W path =
     bindR (io_call (os_metadata W path)) (\<lambda>st.
     bindR (if xattr_supported W
        then bindR (io_call (xattr_list W path)) (\<lambda>names. read_attributes W path names [])
        else ret []) (\<lambda>attributes.
     bindR (io_call (os_getfacl W path)) (\<lambda>acl_entries.
     let acl_mode = foldl (\<lambda>m e. m OR owner_bits e) 0 acl_entries;
         mode = (st_mode st AND NOT 0x1FF) OR (acl_mode AND 0x1FF) in
     bindR (read_acl F (os_users W) acl_entries acl_new) (\<lambda>a.
     bindR (unix_file_time (st_mtime st) (st_mtime_nsec st)) (\<lambda>modified.
     bindR (unix_file_time (st_atime st) (st_atime_nsec st)) (\<lambda>accessed.
     bindR (unix_file_time (st_ctime st) (st_ctime_nsec st)) (\<lambda>changed.
     ret \<lparr>um_mode = mode, um_modified = modified, um_accessed = accessed, um_changed = changed,
       um_user = st_uid st, um_group = st_gid st, um_attributes = attributes, um_acl = a\<rparr>)))))))"

text \<open>A copy of the metadata with the mandatory entries, and the entries of one of its lists.\<close>

definition completed_entries ::
  "flag_ops \<Rightarrow> u32 \<Rightarrow> bool \<Rightarrow> (acl \<Rightarrow> acl_map) \<Rightarrow> unix_metadata \<Rightarrow> ('w, acl_entry list) op" where
  "completed_entries F kind flags sel u w = (case update_acl F kind u of
      (Ok _, u') \<Rightarrow> mapM (\<lambda>(qualifier, mode). qualifier_to_entry F qualifier mode flags) (sel (um_acl u')) w
    | (Err e, _) \<Rightarrow> (Err e, w)
    | (Panic p, _) \<Rightarrow> (Panic p, w)
    | (Diverge, _) \<Rightarrow> (Diverge, w))"

definition unix_write_metadata :: "flag_ops \<Rightarrow> ('l, 'w) os \<Rightarrow> unix_metadata \<Rightarrow> 'l \<Rightarrow> ('w, unit) op" where
  "unix_write_metadata F W u path =
     bindR (io_call (os_set_permissions W path (um_mode u))) (\<lambda>_.
     bindR (if xattr_supported W
        then forM (um_attributes u) (\<lambda>(attr_name, attr_value). io_call (xattr_set W path attr_name attr_value))
        else ret ()) (\<lambda>_.
     bindR (if acl_access (um_acl u) \<noteq> []
        then bindR (completed_entries F ACL_ACCESS False acl_access u) (\<lambda>es. io_call (os_setfacl W path es False))
        else ret ()) (\<lambda>_.
     bindR (if acl_default (um_acl u) \<noteq> []
        then bindR (completed_entries F ACL_DEFAULT True acl_default u) (\<lambda>es. io_call (os_setfacl W path es True))
        else ret ()) (\<lambda>_.
     bindR (unless_forbidden (os_chown W path (um_user u) (um_group u))) (\<lambda>_.
     io_call (os_set_file_times W path (um_accessed u) (um_modified u)))))))"

text \<open>Metadata that is common to most platforms, and none.\<close>

record common_metadata =
  cm_modified :: system_time
  cm_accessed :: system_time

definition common_from_file :: "('l, 'w) os \<Rightarrow> 'l \<Rightarrow> ('w, common_metadata) op" where
  "common_from_file W path =
     bindR (io_call (os_metadata W path)) (\<lambda>st.
     bindR (lift_result (io_result (st_modified st))) (\<lambda>modified.
     bindR (lift_result (io_result (st_accessed st))) (\<lambda>accessed.
     ret \<lparr>cm_modified = modified, cm_accessed = accessed\<rparr>)))"

definition common_write_metadata :: "('l, 'w) os \<Rightarrow> common_metadata \<Rightarrow> 'l \<Rightarrow> ('w, unit) op" where
  "common_write_metadata W c path = io_call (os_set_file_times W path (cm_accessed c) (cm_modified c))"

definition no_from_file :: "'l \<Rightarrow> ('w, unit) op" where
  "no_from_file path = ret ()"

definition no_write_metadata :: "unit \<Rightarrow> 'l \<Rightarrow> ('w, unit) op" where
  "no_write_metadata u path = ret ()"

section \<open>Special files\<close>

datatype 'l unix_special =
    SymbolicLink 'l
  | NamedPipe
  | BlockDevice u64 u64
  | CharacterDevice u64 u64

definition special_from_file :: "flag_ops \<Rightarrow> ('l, 'w) os \<Rightarrow> 'l \<Rightarrow> ('w, 'l unix_special option) op" where
  "special_from_file F W path =
     bindR (io_call (os_symlink_metadata W path)) (\<lambda>st.
     bindR (unwrap_option (sf_from_bits F (st_mode st AND s_ifmt F))) (\<lambda>file_type.
     if fl_contains F file_type (s_iflnk F) then bindR (io_call (os_read_link W path)) (\<lambda>target. ret (Some (SymbolicLink target)))
     else if fl_contains F file_type (s_ififo F) then ret (Some NamedPipe)
     else if fl_contains F file_type (s_ifblk F) then
       ret (Some (BlockDevice (dev_major F (st_rdev st)) (dev_minor F (st_rdev st))))
     else if fl_contains F file_type (s_ifchr F) then
       ret (Some (CharacterDevice (dev_major F (st_rdev st)) (dev_minor F (st_rdev st))))
     else ret None))"

definition special_create_file :: "flag_ops \<Rightarrow> ('l, 'w) os \<Rightarrow> 'l unix_special \<Rightarrow> 'l \<Rightarrow> ('w, unit) op" where
  "special_create_file F W sp path = (case sp of
      SymbolicLink target \<Rightarrow> io_call (os_symlink W target path)
    | NamedPipe \<Rightarrow> (\<lambda>w. case os_mkfifo W path w of
          (Inl NixEPERM, w') \<Rightarrow> (Err (nix_other ''EPERM''), w')
        | (Inl (NixError e), w') \<Rightarrow> (Err (nix_other e), w')
        | (Inr _, w') \<Rightarrow> (Ok (), w'))
    | CharacterDevice mj mn \<Rightarrow> unless_forbidden (os_mknod W path (s_ifchr F) (makedev F mj mn))
    | BlockDevice mj mn \<Rightarrow> unless_forbidden (os_mknod W path (s_ifblk F) (makedev F mj mn)))"

definition no_special_from_file :: "'l \<Rightarrow> ('w, unit option) op" where
  "no_special_from_file path = ret None"

definition no_special_create_file :: "unit \<Rightarrow> 'l \<Rightarrow> ('w, unit) op" where
  "no_special_create_file sp path = ret ()"

section \<open>Permissions are sets of three bits\<close>

text \<open>
  An \<^verbatim>\<open>AccessMode\<close> has no bits but read, write and execute, so that the code may unwrap \<^verbatim>\<open>AccessMode::from_bits\<close>.
\<close>

definition perm_bits :: "u32 \<Rightarrow> bool" where
  "perm_bits x \<longleftrightarrow> x AND NOT 7 = 0"

definition acl_wf :: "acl_map \<Rightarrow> bool" where
  "acl_wf m \<longleftrightarrow> hwf m \<and> (\<forall>q x. hget m q = Some x \<longrightarrow> perm_bits x)"

definition um_wf :: "unix_metadata \<Rightarrow> bool" where
  "um_wf u \<longleftrightarrow> acl_wf (acl_access (um_acl u)) \<and> acl_wf (acl_default (um_acl u))"

lemma perm_masks: "(7 :: u32) = mask 3" "(0x38 :: u32) = push_bit 3 (mask 3)" "(0x1C0 :: u32) = push_bit 6 (mask 3)"
    "(0x1FF :: u32) = mask 9"
  by (simp_all add: mask_eq_exp_minus_1 push_bit_eq_mult)

lemma perm_bits_iff: "perm_bits x \<longleftrightarrow> (\<forall>n. bit x n \<longrightarrow> n < 3)"
proof -
  have "n < 32" if "bit x n" for n using bit_imp_le_length [OF that] by simp
  then show ?thesis unfolding perm_bits_def perm_masks bit_eq_iff by (auto simp: bit_simps)
qed

lemma perm_bits_perms [simp]:
  "perm_bits (user_perm mode)" "perm_bits (group_perm mode)" "perm_bits (other_perm mode)"
  unfolding perm_bits_iff user_perm_def group_perm_def other_perm_def perm_masks
  by (auto simp: bit_simps)

lemma perm_bits_combine [simp]:
  "perm_bits 0" "perm_bits x \<Longrightarrow> perm_bits (x AND y)" "perm_bits y \<Longrightarrow> perm_bits (x AND y)"
  "perm_bits x \<Longrightarrow> perm_bits y \<Longrightarrow> perm_bits (x OR y)"
  by (auto simp: perm_bits_iff bit_simps)

lemma perm_bits_seven: "perm_bits x \<Longrightarrow> 7 AND x = x"
  unfolding perm_bits_iff perm_masks by (rule bit_word_eqI) (auto simp: bit_simps)

lemma acl_wfD: "acl_wf m \<Longrightarrow> hget m q = Some x \<Longrightarrow> perm_bits x"
  by (auto simp: acl_wf_def)

lemma acl_wf_hput [simp]: "acl_wf m \<Longrightarrow> perm_bits x \<Longrightarrow> acl_wf (hput q x m)"
  by (auto simp: acl_wf_def)

lemma acl_wf_hdel [simp]: "acl_wf m \<Longrightarrow> acl_wf (hdel q m)"
  by (auto simp: acl_wf_def)

lemma acl_wf_empty [simp]: "acl_wf []"
  by (simp add: acl_wf_def)

lemma from_bits_perm:
  "flag_laws F \<Longrightarrow> perm_bits x \<Longrightarrow> am_from_bits F x = Some x" "flag_laws F \<Longrightarrow> perm_bits x \<Longrightarrow> perm_from_bits F x = Some x"
  by (auto simp: flag_laws_def perm_bits_def)

lemma foldl_perm_bits: "perm_bits a \<Longrightarrow> (\<forall>x \<in> set xs. perm_bits x) \<Longrightarrow> perm_bits (foldl (\<lambda>a x. a OR x) a xs)"
  by (induction xs arbitrary: a) auto

lemma access_entry_ok:
  assumes "flag_laws F" "perm_bits x"
  shows "access_entry F q x m = (Ok (), if hcontains m q then m else hput q x m)"
  using from_bits_perm(1) [OF assms] by (auto simp: access_entry_def hcontains_def unwrap_option_def bindR_def split: option.splits)

text \<open>The entries that are added to a list of access rights when they are missing.\<close>

definition mandatory :: "u32 \<Rightarrow> (access_qualifier \<Rightarrow> u32 option) \<Rightarrow> access_qualifier \<Rightarrow> u32 option" where
  "mandatory mode m q = (case m q of
      Some x \<Rightarrow> Some x
    | None \<Rightarrow> (case q of UserObj \<Rightarrow> Some (user_perm mode) | GroupObj \<Rightarrow> Some (group_perm mode)
        | QOther \<Rightarrow> Some (other_perm mode) | _ \<Rightarrow> None))"

lemma mandatory_entries_ok:
  assumes "flag_laws F" "acl_wf m"
  shows "\<exists>m'. mandatory_entries F mode m = (Ok (), m') \<and> hget m' = mandatory mode (hget m) \<and> acl_wf m'"
proof -
  note access = access_entry_ok [OF assms(1)]
  show ?thesis using assms(2)
    by (auto simp: mandatory_entries_def bindR_def access hcontains_def mandatory_def fun_eq_iff
        split: option.splits access_qualifier.splits)
qed

end
