(* ===== verification/Fuse_Tables.thy ===== *)
theory Fuse_Tables
  imports State_Repo Path_Tree
begin

text \<open>
  The tables of the FUSE adapter: inodes (\<^verbatim>\<open>src/src/repo/file/fuse/inode.rs\<close>), file handles (\<^verbatim>\<open>handle.rs\<close>) and
  open objects (\<^verbatim>\<open>object.rs\<close>).  The bidirectional map of the crate \<^verbatim>\<open>bimap\<close> is a parameter with its documented
  laws, the locale \<open>bimap\<close>.
\<close>

section \<open>Bidirectional maps\<close>

record ('b, 'q) bimap_ops =
  bm_new :: 'b
  bm_insert :: "u64 \<Rightarrow> 'q \<Rightarrow> 'b \<Rightarrow> 'b"
  bm_remove_by_left :: "u64 \<Rightarrow> 'b \<Rightarrow> (u64 \<times> 'q) option \<times> 'b"
  bm_remove_by_right :: "'q \<Rightarrow> 'b \<Rightarrow> (u64 \<times> 'q) option \<times> 'b"
  bm_get_by_left :: "u64 \<Rightarrow> 'b \<Rightarrow> 'q option"
  bm_get_by_right :: "'q \<Rightarrow> 'b \<Rightarrow> u64 option"
  bm_contains_left :: "u64 \<Rightarrow> 'b \<Rightarrow> bool"
  bm_contains_right :: "'q \<Rightarrow> 'b \<Rightarrow> bool"

section \<open>Inodes\<close>

definition FUSE_ROOT_ID :: u64 where
  "FUSE_ROOT_ID = 1"

record 'b inode_table =
  it_ids :: fuse_id_table
  it_paths :: 'b
  it_generations :: "(u64, u64) hmap"

definition it_new :: "('b, 'q) bimap_ops \<Rightarrow> 'q \<Rightarrow> 'b inode_table" where
  "it_new B root = \<lparr>it_ids = fid_with_reserved [FUSE_ROOT_ID], it_paths = bm_insert B FUSE_ROOT_ID root (bm_new B),
     it_generations = []\<rparr>"

definition contains_inode :: "('b, 'q) bimap_ops \<Rightarrow> 'b inode_table \<Rightarrow> u64 \<Rightarrow> bool" where
  "contains_inode B t inode \<longleftrightarrow> bm_contains_left B inode (it_paths t)"

definition contains_path :: "('b, 'q) bimap_ops \<Rightarrow> 'b inode_table \<Rightarrow> 'q \<Rightarrow> bool" where
  "contains_path B t path \<longleftrightarrow> bm_contains_right B path (it_paths t)"

definition it_insert :: "('b, 'q) bimap_ops \<Rightarrow> 'q \<Rightarrow> ('b inode_table, u64) op" where
  "it_insert B path t = (case fid_next (it_ids t) of
      None \<Rightarrow> (Diverge, t)
    | Some (inode, ids) \<Rightarrow> (Ok inode, t\<lparr>it_ids := ids, it_paths := bm_insert B inode path (it_paths t)\<rparr>))"

definition it_generation :: "'b inode_table \<Rightarrow> u64 \<Rightarrow> u64" where
  "it_generation t inode = (case hget (it_generations t) inode of Some g \<Rightarrow> g | None \<Rightarrow> 0)"

definition it_remove :: "('b, 'q) bimap_ops \<Rightarrow> u64 \<Rightarrow> ('b inode_table, 'q option) op" where
  "it_remove B inode t = (case fid_recycle inode (it_ids t) of
      (False, ids) \<Rightarrow> (Ok None, t\<lparr>it_ids := ids\<rparr>)
    | (True, ids) \<Rightarrow>
        (let t' = t\<lparr>it_ids := ids, it_generations := hput inode (it_generation t inode + 1) (it_generations t)\<rparr> in
         case bm_remove_by_left B inode (it_paths t) of (x, paths) \<Rightarrow>
           bindR (unwrap_option x) (\<lambda>pair. ret (Some (snd pair))) (t'\<lparr>it_paths := paths\<rparr>)))"

definition it_rename :: "('b, 'q) bimap_ops \<Rightarrow> 'q \<Rightarrow> 'q \<Rightarrow> ('b inode_table, bool) op" where
  "it_rename B source dest t = (case bm_remove_by_right B source (it_paths t) of
      (None, paths) \<Rightarrow> (Ok False, t\<lparr>it_paths := paths\<rparr>)
    | (Some (inode, _), paths) \<Rightarrow> (Ok True, t\<lparr>it_paths := bm_insert B inode dest paths\<rparr>))"

definition it_path :: "('b, 'q) bimap_ops \<Rightarrow> 'b inode_table \<Rightarrow> u64 \<Rightarrow> 'q option" where
  "it_path B t inode = bm_get_by_left B inode (it_paths t)"

definition it_inode :: "('b, 'q) bimap_ops \<Rightarrow> 'b inode_table \<Rightarrow> 'q \<Rightarrow> u64 option" where
  "it_inode B t path = bm_get_by_right B path (it_paths t)"

section \<open>File handles\<close>

datatype fuse_file_type = RegularFile | FuseDirectory | Symlink | NamedPipeType | BlockDeviceType | CharDevice

record directory_entry =
  de_name :: string
  de_type :: fuse_file_type
  de_inode :: u64

record file_handle =
  fh_flags :: "32 word"
  fh_position :: nat

datatype handle_state = HFile file_handle | HDirectory "directory_entry list"

record handle_table =
  ht_ids :: fuse_id_table
  ht_state :: "(u64, handle_state) hmap"

definition ht_new :: handle_table where
  "ht_new = \<lparr>ht_ids = fid_new, ht_state = []\<rparr>"

definition ht_open :: "handle_state \<Rightarrow> (handle_table, u64) op" where
  "ht_open st t = (case fid_next (ht_ids t) of
      None \<Rightarrow> (Diverge, t)
    | Some (fh, ids) \<Rightarrow> (Ok fh, t\<lparr>ht_ids := ids, ht_state := hput fh st (ht_state t)\<rparr>))"

definition ht_close :: "u64 \<Rightarrow> handle_table \<Rightarrow> handle_table" where
  "ht_close fh t = t\<lparr>ht_ids := snd (fid_recycle fh (ht_ids t)), ht_state := hdel fh (ht_state t)\<rparr>"

definition ht_get :: "handle_table \<Rightarrow> u64 \<Rightarrow> handle_state option" where
  "ht_get t fh = hget (ht_state t) fh"

text \<open>\<^verbatim>\<open>state_mut\<close>: what is assigned through the reference.\<close>

definition ht_set :: "u64 \<Rightarrow> handle_state \<Rightarrow> handle_table \<Rightarrow> handle_table" where
  "ht_set fh st t = t\<lparr>ht_state := hput fh st (ht_state t)\<rparr>"

section \<open>Open objects\<close>

text \<open>
  The operations work on the table and the repository the objects belong to.  An \<^verbatim>\<open>Object\<close> that leaves the
  table is dropped.
\<close>



type_synonym ('s, 'c) open_objects = "(u64, 'c object) hmap \<times> (repo_key, 's) key_repo"

definition ot_open :: "u64 \<Rightarrow> 'c object \<Rightarrow> (('s, 'c) open_objects, unit) op" where
  "ot_open inode dflt tr = (case tr of (T, r) \<Rightarrow> (case hget T inode of
      Some ob \<Rightarrow>
        if \<not> object_is_valid (r, ob) then (Ok (), (hput inode dflt T, object_drop (r, ob)))
        else (Ok (), (T, object_drop (r, dflt)))
    | None \<Rightarrow> (Ok (), (hput inode dflt T, r))))"

text \<open>An operation through the reference to an object of the table.\<close>

definition ot_use :: "u64 \<Rightarrow> ((repo_key, 's, 'c) view, 'a) op \<Rightarrow> (('s, 'c) open_objects, 'a) op" where
  "ot_use inode m tr = (case tr of (T, r) \<Rightarrow>
     bindR (unwrap_option (hget T inode)) (\<lambda>ob tr.
       (case m (r, ob) of (x, (r', ob')) \<Rightarrow> (x, (hput inode ob' T, r')))) tr)"

definition ot_close :: "u64 \<Rightarrow> (('s, 'c) open_objects, bool) op" where
  "ot_close inode tr = (case tr of (T, r) \<Rightarrow> (case hget T inode of
      Some ob \<Rightarrow> (Ok True, (hdel inode T, object_drop (r, ob)))
    | None \<Rightarrow> (Ok False, (T, r))))"

definition ot_commit :: "('s, 'z) env \<Rightarrow> u64 \<Rightarrow> (('s, 'z chunker) open_objects, unit) op" where
  "ot_commit E inode tr = (case tr of (T, r) \<Rightarrow> (case hget T inode of
      Some ob \<Rightarrow>
        if object_is_valid (r, ob) then ot_use inode (view_commit (ev_store E) (ev_ext E) (dyn_ops (ev_zpaq E))) (T, r)
        else (Ok (), (hdel inode T, object_drop (r, ob)))
    | None \<Rightarrow> (Ok (), (T, r))))"

definition ot_commit_all :: "('s, 'z) env \<Rightarrow> (('s, 'z chunker) open_objects, unit) op" where
  "ot_commit_all E tr = (let inodes = hkeys (fst tr) in forM inodes (ot_commit E) tr)"

definition ot_open_commit :: "('s, 'z) env \<Rightarrow> u64 \<Rightarrow> 'z chunker object \<Rightarrow> (('s, 'z chunker) open_objects, unit) op" where
  "ot_open_commit E inode dflt tr = (case tr of (T, r) \<Rightarrow> (case hget T inode of
      Some ob \<Rightarrow>
        if object_is_valid (r, ob)
        then (case ot_use inode (view_commit (ev_store E) (ev_ext E) (dyn_ops (ev_zpaq E))) (T, r) of
            (x, (T', r')) \<Rightarrow> (x, (T', object_drop (r', dflt))))
        else (Ok (), (hput inode dflt T, object_drop (r, ob)))
    | None \<Rightarrow> (Ok (), (hput inode dflt T, r))))"

section \<open>The inode table allocates unique inodes\<close>

text \<open>
  The invariant of the table: an inode with a path is the root or allocated, and the root is reserved.
\<close>

definition inodes_inv :: "('b, 'q) bimap_ops \<Rightarrow> 'b inode_table \<Rightarrow> bool" where
  "inodes_inv B t \<longleftrightarrow> fid_inv (it_ids t) \<and> freserved (it_ids t) = {FUSE_ROOT_ID} \<and>
     (\<forall>i. it_path B t i \<noteq> None \<longrightarrow> i = FUSE_ROOT_ID \<or> i \<in> fid_live (it_ids t))"

text \<open>
  The requests to the table, and the pairs of inode and generation that a sequence of them hands out.
\<close>

datatype 'q inode_request = InsertPath 'q | RemoveInode u64 | RenamePath 'q 'q

fun inode_step :: "('b, 'q) bimap_ops \<Rightarrow> 'q inode_request \<Rightarrow> 'b inode_table \<Rightarrow> (u64 \<times> u64) list \<times> 'b inode_table" where
  "inode_step B (InsertPath path) t = (case it_insert B path t of
      (Ok i, t') \<Rightarrow> ([(i, it_generation t' i)], t')
    | (_, t') \<Rightarrow> ([], t'))"
| "inode_step B (RemoveInode inode) t = ([], snd (it_remove B inode t))"
| "inode_step B (RenamePath source dest) t = ([], snd (it_rename B source dest t))"

fun issued :: "('b, 'q) bimap_ops \<Rightarrow> 'q inode_request list \<Rightarrow> 'b inode_table \<Rightarrow> (u64 \<times> u64) list \<times> 'b inode_table" where
  "issued B [] t = ([], t)"
| "issued B (req # reqs) t = (case inode_step B req t of (xs, t1) \<Rightarrow>
     (case issued B reqs t1 of (ys, t2) \<Rightarrow> (xs @ ys, t2)))"

text \<open>
  The laws of a bidirectional map whose right values are compared as paths are: it is a bijection between
  the left values and the right values it contains, and inserting a pair removes the pairs it conflicts with.
\<close>

locale bimap =
  fixes B :: "('b, 'q) bimap_ops"
    and P :: "'q path_ops"
  assumes left_new: "bm_get_by_left B l (bm_new B) = None"
    and left_right: "bm_get_by_left B l b = Some r \<Longrightarrow> p_eq P q r \<Longrightarrow> bm_get_by_right B q b = Some l"
    and right_left: "bm_get_by_right B q b = Some l \<Longrightarrow> \<exists>r. bm_get_by_left B l b = Some r \<and> p_eq P q r"
    and left_insert: "bm_get_by_left B x (bm_insert B l r b) =
      (if x = l then Some r else case bm_get_by_left B x b of
         Some q \<Rightarrow> if p_eq P q r then None else Some q | None \<Rightarrow> None)"
    and remove_left: "\<exists>b'. bm_remove_by_left B l b = (map_option (Pair l) (bm_get_by_left B l b), b') \<and>
      (\<forall>x. bm_get_by_left B x b' = (if x = l then None else bm_get_by_left B x b))"
    and remove_right_none: "bm_get_by_right B q b = None \<Longrightarrow> bm_remove_by_right B q b = (None, b)"
    and remove_right_some: "bm_get_by_right B q b = Some l \<Longrightarrow> \<exists>r b'. bm_remove_by_right B q b = (Some (l, r), b') \<and>
      (\<forall>x. bm_get_by_left B x b' = (if x = l then None else bm_get_by_left B x b))"
    and contains_left: "bm_contains_left B l b \<longleftrightarrow> bm_get_by_left B l b \<noteq> None"
    and contains_right: "bm_contains_right B q b \<longleftrightarrow> bm_get_by_right B q b \<noteq> None"
begin

lemma new_inv: "inodes_inv B (it_new B root)"
  by (auto simp: inodes_inv_def it_new_def it_path_def left_insert left_new fid_with_reserved_def fid_inv_def)

lemma path_of_new: "it_path B (it_new B root) i = (if i = FUSE_ROOT_ID then Some root else None)"
  by (simp add: it_new_def it_path_def left_insert left_new)

lemma path_inode_inverse:
  "it_inode B t q = Some i \<longleftrightarrow> (\<exists>r. it_path B t i = Some r \<and> p_eq P q r)"
  using left_right right_left by (auto simp: it_inode_def it_path_def)

lemma contains_inode_iff: "contains_inode B t i \<longleftrightarrow> it_path B t i \<noteq> None"
  by (simp add: contains_inode_def it_path_def contains_left)

lemma contains_path_iff: "contains_path B t q \<longleftrightarrow> it_inode B t q \<noteq> None"
  by (simp add: contains_path_def it_inode_def contains_right)

lemma fid_next_reserved: "fid_next t = Some (i, t') \<Longrightarrow> freserved t' = freserved t"
  by (auto simp: fid_next_def split: list.splits)

lemma insert_ok:
  assumes "inodes_inv B t" "fid_room (it_ids t)"
  shows "\<exists>i t'. it_insert B path t = (Ok i, t') \<and> i \<noteq> FUSE_ROOT_ID \<and> i \<notin> fid_live (it_ids t) \<and> it_path B t i = None \<and>
    fid_live (it_ids t') = insert i (fid_live (it_ids t)) \<and> inodes_inv B t' \<and> it_generations t' = it_generations t \<and>
    it_path B t' = (\<lambda>x. if x = i then Some path
      else case it_path B t x of Some q \<Rightarrow> if p_eq P q path then None else Some q | None \<Rightarrow> None)"
proof -
  obtain i ids where n: "fid_next (it_ids t) = Some (i, ids)" "i \<notin> fid_live (it_ids t)"
    "fid_live ids = insert i (fid_live (it_ids t))" "fid_inv ids"
    using fuse_ids.next_spec [of "it_ids t"] assms by (auto simp: inodes_inv_def)
  have res: "freserved ids = {FUSE_ROOT_ID}" using fid_next_reserved [OF n(1)] assms(1) by (simp add: inodes_inv_def)
  have "i \<in> fid_live ids" using n(3) by simp
  then have root: "i \<noteq> FUSE_ROOT_ID" using res by (auto simp: fid_live_def)
  then have "it_path B t i = None" using assms(1) n(2) by (auto simp: inodes_inv_def)
  moreover have "inodes_inv B (t\<lparr>it_ids := ids, it_paths := bm_insert B i path (it_paths t)\<rparr>)"
    using assms(1) n(3,4) res by (auto simp: inodes_inv_def it_path_def left_insert split: if_splits option.splits)
  ultimately show ?thesis using n root
    by (auto simp: it_insert_def it_path_def left_insert fun_eq_iff)
qed

lemma remove_ok:
  assumes "inodes_inv B t"
  shows "\<exists>x t'. it_remove B i t = (x, t') \<and> inodes_inv B t' \<and>
    (if i \<in> fid_live (it_ids t) then
       fid_live (it_ids t') = fid_live (it_ids t) - {i} \<and>
       it_generation t' = (it_generation t)(i := it_generation t i + 1) \<and>
       it_path B t' = (it_path B t)(i := None) \<and>
       (case it_path B t i of Some q \<Rightarrow> x = Ok (Some q)
        | None \<Rightarrow> x = Panic ''called `Option::unwrap()` on a `None` value'')
     else x = Ok None \<and> t' = t)"
proof (cases "i \<in> fid_live (it_ids t)")
  case True
  have inv: "fid_inv (it_ids t)" using assms by (simp add: inodes_inv_def)
  obtain ids where r: "fid_recycle i (it_ids t) = (True, ids)" "fid_live ids = fid_live (it_ids t) - {i}" "fid_inv ids"
    using fuse_ids.recycle_live [OF inv True] by auto
  have res: "freserved ids = {FUSE_ROOT_ID}"
    using r(1) assms by (auto simp: fid_recycle_def inodes_inv_def split: if_splits)
  obtain b where b: "bm_remove_by_left B i (it_paths t) = (map_option (Pair i) (it_path B t i), b)"
    "\<And>x. bm_get_by_left B x b = (if x = i then None else bm_get_by_left B x (it_paths t))"
    using remove_left [of i "it_paths t"] by (auto simp: it_path_def)
  let ?t = "t\<lparr>it_ids := ids, it_generations := hput i (it_generation t i + 1) (it_generations t), it_paths := b\<rparr>"
  have "inodes_inv B ?t" using assms r(2,3) res b(2) by (auto simp: inodes_inv_def it_path_def)
  moreover have "it_generation ?t = (it_generation t)(i := it_generation t i + 1)"
    by (auto simp: it_generation_def fun_eq_iff)
  moreover have "it_path B ?t = (it_path B t)(i := None)" by (auto simp: it_path_def b(2) fun_eq_iff)
  ultimately show ?thesis using True r(1,2) b(1)
    by (cases "it_path B t i") (auto simp: it_remove_def Let_def bindR_def unwrap_option_def)
next
  case False
  with assms fuse_ids.recycle_unused [of "it_ids t" i] show ?thesis
    by (simp add: it_remove_def inodes_inv_def)
qed

lemma rename_ok:
  assumes "inodes_inv B t"
  shows "\<exists>b t'. it_rename B source dest t = (Ok b, t') \<and> inodes_inv B t' \<and> it_ids t' = it_ids t \<and>
    it_generations t' = it_generations t \<and> (b \<longleftrightarrow> it_inode B t source \<noteq> None) \<and>
    (case it_inode B t source of None \<Rightarrow> t' = t
     | Some i \<Rightarrow> it_path B t' = (\<lambda>x. if x = i then Some dest
         else case it_path B t x of Some q \<Rightarrow> if p_eq P q dest then None else Some q | None \<Rightarrow> None))"
proof (cases "it_inode B t source")
  case None
  then show ?thesis using assms remove_right_none [of source "it_paths t"] by (auto simp: it_rename_def it_inode_def)
next
  case (Some i)
  then obtain r b where b: "bm_remove_by_right B source (it_paths t) = (Some (i, r), b)"
    "\<And>x. bm_get_by_left B x b = (if x = i then None else bm_get_by_left B x (it_paths t))"
    using remove_right_some [of source "it_paths t" i] by (auto simp: it_inode_def)
  have here: "it_path B t i \<noteq> None" using Some by (auto simp: path_inode_inverse)
  let ?t = "t\<lparr>it_paths := bm_insert B i dest b\<rparr>"
  have "inodes_inv B ?t" using assms here
    by (auto simp: inodes_inv_def it_path_def left_insert b(2) split: if_splits option.splits)
  then show ?thesis using Some b
    by (auto simp: it_rename_def it_path_def left_insert fun_eq_iff)
qed

text \<open>
  What holds after \<open>n\<close> requests that handed out the pairs \<open>H\<close>: a pair is older than the generation of its
  inode, or the inode is still allocated.
\<close>

definition history :: "nat \<Rightarrow> (u64 \<times> u64) set \<Rightarrow> 'b inode_table \<Rightarrow> bool" where
  "history n H t \<longleftrightarrow> inodes_inv B t \<and> unat (fhighest (it_ids t)) \<le> n + 1 \<and> (\<forall>i. unat (it_generation t i) \<le> n) \<and>
     (\<forall>i g. (i, g) \<in> H \<longrightarrow> g < it_generation t i \<or> g = it_generation t i \<and> i \<in> fid_live (it_ids t))"

lemma unat_max64: "unat (- 1 :: u64) = 2 ^ 64 - 1"
  by (simp add: unsigned_minus_1_eq_mask mask_eq_exp_minus_1)

lemma skip_root: "h \<noteq> - 1 \<Longrightarrow> skip_reserved {FUSE_ROOT_ID} (h + 1) = Some (if h = 0 then 2 else h + 1)"
  by (subst skip_reserved.simps, subst skip_reserved.simps) (simp add: FUSE_ROOT_ID_def)

lemma fid_next_highest:
  assumes "freserved t = {FUSE_ROOT_ID}" "unat (fhighest t) \<le> n + 1" "n + 2 < 2 ^ 64" "fid_next t = Some (i, t')"
  shows "unat (fhighest t') \<le> n + 2"
proof (cases "funused t")
  case Nil
  have "fhighest t \<noteq> - 1" using assms(2,3) by (auto simp: unat_max64)
  moreover from this have "unat (fhighest t + 1) = Suc (unat (fhighest t))" by (rule word_inc_nowrap(1))
  ultimately show ?thesis using assms Nil by (auto simp: fid_next_def skip_root split: if_splits)
next
  case (Cons a rest)
  then show ?thesis using assms by (auto simp: fid_next_def)
qed

lemma room_below:
  assumes "freserved t = {FUSE_ROOT_ID}" "unat (fhighest t) \<le> n + 1" "n + 2 < 2 ^ 64"
  shows "fid_room t"
proof -
  have "fhighest t < - 1" using assms(2,3) by (simp add: word_less_nat_alt unat_max64)
  then show ?thesis using assms(1) by (auto simp: fid_room_def FUSE_ROOT_ID_def intro!: exI [of _ "- 1"])
qed

lemma history_insert:
  assumes h: "history n H t" and n: "n + 2 < 2 ^ 64"
  shows "\<exists>i t'. it_insert B path t = (Ok i, t') \<and> (i, it_generation t' i) \<notin> H \<and> history (n + 1) (insert (i, it_generation t' i) H) t'"
proof -
  have res: "freserved (it_ids t) = {FUSE_ROOT_ID}" "unat (fhighest (it_ids t)) \<le> n + 1"
    using h by (simp_all add: history_def inodes_inv_def)
  obtain i t' where i: "it_insert B path t = (Ok i, t')" "i \<notin> fid_live (it_ids t)"
    "fid_live (it_ids t') = insert i (fid_live (it_ids t))" "inodes_inv B t'" "it_generations t' = it_generations t"
    using insert_ok [of t path] room_below [OF res n] h by (auto simp: history_def)
  have "fid_next (it_ids t) = Some (i, it_ids t')" using i(1) by (auto simp: it_insert_def split: option.splits)
  from fid_next_highest [OF res n this] have "unat (fhighest (it_ids t')) \<le> n + 2" .
  moreover have "it_generation t' = it_generation t" using i(5) by (simp add: it_generation_def fun_eq_iff)
  moreover from this have "(i, it_generation t' i) \<notin> H" using h i(2) by (auto simp: history_def)
  ultimately show ?thesis using h i by (auto simp: history_def le_SucI)
qed

text \<open>A generation that is advanced leaves those that were handed out behind.\<close>

lemma history_advance:
  assumes h: "history n H t" and n: "n + 2 < 2 ^ 64" and inv: "inodes_inv B t'"
    and t': "fid_live (it_ids t') = fid_live (it_ids t) - {i}" "it_generation t' = (it_generation t)(i := it_generation t i + 1)"
      "fhighest (it_ids t') = fhighest (it_ids t)"
  shows "history (n + 1) H t'"
proof -
  have "unat (it_generation t i) \<le> n" using h by (simp add: history_def)
  then have "it_generation t i \<noteq> - 1" using n by (auto simp: unat_max64)
  then have g: "unat (it_generation t i + 1) = Suc (unat (it_generation t i))" "it_generation t i < it_generation t i + 1"
    by (rule word_inc_nowrap)+
  have "k < it_generation t' j \<or> k = it_generation t' j \<and> j \<in> fid_live (it_ids t')" if "(j, k) \<in> H" for j k
  proof (cases "j = i")
    case True
    then have "k < it_generation t i \<or> k = it_generation t i" using h that by (auto simp: history_def)
    then have "k < it_generation t i + 1" using g(2) order.strict_trans [of k "it_generation t i" "it_generation t i + 1"] by auto
    with True t'(2) show ?thesis by simp
  next
    case False
    have "k < it_generation t j \<or> k = it_generation t j \<and> j \<in> fid_live (it_ids t)" using h that by (simp add: history_def)
    with False t'(1,2) show ?thesis by simp
  qed
  moreover have "unat (it_generation t' j) \<le> n + 1" for j
  proof -
    have "unat (it_generation t j) \<le> n" using h by (simp add: history_def)
    with g(1) t'(2) show ?thesis by (cases "j = i") auto
  qed
  ultimately show ?thesis using h inv t'(3) unfolding history_def by auto
qed

lemma history_remove:
  assumes h: "history n H t" and n: "n + 2 < 2 ^ 64"
  shows "\<exists>x t'. it_remove B i t = (x, t') \<and> history (n + 1) H t'"
proof -
  obtain x t' where r: "it_remove B i t = (x, t')" "inodes_inv B t'"
    "if i \<in> fid_live (it_ids t) then
       fid_live (it_ids t') = fid_live (it_ids t) - {i} \<and>
       it_generation t' = (it_generation t)(i := it_generation t i + 1) else t' = t"
    using remove_ok [of t i] h by (cases "i \<in> fid_live (it_ids t)") (force simp: history_def)+
  have high: "fhighest (it_ids t') = fhighest (it_ids t)"
    using r(1) by (auto simp: it_remove_def Let_def fid_recycle_def bindR_def unwrap_option_def
        split: if_splits prod.splits option.splits)
  have "history (n + 1) H t'"
  proof (cases "i \<in> fid_live (it_ids t)")
    case True
    with r(3) show ?thesis by (intro history_advance [OF h n r(2) _ _ high, of i]) simp_all
  next
    case False
    then show ?thesis using h r(3) by (auto simp: history_def le_SucI)
  qed
  then show ?thesis using r(1) by simp
qed

lemma history_rename:
  assumes h: "history n H t"
  shows "\<exists>b t'. it_rename B source dest t = (Ok b, t') \<and> history (n + 1) H t'"
proof -
  obtain b t' where r: "it_rename B source dest t = (Ok b, t')" "inodes_inv B t'" "it_ids t' = it_ids t"
    "it_generations t' = it_generations t"
    using rename_ok [of t source dest] h by (auto simp: history_def)
  then have "it_generation t' = it_generation t" by (simp add: it_generation_def fun_eq_iff)
  then have "history (n + 1) H t'" using h r by (auto simp: history_def le_SucI)
  then show ?thesis using r(1) by simp
qed

lemma history_step:
  assumes "history n H t" "n + 2 < 2 ^ 64"
  shows "\<exists>xs t'. inode_step B req t = (xs, t') \<and> distinct xs \<and> set xs \<inter> H = {} \<and> history (n + 1) (H \<union> set xs) t'"
proof (cases req)
  case (InsertPath path)
  then show ?thesis using history_insert [OF assms, of path] by auto
next
  case (RemoveInode i)
  then show ?thesis using history_remove [OF assms, of i] by auto
next
  case (RenamePath source dest)
  then show ?thesis using history_rename [OF assms(1), of source dest] by auto
qed

lemma history_run:
  assumes "history n H t" "n + length reqs + 2 < 2 ^ 64" "issued B reqs t = (xs, t')"
  shows "distinct xs \<and> set xs \<inter> H = {} \<and> history (n + length reqs) (H \<union> set xs) t'"
  using assms
proof (induction reqs arbitrary: n H t xs)
  case (Cons req reqs)
  obtain ys t1 where s: "inode_step B req t = (ys, t1)" "distinct ys" "set ys \<inter> H = {}" "history (n + 1) (H \<union> set ys) t1"
    using history_step [OF Cons.prems(1), of req] Cons.prems(2) by auto
  obtain zs where z: "issued B reqs t1 = (zs, t')" "xs = ys @ zs" using Cons.prems(3) s(1) by (auto split: prod.splits)
  from Cons.IH [OF s(4) _ z(1)] Cons.prems(2)
  have "distinct zs" "set zs \<inter> (H \<union> set ys) = {}" "history (n + 1 + length reqs) (H \<union> set ys \<union> set zs) t'" by auto
  then show ?case using s(2,3) z(2) by (auto simp: Un_assoc)
qed auto

end

section \<open>A bidirectional map\<close>

text \<open>
  A map as the list of the pairs that were inserted, newest first; \<open>bijective\<close> drops the pairs that a newer
  one replaces.
\<close>

fun bijective :: "'q path_ops \<Rightarrow> (u64 \<times> 'q) list \<Rightarrow> (u64 \<times> 'q) list" where
  "bijective P [] = []"
| "bijective P ((l, r) # b) = (l, r) # filter (\<lambda>(x, q). x \<noteq> l \<and> \<not> p_eq P q r) (bijective P b)"

definition ref_bimap :: "'q path_ops \<Rightarrow> ((u64 \<times> 'q) list, 'q) bimap_ops" where
  "ref_bimap P =
    (let by_left = (\<lambda>l b. map_option snd (List.find (\<lambda>(x, q). x = l) (bijective P b)));
         by_right = (\<lambda>q b. map_option fst (List.find (\<lambda>(x, r). p_eq P q r) (bijective P b)));
         without = (\<lambda>l b. filter (\<lambda>(x, q). x \<noteq> l) (bijective P b)) in
     \<lparr>bm_new = [], bm_insert = (\<lambda>l r b. (l, r) # b),
      bm_remove_by_left = (\<lambda>l b. (map_option (Pair l) (by_left l b), without l b)),
      bm_remove_by_right = (\<lambda>q b. case by_right q b of None \<Rightarrow> (None, b)
        | Some l \<Rightarrow> (map_option (Pair l) (by_left l b), without l b)),
      bm_get_by_left = by_left, bm_get_by_right = by_right,
      bm_contains_left = (\<lambda>l b. by_left l b \<noteq> None), bm_contains_right = (\<lambda>q b. by_right q b \<noteq> None)\<rparr>)"

definition pairs_ok :: "'q path_ops \<Rightarrow> (u64 \<times> 'q) list \<Rightarrow> bool" where
  "pairs_ok P b \<longleftrightarrow> distinct (map fst b) \<and> distinct (map (p_iter P \<circ> snd) b)"

lemma bijective_ok: "pairs_ok P (bijective P b)"
proof (induction P b rule: bijective.induct)
  case (2 P l r b)
  have "pairs_ok P (filter f xs)" if "pairs_ok P xs" for f and xs :: "(u64 \<times> 'a) list"
    using that by (auto simp: pairs_ok_def intro: distinct_map_filter)
  with 2 have "pairs_ok P (filter (\<lambda>(x, q). x \<noteq> l \<and> \<not> p_eq P q r) (bijective P b))" by blast
  then show ?case by (auto simp: pairs_ok_def p_eq_def)
qed (simp add: pairs_ok_def)

lemma bijective_id: "pairs_ok P b \<Longrightarrow> bijective P b = b"
proof (induction P b rule: bijective.induct)
  case (2 P l r b)
  then have "bijective P b = b" by (auto simp: pairs_ok_def)
  moreover have "filter (\<lambda>(x, q). x \<noteq> l \<and> \<not> p_eq P q r) b = b"
    using 2(2) by (intro filter_True) (force simp: pairs_ok_def p_eq_def)
  ultimately show ?case by simp
qed simp

lemma find_left: "pairs_ok P b \<Longrightarrow> map_option snd (List.find (\<lambda>(x, q). x = l) b) = map_of b l"
  by (induction b) (auto simp: pairs_ok_def)

lemma find_right:
  "pairs_ok P b \<Longrightarrow> map_option fst (List.find (\<lambda>(x, r). p_eq P q r) b) = Some l \<longleftrightarrow> (\<exists>r. map_of b l = Some r \<and> p_eq P q r)"
proof (induction b)
  case (Cons a b)
  have ok: "pairs_ok P b" using Cons.prems by (simp add: pairs_ok_def)
  obtain x r where a: "a = (x, r)" by fastforce
  have x: "map_of b x = None" using Cons.prems a by (auto simp: pairs_ok_def map_of_eq_None_iff)
  show ?case
  proof (cases "p_eq P q r")
    case True
    have "\<not> p_eq P q s" if "map_of b y = Some s" for y s
      using Cons.prems a True map_of_SomeD [OF that] by (force simp: pairs_ok_def p_eq_def)
    with True a x show ?thesis by auto
  next
    case False
    then show ?thesis using Cons.IH [OF ok] a x by auto
  qed
qed simp

lemma map_of_filter_left: "map_of (filter (\<lambda>(x, q). x \<noteq> l) b) y = (if y = l then None else map_of b y)"
  by (induction b) auto

lemma map_of_replaced:
  "distinct (map fst b) \<Longrightarrow> map_of (filter (\<lambda>(x, q). x \<noteq> l \<and> \<not> p_eq P q r) b) y =
     (if y = l then None else case map_of b y of Some q \<Rightarrow> if p_eq P q r then None else Some q | None \<Rightarrow> None)"
  by (induction b) (auto simp: map_of_eq_None_iff split: option.splits)

lemma ref_bimap_laws: "bimap (ref_bimap P) P"
proof -
  have left: "bm_get_by_left (ref_bimap P) l b = map_of (bijective P b) l" for l b
    by (simp add: ref_bimap_def Let_def find_left [OF bijective_ok])
  have right: "bm_get_by_right (ref_bimap P) q b = Some l \<longleftrightarrow>
      (\<exists>r. map_of (bijective P b) l = Some r \<and> p_eq P q r)" for q l b
    using find_right [OF bijective_ok, of P q b l] by (simp add: ref_bimap_def Let_def)
  have without: "bijective P (filter f (bijective P b)) = filter f (bijective P b)" for f b
    using bijective_ok [of P b] by (intro bijective_id) (auto simp: pairs_ok_def intro: distinct_map_filter)
  show ?thesis
  proof unfold_locales
    show "bm_get_by_left (ref_bimap P) x (bm_insert (ref_bimap P) l r b) = (if x = l then Some r
        else case bm_get_by_left (ref_bimap P) x b of Some q \<Rightarrow> if p_eq P q r then None else Some q | None \<Rightarrow> None)"
      for x l r b
      using bijective_ok [of P b] map_of_replaced [of "bijective P b"]
      by (simp add: left) (simp add: ref_bimap_def Let_def pairs_ok_def)
    show "\<exists>b'. bm_remove_by_left (ref_bimap P) l b = (map_option (Pair l) (bm_get_by_left (ref_bimap P) l b), b') \<and>
        (\<forall>x. bm_get_by_left (ref_bimap P) x b' = (if x = l then None else bm_get_by_left (ref_bimap P) x b))" for l b
      by (simp add: left) (simp add: ref_bimap_def Let_def find_left [OF bijective_ok] without map_of_filter_left)
    show "\<exists>r b'. bm_remove_by_right (ref_bimap P) q b = (Some (l, r), b') \<and>
        (\<forall>x. bm_get_by_left (ref_bimap P) x b' = (if x = l then None else bm_get_by_left (ref_bimap P) x b))"
      if "bm_get_by_right (ref_bimap P) q b = Some l" for q b l
    proof -
      obtain r where "map_of (bijective P b) l = Some r" using right \<open>bm_get_by_right (ref_bimap P) q b = Some l\<close> by blast
      with \<open>bm_get_by_right (ref_bimap P) q b = Some l\<close> show ?thesis
        by (simp add: left) (auto simp: ref_bimap_def Let_def find_left [OF bijective_ok] without map_of_filter_left)
    qed
    show "bm_contains_left (ref_bimap P) l b \<longleftrightarrow> bm_get_by_left (ref_bimap P) l b \<noteq> None"
      "bm_contains_right (ref_bimap P) q b \<longleftrightarrow> bm_get_by_right (ref_bimap P) q b \<noteq> None" for l q b
      by (auto simp: ref_bimap_def Let_def)
    show "bm_remove_by_right (ref_bimap P) q b = (None, b)" if "bm_get_by_right (ref_bimap P) q b = None" for q b
      using that by (simp add: ref_bimap_def Let_def)
    show "bm_get_by_left (ref_bimap P) l (bm_new (ref_bimap P)) = None" for l by (simp add: ref_bimap_def)
  qed (auto simp: left right)
qed

interpretation ref_bm: bimap "ref_bimap P" P for P :: "'q path_ops"
  by (rule ref_bimap_laws)

section \<open>The contract of the tables\<close>

text \<open>
  C27: However paths are inserted, renamed and removed, no pair of an inode and a generation is handed out twice,
  every inode with a path is the root or allocated, and the inode of a path and the path of an inode are inverse
  to each other up to the equality of paths.  Fewer than \<open>2^64 - 2\<close> requests are needed for the IDs and the
  generations not to wrap.
\<close>

theorem inodes_unique:
  assumes "bimap B P" and "length reqs + 2 < 2 ^ 64" and "issued B reqs (it_new B root) = (xs, t)"
  shows "distinct xs \<and> inodes_inv B t \<and>
    (\<forall>q i. it_inode B t q = Some i \<longleftrightarrow> (\<exists>r. it_path B t i = Some r \<and> p_eq P q r))"
proof -
  note bm = bimap.history_run [OF assms(1)] bimap.new_inv [OF assms(1)] bimap.path_inode_inverse [OF assms(1)]
  have "bimap.history B 0 {} (it_new B root)"
    by (simp add: bimap.history_def [OF assms(1)] bm(2) it_generation_def) (simp add: it_new_def fid_with_reserved_def)
  from bm(1) [OF this _ assms(3)] assms(2) show ?thesis
    by (auto simp: bimap.history_def [OF assms(1)] bm(3))
qed

theorem inodes_unique_witness:
  "\<exists>t. issued (ref_bimap ref_paths) [InsertPath [''a'', ''b''], RemoveInode 2, InsertPath [''a'', ''c''], RenamePath [''a'', ''c''] [''a'', ''d'']]
      (it_new (ref_bimap ref_paths) [''a'']) = ([(2, 0), (2, 1)], t) \<and>
    distinct [(2 :: u64, 0 :: u64), (2, 1)] \<and> inodes_inv (ref_bimap ref_paths) t \<and>
    (it_inode (ref_bimap ref_paths) t [''a'', ''d''] = Some 2 \<longleftrightarrow>
      (\<exists>r. it_path (ref_bimap ref_paths) t 2 = Some r \<and> p_eq ref_paths [''a'', ''d''] r))"
proof -
  let ?reqs = "[InsertPath [''a'', ''b''], RemoveInode 2, InsertPath [''a'', ''c''], RenamePath [''a'', ''c''] [''a'', ''d'']]"
  obtain t where t: "issued (ref_bimap ref_paths) ?reqs (it_new (ref_bimap ref_paths) [''a'']) = ([(2, 0), (2, 1)], t)"
    by (simp add: it_new_def it_insert_def it_remove_def it_rename_def it_generation_def FUSE_ROOT_ID_def
        ref_bimap_def exec_defs unwrap_option_def List.insert_def)
  with inodes_unique [OF ref_bimap_laws _ t] show ?thesis by auto
qed

text \<open>
  Opening a handle gives one that no open handle has and stores its state; closing it removes it, and leaves
  the other handles.
\<close>

definition handles_inv :: "handle_table \<Rightarrow> bool" where
  "handles_inv t \<longleftrightarrow> fid_inv (ht_ids t) \<and> freserved (ht_ids t) = {} \<and> (\<forall>fh. ht_get t fh \<noteq> None \<longrightarrow> fh \<in> fid_live (ht_ids t))"

lemma handles_unique:
  assumes "handles_inv t" and "fid_room (ht_ids t)"
  shows "\<exists>fh t'. ht_open st t = (Ok fh, t') \<and> handles_inv t' \<and> ht_get t fh = None \<and> ht_get t' = (ht_get t)(fh \<mapsto> st) \<and>
    handles_inv (ht_close fh t') \<and> ht_get (ht_close fh t') = ht_get t"
proof -
  obtain fh ids where n: "fid_next (ht_ids t) = Some (fh, ids)" "fh \<notin> fid_live (ht_ids t)"
    "fid_live ids = insert fh (fid_live (ht_ids t))" "fid_inv ids"
    using fuse_ids.next_spec [of "ht_ids t"] assms by (auto simp: handles_inv_def)
  have res: "freserved ids = {}" using n(1) assms(1) by (auto simp: handles_inv_def fid_next_def split: list.splits)
  obtain ids' where r: "fid_recycle fh ids = (True, ids')" "fid_live ids' = fid_live (ht_ids t)" "fid_inv ids'"
    using fuse_ids.recycle_live [OF n(4), of fh] n(2,3) by auto
  have "freserved ids' = {}" using r(1) res by (auto simp: fid_recycle_def split: if_splits)
  moreover have "ht_get t fh = None" using assms(1) n(2) by (auto simp: handles_inv_def)
  ultimately show ?thesis using assms(1) n r res
    by (auto simp: ht_open_def ht_close_def handles_inv_def ht_get_def fun_eq_iff)
qed

end
