(* ===== verification/Fuse_Metadata.thy ===== *)
theory Fuse_Metadata
  imports Unix_Metadata Fuse_Tables File_Repo
begin

text \<open>
  Metadata in the FUSE adapter (\<^verbatim>\<open>src/src/repo/file/fuse/metadata.rs\<close>): error numbers, times, and the permissions of
  new entries.  A request carries the user, the group, and the readings of the clock while it is handled.
\<close>

section \<open>Error numbers\<close>

datatype errno =
    EEXIST | ENOENT | ENOTEMPTY | ENOTDIR | EISDIR | EPERM | ECONNREFUSED | ECONNRESET | ECONNABORTED | ENOTCONN
  | EADDRINUSE | EADDRNOTAVAIL | EPIPE | EWOULDBLOCK | EINVAL | ETIMEDOUT | EINTR | ENOSYS | EIO
  | EBADF | EBADR | ENOTSUP | ENODATA | ERANGE
  | RawErrno int

fun raw_os_error :: "io_error \<Rightarrow> int option" where
  "raw_os_error (IoError kind (OsPayload n)) = Some n"
| "raw_os_error (IoError kind _) = None"

fun errno_of_kind :: "io_kind \<Rightarrow> errno" where
  "errno_of_kind NotFoundKind = ENOENT"
| "errno_of_kind PermissionDenied = EPERM"
| "errno_of_kind ConnectionRefused = ECONNREFUSED"
| "errno_of_kind ConnectionReset = ECONNRESET"
| "errno_of_kind ConnectionAborted = ECONNABORTED"
| "errno_of_kind NotConnected = ENOTCONN"
| "errno_of_kind AddrInUse = EADDRINUSE"
| "errno_of_kind AddrNotAvailable = EADDRNOTAVAIL"
| "errno_of_kind BrokenPipe = EPIPE"
| "errno_of_kind AlreadyExistsKind = EEXIST"
| "errno_of_kind WouldBlock = EWOULDBLOCK"
| "errno_of_kind InvalidInput = EINVAL"
| "errno_of_kind TimedOut = ETIMEDOUT"
| "errno_of_kind Interrupted = EINTR"
| "errno_of_kind Unsupported = ENOSYS"
| "errno_of_kind _ = EIO"

fun to_errno :: "error \<Rightarrow> errno" where
  "to_errno AlreadyExists = EEXIST"
| "to_errno NotFound = ENOENT"
| "to_errno InvalidPath = ENOENT"
| "to_errno NotEmpty = ENOTEMPTY"
| "to_errno NotDirectory = ENOTDIR"
| "to_errno NotFile = EISDIR"
| "to_errno (Io (IoError kind payload)) = (case raw_os_error (IoError kind payload) of
      Some n \<Rightarrow> RawErrno n
    | None \<Rightarrow> errno_of_kind kind)"
| "to_errno _ = EIO"

section \<open>Times\<close>

record timespec =
  ts_sec :: int
  ts_nsec :: int

definition duration_new :: "int \<Rightarrow> int \<Rightarrow> ('s, int) op" where
  "duration_new secs nanos = (if secs + nanos div NANOS < 2 ^ 64 then ret (secs * NANOS + nanos)
     else panic ''overflow in Duration::new'')"

definition to_system_time :: "timespec \<Rightarrow> ('s, system_time) op" where
  "to_system_time time =
     bindR (duration_new (int (as_u64 (wrap_i64 \<bar>ts_sec time\<bar>))) (\<bar>ts_nsec time\<bar> mod 2 ^ 32)) (\<lambda>duration.
     if 0 < ts_sec time then time_add 0 duration else time_sub 0 duration)"

definition to_timespec :: "system_time \<Rightarrow> timespec" where
  "to_timespec time =
    (if 0 \<le> time then \<lparr>ts_sec = wrap_i64 (time div NANOS), ts_nsec = time mod NANOS\<rparr>
     else \<lparr>ts_sec = wrap_i64 (- wrap_i64 ((- time) div NANOS)), ts_nsec = - ((- time) mod NANOS)\<rparr>)"

section \<open>Permissions\<close>

text \<open>The crate has the functions \<^verbatim>\<open>user_perm\<close>, \<^verbatim>\<open>group_perm\<close> and \<^verbatim>\<open>other_perm\<close> twice, with the same bodies.\<close>

definition constrain_entry :: "flag_ops \<Rightarrow> access_qualifier \<Rightarrow> u32 \<Rightarrow> (acl_map, unit) op" where
  "constrain_entry F q perm m = (case hget m q of
      Some acl_mode \<Rightarrow> bindR (unwrap_option (am_from_bits F (acl_mode AND perm))) (\<lambda>x. modify (hput q x)) m
    | None \<Rightarrow> (Ok (), m))"

definition constrain_acl :: "flag_ops \<Rightarrow> u32 \<Rightarrow> (acl_map, unit) op" where
  "constrain_acl F mode =
     bindR (constrain_entry F UserObj (user_perm mode)) (\<lambda>_.
     bindR (\<lambda>m. constrain_entry F (if hcontains m QMask then QMask else GroupObj) (group_perm mode) m) (\<lambda>_.
     constrain_entry F QOther (other_perm mode)))"

definition constrain_mode :: "flag_ops \<Rightarrow> acl_map \<Rightarrow> u32 \<Rightarrow> u32" where
  "constrain_mode F m mode =
    (let all = perm_read F OR perm_write F OR perm_execute F;
         user_mode = (case hget m UserObj of Some x \<Rightarrow> x | None \<Rightarrow> all);
         mask_or_group_mode = (case hget m QMask of Some x \<Rightarrow> x
           | None \<Rightarrow> (case hget m GroupObj of Some x \<Rightarrow> x | None \<Rightarrow> all));
         other_mode = (case hget m QOther of Some x \<Rightarrow> x | None \<Rightarrow> all) in
     (push_bit 6 user_mode OR push_bit 3 mask_or_group_mode OR other_mode) AND mode)"

definition change_permissions :: "flag_ops \<Rightarrow> u32 \<Rightarrow> (unix_metadata, unit) op" where
  "change_permissions F mode =
     bindR (modify (\<lambda>u. u\<lparr>um_mode := mode\<rparr>)) (\<lambda>_.
     bindR (on_access (modify (\<lambda>m. let m' = hdel QOther (hdel UserObj m) in
       if \<not> hcontains m' QMask then hdel GroupObj m' else m'))) (\<lambda>_.
     bindR (update_acl F ACL_ACCESS) (\<lambda>_.
     on_access (\<lambda>m. if hcontains m QMask
       then bindR (unwrap_option (am_from_bits F (group_perm mode))) (\<lambda>group_mode. modify (hput QMask group_mode)) m
       else (Ok (), m)))))"

section \<open>Entries\<close>

type_synonym 'l unix_entry = "('l unix_special, unix_metadata) entry"

record request =
  req_uid :: u32
  req_gid :: u32
  req_clock :: "nat \<Rightarrow> system_time"

definition DEFAULT_DIR_MODE :: u32 where
  "DEFAULT_DIR_MODE = 0x1FD"

definition DEFAULT_FILE_MODE :: u32 where
  "DEFAULT_FILE_MODE = 0x1B4"

text \<open>\<open>i\<close> is the index of the reading of the clock.\<close>

definition default_metadata :: "request \<Rightarrow> nat \<Rightarrow> 'l unix_entry \<Rightarrow> unix_metadata" where
  "default_metadata req i e =
    (let now = req_clock req i in
     \<lparr>um_mode = if entry_is_directory e then DEFAULT_DIR_MODE else DEFAULT_FILE_MODE,
      um_modified = now, um_accessed = now, um_changed = now, um_user = req_uid req, um_group = req_gid req,
      um_attributes = [], um_acl = acl_new\<rparr>)"

definition with_metadata :: "request \<Rightarrow> nat \<Rightarrow> 'l unix_entry \<Rightarrow> 'l unix_entry" where
  "with_metadata req i e = e\<lparr>entry_metadata := Some (default_metadata req i e)\<rparr>"

definition with_permissions :: "flag_ops \<Rightarrow> 'l unix_entry \<Rightarrow> u32 option \<Rightarrow> 'l unix_entry \<Rightarrow> ('s, 'l unix_entry) op" where
  "with_permissions F par mode e s = (case (entry_metadata e, entry_metadata par) of
      (Some md, Some parent_md) \<Rightarrow>
        (let inherited = acl_default (um_acl parent_md);
             dflt = (if entry_is_directory e then inherited else acl_default (um_acl md)) in
         case mode of
           None \<Rightarrow> (Ok (e\<lparr>entry_metadata := Some (md\<lparr>um_acl := \<lparr>acl_access = inherited, acl_default = dflt\<rparr>\<rparr>)\<rparr>), s)
         | Some mode \<Rightarrow> (case constrain_acl F mode inherited of
             (Ok _, a) \<Rightarrow> (Ok (e\<lparr>entry_metadata := Some (md\<lparr>um_acl := \<lparr>acl_access = a, acl_default = dflt\<rparr>,
                 um_mode := constrain_mode F a mode\<rparr>)\<rparr>), s)
           | (Err x, _) \<Rightarrow> (Err x, s)
           | (Panic p, _) \<Rightarrow> (Panic p, s)
           | (Diverge, _) \<Rightarrow> (Diverge, s)))
    | _ \<Rightarrow> (Ok e, s))"

definition metadata_or_default :: "request \<Rightarrow> nat \<Rightarrow> 'l unix_entry \<Rightarrow> unix_metadata" where
  "metadata_or_default req i e = (case entry_metadata e of Some md \<Rightarrow> md | None \<Rightarrow> default_metadata req i e)"

fun to_file_type :: "'l unix_special file_type \<Rightarrow> fuse_file_type" where
  "to_file_type TFile = RegularFile"
| "to_file_type TDirectory = FuseDirectory"
| "to_file_type (TSpecial (BlockDevice _ _)) = BlockDeviceType"
| "to_file_type (TSpecial (CharacterDevice _ _)) = CharDevice"
| "to_file_type (TSpecial (SymbolicLink _)) = Symlink"
| "to_file_type (TSpecial NamedPipe) = NamedPipeType"

type_synonym 'l unix_codec = "('l unix_special, unix_metadata) entry_codec"

definition touch_modified ::
  "('s, 'z) env \<Rightarrow> 'q path_ops \<Rightarrow> 'l unix_codec \<Rightarrow> 'q \<Rightarrow> request \<Rightarrow> nat \<Rightarrow> ('s file_repo, unit) op" where
  "touch_modified E P K path req i =
     bindR (file_entry E P K path) (\<lambda>e.
     let now = req_clock req (Suc i) in
     set_metadata E P K path (Some ((metadata_or_default req i e)\<lparr>um_modified := now, um_accessed := now, um_changed := now\<rparr>)))"

definition touch_accessed ::
  "('s, 'z) env \<Rightarrow> 'q path_ops \<Rightarrow> 'l unix_codec \<Rightarrow> 'q \<Rightarrow> request \<Rightarrow> nat \<Rightarrow> ('s file_repo, unit) op" where
  "touch_accessed E P K path req i =
     bindR (file_entry E P K path) (\<lambda>e.
     let now = req_clock req (Suc i) in
     set_metadata E P K path (Some ((metadata_or_default req i e)\<lparr>um_accessed := now, um_changed := now\<rparr>)))"

section \<open>Access control lists as extended attributes\<close>

text \<open>
  \<^verbatim>\<open>src/src/repo/file/fuse/acl.rs\<close>: the bytes of the attributes are converted by writing metadata to a temporary
  directory and reading it back; the directory is removed when its value is dropped.
\<close>

definition ACCESS_ACL_XATTR :: string where
  "ACCESS_ACL_XATTR = ''system.posix_acl_access''"

definition DEFAULT_ACL_XATTR :: string where
  "DEFAULT_ACL_XATTR = ''system.posix_acl_default''"

record permissions =
  pm_mode :: u32
  pm_acl :: acl

definition permissions_from :: "unix_metadata \<Rightarrow> permissions" where
  "permissions_from u = \<lparr>pm_mode = um_mode u, pm_acl = um_acl u\<rparr>"

definition in_tempdir :: "('l, 'w) os \<Rightarrow> ('l \<Rightarrow> ('w, 'a) op) \<Rightarrow> ('w, 'a) op" where
  "in_tempdir W m = bindR (io_call (os_tempdir W)) (\<lambda>dir w.
     (case m dir w of (x, w') \<Rightarrow> (x, os_remove_tempdir W dir w')))"

definition update_attr ::
  "flag_ops \<Rightarrow> ('l, 'w) os \<Rightarrow> string \<Rightarrow> bytes \<Rightarrow> permissions \<Rightarrow> ('w, permissions) op" where
  "update_attr F W attr_name attr_value pm = in_tempdir W (\<lambda>path.
     bindR (unix_from_file F W path) (\<lambda>u.
     let u' = u\<lparr>um_mode := pm_mode pm, um_acl := acl_new, um_attributes := hput attr_name attr_value (um_attributes u)\<rparr> in
     bindR (unix_write_metadata F W u' path) (\<lambda>_.
     bindR (unix_from_file F W path) (\<lambda>v.
     ret \<lparr>pm_mode = (pm_mode pm AND NOT 0x1FF) OR (um_mode v AND 0x1FF), pm_acl = um_acl v\<rparr>))))"

definition to_attr :: "flag_ops \<Rightarrow> ('l, 'w) os \<Rightarrow> string \<Rightarrow> permissions \<Rightarrow> ('w, bytes) op" where
  "to_attr F W attr_name pm = in_tempdir W (\<lambda>path.
     bindR (unix_from_file F W path) (\<lambda>u.
     bindR (unix_write_metadata F W (u\<lparr>um_mode := pm_mode pm AND 0x1FF, um_acl := pm_acl pm\<rparr>) path) (\<lambda>_.
     bindR (unix_from_file F W path) (\<lambda>v.
     ret (case hget (um_attributes v) attr_name of Some b \<Rightarrow> b | None \<Rightarrow> [])))))"

end
