(* ===== verification/Fuse_Fs.thy ===== *)
theory Fuse_Fs
  imports Fuse_Metadata
begin

text \<open>
  The FUSE adapter (\<^verbatim>\<open>src/src/repo/file/fuse/fs.rs\<close>): a file repository with the tables of inodes, file handles and open
  objects, and one operation per request of the file system.  A reply is a value or an error number; the two
  macros of the file, \<^verbatim>\<open>try_result\<close> and \<^verbatim>\<open>try_option\<close>, turn errors into replies.
\<close>

section \<open>State\<close>

record ('s, 'z, 'b, 'w) adapter =
  fa_repo :: "'s file_repo"
  fa_inodes :: "'b inode_table"
  fa_handles :: handle_table
  fa_objects :: "(u64, 'z chunker object) hmap"
  fa_world :: 'w

text \<open>
  What the adapter is built on: the repository, and functions of \<^verbatim>\<open>relative_path\<close>, \<^verbatim>\<open>std\<close> and \<^verbatim>\<open>fuse\<close>.  A directory
  entry is refused by \<^verbatim>\<open>ReplyDirectory::add\<close> when it does not fit behind those that were added.
\<close>

type_synonym dir_reply = "u64 \<times> int \<times> fuse_file_type \<times> string"

record ('s, 'z, 'q, 'b, 'l, 'w) fuse_env =
  fv_env :: "('s, 'z) env"
  fv_map :: "repo_key map_codec"
  fv_state :: "entry_handle path_tree state_codec"
  fv_codec :: "'l unix_codec"
  fv_paths :: "'q path_ops"
  fv_bimap :: "('b, 'q) bimap_ops"
  fv_flags :: flag_ops
  fv_os :: "('l, 'w) os"
  fv_to_str :: "bytes \<Rightarrow> string option"
  fv_as_bytes :: "string \<Rightarrow> bytes"
  fv_starts_with :: "'q \<Rightarrow> 'q \<Rightarrow> bool"
  fv_file_name :: "'q \<Rightarrow> string option"
  fv_link_bytes :: "'l \<Rightarrow> bytes"
  fv_reply_full :: "dir_reply list \<Rightarrow> dir_reply \<Rightarrow> bool"

record file_attr =
  at_ino :: u64
  at_size :: nat
  at_blocks :: nat
  at_atime :: timespec
  at_mtime :: timespec
  at_ctime :: timespec
  at_crtime :: timespec
  at_kind :: fuse_file_type
  at_perm :: "16 word"
  at_nlink :: u32
  at_uid :: u32
  at_gid :: u32
  at_rdev :: u32
  at_flags :: u32

datatype 'r reply = Reply 'r | ReplyError errno

definition BLOCK_SIZE :: nat where
  "BLOCK_SIZE = 512"

definition UNSUPPORTED_OPEN_FLAGS :: "flag_ops \<Rightarrow> u32" where
  "UNSUPPORTED_OPEN_FLAGS F = o_direct F OR o_tmpfile F"

definition NON_SPECIAL_RDEV :: u32 where
  "NON_SPECIAL_RDEV = 0"

definition on_frepo :: "('s file_repo, 'a) op \<Rightarrow> (('s, 'z, 'b, 'w) adapter, 'a) op" where
  "on_frepo m a = (case m (fa_repo a) of (x, r) \<Rightarrow> (x, a\<lparr>fa_repo := r\<rparr>))"

definition on_inodes :: "('b inode_table, 'a) op \<Rightarrow> (('s, 'z, 'b, 'w) adapter, 'a) op" where
  "on_inodes m a = (case m (fa_inodes a) of (x, t) \<Rightarrow> (x, a\<lparr>fa_inodes := t\<rparr>))"

definition on_handles :: "(handle_table, 'a) op \<Rightarrow> (('s, 'z, 'b, 'w) adapter, 'a) op" where
  "on_handles m a = (case m (fa_handles a) of (x, t) \<Rightarrow> (x, a\<lparr>fa_handles := t\<rparr>))"

definition on_objects :: "(('s, 'z chunker) open_objects, 'a) op \<Rightarrow> (('s, 'z, 'b, 'w) adapter, 'a) op" where
  "on_objects m a = (case m (fa_objects a, sr_repo (fa_repo a)) of
     (x, (T, q)) \<Rightarrow> (x, a\<lparr>fa_objects := T, fa_repo := (fa_repo a)\<lparr>sr_repo := q\<rparr>\<rparr>))"

definition on_world :: "('w, 'a) op \<Rightarrow> (('s, 'z, 'b, 'w) adapter, 'a) op" where
  "on_world m a = (case m (fa_world a) of (x, w) \<Rightarrow> (x, a\<lparr>fa_world := w\<rparr>))"

section \<open>Replies\<close>

definition reply :: "'r \<Rightarrow> ('a, 'r reply) op" where
  "reply x = ret (Reply x)"

definition reply_error :: "errno \<Rightarrow> ('a, 'r reply) op" where
  "reply_error e = ret (ReplyError e)"

definition try_result :: "('a, 'b) op \<Rightarrow> ('b \<Rightarrow> ('a, 'r reply) op) \<Rightarrow> ('a, 'r reply) op" where
  "try_result m f a = (case m a of
      (Ok x, a') \<Rightarrow> f x a'
    | (Err e, a') \<Rightarrow> (Ok (ReplyError (to_errno e)), a')
    | (Panic p, a') \<Rightarrow> (Panic p, a')
    | (Diverge, a') \<Rightarrow> (Diverge, a'))"

definition try_option :: "'b option \<Rightarrow> errno \<Rightarrow> ('b \<Rightarrow> ('a, 'r reply) op) \<Rightarrow> ('a, 'r reply) op" where
  "try_option x e f = (case x of Some y \<Rightarrow> f y | None \<Rightarrow> reply_error e)"

text \<open>\<^verbatim>\<open>.ok()\<close>: an error is ignored.\<close>

definition ignore_error :: "('a, 'b) op \<Rightarrow> ('a, unit) op" where
  "ignore_error m a = (case m a of
      (Ok _, a') \<Rightarrow> (Ok (), a')
    | (Err _, a') \<Rightarrow> (Ok (), a')
    | (Panic p, a') \<Rightarrow> (Panic p, a')
    | (Diverge, a') \<Rightarrow> (Diverge, a'))"

section \<open>The adapter\<close>

text \<open>The path of an inode and the inode of a path.\<close>

definition path_of :: "('s, 'z, 'q, 'b, 'l, 'w) fuse_env \<Rightarrow> ('s, 'z, 'b, 'w) adapter \<Rightarrow> u64 \<Rightarrow> 'q option" where
  "path_of V a inode = it_path (fv_bimap V) (fa_inodes a) inode"

definition inode_of :: "('s, 'z, 'q, 'b, 'l, 'w) fuse_env \<Rightarrow> ('s, 'z, 'b, 'w) adapter \<Rightarrow> 'q \<Rightarrow> u64 option" where
  "inode_of V a path = it_inode (fv_bimap V) (fa_inodes a) path"

definition join_name :: "('s, 'z, 'q, 'b, 'l, 'w) fuse_env \<Rightarrow> 'q \<Rightarrow> string \<Rightarrow> 'q" where
  "join_name V path file_name = p_join (fv_paths V) path (p_new (fv_paths V) file_name)"

definition fuse_new ::
  "('s, 'z, 'q, 'b, 'l, 'w) fuse_env \<Rightarrow> 's file_repo \<Rightarrow> 'w \<Rightarrow> 'q \<Rightarrow> ('s, 'z, 'b, 'w) adapter result" where
  "fuse_new V repo w root =
    (if p_eq (fv_paths V) root (EMPTY_PATH (fv_paths V)) then Err InvalidPath
     else case file_walk (fv_paths V) root repo of
        (Ok paths, r) \<Rightarrow>
          (case forM paths (\<lambda>path. bindR (it_insert (fv_bimap V) path) (\<lambda>_. ret ())) (it_new (fv_bimap V) root) of
             (Ok _, t) \<Rightarrow> Ok \<lparr>fa_repo = r, fa_inodes = t, fa_handles = ht_new, fa_objects = [], fa_world = w\<rparr>
           | (Err e, _) \<Rightarrow> Err e
           | (Panic p, _) \<Rightarrow> Panic p
           | (Diverge, _) \<Rightarrow> Diverge)
      | (Err e, _) \<Rightarrow> Err e
      | (Panic p, _) \<Rightarrow> Panic p
      | (Diverge, _) \<Rightarrow> Diverge)"

text \<open>\<^verbatim>\<open>self.objects.open_commit(ino, self.repo.open(&path).unwrap())\<close> and the same with \<^verbatim>\<open>open\<close>.\<close>

definition open_committed ::
  "('s, 'z, 'q, 'b, 'l, 'w) fuse_env \<Rightarrow> u64 \<Rightarrow> 'q \<Rightarrow> (('s, 'z, 'b, 'w) adapter, unit) op" where
  "open_committed V ino path =
     bindR (on_frepo (unwrap_result (file_open (ev_zpaq (fv_env V)) (fv_paths V) path))) (\<lambda>dflt.
     on_objects (ot_open_commit (fv_env V) ino dflt))"

definition open_object ::
  "('s, 'z, 'q, 'b, 'l, 'w) fuse_env \<Rightarrow> u64 \<Rightarrow> 'q \<Rightarrow> (('s, 'z, 'b, 'w) adapter, unit) op" where
  "open_object V ino path =
     bindR (on_frepo (unwrap_result (file_open (ev_zpaq (fv_env V)) (fv_paths V) path))) (\<lambda>dflt.
     on_objects (ot_open ino dflt))"

definition object_size :: "u64 \<Rightarrow> (('s, 'z, 'b, 'w) adapter, nat) op" where
  "object_size ino = unwrap_result (on_objects (ot_use ino view_size))"

definition entry_rdev :: "flag_ops \<Rightarrow> 'l unix_special file_type \<Rightarrow> u32" where
  "entry_rdev F ty = (case ty of
      TSpecial (BlockDevice mj mn) \<Rightarrow> ucast (makedev F mj mn)
    | TSpecial (CharacterDevice mj mn) \<Rightarrow> ucast (makedev F mj mn)
    | _ \<Rightarrow> NON_SPECIAL_RDEV)"

definition attr_mode :: "unix_metadata \<Rightarrow> u32" where
  "attr_mode md = (case hget (acl_access (um_acl md)) QMask of
      None \<Rightarrow> um_mode md
    | Some mask_mode \<Rightarrow> (um_mode md AND 0x1C7) OR push_bit 3 mask_mode)"

definition entry_attr ::
  "('s, 'z, 'q, 'b, 'l, 'w) fuse_env \<Rightarrow> request \<Rightarrow> nat \<Rightarrow> 'l unix_entry \<Rightarrow> u64 \<Rightarrow> (('s, 'z, 'b, 'w) adapter, file_attr) op" where
  "entry_attr V req i entry inode a = (case path_of V a inode of
      None \<Rightarrow> (Err NotFound, a)
    | Some entry_path \<Rightarrow>
        let md = metadata_or_default req i entry in
        bindR (case file_type entry of
            TFile \<Rightarrow> bindR (open_committed V inode entry_path) (\<lambda>_. object_size inode)
          | TDirectory \<Rightarrow> ret 0
          | TSpecial (SymbolicLink target) \<Rightarrow> ret (length (fv_link_bytes V target))
          | TSpecial _ \<Rightarrow> ret 0) (\<lambda>n.
        ret \<lparr>at_ino = inode, at_size = n, at_blocks = n div BLOCK_SIZE,
          at_atime = to_timespec (um_accessed md), at_mtime = to_timespec (um_modified md),
          at_ctime = to_timespec (um_changed md), at_crtime = to_timespec (req_clock req (Suc i)),
          at_kind = to_file_type (file_type entry), at_perm = ucast (attr_mode md), at_nlink = 1,
          at_uid = um_user md, at_gid = um_group md, at_rdev = entry_rdev (fv_flags V) (file_type entry),
          at_flags = 0\<rparr>) a)"

definition create_attr ::
  "('s, 'z, 'q, 'b, 'l, 'w) fuse_env \<Rightarrow> request \<Rightarrow> nat \<Rightarrow> 'q \<Rightarrow> 'l unix_entry \<Rightarrow> (('s, 'z, 'b, 'w) adapter, file_attr) op" where
  "create_attr V req i path entry =
     bindR (on_inodes (it_insert (fv_bimap V) path)) (\<lambda>entry_inode a.
       (case entry_attr V req i entry entry_inode a of
          (Err e, a') \<Rightarrow> bindR (on_inodes (it_remove (fv_bimap V) entry_inode)) (\<lambda>_. throw e) a'
        | (x, a') \<Rightarrow> (x, a')))"

definition transaction ::
  "('s, 'z, 'q, 'b, 'l, 'w) fuse_env \<Rightarrow> (('s, 'z, 'b, 'w) adapter, 'a) op \<Rightarrow> (('s, 'z, 'b, 'w) adapter, 'a) op" where
  "transaction V block =
     bindR (on_objects (ot_commit_all (fv_env V))) (\<lambda>_.
     bindR (on_frepo (file_savepoint (fv_env V) (fv_map V) (fv_state V))) (\<lambda>sp.
     bindR (on_frepo (file_start_restore (fv_env V) (fv_map V) (fv_state V) sp)) (\<lambda>restore a.
       let undo = (\<lambda>e. bindR (on_frepo (file_finish_restore restore)) (\<lambda>_. throw e)) in
       (case block a of
          (Ok x, a1) \<Rightarrow> (case on_frepo (file_commit (fv_env V) (fv_map V) (fv_state V)) a1 of
              (Ok _, a2) \<Rightarrow> (Ok x, a2)
            | (Err e, a2) \<Rightarrow> undo e a2
            | (Panic p, a2) \<Rightarrow> (Panic p, a2)
            | (Diverge, a2) \<Rightarrow> (Diverge, a2))
        | (Err e, a1) \<Rightarrow> undo e a1
        | (Panic p, a1) \<Rightarrow> (Panic p, a1)
        | (Diverge, a1) \<Rightarrow> (Diverge, a1)))))"

definition fs_entry :: "('s, 'z, 'q, 'b, 'l, 'w) fuse_env \<Rightarrow> 'q \<Rightarrow> (('s, 'z, 'b, 'w) adapter, 'l unix_entry) op" where
  "fs_entry V path = on_frepo (file_entry (fv_env V) (fv_paths V) (fv_codec V) path)"

definition fs_touch_modified :: "('s, 'z, 'q, 'b, 'l, 'w) fuse_env \<Rightarrow> request \<Rightarrow> nat \<Rightarrow> 'q \<Rightarrow> (('s, 'z, 'b, 'w) adapter, unit) op" where
  "fs_touch_modified V req i path = on_frepo (touch_modified (fv_env V) (fv_paths V) (fv_codec V) path req i)"

definition fs_clean :: "('s, 'z, 'q, 'b, 'l, 'w) fuse_env \<Rightarrow> (('s, 'z, 'b, 'w) adapter, unit) op" where
  "fs_clean V = ignore_error (on_frepo (file_clean (fv_env V)))"

section \<open>Attributes\<close>

type_synonym entry_reply = "file_attr \<times> u64"

definition fs_lookup ::
  "('s, 'z, 'q, 'b, 'l, 'w) fuse_env \<Rightarrow> request \<Rightarrow> u64 \<Rightarrow> bytes \<Rightarrow> (('s, 'z, 'b, 'w) adapter, entry_reply reply) op" where
  "fs_lookup V req par nm a =
     try_option (fv_to_str V nm) ENOENT (\<lambda>file_name.
     try_option (path_of V a par) ENOENT (\<lambda>parent_path.
     let entry_path = join_name V parent_path file_name in
     try_option (inode_of V a entry_path) ENOENT (\<lambda>entry_inode.
     try_result (fs_entry V entry_path) (\<lambda>entry.
     try_result (entry_attr V req 0 entry entry_inode) (\<lambda>attr a.
     reply (attr, it_generation (fa_inodes a) entry_inode) a))))) a"

definition fs_getattr ::
  "('s, 'z, 'q, 'b, 'l, 'w) fuse_env \<Rightarrow> request \<Rightarrow> u64 \<Rightarrow> (('s, 'z, 'b, 'w) adapter, file_attr reply) op" where
  "fs_getattr V req ino a =
     try_option (path_of V a ino) ENOENT (\<lambda>entry_path.
     try_result (fs_entry V entry_path) (\<lambda>entry.
     try_result (entry_attr V req 0 entry ino) reply)) a"

text \<open>What \<^verbatim>\<open>setattr\<close> is asked to change.\<close>

record set_attrs =
  sa_mode :: "u32 option"
  sa_uid :: "u32 option"
  sa_gid :: "u32 option"
  sa_size :: "nat option"
  sa_atime :: "timespec option"
  sa_mtime :: "timespec option"
  sa_chgtime :: "timespec option"

definition set_time :: "timespec option \<Rightarrow> (system_time \<Rightarrow> unix_metadata \<Rightarrow> unix_metadata) \<Rightarrow> (unix_metadata, unit) op" where
  "set_time t put = (case t of
      Some time \<Rightarrow> bindR (to_system_time time) (\<lambda>x. modify (put x))
    | None \<Rightarrow> ret ())"

definition apply_attrs :: "flag_ops \<Rightarrow> set_attrs \<Rightarrow> system_time \<Rightarrow> (unix_metadata, unit) op" where
  "apply_attrs F sa now =
     bindR (case sa_mode sa of Some mode \<Rightarrow> change_permissions F mode | None \<Rightarrow> ret ()) (\<lambda>_.
     bindR (case sa_uid sa of Some uid \<Rightarrow> modify (\<lambda>u. u\<lparr>um_user := uid\<rparr>) | None \<Rightarrow> ret ()) (\<lambda>_.
     bindR (case sa_gid sa of Some gid \<Rightarrow> modify (\<lambda>u. u\<lparr>um_group := gid\<rparr>) | None \<Rightarrow> ret ()) (\<lambda>_.
     bindR (set_time (sa_atime sa) (\<lambda>x u. u\<lparr>um_accessed := x\<rparr>)) (\<lambda>_.
     bindR (set_time (sa_mtime sa) (\<lambda>x u. u\<lparr>um_modified := x\<rparr>)) (\<lambda>_.
     (case sa_chgtime sa of
        Some ctime \<Rightarrow> set_time (Some ctime) (\<lambda>x u. u\<lparr>um_changed := x\<rparr>)
      | None \<Rightarrow> modify (\<lambda>u. u\<lparr>um_changed := now\<rparr>)))))))"

definition resize_entry ::
  "('s, 'z, 'q, 'b, 'l, 'w) fuse_env \<Rightarrow> u64 \<Rightarrow> 'q \<Rightarrow> system_time \<Rightarrow> nat option \<Rightarrow> unix_metadata \<Rightarrow>
     (('s, 'z, 'b, 'w) adapter, unix_metadata \<times> bool) op" where
  "resize_entry V ino entry_path now new_size md = (case new_size of
      None \<Rightarrow> ret (md, False)
    | Some n \<Rightarrow>
        bindR (open_committed V ino entry_path) (\<lambda>_.
        bindR (object_size ino) (\<lambda>old.
        let needs_cleaned = n < old in
        if n \<noteq> old then
          bindR (on_objects (ot_use ino (view_set_len (ev_store (fv_env V)) (ev_ext (fv_env V)) n))) (\<lambda>_.
          ret (md\<lparr>um_modified := now, um_accessed := now, um_changed := now\<rparr>, needs_cleaned))
        else ret (md, needs_cleaned))))"

definition fs_setattr ::
  "('s, 'z, 'q, 'b, 'l, 'w) fuse_env \<Rightarrow> request \<Rightarrow> u64 \<Rightarrow> set_attrs \<Rightarrow> (('s, 'z, 'b, 'w) adapter, file_attr reply) op" where
  "fs_setattr V req ino sa a =
    (let now = req_clock req 0 in
     try_option (path_of V a ino) ENOENT (\<lambda>entry_path.
     try_result (fs_entry V entry_path) (\<lambda>entry.
     try_result (\<lambda>a. case apply_attrs (fv_flags V) sa now (metadata_or_default req 1 entry) of
        (Ok _, md) \<Rightarrow> (Ok md, a)
      | (Err e, _) \<Rightarrow> (Err e, a)
      | (Panic p, _) \<Rightarrow> (Panic p, a)
      | (Diverge, _) \<Rightarrow> (Diverge, a)) (\<lambda>md.
     try_result (transaction V
        (bindR (resize_entry V ino entry_path now (sa_size sa) md) (\<lambda>(md', needs_cleaned).
         bindR (on_frepo (set_metadata (fv_env V) (fv_paths V) (fv_codec V) entry_path (Some md'))) (\<lambda>_.
         bindR (entry_attr V req 2 (entry\<lparr>entry_metadata := Some md'\<rparr>) ino) (\<lambda>attr.
         ret (attr, needs_cleaned)))))) (\<lambda>(attr, needs_cleaned).
     bindR (if needs_cleaned then fs_clean V else ret ()) (\<lambda>_. reply attr))))) a)"

definition fs_readlink :: "('s, 'z, 'q, 'b, 'l, 'w) fuse_env \<Rightarrow> u64 \<Rightarrow> (('s, 'z, 'b, 'w) adapter, bytes reply) op" where
  "fs_readlink V ino a =
     try_option (path_of V a ino) ENOENT (\<lambda>entry_path.
     try_result (fs_entry V entry_path) (\<lambda>entry.
     case file_type entry of
        TSpecial (SymbolicLink target) \<Rightarrow> reply (fv_link_bytes V target)
      | _ \<Rightarrow> reply_error EINVAL)) a"

section \<open>Creating entries\<close>

text \<open>The part that \<^verbatim>\<open>mknod\<close>, \<^verbatim>\<open>mkdir\<close> and \<^verbatim>\<open>symlink\<close> have in common.\<close>

definition create_node ::
  "('s, 'z, 'q, 'b, 'l, 'w) fuse_env \<Rightarrow> request \<Rightarrow> 'q \<Rightarrow> 'q \<Rightarrow> 'l unix_special file_type \<Rightarrow> u32 option \<Rightarrow>
     (('s, 'z, 'b, 'w) adapter, entry_reply reply) op" where
  "create_node V req parent_path entry_path ty mode =
     try_result (fs_entry V parent_path) (\<lambda>parent_entry.
     try_result (with_permissions (fv_flags V) parent_entry mode
        (with_metadata req 0 \<lparr>file_type = ty, entry_metadata = None\<rparr>)) (\<lambda>entry.
     try_result (transaction V
        (bindR (on_frepo (file_create (fv_env V) (fv_paths V) (fv_codec V) entry_path entry)) (\<lambda>_.
         bindR (fs_touch_modified V req 1 parent_path) (\<lambda>_.
         create_attr V req 3 entry_path entry)))) (\<lambda>attr a.
     reply (attr, it_generation (fa_inodes a) (at_ino attr)) a)))"

definition node_type :: "flag_ops \<Rightarrow> u32 \<Rightarrow> u32 \<Rightarrow> errno + 'l unix_special file_type" where
  "node_type F mode rdev =
    (let flags = sf_from_bits_truncate F mode; mj = dev_major F (ucast rdev); mn = dev_minor F (ucast rdev) in
     if fl_contains F flags (s_ifreg F) then Inr TFile
     else if fl_contains F flags (s_ifchr F) then Inr (TSpecial (CharacterDevice mj mn))
     else if fl_contains F flags (s_ifblk F) then Inr (TSpecial (BlockDevice mj mn))
     else if fl_contains F flags (s_ififo F) then Inr (TSpecial NamedPipe)
     else if fl_contains F flags (s_ifsock F) then Inl EPERM
     else Inl EINVAL)"

definition fs_mknod ::
  "('s, 'z, 'q, 'b, 'l, 'w) fuse_env \<Rightarrow> request \<Rightarrow> u64 \<Rightarrow> bytes \<Rightarrow> u32 \<Rightarrow> u32 \<Rightarrow>
     (('s, 'z, 'b, 'w) adapter, entry_reply reply) op" where
  "fs_mknod V req par nm mode rdev a =
     try_option (fv_to_str V nm) EINVAL (\<lambda>file_name.
     try_option (path_of V a par) ENOENT (\<lambda>parent_path.
     case node_type (fv_flags V) mode rdev of
        Inl e \<Rightarrow> reply_error e
      | Inr ty \<Rightarrow> create_node V req parent_path (join_name V parent_path file_name) ty (Some mode))) a"

definition fs_mkdir ::
  "('s, 'z, 'q, 'b, 'l, 'w) fuse_env \<Rightarrow> request \<Rightarrow> u64 \<Rightarrow> bytes \<Rightarrow> u32 \<Rightarrow>
     (('s, 'z, 'b, 'w) adapter, entry_reply reply) op" where
  "fs_mkdir V req par nm mode a =
     try_option (fv_to_str V nm) EINVAL (\<lambda>file_name.
     try_option (path_of V a par) ENOENT (\<lambda>parent_path.
     create_node V req parent_path (join_name V parent_path file_name) TDirectory (Some mode))) a"

definition fs_symlink ::
  "('s, 'z, 'q, 'b, 'l, 'w) fuse_env \<Rightarrow> request \<Rightarrow> u64 \<Rightarrow> bytes \<Rightarrow> 'l \<Rightarrow>
     (('s, 'z, 'b, 'w) adapter, entry_reply reply) op" where
  "fs_symlink V req par nm link a =
     try_option (fv_to_str V nm) EINVAL (\<lambda>file_name.
     try_option (path_of V a par) ENOENT (\<lambda>parent_path.
     create_node V req parent_path (join_name V parent_path file_name) (TSpecial (SymbolicLink link)) None)) a"

section \<open>Removing entries\<close>

text \<open>The transaction of \<^verbatim>\<open>unlink\<close> and \<^verbatim>\<open>rmdir\<close>.\<close>

definition remove_node ::
  "('s, 'z, 'q, 'b, 'l, 'w) fuse_env \<Rightarrow> request \<Rightarrow> 'q \<Rightarrow> 'q \<Rightarrow> (('s, 'z, 'b, 'w) adapter, unit) op" where
  "remove_node V req parent_path entry_path = transaction V
     (bindR (on_frepo (file_remove (fv_paths V) entry_path)) (\<lambda>_.
      fs_touch_modified V req 0 parent_path))"

definition fs_unlink ::
  "('s, 'z, 'q, 'b, 'l, 'w) fuse_env \<Rightarrow> request \<Rightarrow> u64 \<Rightarrow> bytes \<Rightarrow> (('s, 'z, 'b, 'w) adapter, unit reply) op" where
  "fs_unlink V req par nm a =
     try_option (fv_to_str V nm) ENOENT (\<lambda>file_name.
     try_option (path_of V a par) ENOENT (\<lambda>parent_path.
     let entry_path = join_name V parent_path file_name in
     try_option (inode_of V a entry_path) ENOENT (\<lambda>entry_inode a.
     if is_directory (fv_paths V) (fa_repo a) entry_path then reply_error EISDIR a
     else try_result (remove_node V req parent_path entry_path) (\<lambda>_.
       bindR (fs_clean V) (\<lambda>_.
       bindR (on_inodes (it_remove (fv_bimap V) entry_inode)) (\<lambda>_.
       bindR (on_objects (ot_close entry_inode)) (\<lambda>_.
       reply ())))) a))) a"

definition fs_rmdir ::
  "('s, 'z, 'q, 'b, 'l, 'w) fuse_env \<Rightarrow> request \<Rightarrow> u64 \<Rightarrow> bytes \<Rightarrow> (('s, 'z, 'b, 'w) adapter, unit reply) op" where
  "fs_rmdir V req par nm a =
     try_option (fv_to_str V nm) ENOENT (\<lambda>file_name.
     try_option (path_of V a par) ENOENT (\<lambda>parent_path a.
     let entry_path = join_name V parent_path file_name in
     if \<not> is_directory (fv_paths V) (fa_repo a) entry_path then reply_error ENOTDIR a
     else try_result (remove_node V req parent_path entry_path) (\<lambda>_.
       bindR (fs_clean V) (\<lambda>_ a.
       bindR (unwrap_option (inode_of V a entry_path)) (\<lambda>entry_inode.
       bindR (on_inodes (it_remove (fv_bimap V) entry_inode)) (\<lambda>_.
       reply ())) a)) a)) a"

section \<open>Renaming\<close>

text \<open>Commit and close the objects of some paths.\<close>

definition close_path :: "('s, 'z, 'q, 'b, 'l, 'w) fuse_env \<Rightarrow> 'q \<Rightarrow> (('s, 'z, 'b, 'w) adapter, unit) op" where
  "close_path V path a =
     bindR (unwrap_option (inode_of V a path)) (\<lambda>inode.
     bindR (on_objects (ot_commit (fv_env V) inode)) (\<lambda>_.
     bindR (on_objects (ot_close inode)) (\<lambda>_. ret ()))) a"

text \<open>\<^verbatim>\<open>if let Ok(descendants) = self.repo.walk(..)\<close>.\<close>

definition walk_if_ok :: "('s, 'z, 'q, 'b, 'l, 'w) fuse_env \<Rightarrow> 'q \<Rightarrow> (('s, 'z, 'b, 'w) adapter, 'q list) op" where
  "walk_if_ok V path a = (case on_frepo (file_walk (fv_paths V) path) a of
      (Err e, a') \<Rightarrow> (Ok [], a')
    | (x, a') \<Rightarrow> (x, a'))"

definition rename_inode ::
  "('s, 'z, 'q, 'b, 'l, 'w) fuse_env \<Rightarrow> 'q \<Rightarrow> 'q \<Rightarrow> 'q \<Rightarrow> (('s, 'z, 'b, 'w) adapter, unit) op" where
  "rename_inode V source_path dest_path dest_descendant =
     bindR (unwrap_option (p_strip_prefix (fv_paths V) dest_descendant dest_path)) (\<lambda>relative_descendant.
     bindR (on_inodes (it_rename (fv_bimap V) (p_join (fv_paths V) source_path relative_descendant) dest_descendant)) (\<lambda>_.
     ret ()))"

definition move_tree ::
  "('s, 'z, 'q, 'b, 'l, 'w) fuse_env \<Rightarrow> request \<Rightarrow> 'q \<Rightarrow> 'q \<Rightarrow> 'q \<Rightarrow> 'q \<Rightarrow> (('s, 'z, 'b, 'w) adapter, unit) op" where
  "move_tree V req source_parent_path source_path dest_parent_path dest_path =
     bindR (\<lambda>a. case on_frepo (file_remove (fv_paths V) dest_path) a of
        (Err NotEmpty, a') \<Rightarrow> (Err NotEmpty, a')
      | (Err e, a') \<Rightarrow> (Ok (), a')
      | (x, a') \<Rightarrow> (x, a')) (\<lambda>_.
     bindR (on_frepo (copy_tree (fv_paths V) source_path dest_path)) (\<lambda>_.
     bindR (ignore_error (on_frepo (remove_tree (fv_paths V) source_path))) (\<lambda>_.
     bindR (fs_touch_modified V req 0 source_parent_path) (\<lambda>_.
     fs_touch_modified V req 2 dest_parent_path))))"

definition fs_rename ::
  "('s, 'z, 'q, 'b, 'l, 'w) fuse_env \<Rightarrow> request \<Rightarrow> u64 \<Rightarrow> bytes \<Rightarrow> u64 \<Rightarrow> bytes \<Rightarrow>
     (('s, 'z, 'b, 'w) adapter, unit reply) op" where
  "fs_rename V req par nm newpar newnm a =
     try_option (fv_to_str V nm) ENOENT (\<lambda>source_name.
     try_option (path_of V a par) ENOENT (\<lambda>source_parent_path.
     let source_path = join_name V source_parent_path source_name in
     try_option (fv_to_str V newnm) EINVAL (\<lambda>dest_name.
     try_option (path_of V a newpar) ENOENT (\<lambda>dest_parent_path a.
     let dest_path = join_name V dest_parent_path dest_name in
     if \<not> file_exists (fv_paths V) (fa_repo a) source_path then reply_error ENOENT a
     else if fv_starts_with V dest_path source_path then reply_error EINVAL a
     else bindR (unwrap_option (p_parent (fv_paths V) dest_path)) (\<lambda>dest_parent a.
       if \<not> is_directory (fv_paths V) (fa_repo a) dest_parent then reply_error ENOTDIR a
       else try_result (close_path V source_path) (\<lambda>_.
         bindR (walk_if_ok V source_path) (\<lambda>descendants.
         try_result (forM descendants (close_path V)) (\<lambda>_.
         try_result (transaction V (move_tree V req source_parent_path source_path dest_parent_path dest_path)) (\<lambda>_.
         bindR (on_inodes (it_rename (fv_bimap V) source_path dest_path)) (\<lambda>_.
         bindR (walk_if_ok V dest_path) (\<lambda>dest_descendants.
         bindR (forM dest_descendants (rename_inode V source_path dest_path)) (\<lambda>_.
         reply ()))))))) a) a)))) a"

section \<open>Open files\<close>

definition fs_open :: "('s, 'z, 'q, 'b, 'l, 'w) fuse_env \<Rightarrow> u64 \<Rightarrow> u32 \<Rightarrow> (('s, 'z, 'b, 'w) adapter, u64 reply) op" where
  "fs_open V ino flags a =
    (let flags' = of_from_bits_truncate (fv_flags V) flags in
     if fl_intersects (fv_flags V) flags' (UNSUPPORTED_OPEN_FLAGS (fv_flags V)) then reply_error ENOTSUP a
     else try_option (path_of V a ino) ENOENT (\<lambda>entry_path a.
       if \<not> file_exists (fv_paths V) (fa_repo a) entry_path then reply_error ENOENT a
       else if \<not> is_file (fv_paths V) (fa_repo a) entry_path then reply_error ENOTSUP a
       else bindR (on_handles (ht_open (HFile \<lparr>fh_flags = flags', fh_position = 0\<rparr>))) reply a) a)"

text \<open>The loop of \<^verbatim>\<open>read\<close>: until the object returns no more bytes.\<close>

function read_loop :: "(nat \<Rightarrow> ('a, bytes) op) \<Rightarrow> nat \<Rightarrow> bytes \<Rightarrow> ('a, bytes) op" where
  "read_loop rd n buffer a = (case rd n a of
      (Ok b, a') \<Rightarrow>
        if b = [] then (Ok buffer, a')
        else if n < length b then (Panic ''slice index starts past the end'', a')
        else read_loop rd (n - length b) (buffer @ b) a'
    | (x, a') \<Rightarrow> (x, a'))"
  by pat_completeness auto

termination read_loop
  by (relation "measure (\<lambda>(rd, n, buffer, a). n)") (auto simp: Suc_le_eq neq_Nil_conv)

declare read_loop.simps [simp del]

definition fs_read ::
  "('s, 'z, 'q, 'b, 'l, 'w) fuse_env \<Rightarrow> request \<Rightarrow> u64 \<Rightarrow> u64 \<Rightarrow> int \<Rightarrow> nat \<Rightarrow> (('s, 'z, 'b, 'w) adapter, bytes reply) op" where
  "fs_read V req ino fh offset count a = (case path_of V a ino of
      None \<Rightarrow> bindR (on_handles (modify (ht_close fh))) (\<lambda>_. reply_error EBADF) a
    | Some entry_path \<Rightarrow> (case ht_get (fa_handles a) fh of
        None \<Rightarrow> reply_error EBADF a
      | Some (HDirectory _) \<Rightarrow> reply_error EISDIR a
      | Some (HFile st) \<Rightarrow>
          try_result (open_committed V ino entry_path) (\<lambda>_.
          try_result (on_objects (ot_use ino (view_seek (FromStart (as_u64 offset))))) (\<lambda>_.
          try_result (read_loop (\<lambda>n. on_objects (ot_use ino (view_read (ev_store (fv_env V)) (ev_ext (fv_env V)) n))) count [])
            (\<lambda>buffer.
          bindR (on_handles (modify (ht_set fh (HFile (st\<lparr>fh_position := add64 (as_u64 offset) (length buffer)\<rparr>))))) (\<lambda>_.
          try_result (if \<not> fl_contains (fv_flags V) (fh_flags st) (o_noatime (fv_flags V))
            then on_frepo (touch_accessed (fv_env V) (fv_paths V) (fv_codec V) entry_path req 0) else ret ()) (\<lambda>_.
          reply buffer))))) a))"

text \<open>The object a write goes to: without a seek if the offset is where the handle was left.\<close>

definition write_target ::
  "('s, 'z, 'q, 'b, 'l, 'w) fuse_env \<Rightarrow> u64 \<Rightarrow> 'q \<Rightarrow> nat \<Rightarrow> nat \<Rightarrow> (('s, 'z, 'b, 'w) adapter, unit) op" where
  "write_target V ino entry_path offset pos =
    (if offset = pos then open_object V ino entry_path
     else bindR (open_committed V ino entry_path) (\<lambda>_.
       bindR (object_size ino) (\<lambda>n.
       bindR (if n < offset then on_objects (ot_use ino (view_set_len (ev_store (fv_env V)) (ev_ext (fv_env V)) offset))
              else ret ()) (\<lambda>_.
       bindR (on_objects (ot_use ino (view_seek (FromStart offset)))) (\<lambda>_.
       ret ())))))"

text \<open>An error after bytes have been written closes the object.\<close>

definition or_close :: "u64 \<Rightarrow> (('s, 'z, 'b, 'w) adapter, unit) op \<Rightarrow> (('s, 'z, 'b, 'w) adapter, unit) op" where
  "or_close ino m a = (case m a of
      (Err e, a') \<Rightarrow> bindR (on_objects (ot_close ino)) (\<lambda>_. throw e) a'
    | (x, a') \<Rightarrow> (x, a'))"

text \<open>
  \<^verbatim>\<open>Write::write_all\<close> of the standard library: it calls \<^verbatim>\<open>write\<close> with the rest of the buffer until that is empty, fails if
  nothing was written, and tries again when it was interrupted.
\<close>

partial_function (option) write_all_loop :: "(bytes \<Rightarrow> ('a, nat) op) \<Rightarrow> bytes \<Rightarrow> 'a \<Rightarrow> (unit result \<times> 'a) option" where
  "write_all_loop wr buf a = (if buf = [] then Some (Ok (), a) else (case wr buf a of
      (Ok n, a') \<Rightarrow>
        if n = 0 then Some (Err (Io (IoError WriteZero NoPayload)), a')
        else if length buf < n then Some (Panic ''slice index starts past the end'', a')
        else write_all_loop wr (drop n buf) a'
    | (Err e, a') \<Rightarrow>
        (case e of Io (IoError Interrupted _) \<Rightarrow> write_all_loop wr buf a' | _ \<Rightarrow> Some (Err e, a'))
    | (Panic p, a') \<Rightarrow> Some (Panic p, a')
    | (Diverge, a') \<Rightarrow> Some (Diverge, a')))"

definition view_write_all ::
  "'s data_store_ops \<Rightarrow> ext \<Rightarrow> 'c chunker_ops \<Rightarrow> bytes \<Rightarrow> ((repo_key, 's, 'c) view, unit) op" where
  "view_write_all D X C buf v = option_result (write_all_loop (view_write D X C) buf v) v"

text \<open>The rest of a write, once the bytes are in the object: the position of the handle, the times, and the synchronization.\<close>

definition finish_write ::
  "('s, 'z, 'q, 'b, 'l, 'w) fuse_env \<Rightarrow> request \<Rightarrow> u64 \<Rightarrow> u64 \<Rightarrow> int \<Rightarrow> bytes \<Rightarrow> 'q \<Rightarrow> file_handle \<Rightarrow>
     (('s, 'z, 'b, 'w) adapter, nat reply) op" where
  "finish_write V req ino fh offset data entry_path st =
     bindR (on_handles (modify (ht_set fh (HFile (st\<lparr>fh_position := add64 (as_u64 offset) (length data)\<rparr>))))) (\<lambda>_.
     try_result (or_close ino (fs_touch_modified V req 0 entry_path)) (\<lambda>_.
     try_result (if fl_intersects (fv_flags V) (fh_flags st) (o_sync (fv_flags V) OR o_dsync (fv_flags V))
       then bindR (or_close ino (on_objects (ot_commit (fv_env V) ino))) (\<lambda>_.
         or_close ino (on_frepo (file_commit (fv_env V) (fv_map V) (fv_state V))))
       else ret ()) (\<lambda>_.
     reply (as_u32 (length data)))))"

definition fs_write ::
  "('s, 'z, 'q, 'b, 'l, 'w) fuse_env \<Rightarrow> request \<Rightarrow> u64 \<Rightarrow> u64 \<Rightarrow> int \<Rightarrow> bytes \<Rightarrow> (('s, 'z, 'b, 'w) adapter, nat reply) op" where
  "fs_write V req ino fh offset data a = (case path_of V a ino of
      None \<Rightarrow> bindR (on_handles (modify (ht_close fh))) (\<lambda>_. reply_error EBADF) a
    | Some entry_path \<Rightarrow> (case ht_get (fa_handles a) fh of
        None \<Rightarrow> reply_error EBADR a
      | Some (HDirectory _) \<Rightarrow> reply_error EISDIR a
      | Some (HFile st) \<Rightarrow>
          try_result (write_target V ino entry_path (as_u64 offset) (fh_position st)) (\<lambda>_.
          try_result (on_objects (ot_use ino
            (view_write_all (ev_store (fv_env V)) (ev_ext (fv_env V)) (dyn_ops (ev_zpaq (fv_env V))) data))) (\<lambda>_.
          finish_write V req ino fh offset data entry_path st)) a))"

definition fs_flush :: "('s, 'z, 'q, 'b, 'l, 'w) fuse_env \<Rightarrow> u64 \<Rightarrow> (('s, 'z, 'b, 'w) adapter, unit reply) op" where
  "fs_flush V ino = try_result (on_objects (ot_commit (fv_env V) ino)) reply"

definition fs_release :: "u64 \<Rightarrow> u64 \<Rightarrow> (('s, 'z, 'b, 'w) adapter, unit reply) op" where
  "fs_release ino fh =
     bindR (on_handles (modify (ht_close fh))) (\<lambda>_.
     bindR (on_objects (ot_close ino)) (\<lambda>_. reply ()))"

definition fs_fsync :: "('s, 'z, 'q, 'b, 'l, 'w) fuse_env \<Rightarrow> u64 \<Rightarrow> (('s, 'z, 'b, 'w) adapter, unit reply) op" where
  "fs_fsync V ino =
     try_result (on_objects (ot_commit (fv_env V) ino)) (\<lambda>_.
     try_result (on_frepo (file_commit (fv_env V) (fv_map V) (fv_state V))) reply)"

section \<open>Directories\<close>

fun dir_entries ::
  "('s, 'z, 'q, 'b, 'l, 'w) fuse_env \<Rightarrow> 'q list \<Rightarrow> (('s, 'z, 'b, 'w) adapter, directory_entry list) op" where
  "dir_entries V [] a = (Ok [], a)"
| "dir_entries V (child_path # rest) a =
     bindR (unwrap_option (fv_file_name V child_path)) (\<lambda>file_name a.
     bindR (unwrap_option (inode_of V a child_path)) (\<lambda>inode.
     bindR (fs_entry V child_path) (\<lambda>entry.
     bindR (dir_entries V rest) (\<lambda>es.
     ret (\<lparr>de_name = file_name, de_type = to_file_type (file_type entry), de_inode = inode\<rparr> # es)))) a) a"

definition fs_opendir :: "('s, 'z, 'q, 'b, 'l, 'w) fuse_env \<Rightarrow> u64 \<Rightarrow> (('s, 'z, 'b, 'w) adapter, u64 reply) op" where
  "fs_opendir V ino a =
     try_option (path_of V a ino) ENOENT (\<lambda>entry_path a.
     if \<not> is_directory (fv_paths V) (fa_repo a) entry_path then reply_error ENOTDIR a
     else try_result (on_frepo (file_list (fv_paths V) entry_path)) (\<lambda>children.
       try_result (dir_entries V children) (\<lambda>es.
       bindR (on_handles (ht_open (HDirectory es))) reply)) a) a"

text \<open>The loop of \<^verbatim>\<open>readdir\<close>: the offset of an entry is its index in the rest of the list, plus one.\<close>

fun add_entries ::
  "(dir_reply list \<Rightarrow> dir_reply \<Rightarrow> bool) \<Rightarrow> nat \<Rightarrow> directory_entry list \<Rightarrow> dir_reply list \<Rightarrow> dir_reply list" where
  "add_entries full i [] added = added"
| "add_entries full i (e # es) added =
    (let x = (de_inode e, as_i64 (i + 1), de_type e, de_name e) in
     if full added x then added else add_entries full (Suc i) es (added @ [x]))"

definition fs_readdir ::
  "('s, 'z, 'q, 'b, 'l, 'w) fuse_env \<Rightarrow> request \<Rightarrow> u64 \<Rightarrow> u64 \<Rightarrow> int \<Rightarrow> (('s, 'z, 'b, 'w) adapter, dir_reply list reply) op" where
  "fs_readdir V req ino fh offset a =
     try_option (path_of V a ino) ENOENT (\<lambda>directory_path.
     try_result (transaction V
        (on_frepo (touch_accessed (fv_env V) (fv_paths V) (fv_codec V) directory_path req 0))) (\<lambda>_ a.
     case ht_get (fa_handles a) fh of
        None \<Rightarrow> reply_error EBADF a
      | Some (HFile _) \<Rightarrow> reply_error ENOTDIR a
      | Some (HDirectory es) \<Rightarrow>
          bindR (lift_result (slice_of (as_u64 offset) (length es) es)) (\<lambda>rest.
          reply (add_entries (fv_reply_full V) 0 rest [])) a)) a"

definition fs_releasedir :: "u64 \<Rightarrow> (('s, 'z, 'b, 'w) adapter, unit reply) op" where
  "fs_releasedir fh = bindR (on_handles (modify (ht_close fh))) reply"

definition fs_fsyncdir :: "('s, 'z, 'q, 'b, 'l, 'w) fuse_env \<Rightarrow> (('s, 'z, 'b, 'w) adapter, unit reply) op" where
  "fs_fsyncdir V = try_result (on_frepo (file_commit (fv_env V) (fv_map V) (fv_state V))) reply"

section \<open>Extended attributes\<close>

definition XATTR_CREATE :: u32 where
  "XATTR_CREATE = 1"

definition XATTR_REPLACE :: u32 where
  "XATTR_REPLACE = 2"

definition put_attribute :: "u32 \<Rightarrow> string \<Rightarrow> bytes \<Rightarrow> (string, bytes) hmap \<Rightarrow> errno + (string, bytes) hmap" where
  "put_attribute flags attr_name v m =
    (if flags = 0 then Inr (hput attr_name v m)
     else if flags = XATTR_CREATE then (if hcontains m attr_name then Inl EEXIST else Inr (hput attr_name v m))
     else if flags = XATTR_REPLACE then (if hcontains m attr_name then Inr (hput attr_name v m) else Inl ENODATA)
     else Inl EINVAL)"

definition sync_acl ::
  "('s, 'z, 'q, 'b, 'l, 'w) fuse_env \<Rightarrow> string \<Rightarrow> bytes \<Rightarrow> unix_metadata \<Rightarrow> (('s, 'z, 'b, 'w) adapter, unix_metadata) op" where
  "sync_acl V attr_name v md =
    (if attr_name = ACCESS_ACL_XATTR then
       bindR (on_world (update_attr (fv_flags V) (fv_os V) attr_name v (permissions_from md))) (\<lambda>pm.
       ret (md\<lparr>um_mode := pm_mode pm, um_acl := (um_acl md)\<lparr>acl_access := acl_access (pm_acl pm)\<rparr>\<rparr>))
     else if attr_name = DEFAULT_ACL_XATTR then
       bindR (on_world (update_attr (fv_flags V) (fv_os V) attr_name v (permissions_from md))) (\<lambda>pm.
       ret (md\<lparr>um_mode := pm_mode pm, um_acl := (um_acl md)\<lparr>acl_default := acl_default (pm_acl pm)\<rparr>\<rparr>))
     else ret md)"

definition store_metadata ::
  "('s, 'z, 'q, 'b, 'l, 'w) fuse_env \<Rightarrow> 'q \<Rightarrow> unix_metadata \<Rightarrow> (('s, 'z, 'b, 'w) adapter, unit reply) op" where
  "store_metadata V entry_path md =
     try_result (transaction V (on_frepo (set_metadata (fv_env V) (fv_paths V) (fv_codec V) entry_path (Some md)))) reply"

definition fs_setxattr ::
  "('s, 'z, 'q, 'b, 'l, 'w) fuse_env \<Rightarrow> request \<Rightarrow> u64 \<Rightarrow> bytes \<Rightarrow> bytes \<Rightarrow> u32 \<Rightarrow> (('s, 'z, 'b, 'w) adapter, unit reply) op" where
  "fs_setxattr V req ino nm v flags a =
     try_option (fv_to_str V nm) EINVAL (\<lambda>attr_name.
     try_option (path_of V a ino) ENOENT (\<lambda>entry_path.
     try_result (fs_entry V entry_path) (\<lambda>entry.
     let md = metadata_or_default req 0 entry in
     case put_attribute flags attr_name v (um_attributes md) of
        Inl e \<Rightarrow> reply_error e
      | Inr m \<Rightarrow> try_result (sync_acl V attr_name v (md\<lparr>um_attributes := m\<rparr>)) (\<lambda>md'.
          store_metadata V entry_path (md'\<lparr>um_changed := req_clock req 1\<rparr>))))) a"

datatype xattr_reply = XattrSize nat | XattrData bytes

text \<open>The end of \<^verbatim>\<open>getxattr\<close> and \<^verbatim>\<open>listxattr\<close>: the size alone, or the data if it fits.\<close>

definition reply_xattr :: "bytes \<Rightarrow> nat \<Rightarrow> ('a, xattr_reply reply) op" where
  "reply_xattr v n =
    (if n = 0 then reply (XattrSize (as_u32 (length v)))
     else if n < length v then reply_error ERANGE
     else reply (XattrData v))"

definition fs_getxattr ::
  "('s, 'z, 'q, 'b, 'l, 'w) fuse_env \<Rightarrow> request \<Rightarrow> u64 \<Rightarrow> bytes \<Rightarrow> nat \<Rightarrow> (('s, 'z, 'b, 'w) adapter, xattr_reply reply) op" where
  "fs_getxattr V req ino nm n a =
     try_option (fv_to_str V nm) ENODATA (\<lambda>attr_name.
     try_option (path_of V a ino) ENOENT (\<lambda>entry_path.
     try_result (fs_entry V entry_path) (\<lambda>entry.
     let md = metadata_or_default req 0 entry in
     if attr_name = ACCESS_ACL_XATTR \<and> acl_access (um_acl md) = [] then reply_error ENODATA
     else if attr_name = DEFAULT_ACL_XATTR \<and> acl_default (um_acl md) = [] then reply_error ENODATA
     else if attr_name = ACCESS_ACL_XATTR \<or> attr_name = DEFAULT_ACL_XATTR then
       try_result (on_world (to_attr (fv_flags V) (fv_os V) attr_name (permissions_from md))) (\<lambda>v. reply_xattr v n)
     else try_option (hget (um_attributes md) attr_name) ENODATA (\<lambda>v. reply_xattr v n)))) a"

definition fs_listxattr ::
  "('s, 'z, 'q, 'b, 'l, 'w) fuse_env \<Rightarrow> request \<Rightarrow> u64 \<Rightarrow> nat \<Rightarrow> (('s, 'z, 'b, 'w) adapter, xattr_reply reply) op" where
  "fs_listxattr V req ino n a =
     try_option (path_of V a ino) ENOENT (\<lambda>entry_path.
     try_result (fs_entry V entry_path) (\<lambda>entry.
     let attr_names = concat (map (\<lambda>attr_name. fv_as_bytes V attr_name @ [0]) (hkeys (um_attributes (metadata_or_default req 0 entry)))) in
     reply_xattr attr_names n)) a"

definition fs_removexattr ::
  "('s, 'z, 'q, 'b, 'l, 'w) fuse_env \<Rightarrow> request \<Rightarrow> u64 \<Rightarrow> bytes \<Rightarrow> (('s, 'z, 'b, 'w) adapter, unit reply) op" where
  "fs_removexattr V req ino nm a =
     try_option (fv_to_str V nm) ENODATA (\<lambda>attr_name.
     try_option (path_of V a ino) ENOENT (\<lambda>entry_path.
     try_result (fs_entry V entry_path) (\<lambda>entry.
     let md = metadata_or_default req 0 entry;
         md1 = md\<lparr>um_attributes := hdel attr_name (um_attributes md)\<rparr>;
         md2 = (if attr_name = ACCESS_ACL_XATTR then md1\<lparr>um_acl := (um_acl md1)\<lparr>acl_access := []\<rparr>\<rparr>
           else if attr_name = DEFAULT_ACL_XATTR then md1\<lparr>um_acl := (um_acl md1)\<lparr>acl_default := []\<rparr>\<rparr>
           else md1) in
     store_metadata V entry_path (md2\<lparr>um_changed := req_clock req 1\<rparr>)))) a"

end
