(* ===== verification/File_Archive.thy ===== *)
theory File_Archive
  imports File_Repo Fuse_Fs
begin

text \<open>
  Moving entries between a file repository and the file system of the machine (\<^verbatim>\<open>archive\<close>, \<^verbatim>\<open>archive_tree\<close>,
  \<^verbatim>\<open>extract\<close>, \<^verbatim>\<open>extract_tree\<close> and \<^verbatim>\<open>mount\<close> of \<^verbatim>\<open>src/src/repo/file/repository.rs\<close>).  The traits \<^verbatim>\<open>SpecialType\<close> and
  \<^verbatim>\<open>FileMetadata\<close> are records of their operations; the instances of the crate are those of \<^verbatim>\<open>Unix_Metadata\<close>.
\<close>

section \<open>Traits and local files\<close>

record ('p, 'm, 'l, 'w) file_traits =
  tr_special_from_file :: "'l \<Rightarrow> ('w, 'p option) op"
  tr_create_file :: "'p \<Rightarrow> 'l \<Rightarrow> ('w, unit) op"
  tr_from_file :: "'l \<Rightarrow> ('w, 'm) op"
  tr_write_metadata :: "'m \<Rightarrow> 'l \<Rightarrow> ('w, unit) op"

definition unix_traits :: "flag_ops \<Rightarrow> ('l, 'w) os \<Rightarrow> ('l unix_special, unix_metadata, 'l, 'w) file_traits" where
  "unix_traits F W = \<lparr>tr_special_from_file = special_from_file F W, tr_create_file = special_create_file F W,
     tr_from_file = unix_from_file F W, tr_write_metadata = unix_write_metadata F W\<rparr>"

definition plain_traits :: "(unit, unit, 'l, 'w) file_traits" where
  "plain_traits = \<lparr>tr_special_from_file = no_special_from_file, tr_create_file = no_special_create_file,
     tr_from_file = no_from_file, tr_write_metadata = no_write_metadata\<rparr>"

text \<open>
  Open files of the machine, the paths of a directory tree as \<^verbatim>\<open>WalkDir\<close> yields them, and the conversions between
  local and relative paths.
\<close>

record ('l, 'h, 'q, 'w) local_files =
  lf_open :: "'l \<Rightarrow> ('w, 'h) io_op"
  lf_read :: "'h \<Rightarrow> nat \<Rightarrow> ('w, bytes) io_op"
  lf_create_new :: "'l \<Rightarrow> ('w, 'h) io_op"
  lf_write_all :: "'h \<Rightarrow> bytes \<Rightarrow> ('w, unit) io_op"
  lf_walk :: "'l \<Rightarrow> 'w \<Rightarrow> (io_error + 'l) list"
  lf_strip_prefix :: "'l \<Rightarrow> 'l \<Rightarrow> 'l option"
  lf_from_path :: "'l \<Rightarrow> 'q option"
  lf_to_path :: "'q \<Rightarrow> 'l \<Rightarrow> 'l"

text \<open>\<^verbatim>\<open>std::io::copy\<close>: buffers of 8 KiB are read and written until a read returns nothing.\<close>

definition COPY_BUFFER :: nat where
  "COPY_BUFFER = 8192"

partial_function (option) copy_loop ::
  "(nat \<Rightarrow> ('a, bytes) op) \<Rightarrow> (bytes \<Rightarrow> ('a, unit) op) \<Rightarrow> 'a \<Rightarrow> (unit result \<times> 'a) option" where
  "copy_loop rd wr a = (case rd COPY_BUFFER a of
      (Ok b, a') \<Rightarrow>
        if b = [] then Some (Ok (), a')
        else (case wr b a' of
            (Ok _, a'') \<Rightarrow> copy_loop rd wr a''
          | (Err e, a'') \<Rightarrow> Some (Err e, a'')
          | (Panic p, a'') \<Rightarrow> Some (Panic p, a'')
          | (Diverge, a'') \<Rightarrow> Some (Diverge, a''))
    | (Err e, a') \<Rightarrow>
        (case e of Io (IoError Interrupted _) \<Rightarrow> copy_loop rd wr a' | _ \<Rightarrow> Some (Err e, a'))
    | (Panic p, a') \<Rightarrow> Some (Panic p, a')
    | (Diverge, a') \<Rightarrow> Some (Diverge, a'))"

definition io_copy :: "(nat \<Rightarrow> ('a, bytes) op) \<Rightarrow> (bytes \<Rightarrow> ('a, unit) op) \<Rightarrow> ('a, unit) op" where
  "io_copy rd wr a = (case copy_loop rd wr a of None \<Rightarrow> (Diverge, a) | Some x \<Rightarrow> x)"

definition on_first :: "('a, 'x) op \<Rightarrow> ('a \<times> 'w, 'x) op" where
  "on_first m s = (case m (fst s) of (x, a) \<Rightarrow> (x, (a, snd s)))"

definition on_second :: "('w, 'x) op \<Rightarrow> ('a \<times> 'w, 'x) op" where
  "on_second m s = (case m (snd s) of (x, w) \<Rightarrow> (x, (fst s, w)))"

text \<open>An operation on an \<^verbatim>\<open>Object\<close> of the repository beside the machine, which is dropped afterwards.\<close>

definition use_beside ::
  "'z chunker object \<Rightarrow> ((repo_key, 's, 'z chunker) view \<times> 'w, 'a) op \<Rightarrow> ('s file_repo \<times> 'w, 'a) op" where
  "use_beside ob m s = (case m ((sr_repo (fst s), ob), snd s) of
     (x, (v, w)) \<Rightarrow> (x, ((fst s)\<lparr>sr_repo := object_drop v\<rparr>, w)))"

section \<open>Archiving\<close>

definition local_type ::
  "('p, 'm, 'l, 'w) file_traits \<Rightarrow> lstat \<Rightarrow> 'l \<Rightarrow> ('w, 'p file_type) op" where
  "local_type R st source =
    (if st_is_file st then ret TFile
     else if st_is_dir st then ret TDirectory
     else bindR (tr_special_from_file R source) (\<lambda>x. case x of
        Some special \<Rightarrow> ret (TSpecial special)
      | None \<Rightarrow> throw FileTypeError))"

definition archive_contents ::
  "('s, 'z) env \<Rightarrow> ('l, 'h, 'q, 'w) local_files \<Rightarrow> 'l \<Rightarrow> object_key \<Rightarrow> ('s file_repo \<times> 'w, unit) op" where
  "archive_contents E L source oid s =
     bindR (unwrap_option (state_object (ev_zpaq E) oid (fst s))) (\<lambda>ob. use_beside ob
       (bindR (on_second (io_call (lf_open L source))) (\<lambda>file.
        bindR (io_copy (\<lambda>n. on_second (io_call (lf_read L file n)))
          (\<lambda>b. on_first (view_write_all (ev_store E) (ev_ext E) (dyn_ops (ev_zpaq E)) b))) (\<lambda>_.
        on_first (view_commit (ev_store E) (ev_ext E) (dyn_ops (ev_zpaq E))))))) s"

definition archive ::
  "('s, 'z) env \<Rightarrow> 'q path_ops \<Rightarrow> ('p, 'm) entry_codec \<Rightarrow> ('p, 'm, 'l, 'w) file_traits \<Rightarrow> ('l, 'w) os \<Rightarrow>
     ('l, 'h, 'q, 'w) local_files \<Rightarrow> 'l \<Rightarrow> 'q \<Rightarrow> ('s file_repo \<times> 'w, unit) op" where
  "archive E P K R W L source dest s =
    (if p_eq P dest (EMPTY_PATH P) then (Err InvalidPath, s)
     else if file_exists P (fst s) dest then (Err AlreadyExists, s)
     else bindR (on_second (io_call (os_metadata W source))) (\<lambda>file_metadata.
       bindR (on_second (local_type R file_metadata source)) (\<lambda>ty.
       bindR (on_second (tr_from_file R source)) (\<lambda>md.
       bindR (on_first (file_create E P K dest \<lparr>file_type = ty, entry_metadata = Some md\<rparr>)) (\<lambda>_ s.
       bindR (unwrap_option (tree_get P dest (sr_state (fst s)))) (\<lambda>h.
         case eh_type h of EFile oid \<Rightarrow> archive_contents E L source oid | _ \<Rightarrow> ret ()) s)))) s)"

fun archive_paths ::
  "('s, 'z) env \<Rightarrow> 'q path_ops \<Rightarrow> ('p, 'm) entry_codec \<Rightarrow> ('p, 'm, 'l, 'w) file_traits \<Rightarrow> ('l, 'w) os \<Rightarrow>
     ('l, 'h, 'q, 'w) local_files \<Rightarrow> 'l \<Rightarrow> 'q \<Rightarrow> (io_error + 'l) list \<Rightarrow> ('s file_repo \<times> 'w, unit) op" where
  "archive_paths E P K R W L source dest [] s = (Ok (), s)"
| "archive_paths E P K R W L source dest (x # xs) s =
     bindR (lift_result (io_result x)) (\<lambda>path.
     bindR (unwrap_option (lf_strip_prefix L path source)) (\<lambda>rel s.
     (case lf_from_path L rel of
        None \<Rightarrow> (Panic ''Not a valid relative path.'', s)
      | Some relative_path \<Rightarrow> (case archive E P K R W L path (p_join P dest relative_path) s of
            (Ok _, s') \<Rightarrow> archive_paths E P K R W L source dest xs s'
          | (Err FileTypeError, s') \<Rightarrow> archive_paths E P K R W L source dest xs s'
          | (y, s') \<Rightarrow> (y, s'))))) s"

definition archive_tree ::
  "('s, 'z) env \<Rightarrow> 'q path_ops \<Rightarrow> ('p, 'm) entry_codec \<Rightarrow> ('p, 'm, 'l, 'w) file_traits \<Rightarrow> ('l, 'w) os \<Rightarrow>
     ('l, 'h, 'q, 'w) local_files \<Rightarrow> 'l \<Rightarrow> 'q \<Rightarrow> ('s file_repo \<times> 'w, unit) op" where
  "archive_tree E P K R W L source dest s = archive_paths E P K R W L source dest (lf_walk L source (snd s)) s"

section \<open>Extracting\<close>

definition extract_contents ::
  "('s, 'z) env \<Rightarrow> 'q path_ops \<Rightarrow> ('l, 'h, 'q, 'w) local_files \<Rightarrow> 'q \<Rightarrow> 'l \<Rightarrow> ('s file_repo \<times> 'w, unit) op" where
  "extract_contents E P L source dest =
     bindR (on_first (unwrap_result (file_open (ev_zpaq E) P source))) (\<lambda>ob. use_beside ob
       (bindR (on_second (io_call (lf_create_new L dest))) (\<lambda>file.
        io_copy (\<lambda>n. on_first (view_read (ev_store E) (ev_ext E) n)) (\<lambda>b. on_second (io_call (lf_write_all L file b))))))"

definition extract_entry ::
  "('s, 'z) env \<Rightarrow> 'q path_ops \<Rightarrow> ('p, 'm) entry_codec \<Rightarrow> ('p, 'm, 'l, 'w) file_traits \<Rightarrow> ('l, 'w) os \<Rightarrow>
     ('l, 'h, 'q, 'w) local_files \<Rightarrow> 'q \<Rightarrow> 'l \<Rightarrow> ('s file_repo \<times> 'w, unit) op" where
  "extract_entry E P K R W L source dest s =
    (if p_eq P source (EMPTY_PATH P) then (Err InvalidPath, s)
     else if os_exists W dest (snd s) then (Err AlreadyExists, s)
     else bindR (on_first (file_entry E P K source)) (\<lambda>entry.
       bindR (case os_parent W dest of
           Some par \<Rightarrow> on_second (io_call (os_create_dir_all W par))
         | None \<Rightarrow> ret ()) (\<lambda>_.
       bindR (case file_type entry of
           TFile \<Rightarrow> extract_contents E P L source dest
         | TDirectory \<Rightarrow> on_second (io_call (os_create_dir W dest))
         | TSpecial special \<Rightarrow> on_second (tr_create_file R special dest)) (\<lambda>_.
       case entry_metadata entry of
           Some md \<Rightarrow> on_second (tr_write_metadata R md dest)
         | None \<Rightarrow> ret ()))) s)"

definition extract_tree ::
  "('s, 'z) env \<Rightarrow> 'q path_ops \<Rightarrow> ('p, 'm) entry_codec \<Rightarrow> ('p, 'm, 'l, 'w) file_traits \<Rightarrow> ('l, 'w) os \<Rightarrow>
     ('l, 'h, 'q, 'w) local_files \<Rightarrow> 'q \<Rightarrow> 'l \<Rightarrow> ('s file_repo \<times> 'w, unit) op" where
  "extract_tree E P K R W L source dest s = (case tree_walk P source (sr_state (fst s)) of
      None \<Rightarrow> (Err NotFound, s)
    | Some xs \<Rightarrow>
        bindR (extract_entry E P K R W L source dest) (\<lambda>_.
        forM xs (\<lambda>(path, _).
          bindR (unwrap_option (p_strip_prefix P path source)) (\<lambda>descendant.
          extract_entry E P K R W L (p_join P source descendant) (lf_to_path L descendant dest)))) s)"

section \<open>Mounting\<close>

definition DEFAULT_FUSE_MOUNT_OPTS :: "string list" where
  "DEFAULT_FUSE_MOUNT_OPTS = [''-o'', ''default_permissions'']"

text \<open>The session loop of the crate \<^verbatim>\<open>fuse\<close> is a parameter: it runs the adapter until it is unmounted.\<close>

definition mount ::
  "('s, 'z, 'q, 'b, 'l, 'w) fuse_env \<Rightarrow>
     (('s, 'z, 'b, 'w) adapter \<Rightarrow> 'l \<Rightarrow> string list \<Rightarrow> (io_error + unit) \<times> ('s, 'z, 'b, 'w) adapter) \<Rightarrow>
     'l \<Rightarrow> 'q \<Rightarrow> string list \<Rightarrow> ('s file_repo \<times> 'w, unit) op" where
  "mount V fuse_mount mountpoint root options s = (case fuse_new V (fst s) (snd s) root of
      Ok a \<Rightarrow> (case fuse_mount a mountpoint (DEFAULT_FUSE_MOUNT_OPTS @ options) of
          (x, a') \<Rightarrow> (io_result x, (fa_repo a', fa_world a')))
    | Err e \<Rightarrow> (Err e, s)
    | Panic p \<Rightarrow> (Panic p, s)
    | Diverge \<Rightarrow> (Diverge, s))"

end
