(* ===== verification/Metadata_Correct.thy ===== *)
theory Metadata_Correct
  imports Fuse_Metadata
begin

unbundle bit_operations_syntax

text \<open>
  What holds of metadata: the operations on access control lists are total and keep them well-formed, new entries
  get the requested permissions restricted to the default list of the parent, times survive the conversions except
  for one second, and entries of access control lists survive theirs.
\<close>

section \<open>Access control lists\<close>

lemma on_access_ok:
  "m (acl_access (um_acl u)) = (x, a) \<Longrightarrow> on_access m u = (x, u\<lparr>um_acl := (um_acl u)\<lparr>acl_access := a\<rparr>\<rparr>)"
  by (simp add: on_access_def)

lemma on_default_ok:
  "m (acl_default (um_acl u)) = (x, a) \<Longrightarrow> on_default m u = (x, u\<lparr>um_acl := (um_acl u)\<lparr>acl_default := a\<rparr>\<rparr>)"
  by (simp add: on_default_def)

lemma update_acl_ok:
  assumes "flag_laws F" "um_wf u"
  shows "\<exists>u'. update_acl F kind u = (Ok (), u') \<and> um_wf u' \<and> um_mode u' = um_mode u \<and> u' = u\<lparr>um_acl := um_acl u'\<rparr> \<and>
    hget (acl_access (um_acl u')) = (if fl_contains F kind ACL_ACCESS then mandatory (um_mode u) (hget (acl_access (um_acl u)))
      else hget (acl_access (um_acl u))) \<and>
    hget (acl_default (um_acl u')) = (if fl_contains F kind ACL_DEFAULT then mandatory (um_mode u) (hget (acl_default (um_acl u)))
      else hget (acl_default (um_acl u)))"
proof -
  obtain a d where a: "mandatory_entries F (um_mode u) (acl_access (um_acl u)) = (Ok (), a)"
      "hget a = mandatory (um_mode u) (hget (acl_access (um_acl u)))" "acl_wf a"
    and d: "mandatory_entries F (um_mode u) (acl_default (um_acl u)) = (Ok (), d)"
      "hget d = mandatory (um_mode u) (hget (acl_default (um_acl u)))" "acl_wf d"
    using mandatory_entries_ok [OF assms(1)] assms(2) unfolding um_wf_def by metis
  show ?thesis using a d assms(2)
    by (cases "fl_contains F kind ACL_ACCESS"; cases "fl_contains F kind ACL_DEFAULT")
      (simp_all add: update_acl_def bindR_def on_access_def on_default_def um_wf_def)
qed

text \<open>The mask of a list has exactly the permissions of the named users and groups and of the owning group.\<close>

definition named :: "access_qualifier \<Rightarrow> bool" where
  "named q \<longleftrightarrow> (case q of QUser i \<Rightarrow> True | QGroup i \<Rightarrow> True | _ \<Rightarrow> False)"

definition group_mask :: "u32 \<Rightarrow> (access_qualifier \<Rightarrow> u32 option) \<Rightarrow> u32 \<Rightarrow> bool" where
  "group_mask mode m x \<longleftrightarrow> (\<forall>n. bit x n \<longleftrightarrow> (\<exists>q y. named q \<and> m q = Some y \<and> bit y n) \<or>
     bit (case m GroupObj of Some y \<Rightarrow> y | None \<Rightarrow> group_perm mode) n)"

lemma bit_foldl_or: "bit (foldl (\<lambda>a x. a OR x) (a :: u32) xs) n \<longleftrightarrow> bit a n \<or> (\<exists>x \<in> set xs. bit x n)"
  by (induction xs arbitrary: a) (auto simp: bit_simps)

lemma calculate_mask_exact:
  assumes "flag_laws F" "acl_wf m"
  shows "\<exists>x. calculate_mask F m mode = ret x \<and> perm_bits x \<and> group_mask mode (hget m) x"
proof -
  let ?named = "map snd (filter (\<lambda>(q, x). case q of QUser i \<Rightarrow> True | QGroup i \<Rightarrow> True | _ \<Rightarrow> False) m)"
  let ?x = "foldl (\<lambda>a x. a OR x) 0 ?named OR (case hget m GroupObj of Some perm \<Rightarrow> perm | None \<Rightarrow> group_perm mode)"
  have "perm_bits ?x"
    using assms(2) by (intro perm_bits_combine foldl_perm_bits) (force simp: acl_wf_def hwf_def split: option.splits)+
  then have "calculate_mask F m mode = (ret ?x :: ('a, u32) op)"
    using from_bits_perm(1) [OF assms(1), of ?x] by (simp add: calculate_mask_def Let_def unwrap_option_def)
  moreover have "group_mask mode (hget m) ?x"
    using assms(2) by (auto simp: group_mask_def bit_or_iff bit_foldl_or named_def acl_wf_def hwf_def split: access_qualifier.splits)
  ultimately show ?thesis using \<open>perm_bits ?x\<close> by blast
qed

lemma update_mask_ok:
  assumes "flag_laws F" "um_wf u"
  shows "\<exists>u' x y. update_mask F kind u = (Ok (), u') \<and> um_wf u' \<and> u' = u\<lparr>um_acl := um_acl u'\<rparr> \<and>
    group_mask (um_mode u) (hget (acl_access (um_acl u))) x \<and> group_mask (um_mode u) (hget (acl_default (um_acl u))) y \<and>
    hget (acl_access (um_acl u')) = (if fl_contains F kind ACL_ACCESS then (hget (acl_access (um_acl u)))(QMask \<mapsto> x)
      else hget (acl_access (um_acl u))) \<and>
    hget (acl_default (um_acl u')) = (if fl_contains F kind ACL_DEFAULT then (hget (acl_default (um_acl u)))(QMask \<mapsto> y)
      else hget (acl_default (um_acl u)))"
proof -
  obtain a d :: u32 where
    a: "(calculate_mask F (acl_access (um_acl u)) (um_mode u) :: (acl_map, u32) op) = ret a" "perm_bits a"
      "group_mask (um_mode u) (hget (acl_access (um_acl u))) a" and
    d: "(calculate_mask F (acl_default (um_acl u)) (um_mode u) :: (acl_map, u32) op) = ret d" "perm_bits d"
      "group_mask (um_mode u) (hget (acl_default (um_acl u))) d"
    using calculate_mask_exact [OF assms(1)] assms(2) unfolding um_wf_def by metis
  show ?thesis using a d assms(2)
    by (intro exI [of _ "snd (update_mask F kind u)"] exI [of _ a] exI [of _ d];
      cases "fl_contains F kind ACL_ACCESS"; cases "fl_contains F kind ACL_DEFAULT")
      (simp_all add: update_mask_def Let_def bindR_def on_access_def on_default_def um_wf_def fun_eq_iff)
qed

text \<open>What changing the mode does to the access list: a mask stands for the group.\<close>

definition with_mode :: "u32 \<Rightarrow> (access_qualifier \<Rightarrow> u32 option) \<Rightarrow> access_qualifier \<Rightarrow> u32 option" where
  "with_mode mode m q = (case q of
      UserObj \<Rightarrow> Some (user_perm mode)
    | QOther \<Rightarrow> Some (other_perm mode)
    | QMask \<Rightarrow> if m QMask \<noteq> None then Some (group_perm mode) else None
    | GroupObj \<Rightarrow> if m QMask \<noteq> None \<and> m GroupObj \<noteq> None then m GroupObj else Some (group_perm mode)
    | _ \<Rightarrow> m q)"

lemma change_permissions_ok:
  assumes "flag_laws F" "um_wf u"
  shows "\<exists>u'. change_permissions F mode u = (Ok (), u') \<and> um_wf u' \<and> u' = u\<lparr>um_mode := mode, um_acl := um_acl u'\<rparr> \<and>
    hget (acl_access (um_acl u')) = with_mode mode (hget (acl_access (um_acl u))) \<and>
    hget (acl_default (um_acl u')) = hget (acl_default (um_acl u))"
proof -
  let ?m = "let m' = hdel QOther (hdel UserObj (acl_access (um_acl u))) in
    if \<not> hcontains m' QMask then hdel GroupObj m' else m'"
  let ?u = "u\<lparr>um_mode := mode, um_acl := (um_acl u)\<lparr>acl_access := ?m\<rparr>\<rparr>"
  have start: "bindR (modify (\<lambda>u. u\<lparr>um_mode := mode\<rparr>)) (\<lambda>_.
     on_access (modify (\<lambda>m. let m' = hdel QOther (hdel UserObj m) in
       if \<not> hcontains m' QMask then hdel GroupObj m' else m'))) u = (Ok (), ?u)"
    by (simp add: bindR_def on_access_def)
  have wf: "um_wf ?u" using assms(2) by (simp add: um_wf_def Let_def)
  have kinds: "fl_contains F ACL_ACCESS ACL_ACCESS" "\<not> fl_contains F ACL_ACCESS ACL_DEFAULT"
    using assms(1) by (simp_all add: flag_laws_def ACL_ACCESS_def ACL_DEFAULT_def)
  obtain v where v: "update_acl F ACL_ACCESS ?u = (Ok (), v)" "um_wf v" "v = u\<lparr>um_mode := mode, um_acl := um_acl v\<rparr>"
    "hget (acl_access (um_acl v)) = mandatory mode (hget ?m)" "hget (acl_default (um_acl v)) = hget (acl_default (um_acl u))"
    using update_acl_ok [OF assms(1) wf, of ACL_ACCESS] kinds by auto
  have run: "change_permissions F mode u = on_access (\<lambda>m. if hcontains m QMask
       then bindR (unwrap_option (am_from_bits F (group_perm mode))) (\<lambda>group_mode. modify (hput QMask group_mode)) m
       else (Ok (), m)) v"
    using start v(1) by (simp add: change_permissions_def bindR_def split: prod.splits result.splits)
  have mask: "hcontains (acl_access (um_acl v)) QMask \<longleftrightarrow> hget (acl_access (um_acl u)) QMask \<noteq> None"
    by (simp add: hcontains_def v(4) mandatory_def Let_def split: option.splits)
  have group: "am_from_bits F (group_perm mode) = Some (group_perm mode)" using from_bits_perm(1) [OF assms(1)] by simp
  have old: "hget ?m q = (if q = UserObj \<or> q = QOther \<or> (q = GroupObj \<and> hget (acl_access (um_acl u)) QMask = None) then None
      else hget (acl_access (um_acl u)) q)" for q
    by (simp add: Let_def hcontains_def)
  show ?thesis
  proof (cases "hget (acl_access (um_acl u)) QMask = None")
    case True
    then have "mandatory mode (hget ?m) = with_mode mode (hget (acl_access (um_acl u)))"
      by (auto simp: fun_eq_iff mandatory_def with_mode_def old split: access_qualifier.splits option.splits)
    with True mask v run show ?thesis by (simp add: on_access_def)
  next
    case False
    then have "(mandatory mode (hget ?m))(QMask \<mapsto> group_perm mode) = with_mode mode (hget (acl_access (um_acl u)))"
      by (auto simp: fun_eq_iff mandatory_def with_mode_def old split: access_qualifier.splits option.splits)
    moreover have "v\<lparr>um_acl := b\<rparr> = u\<lparr>um_mode := mode, um_acl := b\<rparr>" for b by (subst v(3)) simp
    ultimately show ?thesis using False mask v(2,4,5) run group by (simp add: on_access_def bindR_def unwrap_option_def um_wf_def)
  qed
qed

section \<open>The permissions of new entries\<close>

text \<open>The entry of a default list that limits the group: the mask, or else the owning group.\<close>

definition group_limit :: "acl_map \<Rightarrow> u32 option" where
  "group_limit m = (case hget m QMask of Some x \<Rightarrow> Some x | None \<Rightarrow> hget m GroupObj)"

text \<open>The permissions \<open>perm\<close> restricted to an entry, if there is one.\<close>

definition restricted :: "u32 option \<Rightarrow> u32 \<Rightarrow> u32" where
  "restricted limit perm = (case limit of Some x \<Rightarrow> x AND perm | None \<Rightarrow> perm)"

lemma constrain_entry_ok:
  assumes "flag_laws F" "acl_wf m"
  shows "\<exists>m'. constrain_entry F q perm m = (Ok (), m') \<and> acl_wf m' \<and>
    hget m' = (hget m)(q := map_option (\<lambda>x. x AND perm) (hget m q))"
proof (cases "hget m q")
  case (Some x)
  then have "am_from_bits F (x AND perm) = Some (x AND perm)"
    using from_bits_perm(1) [OF assms(1)] acl_wfD [OF assms(2) Some] by simp
  then show ?thesis using Some assms(2) acl_wfD [OF assms(2) Some]
    by (simp add: constrain_entry_def unwrap_option_def bindR_def)
qed (use assms in \<open>simp add: constrain_entry_def fun_upd_idem\<close>)

text \<open>
  A list restricted to a mode: the owner, the others, and the mask, which stands for the group if there is one, lose the
  permissions that the mode does not have; the other entries are kept, and none is added.
\<close>

definition constrained :: "u32 \<Rightarrow> (access_qualifier \<Rightarrow> u32 option) \<Rightarrow> access_qualifier \<Rightarrow> u32 option" where
  "constrained mode m q = (case q of
      UserObj \<Rightarrow> map_option (\<lambda>x. x AND user_perm mode) (m UserObj)
    | QOther \<Rightarrow> map_option (\<lambda>x. x AND other_perm mode) (m QOther)
    | QMask \<Rightarrow> map_option (\<lambda>x. x AND group_perm mode) (m QMask)
    | GroupObj \<Rightarrow> if m QMask = None then map_option (\<lambda>x. x AND group_perm mode) (m GroupObj) else m GroupObj
    | _ \<Rightarrow> m q)"

lemma constrain_acl_ok:
  assumes "flag_laws F" "acl_wf m"
  shows "\<exists>m'. constrain_acl F mode m = (Ok (), m') \<and> acl_wf m' \<and> hget m' = constrained mode (hget m)"
proof -
  obtain m1 where 1: "constrain_entry F UserObj (user_perm mode) m = (Ok (), m1)" "acl_wf m1"
    "hget m1 = (hget m)(UserObj := map_option (\<lambda>x. x AND user_perm mode) (hget m UserObj))"
    using constrain_entry_ok [OF assms] by blast
  let ?q = "if hcontains m1 QMask then QMask else GroupObj"
  obtain m2 where 2: "constrain_entry F ?q (group_perm mode) m1 = (Ok (), m2)" "acl_wf m2"
    "hget m2 = (hget m1)(?q := map_option (\<lambda>x. x AND group_perm mode) (hget m1 ?q))"
    using constrain_entry_ok [OF assms(1) 1(2)] by blast
  obtain m3 where 3: "constrain_entry F QOther (other_perm mode) m2 = (Ok (), m3)" "acl_wf m3"
    "hget m3 = (hget m2)(QOther := map_option (\<lambda>x. x AND other_perm mode) (hget m2 QOther))"
    using constrain_entry_ok [OF assms(1) 2(2)] by blast
  have "constrain_acl F mode m = (Ok (), m3)" using 1(1) 2(1) 3(1) by (simp add: constrain_acl_def bindR_def)
  moreover have "hget m3 q = constrained mode (hget m) q" for q
    by (cases "hget m QMask"; cases q) (simp_all add: constrained_def 3(3) 2(3) 1(3) hcontains_def)
  ultimately show ?thesis using 3(2) by blast
qed

lemma constrained_limits:
  assumes "hget a = constrained mode (hget m)"
  shows "hget a UserObj = map_option (\<lambda>x. x AND user_perm mode) (hget m UserObj)"
    "group_limit a = map_option (\<lambda>x. x AND group_perm mode) (group_limit m)"
    "hget a QOther = map_option (\<lambda>x. x AND other_perm mode) (hget m QOther)"
  by (simp_all add: assms constrained_def group_limit_def split: option.split)

lemma perms_of_parts:
  assumes "perm_bits u" "perm_bits g" "perm_bits oth"
  shows "user_perm ((push_bit 6 u OR push_bit 3 g OR oth) AND mode) = u AND user_perm mode"
    and "group_perm ((push_bit 6 u OR push_bit 3 g OR oth) AND mode) = g AND group_perm mode"
    and "other_perm ((push_bit 6 u OR push_bit 3 g OR oth) AND mode) = oth AND other_perm mode"
    and "((push_bit 6 u OR push_bit 3 g OR oth) AND mode) AND NOT (mode AND 0x1FF) = 0"
proof -
  have b: "bit u n \<Longrightarrow> n < 3" "bit g n \<Longrightarrow> n < 3" "bit oth n \<Longrightarrow> n < 3" for n using assms by (auto simp: perm_bits_iff)
  show "user_perm ((push_bit 6 u OR push_bit 3 g OR oth) AND mode) = u AND user_perm mode"
    "group_perm ((push_bit 6 u OR push_bit 3 g OR oth) AND mode) = g AND group_perm mode"
    "other_perm ((push_bit 6 u OR push_bit 3 g OR oth) AND mode) = oth AND other_perm mode"
    "((push_bit 6 u OR push_bit 3 g OR oth) AND mode) AND NOT (mode AND 0x1FF) = 0"
    unfolding user_perm_def group_perm_def other_perm_def perm_masks
    by (rule bit_word_eqI, (auto simp: bit_simps dest: b) [1])+
qed

section \<open>Times\<close>

lemma div_bounds:
  fixes t :: int
  assumes "0 \<le> t" "t \<le> 2 ^ 63 * NANOS"
  shows "0 \<le> t div NANOS" "t div NANOS \<le> 2 ^ 63" "t < 2 ^ 63 * NANOS \<Longrightarrow> t div NANOS < 2 ^ 63"
  using assms by auto

lemma wrap_twice: "0 \<le> k \<Longrightarrow> k \<le> 2 ^ 63 \<Longrightarrow> int (as_u64 (wrap_i64 \<bar>wrap_i64 (- wrap_i64 k)\<bar>)) = k"
  by (cases "k = 2 ^ 63") (auto simp: as_u64_def wrap_i64_def)

lemma to_system_time_run:
  assumes "int (as_u64 (wrap_i64 \<bar>ts_sec ts\<bar>)) = k" "\<bar>ts_nsec ts\<bar> < NANOS" "k \<le> 2 ^ 63"
  shows "to_system_time ts s = (if 0 < ts_sec ts then time_add 0 (k * NANOS + \<bar>ts_nsec ts\<bar>)
    else time_sub 0 (k * NANOS + \<bar>ts_nsec ts\<bar>)) s"
  using assms by (simp add: to_system_time_def duration_new_def bindR_def)

section \<open>Decimal numbers\<close>

lemma parse_decimal_append:
  "parse_decimal acc (xs @ ys) = (case parse_decimal acc xs of Some a \<Rightarrow> parse_decimal a ys | None \<Rightarrow> None)"
  by (induction acc xs rule: parse_decimal.induct) (auto simp: Let_def)

lemma of_char_digit: "d < 10 \<Longrightarrow> of_char (char_of (48 + d :: nat)) = 48 + d"
  by (simp add: of_char_of)

lemma parse_decimal_roundtrip: "n < 2 ^ 32 \<Longrightarrow> parse_decimal 0 (decimal n) = Some n"
proof (induction n rule: decimal.induct)
  case (1 n)
  show ?case
  proof (cases "n < 10")
    case True
    then show ?thesis by (subst decimal.simps) (simp add: of_char_digit)
  next
    case False
    have "n div 10 < 2 ^ 32" using 1(2) by auto
    with 1(1) [OF False] have "parse_decimal 0 (decimal (n div 10)) = Some (n div 10)" by blast
    moreover have "10 * (n div 10) + n mod 10 = n" by simp
    ultimately show ?thesis using False 1(2)
      by (subst decimal.simps) (simp add: parse_decimal_append of_char_digit del: of_char_of)
  qed
qed

lemma decimal_head: "\<exists>d cs. decimal n = char_of (48 + d :: nat) # cs \<and> d < 10"
proof (induction n rule: decimal.induct)
  case (1 n)
  show ?case
  proof (cases "n < 10")
    case True
    then show ?thesis by (subst decimal.simps) (auto intro!: exI [of _ n])
  next
    case False
    with 1 obtain d cs where "decimal (n div 10) = char_of (48 + d :: nat) # cs" "d < 10" by blast
    then show ?thesis using False by (subst decimal.simps) (auto intro!: exI [of _ d])
  qed
qed

lemma parse_u32_roundtrip: "parse_u32 (u32_to_string n) = Some n" and u32_to_string_nonempty: "u32_to_string n \<noteq> []"
proof -
  obtain d cs where d: "decimal (unat n) = char_of (48 + d :: nat) # cs" "d < 10" using decimal_head by blast
  have "unat n < 2 ^ 32" using unsigned_less [of n] by simp
  then have p: "parse_decimal 0 (decimal (unat n)) = Some (unat n)" by (rule parse_decimal_roundtrip)
  have "char_of (48 + d :: nat) \<noteq> CHR ''+''"
  proof
    assume "char_of (48 + d :: nat) = CHR ''+''"
    from arg_cong [OF this, of "of_char :: char \<Rightarrow> nat"] of_char_digit [OF d(2)] show False by simp
  qed
  then show "parse_u32 (u32_to_string n) = Some n" using p d(1) by (simp add: parse_u32_def u32_to_string_def)
  show "u32_to_string n \<noteq> []" using d(1) by (simp add: u32_to_string_def)
qed

section \<open>The contract of metadata\<close>

text \<open>
  C29: Every operation on the lists of access rights returns, and keeps every permission within read, write and
  execute: no unwrapped conversion panics.  On the lists of the given kind, and on no other, \<^verbatim>\<open>update_acl\<close> adds the
  owner, the group and the others from the mode where they are missing and keeps every entry there is, and
  \<^verbatim>\<open>update_mask\<close> sets the mask, and nothing else, to exactly the permissions that a named user, a named group or the
  owning group has (the latter from the mode, if it has no entry).  Changing the mode sets the mode and, in the access list,
  the owner, the others and, if there is a mask, the mask and else the group to those of the mode; the default list is kept.
  No other field of the metadata changes.
\<close>

theorem acl_operations_typed:
  assumes "flag_laws F" and "um_wf u"
  shows "(\<exists>v. update_acl F kind u = (Ok (), v) \<and> um_wf v \<and> v = u\<lparr>um_acl := um_acl v\<rparr> \<and>
      hget (acl_access (um_acl v)) = (if fl_contains F kind ACL_ACCESS then mandatory (um_mode u) (hget (acl_access (um_acl u)))
        else hget (acl_access (um_acl u))) \<and>
      hget (acl_default (um_acl v)) = (if fl_contains F kind ACL_DEFAULT then mandatory (um_mode u) (hget (acl_default (um_acl u)))
        else hget (acl_default (um_acl u)))) \<and>
    (\<exists>v x y. update_mask F kind u = (Ok (), v) \<and> um_wf v \<and> v = u\<lparr>um_acl := um_acl v\<rparr> \<and>
      group_mask (um_mode u) (hget (acl_access (um_acl u))) x \<and> group_mask (um_mode u) (hget (acl_default (um_acl u))) y \<and>
      hget (acl_access (um_acl v)) = (if fl_contains F kind ACL_ACCESS then (hget (acl_access (um_acl u)))(QMask \<mapsto> x)
        else hget (acl_access (um_acl u))) \<and>
      hget (acl_default (um_acl v)) = (if fl_contains F kind ACL_DEFAULT then (hget (acl_default (um_acl u)))(QMask \<mapsto> y)
        else hget (acl_default (um_acl u)))) \<and>
    (\<exists>v. change_permissions F mode u = (Ok (), v) \<and> um_wf v \<and> v = u\<lparr>um_mode := mode, um_acl := um_acl v\<rparr> \<and>
      hget (acl_access (um_acl v)) = with_mode mode (hget (acl_access (um_acl u))) \<and>
      hget (acl_default (um_acl v)) = hget (acl_default (um_acl u)))"
  using update_acl_ok [OF assms, of kind] update_mask_ok [OF assms, of kind] change_permissions_ok [OF assms, of mode]
  by blast

definition ref_metadata :: unix_metadata where
  "ref_metadata = \<lparr>um_mode = 0x1ED, um_modified = 5, um_accessed = 6, um_changed = 7, um_user = 1000, um_group = 100,
     um_attributes = [], um_acl = \<lparr>acl_access = [(QUser 7, 6), (QMask, 6)], acl_default = [(GroupObj, 5)]\<rparr>\<rparr>"

lemma ref_metadata_wf: "um_wf ref_metadata"
  by (auto simp: um_wf_def acl_wf_def hwf_def ref_metadata_def perm_bits_def split: if_splits)

theorem acl_operations_typed_witness:
  "\<exists>v. change_permissions ref_flags 0x180 ref_metadata = (Ok (), v) \<and>
     hget (acl_access (um_acl v)) = with_mode 0x180 (hget (acl_access (um_acl ref_metadata)))"
  using acl_operations_typed [OF ref_flags_laws ref_metadata_wf, of 1 "0x180"] by blast

text \<open>
  C30: A new entry with a requested mode, whose parent has metadata, gets the default list of the parent as its access
  list, restricted to the mode: the owner, the others and the mask (the group, if there is no mask) lose the permissions
  that were not requested, named users and groups are kept, and no entry is added.  Its mode has the requested permissions
  restricted to that list in turn: it never has a bit that was not requested, and of the requested bits only the nine
  permission bits, so the set-user-ID, set-group-ID and sticky bits are dropped.  A directory gets the default list
  itself as its default list.
\<close>

theorem new_entry_permissions:
  assumes "flag_laws F" and "entry_metadata e = Some md" and "entry_metadata par = Some pm"
    and "acl_wf (acl_default (um_acl pm))"
  shows "\<exists>e' md'. with_permissions F par (Some mode) e s = (Ok e', s) \<and> file_type e' = file_type e \<and>
    entry_metadata e' = Some md' \<and> md' = md\<lparr>um_mode := um_mode md', um_acl := um_acl md'\<rparr> \<and> acl_wf (acl_access (um_acl md')) \<and>
    hget (acl_access (um_acl md')) = constrained mode (hget (acl_default (um_acl pm))) \<and>
    acl_default (um_acl md') = (if entry_is_directory e then acl_default (um_acl pm) else acl_default (um_acl md)) \<and>
    um_mode md' AND NOT (mode AND 0x1FF) = 0 \<and>
    user_perm (um_mode md') = restricted (hget (acl_default (um_acl pm)) UserObj) (user_perm mode) \<and>
    group_perm (um_mode md') = restricted (group_limit (acl_default (um_acl pm))) (group_perm mode) \<and>
    other_perm (um_mode md') = restricted (hget (acl_default (um_acl pm)) QOther) (other_perm mode)"
proof -
  let ?m = "acl_default (um_acl pm)"
  obtain a where a: "constrain_acl F mode ?m = (Ok (), a)" "acl_wf a" "hget a = constrained mode (hget ?m)"
    using constrain_acl_ok [OF assms(1,4)] by blast
  note lim = constrained_limits [OF a(3)]
  have all: "perm_read F OR perm_write F OR perm_execute F = 7" using assms(1) by (simp add: flag_laws_def)
  define part where "part = (\<lambda>x :: u32 option. case x of Some y \<Rightarrow> y | None \<Rightarrow> 7)"
  have seven: "perm_bits 7" by (simp add: perm_bits_def)
  have parts: "perm_bits (part (hget a UserObj))" "perm_bits (part (group_limit a))" "perm_bits (part (hget a QOther))"
    using acl_wfD [OF a(2)] seven by (auto simp: part_def group_limit_def split: option.splits)
  have mode: "constrain_mode F a mode =
      (push_bit 6 (part (hget a UserObj)) OR push_bit 3 (part (group_limit a)) OR part (hget a QOther)) AND mode"
    by (simp add: constrain_mode_def Let_def all part_def group_limit_def split: option.splits)
  have cut: "part (map_option (\<lambda>x. x AND p) l) AND p = restricted l p" if "perm_bits p" for p l
    using that perm_bits_seven [OF that] by (cases l) (simp_all add: part_def restricted_def and.assoc)
  have perms: "user_perm (constrain_mode F a mode) = restricted (hget ?m UserObj) (user_perm mode)"
    "group_perm (constrain_mode F a mode) = restricted (group_limit ?m) (group_perm mode)"
    "other_perm (constrain_mode F a mode) = restricted (hget ?m QOther) (other_perm mode)"
    "constrain_mode F a mode AND NOT (mode AND 0x1FF) = 0"
    using perms_of_parts [OF parts, of mode] unfolding mode lim by (simp_all add: cut)
  show ?thesis using assms(2,3) a perms by (simp add: with_permissions_def Let_def)
qed

theorem new_entry_permissions_witness:
  "\<exists>e' md'. with_permissions ref_flags \<lparr>file_type = TDirectory, entry_metadata = Some ref_metadata\<rparr> (Some 0xFFF)
      \<lparr>file_type = TFile :: nat unix_special file_type, entry_metadata = Some ref_metadata\<rparr> () = (Ok e', ()) \<and>
    entry_metadata e' = Some md' \<and> um_mode md' AND NOT (0xFFF AND 0x1FF) = 0 \<and> group_perm (um_mode md') = 5"
proof -
  have "acl_wf (acl_default (um_acl ref_metadata))" using ref_metadata_wf by (simp add: um_wf_def)
  from new_entry_permissions [where mode = "0xFFF", OF ref_flags_laws _ _ this,
      of "\<lparr>file_type = TFile :: nat unix_special file_type, entry_metadata = Some ref_metadata\<rparr>" ref_metadata
         "\<lparr>file_type = TDirectory, entry_metadata = Some ref_metadata\<rparr>" "()"]
  show ?thesis by (auto simp: restricted_def group_limit_def ref_metadata_def group_perm_def)
qed

text \<open>
  C32: A time that is sent to the kernel and comes back is the same time, unless it is in the first second after the epoch:
  such a time comes back as far before the epoch as it was after it.
\<close>

theorem timespec_roundtrip:
  assumes "time_ok t"
  shows "to_system_time (to_timespec t) s = (Ok (if 0 < t \<and> t < NANOS then - t else t), s)"
proof (cases "0 \<le> t")
  case True
  have t: "t < 2 ^ 63 * NANOS" using assms by (simp add: time_ok_def)
  have k: "0 \<le> t div NANOS" "t div NANOS < 2 ^ 63" using div_bounds [OF True] t by auto
  have "int (as_u64 (wrap_i64 \<bar>ts_sec (to_timespec t)\<bar>)) = t div NANOS"
    using True k by (simp add: to_timespec_def wrap_i64_exact as_u64_exact)
  from to_system_time_run [OF this] k True show ?thesis
    using assms by (auto simp: to_timespec_def time_add_def time_sub_def wrap_i64_exact time_ok_def
        div_int_pos_iff pos_imp_zdiv_pos_iff)
next
  case False
  have t: "0 \<le> - t" "- t \<le> 2 ^ 63 * NANOS" using assms False by (simp_all add: time_ok_def)
  note k = div_bounds(1,2) [OF t]
  have "int (as_u64 (wrap_i64 \<bar>ts_sec (to_timespec t)\<bar>)) = (- t) div NANOS"
    using False wrap_twice [OF k] by (simp add: to_timespec_def)
  moreover have "\<not> 0 < ts_sec (to_timespec t)"
    using False k by (cases "(- t) div NANOS = 2 ^ 63") (auto simp: to_timespec_def wrap_i64_def)
  ultimately show ?thesis using to_system_time_run [of "to_timespec t" "(- t) div NANOS" s] False k(2) assms
    by (simp add: to_timespec_def time_sub_def)
qed

theorem timespec_roundtrip_witness:
  "to_system_time (to_timespec 500000000) () = (Ok (- 500000000), ())"
  using timespec_roundtrip [of 500000000 "()"] by (simp add: time_ok_def)

text \<open>
  The time stamp of a file is converted exactly from the epoch on, and the conversion panics for every earlier
  time: the seconds are cast to an unsigned number and subtracted.
\<close>

theorem unix_file_time_epoch:
  assumes "- (2 ^ 63) < secs" and "secs < 2 ^ 63" and "0 \<le> nsec" and "nsec < NANOS"
  shows "unix_file_time secs nsec s =
    (if 0 \<le> secs then Ok (secs * NANOS + nsec) else Panic ''overflow when subtracting duration from instant'', s)"
proof (cases "0 \<le> secs")
  case True
  then show ?thesis using assms
    by (simp add: unix_file_time_def bindR_def time_add_def time_sub_def time_ok_def as_u64_exact)
next
  case False
  have "secs mod 2 ^ 64 = (secs + 2 ^ 64) mod 2 ^ 64" by simp
  also have "\<dots> = secs + 2 ^ 64" using assms(1) False by (intro mod_pos_pos_trivial) simp_all
  finally have "int (as_u64 secs) = secs + 2 ^ 64" using assms(1) by (simp add: as_u64_def)
  then show ?thesis using assms False by (simp add: unix_file_time_def bindR_def time_sub_def time_ok_def)
qed

theorem unix_file_time_epoch_witness:
  "unix_file_time (- 1) 0 () = (Panic ''overflow when subtracting duration from instant'', ())"
  using unix_file_time_epoch [of "- 1" 0 "()"] by simp

text \<open>
  An entry of an access control list that is written is read back with its qualifier and permissions.
\<close>

theorem qualifier_roundtrip:
  assumes "flag_laws F" and "perm_bits mode"
  shows "\<exists>e. qualifier_to_entry F q mode flags s = (Ok e, s) \<and> entry_to_qualifier U e = Some q \<and>
    ae_perms e = mode \<and> ae_default e = flags"
  using from_bits_perm(2) [OF assms]
  by (cases q) (simp_all add: qualifier_to_entry_def entry_to_qualifier_def bindR_def unwrap_option_def
      parse_u32_roundtrip u32_to_string_nonempty)

theorem qualifier_roundtrip_witness:
  "\<exists>e. qualifier_to_entry ref_flags (QUser 1000) 6 False () = (Ok e, ()) \<and>
     entry_to_qualifier \<lparr>get_user_by_name = \<lambda>_. None, get_group_by_name = \<lambda>_. None\<rparr> e = Some (QUser 1000)"
  using qualifier_roundtrip [OF ref_flags_laws, of 6 "QUser 1000" False "()"] by (auto simp: perm_bits_def)

text \<open>The number of an error of the operating system is lost when the error becomes one of the crate.\<close>

lemma errno_lost: "to_errno (error_of_io (IoError kind (OsPayload n))) = errno_of_kind kind"
  by simp

end
