(* ===== verification/Fuse_Correct.thy ===== *)
theory Fuse_Correct
  imports Fuse_Fs Metadata_Correct File_Data
begin

unbundle bit_operations_syntax

text \<open>
  What holds of the requests of the file system: reading a file returns its bytes and leaves the file as it was, writing puts
  the data in a definite place (\<open>write_start\<close>, \<open>write_base\<close>), and where creating nodes, writing and listing directories deviate
  from what the kernel asked for.
\<close>

section \<open>Open objects\<close>

text \<open>The object that is open for an inode, as the context its operations work on.\<close>

definition object_at :: "('s, 'z, 'b, 'w) adapter \<Rightarrow> u64 \<Rightarrow> ('s, 'z chunker) octx option" where
  "object_at a ino = (case hget (fa_objects a) ino of
      None \<Rightarrow> None
    | Some ob \<Rightarrow> map_option (\<lambda>h. \<lparr>o_repo = rstate (sr_repo (fa_repo a)), o_state = object_state ob, o_handle = h\<rparr>)
        (hget (heap (sr_repo (fa_repo a))) (obj_handle ob)))"

lemma object_at_handles: "object_at (a\<lparr>fa_handles := t\<rparr>) ino = object_at a ino"
  by (simp add: object_at_def split: option.splits)

text \<open>What an operation on an object leaves alone.\<close>

definition same_tables :: "('s, 'z, 'b, 'w) adapter \<Rightarrow> ('s, 'z, 'b, 'w) adapter \<Rightarrow> bool" where
  "same_tables a a' \<longleftrightarrow> fa_inodes a' = fa_inodes a \<and> fa_handles a' = fa_handles a \<and> fa_world a' = fa_world a \<and>
     sr_state (fa_repo a') = sr_state (fa_repo a) \<and> sr_ids (fa_repo a') = sr_ids (fa_repo a)"

lemma same_tables_refl [simp]: "same_tables a a"
  by (simp add: same_tables_def)

lemma same_tables_trans: "same_tables a b \<Longrightarrow> same_tables b c \<Longrightarrow> same_tables a c"
  by (simp add: same_tables_def)

lemma use_view_at:
  assumes "object_at a ino = Some x" "m x = (r, y)" "\<And>v v'. on_object m v = (r, v') \<Longrightarrow> M v = (r', v')"
  shows "\<exists>a'. on_objects (ot_use ino M) a = (r', a') \<and> object_at a' ino = Some y \<and> same_tables a a'"
proof -
  obtain ob h where ob: "hget (fa_objects a) ino = Some ob" "hget (heap (sr_repo (fa_repo a))) (obj_handle ob) = Some h"
    "x = \<lparr>o_repo = rstate (sr_repo (fa_repo a)), o_state = object_state ob, o_handle = h\<rparr>"
    using assms(1) by (auto simp: object_at_def split: option.splits)
  obtain v where v: "on_object m (sr_repo (fa_repo a), ob) = (r, v)" using ob assms(2) by (simp add: on_object_def)
  with ob assms(2) assms(3) [OF v] show ?thesis
    by (auto simp: on_objects_def ot_use_def bindR_def unwrap_option_def on_object_def object_at_def same_tables_def)
qed

lemma use_object_at:
  assumes "object_at a ino = Some x" "m x = (r, y)"
  shows "\<exists>a'. on_objects (ot_use ino (on_object m)) a = (r, a') \<and> object_at a' ino = Some y \<and> same_tables a a'"
  using use_view_at [of a ino x m r y "on_object m" r] assms by blast

text \<open>
  The table of open objects has at most one object for an inode.  It is idle for the file at a path if it is the object of
  the file's contents and has no uncommitted writes, and its read buffer holds the data of the chunk it is for.
\<close>

definition open_idle ::
  "('s \<Rightarrow> uuid \<rightharpoonup> bytes) \<Rightarrow> ext \<Rightarrow> ('z chunker \<Rightarrow> bool) \<Rightarrow> ('z chunker \<Rightarrow> nat) \<Rightarrow> ('s, 'z, 'b, 'w) adapter \<Rightarrow> u64 \<Rightarrow> string list \<Rightarrow> bool" where
  "open_idle bl X cinv cpend a ino q \<longleftrightarrow> (\<forall>ob. hget (fa_objects a) ino = Some ob \<longrightarrow>
     (\<exists>key. file_slot (tree_map (sr_state (fa_repo a))) (DataAt q) = Some key \<and>
       hget (objects (sr_repo (fa_repo a))) (KObject (ok_object key)) = Some (obj_handle ob)) \<and>
     buffer_ok (chunk_data bl X (rstate (sr_repo (fa_repo a)))) (object_state ob) \<and> transaction_lock (object_state ob) = None \<and>
     new_chunks (object_state ob) = [] \<and> ic_ok cinv cpend (chunker (object_state ob)) \<and> ic_is_empty (chunker (object_state ob)))"

text \<open>The position of the open object, and of the one that is opened if there is none.\<close>

definition fa_position :: "('s, 'z, 'b, 'w) adapter \<Rightarrow> u64 \<Rightarrow> nat" where
  "fa_position a ino = (case hget (fa_objects a) ino of None \<Rightarrow> 0 | Some ob \<Rightarrow> position (object_state ob))"

text \<open>What reading does to the adapter: blocks are read, and the object of the inode stays the same.\<close>

definition only_reads :: "('s \<Rightarrow> uuid \<rightharpoonup> bytes) \<Rightarrow> u64 \<Rightarrow> ('s, 'z, 'b, 'w) adapter \<Rightarrow> ('s, 'z, 'b, 'w) adapter \<Rightarrow> bool" where
  "only_reads bl ino a a' \<longleftrightarrow> same_tables a a' \<and>
     map_option obj_handle (hget (fa_objects a') ino) = map_option obj_handle (hget (fa_objects a) ino) \<and>
     (\<exists>s. store_eq bl (rstate (sr_repo (fa_repo a))) s \<and> fa_repo a' = (fa_repo a)\<lparr>sr_repo := (sr_repo (fa_repo a))\<lparr>rstate := s\<rparr>\<rparr>)"

lemma only_reads_refl [simp]: "only_reads bl ino a a"
  unfolding only_reads_def by (auto intro!: exI [of _ "rstate (sr_repo (fa_repo a))"])

lemma only_reads_trans: "only_reads bl ino a b \<Longrightarrow> only_reads bl ino b c \<Longrightarrow> only_reads bl ino a c"
proof -
  assume ab: "only_reads bl ino a b" and bc: "only_reads bl ino b c"
  obtain s t where "store_eq bl (rstate (sr_repo (fa_repo a))) s" "fa_repo b = (fa_repo a)\<lparr>sr_repo := (sr_repo (fa_repo a))\<lparr>rstate := s\<rparr>\<rparr>"
    "store_eq bl (rstate (sr_repo (fa_repo b))) t" "fa_repo c = (fa_repo b)\<lparr>sr_repo := (sr_repo (fa_repo b))\<lparr>rstate := t\<rparr>\<rparr>"
    using ab bc unfolding only_reads_def by blast
  then have "store_eq bl (rstate (sr_repo (fa_repo a))) t" "fa_repo c = (fa_repo a)\<lparr>sr_repo := (sr_repo (fa_repo a))\<lparr>rstate := t\<rparr>\<rparr>"
    by (auto intro: store_eq_trans)
  then show ?thesis using ab bc same_tables_trans unfolding only_reads_def by metis
qed

lemma use_object_reads:
  assumes "object_at a ino = Some x" "m x = (r, y)" "same_object bl x y"
  shows "\<exists>a'. on_objects (ot_use ino (on_object m)) a = (r, a') \<and> object_at a' ino = Some y \<and> only_reads bl ino a a'"
proof -
  obtain ob h where ob: "hget (fa_objects a) ino = Some ob" "hget (heap (sr_repo (fa_repo a))) (obj_handle ob) = Some h"
    "x = \<lparr>o_repo = rstate (sr_repo (fa_repo a)), o_state = object_state ob, o_handle = h\<rparr>"
    using assms(1) by (auto simp: object_at_def split: option.splits)
  obtain a' where a': "on_objects (ot_use ino (on_object m)) a = (r, a')" "object_at a' ino = Some y" "same_tables a a'"
    using use_object_at [of a ino x m r y] assms(1,2) by blast
  moreover have "o_handle y = h" "store_eq bl (rstate (sr_repo (fa_repo a))) (o_repo y)"
    using assms(3) ob(3) by (simp_all add: same_object_def)
  ultimately have "only_reads bl ino a a'" using ob assms(2)
    by (auto simp: only_reads_def on_objects_def ot_use_def bindR_def unwrap_option_def on_object_def hput_same
      intro!: exI [of _ "o_repo y"])
  with a' show ?thesis by blast
qed

lemma only_reads_file:
  assumes "file_inv bl X S N good (fa_repo a)" "only_reads bl ino a a'"
  shows "file_inv bl X S N good (fa_repo a')" "file_map bl X (fa_repo a') = file_map bl X (fa_repo a)"
    "rng (rstate (sr_repo (fa_repo a'))) = rng (rstate (sr_repo (fa_repo a)))"
proof -
  let ?r = "fa_repo a"
  obtain s where s: "store_eq bl (rstate (sr_repo ?r)) s" "fa_repo a' = ?r\<lparr>sr_repo := (sr_repo ?r)\<lparr>rstate := s\<rparr>\<rparr>"
    using assms(2) by (auto simp: only_reads_def)
  note I = state_invD [OF file_invD(1) [OF assms(1)]] and R = repo_store_eq [OF state_invD(1) [OF file_invD(1) [OF assms(1)]] s(1)]
  have r: "fa_repo a' = ?r\<lparr>sr_ids := sr_ids ?r, sr_repo := (sr_repo ?r)\<lparr>rstate := s\<rparr>\<rparr>" by (simp add: s(2))
  have m: "state_inv bl X S N good (fa_repo a')" "state_map bl X (fa_repo a') = state_map bl X ?r"
    unfolding r using state_inv_change [OF file_invD(1) [OF assms(1)] R(1,2) I(4,5) _ I(6)]
    by (simp_all add: R(3) state_map_def [abs_def])
  have "check_key (fa_repo a') = check_key ?r" using repo_step_new_id [of bl ?r "fa_repo a'"] R(2) s(2) by simp
  then show "file_inv bl X S N good (fa_repo a')"
    using assms(1) m s(2) by (simp add: file_inv_def index_ok_def)
  show "file_map bl X (fa_repo a') = file_map bl X ?r" using m(2) s(2) by (simp add: file_map_def [abs_def])
  show "rng (rstate (sr_repo (fa_repo a'))) = rng (rstate (sr_repo ?r))" using s by (simp add: store_eq_fields)
qed

lemma only_reads_idle:
  assumes "open_idle bl X cinv cpend a ino q" "only_reads bl ino a a'" "object_at a' ino = Some x" "obj_ok bl X S N x" "idle cinv cpend x"
  shows "open_idle bl X cinv cpend a' ino q"
proof -
  obtain s where s: "fa_repo a' = (fa_repo a)\<lparr>sr_repo := (sr_repo (fa_repo a))\<lparr>rstate := s\<rparr>\<rparr>"
    using assms(2) by (auto simp: only_reads_def)
  obtain ob' h where ob': "hget (fa_objects a') ino = Some ob'" "o_state x = object_state ob'" "o_repo x = rstate (sr_repo (fa_repo a'))"
    using assms(3) by (auto simp: object_at_def split: option.splits)
  then obtain ob where "hget (fa_objects a) ino = Some ob" "obj_handle ob = obj_handle ob'"
    using assms(2) by (cases "hget (fa_objects a) ino") (auto simp: only_reads_def)
  with assms(1,4,5) ob' s show ?thesis
    by (auto simp: open_idle_def obj_ok_def idle_def obj_view_def)
qed

section \<open>Reading\<close>

text \<open>The bytes of an entry with the time of an access, as \<^verbatim>\<open>touch_accessed\<close> stores them.\<close>

definition accessed_entry :: "('s, 'z, 'q, 'b, 'l, 'w) fuse_env \<Rightarrow> request \<Rightarrow> bytes \<Rightarrow> bytes option" where
  "accessed_entry V req ent = (case fst (run_decoder slice_read (from_entry (fv_codec V)) ent) of
      Ok e \<Rightarrow> to_vec_entry (fv_codec V) (e\<lparr>entry_metadata :=
        Some ((metadata_or_default req 0 e)\<lparr>um_accessed := req_clock req 1, um_changed := req_clock req 1\<rparr>)\<rparr>)
    | _ \<Rightarrow> None)"

context repo_env
begin

lemma read_loop_ok:
  fixes a :: "('s, 'z, 'b, 'w) adapter"
  assumes "object_at a ino = Some x" "obj_ok blocks X S N x" "\<not> in_transaction x"
  shows "\<exists>a' x'. read_loop (\<lambda>n. on_objects (ot_use ino (view_read D X n))) n buf a =
      (Ok (buf @ take n (drop (position (o_state x)) (obj_content blocks X x))), a') \<and>
    object_at a' ino = Some x' \<and> same_object blocks x x' \<and> obj_ok blocks X S N x' \<and> only_reads blocks ino a a'"
  using assms
proof (induction n arbitrary: a x buf rule: less_induct)
  case (less n)
  let ?rest = "\<lambda>x. drop (position (o_state x)) (obj_content blocks X x)"
  obtain b x1 where x1: "object_read D X n x = (Ok b, x1)" "next_bytes blocks X x n b" "same_object blocks x x1"
    "obj_ok blocks X S N x1" "position (o_state x1) = position (o_state x) + length b"
    using object_read_ok [OF less.prems(2,3)] by blast
  obtain a1 where a1: "on_objects (ot_use ino (view_read D X n)) a = (Ok b, a1)" "object_at a1 ino = Some x1"
    "only_reads blocks ino a a1"
    using use_object_reads [of a ino x "object_read D X n"] less.prems(1) x1(1,3) unfolding view_read_def by blast
  show ?case
  proof (cases "b = []")
    case True
    then have "take n (?rest x) = []" using x1(2) by (auto simp: next_bytes_def)
    with True a1 x1(3,4) show ?thesis by (subst read_loop.simps) auto
  next
    case False
    have n: "length b \<le> n" "b = take (length b) (?rest x)" using x1(2) by (auto simp: next_bytes_def)
    have idle: "\<not> in_transaction x1" using less.prems(3) x1(3) by (simp add: same_object_def in_transaction_def)
    have rest: "?rest x1 = drop (length b) (?rest x)"
      using same_object_view(2) [OF x1(3)] x1(5) by (simp add: add.commute)
    have "n - length b < n" using False n(1) by (cases b) auto
    from less.IH [OF this a1(2) x1(4) idle, of "buf @ b"] obtain a2 x2 where
      a2: "read_loop (\<lambda>n. on_objects (ot_use ino (view_read D X n))) (n - length b) (buf @ b) a1 =
        (Ok ((buf @ b) @ take (n - length b) (?rest x1)), a2)"
        "object_at a2 ino = Some x2" "same_object blocks x1 x2" "obj_ok blocks X S N x2" "only_reads blocks ino a1 a2"
      by blast
    have "b @ take (n - length b) (?rest x1) = take n (?rest x)"
      using n take_add [of "length b" "n - length b" "?rest x"] by (simp add: rest)
    then show ?thesis using False n(1) a1(1) a2 same_object_trans [OF x1(3) a2(3)] only_reads_trans [OF a1(3) a2(5)]
      by (subst read_loop.simps) auto
  qed
qed

end

lemma same_object_idle: "same_object bl x x' \<Longrightarrow> idle cinv cpend x \<Longrightarrow> idle cinv cpend x'"
  by (auto simp: same_object_def idle_def store_eq_def)

text \<open>A seek from the start stops at the end of the object.\<close>

lemma seek_start:
  assumes "obj_ok bl X S N x" "\<not> in_transaction x"
  shows "\<exists>y. object_seek (FromStart n) x = (Ok (min (length (obj_content bl X x)) n), y) \<and> same_object bl x y \<and>
    obj_ok bl X S N y \<and> position (o_state y) = min (length (obj_content bl X x)) n"
proof -
  have len: "total (extents (o_handle x)) = length (obj_content bl X x)" "length (obj_content bl X x) < 2 ^ 63"
    using assms(1) by (auto simp: obj_ok_def obj_content_def length_content)
  let ?y = "upd_state (\<lambda>ob. ob\<lparr>position := min (length (obj_content bl X x)) n\<rparr>) x"
  have "object_seek (FromStart n) x = (Ok (min (length (obj_content bl X x)) n), ?y)"
    using assms(2) len by (simp add: object_seek_def seek_target_def bindR_def handle_size_exact)
  moreover have "same_object bl x ?y" by (simp add: same_object_def)
  moreover from this have "obj_ok bl X S N ?y" by (rule same_object_ok [OF _ assms(1)])
    (use assms(1) len(2) in \<open>auto simp: obj_ok_def buffer_ok_def\<close>)
  ultimately show ?thesis by auto
qed

context key_env
begin

lemma file_object:
  fixes r :: "'s file_repo"
  assumes "rel_path P" "file_inv blocks X S N good r" "file_map blocks X r (p_iter P p) = Some (FileNode ent c)"
  obtains key ad hd where "file_slot (tree_map (sr_state r)) (DataAt (p_iter P p)) = Some key"
    "hget (objects (sr_repo r)) (KObject (ok_object key)) = Some ad" "hget (heap (sr_repo r)) ad = Some hd"
    "handle_ok blocks X (rstate (sr_repo r)) hd" "handle_content blocks X (rstate (sr_repo r)) hd = c"
    "file_open (ev_zpaq E) P p r =
      (Ok (object_new (ev_zpaq E) (rstate (sr_repo r)) ad (repo_object_id (sr_repo r) (handle_id hd))), r)"
proof -
  let ?q = "sr_repo r"
  obtain h where h: "tree_map (sr_state r) (p_iter P p) = Some h" "node_view (state_map blocks X r) h = FileNode ent c"
    using assms(3) by (auto simp: file_map_def)
  then obtain key where key: "eh_type h = EFile key" by (auto simp: node_view_def Let_def split: entry_type.splits)
  have ok: "check_key r key" "state_map blocks X r (ok_object key) \<noteq> None"
    using handle_key_ok [OF assms(2) h(1), of key] key by (auto simp: handle_keys_def)
  then have c: "state_map blocks X r (ok_object key) = Some c" using h(2) key by (auto simp: node_view_def Let_def)
  then obtain ad hd where ad: "hget (objects ?q) (KObject (ok_object key)) = Some ad" "hd = deref ?q ad"
    "handle_content blocks X (rstate ?q) hd = c"
    by (auto simp: state_map_def repo_map_def hget_handles_of)
  have hs: "hget (handles_of ?q) (KObject (ok_object key)) = Some hd" by (simp add: hget_handles_of ad)
  note inv = repo_invD [OF state_invD(1) [OF file_invD(1) [OF assms(2)]]]
  have heap: "hget (heap ?q) ad = Some hd" using inv(5) [OF ad(1)] ad(2) by (auto simp: deref_def)
  have "p_iter P p \<noteq> []" using h(1) by auto
  then have "file_open (ev_zpaq E) P p r = (Ok (object_new (ev_zpaq E) (rstate ?q) ad (repo_object_id ?q (handle_id hd))), r)"
    using ok(1) ad h(1) key
    by (simp add: file_open_def unwrap_option_def rel_path.is_empty_path [OF assms(1)] rel_path.tree_get_ok [OF assms(1)]
      state_object_def repo_object_def)
  then show thesis using that [of key ad hd] h(1) key ad heap inv(6) [OF hs] by simp
qed

text \<open>Opening a file with no uncommitted writes, whether it is open or not.\<close>

lemma open_ready:
  fixes a :: "('s, 'z, 'b, 'w) adapter"
  assumes P: "rel_path (fv_paths V)" and inv: "file_inv blocks X S N good (fa_repo a)" and V: "fv_env V = E"
    and c: "file_map blocks X (fa_repo a) (p_iter (fv_paths V) p) = Some (FileNode ent c)"
    and idle: "open_idle blocks X cinv cpend a ino (p_iter (fv_paths V) p)"
  shows "\<exists>a' x. open_committed V ino p a = (Ok (), a') \<and> open_object V ino p a = (Ok (), a') \<and> object_at a' ino = Some x \<and>
    obj_ok blocks X S N x \<and> idle cinv cpend x \<and> position (o_state x) = fa_position a ino \<and> obj_content blocks X x = c \<and>
    open_idle blocks X cinv cpend a' ino (p_iter (fv_paths V) p) \<and> fa_repo a' = fa_repo a \<and> same_tables a a'"
proof -
  let ?q = "sr_repo (fa_repo a)"
  obtain key ad hd where f: "file_slot (tree_map (sr_state (fa_repo a))) (DataAt (p_iter (fv_paths V) p)) = Some key"
    "hget (objects ?q) (KObject (ok_object key)) = Some ad" "hget (heap ?q) ad = Some hd" "handle_ok blocks X (rstate ?q) hd"
    "handle_content blocks X (rstate ?q) hd = c"
    "file_open (ev_zpaq E) (fv_paths V) p (fa_repo a) =
      (Ok (object_new (ev_zpaq E) (rstate ?q) ad (repo_object_id ?q (handle_id hd))), fa_repo a)"
    by (rule file_object [OF P inv c])
  let ?ob = "object_new (ev_zpaq E) (rstate ?q) ad (repo_object_id ?q (handle_id hd))"
  note I = state_invD [OF file_invD(1) [OF inv]] and R = repo_invD [OF state_invD(1) [OF file_invD(1) [OF inv]]]
  have opened: "on_frepo (unwrap_result (file_open (ev_zpaq (fv_env V)) (fv_paths V) p)) a = (Ok ?ob, a)"
    using f(6) by (simp add: on_frepo_def unwrap_result_def V)
  show ?thesis
  proof (cases "hget (fa_objects a) ino")
    case None
    let ?a = "a\<lparr>fa_objects := hput ino ?ob (fa_objects a)\<rparr>"
    have at: "object_at ?a ino = Some (fresh_octx (rstate ?q) hd)" by (simp add: object_at_def object_new_def f(3))
    have ok: "obj_ok blocks X S N (fresh_octx (rstate ?q) hd)" "idle cinv cpend (fresh_octx (rstate ?q) hd)"
      "obj_content blocks X (fresh_octx (rstate ?q) hd) = c"
      using fresh_octx_ok [OF R(1) f(4)] fresh_octx_idle [OF I(2)] I(3) f(5) by auto
    have "open_idle blocks X cinv cpend ?a ino (p_iter (fv_paths V) p)"
      using f(1,2) ok(1,2) by (simp add: open_idle_def object_new_def obj_ok_def idle_def obj_view_def)
    with None at ok opened show ?thesis
      by (intro exI [of _ ?a] exI [of _ "fresh_octx (rstate ?q) hd"])
        (simp add: open_committed_def open_object_def bindR_def on_objects_def ot_open_commit_def ot_open_def same_tables_def
          object_state_new_def fa_position_def)
  next
    case (Some ob)
    then have ob: "obj_handle ob = ad" "buffer_ok (chunk_data blocks X (rstate ?q)) (object_state ob)"
      "transaction_lock (object_state ob) = None" "new_chunks (object_state ob) = []"
      "ic_ok cinv cpend (chunker (object_state ob))" "ic_is_empty (chunker (object_state ob))"
      using idle f(1,2) by (auto simp: open_idle_def)
    let ?x = "\<lparr>o_repo = rstate ?q, o_state = object_state ob, o_handle = hd\<rparr>"
    have at: "object_at a ino = Some ?x" by (simp add: object_at_def Some ob(1) f(3))
    have ok: "obj_ok blocks X S N ?x" "idle cinv cpend ?x" "obj_content blocks X ?x = c"
      using R(1) f(4,5) ob I(3)
      by (simp_all add: obj_ok_def handle_ok_def obj_view_def idle_def obj_content_def handle_content_def)
    have "view_commit (ev_store E) X (dyn_ops (ev_zpaq E)) (?q, ob) = (Ok (), (?q, ob))"
      using ob f(3) by (simp add: view_commit_def on_object_def object_commit_def in_transaction_def hput_same)
    with Some at ok opened ob(1) f(3) idle show ?thesis
      by (intro exI [of _ a] exI [of _ ?x])
        (simp add: open_committed_def open_object_def bindR_def on_objects_def ot_open_commit_def ot_open_def V
          object_is_valid_def ot_use_def unwrap_option_def hput_same object_drop_def object_new_def object_state_new_def
          fa_position_def)
  qed
qed

text \<open>Storing the access time: the entry is decoded, its times are set, and it is encoded again.\<close>

lemma touch_accessed_ok:
  fixes a :: "('s, 'z, 'b, 'w) adapter" and V :: "('s, 'z, 'q, 'b, 'l, 'w) fuse_env"
  assumes P: "rel_path (fv_paths V)" and inv: "file_inv blocks X S N good (fa_repo a)" and V: "fv_env V = E"
    and n: "file_map blocks X (fa_repo a) (p_iter (fv_paths V) p) = Some (FileNode ent c)"
    and v: "accessed_entry V req ent = Some v" and room: "room_for N (rstate (sr_repo (fa_repo a))) ent v"
    and idle: "open_idle blocks X cinv cpend a ino q"
  shows "\<exists>a'. on_frepo (touch_accessed (fv_env V) (fv_paths V) (fv_codec V) p req 0) a = (Ok (), a') \<and>
    file_inv blocks X S N good (fa_repo a') \<and>
    file_map blocks X (fa_repo a') = (file_map blocks X (fa_repo a))(p_iter (fv_paths V) p \<mapsto> FileNode v c) \<and>
    open_idle blocks X cinv cpend a' ino q \<and> fa_handles a' = fa_handles a"
proof -
  let ?K = "fv_codec V" and ?r = "fa_repo a" and ?q = "p_iter (fv_paths V) p"
  let ?md = "\<lambda>e. Some ((metadata_or_default req 0 e)\<lparr>um_accessed := req_clock req 1, um_changed := req_clock req 1\<rparr>)"
  obtain e where e: "fst (run_decoder slice_read (from_entry ?K) ent) = Ok e"
    "to_vec_entry ?K (e\<lparr>entry_metadata := ?md e\<rparr>) = Some v"
    using v by (auto simp: accessed_entry_def split: result.splits)
  obtain r1 where r1: "file_entry E (fv_paths V) ?K p ?r = (Ok e, r1)" "file_inv blocks X S N good r1"
    "file_map blocks X r1 = file_map blocks X ?r" "sr_state r1 = sr_state ?r"
    "rng (rstate (sr_repo r1)) = rng (rstate (sr_repo ?r))" "same_places blocks X ?r r1"
    using file_entry_ok [OF P inv n, of ?K] e(1) by auto
  obtain r2 where r2: "set_metadata E (fv_paths V) ?K p (?md e) r1 = (Ok (), r2)"
    "file_inv blocks X S N good r2" "file_map blocks X r2 = (file_map blocks X ?r)(?q \<mapsto> FileNode v c)" "sr_state r2 = sr_state r1"
    "same_places blocks X r1 r2"
    using set_metadata_ok [OF P r1(2) n [folded r1(3)], of ?K e "?md e" v] e r1(3,5) room by auto
  have same: "objects (sr_repo r2) = objects (sr_repo ?r)" "grows blocks X (rstate (sr_repo ?r)) (rstate (sr_repo r2))"
    using same_places_trans [OF r1(6) r2(5)] by (simp_all add: same_places_def)
  then have "open_idle blocks X cinv cpend (a\<lparr>fa_repo := r2\<rparr>) ino q"
    using idle r1(4) r2(4) by (auto simp: open_idle_def buffer_ok_def grows_def)
  with r1(1) r2 show ?thesis by (simp add: on_frepo_def touch_accessed_def bindR_def V Let_def)
qed

end

section \<open>Writing\<close>

text \<open>
  The contents a write starts from: a write after a seek beyond the end of the file fills the gap with zeros.  And where
  it goes: a write at the offset where its handle was left does not seek.
\<close>

definition write_base :: "nat \<Rightarrow> nat \<Rightarrow> bytes \<Rightarrow> bytes" where
  "write_base off pos c = (if off \<noteq> pos \<and> length c < off then resize off c else c)"

definition write_start :: "('s, 'z, 'b, 'w) adapter \<Rightarrow> u64 \<Rightarrow> nat \<Rightarrow> nat \<Rightarrow> nat" where
  "write_start a ino off pos = (if off = pos then fa_position a ino else off)"

lemma object_write_length: "object_write D X C buf x = (Ok n, y) \<Longrightarrow> n = length buf"
  unfolding object_write_def by (auto elim!: bindR_OkE)

context key_env
begin

lemma write_target_ok:
  fixes a :: "('s, 'z, 'b, 'w) adapter"
  assumes P: "rel_path (fv_paths V)" and inv: "file_inv blocks X S N good (fa_repo a)" and V: "fv_env V = E"
    and c: "file_map blocks X (fa_repo a) (p_iter (fv_paths V) p) = Some (FileNode ent c)"
    and idle: "open_idle blocks X cinv cpend a ino (p_iter (fv_paths V) p)"
    and off: "off < 2 ^ 63" "rng (rstate (sr_repo (fa_repo a))) + 2 \<le> N"
  shows "\<exists>a' x. write_target V ino p off pos a = (Ok (), a') \<and> object_at a' ino = Some x \<and> obj_ok blocks X S N x \<and>
    idle cinv cpend x \<and> position (o_state x) = write_start a ino off pos \<and> obj_content blocks X x = write_base off pos c \<and>
    draws x \<le> rng (rstate (sr_repo (fa_repo a))) + 2 \<and> same_tables a a'"
proof -
  obtain a1 x where a1: "open_committed V ino p a = (Ok (), a1)" "open_object V ino p a = (Ok (), a1)" "object_at a1 ino = Some x"
    "obj_ok blocks X S N x" "idle cinv cpend x" "position (o_state x) = fa_position a ino" "obj_content blocks X x = c"
    "fa_repo a1 = fa_repo a" "same_tables a a1"
    using open_ready [OF P inv V c idle] by blast
  have draws: "draws x = rng (rstate (sr_repo (fa_repo a)))"
    using a1(3,8) by (auto simp: object_at_def split: option.splits)
  show ?thesis
  proof (cases "off = pos")
    case True
    then show ?thesis using a1 draws by (auto simp: write_target_def write_start_def write_base_def)
  next
    case False
    have size: "info_size x = Ok (length c)"
      using a1(4,5,7) by (auto simp: info_size_def idle_def in_transaction_def obj_ok_def obj_content_def length_content handle_size_exact)
    obtain a2 where a2: "object_size ino a1 = (Ok (length c), a2)" "object_at a2 ino = Some x" "same_tables a1 a2"
      using use_object_at [of a1 ino x "\<lambda>x. (info_size x, x)"] a1(3) size
      by (auto simp: object_size_def unwrap_result_def view_size_def)
    let ?grow = "if length c < off then on_objects (ot_use ino (view_set_len (ev_store E) X off)) else ret ()"
    obtain a3 y where a3: "?grow a2 = (Ok (), a3)" "object_at a3 ino = Some y" "same_tables a2 a3" "obj_ok blocks X S N y"
      "idle cinv cpend y" "obj_content blocks X y = write_base off pos c" "draws y \<le> draws x + 2"
    proof (cases "length c < off")
      case True
      obtain y where y: "set_len (ev_store E) X off x = (Ok (), y)" "obj_ok blocks X S N y" "idle cinv cpend y"
        "obj_content blocks X y = resize off c" "draws y \<le> draws x + 2"
        using set_len_ok [OF a1(4,5) off(1)] draws off(2) a1(7) by auto
      then show ?thesis using that use_object_at [of a2 ino x "set_len (ev_store E) X off"] a2(2) True False
        by (auto simp: view_set_len_def write_base_def)
    next
      case no: False
      then show ?thesis using that [of a2 x] a1(4,5,7) a2(2) False by (simp add: write_base_def)
    qed
    have busy: "\<not> in_transaction y" using a3(5) by (simp add: idle_def in_transaction_def)
    have len: "off \<le> length (obj_content blocks X y)" using a3(6) False by (auto simp: write_base_def resize_def)
    obtain z where z: "object_seek (FromStart off) y = (Ok off, z)" "same_object blocks y z" "obj_ok blocks X S N z" "pos_of z = off"
      using seek_start [OF a3(4) busy, of off] len by (auto simp: min_def)
    obtain a4 where a4: "on_objects (ot_use ino (view_seek (FromStart off))) a3 = (Ok off, a4)" "object_at a4 ino = Some z"
      "same_tables a3 a4"
      using use_object_at [of a3 ino y "object_seek (FromStart off)"] a3(2) z(1) by (auto simp: view_seek_def)
    have "same_tables a a4" using a1(9) a2(3) a3(3) a4(3) same_tables_trans by blast
    moreover have "write_target V ino p off pos a = (Ok (), a4)"
      using False a1(1) a2(1) a3(1) a4(1) by (cases "length c < off") (simp_all add: write_target_def bindR_def V)
    moreover have "draws z = draws y" using z(2) by (auto simp: same_object_def store_eq_def)
    ultimately show ?thesis using a3(6,7) a4(2) z(3,4) draws same_object_view(2) [OF z(2), of X] same_object_idle [OF z(2) a3(5)] False
      by (auto simp: write_start_def)
  qed
qed

lemma write_all_ok:
  fixes a :: "('s, 'z, 'b, 'w) adapter"
  assumes "object_at a ino = Some x" "obj_ok blocks X S N x" "idle cinv cpend x" "pos_of x \<le> length (obj_content blocks X x)"
    "overwrite (pos_of x) data (obj_content blocks X x) \<in> S" "length (overwrite (pos_of x) data (obj_content blocks X x)) < 2 ^ 63"
    "draws x + 2 * (2 * length (obj_content blocks X x) + length data + 5) \<le> N"
  shows "\<exists>a' y z. on_objects (ot_use ino (view_write_all (ev_store E) X (dyn_ops (ev_zpaq E)) data)) a = (Ok (), a') \<and>
    object_at a' ino = Some y \<and> object_commit (ev_store E) X (dyn_ops (ev_zpaq E)) y = (Ok (), z) \<and>
    obj_content blocks X z = overwrite (pos_of x) data (obj_content blocks X x) \<and> same_tables a a'"
proof (cases "data = []")
  case True
  have "\<exists>a'. on_objects (ot_use ino (view_write_all (ev_store E) X (dyn_ops (ev_zpaq E)) data)) a = (Ok (), a') \<and>
      object_at a' ino = Some x \<and> same_tables a a'"
    by (rule use_view_at [where m = "ret ()", OF assms(1)])
      (auto simp: True view_write_all_def write_all_loop.simps [of _ "[]"] option_result_def on_object_def hput_same split: option.splits)
  moreover have "object_commit (ev_store E) X (dyn_ops (ev_zpaq E)) x = (Ok (), x)"
    using assms(3) by (simp add: object_commit_def idle_def in_transaction_def)
  ultimately show ?thesis using True by (auto simp: overwrite_def)
next
  case False
  let ?m = "object_write (ev_store E) X (dyn_ops (ev_zpaq E)) data"
  obtain z where z: "bindR (object_writes (ev_store E) X (dyn_ops (ev_zpaq E)) [data]) (\<lambda>_. object_commit (ev_store E) X (dyn_ops (ev_zpaq E))) x = (Ok (), z)"
    "obj_content blocks X z = overwrite (pos_of x) data (obj_content blocks X x)"
    using write_commit_ok [OF assms(2,3,4), of "[data]"] assms(5-7) by auto
  obtain n y where y: "?m x = (Ok n, y)" "object_commit (ev_store E) X (dyn_ops (ev_zpaq E)) y = (Ok (), z)"
  proof (cases "?m x")
    case (Pair r y)
    with z(1) that show ?thesis by (cases r) (auto simp: object_writes_def bindR_def)
  qed
  have n: "n = length data" by (rule object_write_length [OF y(1)])
  have "\<exists>a'. on_objects (ot_use ino (view_write_all (ev_store E) X (dyn_ops (ev_zpaq E)) data)) a = (Ok (), a') \<and>
      object_at a' ino = Some y \<and> same_tables a a'"
    by (rule use_view_at [where m = ?m, OF assms(1) y(1)])
      (simp add: n False view_write_all_def view_write_def write_all_loop.simps [of _ data] write_all_loop.simps [of _ "[]"] option_result_def)
  with y(2) z(2) show ?thesis by blast
qed

end

section \<open>A file system\<close>

definition ref_os :: "(nat, unit) os" where
  "ref_os =
    (let fail = (\<lambda>w. (Inl (IoError OtherKind NoPayload), w)); done = (\<lambda>w. (Inr (), w)) in
     \<lparr>os_metadata = (\<lambda>_ w. (Inl (IoError NotFoundKind NoPayload), w)),
      os_symlink_metadata = (\<lambda>_ w. (Inl (IoError NotFoundKind NoPayload), w)),
      os_read_link = (\<lambda>_ w. (Inl (IoError NotFoundKind NoPayload), w)), xattr_supported = False,
      xattr_list = (\<lambda>_ w. (Inr [], w)), xattr_get = (\<lambda>_ _ w. (Inr None, w)), xattr_set = (\<lambda>_ _ _. fail),
      to_string_lossy = (\<lambda>_. []), os_getfacl = (\<lambda>_ w. (Inr [], w)), os_setfacl = (\<lambda>_ _ _. fail),
      os_set_permissions = (\<lambda>_ _. done), os_chown = (\<lambda>_ _ _ w. (Inl NixEPERM, w)), os_set_file_times = (\<lambda>_ _ _. done),
      os_symlink = (\<lambda>_ _. fail), os_mkfifo = (\<lambda>_ w. (Inl NixEPERM, w)), os_mknod = (\<lambda>_ _ _ w. (Inl NixEPERM, w)),
      os_exists = (\<lambda>_ _. False), os_parent = (\<lambda>_. None), os_create_dir_all = (\<lambda>_. fail), os_create_dir = (\<lambda>_. fail),
      os_tempdir = (\<lambda>w. (Inr 0, w)), os_remove_tempdir = (\<lambda>_ w. w),
      os_users = \<lparr>get_user_by_name = (\<lambda>_. None), get_group_by_name = (\<lambda>_. None)\<rparr>\<rparr>)"


text \<open>
  A file system on a concrete repository, with a directory \<open>a\<close> and the file \<open>a/b\<close>: the objects are the contents of the file
  and the entries of the two.  The inodes are 1 and 2, and one file and one directory are open.
\<close>

definition ref_key :: "u64 \<Rightarrow> object_key" where
  "ref_key i = \<lparr>ok_repo = 9, ok_instance = DEFAULT_INSTANCE, ok_object = i\<rparr>"

definition ref_entry_handle :: "u64 \<Rightarrow> object_handle" where
  "ref_entry_handle i = \<lparr>handle_id = i, extents = [EHole 2]\<rparr>"

definition ref_three :: "(repo_key, (uuid, bytes) hmap) key_repo" where
  "ref_three = \<lparr>rstate = ref_repo, instance_id = DEFAULT_INSTANCE, objects = [(KObject 1, 0), (KObject 2, 1), (KObject 3, 2)],
     heap = [(0, ref_handle), (1, ref_entry_handle 3), (2, ref_entry_handle 4)], next_addr = 3,
     instances = [(DEFAULT_INSTANCE, ref_info)], handle_table = \<lparr>highest = 4, unused = []\<rparr>, transaction_id = 50\<rparr>"

definition ref_nodes :: "entry_handle path_tree" where
  "ref_nodes = \<lparr>nodes = [(''a'', PathNode [(''b'', PathNode [] \<lparr>eh_entry = ref_key 2, eh_type = EFile (ref_key 1)\<rparr>)]
     \<lparr>eh_entry = ref_key 3, eh_type = EDirectory\<rparr>)]\<rparr>"

definition ref_drive :: "(uuid, bytes) hmap file_repo" where
  "ref_drive = \<lparr>sr_repo = ref_three, sr_ids = \<lparr>highest = 3, unused = []\<rparr>, sr_state = ref_nodes\<rparr>"

definition ref_codecs :: "entry_handle path_tree state_codec" where
  "ref_codecs = \<lparr>default_state = path_tree_new, to_vec_state = (\<lambda>_. None), from_state = DecodeError,
     to_vec_ids = (\<lambda>_. None), from_ids = DecodeError\<rparr>"

definition ref_fuse :: "((uuid, bytes) hmap, fixed_chunker, string list, (u64 \<times> string list) list, nat, unit) fuse_env" where
  "ref_fuse = \<lparr>fv_env = ref_env, fv_map = ref_state_map, fv_state = ref_codecs,
     fv_codec = \<lparr>to_vec_entry = (\<lambda>_. Some [7]), from_entry = Decoded \<lparr>file_type = TFile, entry_metadata = None\<rparr>\<rparr>,
     fv_paths = ref_paths, fv_bimap = ref_bimap ref_paths,
     fv_flags = ref_flags, fv_os = ref_os, fv_to_str = (\<lambda>b. Some (map (char_of \<circ> unat) b)),
     fv_as_bytes = map (of_nat \<circ> of_char), fv_starts_with = (\<lambda>p q. prefix q p), fv_file_name = (\<lambda>p. if p = [] then None else Some (last p)),
     fv_link_bytes = (\<lambda>_. []), fv_reply_full = (\<lambda>xs x. 2 \<le> length xs)\<rparr>"

text \<open>An open object for the file, at a position.\<close>

definition ref_open :: "nat \<Rightarrow> fixed_chunker chunker object" where
  "ref_open n = (let ob = object_new ref_zpaq ref_repo 0 (repo_object_id ref_three 1) in
     ob\<lparr>object_state := (object_state ob)\<lparr>position := n\<rparr>\<rparr>)"

definition ref_adapter ::
  "u32 \<Rightarrow> nat \<Rightarrow> directory_entry list \<Rightarrow> (u64, fixed_chunker chunker object) hmap \<Rightarrow>
     ((uuid, bytes) hmap, fixed_chunker, (u64 \<times> string list) list, unit) adapter" where
  "ref_adapter flags pos es obs = \<lparr>fa_repo = ref_drive,
     fa_inodes = \<lparr>it_ids = \<lparr>fhighest = 2, funused = [], freserved = {1}\<rparr>, it_paths = [(2, [''a'', ''b'']), (1, [''a''])],
       it_generations = []\<rparr>,
     fa_handles = \<lparr>ht_ids = \<lparr>fhighest = 2, funused = [], freserved = {}\<rparr>,
       ht_state = [(1, HFile \<lparr>fh_flags = flags, fh_position = pos\<rparr>), (2, HDirectory es)]\<rparr>,
     fa_objects = obs, fa_world = ()\<rparr>"

lemma ref_three_handles:
  "handles_of ref_three = [(KObject 1, ref_handle), (KObject 2, ref_entry_handle 3), (KObject 3, ref_entry_handle 4)]"
  by (simp add: ref_three_def handles_of_def deref_def)

lemma ref_drive_contents: "state_map mem_blocks ref_ext ref_drive = [1 \<mapsto> [1, 2, 3, 0, 0], 2 \<mapsto> [0, 0], 3 \<mapsto> [0, 0]]"
proof -
  have "rstate ref_three = ref_repo" by (simp add: ref_three_def)
  then show ?thesis
    by (auto simp: fun_eq_iff state_map_def ref_drive_def repo_map_def ref_three_handles handle_content_def ref_handle_def
      ref_entry_handle_def ref_chunk_data ebytes_def numeral_2_eq_2)
qed

lemma ref_three_inv: "repo_inv mem_blocks ref_ext UNIV 100 ref_three"
proof -
  have live: "1 \<in> id_live \<lparr>highest = 4, unused = []\<rparr>" "2 \<in> id_live \<lparr>highest = 4, unused = []\<rparr>"
    "3 \<in> id_live \<lparr>highest = 4, unused = []\<rparr>" "4 \<in> id_live \<lparr>highest = 4, unused = []\<rparr>"
    by (simp_all add: id_live_def id_contains_def)
  have "handle_ok mem_blocks ref_ext ref_repo (ref_entry_handle i)" for i
    by (simp add: handle_ok_def ref_entry_handle_def refs_ok_def handle_chunks_def extent_chunks_def total_def extent_size_def)
  moreover have "addr_ok ref_three" by (auto simp: addr_ok_def ref_three_def split: if_splits)
  ultimately show ?thesis using live ref_direct_inv ref_handles_ok(1,3)
    by (simp add: repo_inv_def ref_three_handles)
      (auto simp: ref_three_def ref_info_def hwf_def id_inv_def ref_handle_def ref_entry_handle_def split: if_splits)
qed

lemma ref_nodes_map: "tree_map ref_nodes = [[''a''] \<mapsto> \<lparr>eh_entry = ref_key 3, eh_type = EDirectory\<rparr>,
    [''a'', ''b''] \<mapsto> \<lparr>eh_entry = ref_key 2, eh_type = EFile (ref_key 1)\<rparr>]"
proof
  fix p show "tree_map ref_nodes p = ([[''a''] \<mapsto> \<lparr>eh_entry = ref_key 3, eh_type = EDirectory\<rparr>,
    [''a'', ''b''] \<mapsto> \<lparr>eh_entry = ref_key 2, eh_type = EFile (ref_key 1)\<rparr>]) p"
    by (cases p; cases "tl p"; cases "tl (tl p)") (auto simp: ref_nodes_def tree_map_def)
qed

lemma ref_drive_state: "state_inv mem_blocks ref_ext UNIV 100 good_chunking ref_drive"
proof -
  have "x \<le> 3 \<longleftrightarrow> x = 0 \<or> x = 1 \<or> x = 2 \<or> x = 3" for x :: u64
  proof -
    have "x \<le> 3 \<longleftrightarrow> unat x \<le> 3" by (simp add: word_le_nat_alt)
    also have "\<dots> \<longleftrightarrow> unat x = 0 \<or> unat x = 1 \<or> unat x = 2 \<or> unat x = 3" by arith
    also have "\<dots> \<longleftrightarrow> x = 0 \<or> x = 1 \<or> x = 2 \<or> x = 3" by (auto simp: word_unat_eq_iff)
    finally show ?thesis .
  qed
  then have "id_live \<lparr>highest = 3, unused = []\<rparr> = {0, 1, 2, 3}" by (auto simp: id_live_def id_contains_def)
  moreover have "id_inv \<lparr>highest = 3, unused = []\<rparr>" by (simp add: id_inv_def)
  moreover have "good_chunking (config_chunking (cfg ref_repo))" "transactions ref_repo = {}" "rstate ref_three = ref_repo"
    by (simp_all add: ref_repo_def good_chunking_def ref_three_def)
  ultimately show ?thesis unfolding state_inv_def ref_drive_contents
    by (auto simp: ref_three_inv ref_drive_def)
qed

lemma ref_drive_file: "file_inv mem_blocks ref_ext UNIV 100 good_chunking ref_drive"
proof -
  have nodes: "sr_state ref_drive = ref_nodes" by (simp add: ref_drive_def)
  have check: "check_key ref_drive (ref_key i)" for i
    by (simp add: check_key_def repo_get_info_def to_info_def ref_key_def ref_drive_def ref_three_def) (simp add: ref_repo_def)
  have slot: "file_slot (tree_map ref_nodes) pl = Some key \<longleftrightarrow> (pl, key) \<in>
      {(EntryAt [''a''], ref_key 3), (EntryAt [''a'', ''b''], ref_key 2), (DataAt [''a'', ''b''], ref_key 1)}" for pl key
    unfolding ref_nodes_map by (cases pl) auto
  have "index_ok mem_blocks ref_ext ref_drive (file_slot (tree_map ref_nodes))"
    unfolding index_ok_def slot using check by (auto simp: ref_drive_contents ref_key_def)
  moreover have "tree_wf ref_nodes" by (simp add: tree_wf_def ref_nodes_def is_segment_def)
  moreover have "\<forall>p \<in> dom (tree_map ref_nodes). in_directory (tree_map ref_nodes) p"
    unfolding ref_nodes_map by (auto simp: in_directory_def split: if_splits)
  ultimately show ?thesis using ref_drive_state by (simp add: file_inv_def nodes)
qed

lemma ref_drive_map:
  "file_map mem_blocks ref_ext ref_drive (p_iter ref_paths [''a'', ''b'']) = Some (FileNode [0, 0] [1, 2, 3, 0, 0])"
proof -
  have "sr_state ref_drive = ref_nodes" by (simp add: ref_drive_def)
  then show ?thesis by (simp add: file_map_def ref_nodes_map ref_drive_contents node_view_def ref_iter) (simp add: ref_key_def)
qed

lemma ref_open_idle:
  assumes "n < 2 ^ 64" and "obs = [] \<or> obs = [(2, ref_open n)]"
  shows "open_idle mem_blocks ref_ext ref_cinv ref_cpend (ref_adapter flags pos es obs) 2 (p_iter ref_paths [''a'', ''b''])"
proof -
  let ?ob = "object_state_new (to_chunker ref_zpaq (config_chunking (cfg ref_repo)))"
  have "good_chunking (config_chunking (cfg ref_repo))" "transactions ref_repo = {}" by (simp_all add: ref_repo_def good_chunking_def)
  then have "idle ref_cinv ref_cpend (ref_state.fresh_octx ref_repo ref_handle)" by (intro ref_state.fresh_octx_idle) auto
  then have "new_chunks ?ob = [] \<and> ic_ok ref_cinv ref_cpend (chunker ?ob) \<and> ic_is_empty (chunker ?ob) \<and> transaction_lock ?ob = None"
    by (simp add: idle_def)
  with assms show ?thesis
    by (auto simp: open_idle_def ref_adapter_def ref_drive_def ref_nodes_map ref_three_def ref_open_def Let_def object_new_def ref_iter
      buffer_ok_def ref_key_def object_state_new_def)
qed

lemma ref_adapter_facts:
  "fa_repo (ref_adapter flags pos es obs) = ref_drive" "fv_env ref_fuse = ref_env" "fv_paths ref_fuse = ref_paths"
  "path_of ref_fuse (ref_adapter flags pos es obs) 2 = Some [''a'', ''b'']"
  "path_of ref_fuse (ref_adapter flags pos es obs) 1 = Some [''a'']"
  "ht_get (fa_handles (ref_adapter flags pos es obs)) 1 = Some (HFile \<lparr>fh_flags = flags, fh_position = pos\<rparr>)"
  "ht_get (fa_handles (ref_adapter flags pos es obs)) 2 = Some (HDirectory es)"
  "flag_laws (fv_flags ref_fuse)"
  using ref_flags_laws
  by (simp_all add: ref_adapter_def ref_fuse_def p_eq_def ref_paths_def path_of_def it_path_def ht_get_def ref_bimap_def Let_def
      is_segment_def split_slash.simps)

section \<open>Listing a directory\<close>

text \<open>A transaction leaves the tables of the adapter alone, if what it runs does.\<close>

definition keeps_tables :: "(('s, 'z, 'b, 'w) adapter, 'a) op \<Rightarrow> bool" where
  "keeps_tables m \<longleftrightarrow> (\<forall>a. fa_inodes (snd (m a)) = fa_inodes a \<and> fa_handles (snd (m a)) = fa_handles a)"


lemma keeps_tables_bind [inv_intros]:
  assumes "keeps_tables m" and "\<And>x. keeps_tables (f x)"
  shows "keeps_tables (bindR m f)"
  using assms by (auto simp: keeps_tables_def bindR_def split: prod.splits result.splits) (metis snd_conv)+











section \<open>The contract of the file system\<close>

text \<open>
  C28: Reading a file that has no uncommitted writes, through a handle with any flags and whether an object is open for it or
  not, ends and returns the bytes of the file from the offset on, as many as were asked for unless the file ends before; the handle
  is left at the end of them.  The contents of all files stay as they are; without \<^verbatim>\<open>O_NOATIME\<close> the entry of the file is stored again
  with the time of the access, for which there must be room.  The file is left without uncommitted writes, so that the next read
  is one of the same kind.
\<close>

theorem fs_read_returns:
  fixes a :: "('s, 'z, 'b, 'w) adapter" and V :: "('s, 'z, 'q, 'b, 'l, 'w) fuse_env" and offset :: int and count :: nat
  assumes "key_env E bl cinv cfresh cpend S M good" and "fv_env V = E" and "rel_path (fv_paths V)"
    and "file_inv bl (ev_ext E) S N good (fa_repo a)" and "path_of V a ino = Some p"
    and "file_map bl (ev_ext E) (fa_repo a) (p_iter (fv_paths V) p) = Some (FileNode ent c)"
    and "open_idle bl (ev_ext E) cinv cpend a ino (p_iter (fv_paths V) p)" and "ht_get (fa_handles a) fh = Some (HFile st)"
  defines "noatime \<equiv> fl_contains (fv_flags V) (fh_flags st) (o_noatime (fv_flags V))"
    and "result_bytes \<equiv> take count (drop (as_u64 offset) c)"
  assumes "noatime \<or> accessed_entry V req ent = Some ent' \<and> overwrite 0 ent' ent \<in> S \<and> length ent' < 2 ^ 63 \<and>
      rng (rstate (sr_repo (fa_repo a))) + 2 * (2 * length ent + length ent' + 6) \<le> N"
  shows "\<exists>a'. fs_read V req ino fh offset count a = (Ok (Reply result_bytes), a') \<and>
    ht_get (fa_handles a') fh = Some (HFile (st\<lparr>fh_position := add64 (as_u64 offset) (length result_bytes)\<rparr>)) \<and>
    file_map bl (ev_ext E) (fa_repo a') = (file_map bl (ev_ext E) (fa_repo a))
      (p_iter (fv_paths V) p \<mapsto> FileNode (if noatime then ent else ent') c) \<and>
    file_inv bl (ev_ext E) S N good (fa_repo a') \<and> open_idle bl (ev_ext E) cinv cpend a' ino (p_iter (fv_paths V) p)"
proof -
  let ?off = "as_u64 offset" and ?X = "ev_ext E" and ?q = "p_iter (fv_paths V) p"
  note env = key_env.axioms(1) [OF assms(1)]
  obtain a1 x where a1: "open_committed V ino p a = (Ok (), a1)" "object_at a1 ino = Some x" "obj_ok bl ?X S N x"
    "idle cinv cpend x" "obj_content bl ?X x = c" "open_idle bl ?X cinv cpend a1 ino ?q" "fa_repo a1 = fa_repo a" "same_tables a a1"
    using key_env.open_ready [OF assms(1,3,4,2,6,7)] by blast
  have busy: "\<not> in_transaction x" using a1(4) by (simp add: idle_def in_transaction_def)
  obtain y where y: "object_seek (FromStart ?off) x = (Ok (min (length c) ?off), y)" "same_object bl x y" "obj_ok bl ?X S N y"
    "position (o_state y) = min (length c) ?off"
    using seek_start [OF a1(3) busy, of ?off] a1(5) by auto
  obtain a2 where a2: "on_objects (ot_use ino (view_seek (FromStart ?off))) a1 = (Ok (min (length c) ?off), a2)"
    "object_at a2 ino = Some y" "only_reads bl ino a1 a2"
    using use_object_reads [of a1 ino x "object_seek (FromStart ?off)"] a1(2) y(1,2) unfolding view_seek_def by blast
  have y': "\<not> in_transaction y" "obj_content bl ?X y = c"
    using busy y(2) same_object_view(2) [OF y(2), of ?X] a1(5) by (auto simp: same_object_def in_transaction_def)
  obtain a3 z where a3: "read_loop (\<lambda>n. on_objects (ot_use ino (view_read (ev_store E) ?X n))) count [] a2 = (Ok result_bytes, a3)"
    "object_at a3 ino = Some z" "same_object bl y z" "obj_ok bl ?X S N z" "only_reads bl ino a2 a3"
    using repo_env.read_loop_ok [OF object_env.axioms(1) [OF env] a2(2) y(3) y'(1), of count "[]"] y(4) y'(2)
    by (auto simp: result_bytes_def min_def split: if_splits)
  note reads = only_reads_trans [OF a2(3) a3(5)]
  let ?a3 = "a3\<lparr>fa_handles := ht_set fh (HFile (st\<lparr>fh_position := add64 ?off (length result_bytes)\<rparr>)) (fa_handles a3)\<rparr>"
  have idle: "idle cinv cpend z" using same_object_idle [OF a3(3) same_object_idle [OF y(2) a1(4)]] .
  have f: "file_inv bl ?X S N good (fa_repo ?a3)" "file_map bl ?X (fa_repo ?a3) = file_map bl ?X (fa_repo a)"
    "rng (rstate (sr_repo (fa_repo ?a3))) = rng (rstate (sr_repo (fa_repo a)))" "open_idle bl ?X cinv cpend ?a3 ino ?q"
    using only_reads_file [OF assms(4) [folded a1(7)] reads] only_reads_idle [OF a1(6) reads a3(2,4) idle] a1(7)
    by (simp_all add: open_idle_def)
  have h: "ht_get (fa_handles ?a3) fh = Some (HFile (st\<lparr>fh_position := add64 ?off (length result_bytes)\<rparr>))"
    by (simp add: ht_set_def ht_get_def)
  have run: "fs_read V req ino fh offset count a = try_result (if \<not> noatime
      then on_frepo (touch_accessed (fv_env V) (fv_paths V) (fv_codec V) p req 0) else ret ()) (\<lambda>_. reply result_bytes) ?a3"
    using assms(2,5,8) a1(1) a2(1) a3(1)
    by (simp add: fs_read_def try_result_def bindR_def on_handles_def noatime_def)
  show ?thesis
  proof (cases noatime)
    case True
    then show ?thesis using run f h assms(6) by (auto simp: try_result_def reply_def fun_upd_idem)
  next
    case False
    then have v: "accessed_entry V req ent = Some ent'" "overwrite 0 ent' ent \<in> S \<and> length ent' < 2 ^ 63 \<and>
        rng (rstate (sr_repo (fa_repo ?a3))) + 2 * (2 * length ent + length ent' + 6) \<le> N"
      using assms(11) f(3) by auto
    have n: "file_map bl ?X (fa_repo ?a3) ?q = Some (FileNode ent c)" using assms(6) f(2) by simp
    from key_env.touch_accessed_ok [OF assms(1,3) f(1) assms(2) n v f(4)] False run f(2) h show ?thesis
      by (auto simp: try_result_def reply_def)
  qed
qed

theorem fs_read_returns_witness:
  "\<exists>a'. fs_read ref_fuse \<lparr>req_uid = 0, req_gid = 0, req_clock = int\<rparr> 2 1 1 3 (ref_adapter 0 0 [] [(2, ref_open 4)]) =
      (Ok (Reply [2, 3, 0]), a') \<and>
    file_map mem_blocks ref_ext (fa_repo a') [''a'', ''b''] = Some (FileNode [7] [1, 2, 3, 0, 0])"
proof -
  let ?req = "\<lparr>req_uid = 0, req_gid = 0, req_clock = int\<rparr>"
  have "fl_contains (fv_flags ref_fuse) 0 (o_noatime (fv_flags ref_fuse)) = False" by (simp add: ref_fuse_def ref_flags_def)
  moreover have "accessed_entry ref_fuse ?req [0, 0] = Some [7]" by (simp add: accessed_entry_def ref_fuse_def)
  moreover have "rng (rstate (sr_repo ref_drive)) = 1" by (simp add: ref_drive_def ref_three_def ref_rng)
  moreover note fs_read_returns [OF ref_state.key_env_axioms ref_adapter_facts(2) ref_path.rel_path_axioms [folded ref_adapter_facts(3)],
    where a = "ref_adapter 0 0 [] [(2, ref_open 4)]" and N = 100 and ino = 2 and fh = 1 and req = ?req and offset = 1 and count = 3 and ent' = "[7]",
    unfolded ref_adapter_facts(1,3) ref_env_simps, OF ref_drive_file ref_adapter_facts(4) ref_drive_map
      ref_open_idle [of 4 _ 0 0 "[]"] ref_adapter_facts(6)]
  ultimately show ?thesis by (auto simp: as_u64_def ref_iter)
qed

text \<open>
  C39: Where a write puts its data, for a file without uncommitted writes.  After a seek the data goes to its offset, and a gap
  between the end of the file and the offset is filled with zeros.  But a write at the offset where its handle was left does not
  seek: its data goes to wherever the object of the inode is, which is the start of the file if no object is open, and
  otherwise where the last operation through any handle left it.  The bytes are in the object, and committing it gives the contents
  with the data in that place, before the position of the handle and the times are stored and the file is synchronized (\<open>finish_write\<close>).
\<close>

theorem fs_write_places:
  fixes a :: "('s, 'z, 'b, 'w) adapter" and V :: "('s, 'z, 'q, 'b, 'l, 'w) fuse_env" and offset :: int and data :: bytes
  assumes "key_env E bl cinv cfresh cpend S M good" and "fv_env V = E" and "rel_path (fv_paths V)"
    and "file_inv bl (ev_ext E) S N good (fa_repo a)" and "path_of V a ino = Some p"
    and "file_map bl (ev_ext E) (fa_repo a) (p_iter (fv_paths V) p) = Some (FileNode ent c)"
    and "open_idle bl (ev_ext E) cinv cpend a ino (p_iter (fv_paths V) p)" and "ht_get (fa_handles a) fh = Some (HFile st)"
  defines "off \<equiv> as_u64 offset"
  defines "start \<equiv> write_start a ino off (fh_position st)" and "base \<equiv> write_base off (fh_position st) c"
  assumes "off < 2 ^ 63" and "start \<le> length base" and "overwrite start data base \<in> S" and "length (overwrite start data base) < 2 ^ 63"
    and "rng (rstate (sr_repo (fa_repo a))) + 2 * (2 * length base + length data + 6) \<le> N"
  shows "\<exists>a' x y. fs_write V req ino fh offset data a = finish_write V req ino fh offset data p st a' \<and>
    object_at a' ino = Some x \<and> object_commit (ev_store E) (ev_ext E) (dyn_ops (ev_zpaq E)) x = (Ok (), y) \<and>
    obj_content bl (ev_ext E) y = overwrite start data base \<and> same_tables a a'"
proof -
  let ?X = "ev_ext E"
  have "rng (rstate (sr_repo (fa_repo a))) + 2 \<le> N" using assms(16) by simp
  from key_env.write_target_ok [OF assms(1,3,4,2,6,7,12) this, of "fh_position st"] obtain a1 x where
    a1: "write_target V ino p off (fh_position st) a = (Ok (), a1)" "object_at a1 ino = Some x" "obj_ok bl ?X S N x"
      "idle cinv cpend x" "position (o_state x) = start" "obj_content bl ?X x = base"
      "rng (o_repo x) \<le> rng (rstate (sr_repo (fa_repo a))) + 2" "same_tables a a1"
    by (auto simp: start_def base_def)
  from key_env.write_all_ok [OF assms(1) a1(2-4), of data] obtain a2 y z where
    a2: "on_objects (ot_use ino (view_write_all (ev_store E) ?X (dyn_ops (ev_zpaq E)) data)) a1 = (Ok (), a2)"
      "object_at a2 ino = Some y" "object_commit (ev_store E) ?X (dyn_ops (ev_zpaq E)) y = (Ok (), z)"
      "obj_content bl ?X z = overwrite start data base" "same_tables a1 a2"
    using a1(5-7) assms(13-16) by auto
  have "fs_write V req ino fh offset data a = finish_write V req ino fh offset data p st a2"
    using assms(2,5,8) a1(1) a2(1) by (simp add: fs_write_def try_result_def off_def)
  then show ?thesis using a2 same_tables_trans [OF a1(8) a2(5)] by blast
qed

theorem fs_write_places_witness:
  "\<exists>a' x y. fs_write ref_fuse \<lparr>req_uid = 0, req_gid = 0, req_clock = int\<rparr> 2 1 3 [9] (ref_adapter 0 3 [] []) =
      finish_write ref_fuse \<lparr>req_uid = 0, req_gid = 0, req_clock = int\<rparr> 2 1 3 [9] [''a'', ''b''] \<lparr>fh_flags = 0, fh_position = 3\<rparr> a' \<and>
    object_at a' 2 = Some x \<and> object_commit memory_store ref_ext (dyn_ops ref_zpaq) x = (Ok (), y) \<and>
    obj_content mem_blocks ref_ext y = [9, 2, 3, 0, 0]"
proof -
  let ?req = "\<lparr>req_uid = 0, req_gid = 0, req_clock = int\<rparr>"
  have "write_start (ref_adapter 0 3 [] []) 2 (as_u64 3) 3 = 0" "write_base (as_u64 3) 3 [1, 2, 3, 0, 0] = [1, 2, 3, 0, 0]"
    by (simp_all add: write_start_def write_base_def fa_position_def ref_adapter_def as_u64_def)
  moreover have "rng (rstate (sr_repo ref_drive)) = 1" by (simp add: ref_drive_def ref_three_def ref_rng)
  moreover note fs_write_places [OF ref_state.key_env_axioms ref_adapter_facts(2) ref_path.rel_path_axioms [folded ref_adapter_facts(3)],
    where a = "ref_adapter 0 3 [] []" and N = 100 and ino = 2 and fh = 1 and req = ?req and offset = 3 and data = "[9]",
    unfolded ref_adapter_facts(1,3) ref_env_simps, OF ref_drive_file ref_adapter_facts(4) ref_drive_map
      ref_open_idle [of 0 "[]" 0 3 "[]"] ref_adapter_facts(6)]
  ultimately show ?thesis by (auto simp: as_u64_def overwrite_def)
qed

text \<open>
  \<^verbatim>\<open>mknod\<close> tests the bits of the file type one type after the other, although the types share bits: a socket is
  created as a regular file instead of being refused, and a block device as a character device.  The other types are
  recognized.
\<close>

theorem mknod_types:
  fixes V :: "('s, 'z, 'q, 'b, 'l, 'w) fuse_env" and mode rdev :: u32
  assumes "flag_laws (fv_flags V)" and "fv_to_str V nm = Some file_name" and "path_of V a par = Some parent_path"
  defines "ty \<equiv> mode AND s_ifmt (fv_flags V)" and "p \<equiv> join_name V parent_path file_name"
    and "mj \<equiv> dev_major (fv_flags V) (ucast rdev)" and "mn \<equiv> dev_minor (fv_flags V) (ucast rdev)"
  shows "(ty = s_ifreg (fv_flags V) \<longrightarrow> fs_mknod V req par nm mode rdev a = create_node V req parent_path p TFile (Some mode) a) \<and>
    (ty = s_ififo (fv_flags V) \<longrightarrow> fs_mknod V req par nm mode rdev a = create_node V req parent_path p (TSpecial NamedPipe) (Some mode) a) \<and>
    (ty = s_ifchr (fv_flags V) \<longrightarrow> fs_mknod V req par nm mode rdev a =
      create_node V req parent_path p (TSpecial (CharacterDevice mj mn)) (Some mode) a) \<and>
    (ty = s_ifdir (fv_flags V) \<longrightarrow> fs_mknod V req par nm mode rdev a = (Ok (ReplyError EINVAL), a)) \<and>
    (ty = s_ifblk (fv_flags V) \<longrightarrow> fs_mknod V req par nm mode rdev a =
      create_node V req parent_path p (TSpecial (CharacterDevice mj mn)) (Some mode) a) \<and>
    (ty = s_ifsock (fv_flags V) \<longrightarrow> fs_mknod V req par nm mode rdev a = create_node V req parent_path p TFile (Some mode) a)"
proof -
  let ?F = "fv_flags V"
  have F: "sf_from_bits_truncate ?F mode = ty" "fl_contains ?F b c \<longleftrightarrow> b AND c = c" for b c
    using assms(1) by (simp_all add: flag_laws_def ty_def)
  have vals: "s_iflnk ?F = 0xA000" "s_ififo ?F = 0x1000" "s_ifblk ?F = 0x6000" "s_ifchr ?F = 0x2000"
    "s_ifreg ?F = 0x8000" "s_ifdir ?F = 0x4000" "s_ifsock ?F = 0xC000"
    using assms(1) by (simp_all add: flag_laws_def)
  have run: "fs_mknod V req par nm mode rdev a = (case node_type ?F mode rdev of
      Inl e \<Rightarrow> (Ok (ReplyError e), a) | Inr t \<Rightarrow> create_node V req parent_path p t (Some mode) a)"
    using assms(2,3) by (simp add: fs_mknod_def try_option_def p_def reply_error_def split: sum.splits)
  show ?thesis unfolding run node_type_def Let_def F vals mj_def mn_def by auto
qed

theorem mknod_types_witness:
  "fs_mknod ref_fuse \<lparr>req_uid = 0, req_gid = 0, req_clock = int\<rparr> 1 [] 0xC1A4 0 (ref_adapter 0 0 [] []) =
     create_node ref_fuse \<lparr>req_uid = 0, req_gid = 0, req_clock = int\<rparr> [''a''] (join_name ref_fuse [''a''] []) TFile (Some 0xC1A4)
       (ref_adapter 0 0 [] [])"
proof -
  have "fv_to_str ref_fuse [] = Some []" by (simp add: ref_fuse_def)
  from mknod_types [OF ref_adapter_facts(8) this ref_adapter_facts(5), of "0xC1A4"] show ?thesis
    by (simp add: ref_fuse_def ref_flags_def)
qed



end
