(* ===== verification/Store_Files.thy ===== *)
theory Store_Files
  imports Unix_Metadata
begin

text \<open>
  The data stores that keep blocks in files: in a directory (\<^verbatim>\<open>src/src/store/directory_store.rs\<close>), on an SFTP
  server (\<^verbatim>\<open>sftp_store.rs\<close>) and on a server started by rclone (\<^verbatim>\<open>rclone_store.rs\<close>).  The file system that
  \<^verbatim>\<open>std::fs\<close> works on is modelled with every call able to fail; the text format of a UUID, the SSH session with its
  server and the rclone process are parameters.
\<close>

section \<open>UUIDs as text and as bytes\<close>

record uuid_ops =
  u_simple :: "uuid \<Rightarrow> string"
  u_hyphenated :: "uuid \<Rightarrow> string"
  u_parse :: "string \<Rightarrow> uuid option"
  u_bytes :: "uuid \<Rightarrow> bytes"
  u_from_slice :: "bytes \<Rightarrow> uuid option"

section \<open>The file system\<close>

text \<open>
  A path is a list of components from the root on.  The state is the nodes by their paths and, for every
  call to come, whether it fails and with which error; a write that fails has written some of the bytes.
\<close>

type_synonym file_path = "string list"

datatype fs_node = FsFile bytes | FsDir

record fs =
  fs_nodes :: "(file_path, fs_node) hmap"
  fs_calls :: nat
  fs_faults :: "nat \<Rightarrow> (io_error \<times> nat) option"

definition sys_call :: "(fs, 'a) io_op \<Rightarrow> (fs, 'a) io_op" where
  "sys_call act s = (let t = s\<lparr>fs_calls := Suc (fs_calls s)\<rparr> in
     case fs_faults s (fs_calls s) of Some (e, _) \<Rightarrow> (Inl e, t) | None \<Rightarrow> act t)"

definition ENOENT_error :: io_error where
  "ENOENT_error = IoError NotFoundKind (OsPayload 2)"

definition EEXIST_error :: io_error where
  "EEXIST_error = IoError AlreadyExistsKind (OsPayload 17)"

definition ENOTDIR_error :: io_error where
  "ENOTDIR_error = IoError OtherKind (OsPayload 20)"

definition EISDIR_error :: io_error where
  "EISDIR_error = IoError OtherKind (OsPayload 21)"

definition node_at :: "fs \<Rightarrow> file_path \<Rightarrow> fs_node option" where
  "node_at s p = (if p = [] then Some FsDir else hget (fs_nodes s) p)"

definition set_node :: "file_path \<Rightarrow> fs_node \<Rightarrow> fs \<Rightarrow> fs" where
  "set_node p n s = s\<lparr>fs_nodes := hput p n (fs_nodes s)\<rparr>"

definition del_node :: "file_path \<Rightarrow> fs \<Rightarrow> fs" where
  "del_node p s = s\<lparr>fs_nodes := hdel p (fs_nodes s)\<rparr>"

text \<open>The directory a new node is put into has to exist.\<close>

definition in_parent :: "file_path \<Rightarrow> (fs, 'a) io_op \<Rightarrow> (fs, 'a) io_op" where
  "in_parent p act s = (case node_at s (butlast p) of
      Some FsDir \<Rightarrow> act s
    | Some (FsFile _) \<Rightarrow> (Inl ENOTDIR_error, s)
    | None \<Rightarrow> (Inl ENOENT_error, s))"

definition std_exists :: "file_path \<Rightarrow> fs \<Rightarrow> bool \<times> fs" where
  "std_exists p s = (case sys_call (\<lambda>t. (Inr (node_at t p \<noteq> None), t)) s of
      (Inr b, t) \<Rightarrow> (b, t) | (Inl _, t) \<Rightarrow> (False, t))"

definition std_is_dir :: "file_path \<Rightarrow> fs \<Rightarrow> bool \<times> fs" where
  "std_is_dir p s = (case sys_call (\<lambda>t. (Inr (node_at t p = Some FsDir), t)) s of
      (Inr b, t) \<Rightarrow> (b, t) | (Inl _, t) \<Rightarrow> (False, t))"

definition std_mkdir :: "file_path \<Rightarrow> (fs, unit) io_op" where
  "std_mkdir p = sys_call (\<lambda>s. if node_at s p \<noteq> None then (Inl EEXIST_error, s)
     else in_parent p (\<lambda>s. (Inr (), set_node p FsDir s)) s)"

definition unless_dir :: "file_path \<Rightarrow> io_error \<Rightarrow> (fs, unit) io_op" where
  "unless_dir p e s = (case std_is_dir p s of (b, t) \<Rightarrow> (if b then Inr () else Inl e, t))"

fun error_kind :: "io_error \<Rightarrow> io_kind" where
  "error_kind (IoError k _) = k"

text \<open>\<^verbatim>\<open>create_dir_all\<close> tries the directory first and creates the parents only when that fails for want of them.\<close>

function create_dir_all :: "file_path \<Rightarrow> (fs, unit) io_op" where
  "create_dir_all p s = (case std_mkdir p s of
      (Inr _, t) \<Rightarrow> (Inr (), t)
    | (Inl e, t) \<Rightarrow>
        if error_kind e \<noteq> NotFoundKind then unless_dir p e t
        else if p = [] then (Inl (IoError OtherKind (OtherPayload ''failed to create whole tree'')), t)
        else (case create_dir_all (butlast p) t of
            (Inl e, t) \<Rightarrow> (Inl e, t)
          | (Inr _, t) \<Rightarrow> (case std_mkdir p t of
                (Inr _, t) \<Rightarrow> (Inr (), t)
              | (Inl e, t) \<Rightarrow> unless_dir p e t)))"
  by pat_completeness auto

termination
  by (relation "measure (length \<circ> fst)") auto

declare create_dir_all.simps [simp del]

text \<open>A handle is the path of its file: no file is renamed before it has been written.\<close>

definition std_create :: "file_path \<Rightarrow> (fs, file_path) io_op" where
  "std_create p = sys_call (\<lambda>s. if node_at s p = Some FsDir then (Inl EISDIR_error, s)
     else in_parent p (\<lambda>s. (Inr p, set_node p (FsFile []) s)) s)"

definition std_write_all :: "file_path \<Rightarrow> bytes \<Rightarrow> (fs, unit) io_op" where
  "std_write_all h d s = (let t = s\<lparr>fs_calls := Suc (fs_calls s)\<rparr>;
      (r, n) = (case fs_faults s (fs_calls s) of Some (e, k) \<Rightarrow> (Inl e, k) | None \<Rightarrow> (Inr (), length d)) in
     case node_at s h of Some (FsFile c) \<Rightarrow> (r, set_node h (FsFile (c @ take n d)) t) | _ \<Rightarrow> (r, t))"

text \<open>Only files are renamed, and a file at the destination is replaced.\<close>

definition std_rename :: "file_path \<Rightarrow> file_path \<Rightarrow> (fs, unit) io_op" where
  "std_rename a b = sys_call (\<lambda>s. case node_at s a of
      Some (FsFile d) \<Rightarrow>
        if node_at s b = Some FsDir then (Inl EISDIR_error, s)
        else in_parent b (\<lambda>s. (Inr (), set_node b (FsFile d) (del_node a s))) s
    | Some FsDir \<Rightarrow> (Inl EISDIR_error, s)
    | None \<Rightarrow> (Inl ENOENT_error, s))"

definition children :: "fs \<Rightarrow> file_path \<Rightarrow> file_path list" where
  "children s p = filter (\<lambda>q. q \<noteq> [] \<and> butlast q = p) (hkeys (fs_nodes s))"

definition std_read_dir :: "file_path \<Rightarrow> (fs, file_path list) io_op" where
  "std_read_dir p = sys_call (\<lambda>s. case node_at s p of
      Some FsDir \<Rightarrow> (Inr (children s p), s)
    | Some (FsFile _) \<Rightarrow> (Inl ENOTDIR_error, s)
    | None \<Rightarrow> (Inl ENOENT_error, s))"

text \<open>Each entry of the iterator over a directory is a result of its own.\<close>

definition std_entry :: "file_path \<Rightarrow> (fs, file_path) io_op" where
  "std_entry p = sys_call (\<lambda>s. (Inr p, s))"

definition std_remove_file :: "file_path \<Rightarrow> (fs, unit) io_op" where
  "std_remove_file p = sys_call (\<lambda>s. case node_at s p of
      Some (FsFile _) \<Rightarrow> (Inr (), del_node p s)
    | Some FsDir \<Rightarrow> (Inl EISDIR_error, s)
    | None \<Rightarrow> (Inl ENOENT_error, s))"

definition std_open :: "file_path \<Rightarrow> (fs, file_path) io_op" where
  "std_open p = sys_call (\<lambda>s. if node_at s p = None then (Inl ENOENT_error, s) else (Inr p, s))"

definition file_len :: "fs \<Rightarrow> file_path \<Rightarrow> nat" where
  "file_len s h = (case node_at s h of Some (FsFile d) \<Rightarrow> length d | _ \<Rightarrow> 0)"

definition std_len :: "file_path \<Rightarrow> (fs, nat) io_op" where
  "std_len h = sys_call (\<lambda>s. (Inr (file_len s h), s))"

definition std_read_to_end :: "file_path \<Rightarrow> (fs, bytes) io_op" where
  "std_read_to_end h = sys_call (\<lambda>s. case node_at s h of
      Some (FsFile d) \<Rightarrow> (Inr d, s)
    | _ \<Rightarrow> (Inl EISDIR_error, s))"

text \<open>
  Reading a file as text checks that it is UTF-8.  A string is the list of its bytes as characters.
\<close>

definition continuation :: "byte \<Rightarrow> bool" where
  "continuation b \<longleftrightarrow> 0x80 \<le> b \<and> b \<le> 0xBF"

fun utf8_valid :: "bytes \<Rightarrow> bool" where
  "utf8_valid [] = True"
| "utf8_valid (a # bs) =
    (if a < 0x80 then utf8_valid bs
     else if 0xC2 \<le> a \<and> a \<le> 0xDF then
       (case bs of b # r \<Rightarrow> continuation b \<and> utf8_valid r | _ \<Rightarrow> False)
     else if 0xE0 \<le> a \<and> a \<le> 0xEF then
       (case bs of b # c # r \<Rightarrow> continuation b \<and> (a = 0xE0 \<longrightarrow> 0xA0 \<le> b) \<and> (a = 0xED \<longrightarrow> b \<le> 0x9F) \<and>
          continuation c \<and> utf8_valid r | _ \<Rightarrow> False)
     else if 0xF0 \<le> a \<and> a \<le> 0xF4 then
       (case bs of b # c # d # r \<Rightarrow> continuation b \<and> (a = 0xF0 \<longrightarrow> 0x90 \<le> b) \<and> (a = 0xF4 \<longrightarrow> b \<le> 0x8F) \<and>
          continuation c \<and> continuation d \<and> utf8_valid r | _ \<Rightarrow> False)
     else False)"

definition text_of :: "bytes \<Rightarrow> string" where
  "text_of = map (char_of \<circ> unat)"

definition bytes_of :: "string \<Rightarrow> bytes" where
  "bytes_of = map (\<lambda>c. of_nat (of_char c))"

definition from_utf8 :: "bytes \<Rightarrow> io_error + string" where
  "from_utf8 b = (if utf8_valid b then Inr (text_of b)
     else Inl (IoError InvalidDataKind (OtherPayload ''stream did not contain valid UTF-8'')))"

section \<open>Errors of a store\<close>

text \<open>
  The question mark in a method of a data store turns an \<^verbatim>\<open>io::Error\<close> into the opaque error of the store, whose text
  is \<open>T\<close>; on opening a store \<^verbatim>\<open>map_err\<close> does the same and wraps it into an error of the crate.
\<close>

definition tryA :: "('e \<Rightarrow> string) \<Rightarrow> ('w \<Rightarrow> ('e + 'a) \<times> 'w) \<Rightarrow> ('a \<Rightarrow> 'w \<Rightarrow> 'b attempt \<times> 'w) \<Rightarrow> 'w \<Rightarrow> 'b attempt \<times> 'w" where
  "tryA T m f w = (case m w of (Inr x, v) \<Rightarrow> f x v | (Inl e, v) \<Rightarrow> (Failed (T e), v))"

definition bindA :: "('w \<Rightarrow> 'a attempt \<times> 'w) \<Rightarrow> ('a \<Rightarrow> 'w \<Rightarrow> 'b attempt \<times> 'w) \<Rightarrow> 'w \<Rightarrow> 'b attempt \<times> 'w" where
  "bindA m f w = (case m w of
      (Done x, v) \<Rightarrow> f x v
    | (Failed e, v) \<Rightarrow> (Failed e, v)
    | (Crashed p, v) \<Rightarrow> (Crashed p, v))"

definition as_store_error :: "(io_error \<Rightarrow> string) \<Rightarrow> ('w, 'a) io_op \<Rightarrow> ('w, 'a) op" where
  "as_store_error T m w = (case m w of (Inr x, v) \<Rightarrow> (Ok x, v) | (Inl e, v) \<Rightarrow> (Err (Store (T e)), v))"

section \<open>DirectoryStore\<close>

definition DIRECTORY_VERSION :: string where
  "DIRECTORY_VERSION = ''2891c3da-297e-11ea-a7c9-1b8f8be4fc9b''"

definition BLOCKS_DIRECTORY :: string where
  "BLOCKS_DIRECTORY = ''blocks''"

definition STAGING_DIRECTORY :: string where
  "STAGING_DIRECTORY = ''stage''"

definition VERSION_FILE :: string where
  "VERSION_FILE = ''version''"

definition dir_open :: "(io_error \<Rightarrow> string) \<Rightarrow> file_path \<Rightarrow> (fs, file_path) op" where
  "dir_open T path =
     bindR (as_store_error T (create_dir_all path)) (\<lambda>_.
     bindR (as_store_error T (create_dir_all (path @ [BLOCKS_DIRECTORY]))) (\<lambda>_.
     bindR (as_store_error T (create_dir_all (path @ [STAGING_DIRECTORY]))) (\<lambda>_ s.
     let version_path = path @ [VERSION_FILE] in
     case std_exists version_path s of
       (True, s) \<Rightarrow>
         bindR (as_store_error T (std_open version_path)) (\<lambda>version_file.
         bindR (io_call (std_read_to_end version_file)) (\<lambda>b.
         bindR (lift_result (io_result (from_utf8 b))) (\<lambda>version_id.
           if version_id \<noteq> DIRECTORY_VERSION then throw UnsupportedStore else ret path))) s
     | (False, s) \<Rightarrow>
         bindR (as_store_error T (std_create version_path)) (\<lambda>version_file.
         bindR (io_call (std_write_all version_file (bytes_of DIRECTORY_VERSION))) (\<lambda>_. ret path)) s)))"

definition block_path :: "uuid_ops \<Rightarrow> file_path \<Rightarrow> uuid \<Rightarrow> file_path" where
  "block_path U path i = path @ [BLOCKS_DIRECTORY, take 2 (u_simple U i), u_simple U i]"

definition staging_path :: "uuid_ops \<Rightarrow> file_path \<Rightarrow> uuid \<Rightarrow> file_path" where
  "staging_path U path i = path @ [STAGING_DIRECTORY, u_simple U i]"

fun remove_entries :: "(io_error \<Rightarrow> string) \<Rightarrow> file_path list \<Rightarrow> fs \<Rightarrow> unit attempt \<times> fs" where
  "remove_entries T [] s = (Done (), s)"
| "remove_entries T (e # es) s =
     tryA T (std_entry e) (\<lambda>p. tryA T (std_remove_file p) (\<lambda>_. remove_entries T es)) s"

definition dir_write_block ::
  "uuid_ops \<Rightarrow> (io_error \<Rightarrow> string) \<Rightarrow> file_path \<Rightarrow> uuid \<Rightarrow> bytes \<Rightarrow> fs \<Rightarrow> unit attempt \<times> fs" where
  "dir_write_block U T path i data =
     tryA T (create_dir_all (butlast (block_path U path i))) (\<lambda>_.
     tryA T (std_create (staging_path U path i)) (\<lambda>staging_file.
     tryA T (std_write_all staging_file data) (\<lambda>_.
     tryA T (std_rename (staging_path U path i) (block_path U path i)) (\<lambda>_.
     tryA T (std_read_dir (path @ [STAGING_DIRECTORY])) (remove_entries T)))))"

definition dir_read_block ::
  "uuid_ops \<Rightarrow> (io_error \<Rightarrow> string) \<Rightarrow> file_path \<Rightarrow> uuid \<Rightarrow> fs \<Rightarrow> bytes option attempt \<times> fs" where
  "dir_read_block U T path i s = (case std_exists (block_path U path i) s of
      (True, s) \<Rightarrow>
        tryA T (std_open (block_path U path i)) (\<lambda>file.
        tryA T (std_len file) (\<lambda>_.
        tryA T (std_read_to_end file) (\<lambda>buffer s. (Done (Some buffer), s)))) s
    | (False, s) \<Rightarrow> (Done None, s))"

definition dir_remove_block ::
  "uuid_ops \<Rightarrow> (io_error \<Rightarrow> string) \<Rightarrow> file_path \<Rightarrow> uuid \<Rightarrow> fs \<Rightarrow> unit attempt \<times> fs" where
  "dir_remove_block U T path i s = (case std_exists (block_path U path i) s of
      (True, s) \<Rightarrow> tryA T (std_remove_file (block_path U path i)) (\<lambda>_ s. (Done (), s)) s
    | (False, s) \<Rightarrow> (Done (), s))"

fun list_files :: "uuid_ops \<Rightarrow> (io_error \<Rightarrow> string) \<Rightarrow> file_path list \<Rightarrow> uuid list \<Rightarrow> fs \<Rightarrow> uuid list attempt \<times> fs" where
  "list_files U T [] block_ids s = (Done block_ids, s)"
| "list_files U T (e # es) block_ids s =
     tryA T (std_entry e) (\<lambda>p s. case u_parse U (last p) of
         Some i \<Rightarrow> list_files U T es (block_ids @ [i]) s
       | None \<Rightarrow> (Crashed ''Block file name is invalid.'', s)) s"

fun list_directories ::
  "uuid_ops \<Rightarrow> (io_error \<Rightarrow> string) \<Rightarrow> file_path list \<Rightarrow> uuid list \<Rightarrow> fs \<Rightarrow> uuid list attempt \<times> fs" where
  "list_directories U T [] block_ids s = (Done block_ids, s)"
| "list_directories U T (e # es) block_ids s =
     tryA T (std_entry e) (\<lambda>p. tryA T (std_read_dir p) (\<lambda>files.
       bindA (list_files U T files block_ids) (list_directories U T es))) s"

definition dir_list_blocks :: "uuid_ops \<Rightarrow> (io_error \<Rightarrow> string) \<Rightarrow> file_path \<Rightarrow> fs \<Rightarrow> uuid list attempt \<times> fs" where
  "dir_list_blocks U T path =
     tryA T (std_read_dir (path @ [BLOCKS_DIRECTORY])) (\<lambda>dirs. list_directories U T dirs [])"

definition directory_store :: "uuid_ops \<Rightarrow> (io_error \<Rightarrow> string) \<Rightarrow> file_path \<Rightarrow> fs data_store_ops" where
  "directory_store U T path = \<lparr>ds_write_block = dir_write_block U T path, ds_read_block = dir_read_block U T path,
     ds_remove_block = dir_remove_block U T path, ds_list_blocks = dir_list_blocks U T path\<rparr>"

end
