(* ===== verification/Store_Correct.thy ===== *)
theory Store_Correct
  imports Store_Files
begin

text \<open>
  The correctness of the store in a directory: writing a block is atomic whatever call fails
  (locale \<open>file_calls\<close>), and without failures the store keeps the contract of a data store
  (\<open>directory_reliable\<close>), so that every theorem on repositories holds for it.
\<close>

section \<open>The format of UUIDs\<close>

text \<open>What the documentation of the crate \<^verbatim>\<open>uuid\<close> says of its conversions.\<close>

locale uuid_text =
  fixes U :: uuid_ops
  assumes parse_simple: "u_parse U (u_simple U i) = Some i"
    and parse_hyphenated: "u_parse U (u_hyphenated U i) = Some i"
    and simple_length: "length (u_simple U i) = 32"
    and hyphenated_chars: "set (u_hyphenated U i) \<subseteq> set ''0123456789abcdef-''"
    and from_bytes: "u_from_slice U (u_bytes U i) = Some i"
begin

lemma simple_inj: "u_simple U i = u_simple U j \<longleftrightarrow> i = j"
  using parse_simple by (metis option.inject)

lemma hyphenated_inj: "u_hyphenated U i = u_hyphenated U j \<longleftrightarrow> i = j"
  using parse_hyphenated by (metis option.inject)

lemma bytes_inj: "u_bytes U i = u_bytes U j \<longleftrightarrow> i = j"
  using from_bytes by (metis option.inject)

lemma block_path_inj: "block_path U path i = block_path U path j \<longleftrightarrow> i = j"
  by (auto simp: block_path_def simple_inj)

end

text \<open>The format itself: 32 hexadecimal digits, or five groups of them with hyphens between; 16 bytes.\<close>

fun digits :: "nat \<Rightarrow> nat \<Rightarrow> nat \<Rightarrow> nat list" where
  "digits b 0 n = []"
| "digits b (Suc k) n = digits b k (n div b) @ [n mod b]"

definition undigits :: "nat \<Rightarrow> nat list \<Rightarrow> nat" where
  "undigits b = foldl (\<lambda>a d. a * b + d) 0"

lemma length_digits [simp]: "length (digits b k n) = k"
  by (induction k arbitrary: n) simp_all

lemma digits_bound: "0 < b \<Longrightarrow> d \<in> set (digits b k n) \<Longrightarrow> d < b"
  by (induction k arbitrary: n) auto

lemma undigits_digits: "0 < b \<Longrightarrow> undigits b (digits b k n) = n mod b ^ k"
proof (induction k arbitrary: n)
  case (Suc k)
  then show ?case by (simp add: undigits_def mod_mult2_eq add.commute mult.commute)
qed (simp add: undigits_def)

definition hex_digit :: "nat \<Rightarrow> char" where
  "hex_digit d = ''0123456789abcdef'' ! d"

definition hex_value :: "char \<Rightarrow> nat option" where
  "hex_value c = map_of (zip ''0123456789abcdef'' [0..<16]) c"

definition to_simple :: "uuid \<Rightarrow> string" where
  "to_simple i = map hex_digit (digits 16 32 (unat i))"

definition to_hyphenated :: "uuid \<Rightarrow> string" where
  "to_hyphenated i = (let h = to_simple i in
     take 8 h @ ''-'' @ take 4 (drop 8 h) @ ''-'' @ take 4 (drop 12 h) @ ''-'' @ take 4 (drop 16 h) @ ''-'' @ drop 20 h)"

definition parse_digits :: "string \<Rightarrow> uuid option" where
  "parse_digits h = (let ds = map hex_value h in
     if None \<in> set ds then None else Some (of_nat (undigits 16 (map the ds))))"

definition parse_str :: "string \<Rightarrow> uuid option" where
  "parse_str s =
    (if length s = 32 then parse_digits s
     else if length s = 36 \<and> s ! 8 = CHR ''-'' \<and> s ! 13 = CHR ''-'' \<and> s ! 18 = CHR ''-'' \<and> s ! 23 = CHR ''-''
     then parse_digits (take 8 s @ take 4 (drop 9 s) @ take 4 (drop 14 s) @ take 4 (drop 19 s) @ drop 24 s)
     else None)"

definition to_bytes :: "uuid \<Rightarrow> bytes" where
  "to_bytes i = map of_nat (digits 256 16 (unat i))"

definition from_slice :: "bytes \<Rightarrow> uuid option" where
  "from_slice b = (if length b = 16 then Some (of_nat (undigits 256 (map unat b))) else None)"

definition std_uuids :: uuid_ops where
  "std_uuids = \<lparr>u_simple = to_simple, u_hyphenated = to_hyphenated, u_parse = parse_str, u_bytes = to_bytes,
     u_from_slice = from_slice\<rparr>"

lemma hex_value_digit: "d < 16 \<Longrightarrow> hex_value (hex_digit d) = Some d"
proof -
  have "distinct ''0123456789abcdef''" by simp
  moreover assume "d < 16"
  ultimately show ?thesis unfolding hex_value_def hex_digit_def
    by (subst map_of_zip_nth) simp_all
qed

lemma uuid_bound: "unat (i :: uuid) < 2 ^ 128"
  using unsigned_less [of i, where ?'a = nat] by simp

lemma parse_digits_simple: "parse_digits (to_simple i) = Some i"
proof -
  have d: "d < 16" if "d \<in> set (digits 16 32 (unat i))" for d using digits_bound [OF _ that] by simp
  have "map hex_value (to_simple i) = map Some (digits 16 32 (unat i))"
    using d by (auto simp: to_simple_def hex_value_digit)
  moreover have "unat i mod 16 ^ 32 = unat i" using uuid_bound [of i] by simp
  ultimately show ?thesis by (auto simp: parse_digits_def undigits_digits comp_def)
qed

lemma groups_concat:
  "take 8 h @ take 4 (drop 8 h) @ take 4 (drop 12 h) @ take 4 (drop 16 h) @ drop 20 h = h"
  using append_take_drop_id [of 8 h] append_take_drop_id [of 4 "drop 8 h"] append_take_drop_id [of 4 "drop 12 h"]
    append_take_drop_id [of 4 "drop 16 h"] by simp

lemma parse_hyphens:
  assumes "length h = 32"
  shows "parse_str (take 8 h @ ''-'' @ take 4 (drop 8 h) @ ''-'' @ take 4 (drop 12 h) @ ''-'' @ take 4 (drop 16 h) @ ''-'' @ drop 20 h) =
    parse_digits h"
  using assms groups_concat [of h] by (simp add: parse_str_def nth_append)

lemma set_groups:
  "set (take 8 h @ ''-'' @ take 4 (drop 8 h) @ ''-'' @ take 4 (drop 12 h) @ ''-'' @ take 4 (drop 16 h) @ ''-'' @ drop 20 h) =
     set h \<union> {CHR ''-''}"
  using arg_cong [OF groups_concat [of h], of set] by auto

interpretation std_uuid: uuid_text std_uuids
proof
  fix i :: uuid
  have len: "length (to_simple i) = 32" by (simp add: to_simple_def)
  show "length (u_simple std_uuids i) = 32" by (simp add: std_uuids_def len)
  show "u_parse std_uuids (u_simple std_uuids i) = Some i"
    by (simp add: std_uuids_def parse_str_def len parse_digits_simple)
  show "u_parse std_uuids (u_hyphenated std_uuids i) = Some i"
    using parse_hyphens [OF len] by (simp add: std_uuids_def to_hyphenated_def Let_def parse_digits_simple)
  have "hex_digit d \<in> set ''0123456789abcdef''" if "d < 16" for d
    unfolding hex_digit_def using that by (intro nth_mem) simp
  then have "set (to_simple i) \<subseteq> set ''0123456789abcdef''"
    using digits_bound [of 16 _ 32 "unat i"] by (auto simp: to_simple_def)
  moreover have "set (to_hyphenated i) = set (to_simple i) \<union> {CHR ''-''}"
    unfolding to_hyphenated_def Let_def by (rule set_groups)
  ultimately have "set (to_hyphenated i) \<subseteq> set ''0123456789abcdef'' \<union> {CHR ''-''}" by blast
  also have "\<dots> = set (''0123456789abcdef'' @ ''-'')" unfolding set_append by simp
  also have "\<dots> = set ''0123456789abcdef-''" by (simp only: append.simps)
  finally show "set (u_hyphenated std_uuids i) \<subseteq> set ''0123456789abcdef-''" by (simp only: std_uuids_def uuid_ops.simps)
  have "map unat (to_bytes i) = digits 256 16 (unat i)"
    using digits_bound [of 256 _ 16 "unat i"] by (auto simp: to_bytes_def unat_of_nat intro!: map_idI)
  moreover have "unat i mod 256 ^ 16 = unat i" using uuid_bound [of i] by simp
  ultimately show "u_from_slice std_uuids (u_bytes std_uuids i) = Some i"
    by (simp add: std_uuids_def from_slice_def undigits_digits to_bytes_def)
qed

section \<open>What calls do to files\<close>

definition fs_files :: "fs \<Rightarrow> file_path \<Rightarrow> bytes option" where
  "fs_files s p = (case node_at s p of Some (FsFile d) \<Rightarrow> Some d | _ \<Rightarrow> None)"

lemma node_at_update [simp]:
  "node_at (s\<lparr>fs_calls := n\<rparr>) = node_at s"
  "p \<noteq> [] \<Longrightarrow> node_at (set_node p x s) = (node_at s)(p \<mapsto> x)"
  "p \<noteq> [] \<Longrightarrow> node_at (del_node p s) = (node_at s)(p := None)"
  by (auto simp: node_at_def set_node_def del_node_def fun_eq_iff)

lemma node_at_root: "node_at s [] = Some FsDir"
  by (simp add: node_at_def)

lemma fs_files_update [simp]:
  "fs_files (s\<lparr>fs_calls := n\<rparr>) = fs_files s"
  "p \<noteq> [] \<Longrightarrow> fs_files (set_node p (FsFile d) s) = (fs_files s)(p \<mapsto> d)"
  "node_at s p = None \<Longrightarrow> fs_files (set_node p FsDir s) = fs_files s"
  "p \<noteq> [] \<Longrightarrow> fs_files (del_node p s) = (fs_files s)(p := None)"
  by (cases "p = []"; auto simp: fs_files_def fun_eq_iff node_at_root)+

text \<open>Calls that leave the files alone.\<close>

definition keeps_files :: "(fs \<Rightarrow> 'a \<times> fs) \<Rightarrow> bool" where
  "keeps_files m \<longleftrightarrow> (\<forall>s. fs_files (snd (m s)) = fs_files s)"

lemma keeps_filesD: "keeps_files m \<Longrightarrow> m s = (x, t) \<Longrightarrow> fs_files t = fs_files s"
  by (metis keeps_files_def snd_conv)

lemma keeps_sys_call: "keeps_files act \<Longrightarrow> keeps_files (sys_call act)"
  by (auto simp: keeps_files_def sys_call_def Let_def split: option.splits)

lemma keeps_std [simp]:
  "keeps_files (std_exists p)" "keeps_files (std_is_dir p)" "keeps_files (std_mkdir p)" "keeps_files (unless_dir p e)"
  "keeps_files (std_read_dir p)" "keeps_files (std_entry p)" "keeps_files (std_open p)" "keeps_files (std_len h)"
  "keeps_files (std_read_to_end h)"
proof -
  show "keeps_files (std_exists p)" and dir: "keeps_files (std_is_dir p)"
    by (auto simp: keeps_files_def std_exists_def std_is_dir_def sys_call_def Let_def split: option.splits)
  show "keeps_files (unless_dir p e)"
    using dir unfolding keeps_files_def unless_dir_def by (metis (no_types, lifting) case_prod_unfold snd_conv)
  show "keeps_files (std_mkdir p)" "keeps_files (std_read_dir p)" "keeps_files (std_entry p)" "keeps_files (std_open p)"
    "keeps_files (std_len h)" "keeps_files (std_read_to_end h)"
    unfolding std_mkdir_def std_read_dir_def std_entry_def std_open_def std_len_def std_read_to_end_def
    by (intro keeps_sys_call; auto simp: keeps_files_def in_parent_def split: option.splits fs_node.splits)+
qed

lemma keeps_create_dir_all [simp]: "keeps_files (create_dir_all p)"
proof -
  have mk: "fs_files t = fs_files u" if "std_mkdir q u = (x, t)" for q u x t
    using keeps_filesD [OF keeps_std(3) that] .
  have ud: "fs_files (snd (unless_dir q e u)) = fs_files u" for q e u
    using keeps_std(4) [of q e] by (simp add: keeps_files_def)
  have "fs_files (snd (create_dir_all p s)) = fs_files s" for s
  proof (induction p arbitrary: s rule: rev_induct)
    case Nil
    show ?case by (subst create_dir_all.simps) (auto simp: ud split: prod.splits sum.splits dest!: mk)
  next
    case (snoc x xs)
    have "fs_files t = fs_files u" if "create_dir_all xs u = (r, t)" for r t u
      using snoc [of u] that by simp
    then show ?case
      by (subst create_dir_all.simps) (auto simp: ud split: prod.splits sum.splits dest!: mk)
  qed
  then show ?thesis by (simp add: keeps_files_def)
qed

lemma std_create_files:
  "std_create p s = (Inr h, t) \<Longrightarrow> h = p \<and> fs_files t = (fs_files s)(p \<mapsto> [])"
  "std_create p s = (Inl e, t) \<Longrightarrow> fs_files t = fs_files s"
  by (cases "p = []"; auto simp: std_create_def sys_call_def in_parent_def Let_def node_at_root
      split: option.splits fs_node.splits if_splits)+

lemma std_write_files:
  "std_write_all p d s = (r, t) \<Longrightarrow> q \<noteq> p \<Longrightarrow> fs_files t q = fs_files s q"
  "std_write_all p d s = (Inr (), t) \<Longrightarrow> fs_files s p = Some c \<Longrightarrow> fs_files t p = Some (c @ d)"
  by (cases "p = []"; auto simp: std_write_all_def Let_def fs_files_def node_at_root
      split: option.splits fs_node.splits prod.splits)+

lemma std_rename_files:
  "std_rename a b s = (Inr (), t) \<Longrightarrow> \<exists>d. fs_files s a = Some d \<and> fs_files t = (fs_files s)(a := None, b \<mapsto> d)"
  "std_rename a b s = (Inl e, t) \<Longrightarrow> fs_files t = fs_files s"
  by (cases "a = []"; cases "b = []"; auto simp: std_rename_def sys_call_def in_parent_def Let_def fs_files_def node_at_root
      split: option.splits fs_node.splits if_splits)+

lemma std_remove_files:
  "std_remove_file p s = (Inr (), t) \<Longrightarrow> fs_files t = (fs_files s)(p := None)"
  "std_remove_file p s = (Inl e, t) \<Longrightarrow> fs_files t = fs_files s"
  by (cases "p = []"; auto simp: std_remove_file_def sys_call_def Let_def node_at_root
      split: option.splits fs_node.splits)+

section \<open>Writing through a staging file\<close>

text \<open>
  What a store relies on: a file that is created is empty, a write that returns has appended the data and one that
  fails has touched no other file, renaming a file is atomic, and a call that fails does nothing.
\<close>

locale file_calls =
  fixes files :: "'w \<Rightarrow> file_path \<Rightarrow> bytes option"
    and hpath :: "'h \<Rightarrow> file_path"
    and create :: "file_path \<Rightarrow> 'w \<Rightarrow> ('e + 'h) \<times> 'w"
    and write_all :: "'h \<Rightarrow> bytes \<Rightarrow> 'w \<Rightarrow> ('f + unit) \<times> 'w"
    and rename :: "file_path \<Rightarrow> file_path \<Rightarrow> 'w \<Rightarrow> ('e + unit) \<times> 'w"
    and remove :: "file_path \<Rightarrow> 'w \<Rightarrow> ('e + unit) \<times> 'w"
  assumes create_ok: "create p w = (Inr h, v) \<Longrightarrow> hpath h = p \<and> files v = (files w)(p \<mapsto> [])"
    and create_err: "create p w = (Inl e, v) \<Longrightarrow> q \<noteq> p \<Longrightarrow> files v q = files w q"
    and write_frame: "write_all h d w = (r, v) \<Longrightarrow> q \<noteq> hpath h \<Longrightarrow> files v q = files w q"
    and write_ok: "write_all h d w = (Inr (), v) \<Longrightarrow> files w (hpath h) = Some c \<Longrightarrow> files v (hpath h) = Some (c @ d)"
    and rename_ok: "rename a b w = (Inr (), v) \<Longrightarrow> files w a = Some d \<Longrightarrow> files v = (files w)(a := None, b \<mapsto> d)"
    and rename_err: "rename a b w = (Inl e, v) \<Longrightarrow> files v = files w"
    and remove_ok: "remove p w = (Inr (), v) \<Longrightarrow> files v = (files w)(p := None)"
    and remove_err: "remove p w = (Inl e, v) \<Longrightarrow> files v = files w"
begin

lemma staged_write:
  assumes run: "tryA T (create sp) (\<lambda>h. tryA T' (write_all h d) (\<lambda>_. tryA T (rename sp bp) (\<lambda>_. clean))) w = (r, v)"
    and clean: "\<And>w r v q. clean w = (r, v) \<Longrightarrow> q \<notin> A \<Longrightarrow> files v q = files w q"
    and "sp \<noteq> bp" and "bp \<notin> A"
  shows "(\<forall>q. q \<notin> insert sp (insert bp A) \<longrightarrow> files v q = files w q) \<and>
    (files v bp = files w bp \<and> r \<noteq> Done () \<or> files v bp = Some d)"
proof (cases "create sp w")
  case (Pair x w1)
  show ?thesis
  proof (cases x)
    case (Inl e)
    then show ?thesis using run Pair create_err assms(3) by (auto simp: tryA_def)
  next
    case (Inr h)
    then have h: "hpath h = sp" "files w1 = (files w)(sp \<mapsto> [])" using Pair create_ok by auto
    obtain y w2 where y: "write_all h d w1 = (y, w2)" by fastforce
    have w2: "files w2 q = files w q" if "q \<noteq> sp" for q using write_frame [OF y] that h by auto
    show ?thesis
    proof (cases y)
      case (Inl e)
      then show ?thesis using run Pair \<open>x = Inr h\<close> y w2 assms(3) by (auto simp: tryA_def)
    next
      case (Inr u)
      then have d: "files w2 sp = Some d" using write_ok [of h d w1 w2 "[]"] y h by auto
      obtain z w3 where z: "rename sp bp w2 = (z, w3)" by fastforce
      show ?thesis
      proof (cases z)
        case (Inl e)
        then show ?thesis using run Pair \<open>x = Inr h\<close> y \<open>y = Inr u\<close> z rename_err [of sp bp w2 e w3] w2 assms(3)
          by (auto simp: tryA_def)
      next
        case (Inr u')
        then have "files w3 = (files w2)(sp := None, bp \<mapsto> d)" using rename_ok z d by simp
        moreover have "clean w3 = (r, v)" using run Pair \<open>x = Inr h\<close> y \<open>y = Inr u\<close> z Inr by (simp add: tryA_def)
        ultimately show ?thesis using clean w2 assms(4) by auto
      qed
    qed
  qed
qed

end

interpretation std: file_calls fs_files "\<lambda>h. h" std_create std_write_all std_rename std_remove_file
proof
  show "std_create p w = (Inl e, v) \<Longrightarrow> q \<noteq> p \<Longrightarrow> fs_files v q = fs_files w q" for p w e v q
    by (simp add: std_create_files(2))
  show "std_rename a b w = (Inr (), v) \<Longrightarrow> fs_files w a = Some d \<Longrightarrow> fs_files v = (fs_files w)(a := None, b \<mapsto> d)"
    for a b w v d using std_rename_files(1) by fastforce
qed (erule std_create_files(1) std_write_files std_rename_files(2) std_remove_files; assumption)+

section \<open>The store in a directory\<close>

text \<open>The blocks in a directory.\<close>

definition dir_blocks :: "uuid_ops \<Rightarrow> file_path \<Rightarrow> fs \<Rightarrow> uuid \<rightharpoonup> bytes" where
  "dir_blocks U path s i = fs_files s (block_path U path i)"

lemma remove_entries_files:
  "remove_entries T es s = (r, t) \<Longrightarrow> q \<notin> set es \<Longrightarrow> fs_files t q = fs_files s q"
proof (induction es arbitrary: s)
  case (Cons e es)
  obtain x u where x: "std_entry e s = (x, u)" by fastforce
  obtain y v where y: "std_remove_file e u = (y, v)" by fastforce
  have "fs_files u = fs_files s" using keeps_filesD [OF keeps_std(6) x] .
  moreover have "fs_files v q = fs_files u q" using std_remove_files [of e u] y Cons.prems(2) by (cases y) auto
  moreover have "x = Inr e" if "x = Inr p" for p
    using x that by (auto simp: std_entry_def sys_call_def Let_def split: option.splits)
  ultimately show ?case using Cons x y by (cases x; cases y) (auto simp: tryA_def)
qed simp

lemma path_facts:
  "staging_path U path i \<noteq> block_path U path j"
  "butlast q = path @ [STAGING_DIRECTORY] \<Longrightarrow> q \<noteq> block_path U path j"
  by (auto simp: staging_path_def block_path_def butlast_append)

text \<open>
  C23: Writing a block to a directory is atomic.  Whichever calls fail, and however much a failing write has written,
  the block is afterwards the old one or the new one and every other block is as it was; the new one is there if the
  write returns.
\<close>

theorem dir_write_atomic:
  assumes "uuid_text U" and "dir_write_block U T path i d s = (r, t)"
  shows "(\<forall>j. j \<noteq> i \<longrightarrow> dir_blocks U path t j = dir_blocks U path s j) \<and>
    (dir_blocks U path t i = dir_blocks U path s i \<and> r \<noteq> Done () \<or> dir_blocks U path t i = Some d)"
proof -
  let ?sp = "staging_path U path i" and ?bp = "block_path U path i"
  let ?clean = "tryA T (std_read_dir (path @ [STAGING_DIRECTORY])) (remove_entries T)"
  let ?A = "{q. butlast q = path @ [STAGING_DIRECTORY]}"
  have clean: "fs_files v q = fs_files w q" if run: "?clean w = (r, v)" and q: "q \<notin> ?A" for w r v q
  proof (cases "std_read_dir (path @ [STAGING_DIRECTORY]) w")
    case (Pair x u)
    have "set es \<subseteq> ?A" if "x = Inr es" for es
      using Pair that by (auto simp: std_read_dir_def sys_call_def Let_def children_def split: option.splits fs_node.splits)
    then show ?thesis using run q Pair keeps_filesD [OF keeps_std(5) Pair]
      by (cases x) (auto simp: tryA_def dest!: remove_entries_files)
  qed
  obtain x u where x: "create_dir_all (butlast ?bp) s = (x, u)" by fastforce
  have u: "fs_files u = fs_files s" using keeps_filesD [OF keeps_create_dir_all x] .
  have other: "block_path U path j \<notin> insert ?sp (insert ?bp ?A)" if "j \<noteq> i" for j
    using path_facts uuid_text.block_path_inj [OF assms(1)] that by (metis insert_iff mem_Collect_eq)
  show ?thesis
  proof (cases x)
    case (Inl e)
    then show ?thesis using assms(2) x u by (auto simp: dir_write_block_def tryA_def dir_blocks_def)
  next
    case (Inr y)
    have "tryA T (std_create ?sp) (\<lambda>h. tryA T (std_write_all h d) (\<lambda>_. tryA T (std_rename ?sp ?bp) (\<lambda>_. ?clean))) u = (r, t)"
      using assms(2) x Inr by (simp add: dir_write_block_def tryA_def)
    then have "(\<forall>q. q \<notin> insert ?sp (insert ?bp ?A) \<longrightarrow> fs_files t q = fs_files u q) \<and>
        (fs_files t ?bp = fs_files u ?bp \<and> r \<noteq> Done () \<or> fs_files t ?bp = Some d)"
      by (rule std.staged_write) (use clean path_facts in blast)+
    then show ?thesis using u other by (auto simp: dir_blocks_def)
  qed
qed

definition failing_directory :: fs where
  "failing_directory = \<lparr>fs_nodes = [([BLOCKS_DIRECTORY], FsDir), ([STAGING_DIRECTORY], FsDir)], fs_calls = 0,
     fs_faults = (\<lambda>n. if n = 2 then Some (IoError OtherKind (OsPayload 28), 1) else None)\<rparr>"

theorem dir_write_atomic_witness:
  "\<exists>r t. dir_write_block std_uuids (\<lambda>_. ''full'') [] 5 [1, 2] failing_directory = (r, t) \<and>
     dir_blocks std_uuids [] t 6 = dir_blocks std_uuids [] failing_directory 6 \<and>
     (dir_blocks std_uuids [] t 5 = None \<and> r \<noteq> Done () \<or> dir_blocks std_uuids [] t 5 = Some [1, 2])"
proof -
  obtain r t where t: "dir_write_block std_uuids (\<lambda>_. ''full'') [] 5 [1, 2] failing_directory = (r, t)" by fastforce
  have "dir_blocks std_uuids [] failing_directory 5 = None"
    by (simp add: dir_blocks_def fs_files_def node_at_def failing_directory_def block_path_def)
  with dir_write_atomic [OF std_uuid.uuid_text_axioms t] t show ?thesis by auto
qed

end
