(* ===== verification/Store_Reliable.thy ===== *)
theory Store_Reliable
  imports Store_Correct
begin

text \<open>
  A directory store on a file system whose calls do not fail: every operation returns and does what the contract of
  data stores says, on every state with the invariant \<open>dir_inv\<close>.  The states with the invariant are made a type
  (\<open>dir_state\<close>), on which the operations are an interpretation of \<open>reliable_store\<close>.
\<close>

section \<open>Calls that do not fail\<close>

definition quiet :: "fs \<Rightarrow> bool" where
  "quiet s \<longleftrightarrow> fs_faults s = (\<lambda>_. None)"

lemma quiet_update [simp]:
  "quiet (s\<lparr>fs_calls := n\<rparr>) = quiet s" "quiet (set_node p x s) = quiet s" "quiet (del_node p s) = quiet s"
  by (simp_all add: quiet_def set_node_def del_node_def)

lemma nodes_update [simp]:
  "fs_nodes (set_node p x s) = hput p x (fs_nodes s)" "fs_nodes (del_node p s) = hdel p (fs_nodes s)"
  by (simp_all add: set_node_def del_node_def)

lemma quiet_call [simp]: "quiet s \<Longrightarrow> sys_call act s = act (s\<lparr>fs_calls := Suc (fs_calls s)\<rparr>)"
  by (simp add: quiet_def sys_call_def Let_def)

lemma quiet_write:
  "quiet s \<Longrightarrow> node_at s h = Some (FsFile c) \<Longrightarrow>
     std_write_all h d s = (Inr (), set_node h (FsFile (c @ d)) (s\<lparr>fs_calls := Suc (fs_calls s)\<rparr>))"
  by (simp add: quiet_def std_write_all_def Let_def)

lemma node_at_nodes: "fs_nodes t = m \<Longrightarrow> node_at t q = (if q = [] then Some FsDir else hget m q)"
  by (simp add: node_at_def)

lemma same_nodes: "fs_nodes t = fs_nodes s \<Longrightarrow> node_at t = node_at s \<and> fs_files t = fs_files s"
  by (simp add: node_at_def fs_files_def fun_eq_iff)

lemma children_iff: "q \<in> set (children s p) \<longleftrightarrow> q \<noteq> [] \<and> butlast q = p \<and> node_at s q \<noteq> None"
  using map_of_eq_None_iff [of "fs_nodes s" q] by (auto simp: children_def node_at_def)

lemma distinct_children: "hwf (fs_nodes s) \<Longrightarrow> distinct (children s p)"
  by (simp add: children_def hwf_def)

lemma create_dir_all_old:
  assumes "quiet s" and "node_at s p = Some FsDir"
  shows "\<exists>t. create_dir_all p s = (Inr (), t) \<and> quiet t \<and> fs_nodes t = fs_nodes s"
  using assms by (subst create_dir_all.simps)
    (simp add: std_mkdir_def EEXIST_error_def unless_dir_def std_is_dir_def)

lemma create_dir_all_new:
  assumes "quiet s" and "node_at s p = None" and "node_at s (butlast p) = Some FsDir"
  shows "\<exists>t. create_dir_all p s = (Inr (), t) \<and> quiet t \<and> fs_nodes t = hput p FsDir (fs_nodes s)"
  using assms by (subst create_dir_all.simps)
    (simp add: std_mkdir_def in_parent_def)

lemma remove_entries_quiet:
  assumes "quiet s" and "distinct es" and "\<And>e. e \<in> set es \<Longrightarrow> \<exists>d. node_at s e = Some (FsFile d)"
  shows "\<exists>t. remove_entries T es s = (Done (), t) \<and> quiet t \<and> fs_nodes t = fold hdel es (fs_nodes s)"
  using assms
proof (induction es arbitrary: s)
  case (Cons e es)
  obtain d where d: "node_at s e = Some (FsFile d)" using Cons.prems(3) [of e] by auto
  let ?t = "del_node e (s\<lparr>fs_calls := Suc (Suc (fs_calls s))\<rparr>)"
  have "remove_entries T (e # es) s = remove_entries T es ?t"
    using Cons.prems(1) d by (simp add: tryA_def std_entry_def std_remove_file_def)
  moreover have "e \<noteq> []" using d by (auto simp: node_at_root)
  then have "\<exists>d. node_at ?t x = Some (FsFile d)" if "x \<in> set es" for x
    using Cons.prems(2,3) that by auto
  ultimately show ?case using Cons.IH [of ?t] Cons.prems(1,2) by simp
qed simp

lemma hget_fold_hdel: "hget (fold hdel es m) q = (if q \<in> set es then None else hget m q)"
  by (induction es arbitrary: m) auto

lemma hwf_fold_hdel: "hwf m \<Longrightarrow> hwf (fold hdel es m)"
  by (induction es arbitrary: m) auto

section \<open>The invariant of the directory\<close>

definition dir_inv :: "uuid_ops \<Rightarrow> file_path \<Rightarrow> fs \<Rightarrow> bool" where
  "dir_inv U path s \<longleftrightarrow> quiet s \<and> hwf (fs_nodes s) \<and>
     node_at s path = Some FsDir \<and> node_at s (path @ [BLOCKS_DIRECTORY]) = Some FsDir \<and>
     node_at s (path @ [STAGING_DIRECTORY]) = Some FsDir \<and>
     (\<forall>x. node_at s (path @ [STAGING_DIRECTORY, x]) \<noteq> Some FsDir) \<and>
     (\<forall>x n. node_at s (path @ [BLOCKS_DIRECTORY, x]) = Some n \<longrightarrow> n = FsDir) \<and>
     (\<forall>x y n. node_at s (path @ [BLOCKS_DIRECTORY, x, y]) = Some n \<longrightarrow> n \<noteq> FsDir \<and>
        node_at s (path @ [BLOCKS_DIRECTORY, x]) = Some FsDir \<and> (\<exists>i. y = u_simple U i \<and> x = take 2 y))"

lemma dir_inv_same: "dir_inv U path s \<Longrightarrow> quiet t \<Longrightarrow> fs_nodes t = fs_nodes s \<Longrightarrow> dir_inv U path t"
  using same_nodes [of t s] by (simp add: dir_inv_def)

lemma dir_blocks_same: "fs_nodes t = fs_nodes s \<Longrightarrow> dir_blocks U path t = dir_blocks U path s"
  using same_nodes [of t s] by (simp add: dir_blocks_def fun_eq_iff)

lemma block_node:
  assumes "dir_inv U path s"
  shows "node_at s (block_path U path i) = map_option FsFile (dir_blocks U path s i)"
proof -
  have "node_at s (block_path U path i) \<noteq> Some FsDir" using assms unfolding dir_inv_def block_path_def by blast
  then show ?thesis by (auto simp: dir_blocks_def fs_files_def split: option.splits fs_node.splits)
qed

lemma dir_read_ok:
  assumes "dir_inv U path s"
  shows "\<exists>t. dir_read_block U T path i s = (Done (dir_blocks U path s i), t) \<and> quiet t \<and> fs_nodes t = fs_nodes s"
proof -
  have "quiet s" using assms by (simp add: dir_inv_def)
  then show ?thesis using block_node [OF assms, of i]
    by (cases "dir_blocks U path s i") (simp_all add: dir_read_block_def std_exists_def tryA_def std_open_def std_len_def
        std_read_to_end_def)
qed

text \<open>The nodes a removal and a write leave, and that the invariant holds for them.\<close>

lemma dir_names [simp]: "BLOCKS_DIRECTORY \<noteq> STAGING_DIRECTORY" "STAGING_DIRECTORY \<noteq> BLOCKS_DIRECTORY"
  by (simp_all add: BLOCKS_DIRECTORY_def STAGING_DIRECTORY_def)

lemma butlast_longer [simp]: "butlast p \<noteq> p @ x # xs"
proof
  assume "butlast p = p @ x # xs"
  then have "length (butlast p) = length (p @ x # xs)" by simp
  then show False by simp
qed

lemma dir_inv_del:
  assumes "dir_inv U path s" and "quiet t" and "fs_nodes t = hdel (block_path U path i) (fs_nodes s)"
  shows "dir_inv U path t"
proof -
  have "node_at t = (node_at s)(block_path U path i := None)"
    using assms(3) by (auto simp: fun_eq_iff node_at_def block_path_def)
  then show ?thesis using assms by (simp add: dir_inv_def block_path_def)
qed

lemma dir_inv_put:
  assumes "dir_inv U path s" and "quiet t" and "hwf (fs_nodes t)"
    and "\<And>q. node_at t q = (if butlast q = path @ [STAGING_DIRECTORY] then None
      else if q = block_path U path i then Some (FsFile d)
      else if q = butlast (block_path U path i) then Some FsDir else node_at s q)"
  shows "dir_inv U path t"
  unfolding dir_inv_def using assms(1-3)
  by (auto simp: assms(4) dir_inv_def block_path_def butlast_append)

lemma dir_remove_ok:
  assumes "dir_inv U path s" and "uuid_text U"
  shows "\<exists>t. dir_remove_block U T path i s = (Done (), t) \<and> dir_inv U path t \<and>
    dir_blocks U path t = (dir_blocks U path s)(i := None)"
proof -
  have q: "quiet s" using assms by (simp add: dir_inv_def)
  show ?thesis
  proof (cases "dir_blocks U path s i")
    case None
    then obtain t where t: "dir_remove_block U T path i s = (Done (), t)" "quiet t" "fs_nodes t = fs_nodes s"
      using q block_node [OF assms(1), of i] by (simp add: dir_remove_block_def std_exists_def)
    then show ?thesis using dir_inv_same [OF assms(1) t(2,3)] dir_blocks_same [OF t(3)] None by (metis fun_upd_triv)
  next
    case (Some d)
    then obtain t where t: "dir_remove_block U T path i s = (Done (), t)" "quiet t"
        "fs_nodes t = hdel (block_path U path i) (fs_nodes s)"
      using q block_node [OF assms(1), of i] by (simp add: dir_remove_block_def std_exists_def tryA_def std_remove_file_def)
    then have "node_at t = (node_at s)(block_path U path i := None)"
      by (auto simp: fun_eq_iff node_at_def block_path_def)
    then have "dir_blocks U path t = (dir_blocks U path s)(i := None)"
      by (simp add: fun_eq_iff dir_blocks_def fs_files_def uuid_text.block_path_inj [OF assms(2)])
    then show ?thesis using t dir_inv_del [OF assms(1) t(2,3)] by blast
  qed
qed

text \<open>The directory of a block is there after it is created, and nothing else changes.\<close>

lemma block_directory_ok:
  assumes "dir_inv U path s"
  shows "\<exists>t. create_dir_all (butlast (block_path U path i)) s = (Inr (), t) \<and> quiet t \<and> hwf (fs_nodes t) \<and>
    node_at t = (node_at s)(butlast (block_path U path i) \<mapsto> FsDir)"
proof -
  let ?pp = "butlast (block_path U path i)"
  have pp: "?pp = path @ [BLOCKS_DIRECTORY, take 2 (u_simple U i)]" by (simp add: block_path_def butlast_append)
  have s: "quiet s" "hwf (fs_nodes s)" "node_at s (butlast ?pp) = Some FsDir"
    using assms by (simp_all add: dir_inv_def pp butlast_append)
  have "node_at s ?pp \<noteq> Some (FsFile d)" for d using assms unfolding dir_inv_def pp by blast
  then consider "node_at s ?pp = Some FsDir" | "node_at s ?pp = None"
    by (metis fs_node.exhaust option.exhaust)
  then show ?thesis
  proof cases
    case 1
    then show ?thesis using create_dir_all_old [OF s(1) 1] s(2) same_nodes by (metis fun_upd_triv)
  next
    case 2
    then obtain t where t: "create_dir_all ?pp s = (Inr (), t)" "quiet t" "fs_nodes t = hput ?pp FsDir (fs_nodes s)"
      using create_dir_all_new [OF s(1) 2 s(3)] by blast
    then have "node_at t = (node_at s)(?pp \<mapsto> FsDir)" by (auto simp: fun_eq_iff node_at_def pp)
    then show ?thesis using t s(2) by (metis hwf_hput)
  qed
qed

text \<open>From there on: the staging file, its renaming, and the removal of what is left in the staging directory.\<close>

lemma dir_write_staged:
  assumes "create_dir_all (butlast (block_path U path i)) s = (Inr (), u)" and "quiet u"
    and "node_at u (staging_path U path i) \<noteq> Some FsDir" and "node_at u (butlast (staging_path U path i)) = Some FsDir"
    and "node_at u (block_path U path i) \<noteq> Some FsDir" and "node_at u (butlast (block_path U path i)) = Some FsDir"
    and "node_at u (path @ [STAGING_DIRECTORY]) = Some FsDir"
  shows "\<exists>v. dir_write_block U T path i d s = remove_entries T (children v (path @ [STAGING_DIRECTORY])) v \<and> quiet v \<and>
    fs_nodes v = hput (block_path U path i) (FsFile d) (hdel (staging_path U path i)
      (hput (staging_path U path i) (FsFile d) (hput (staging_path U path i) (FsFile []) (fs_nodes u))))"
proof -
  let ?sp = "staging_path U path i" and ?bp = "block_path U path i" and ?st = "path @ [STAGING_DIRECTORY]"
  have "?sp \<noteq> []" "?bp \<noteq> []" "?bp \<noteq> ?sp" "butlast ?bp \<noteq> ?sp" "?st \<noteq> ?sp" "?st \<noteq> ?bp"
    by (simp_all add: staging_path_def block_path_def butlast_append)
  then show ?thesis using assms
    by (simp add: dir_write_block_def tryA_def std_create_def in_parent_def quiet_write std_rename_def std_read_dir_def)
      (rule exI, rule conjI, rule refl, simp)
qed

lemma dir_write_ok:
  assumes "dir_inv U path s" and "uuid_text U"
  shows "\<exists>t. dir_write_block U T path i d s = (Done (), t) \<and> dir_inv U path t \<and>
    dir_blocks U path t = (dir_blocks U path s)(i \<mapsto> d)"
proof -
  let ?sp = "staging_path U path i" and ?bp = "block_path U path i" and ?st = "path @ [STAGING_DIRECTORY]"
  obtain u where u: "create_dir_all (butlast ?bp) s = (Inr (), u)" "quiet u" "hwf (fs_nodes u)"
    "node_at u = (node_at s)(butlast ?bp \<mapsto> FsDir)"
    using block_directory_ok [OF assms(1)] by blast
  have nodes: "node_at u ?sp \<noteq> Some FsDir" "node_at u (butlast ?sp) = Some FsDir" "node_at u ?bp \<noteq> Some FsDir"
    "node_at u (butlast ?bp) = Some FsDir" "node_at u ?st = Some FsDir"
    using assms(1) block_node [OF assms(1), of i]
    by (simp_all add: u(4) dir_inv_def staging_path_def block_path_def butlast_append)
  have ne: "?sp \<noteq> []" "?bp \<noteq> []" "?sp \<noteq> ?bp" "?bp \<noteq> ?sp" "butlast ?bp \<noteq> ?sp" "?st \<noteq> ?sp" "?st \<noteq> ?bp"
    by (simp_all add: staging_path_def block_path_def butlast_append)
  have "\<exists>v. dir_write_block U T path i d s = remove_entries T (children v ?st) v \<and> quiet v \<and>
      fs_nodes v = hput ?bp (FsFile d) (hdel ?sp (hput ?sp (FsFile d) (hput ?sp (FsFile []) (fs_nodes u))))"
    using dir_write_staged [OF u(1,2) nodes] .
  then obtain v where v: "dir_write_block U T path i d s = remove_entries T (children v ?st) v" "quiet v"
      "fs_nodes v = hput ?bp (FsFile d) (hdel ?sp (hput ?sp (FsFile d) (hput ?sp (FsFile []) (fs_nodes u))))"
    by blast
  have at_v: "node_at v = (node_at u)(?sp := None, ?bp \<mapsto> FsFile d)" "hwf (fs_nodes v)"
    using v(3) ne u(3) by (auto simp: fun_eq_iff node_at_def)
  have "\<exists>c. node_at v q = Some (FsFile c)" if "q \<in> set (children v ?st)" for q
  proof -
    have ch: "q \<noteq> []" "butlast q = ?st" "node_at v q \<noteq> None" using that by (simp_all add: children_iff)
    then obtain x where q: "q = path @ [STAGING_DIRECTORY, x]"
      using append_butlast_last_id [of q] by (metis append.assoc append_Cons append_Nil)
    have "node_at s q \<noteq> Some FsDir" using assms(1) by (simp add: q dir_inv_def)
    then have "node_at v q \<noteq> Some FsDir" by (simp add: at_v(1) u(4) q block_path_def butlast_append)
    then show ?thesis using ch(3) by (metis fs_node.exhaust not_None_eq)
  qed
  then obtain t where t: "dir_write_block U T path i d s = (Done (), t)" "quiet t" "fs_nodes t = fold hdel (children v ?st) (fs_nodes v)"
    using remove_entries_quiet [OF v(2) distinct_children [OF at_v(2)]] v(1) by metis
  have "node_at t q = (if butlast q = ?st then None else node_at v q)" for q
    by (cases "node_at v q") (auto simp: node_at_def t(3) hget_fold_hdel children_iff)
  moreover have "butlast ?sp = ?st" "butlast ?bp \<noteq> ?st" "butlast (butlast ?bp) \<noteq> ?st" "?bp \<noteq> butlast ?bp"
    by (simp_all add: staging_path_def block_path_def butlast_append)
  ultimately have "node_at t q = (if butlast q = ?st then None else if q = ?bp then Some (FsFile d)
      else if q = butlast ?bp then Some FsDir else node_at s q)" for q
    using ne(5) by (simp add: at_v(1) u(4))
  then have "dir_inv U path t" using dir_inv_put [OF assms(1) t(2)] hwf_fold_hdel [OF at_v(2)] t(3) by simp
  moreover have "dir_blocks U path t = (dir_blocks U path s)(i \<mapsto> d)"
    using dir_write_atomic [OF assms(2) t(1)] by (auto simp: fun_eq_iff)
  ultimately show ?thesis using t(1) by blast
qed

text \<open>Listing: every entry of the directory of blocks is a directory of files whose names are IDs.\<close>

lemma list_files_quiet:
  assumes "quiet s" and "\<And>e. e \<in> set es \<Longrightarrow> u_parse U (last e) \<noteq> None"
  shows "\<exists>t. list_files U T es ids s = (Done (ids @ map (\<lambda>e. the (u_parse U (last e))) es), t) \<and> quiet t \<and>
    fs_nodes t = fs_nodes s"
  using assms
proof (induction es arbitrary: s ids)
  case (Cons e es)
  obtain i where i: "u_parse U (last e) = Some i" using Cons.prems(2) [of e] by auto
  have "list_files U T (e # es) ids s = list_files U T es (ids @ [i]) (s\<lparr>fs_calls := Suc (fs_calls s)\<rparr>)"
    using Cons.prems(1) i by (simp add: tryA_def std_entry_def)
  then show ?case using Cons.IH [of "s\<lparr>fs_calls := Suc (fs_calls s)\<rparr>" "ids @ [i]"] Cons.prems i by simp
qed simp

lemma children_same: "fs_nodes t = fs_nodes s \<Longrightarrow> children t p = children s p"
  by (simp add: children_def)

lemma list_directories_quiet:
  assumes "quiet s" and "\<And>e. e \<in> set es \<Longrightarrow> node_at s e = Some FsDir"
    and "\<And>e q. e \<in> set es \<Longrightarrow> q \<in> set (children s e) \<Longrightarrow> u_parse U (last q) \<noteq> None"
  shows "\<exists>t. list_directories U T es ids s =
      (Done (ids @ map (\<lambda>q. the (u_parse U (last q))) (concat (map (children s) es))), t) \<and> quiet t \<and> fs_nodes t = fs_nodes s"
  using assms
proof (induction es arbitrary: s ids)
  case (Cons e es)
  let ?s = "s\<lparr>fs_calls := Suc (Suc (fs_calls s))\<rparr>"
  have run: "list_directories U T (e # es) ids s = bindA (list_files U T (children ?s e) ids) (list_directories U T es) ?s"
    using Cons.prems(1) Cons.prems(2) [of e] by (simp add: tryA_def std_entry_def std_read_dir_def)
  have ch: "children ?s e = children s e" by (rule children_same) simp
  obtain t where t: "list_files U T (children s e) ids ?s = (Done (ids @ map (\<lambda>e. the (u_parse U (last e))) (children s e)), t)"
    "quiet t" "fs_nodes t = fs_nodes s"
    using list_files_quiet [of ?s "children s e" U T ids] Cons.prems(1,3) by auto
  have ch_t: "children t p = children s p" for p by (rule children_same [OF t(3)])
  have "node_at t e = Some FsDir" if "e \<in> set es" for e using Cons.prems(2) that same_nodes [OF t(3)] by simp
  moreover have "u_parse U (last q) \<noteq> None" if "e \<in> set es" "q \<in> set (children t e)" for e q
    using Cons.prems(3) [of e q] that ch_t by simp
  ultimately show ?case
    using Cons.IH [of t "ids @ map (\<lambda>e. the (u_parse U (last e))) (children s e)"] t run
    by (simp add: ch bindA_def ch_t del: list_directories.simps)
qed simp

lemma dir_list_ok:
  assumes "dir_inv U path s" and "uuid_text U"
  shows "\<exists>xs t. dir_list_blocks U T path s = (Done xs, t) \<and> set xs = dom (dir_blocks U path s) \<and> quiet t \<and>
    fs_nodes t = fs_nodes s"
proof -
  let ?bd = "path @ [BLOCKS_DIRECTORY]" and ?s = "s\<lparr>fs_calls := Suc (fs_calls s)\<rparr>"
  have s: "quiet ?s" "node_at s ?bd = Some FsDir" using assms(1) by (simp_all add: dir_inv_def)
  have ch: "children ?s = children s" by (intro ext children_same) simp
  have snoc: "q = p @ [last q]" if "q \<in> set (children s p)" for p q
    using that by (auto simp: children_iff)
  have dirs: "\<exists>x. e = path @ [BLOCKS_DIRECTORY, x] \<and> node_at s e = Some FsDir" if "e \<in> set (children s ?bd)" for e
    using assms(1) that snoc [OF that] by (simp add: dir_inv_def children_iff) (metis append.assoc append_Cons append_Nil not_None_eq)
  have blocks: "\<exists>i. q = block_path U path i" if e: "e \<in> set (children s ?bd)" and q: "q \<in> set (children s e)" for e q
  proof -
    obtain x where x: "e = path @ [BLOCKS_DIRECTORY, x]" using dirs [OF e] by blast
    then have y: "q = path @ [BLOCKS_DIRECTORY, x, last q]" using snoc [OF q] by simp
    obtain n where "node_at s q = Some n" using q by (auto simp: children_iff)
    then obtain i where "last q = u_simple U i" "x = take 2 (last q)" using assms(1) y unfolding dir_inv_def by metis
    then show ?thesis using y by (auto simp: block_path_def)
  qed
  have parse: "u_parse U (last (block_path U path i)) = Some i" for i
    by (simp add: block_path_def uuid_text.parse_simple [OF assms(2)])
  have "dir_list_blocks U T path s = list_directories U T (children s ?bd) [] ?s"
    using s by (simp add: dir_list_blocks_def tryA_def std_read_dir_def ch)
  moreover have "u_parse U (last q) \<noteq> None" if "e \<in> set (children s ?bd)" "q \<in> set (children ?s e)" for e q
    using blocks [OF that(1)] that(2) parse ch by (metis option.distinct(1))
  ultimately have "\<exists>t. dir_list_blocks U T path s = (Done (map (\<lambda>q. the (u_parse U (last q)))
      (concat (map (children s) (children s ?bd)))), t) \<and> quiet t \<and> fs_nodes t = fs_nodes s"
    using list_directories_quiet [OF s(1), of "children s ?bd" U T "[]"] dirs by (simp add: ch)
  moreover have "set (map (\<lambda>q. the (u_parse U (last q))) (concat (map (children s) (children s ?bd)))) = dom (dir_blocks U path s)"
  proof (intro equalityI subsetI)
    fix i assume "i \<in> dom (dir_blocks U path s)"
    then have b: "node_at s (block_path U path i) \<noteq> None" using block_node [OF assms(1), of i] by auto
    then have "node_at s (path @ [BLOCKS_DIRECTORY, take 2 (u_simple U i)]) = Some FsDir"
      using assms(1) unfolding dir_inv_def block_path_def by blast
    then have "block_path U path i \<in> set (children s (butlast (block_path U path i)))"
      "butlast (block_path U path i) \<in> set (children s ?bd)"
      using b by (simp_all add: children_iff block_path_def butlast_append)
    then have "block_path U path i \<in> set (concat (map (children s) (children s ?bd)))" unfolding set_concat set_map by blast
    then have "the (u_parse U (last (block_path U path i))) \<in> (\<lambda>q. the (u_parse U (last q))) ` set (concat (map (children s) (children s ?bd)))"
      by (rule imageI)
    then show "i \<in> set (map (\<lambda>q. the (u_parse U (last q))) (concat (map (children s) (children s ?bd))))"
      unfolding set_map parse by simp
  next
    fix i assume "i \<in> set (map (\<lambda>q. the (u_parse U (last q))) (concat (map (children s) (children s ?bd))))"
    then obtain e q where q: "e \<in> set (children s ?bd)" "q \<in> set (children s e)" "i = the (u_parse U (last q))" by auto
    obtain j where j: "q = block_path U path j" using blocks [OF q(1,2)] by blast
    then have "i = j" using q(3) parse by simp
    then show "i \<in> dom (dir_blocks U path s)" using q(2) j block_node [OF assms(1), of j] by (auto simp: children_iff)
  qed
  ultimately show ?thesis by blast
qed

section \<open>The store on the states with the invariant\<close>

text \<open>A directory and the file system it is in.\<close>

definition empty_directory :: fs where
  "empty_directory = \<lparr>fs_nodes = [([BLOCKS_DIRECTORY], FsDir), ([STAGING_DIRECTORY], FsDir)], fs_calls = 0, fs_faults = \<lambda>_. None\<rparr>"

lemma empty_directory_inv: "dir_inv std_uuids [] empty_directory"
  by (simp add: dir_inv_def empty_directory_def quiet_def hwf_def node_at_def)

typedef dir_state = "{(path, s). dir_inv std_uuids path s}"
  morphisms dir_rep dir_abs
  using empty_directory_inv by (intro exI [of _ "([], empty_directory)"]) simp

definition on_dir :: "(file_path \<Rightarrow> fs \<Rightarrow> 'a attempt \<times> fs) \<Rightarrow> dir_state \<Rightarrow> 'a attempt \<times> dir_state" where
  "on_dir m st = (case dir_rep st of (path, s) \<Rightarrow> case m path s of (r, t) \<Rightarrow> (r, dir_abs (path, t)))"

definition dir_state_store :: "(io_error \<Rightarrow> string) \<Rightarrow> dir_state data_store_ops" where
  "dir_state_store T = \<lparr>ds_write_block = (\<lambda>i d. on_dir (\<lambda>p. ds_write_block (directory_store std_uuids T p) i d)),
     ds_read_block = (\<lambda>i. on_dir (\<lambda>p. ds_read_block (directory_store std_uuids T p) i)),
     ds_remove_block = (\<lambda>i. on_dir (\<lambda>p. ds_remove_block (directory_store std_uuids T p) i)),
     ds_list_blocks = on_dir (\<lambda>p. ds_list_blocks (directory_store std_uuids T p))\<rparr>"

definition state_blocks :: "dir_state \<Rightarrow> uuid \<rightharpoonup> bytes" where
  "state_blocks st = (case dir_rep st of (path, s) \<Rightarrow> dir_blocks std_uuids path s)"

lemma dir_read_keeps:
  "dir_inv U path s \<Longrightarrow> \<exists>t. dir_read_block U T path i s = (Done (dir_blocks U path s i), t) \<and> dir_inv U path t \<and>
     dir_blocks U path t = dir_blocks U path s"
  using dir_read_ok [of U path s T i] dir_inv_same dir_blocks_same by blast

lemma dir_list_keeps:
  assumes "dir_inv U path s" and "uuid_text U"
  shows "\<exists>t. dir_list_blocks U T path s = (fst (dir_list_blocks U T path s), t) \<and>
    dir_inv U path t \<and> dir_blocks U path t = dir_blocks U path s"
proof -
  obtain xs t where t: "dir_list_blocks U T path s = (Done xs, t)" "quiet t" "fs_nodes t = fs_nodes s"
    using dir_list_ok [OF assms] by blast
  then show ?thesis using dir_inv_same [OF assms(1) t(2,3)] dir_blocks_same [OF t(3)] by simp
qed

lemma on_dir_run:
  assumes "\<And>path s. dir_inv std_uuids path s \<Longrightarrow> \<exists>t. m path s = (r path s, t) \<and> dir_inv std_uuids path t \<and>
    dir_blocks std_uuids path t = f (dir_blocks std_uuids path s)"
  shows "\<exists>path s st'. dir_inv std_uuids path s \<and> state_blocks st = dir_blocks std_uuids path s \<and>
    on_dir m st = (r path s, st') \<and> state_blocks st' = f (state_blocks st)"
proof -
  obtain path s where st: "dir_rep st = (path, s)" "dir_inv std_uuids path s" using dir_rep [of st]
    by (metis (mono_tags, lifting) case_prodE mem_Collect_eq)
  obtain t where t: "m path s = (r path s, t)" "dir_inv std_uuids path t"
    "dir_blocks std_uuids path t = f (dir_blocks std_uuids path s)" using assms [OF st(2)] by blast
  then have "dir_rep (dir_abs (path, t)) = (path, t)" by (simp add: dir_abs_inverse)
  then show ?thesis using st t by (auto simp: on_dir_def state_blocks_def)
qed

lemma directory_reliable: "reliable_store (dir_state_store T) state_blocks"
proof -
  note U = std_uuid.uuid_text_axioms
  have w: "\<exists>st'. ds_write_block (dir_state_store T) i d st = (Done (), st') \<and> state_blocks st' = (state_blocks st)(i \<mapsto> d)" for i d st
    using on_dir_run [where r = "\<lambda>_ _. Done ()" and f = "\<lambda>b. b(i \<mapsto> d)", of "\<lambda>p. dir_write_block std_uuids T p i d" st]
      dir_write_ok [OF _ U] by (simp add: dir_state_store_def directory_store_def) blast
  have rm: "\<exists>st'. ds_remove_block (dir_state_store T) i st = (Done (), st') \<and> state_blocks st' = (state_blocks st)(i := None)" for i st
    using on_dir_run [where r = "\<lambda>_ _. Done ()" and f = "\<lambda>b. b(i := None)", of "\<lambda>p. dir_remove_block std_uuids T p i" st]
      dir_remove_ok [OF _ U] by (simp add: dir_state_store_def directory_store_def) blast
  have rd: "\<exists>st'. ds_read_block (dir_state_store T) i st = (Done (state_blocks st i), st') \<and> state_blocks st' = state_blocks st" for i st
    using on_dir_run [where r = "\<lambda>p s. Done (dir_blocks std_uuids p s i)" and f = "\<lambda>b. b",
        of "\<lambda>p. dir_read_block std_uuids T p i" st]
      dir_read_keeps by (simp add: dir_state_store_def directory_store_def) metis
  have ls: "\<exists>xs st'. ds_list_blocks (dir_state_store T) st = (Done xs, st') \<and> set xs = dom (state_blocks st) \<and>
      state_blocks st' = state_blocks st" for st
    using on_dir_run [where r = "\<lambda>p s. fst (dir_list_blocks std_uuids T p s)" and f = "\<lambda>b. b",
        of "dir_list_blocks std_uuids T" st]
      dir_list_keeps [OF _ U] dir_list_ok [OF _ U] by (simp add: dir_state_store_def directory_store_def) (metis fst_conv)
  show ?thesis
  proof (unfold_locales, goal_cases)
    case 1 then show ?case using w by (metis prod.inject)
  next
    case 2 then show ?case using w by (metis prod.inject attempt.distinct(1))
  next
    case 3 then show ?case using rd by (metis prod.inject)
  next
    case 4 then show ?case using rd by (metis prod.inject attempt.inject(1))
  next
    case 5 then show ?case using rm by (metis prod.inject)
  next
    case 6 then show ?case using rm by (metis prod.inject attempt.distinct(1))
  next
    case 7 then show ?case using ls by (metis prod.inject)
  next
    case 8 then show ?case using ls by (metis prod.inject attempt.inject(1))
  qed (use w rd rm ls in blast)+
qed

interpretation dir: reliable_store "dir_state_store T" state_blocks for T
  by (rule directory_reliable)

section \<open>Opening a directory\<close>

lemma text_of_bytes: "text_of (bytes_of v) = v"
proof -
  have "char_of (unat (of_nat (of_char c) :: byte)) = c" for c :: char
    by (simp add: unat_of_nat)
  then show ?thesis by (induction v) (simp_all add: text_of_def bytes_of_def)
qed

lemma bytes_of_text: "bytes_of (text_of b) = b"
proof -
  have "of_nat (of_char (char_of (unat a))) = a" for a :: byte
    using unsigned_less [of a, where ?'a = nat] by simp
  then show ?thesis by (induction b) (simp_all add: text_of_def bytes_of_def del: of_char_of)
qed

lemma text_of_iff: "text_of b = v \<longleftrightarrow> b = bytes_of v"
  using text_of_bytes bytes_of_text by metis

lemma ascii_utf8: "(\<forall>c \<in> set v. of_char c < (128 :: nat)) \<Longrightarrow> utf8_valid (bytes_of v)"
proof (induction v)
  case (Cons c v)
  have "(of_nat (of_char c) :: byte) < 0x80" using Cons.prems by (simp add: word_less_nat_alt unat_of_nat)
  then show ?case using Cons by (simp add: bytes_of_def)
qed (simp add: bytes_of_def)

lemma version_utf8: "from_utf8 (bytes_of DIRECTORY_VERSION) = Inr DIRECTORY_VERSION"
proof -
  have "utf8_valid (bytes_of DIRECTORY_VERSION)" by (rule ascii_utf8) (simp add: DIRECTORY_VERSION_def)
  then show ?thesis by (simp add: from_utf8_def text_of_bytes)
qed

lemma dir_open_old:
  assumes "dir_inv U path s" and "node_at s (path @ [VERSION_FILE]) = Some (FsFile v)"
  shows "\<exists>t. dir_open T path s =
    ((case from_utf8 v of Inl e \<Rightarrow> Err (error_of_io e)
      | Inr x \<Rightarrow> if x = DIRECTORY_VERSION then Ok path else Err UnsupportedStore), t) \<and> quiet t \<and> fs_nodes t = fs_nodes s"
proof -
  have s: "quiet s" "node_at s path = Some FsDir" "node_at s (path @ [BLOCKS_DIRECTORY]) = Some FsDir"
    "node_at s (path @ [STAGING_DIRECTORY]) = Some FsDir" using assms(1) by (simp_all add: dir_inv_def)
  obtain t1 where t1: "create_dir_all path s = (Inr (), t1)" "quiet t1" "fs_nodes t1 = fs_nodes s"
    using create_dir_all_old [OF s(1,2)] by blast
  obtain t2 where t2: "create_dir_all (path @ [BLOCKS_DIRECTORY]) t1 = (Inr (), t2)" "quiet t2" "fs_nodes t2 = fs_nodes s"
    using create_dir_all_old [OF t1(2)] s(3) same_nodes [OF t1(3)] t1(3) by metis
  obtain t3 where t3: "create_dir_all (path @ [STAGING_DIRECTORY]) t2 = (Inr (), t3)" "quiet t3" "fs_nodes t3 = fs_nodes s"
    using create_dir_all_old [OF t2(2)] s(4) same_nodes [OF t2(3)] t2(3) by metis
  have v: "node_at t3 (path @ [VERSION_FILE]) = Some (FsFile v)" using assms(2) same_nodes [OF t3(3)] by simp
  show ?thesis using t1 t2 t3 v
    by (simp add: dir_open_def bindR_def as_store_error_def std_exists_def std_open_def io_call_def std_read_to_end_def
        io_result_def Let_def split: sum.splits)
qed

lemma create_dir_all_fresh:
  assumes "quiet s" and "hwf (fs_nodes s)" and "p \<noteq> []" and "node_at s p = None" and "node_at s (butlast p) = Some FsDir"
  shows "\<exists>t. create_dir_all p s = (Inr (), t) \<and> quiet t \<and> hwf (fs_nodes t) \<and> node_at t = (node_at s)(p \<mapsto> FsDir)"
proof -
  obtain t where t: "create_dir_all p s = (Inr (), t)" "quiet t" "fs_nodes t = hput p FsDir (fs_nodes s)"
    using create_dir_all_new [OF assms(1,4,5)] by blast
  moreover have "node_at t = (node_at s)(p \<mapsto> FsDir)" using t(3) assms(3) by (auto simp: fun_eq_iff node_at_def)
  ultimately show ?thesis using assms(2) by simp
qed

lemma dir_open_new:
  assumes "quiet s" and "hwf (fs_nodes s)" and "path \<noteq> []" and "node_at s (butlast path) = Some FsDir"
    and "\<And>q. node_at s (path @ q) = None"
  shows "\<exists>t. dir_open T path s = (Ok path, t) \<and> dir_inv U path t \<and> dir_blocks U path t = Map.empty \<and>
    node_at t (path @ [VERSION_FILE]) = Some (FsFile (bytes_of DIRECTORY_VERSION))"
proof -
  have p: "node_at s path = None" using assms(5) [of "[]"] by simp
  obtain t1 where t1: "create_dir_all path s = (Inr (), t1)" "quiet t1" "hwf (fs_nodes t1)" "node_at t1 = (node_at s)(path \<mapsto> FsDir)"
    using create_dir_all_fresh [OF assms(1-3) p assms(4)] by blast
  obtain t2 where t2: "create_dir_all (path @ [BLOCKS_DIRECTORY]) t1 = (Inr (), t2)" "quiet t2" "hwf (fs_nodes t2)"
    "node_at t2 = (node_at t1)(path @ [BLOCKS_DIRECTORY] \<mapsto> FsDir)"
    using create_dir_all_fresh [OF t1(2,3), of "path @ [BLOCKS_DIRECTORY]"] by (auto simp: t1(4) assms(5))
  obtain t3 where t3: "create_dir_all (path @ [STAGING_DIRECTORY]) t2 = (Inr (), t3)" "quiet t3" "hwf (fs_nodes t3)"
    "node_at t3 = (node_at t2)(path @ [STAGING_DIRECTORY] \<mapsto> FsDir)"
    using create_dir_all_fresh [OF t2(2,3), of "path @ [STAGING_DIRECTORY]"] by (auto simp: t2(4) t1(4) assms(5))
  let ?v = "path @ [VERSION_FILE]"
  have names: "VERSION_FILE \<noteq> BLOCKS_DIRECTORY" "VERSION_FILE \<noteq> STAGING_DIRECTORY"
    by (simp_all add: VERSION_FILE_def BLOCKS_DIRECTORY_def STAGING_DIRECTORY_def)
  have v: "node_at t3 ?v = None" "node_at t3 path = Some FsDir"
    using names assms(5) by (simp_all add: t3(4) t2(4) t1(4))
  have "\<exists>t. dir_open T path s = (Ok path, t) \<and> quiet t \<and>
      fs_nodes t = hput ?v (FsFile (bytes_of DIRECTORY_VERSION)) (hput ?v (FsFile []) (fs_nodes t3))"
    using t1(1) t2(1) t3(1,2) v
    by (simp add: dir_open_def bindR_def as_store_error_def std_exists_def std_create_def in_parent_def io_call_def
        quiet_write io_result_def Let_def)
  then obtain t where t: "dir_open T path s = (Ok path, t)" "quiet t"
      "fs_nodes t = hput ?v (FsFile (bytes_of DIRECTORY_VERSION)) (hput ?v (FsFile []) (fs_nodes t3))" by blast
  have nodes: "node_at t = (node_at t3)(?v \<mapsto> FsFile (bytes_of DIRECTORY_VERSION))" "hwf (fs_nodes t)"
    using t(3) t3(3) by (auto simp: fun_eq_iff node_at_def)
  have "dir_inv U path t" "dir_blocks U path t = Map.empty"
    using t(2) nodes names assms(5)
    by (auto simp: dir_inv_def dir_blocks_def fs_files_def block_path_def t3(4) t2(4) t1(4) fun_eq_iff split: if_splits)
  then show ?thesis using t(1) nodes(1) by simp
qed

section \<open>The contract of the directory store\<close>

text \<open>
  C22: A directory store is a data store.  On a file system whose calls do not fail and a directory with the layout of
  the store, every operation returns: a write stores the block and only that, a read returns what is stored, a removal removes
  the block and only that, listing gives exactly the IDs of the blocks without panicking; and the layout is kept.
\<close>

theorem directory_store_contract:
  assumes "uuid_text U" and "dir_inv U path s"
  shows "(\<exists>t. dir_write_block U T path i d s = (Done (), t) \<and> dir_inv U path t \<and>
        dir_blocks U path t = (dir_blocks U path s)(i \<mapsto> d)) \<and>
    (\<exists>t. dir_read_block U T path i s = (Done (dir_blocks U path s i), t) \<and> dir_inv U path t \<and>
        dir_blocks U path t = dir_blocks U path s) \<and>
    (\<exists>t. dir_remove_block U T path i s = (Done (), t) \<and> dir_inv U path t \<and>
        dir_blocks U path t = (dir_blocks U path s)(i := None)) \<and>
    (\<exists>xs t. dir_list_blocks U T path s = (Done xs, t) \<and> set xs = dom (dir_blocks U path s) \<and> dir_inv U path t \<and>
        dir_blocks U path t = dir_blocks U path s)"
proof (intro conjI)
  show "\<exists>xs t. dir_list_blocks U T path s = (Done xs, t) \<and> set xs = dom (dir_blocks U path s) \<and> dir_inv U path t \<and>
      dir_blocks U path t = dir_blocks U path s"
    using dir_list_ok [OF assms(2,1)] dir_inv_same [OF assms(2)] dir_blocks_same by metis
qed (use dir_write_ok [OF assms(2,1)] dir_read_keeps [OF assms(2)] dir_remove_ok [OF assms(2,1)] in blast)+

theorem directory_store_contract_witness:
  "\<exists>t. dir_write_block std_uuids (\<lambda>_. []) [] 5 [1, 2] empty_directory = (Done (), t) \<and> dir_inv std_uuids [] t \<and>
     dir_blocks std_uuids [] t 5 = Some [1, 2]"
  using directory_store_contract [OF std_uuid.uuid_text_axioms empty_directory_inv, of "\<lambda>_. []" 5 "[1, 2]"] by fastforce

text \<open>
  Opening a directory.  Where there is nothing, the directories and the version file are created and the store is
  empty.  A directory with the layout of the store is opened if and only if its version file holds the version of the
  format; another text gives \<^verbatim>\<open>UnsupportedStore\<close>, bytes that are no text an I/O error, and nothing is changed.
\<close>

theorem directory_open:
  assumes "quiet s" and "hwf (fs_nodes s)"
  shows "(path \<noteq> [] \<and> node_at s (butlast path) = Some FsDir \<and> (\<forall>q. node_at s (path @ q) = None) \<longrightarrow>
      (\<exists>t. dir_open T path s = (Ok path, t) \<and> dir_inv U path t \<and> dir_blocks U path t = Map.empty \<and>
        node_at t (path @ [VERSION_FILE]) = Some (FsFile (bytes_of DIRECTORY_VERSION)))) \<and>
    (\<forall>v. dir_inv U path s \<and> node_at s (path @ [VERSION_FILE]) = Some (FsFile v) \<longrightarrow>
      (\<exists>t. dir_open T path s = ((if v = bytes_of DIRECTORY_VERSION then Ok path
          else if utf8_valid v then Err UnsupportedStore
          else Err (Io (IoError InvalidDataKind (OtherPayload ''stream did not contain valid UTF-8'')))), t) \<and>
        dir_inv U path t \<and> dir_blocks U path t = dir_blocks U path s))"
proof (intro conjI impI allI)
  fix v assume v: "dir_inv U path s \<and> node_at s (path @ [VERSION_FILE]) = Some (FsFile v)"
  obtain t where t: "dir_open T path s = ((case from_utf8 v of Inl e \<Rightarrow> Err (error_of_io e)
      | Inr x \<Rightarrow> if x = DIRECTORY_VERSION then Ok path else Err UnsupportedStore), t)" "quiet t" "fs_nodes t = fs_nodes s"
    using dir_open_old [of U path s v T] v by blast
  have "(case from_utf8 v of Inl e \<Rightarrow> Err (error_of_io e) | Inr x \<Rightarrow> if x = DIRECTORY_VERSION then Ok path else Err UnsupportedStore) =
    (if v = bytes_of DIRECTORY_VERSION then Ok path else if utf8_valid v then Err UnsupportedStore
     else Err (Io (IoError InvalidDataKind (OtherPayload ''stream did not contain valid UTF-8''))))"
    using version_utf8 by (auto simp: from_utf8_def text_of_iff split: if_splits)
  then show "\<exists>t. dir_open T path s = ((if v = bytes_of DIRECTORY_VERSION then Ok path
          else if utf8_valid v then Err UnsupportedStore
          else Err (Io (IoError InvalidDataKind (OtherPayload ''stream did not contain valid UTF-8'')))), t) \<and>
        dir_inv U path t \<and> dir_blocks U path t = dir_blocks U path s"
    using t dir_inv_same [of U path s t] dir_blocks_same [OF t(3)] v by auto
qed (use dir_open_new [OF assms] in blast)

theorem directory_open_witness:
  "\<exists>t. dir_open (\<lambda>_. []) [''store''] \<lparr>fs_nodes = [], fs_calls = 0, fs_faults = \<lambda>_. None\<rparr> = (Ok [''store''], t) \<and>
     dir_inv std_uuids [''store''] t \<and> dir_blocks std_uuids [''store''] t = Map.empty"
proof -
  let ?s = "\<lparr>fs_nodes = [], fs_calls = 0, fs_faults = \<lambda>_. None\<rparr> :: fs"
  have "quiet ?s" "hwf (fs_nodes ?s)" "node_at ?s (butlast [''store'']) = Some FsDir" "\<forall>q. node_at ?s ([''store''] @ q) = None"
    by (simp_all add: quiet_def node_at_def)
  with directory_open [of ?s "[''store'']" "\<lambda>_. []" std_uuids] show ?thesis by blast
qed

text \<open>
  The documentation of \<^verbatim>\<open>DataStore\<close> says that nothing is stored if \<^verbatim>\<open>write_block\<close> returns an error.  Here the error can come
  from the staging files of an earlier write after the block is stored; a directory among them is enough.
\<close>

lemma dir_write_error_stored:
  assumes "uuid_text U"
  defines "s \<equiv> \<lparr>fs_nodes = [([BLOCKS_DIRECTORY], FsDir), ([STAGING_DIRECTORY], FsDir), ([STAGING_DIRECTORY, ''x''], FsDir)],
    fs_calls = 0, fs_faults = \<lambda>_. None\<rparr>"
  shows "\<exists>t. dir_write_block U T [] i d s = (Failed (T EISDIR_error), t) \<and> dir_blocks U [] s i = None \<and> dir_blocks U [] t i = Some d"
proof -
  let ?sp = "staging_path U [] i" and ?bp = "block_path U [] i"
  have len: "length (u_simple U i) = 32" by (rule uuid_text.simple_length [OF assms(1)])
  have sp: "?sp = [STAGING_DIRECTORY, u_simple U i]" and bp: "?bp = [BLOCKS_DIRECTORY, take 2 (u_simple U i), u_simple U i]"
    by (simp_all add: staging_path_def block_path_def)
  have q: "quiet s" by (simp add: s_def quiet_def)
  have x: "u_simple U i \<noteq> ''x''" using len by auto
  have nodes: "node_at s (butlast ?bp) = None" "node_at s (butlast (butlast ?bp)) = Some FsDir"
    by (simp_all add: s_def node_at_def bp)
  obtain u where u: "create_dir_all (butlast ?bp) s = (Inr (), u)" "quiet u" "fs_nodes u = hput (butlast ?bp) FsDir (fs_nodes s)"
    using create_dir_all_new [OF q nodes] by blast
  have at_u: "node_at u = (node_at s)(butlast ?bp \<mapsto> FsDir)"
    using u(3) by (auto simp: fun_eq_iff node_at_def bp)
  have dirs: "node_at u ?sp \<noteq> Some FsDir" "node_at u (butlast ?sp) = Some FsDir" "node_at u ?bp \<noteq> Some FsDir"
    "node_at u (butlast ?bp) = Some FsDir" "node_at u ([] @ [STAGING_DIRECTORY]) = Some FsDir"
    using x by (simp_all add: at_u s_def node_at_def sp bp)
  obtain v where v: "dir_write_block U T [] i d s = remove_entries T (children v ([] @ [STAGING_DIRECTORY])) v" "quiet v"
      "fs_nodes v = hput ?bp (FsFile d) (hdel ?sp (hput ?sp (FsFile d) (hput ?sp (FsFile []) (fs_nodes u))))"
    using dir_write_staged [OF u(1,2) dirs] by blast
  have "children v ([] @ [STAGING_DIRECTORY]) = [[STAGING_DIRECTORY, ''x'']]" "node_at v [STAGING_DIRECTORY, ''x''] = Some FsDir"
    "node_at v ?bp = Some (FsFile d)"
    using x x [symmetric] by (simp_all add: children_def node_at_def v(3) u(3) sp bp s_def)
  moreover have "dir_blocks U [] s i = None" by (simp add: dir_blocks_def fs_files_def node_at_def s_def bp)
  ultimately show ?thesis using v(1,2)
    by (simp add: tryA_def std_entry_def std_remove_file_def dir_blocks_def fs_files_def)
qed

end
