(* ===== verification/Store_Remote.thy ===== *)
theory Store_Remote
  imports Store_Files
begin

text \<open>
  The data stores behind a service: SFTP and rclone (\<^verbatim>\<open>src/src/store/sftp_store.rs\<close>, \<^verbatim>\<open>rclone_store.rs\<close>), Redis
  (\<^verbatim>\<open>redis_store.rs\<close>), SQLite (\<^verbatim>\<open>sqlite_store.rs\<close>) and S3 (\<^verbatim>\<open>s3_store.rs\<close>).  The client libraries with the service behind
  them are parameters: records of the calls the code makes, each a function of the state of the service.  The error of
  a call is its text, as only the text of an opaque error is ever seen.
\<close>

type_synonym ('w, 'a) call = "'w \<Rightarrow> (string + 'a) \<times> 'w"

abbreviation tryC :: "('w, 'a) call \<Rightarrow> ('a \<Rightarrow> 'w \<Rightarrow> 'b attempt \<times> 'w) \<Rightarrow> 'w \<Rightarrow> 'b attempt \<times> 'w" where
  "tryC \<equiv> tryA (\<lambda>e. e)"

definition store_call :: "('w, 'a) call \<Rightarrow> ('w, 'a) op" where
  "store_call m w = (case m w of (Inr x, v) \<Rightarrow> (Ok x, v) | (Inl e, v) \<Rightarrow> (Err (Store e), v))"

section \<open>SftpStore\<close>

record ('w, 'h) sftp_ops =
  sf_stat :: "file_path \<Rightarrow> ('w, unit) call"
  sf_mkdir :: "file_path \<Rightarrow> nat \<Rightarrow> ('w, unit) call"
  sf_create :: "file_path \<Rightarrow> ('w, 'h) call"
  sf_open :: "file_path \<Rightarrow> ('w, 'h) call"
  sf_rename :: "file_path \<Rightarrow> file_path \<Rightarrow> ('w, unit) call"
  sf_readdir :: "file_path \<Rightarrow> ('w, file_path list) call"
  sf_unlink :: "file_path \<Rightarrow> ('w, unit) call"
  sf_file_size :: "'h \<Rightarrow> ('w, nat option) call"
  sf_write_all :: "'h \<Rightarrow> bytes \<Rightarrow> ('w, unit) io_op"
  sf_read_to_end :: "'h \<Rightarrow> ('w, bytes) io_op"

datatype sftp_auth =
    PasswordAuth string string
  | KeyAuth string "file_path option" file_path "string option"
  | AgentAuth string "string option"

record 'a sftp_config =
  sc_addr :: 'a
  sc_auth :: sftp_auth
  sc_path :: file_path

text \<open>The SSH session: connecting, authenticating, the agent with its keys and their comments.\<close>

record ('w, 'a, 'k) ssh_ops =
  ssh_connect :: "'a \<Rightarrow> ('w, unit) call"
  ssh_session_new :: "('w, unit) call"
  ssh_handshake :: "('w, unit) call"
  ssh_userauth_password :: "string \<Rightarrow> string \<Rightarrow> ('w, unit) call"
  ssh_userauth_pubkey_file :: "string \<Rightarrow> file_path option \<Rightarrow> file_path \<Rightarrow> string option \<Rightarrow> ('w, unit) call"
  ssh_agent :: "('w, unit) call"
  ssh_agent_connect :: "('w, unit) call"
  ssh_list_identities :: "('w, unit) call"
  ssh_identities :: "('w, 'k list) call"
  ssh_key_comment :: "'k \<Rightarrow> string"
  ssh_agent_userauth :: "string \<Rightarrow> 'k \<Rightarrow> ('w, unit) call"
  ssh_userauth_agent :: "string \<Rightarrow> ('w, unit) call"
  ssh_sftp :: "('w, unit) call"

definition SFTP_VERSION :: string where
  "SFTP_VERSION = ''fc299876-c5ff-11ea-ada1-8b0ec1509cde''"

fun sftp_authenticate :: "('w, 'a, 'k) ssh_ops \<Rightarrow> sftp_auth \<Rightarrow> ('w, unit) op" where
  "sftp_authenticate H (PasswordAuth username password) = store_call (ssh_userauth_password H username password)"
| "sftp_authenticate H (KeyAuth username public_key private_key password) =
     store_call (ssh_userauth_pubkey_file H username public_key private_key password)"
| "sftp_authenticate H (AgentAuth username (Some comment)) =
     bindR (store_call (ssh_agent H)) (\<lambda>_.
     bindR (store_call (ssh_agent_connect H)) (\<lambda>_.
     bindR (store_call (ssh_list_identities H)) (\<lambda>_.
     bindR (store_call (ssh_identities H)) (\<lambda>identities.
       case find (\<lambda>key. ssh_key_comment H key = comment) identities of
         None \<Rightarrow> throw (Store ''No key with matching comment found in agent.'')
       | Some key \<Rightarrow> store_call (ssh_agent_userauth H username key)))))"
| "sftp_authenticate H (AgentAuth username None) = store_call (ssh_userauth_agent H username)"

definition sftp_exists :: "('w, 'h) sftp_ops \<Rightarrow> file_path \<Rightarrow> 'w \<Rightarrow> bool \<times> 'w" where
  "sftp_exists F p w = (case sf_stat F p w of (Inr _, v) \<Rightarrow> (True, v) | (Inl _, v) \<Rightarrow> (False, v))"

definition sftp_ensure_directory :: "('w, 'h) sftp_ops \<Rightarrow> file_path \<Rightarrow> ('w, unit) op" where
  "sftp_ensure_directory F directory w = (case sftp_exists F directory w of
      (True, v) \<Rightarrow> (Ok (), v)
    | (False, v) \<Rightarrow> store_call (sf_mkdir F directory 493) v)"

definition sftp_open_store :: "('w, 'h) sftp_ops \<Rightarrow> ('w, 'a, 'k) ssh_ops \<Rightarrow> 'a sftp_config \<Rightarrow> ('w, file_path) op" where
  "sftp_open_store F H c =
     bindR (store_call (ssh_connect H (sc_addr c))) (\<lambda>_.
     bindR (store_call (ssh_session_new H)) (\<lambda>_.
     bindR (store_call (ssh_handshake H)) (\<lambda>_.
     bindR (sftp_authenticate H (sc_auth c)) (\<lambda>_.
     bindR (store_call (ssh_sftp H)) (\<lambda>_.
     bindR (forM [sc_path c, sc_path c @ [BLOCKS_DIRECTORY], sc_path c @ [STAGING_DIRECTORY]] (sftp_ensure_directory F)) (\<lambda>_ w.
     let version_path = sc_path c @ [VERSION_FILE] in
     case sftp_exists F version_path w of
       (True, w) \<Rightarrow>
         bindR (store_call (sf_open F version_path)) (\<lambda>version_file.
         bindR (io_call (sf_read_to_end F version_file)) (\<lambda>b.
         bindR (lift_result (io_result (from_utf8 b))) (\<lambda>version_id.
           if version_id \<noteq> SFTP_VERSION then throw UnsupportedStore else ret (sc_path c)))) w
     | (False, w) \<Rightarrow>
         bindR (store_call (sf_create F version_path)) (\<lambda>version_file.
         bindR (io_call (sf_write_all F version_file (bytes_of SFTP_VERSION))) (\<lambda>_. ret (sc_path c))) w))))))"

definition sftp_block_path :: "uuid_ops \<Rightarrow> file_path \<Rightarrow> uuid \<Rightarrow> file_path" where
  "sftp_block_path U path i = path @ [BLOCKS_DIRECTORY, take 2 (u_simple U i), u_simple U i]"

definition sftp_staging_path :: "uuid_ops \<Rightarrow> file_path \<Rightarrow> uuid \<Rightarrow> file_path" where
  "sftp_staging_path U path i = path @ [STAGING_DIRECTORY, u_simple U i]"

fun unlink_all :: "('w, 'h) sftp_ops \<Rightarrow> file_path list \<Rightarrow> 'w \<Rightarrow> unit attempt \<times> 'w" where
  "unlink_all F [] w = (Done (), w)"
| "unlink_all F (p # ps) w = tryC (sf_unlink F p) (\<lambda>_. unlink_all F ps) w"

definition sftp_write_block ::
  "('w, 'h) sftp_ops \<Rightarrow> uuid_ops \<Rightarrow> (io_error \<Rightarrow> string) \<Rightarrow> file_path \<Rightarrow> uuid \<Rightarrow> bytes \<Rightarrow> 'w \<Rightarrow> unit attempt \<times> 'w" where
  "sftp_write_block F U T path i data w =
    (let parent = butlast (sftp_block_path U path i);
         write = tryC (sf_create F (sftp_staging_path U path i)) (\<lambda>staging_file.
           tryA T (sf_write_all F staging_file data) (\<lambda>_.
           tryC (sf_rename F (sftp_staging_path U path i) (sftp_block_path U path i)) (\<lambda>_.
           tryC (sf_readdir F (path @ [STAGING_DIRECTORY])) (unlink_all F)))) in
     case sftp_exists F parent w of
       (True, w) \<Rightarrow> write w
     | (False, w) \<Rightarrow> tryC (sf_mkdir F parent 493) (\<lambda>_. write) w)"

definition sftp_read_block ::
  "('w, 'h) sftp_ops \<Rightarrow> uuid_ops \<Rightarrow> (io_error \<Rightarrow> string) \<Rightarrow> file_path \<Rightarrow> uuid \<Rightarrow> 'w \<Rightarrow> bytes option attempt \<times> 'w" where
  "sftp_read_block F U T path i w = (case sftp_exists F (sftp_block_path U path i) w of
      (False, w) \<Rightarrow> (Done None, w)
    | (True, w) \<Rightarrow>
        tryC (sf_open F (sftp_block_path U path i)) (\<lambda>file.
        tryC (sf_file_size F file) (\<lambda>_.
        tryA T (sf_read_to_end F file) (\<lambda>buffer w. (Done (Some buffer), w)))) w)"

definition sftp_remove_block :: "('w, 'h) sftp_ops \<Rightarrow> uuid_ops \<Rightarrow> file_path \<Rightarrow> uuid \<Rightarrow> 'w \<Rightarrow> unit attempt \<times> 'w" where
  "sftp_remove_block F U path i w = (case sftp_exists F (sftp_block_path U path i) w of
      (False, w) \<Rightarrow> (Done (), w)
    | (True, w) \<Rightarrow> tryC (sf_unlink F (sftp_block_path U path i)) (\<lambda>_ w. (Done (), w)) w)"

fun parse_names :: "uuid_ops \<Rightarrow> file_path list \<Rightarrow> uuid list attempt" where
  "parse_names U [] = Done []"
| "parse_names U (p # ps) = (case u_parse U (last p) of
      None \<Rightarrow> Crashed ''Block file name is invalid.''
    | Some i \<Rightarrow> (case parse_names U ps of Done is \<Rightarrow> Done (i # is) | r \<Rightarrow> r))"

fun sftp_list_directories ::
  "('w, 'h) sftp_ops \<Rightarrow> uuid_ops \<Rightarrow> file_path list \<Rightarrow> uuid list \<Rightarrow> 'w \<Rightarrow> uuid list attempt \<times> 'w" where
  "sftp_list_directories F U [] block_ids w = (Done block_ids, w)"
| "sftp_list_directories F U (d # ds) block_ids w =
     tryC (sf_readdir F d) (\<lambda>paths. bindA (\<lambda>w. (parse_names U paths, w))
       (\<lambda>is. sftp_list_directories F U ds (block_ids @ is))) w"

definition sftp_list_blocks :: "('w, 'h) sftp_ops \<Rightarrow> uuid_ops \<Rightarrow> file_path \<Rightarrow> 'w \<Rightarrow> uuid list attempt \<times> 'w" where
  "sftp_list_blocks F U path =
     tryC (sf_readdir F (path @ [BLOCKS_DIRECTORY])) (\<lambda>dirs. sftp_list_directories F U dirs [])"

definition sftp_store ::
  "('w, 'h) sftp_ops \<Rightarrow> uuid_ops \<Rightarrow> (io_error \<Rightarrow> string) \<Rightarrow> file_path \<Rightarrow> 'w data_store_ops" where
  "sftp_store F U T path = \<lparr>ds_write_block = sftp_write_block F U T path, ds_read_block = sftp_read_block F U T path,
     ds_remove_block = sftp_remove_block F U path, ds_list_blocks = sftp_list_blocks F U path\<rparr>"

section \<open>RcloneStore\<close>

text \<open>The process and the network: a free port, a random character, starting rclone, connecting to a port, killing.\<close>

record ('w, 'c) rclone_ops =
  rc_ephemeral_port :: "('w, nat) io_op"
  rc_sample :: "'w \<Rightarrow> char \<times> 'w"
  rc_spawn :: "string \<Rightarrow> string list \<Rightarrow> ('w, 'c) io_op"
  rc_connect :: "nat \<Rightarrow> ('w, unit) io_op"
  rc_kill :: "'c \<Rightarrow> 'w \<Rightarrow> 'w"

fun generate_password :: "('w, 'c) rclone_ops \<Rightarrow> nat \<Rightarrow> 'w \<Rightarrow> string \<times> 'w" where
  "generate_password R 0 w = ([], w)"
| "generate_password R (Suc n) w = (case rc_sample R w of (c, w) \<Rightarrow>
     case generate_password R n w of (cs, w) \<Rightarrow> (c # cs, w))"

definition PASSWORD_LENGTH :: nat where
  "PASSWORD_LENGTH = 30"

definition SSH_USERNAME :: string where
  "SSH_USERNAME = ''rclone''"

definition serve :: "('w, 'c) rclone_ops \<Rightarrow> nat \<Rightarrow> string \<Rightarrow> string \<Rightarrow> ('w, 'c) io_op" where
  "serve R port password config = rc_spawn R ''rclone''
     [''serve'', ''sftp'', ''--vfs-cache-mode'', ''writes'', ''--addr'', ''localhost:'' @ decimal port,
      ''--user'', SSH_USERNAME, ''--pass'', password, config]"

text \<open>The loop ends when a connection is accepted or fails for another reason than being refused.\<close>

partial_function (option) wait_for_connection ::
  "('w, 'c) rclone_ops \<Rightarrow> nat \<Rightarrow> 'w \<Rightarrow> ((io_error + unit) \<times> 'w) option" where
  "wait_for_connection R port w = (case rc_connect R port w of
      (Inr _, v) \<Rightarrow> Some (Inr (), v)
    | (Inl e, v) \<Rightarrow> if error_kind e = ConnectionRefused then wait_for_connection R port v else Some (Inl e, v))"

definition wait_op :: "('w, 'c) rclone_ops \<Rightarrow> nat \<Rightarrow> ('w, unit) op" where
  "wait_op R port w = (case wait_for_connection R port w of
      Some (x, v) \<Rightarrow> (io_result x, v)
    | None \<Rightarrow> (Diverge, w))"

text \<open>An \<^verbatim>\<open>RcloneStore\<close> is an \<^verbatim>\<open>SftpStore\<close> at the empty path and the server process.\<close>

definition rclone_open_store ::
  "('w, 'c) rclone_ops \<Rightarrow> ('w, 'h) sftp_ops \<Rightarrow> ('w, nat, 'k) ssh_ops \<Rightarrow> string \<Rightarrow> ('w, file_path \<times> 'c) op" where
  "rclone_open_store R F H config =
     bindR (io_call (rc_ephemeral_port R)) (\<lambda>port w.
     case generate_password R PASSWORD_LENGTH w of (password, w) \<Rightarrow>
     bindR (io_call (serve R port password config)) (\<lambda>server_process.
     bindR (wait_op R port) (\<lambda>_.
     bindR (sftp_open_store F H \<lparr>sc_addr = port, sc_auth = PasswordAuth SSH_USERNAME password, sc_path = []\<rparr>) (\<lambda>path.
       ret (path, server_process)))) w)"

definition rclone_write_block ::
  "('w, 'h) sftp_ops \<Rightarrow> uuid_ops \<Rightarrow> (io_error \<Rightarrow> string) \<Rightarrow> file_path \<times> 'c \<Rightarrow> uuid \<Rightarrow> bytes \<Rightarrow> 'w \<Rightarrow> unit attempt \<times> 'w" where
  "rclone_write_block F U T st = sftp_write_block F U T (fst st)"

definition rclone_read_block ::
  "('w, 'h) sftp_ops \<Rightarrow> uuid_ops \<Rightarrow> (io_error \<Rightarrow> string) \<Rightarrow> file_path \<times> 'c \<Rightarrow> uuid \<Rightarrow> 'w \<Rightarrow> bytes option attempt \<times> 'w" where
  "rclone_read_block F U T st = sftp_read_block F U T (fst st)"

definition rclone_remove_block :: "('w, 'h) sftp_ops \<Rightarrow> uuid_ops \<Rightarrow> file_path \<times> 'c \<Rightarrow> uuid \<Rightarrow> 'w \<Rightarrow> unit attempt \<times> 'w" where
  "rclone_remove_block F U st = sftp_remove_block F U (fst st)"

definition rclone_list_blocks :: "('w, 'h) sftp_ops \<Rightarrow> uuid_ops \<Rightarrow> file_path \<times> 'c \<Rightarrow> 'w \<Rightarrow> uuid list attempt \<times> 'w" where
  "rclone_list_blocks F U st = sftp_list_blocks F U (fst st)"

definition rclone_drop :: "('w, 'c) rclone_ops \<Rightarrow> file_path \<times> 'c \<Rightarrow> 'w \<Rightarrow> 'w" where
  "rclone_drop R st = rc_kill R (snd st)"

end
