(* ===== verification/Store_Services.thy ===== *)
theory Store_Services
  imports Store_Remote "HOL-Library.Sublist"
begin

text \<open>
  The data stores in a Redis server, an SQLite database and an S3 bucket (\<^verbatim>\<open>src/src/store/redis_store.rs\<close>,
  \<^verbatim>\<open>sqlite_store.rs\<close>, \<^verbatim>\<open>s3_store.rs\<close>).
\<close>

text \<open>\<^verbatim>\<open>str::trim_start_matches\<close> removes a prefix as often as it is there.\<close>

function trim_start_matches :: "string \<Rightarrow> string \<Rightarrow> string" where
  "trim_start_matches p s =
    (if p \<noteq> [] \<and> prefix p s then trim_start_matches p (drop (length p) s) else s)"
  by pat_completeness auto

termination
  by (relation "measure (length \<circ> snd)") (auto elim!: prefixE)

declare trim_start_matches.simps [simp del]

section \<open>RedisStore\<close>

datatype redis_addr = RedisTcp string nat | RedisUnix string

record redis_config =
  rcfg_addr :: redis_addr
  rcfg_db :: int
  rcfg_username :: "string option"
  rcfg_password :: "string option"

datatype connection_addr = TcpAddr string nat | TcpTlsAddr string nat bool | UnixAddr string

record connection_info =
  ci_addr :: connection_addr
  ci_db :: int
  ci_username :: "string option"
  ci_passwd :: "string option"

text \<open>The client of the crate \<^verbatim>\<open>redis\<close> and the server it talks to.\<close>

record 'w redis_ops =
  rd_parse_url :: "string \<Rightarrow> connection_info option"
  rd_client_open :: "connection_info \<Rightarrow> ('w, unit) call"
  rd_get_connection :: "('w, unit) call"
  rd_get :: "string \<Rightarrow> ('w, bytes option) call"
  rd_get_string :: "string \<Rightarrow> ('w, string option) call"
  rd_set :: "string \<Rightarrow> bytes \<Rightarrow> ('w, unit) call"
  rd_del :: "string \<Rightarrow> ('w, unit) call"
  rd_keys :: "string \<Rightarrow> ('w, string list) call"

definition REDIS_VERSION :: string where
  "REDIS_VERSION = ''b733bd82-4206-11ea-a3dc-7354076bdaf9''"

definition from_url :: "'w redis_ops \<Rightarrow> string \<Rightarrow> redis_config option" where
  "from_url R url = (case rd_parse_url R url of
      None \<Rightarrow> None
    | Some info \<Rightarrow> Some \<lparr>rcfg_addr = (case ci_addr info of
          TcpAddr host port \<Rightarrow> RedisTcp host port
        | TcpTlsAddr host port _ \<Rightarrow> RedisTcp host port
        | UnixAddr path \<Rightarrow> RedisUnix path),
        rcfg_db = ci_db info, rcfg_username = ci_username info, rcfg_password = ci_passwd info\<rparr>)"

definition from_connection_info :: "'w redis_ops \<Rightarrow> connection_info \<Rightarrow> ('w, unit) op" where
  "from_connection_info R info =
     bindR (store_call (rd_client_open R info)) (\<lambda>_.
     bindR (store_call (rd_get_connection R)) (\<lambda>_.
     bindR (store_call (rd_get_string R ''version'')) (\<lambda>version_response.
       case version_response of
         Some version \<Rightarrow> if version \<noteq> REDIS_VERSION then throw UnsupportedStore else ret ()
       | None \<Rightarrow> store_call (rd_set R ''version'' (bytes_of REDIS_VERSION)))))"

definition redis_open_store :: "'w redis_ops \<Rightarrow> redis_config \<Rightarrow> ('w, unit) op" where
  "redis_open_store R c = from_connection_info R
     \<lparr>ci_addr = (case rcfg_addr c of RedisTcp host port \<Rightarrow> TcpAddr host port | RedisUnix path \<Rightarrow> UnixAddr path),
      ci_db = rcfg_db c, ci_username = rcfg_username c, ci_passwd = rcfg_password c\<rparr>"

definition redis_key :: "uuid_ops \<Rightarrow> uuid \<Rightarrow> string" where
  "redis_key U i = ''block:'' @ u_hyphenated U i"

definition redis_write_block :: "'w redis_ops \<Rightarrow> uuid_ops \<Rightarrow> uuid \<Rightarrow> bytes \<Rightarrow> 'w \<Rightarrow> unit attempt \<times> 'w" where
  "redis_write_block R U i data = tryC (rd_set R (redis_key U i) data) (\<lambda>_ w. (Done (), w))"

definition redis_read_block :: "'w redis_ops \<Rightarrow> uuid_ops \<Rightarrow> uuid \<Rightarrow> 'w \<Rightarrow> bytes option attempt \<times> 'w" where
  "redis_read_block R U i = tryC (rd_get R (redis_key U i)) (\<lambda>x w. (Done x, w))"

definition redis_remove_block :: "'w redis_ops \<Rightarrow> uuid_ops \<Rightarrow> uuid \<Rightarrow> 'w \<Rightarrow> unit attempt \<times> 'w" where
  "redis_remove_block R U i = tryC (rd_del R (redis_key U i)) (\<lambda>_ w. (Done (), w))"

fun parse_keys :: "uuid_ops \<Rightarrow> string \<Rightarrow> string list \<Rightarrow> uuid list attempt" where
  "parse_keys U pre [] = Done []"
| "parse_keys U pre (k # ks) = (case u_parse U (trim_start_matches pre k) of
      None \<Rightarrow> Crashed ''Could not parse UUID.''
    | Some i \<Rightarrow> (case parse_keys U pre ks of Done is \<Rightarrow> Done (i # is) | r \<Rightarrow> r))"

definition redis_list_blocks :: "'w redis_ops \<Rightarrow> uuid_ops \<Rightarrow> 'w \<Rightarrow> uuid list attempt \<times> 'w" where
  "redis_list_blocks R U = tryC (rd_keys R ''block:*'') (\<lambda>ks w. (parse_keys U ''block:'' ks, w))"

definition redis_store :: "'w redis_ops \<Rightarrow> uuid_ops \<Rightarrow> 'w data_store_ops" where
  "redis_store R U = \<lparr>ds_write_block = redis_write_block R U, ds_read_block = redis_read_block R U,
     ds_remove_block = redis_remove_block R U, ds_list_blocks = redis_list_blocks R U\<rparr>"

section \<open>SqliteStore\<close>

text \<open>The connection of the crate \<^verbatim>\<open>rusqlite\<close>: statements with blobs as parameters, rows with one blob each.\<close>

record 'w sqlite_ops =
  sq_open :: "string \<Rightarrow> ('w, unit) call"
  sq_execute_batch :: "string \<Rightarrow> ('w, unit) call"
  sq_execute :: "string \<Rightarrow> bytes list \<Rightarrow> ('w, nat) call"
  sq_query_optional :: "string \<Rightarrow> bytes list \<Rightarrow> ('w, bytes option) call"
  sq_prepare :: "string \<Rightarrow> ('w, unit) call"
  sq_query_map :: "string \<Rightarrow> bytes list \<Rightarrow> ('w, (string + bytes) list) call"

definition SQLITE_VERSION :: uuid where
  "SQLITE_VERSION = 0x08d14eb8415611ea8ec7a31cc3dfe2e4"

definition CREATE_TABLES :: string where
  "CREATE_TABLES = ''CREATE TABLE IF NOT EXISTS Blocks (uuid BLOB PRIMARY KEY, data BLOB NOT NULL); '' @
     ''CREATE TABLE IF NOT EXISTS Metadata (key TEXT PRIMARY KEY, value BLOB NOT NULL);''"

definition SELECT_VERSION :: string where
  "SELECT_VERSION = ''SELECT value FROM Metadata WHERE key = 'version';''"

definition INSERT_VERSION :: string where
  "INSERT_VERSION = ''INSERT INTO Metadata (key, value) VALUES ('version', ?1);''"

definition REPLACE_BLOCK :: string where
  "REPLACE_BLOCK = ''REPLACE INTO Blocks (uuid, data) VALUES (?1, ?2);''"

definition SELECT_BLOCK :: string where
  "SELECT_BLOCK = ''SELECT data FROM Blocks WHERE uuid = ?1;''"

definition DELETE_BLOCK :: string where
  "DELETE_BLOCK = ''DELETE FROM Blocks WHERE uuid = ?1;''"

definition SELECT_IDS :: string where
  "SELECT_IDS = ''SELECT uuid FROM Blocks;''"

definition check_version :: "uuid_ops \<Rightarrow> uuid \<Rightarrow> bytes \<Rightarrow> ('w, unit) op" where
  "check_version U current b = (case u_from_slice U b of
      None \<Rightarrow> throw UnsupportedStore
    | Some version \<Rightarrow> if version \<noteq> current then throw UnsupportedStore else ret ())"

definition sqlite_open_store :: "'w sqlite_ops \<Rightarrow> uuid_ops \<Rightarrow> string \<Rightarrow> ('w, unit) op" where
  "sqlite_open_store Q U path =
     bindR (store_call (sq_open Q path)) (\<lambda>_.
     bindR (store_call (sq_execute_batch Q CREATE_TABLES)) (\<lambda>_.
     bindR (store_call (sq_query_optional Q SELECT_VERSION [])) (\<lambda>version_bytes.
       case version_bytes of
         Some b \<Rightarrow> check_version U SQLITE_VERSION b
       | None \<Rightarrow> bindR (store_call (sq_execute Q INSERT_VERSION [u_bytes U SQLITE_VERSION])) (\<lambda>_. ret ()))))"

definition sqlite_write_block :: "'w sqlite_ops \<Rightarrow> uuid_ops \<Rightarrow> uuid \<Rightarrow> bytes \<Rightarrow> 'w \<Rightarrow> unit attempt \<times> 'w" where
  "sqlite_write_block Q U i data = tryC (sq_execute Q REPLACE_BLOCK [u_bytes U i, data]) (\<lambda>_ w. (Done (), w))"

definition sqlite_read_block :: "'w sqlite_ops \<Rightarrow> uuid_ops \<Rightarrow> uuid \<Rightarrow> 'w \<Rightarrow> bytes option attempt \<times> 'w" where
  "sqlite_read_block Q U i = tryC (sq_query_optional Q SELECT_BLOCK [u_bytes U i]) (\<lambda>x w. (Done x, w))"

definition sqlite_remove_block :: "'w sqlite_ops \<Rightarrow> uuid_ops \<Rightarrow> uuid \<Rightarrow> 'w \<Rightarrow> unit attempt \<times> 'w" where
  "sqlite_remove_block Q U i = tryC (sq_execute Q DELETE_BLOCK [u_bytes U i]) (\<lambda>_ w. (Done (), w))"

text \<open>Collecting the rows stops at the first row that cannot be read.\<close>

fun collect_ids :: "uuid_ops \<Rightarrow> (string + bytes) list \<Rightarrow> uuid list attempt" where
  "collect_ids U [] = Done []"
| "collect_ids U (Inl e # rows) = Failed e"
| "collect_ids U (Inr b # rows) = (case u_from_slice U b of
      None \<Rightarrow> Crashed ''Could not parse UUID.''
    | Some i \<Rightarrow> (case collect_ids U rows of Done is \<Rightarrow> Done (i # is) | r \<Rightarrow> r))"

definition sqlite_list_blocks :: "'w sqlite_ops \<Rightarrow> uuid_ops \<Rightarrow> 'w \<Rightarrow> uuid list attempt \<times> 'w" where
  "sqlite_list_blocks Q U = tryC (sq_prepare Q SELECT_IDS) (\<lambda>_.
     tryC (sq_query_map Q SELECT_IDS []) (\<lambda>rows w. (collect_ids U rows, w)))"

definition sqlite_store :: "'w sqlite_ops \<Rightarrow> uuid_ops \<Rightarrow> 'w data_store_ops" where
  "sqlite_store Q U = \<lparr>ds_write_block = sqlite_write_block Q U, ds_read_block = sqlite_read_block Q U,
     ds_remove_block = sqlite_remove_block Q U, ds_list_blocks = sqlite_list_blocks Q U\<rparr>"

section \<open>S3Store\<close>

datatype s3_region =
    UsEast1 | UsEast2 | UsWest1 | UsWest2 | AfSouth1 | ApEast1
  | ApSouth1 | ApNortheast1 | ApNortheast2 | ApNortheast3 | ApSoutheast1 | ApSoutheast2
  | CaCentral1 | CnNorth1 | CnNorthwest1 | EuCentral1 | EuWest1 | EuWest2
  | EuWest3 | EuSouth1 | EuNorth1 | MeSouth1 | SaEast1
  | CustomRegion string string

definition from_name :: "string \<Rightarrow> s3_region option" where
  "from_name name =
    (if name = ''us-east-1'' then Some UsEast1
     else if name = ''us-east-2'' then Some UsEast2
     else if name = ''us-west-1'' then Some UsWest1
     else if name = ''us-west-2'' then Some UsWest2
     else if name = ''af-south-1'' then Some AfSouth1
     else if name = ''ap-east-1'' then Some ApEast1
     else if name = ''ap-south-1'' then Some ApSouth1
     else if name = ''ap-northeast-1'' then Some ApNortheast1
     else if name = ''ap-northeast-2'' then Some ApNortheast2
     else if name = ''ap-northeast-3'' then Some ApNortheast3
     else if name = ''ap-southeast-1'' then Some ApSoutheast1
     else if name = ''ap-southeast-2'' then Some ApSoutheast2
     else if name = ''ca-central-1'' then Some CaCentral1
     else if name = ''cn-north-1'' then Some CnNorth1
     else if name = ''cn-northwest-1'' then Some CnNorthwest1
     else if name = ''eu-central-1'' then Some EuCentral1
     else if name = ''eu-west-1'' then Some EuWest1
     else if name = ''eu-west-2'' then Some EuWest2
     else if name = ''eu-west-3'' then Some EuWest3
     else if name = ''eu-south-1'' then Some EuSouth1
     else if name = ''eu-north-1'' then Some EuNorth1
     else if name = ''me-south-1'' then Some MeSouth1
     else if name = ''sa-east-1'' then Some SaEast1
     else None)"

primrec region_name :: "s3_region \<Rightarrow> string" where
  "region_name UsEast1 = ''us-east-1''"
| "region_name UsEast2 = ''us-east-2''"
| "region_name UsWest1 = ''us-west-1''"
| "region_name UsWest2 = ''us-west-2''"
| "region_name AfSouth1 = ''af-south-1''"
| "region_name ApEast1 = ''ap-east-1''"
| "region_name ApSouth1 = ''ap-south-1''"
| "region_name ApNortheast1 = ''ap-northeast-1''"
| "region_name ApNortheast2 = ''ap-northeast-2''"
| "region_name ApNortheast3 = ''ap-northeast-3''"
| "region_name ApSoutheast1 = ''ap-southeast-1''"
| "region_name ApSoutheast2 = ''ap-southeast-2''"
| "region_name CaCentral1 = ''ca-central-1''"
| "region_name CnNorth1 = ''cn-north-1''"
| "region_name CnNorthwest1 = ''cn-northwest-1''"
| "region_name EuCentral1 = ''eu-central-1''"
| "region_name EuWest1 = ''eu-west-1''"
| "region_name EuWest2 = ''eu-west-2''"
| "region_name EuWest3 = ''eu-west-3''"
| "region_name EuSouth1 = ''eu-south-1''"
| "region_name EuNorth1 = ''eu-north-1''"
| "region_name MeSouth1 = ''me-south-1''"
| "region_name SaEast1 = ''sa-east-1''"
| "region_name (CustomRegion name endpoint) = name"

primrec region_endpoint :: "s3_region \<Rightarrow> string" where
  "region_endpoint UsEast1 = ''https://s3.us-east-1.amazonaws.com''"
| "region_endpoint UsEast2 = ''https://s3.us-east-2.amazonaws.com''"
| "region_endpoint UsWest1 = ''https://s3.us-west-1.amazonaws.com''"
| "region_endpoint UsWest2 = ''https://s3.us-west-2.amazonaws.com''"
| "region_endpoint AfSouth1 = ''https://s3.af-south-1.amazonaws.com''"
| "region_endpoint ApEast1 = ''https://s3.ap-east-1.amazonaws.com''"
| "region_endpoint ApSouth1 = ''https://s3.ap-south-1.amazonaws.com''"
| "region_endpoint ApNortheast1 = ''https://s3.ap-northeast-1.amazonaws.com''"
| "region_endpoint ApNortheast2 = ''https://s3.ap-northeast-2.amazonaws.com''"
| "region_endpoint ApNortheast3 = ''https://s3.ap-northeast-3.amazonaws.com''"
| "region_endpoint ApSoutheast1 = ''https://s3.ap-southeast-1.amazonaws.com''"
| "region_endpoint ApSoutheast2 = ''https://s3.ap-southeast-2.amazonaws.com''"
| "region_endpoint CaCentral1 = ''https://s3.ca-central-1.amazonaws.com''"
| "region_endpoint CnNorth1 = ''https://s3.cn-north-1.amazonaws.com''"
| "region_endpoint CnNorthwest1 = ''https://s3.cn-northwest-1.amazonaws.com''"
| "region_endpoint EuCentral1 = ''https://s3.eu-central-1.amazonaws.com''"
| "region_endpoint EuWest1 = ''https://s3.eu-west-1.amazonaws.com''"
| "region_endpoint EuWest2 = ''https://s3.eu-west-2.amazonaws.com''"
| "region_endpoint EuWest3 = ''https://s3.eu-west-3.amazonaws.com''"
| "region_endpoint EuSouth1 = ''https://s3.eu-south-1.amazonaws.com''"
| "region_endpoint EuNorth1 = ''https://s3.eu-north-1.amazonaws.com''"
| "region_endpoint MeSouth1 = ''https://s3.me-south-1.amazonaws.com''"
| "region_endpoint SaEast1 = ''https://s3.sa-east-1.amazonaws.com''"
| "region_endpoint (CustomRegion name endpoint) = endpoint"

datatype s3_credentials =
    AnonymousCreds
  | BasicCreds string string
  | SessionCreds string string string

text \<open>The credentials of the crate \<^verbatim>\<open>rust-s3\<close>.\<close>

record credentials =
  cr_access_key :: "string option"
  cr_secret_key :: "string option"
  cr_security_token :: "string option"
  cr_session_token :: "string option"

definition some_credentials :: "string option \<Rightarrow> string option \<Rightarrow> string option \<Rightarrow> s3_credentials option" where
  "some_credentials access_key secret_key session_token = (case (access_key, secret_key) of
      (Some a, Some k) \<Rightarrow> Some (case session_token of Some t \<Rightarrow> SessionCreds a k t | None \<Rightarrow> BasicCreds a k)
    | _ \<Rightarrow> None)"

definition from_env :: "(string \<Rightarrow> string option) \<Rightarrow> s3_credentials option" where
  "from_env var = some_credentials (var ''AWS_ACCESS_KEY_ID'') (var ''AWS_SECRET_ACCESS_KEY'') (var ''AWS_SESSION_TOKEN'')"

definition from_profile :: "(string \<Rightarrow> credentials option) \<Rightarrow> string \<Rightarrow> s3_credentials option" where
  "from_profile profile name = (case profile name of
      None \<Rightarrow> None
    | Some c \<Rightarrow> some_credentials (cr_access_key c) (cr_secret_key c) (cr_session_token c))"

record s3_config =
  s3c_bucket :: string
  s3c_region :: s3_region
  s3c_credentials :: s3_credentials
  s3c_prefix :: string

text \<open>
  A bucket of the crate \<^verbatim>\<open>rust-s3\<close>: a call that gets an answer returns the HTTP status, whatever it is, and fails only
  without an answer.  The asynchronous runtime the calls need may be refused.
\<close>

record ('w, 'b) s3_ops =
  s3_anonymous :: "credentials option"
  s3_bucket_new :: "string \<Rightarrow> string \<Rightarrow> string \<Rightarrow> credentials \<Rightarrow> 'b option"
  s3_runtime_new :: "'w \<Rightarrow> bool \<times> 'w"
  s3_get_object :: "'b \<Rightarrow> string \<Rightarrow> ('w, bytes \<times> nat) call"
  s3_put_object :: "'b \<Rightarrow> string \<Rightarrow> bytes \<Rightarrow> ('w, bytes \<times> nat) call"
  s3_delete_object :: "'b \<Rightarrow> string \<Rightarrow> ('w, bytes \<times> nat) call"
  s3_list :: "'b \<Rightarrow> string \<Rightarrow> ('w, string list list) call"

definition S3_VERSION :: uuid where
  "S3_VERSION = 0xa2b7bda845ea11eaad75afa592f123ef"

definition NOT_FOUND_CODE :: nat where
  "NOT_FOUND_CODE = 404"

definition SEPARATOR :: string where
  "SEPARATOR = ''/''"

definition join_key :: "string list \<Rightarrow> string" where
  "join_key segments = (let path = concat (map (\<lambda>x. x @ SEPARATOR) segments) in take (length path - length SEPARATOR) path)"

definition to_credentials :: "('w, 'b) s3_ops \<Rightarrow> s3_credentials \<Rightarrow> credentials option" where
  "to_credentials S c = (case c of
      AnonymousCreds \<Rightarrow> s3_anonymous S
    | BasicCreds a k \<Rightarrow> Some \<lparr>cr_access_key = Some a, cr_secret_key = Some k, cr_security_token = None, cr_session_token = None\<rparr>
    | SessionCreds a k t \<Rightarrow>
        Some \<lparr>cr_access_key = Some a, cr_secret_key = Some k, cr_security_token = None, cr_session_token = Some t\<rparr>)"

definition into_bucket :: "('w, 'b) s3_ops \<Rightarrow> s3_config \<Rightarrow> ('w, 'b) op" where
  "into_bucket S c =
     bindR (unwrap_option (to_credentials S (s3c_credentials c))) (\<lambda>credentials.
     unwrap_option (s3_bucket_new S (s3c_bucket c) (region_name (s3c_region c)) (region_endpoint (s3c_region c)) credentials))"

definition new_runtime :: "('w, 'b) s3_ops \<Rightarrow> ('w, unit) op" where
  "new_runtime S w = (case s3_runtime_new S w of
      (True, v) \<Rightarrow> (Ok (), v)
    | (False, v) \<Rightarrow> (Panic ''called `Result::unwrap()` on an `Err` value'', v))"

definition s3_open_store :: "('w, 'b) s3_ops \<Rightarrow> uuid_ops \<Rightarrow> s3_config \<Rightarrow> ('w, 'b \<times> string) op" where
  "s3_open_store S U c =
     bindR (into_bucket S c) (\<lambda>bucket.
     let pre = rev (dropWhile (\<lambda>x. x = CHR ''/'') (rev (s3c_prefix c)));
         version_key = join_key [pre, ''version''] in
     bindR (new_runtime S) (\<lambda>_.
     bindR (store_call (s3_get_object S bucket version_key)) (\<lambda>(version_bytes, code).
     bindR (if code = NOT_FOUND_CODE
        then bindR (store_call (s3_put_object S bucket version_key (u_bytes U S3_VERSION))) (\<lambda>_. ret ())
        else check_version U S3_VERSION version_bytes) (\<lambda>_. ret (bucket, pre)))))"

definition s3_block_path :: "uuid_ops \<Rightarrow> string \<Rightarrow> uuid \<Rightarrow> string" where
  "s3_block_path U pre i = join_key [pre, ''block'', u_hyphenated U i]"

definition with_runtime :: "('w, 'b) s3_ops \<Rightarrow> ('w \<Rightarrow> 'a attempt \<times> 'w) \<Rightarrow> 'w \<Rightarrow> 'a attempt \<times> 'w" where
  "with_runtime S m w = (case s3_runtime_new S w of
      (True, v) \<Rightarrow> m v
    | (False, v) \<Rightarrow> (Crashed ''called `Result::unwrap()` on an `Err` value'', v))"

definition s3_write_block :: "('w, 'b) s3_ops \<Rightarrow> uuid_ops \<Rightarrow> 'b \<Rightarrow> string \<Rightarrow> uuid \<Rightarrow> bytes \<Rightarrow> 'w \<Rightarrow> unit attempt \<times> 'w" where
  "s3_write_block S U bucket pre i data = with_runtime S
     (tryC (s3_put_object S bucket (s3_block_path U pre i) data) (\<lambda>_ w. (Done (), w)))"

definition s3_read_block :: "('w, 'b) s3_ops \<Rightarrow> uuid_ops \<Rightarrow> 'b \<Rightarrow> string \<Rightarrow> uuid \<Rightarrow> 'w \<Rightarrow> bytes option attempt \<times> 'w" where
  "s3_read_block S U bucket pre i = with_runtime S
     (tryC (s3_get_object S bucket (s3_block_path U pre i)) (\<lambda>(b, code) w.
        (Done (if code = NOT_FOUND_CODE then None else Some b), w)))"

definition s3_remove_block :: "('w, 'b) s3_ops \<Rightarrow> uuid_ops \<Rightarrow> 'b \<Rightarrow> string \<Rightarrow> uuid \<Rightarrow> 'w \<Rightarrow> unit attempt \<times> 'w" where
  "s3_remove_block S U bucket pre i = with_runtime S
     (tryC (s3_delete_object S bucket (s3_block_path U pre i)) (\<lambda>_ w. (Done (), w)))"

definition s3_list_blocks :: "('w, 'b) s3_ops \<Rightarrow> uuid_ops \<Rightarrow> 'b \<Rightarrow> string \<Rightarrow> 'w \<Rightarrow> uuid list attempt \<times> 'w" where
  "s3_list_blocks S U bucket pre = with_runtime S
     (let blocks_path = join_key [pre, ''block''] @ SEPARATOR in
      tryC (s3_list S bucket blocks_path) (\<lambda>lists w. (parse_keys U blocks_path (concat lists), w)))"

definition s3_store :: "('w, 'b) s3_ops \<Rightarrow> uuid_ops \<Rightarrow> 'b \<Rightarrow> string \<Rightarrow> 'w data_store_ops" where
  "s3_store S U bucket pre = \<lparr>ds_write_block = s3_write_block S U bucket pre, ds_read_block = s3_read_block S U bucket pre,
     ds_remove_block = s3_remove_block S U bucket pre, ds_list_blocks = s3_list_blocks S U bucket pre\<rparr>"

end
