(* ===== verification/Store_Contracts.thy ===== *)
theory Store_Contracts
  imports Store_Reliable Store_Services
begin

text \<open>
  The stores behind a service, each against what the documentation of the service says of the calls the store makes:
  an SFTP server (\<open>file_server\<close>), a Redis server (\<open>redis_server\<close>) and an SQLite database (\<open>sqlite_db\<close>).  The status of
  an answer of S3 is not looked at (\<open>s3_status_ignored\<close>), and opening an rclone store waits for as long as connections are
  refused (\<open>rclone_wait\<close>).
\<close>

section \<open>SFTP\<close>

locale file_server = file_calls files hpath "sf_create F" "sf_write_all F" "sf_rename F" "sf_unlink F"
  for F :: "('w, 'h) sftp_ops" and files :: "'w \<Rightarrow> file_path \<Rightarrow> bytes option" and hpath :: "'h \<Rightarrow> file_path" +
  assumes stat_frame: "sf_stat F p w = (r, v) \<Longrightarrow> files v = files w"
    and mkdir_frame: "sf_mkdir F p m w = (r', v) \<Longrightarrow> files v = files w"
    and readdir_frame: "sf_readdir F p w = (ps, v) \<Longrightarrow> files v = files w"
    and readdir_children: "sf_readdir F p w = (Inr qs, v) \<Longrightarrow> q \<in> set qs \<Longrightarrow> butlast q = p"
begin

lemma unlink_all_files: "unlink_all F ps w = (r, v) \<Longrightarrow> q \<notin> set ps \<Longrightarrow> files v q = files w q"
proof (induction ps arbitrary: w)
  case (Cons p ps)
  obtain x u where x: "sf_unlink F p w = (x, u)" by fastforce
  have "files u q = files w q" using x Cons.prems(2) remove_ok remove_err by (cases x) auto
  then show ?case using Cons x by (cases x) (auto simp: tryA_def)
qed simp

lemma clean_files:
  assumes "tryC (sf_readdir F p) (unlink_all F) w = (r, v)" and "butlast q \<noteq> p"
  shows "files v q = files w q"
proof (cases "sf_readdir F p w")
  case (Pair x u)
  have "q \<notin> set ps" if "x = Inr ps" for ps using readdir_children Pair that assms(2) by blast
  then show ?thesis using assms Pair readdir_frame [OF Pair] by (cases x) (auto simp: tryA_def dest: unlink_all_files)
qed

lemma write_atomic:
  assumes "uuid_text U" and "sftp_write_block F U T path i d w = (r, v)"
  shows "(\<forall>j. j \<noteq> i \<longrightarrow> files v (sftp_block_path U path j) = files w (sftp_block_path U path j)) \<and>
    (files v (sftp_block_path U path i) = files w (sftp_block_path U path i) \<and> r \<noteq> Done () \<or>
     files v (sftp_block_path U path i) = Some d)"
proof -
  let ?sp = "sftp_staging_path U path i" and ?bp = "sftp_block_path U path i" and ?st = "path @ [STAGING_DIRECTORY]"
  let ?run = "tryC (sf_create F ?sp) (\<lambda>h. tryA T (sf_write_all F h d) (\<lambda>_. tryC (sf_rename F ?sp ?bp) (\<lambda>_.
    tryC (sf_readdir F ?st) (unlink_all F))))"
  let ?A = "{q. butlast q = ?st}"
  have paths: "sftp_block_path U path j = block_path U path j" "?sp = staging_path U path i" for j
    by (simp_all add: sftp_block_path_def sftp_staging_path_def block_path_def staging_path_def)
  have ne: "?sp \<noteq> ?bp" "butlast ?bp \<noteq> ?st" using path_facts unfolding paths by blast+
  have atomic: ?thesis if run: "?run u = (r, v)" and u: "files u = files w" for u
  proof -
    have "(\<forall>q. q \<notin> insert ?sp (insert ?bp ?A) \<longrightarrow> files v q = files u q) \<and>
        (files v ?bp = files u ?bp \<and> r \<noteq> Done () \<or> files v ?bp = Some d)"
      by (rule staged_write [OF run]) (use clean_files ne in auto)
    moreover have "sftp_block_path U path j \<notin> insert ?sp (insert ?bp ?A)" if "j \<noteq> i" for j
      using path_facts uuid_text.block_path_inj [OF assms(1)] that unfolding paths by (metis insert_iff mem_Collect_eq)
    ultimately show ?thesis using u by simp
  qed
  obtain x u where x: "sf_stat F (butlast ?bp) w = (x, u)" by fastforce
  obtain y u' where y: "sf_mkdir F (butlast ?bp) 493 u = (y, u')" by fastforce
  have frames: "files u = files w" "files u' = files w" using stat_frame [OF x] mkdir_frame [OF y] by simp_all
  show ?thesis
  proof (cases x)
    case (Inr _)
    then have "?run u = (r, v)" using assms(2) x by (simp add: sftp_write_block_def sftp_exists_def Let_def)
    then show ?thesis using atomic frames by blast
  next
    case (Inl _)
    then have run: "tryC (sf_mkdir F (butlast ?bp) 493) (\<lambda>_. ?run) u = (r, v)"
      using assms(2) x by (simp add: sftp_write_block_def sftp_exists_def Let_def)
    then show ?thesis using atomic [of u'] frames y by (cases y) (auto simp: tryA_def)
  qed
qed

end

text \<open>A server on the modelled file system; \<open>T\<close> is the text of its errors.\<close>

definition as_call :: "(io_error \<Rightarrow> string) \<Rightarrow> ('w, 'a) io_op \<Rightarrow> ('w, 'a) call" where
  "as_call T m w = (case m w of (Inl e, v) \<Rightarrow> (Inl (T e), v) | (Inr x, v) \<Rightarrow> (Inr x, v))"

definition fs_server :: "(io_error \<Rightarrow> string) \<Rightarrow> (fs, file_path) sftp_ops" where
  "fs_server T = \<lparr>
     sf_stat = (\<lambda>p s. case std_exists p s of (True, t) \<Rightarrow> (Inr (), t) | (False, t) \<Rightarrow> (Inl ''no such file'', t)),
     sf_mkdir = (\<lambda>p _. as_call T (std_mkdir p)), sf_create = (\<lambda>p. as_call T (std_create p)),
     sf_open = (\<lambda>p. as_call T (std_open p)), sf_rename = (\<lambda>a b. as_call T (std_rename a b)),
     sf_readdir = (\<lambda>p. as_call T (std_read_dir p)), sf_unlink = (\<lambda>p. as_call T (std_remove_file p)),
     sf_file_size = (\<lambda>h. as_call T (\<lambda>s. case std_len h s of (Inr n, t) \<Rightarrow> (Inr (Some n), t) | (Inl e, t) \<Rightarrow> (Inl e, t))),
     sf_write_all = std_write_all, sf_read_to_end = std_read_to_end\<rparr>"

lemma as_callD:
  "as_call T m w = (Inr x, v) \<Longrightarrow> m w = (Inr x, v)"
  "as_call T m w = (Inl e, v) \<Longrightarrow> \<exists>e. m w = (Inl e, v)"
  "as_call T m w = (r, v) \<Longrightarrow> \<exists>r. m w = (r, v)"
  by (auto simp: as_call_def split: prod.splits sum.splits)

interpretation fs_served: file_server "fs_server T" fs_files "\<lambda>h. h" for T
proof
  show "sf_readdir (fs_server T) p w = (Inr qs, v) \<Longrightarrow> q \<in> set qs \<Longrightarrow> butlast q = p" for p w qs v q
    by (auto simp: fs_server_def std_read_dir_def sys_call_def Let_def children_def dest!: as_callD(1)
        split: option.splits fs_node.splits)
  show "sf_stat (fs_server T) p w = (r, v) \<Longrightarrow> fs_files v = fs_files w" for p w r v
    by (auto simp: fs_server_def split: prod.splits bool.splits dest: keeps_filesD [OF keeps_std(1)])
  show "sf_mkdir (fs_server T) p m w = (r', v) \<Longrightarrow> fs_files v = fs_files w" for p m w r' v
    by (auto simp: fs_server_def dest!: as_callD(3) dest: keeps_filesD [OF keeps_std(3)])
  show "sf_readdir (fs_server T) p w = (ps, v) \<Longrightarrow> fs_files v = fs_files w" for p w ps v
    by (auto simp: fs_server_def dest!: as_callD(3) dest: keeps_filesD [OF keeps_std(5)])
qed (auto simp: fs_server_def dest!: as_callD(1,2) dest: std.create_ok std.create_err std.write_frame std.write_ok
  std.rename_ok std.rename_err std.remove_ok std.remove_err)

section \<open>The contract of a store\<close>

section \<open>Calls of a store and what they may answer\<close>

text \<open>
  The calls of \<^verbatim>\<open>DataStore\<close>, one after the other, on a service that may fail at any of them.  The specification is a map of
  blocks: a call that returns has done what it says; a write or a removal that fails has been done or not,
  since the answer of a service may be lost after it has executed the call; and no call panics.
\<close>

datatype store_call = SWrite uuid bytes | SRead uuid | SRemove uuid | SList

datatype store_answer = AUnit "unit attempt" | ABlock "bytes option attempt" | AIds "uuid list attempt"

fun run_call :: "'s data_store_ops \<Rightarrow> store_call \<Rightarrow> 's \<Rightarrow> store_answer \<times> 's" where
  "run_call D (SWrite i d) s = map_prod AUnit id (ds_write_block D i d s)"
| "run_call D (SRead i) s = map_prod ABlock id (ds_read_block D i s)"
| "run_call D (SRemove i) s = map_prod AUnit id (ds_remove_block D i s)"
| "run_call D SList s = map_prod AIds id (ds_list_blocks D s)"

fun run_calls :: "'s data_store_ops \<Rightarrow> store_call list \<Rightarrow> 's \<Rightarrow> store_answer list \<times> 's" where
  "run_calls D [] s = ([], s)"
| "run_calls D (c # cs) s = (let (r, t) = run_call D c s; (rs, u) = run_calls D cs t in (r # rs, u))"

inductive block_step :: "(uuid \<rightharpoonup> bytes) \<Rightarrow> store_call \<Rightarrow> store_answer \<Rightarrow> (uuid \<rightharpoonup> bytes) \<Rightarrow> bool" where
  write_done: "block_step m (SWrite i d) (AUnit (Done ())) (m(i \<mapsto> d))"
| write_failed: "m' \<in> {m, m(i \<mapsto> d)} \<Longrightarrow> block_step m (SWrite i d) (AUnit (Failed e)) m'"
| read_done: "block_step m (SRead i) (ABlock (Done (m i))) m"
| read_failed: "block_step m (SRead i) (ABlock (Failed e)) m"
| remove_done: "block_step m (SRemove i) (AUnit (Done ())) (m(i := None))"
| remove_failed: "m' \<in> {m, m(i := None)} \<Longrightarrow> block_step m (SRemove i) (AUnit (Failed e)) m'"
| list_done: "set xs = dom m \<Longrightarrow> block_step m SList (AIds (Done xs)) m"
| list_failed: "block_step m SList (AIds (Failed e)) m"

inductive block_trace :: "(uuid \<rightharpoonup> bytes) \<Rightarrow> store_call list \<Rightarrow> store_answer list \<Rightarrow> (uuid \<rightharpoonup> bytes) \<Rightarrow> bool" where
  trace_nil: "block_trace m [] [] m"
| trace_cons: "block_step m c r m' \<Longrightarrow> block_trace m' cs rs m'' \<Longrightarrow> block_trace m (c # cs) (r # rs) m''"

text \<open>Every sequence of calls on a store, from a state with the invariant, is a trace of the specification.\<close>

definition store_refines :: "'s data_store_ops \<Rightarrow> ('s \<Rightarrow> uuid \<rightharpoonup> bytes) \<Rightarrow> ('s \<Rightarrow> bool) \<Rightarrow> bool" where
  "store_refines D blocks I \<longleftrightarrow> (\<forall>s cs. I s \<longrightarrow> (case run_calls D cs s of (rs, t) \<Rightarrow> I t \<and> block_trace (blocks s) cs rs (blocks t)))"

lemma store_refinesI:
  assumes step: "\<And>s c. I s \<Longrightarrow> I (snd (run_call D c s)) \<and> block_step (blocks s) c (fst (run_call D c s)) (blocks (snd (run_call D c s)))"
  shows "store_refines D blocks I"
proof -
  have "I s \<Longrightarrow> case run_calls D cs s of (rs, t) \<Rightarrow> I t \<and> block_trace (blocks s) cs rs (blocks t)" for s cs
  proof (induction cs arbitrary: s)
    case (Cons c cs)
    then show ?case using step [of s c] by (fastforce simp: Let_def split: prod.splits intro: trace_cons)
  qed (simp add: trace_nil)
  then show ?thesis by (simp add: store_refines_def)
qed

lemma store_refinesD:
  "store_refines D blocks I \<Longrightarrow> I s \<Longrightarrow> run_calls D cs s = (rs, t) \<Longrightarrow> I t \<and> block_trace (blocks s) cs rs (blocks t)"
  unfolding store_refines_def by (drule spec [of _ s], drule spec [of _ cs]) simp

text \<open>A step, by what the method answers.\<close>

fun returns :: "('a \<Rightarrow> bool) \<Rightarrow> ('s \<Rightarrow> uuid \<rightharpoonup> bytes) \<Rightarrow> ('s \<Rightarrow> bool) \<Rightarrow> (uuid \<rightharpoonup> bytes) \<Rightarrow> (uuid \<rightharpoonup> bytes) \<Rightarrow> 'a attempt \<times> 's \<Rightarrow> bool" where
  "returns P blocks I old new (Done x, t) \<longleftrightarrow> P x \<and> I t \<and> blocks t = new"
| "returns P blocks I old new (Failed e, t) \<longleftrightarrow> I t \<and> (blocks t = old \<or> blocks t = new)"
| "returns P blocks I old new (Crashed p, t) \<longleftrightarrow> False"

lemma returns_step:
  "returns (\<lambda>_. True) blocks I (blocks s) ((blocks s)(i \<mapsto> d)) (r1, t1) \<Longrightarrow> I t1 \<and> block_step (blocks s) (SWrite i d) (AUnit r1) (blocks t1)"
  "returns (\<lambda>x. x = blocks s i) blocks I (blocks s) (blocks s) (r2, t2) \<Longrightarrow> I t2 \<and> block_step (blocks s) (SRead i) (ABlock r2) (blocks t2)"
  "returns (\<lambda>_. True) blocks I (blocks s) ((blocks s)(i := None)) (r3, t3) \<Longrightarrow> I t3 \<and> block_step (blocks s) (SRemove i) (AUnit r3) (blocks t3)"
  "returns (\<lambda>xs. set xs = dom (blocks s)) blocks I (blocks s) (blocks s) (r4, t4) \<Longrightarrow> I t4 \<and> block_step (blocks s) SList (AIds r4) (blocks t4)"
  by ((cases r1; force intro: block_step.intros), (cases r2; force intro: block_step.intros),
    (cases r3; force intro: block_step.intros), (cases r4; force intro: block_step.intros))

lemma store_refines_returns:
  assumes "\<And>s i d. I s \<Longrightarrow>
     returns (\<lambda>_. True) blocks I (blocks s) ((blocks s)(i \<mapsto> d)) (ds_write_block D i d s) \<and>
     returns (\<lambda>x. x = blocks s i) blocks I (blocks s) (blocks s) (ds_read_block D i s) \<and>
     returns (\<lambda>_. True) blocks I (blocks s) ((blocks s)(i := None)) (ds_remove_block D i s) \<and>
     returns (\<lambda>xs. set xs = dom (blocks s)) blocks I (blocks s) (blocks s) (ds_list_blocks D s)"
  shows "store_refines D blocks I"
proof (rule store_refinesI)
  fix s c assume "I s"
  then show "I (snd (run_call D c s)) \<and> block_step (blocks s) c (fst (run_call D c s)) (blocks (snd (run_call D c s)))"
    using assms [of s] returns_step [where s = s and blocks = blocks and I = I]
    by (cases c) (simp_all add: map_prod_def split: prod.splits, metis+)
qed

lemma returns_try:
  assumes "\<And>x t. m s = (Inr x, t) \<Longrightarrow> returns P blocks I old new (f x t)"
    and "\<And>e t. m s = (Inl e, t) \<Longrightarrow> I t \<and> (blocks t = old \<or> blocks t = new)"
  shows "returns P blocks I old new (tryA T m f s)"
proof (cases "m s")
  case (Pair x t)
  then show ?thesis using assms by (cases x) (simp_all add: tryA_def)
qed

section \<open>Redis\<close>

text \<open>
  The commands the store sends.  A command that fails may have been executed, when the connection is lost before the answer has
  come, or not.
\<close>

locale redis_server =
  fixes R :: "'w redis_ops" and view :: "'w \<Rightarrow> string \<rightharpoonup> bytes"
  assumes get_ok: "rd_get R k w = (Inr x, v) \<Longrightarrow> x = view w k"
    and get_frame: "rd_get R k w = (r, v) \<Longrightarrow> view v = view w"
    and set_ok: "rd_set R k d w = (Inr (), v) \<Longrightarrow> view v = (view w)(k \<mapsto> d)"
    and set_err: "rd_set R k d w = (Inl e, v) \<Longrightarrow> view v = view w \<or> view v = (view w)(k \<mapsto> d)"
    and del_ok: "rd_del R k w = (Inr (), v) \<Longrightarrow> view v = (view w)(k := None)"
    and del_err: "rd_del R k w = (Inl e, v) \<Longrightarrow> view v = view w \<or> view v = (view w)(k := None)"
    and keys_frame: "rd_keys R p w = (r', v) \<Longrightarrow> view v = view w"
    and keys_ok: "rd_keys R (p @ ''*'') w = (Inr ks, v) \<Longrightarrow> set ks = {k \<in> dom (view w). prefix p k}"

definition redis_blocks :: "uuid_ops \<Rightarrow> ('w \<Rightarrow> string \<rightharpoonup> bytes) \<Rightarrow> 'w \<Rightarrow> uuid \<rightharpoonup> bytes" where
  "redis_blocks U view w i = view w (redis_key U i)"

text \<open>All keys of blocks are of the store: no other program writes such keys.\<close>

definition redis_inv :: "uuid_ops \<Rightarrow> ('w \<Rightarrow> string \<rightharpoonup> bytes) \<Rightarrow> 'w \<Rightarrow> bool" where
  "redis_inv U view w \<longleftrightarrow> (\<forall>k \<in> dom (view w). prefix ''block:'' k \<longrightarrow> k \<in> range (redis_key U))"

lemma trim_once: "p \<noteq> [] \<Longrightarrow> \<not> prefix p s \<Longrightarrow> trim_start_matches p (p @ s) = s"
  by (subst trim_start_matches.simps, subst trim_start_matches.simps) simp

lemma parse_keys_ok:
  assumes "\<And>k. k \<in> set ks \<Longrightarrow> u_parse U (trim_start_matches pre k) \<noteq> None"
  shows "parse_keys U pre ks = Done (map (\<lambda>k. the (u_parse U (trim_start_matches pre k))) ks)"
  using assms by (induction ks) force+

context uuid_text
begin

lemma redis_key_inj: "redis_key U i = redis_key U j \<longleftrightarrow> i = j"
  by (simp add: redis_key_def hyphenated_inj)

lemma redis_key_parse: "u_parse U (trim_start_matches ''block:'' (redis_key U i)) = Some i"
proof -
  have "\<not> prefix ''block:'' (u_hyphenated U i)"
  proof
    assume "prefix ''block:'' (u_hyphenated U i)"
    then have "CHR ''l'' \<in> set (u_hyphenated U i)" by (auto simp: prefix_def)
    then show False using hyphenated_chars [of i] by auto
  qed
  then have "trim_start_matches ''block:'' (redis_key U i) = u_hyphenated U i"
    unfolding redis_key_def by (intro trim_once) simp_all
  then show ?thesis by (simp add: parse_hyphenated)
qed

end

context redis_server
begin

lemma redis_listing:
  assumes "uuid_text U" and inv: "redis_inv U view w" and keys: "rd_keys R ''block:*'' w = (Inr ks, v)"
  shows "\<exists>xs. parse_keys U ''block:'' ks = Done xs \<and> set xs = dom (redis_blocks U view w)"
proof -
  let ?id = "\<lambda>k. the (u_parse U (trim_start_matches ''block:'' k))"
  note parse = uuid_text.redis_key_parse [OF assms(1)]
  have ks: "set ks = {k \<in> dom (view w). prefix ''block:'' k}" using keys_ok [of "''block:''" w ks v] keys by simp
  have own: "\<exists>i. k = redis_key U i" if "k \<in> set ks" for k using that inv unfolding ks redis_inv_def by blast
  have "parse_keys U ''block:'' ks = Done (map ?id ks)" using own parse by (intro parse_keys_ok) force
  moreover have "?id ` set ks = dom (redis_blocks U view w)"
  proof (intro equalityI subsetI)
    fix j assume "j \<in> ?id ` set ks"
    then obtain k where k: "k \<in> set ks" "j = ?id k" by blast
    obtain i where "k = redis_key U i" using own [OF k(1)] by blast
    then show "j \<in> dom (redis_blocks U view w)" using k ks parse by (auto simp: redis_blocks_def)
  next
    fix j assume "j \<in> dom (redis_blocks U view w)"
    then have "redis_key U j \<in> set ks" unfolding ks by (auto simp: redis_blocks_def redis_key_def)
    then show "j \<in> ?id ` set ks" using parse [of j] by (metis image_eqI option.sel)
  qed
  ultimately show ?thesis by simp
qed

lemma redis_contract:
  assumes "uuid_text U"
  shows "store_refines (redis_store R U) (redis_blocks U view) (redis_inv U view)"
proof (intro store_refines_returns conjI)
  fix w i d assume inv: "redis_inv U view w"
  note U = uuid_text.redis_key_inj [OF assms] uuid_text.redis_key_parse [OF assms]
  have upd: "redis_inv U view v" "redis_blocks U view v = (redis_blocks U view w)(i := x)"
    if v: "view v = (view w)(redis_key U i := x)" for v x
  proof -
    have "k = redis_key U i \<or> k \<in> dom (view w)" if "k \<in> dom (view v)" for k using that v by (auto split: if_splits)
    then show "redis_inv U view v" using inv unfolding redis_inv_def by blast
    show "redis_blocks U view v = (redis_blocks U view w)(i := x)" by (simp add: redis_blocks_def fun_eq_iff U(1) v)
  qed
  have same: "redis_inv U view v" "redis_blocks U view v = redis_blocks U view w" if "view v = view w" for v
    using inv unfolding redis_inv_def redis_blocks_def that by simp_all
  have lost: "redis_inv U view v \<and> (redis_blocks U view v = redis_blocks U view w \<or> redis_blocks U view v = (redis_blocks U view w)(i := x))"
    if "view v = view w \<or> view v = (view w)(redis_key U i := x)" for v x
    using that upd same by blast
  show "returns (\<lambda>_. True) (redis_blocks U view) (redis_inv U view) (redis_blocks U view w)
      ((redis_blocks U view w)(i \<mapsto> d)) (ds_write_block (redis_store R U) i d w)"
    unfolding redis_store_def redis_write_block_def data_store_ops.simps
    by (rule returns_try) (use upd [OF set_ok] lost [OF set_err] in simp_all)
  show "returns (\<lambda>x. x = redis_blocks U view w i) (redis_blocks U view) (redis_inv U view) (redis_blocks U view w)
      (redis_blocks U view w) (ds_read_block (redis_store R U) i w)"
    unfolding redis_store_def redis_read_block_def data_store_ops.simps
    by (rule returns_try) (use same [OF get_frame] get_ok in \<open>simp_all add: redis_blocks_def\<close>)
  show "returns (\<lambda>_. True) (redis_blocks U view) (redis_inv U view) (redis_blocks U view w)
      ((redis_blocks U view w)(i := None)) (ds_remove_block (redis_store R U) i w)"
    unfolding redis_store_def redis_remove_block_def data_store_ops.simps
    by (rule returns_try) (use upd [OF del_ok] lost [OF del_err] in simp_all)
  show "returns (\<lambda>xs. set xs = dom (redis_blocks U view w)) (redis_blocks U view) (redis_inv U view) (redis_blocks U view w)
      (redis_blocks U view w) (ds_list_blocks (redis_store R U) w)"
    unfolding redis_store_def redis_list_blocks_def data_store_ops.simps
    by (rule returns_try) (use redis_listing [OF assms inv] same [OF keys_frame] in force)+
qed

end

text \<open>
  A server that is a map, with the fate of the next commands that change it: answered, lost on the way
  (\<open>Some False\<close>), or executed without the answer coming back (\<open>Some True\<close>).
\<close>

fun lossy :: "('m \<Rightarrow> 'm) \<Rightarrow> 'm \<times> bool option list \<Rightarrow> (string + unit) \<times> ('m \<times> bool option list)" where
  "lossy f (m, Some executed # fates) = (Inl ''connection lost'', (if executed then f m else m, fates))"
| "lossy f (m, fates) = (Inr (), f m, tl fates)"

definition map_redis :: "((string, bytes) hmap \<times> bool option list) redis_ops" where
  "map_redis = \<lparr>rd_parse_url = (\<lambda>_. None), rd_client_open = (\<lambda>_ w. (Inr (), w)), rd_get_connection = (\<lambda>w. (Inr (), w)),
     rd_get = (\<lambda>k w. (Inr (hget (fst w) k), w)), rd_get_string = (\<lambda>k w. (Inr (map_option text_of (hget (fst w) k)), w)),
     rd_set = (\<lambda>k d. lossy (hput k d)), rd_del = (\<lambda>k. lossy (hdel k)),
     rd_keys = (\<lambda>p w. (Inr (filter (prefix (butlast p)) (hkeys (fst w))), w))\<rparr>"

lemma lossy_run:
  "lossy f w = (Inr (), v) \<Longrightarrow> fst v = f (fst w)"
  "lossy f w = (Inl e, v) \<Longrightarrow> fst v = fst w \<or> fst v = f (fst w)"
  by (induction f w rule: lossy.induct) (auto split: if_splits)

interpretation map_redis: redis_server map_redis "\<lambda>w. hget (fst w)"
  by unfold_locales (auto simp: map_redis_def dom_map_of_conv_image_fst dest: lossy_run)

section \<open>SQLite\<close>

text \<open>The table of blocks as a map; a row that cannot be read may stand in for rows that are not listed.\<close>

locale sqlite_db =
  fixes Q :: "'w sqlite_ops" and tab :: "'w \<Rightarrow> bytes \<rightharpoonup> bytes"
  assumes replace_ok: "sq_execute Q REPLACE_BLOCK [k, d] w = (Inr n, v) \<Longrightarrow> tab v = (tab w)(k \<mapsto> d)"
    and delete_ok: "sq_execute Q DELETE_BLOCK [k] w = (Inr n, v) \<Longrightarrow> tab v = (tab w)(k := None)"
    and replace_err: "sq_execute Q REPLACE_BLOCK [k, d] w = (Inl e, v) \<Longrightarrow> tab v = tab w \<or> tab v = (tab w)(k \<mapsto> d)"
    and delete_err: "sq_execute Q DELETE_BLOCK [k] w = (Inl e, v) \<Longrightarrow> tab v = tab w \<or> tab v = (tab w)(k := None)"
    and select_ok: "sq_query_optional Q SELECT_BLOCK [k] w = (Inr x, v) \<Longrightarrow> x = tab w k"
    and select_frame: "sq_query_optional Q st args w = (r, v) \<Longrightarrow> tab v = tab w"
    and prepare_frame: "sq_prepare Q st w = (r', v) \<Longrightarrow> tab v = tab w"
    and rows_frame: "sq_query_map Q st args w = (r'', v) \<Longrightarrow> tab v = tab w"
    and rows_ok: "sq_query_map Q SELECT_IDS [] w = (Inr rows, v) \<Longrightarrow>
      {b. Inr b \<in> set rows} \<subseteq> dom (tab w) \<and> ((\<exists>e. Inl e \<in> set rows) \<or> dom (tab w) \<subseteq> {b. Inr b \<in> set rows})"

definition sqlite_blocks :: "uuid_ops \<Rightarrow> ('w \<Rightarrow> bytes \<rightharpoonup> bytes) \<Rightarrow> 'w \<Rightarrow> uuid \<rightharpoonup> bytes" where
  "sqlite_blocks U tab w i = tab w (u_bytes U i)"

definition sqlite_inv :: "uuid_ops \<Rightarrow> ('w \<Rightarrow> bytes \<rightharpoonup> bytes) \<Rightarrow> 'w \<Rightarrow> bool" where
  "sqlite_inv U tab w \<longleftrightarrow> dom (tab w) \<subseteq> range (u_bytes U)"

lemma collect_ids_run:
  assumes "\<And>b. Inr b \<in> set rows \<Longrightarrow> u_from_slice U b \<noteq> None"
  shows "(\<exists>e. collect_ids U rows = Failed e) \<or>
    (\<forall>e. Inl e \<notin> set rows) \<and> (\<exists>xs. collect_ids U rows = Done xs \<and> set xs = {i. \<exists>b. Inr b \<in> set rows \<and> u_from_slice U b = Some i})"
  using assms
proof (induction rows)
  case (Cons r rows)
  show ?case
  proof (cases r)
    case (Inr b)
    obtain i where "u_from_slice U b = Some i" using Cons.prems [of b] Inr by auto
    then show ?thesis using Cons Inr by fastforce
  qed simp
qed simp

context sqlite_db
begin

lemma sqlite_listing:
  assumes "uuid_text U" and inv: "sqlite_inv U tab w" and rows: "sq_query_map Q SELECT_IDS [] w = (Inr rows, v)"
  shows "(\<exists>e. collect_ids U rows = Failed e) \<or> (\<exists>xs. collect_ids U rows = Done xs \<and> set xs = dom (sqlite_blocks U tab w))"
proof -
  note from_bytes = uuid_text.from_bytes [OF assms(1)]
  have sub: "Inr b \<in> set rows \<Longrightarrow> b \<in> dom (tab w)" for b using rows_ok [OF rows] by blast
  have own: "\<exists>i. b = u_bytes U i" if "b \<in> dom (tab w)" for b using that inv unfolding sqlite_inv_def by blast
  have "u_from_slice U b \<noteq> None" if "Inr b \<in> set rows" for b using own [OF sub [OF that]] from_bytes by auto
  then have run: "(\<exists>e. collect_ids U rows = Failed e) \<or> (\<forall>e. Inl e \<notin> set rows) \<and>
      (\<exists>xs. collect_ids U rows = Done xs \<and> set xs = {i. \<exists>b. Inr b \<in> set rows \<and> u_from_slice U b = Some i})"
    by (rule collect_ids_run)
  have "{i. \<exists>b. Inr b \<in> set rows \<and> u_from_slice U b = Some i} = dom (sqlite_blocks U tab w)"
    if all: "\<forall>e. Inl e \<notin> set rows"
  proof (intro equalityI subsetI)
    fix i assume "i \<in> {i. \<exists>b. Inr b \<in> set rows \<and> u_from_slice U b = Some i}"
    then obtain b where b: "Inr b \<in> set rows" "u_from_slice U b = Some i" by blast
    then obtain j where "b = u_bytes U j" using own sub by blast
    then show "i \<in> dom (sqlite_blocks U tab w)" using b sub from_bytes by (auto simp: sqlite_blocks_def dom_def)
  next
    fix i assume "i \<in> dom (sqlite_blocks U tab w)"
    then have "u_bytes U i \<in> dom (tab w)" by (auto simp: sqlite_blocks_def)
    then have "Inr (u_bytes U i) \<in> set rows" using rows_ok [OF rows] all by blast
    then show "i \<in> {i. \<exists>b. Inr b \<in> set rows \<and> u_from_slice U b = Some i}" using from_bytes by blast
  qed
  then show ?thesis using run by blast
qed

lemma sqlite_contract:
  assumes "uuid_text U"
  shows "store_refines (sqlite_store Q U) (sqlite_blocks U tab) (sqlite_inv U tab)"
proof (intro store_refines_returns conjI)
  fix w i d assume inv: "sqlite_inv U tab w"
  have upd: "sqlite_inv U tab v" "sqlite_blocks U tab v = (sqlite_blocks U tab w)(i := x)"
    if v: "tab v = (tab w)(u_bytes U i := x)" for v x
  proof -
    have "dom (tab v) \<subseteq> insert (u_bytes U i) (dom (tab w))" using v by (auto split: if_splits)
    then show "sqlite_inv U tab v" using inv unfolding sqlite_inv_def by blast
    show "sqlite_blocks U tab v = (sqlite_blocks U tab w)(i := x)"
      by (simp add: sqlite_blocks_def fun_eq_iff uuid_text.bytes_inj [OF assms] v)
  qed
  have same: "sqlite_inv U tab v" "sqlite_blocks U tab v = sqlite_blocks U tab w" if "tab v = tab w" for v
    using inv unfolding sqlite_inv_def sqlite_blocks_def that by simp_all
  have lost: "sqlite_inv U tab v \<and> (sqlite_blocks U tab v = sqlite_blocks U tab w \<or> sqlite_blocks U tab v = (sqlite_blocks U tab w)(i := x))"
    if "tab v = tab w \<or> tab v = (tab w)(u_bytes U i := x)" for v x
    using that upd same by blast
  show "returns (\<lambda>_. True) (sqlite_blocks U tab) (sqlite_inv U tab) (sqlite_blocks U tab w)
      ((sqlite_blocks U tab w)(i \<mapsto> d)) (ds_write_block (sqlite_store Q U) i d w)"
    unfolding sqlite_store_def sqlite_write_block_def data_store_ops.simps
    by (rule returns_try) (use upd [OF replace_ok] lost [OF replace_err] in simp_all)
  show "returns (\<lambda>x. x = sqlite_blocks U tab w i) (sqlite_blocks U tab) (sqlite_inv U tab) (sqlite_blocks U tab w)
      (sqlite_blocks U tab w) (ds_read_block (sqlite_store Q U) i w)"
    unfolding sqlite_store_def sqlite_read_block_def data_store_ops.simps
    by (rule returns_try) (use same [OF select_frame] select_ok in \<open>simp_all add: sqlite_blocks_def\<close>)
  show "returns (\<lambda>_. True) (sqlite_blocks U tab) (sqlite_inv U tab) (sqlite_blocks U tab w)
      ((sqlite_blocks U tab w)(i := None)) (ds_remove_block (sqlite_store Q U) i w)"
    unfolding sqlite_store_def sqlite_remove_block_def data_store_ops.simps
    by (rule returns_try) (use upd [OF delete_ok] lost [OF delete_err] in simp_all)
  show "returns (\<lambda>xs. set xs = dom (sqlite_blocks U tab w)) (sqlite_blocks U tab) (sqlite_inv U tab) (sqlite_blocks U tab w)
      (sqlite_blocks U tab w) (ds_list_blocks (sqlite_store Q U) w)"
  proof (cases "sq_prepare Q SELECT_IDS w")
    case (Pair x u)
    note u = prepare_frame [OF Pair]
    obtain y v where y: "sq_query_map Q SELECT_IDS [] u = (y, v)" by fastforce
    have v: "tab v = tab w" using rows_frame [OF y] u by simp
    show ?thesis using Pair y same [OF u] same [OF v] sqlite_listing [OF assms same(1) [OF u], of _ v]
      by (cases x; cases y) (auto simp: sqlite_store_def sqlite_list_blocks_def tryA_def)
  qed
qed

end

text \<open>A database that is a map from blobs to blobs, and the version.\<close>

definition map_sqlite :: "((bytes, bytes) hmap \<times> bytes option) sqlite_ops" where
  "map_sqlite = \<lparr>sq_open = (\<lambda>_ w. (Inr (), w)), sq_execute_batch = (\<lambda>_ w. (Inr (), w)),
     sq_execute = (\<lambda>st args (t, m). case args of
         [k, d] \<Rightarrow> if st = REPLACE_BLOCK then (Inr 1, hput k d t, m) else (Inl ''syntax error'', t, m)
       | [k] \<Rightarrow> if st = DELETE_BLOCK then (Inr (if hget t k = None then 0 else 1), hdel k t, m)
           else if st = INSERT_VERSION then (Inr 1, t, Some k) else (Inl ''syntax error'', t, m)
       | _ \<Rightarrow> (Inl ''wrong number of parameters'', t, m)),
     sq_query_optional = (\<lambda>st args (t, m). (case args of
         [k] \<Rightarrow> if st = SELECT_BLOCK then Inr (hget t k) else Inl ''syntax error''
       | _ \<Rightarrow> if st = SELECT_VERSION then Inr m else Inl ''syntax error'', t, m)),
     sq_prepare = (\<lambda>_ w. (Inr (), w)),
     sq_query_map = (\<lambda>st args (t, m). (Inr (map Inr (hkeys t)), t, m))\<rparr>"

interpretation map_sqlite: sqlite_db map_sqlite "\<lambda>w. hget (fst w)"
proof
  have ne: "REPLACE_BLOCK \<noteq> DELETE_BLOCK" "DELETE_BLOCK \<noteq> INSERT_VERSION"
    by (simp_all add: REPLACE_BLOCK_def DELETE_BLOCK_def INSERT_VERSION_def)
  show "sq_execute map_sqlite REPLACE_BLOCK [k, d] w = (Inr n, v) \<Longrightarrow> hget (fst v) = (hget (fst w))(k \<mapsto> d)" for k d w n v
    by (cases w) (auto simp: map_sqlite_def)
  show "sq_execute map_sqlite DELETE_BLOCK [k] w = (Inr n, v) \<Longrightarrow> hget (fst v) = (hget (fst w))(k := None)" for k w n v
    by (cases w) (auto simp: map_sqlite_def)
  show "sq_execute map_sqlite REPLACE_BLOCK [k, d] w = (Inl e, v) \<Longrightarrow>
    hget (fst v) = hget (fst w) \<or> hget (fst v) = (hget (fst w))(k \<mapsto> d)" for k d w e v
    by (cases w) (auto simp: map_sqlite_def)
  show "sq_execute map_sqlite DELETE_BLOCK [k] w = (Inl e, v) \<Longrightarrow>
    hget (fst v) = hget (fst w) \<or> hget (fst v) = (hget (fst w))(k := None)" for k w e v
    by (cases w) (auto simp: map_sqlite_def ne)
qed (force simp: map_sqlite_def dom_map_of_conv_image_fst split: prod.splits)+

section \<open>S3\<close>

text \<open>The name of a region determines the region, except a custom one.\<close>

lemma region_roundtrip: "(\<forall>n e. r \<noteq> CustomRegion n e) \<Longrightarrow> from_name (region_name r) = Some r"
  by (cases r) (simp_all add: from_name_def)

text \<open>A bucket that nobody may write to: every upload is answered with the status 403.\<close>

definition forbidden_bucket :: "((string, bytes) hmap, unit) s3_ops" where
  "forbidden_bucket = \<lparr>s3_anonymous = None, s3_bucket_new = (\<lambda>_ _ _ _. Some ()), s3_runtime_new = (\<lambda>w. (True, w)),
     s3_get_object = (\<lambda>_ k w. (Inr (case hget w k of Some d \<Rightarrow> (d, 200) | None \<Rightarrow> ([], 404)), w)),
     s3_put_object = (\<lambda>_ k d w. (Inr ([], 403), w)), s3_delete_object = (\<lambda>_ k w. (Inr ([], 403), w)),
     s3_list = (\<lambda>_ p w. (Inr [filter (prefix p) (hkeys w)], w))\<rparr>"

section \<open>rclone\<close>

text \<open>The attempts to connect: the state after some of them, and whether one is refused.\<close>

definition attempt_state :: "('w, 'c) rclone_ops \<Rightarrow> nat \<Rightarrow> nat \<Rightarrow> 'w \<Rightarrow> 'w" where
  "attempt_state R port n = ((\<lambda>w. snd (rc_connect R port w)) ^^ n)"

definition refused :: "('w, 'c) rclone_ops \<Rightarrow> nat \<Rightarrow> 'w \<Rightarrow> nat \<Rightarrow> bool" where
  "refused R port w n \<longleftrightarrow> (case fst (rc_connect R port (attempt_state R port n w)) of
     Inl e \<Rightarrow> error_kind e = ConnectionRefused | Inr _ \<Rightarrow> False)"

lemma attempt_shift:
  "attempt_state R port (Suc n) w = attempt_state R port n (snd (rc_connect R port w))"
  "refused R port w (Suc n) = refused R port (snd (rc_connect R port w)) n"
proof -
  show a: "attempt_state R port (Suc n) w = attempt_state R port n (snd (rc_connect R port w))" for n w
    by (simp only: attempt_state_def funpow_Suc_right comp_apply)
  show "refused R port w (Suc n) = refused R port (snd (rc_connect R port w)) n"
    by (simp add: refused_def a)
qed

lemma wait_step:
  "refused R port w 0 \<Longrightarrow> wait_for_connection R port w = wait_for_connection R port (snd (rc_connect R port w))"
  "\<not> refused R port w 0 \<Longrightarrow> wait_for_connection R port w = Some (rc_connect R port w)"
  by (subst wait_for_connection.simps, auto simp: refused_def attempt_state_def split: sum.splits prod.splits)+

lemma wait_after:
  "(\<And>k. k < n \<Longrightarrow> refused R port w k) \<Longrightarrow> \<not> refused R port w n \<Longrightarrow>
     wait_for_connection R port w = Some (rc_connect R port (attempt_state R port n w))"
proof (induction n arbitrary: w)
  case 0
  then show ?case by (simp add: wait_step(2) attempt_state_def)
next
  case (Suc n)
  have "refused R port w 0" using Suc.prems(1) by blast
  moreover have "wait_for_connection R port (snd (rc_connect R port w)) =
      Some (rc_connect R port (attempt_state R port n (snd (rc_connect R port w))))"
    using Suc.prems(2) by (intro Suc.IH) (auto simp: attempt_shift(2) [symmetric] intro: Suc.prems(1))
  ultimately show ?case by (simp add: wait_step(1) attempt_shift(1))
qed

lemma wait_returned:
  fixes R :: "('w, 'c) rclone_ops"
  assumes "wait_for_connection R port w = Some y"
  shows "\<exists>n. \<not> refused R port w n"
proof (rule wait_for_connection.raw_induct [where P = "\<lambda>R port w y. \<exists>n. \<not> refused R port w n", OF _ assms])
  fix loop :: "('w, 'c) rclone_ops \<Rightarrow> nat \<Rightarrow> 'w \<Rightarrow> ((io_error + unit) \<times> 'w) option"
  fix R :: "('w, 'c) rclone_ops" and port w y
  assume IH: "\<And>R port w y. loop R port w = Some y \<Longrightarrow> \<exists>n. \<not> refused R port w n"
    and step: "(case rc_connect R port w of (Inl e, v) \<Rightarrow>
        if error_kind e = ConnectionRefused then loop R port v else Some (Inl e, v) | (Inr _, v) \<Rightarrow> Some (Inr (), v)) = Some y"
  show "\<exists>n. \<not> refused R port w n"
  proof (cases "refused R port w 0")
    case True
    then have "loop R port (snd (rc_connect R port w)) = Some y"
      using step by (auto simp: refused_def attempt_state_def split: prod.splits sum.splits)
    then show ?thesis using IH attempt_shift(2) by metis
  qed blast
qed

section \<open>What the stores promise\<close>

text \<open>
  C24: Writing a block to an SFTP server is atomic, on any server that creates, writes, renames and removes files as the
  protocol says, and whichever call fails: the block is the old one or the new one, every other block is as it was, and
  the new one is there if the write returns.
\<close>

theorem sftp_write_atomic:
  assumes "file_server F files hpath" and "uuid_text U" and "sftp_write_block F U T path i d w = (r, v)"
  shows "(\<forall>j. j \<noteq> i \<longrightarrow> files v (sftp_block_path U path j) = files w (sftp_block_path U path j)) \<and>
    (files v (sftp_block_path U path i) = files w (sftp_block_path U path i) \<and> r \<noteq> Done () \<or>
     files v (sftp_block_path U path i) = Some d)"
  using file_server.write_atomic [OF assms] .

theorem sftp_write_atomic_witness:
  "\<exists>r t. sftp_write_block (fs_server (\<lambda>_. ''full'')) std_uuids (\<lambda>_. ''full'') [] 5 [1, 2] failing_directory = (r, t) \<and>
     (fs_files t (sftp_block_path std_uuids [] 5) = None \<and> r \<noteq> Done () \<or> fs_files t (sftp_block_path std_uuids [] 5) = Some [1, 2])"
proof -
  obtain r t where t: "sftp_write_block (fs_server (\<lambda>_. ''full'')) std_uuids (\<lambda>_. ''full'') [] 5 [1, 2] failing_directory = (r, t)"
    by fastforce
  have "fs_files failing_directory (sftp_block_path std_uuids [] 5) = None"
    by (simp add: fs_files_def node_at_def failing_directory_def sftp_block_path_def)
  with sftp_write_atomic [OF fs_served.file_server_axioms std_uuid.uuid_text_axioms t] t show ?thesis by auto
qed

text \<open>
  C25: Any sequence of calls on the store in Redis or in SQLite answers as a map of blocks would, as long as no other program writes
  keys of blocks.  Calls may fail at any point, and the service may have executed a call that fails: then the block
  is the old one or the new one, and the other blocks are kept.  Listing gives exactly the IDs of
  the blocks, recovered from the keys, and never panics.
\<close>

theorem database_stores_contract:
  assumes "uuid_text U" and "redis_server R view" and "sqlite_db Q tab"
  shows "store_refines (redis_store R U) (redis_blocks U view) (redis_inv U view) \<and>
    store_refines (sqlite_store Q U) (sqlite_blocks U tab) (sqlite_inv U tab)"
  using redis_server.redis_contract [OF assms(2,1)] sqlite_db.sqlite_contract [OF assms(3,1)] by simp

theorem database_stores_contract_witness:
  "\<exists>rs t m. run_calls (redis_store map_redis std_uuids) [SWrite 5 [1], SRead 5, SList] ([(''version'', [2])], [Some True]) = (rs, t) \<and>
     block_trace (\<lambda>_. None) [SWrite 5 [1], SRead 5, SList] rs m \<and> rs ! 0 = AUnit (Failed ''connection lost'') \<and>
     rs ! 1 = ABlock (Done (Some [1])) \<and> m 5 = Some [1]"
proof -
  let ?s = "([(''version'', [2])], [Some True]) :: (string, bytes) hmap \<times> bool option list"
  let ?B = "redis_blocks std_uuids (\<lambda>w. hget (fst w))"
  obtain rs t where t: "run_calls (redis_store map_redis std_uuids) [SWrite 5 [1], SRead 5, SList] ?s = (rs, t)"
    by (metis surj_pair)
  have s: "redis_inv std_uuids (\<lambda>w. hget (fst w)) ?s" "?B ?s = (\<lambda>_. None)"
    by (auto simp: redis_inv_def redis_blocks_def redis_key_def)
  have "store_refines (redis_store map_redis std_uuids) ?B (redis_inv std_uuids (\<lambda>w. hget (fst w)))"
    using database_stores_contract [OF std_uuid.uuid_text_axioms map_redis.redis_server_axioms map_sqlite.sqlite_db_axioms]
    by (rule conjunct1)
  from store_refinesD [OF this s(1) t] s(2) have "block_trace (\<lambda>_. None) [SWrite 5 [1], SRead 5, SList] rs (?B t)" by simp
  moreover have "rs ! 0 = AUnit (Failed ''connection lost'')" "rs ! 1 = ABlock (Done (Some [1]))" "?B t 5 = Some [1]"
    using t by (auto simp: redis_store_def redis_write_block_def redis_read_block_def redis_list_blocks_def map_redis_def
      tryA_def redis_blocks_def redis_key_def Let_def split: prod.splits)
  ultimately show ?thesis using t by blast
qed

text \<open>
  C35: The status of an answer of S3 is ignored, but for 404 of a read.  A write and a removal return whatever the
  status is, and a read returns the body of any other answer as the block.  So a write that is refused returns, and the block is
  not there.
\<close>

theorem s3_status_ignored:
  assumes "s3_runtime_new S w = (True, u)"
  shows "(s3_put_object S b (s3_block_path U pre i) d u = (Inr (body, code), v) \<longrightarrow> s3_write_block S U b pre i d w = (Done (), v)) \<and>
    (s3_delete_object S b (s3_block_path U pre i) u = (Inr (body, code), v) \<longrightarrow> s3_remove_block S U b pre i w = (Done (), v)) \<and>
    (s3_get_object S b (s3_block_path U pre i) u = (Inr (body, code), v) \<longrightarrow>
      s3_read_block S U b pre i w = (Done (if code = 404 then None else Some body), v))"
  using assms by (simp add: s3_write_block_def s3_remove_block_def s3_read_block_def with_runtime_def tryA_def NOT_FOUND_CODE_def)

theorem s3_status_ignored_witness:
  "s3_write_block forbidden_bucket std_uuids () ''repo'' 5 [1, 2] [] = (Done (), []) \<and>
   s3_read_block forbidden_bucket std_uuids () ''repo'' 5 [] = (Done None, [])"
proof -
  have "s3_runtime_new forbidden_bucket [] = (True, [])" by (simp add: forbidden_bucket_def)
  from s3_status_ignored [OF this, of "()" std_uuids "''repo''" 5 "[1, 2]" "[]" 403 "[]"]
    s3_status_ignored [OF this, of "()" std_uuids "''repo''" 5 "[1, 2]" "[]" 404 "[]"]
  show ?thesis by (simp add: forbidden_bucket_def)
qed

text \<open>
  C34: Waiting for the server of rclone.  The wait returns what the first attempt returns that is not refused, however
  many are refused before; and it never returns if all are, as when the server has ended.
\<close>

theorem rclone_wait:
  "wait_for_connection R port w = (if \<forall>n. refused R port w n then None
     else Some (rc_connect R port (attempt_state R port (LEAST n. \<not> refused R port w n) w)))"
proof (cases "\<forall>n. refused R port w n")
  case True
  have "wait_for_connection R port w = None"
  proof (rule ccontr)
    assume "wait_for_connection R port w \<noteq> None"
    then obtain y where "wait_for_connection R port w = Some y" by blast
    from wait_returned [OF this] True show False by blast
  qed
  then show ?thesis using True by (simp only: if_True simp_thms)
next
  case False
  then obtain n where "\<not> refused R port w n" by blast
  then have "\<not> refused R port w (LEAST n. \<not> refused R port w n)" by (rule LeastI)
  moreover have "refused R port w k" if "k < (LEAST n. \<not> refused R port w n)" for k using not_less_Least [OF that] by simp
  ultimately have "wait_for_connection R port w =
      Some (rc_connect R port (attempt_state R port (LEAST n. \<not> refused R port w n) w))" by (intro wait_after)
  then show ?thesis using False by (simp only: if_False)
qed

end
