(* ===== verification/State_Commit.thy ===== *)
theory State_Commit
  imports State_Contract
begin

text \<open>
  Commits, rollbacks and savepoints of the state repository: the backing repository goes back to an
  earlier header, and the state and the ID table are read from it.
\<close>

section \<open>The backing repository\<close>

lemma table_eq_ids: "table_eq t t' \<Longrightarrow> id_inv t = id_inv t' \<and> id_live t = id_live t'"
  by (auto simp: table_eq_def id_inv_def id_live_def id_contains_def)

lemma state_inv_repo:
  assumes "state_inv bl X S N good r" "repo_inv bl X S N q" "repo_map bl X q = repo_map bl X (sr_repo r)"
    "cfg (rstate q) = cfg (rstate (sr_repo r))" "transactions (rstate q) = {}" "instance_id q = instance_id (sr_repo r)"
    "md_id (metadata (rstate q)) = md_id (metadata (rstate (sr_repo r)))"
  shows "state_inv bl X S N good (r\<lparr>sr_repo := q\<rparr>)" "state_map bl X (r\<lparr>sr_repo := q\<rparr>) = state_map bl X r"
    "check_key (r\<lparr>sr_repo := q\<rparr>) = check_key r"
proof -
  show m: "state_map bl X (r\<lparr>sr_repo := q\<rparr>) = state_map bl X r" by (rule ext) (simp add: state_map_def assms(3))
  show "state_inv bl X S N good (r\<lparr>sr_repo := q\<rparr>)" using assms(1) unfolding state_inv_def m by (simp add: assms)
  show "check_key (r\<lparr>sr_repo := q\<rparr>) = check_key r"
    using assms(6,7) by (simp add: check_key_def repo_get_info_def to_info_def fun_eq_iff)
qed

lemma repo_inv_objects:
  assumes "repo_inv bl X S N r"
  shows "\<forall>a \<in> set (hvalues (objects r)). a < next_addr r"
proof
  fix a assume "a \<in> set (hvalues (objects r))"
  then obtain k where "(k, a) \<in> set (objects r)" by (auto simp: hvalues_def)
  then have "hget (objects r) k = Some a" using repo_invD(2) [OF assms] by (simp add: hwf_def)
  then show "a < next_addr r" using repo_invD(3,5) [OF assms] by (auto simp: addr_ok_def dom_def)
qed

text \<open>What the operations on objects do keeps the blocks that an earlier header needs.\<close>

lemma repo_step_extends:
  assumes "repo_inv bl X S N r'" "repo_step bl r r'"
  shows "extends bl r r'"
  using repo_inv_objects [OF assms(1)] repo_invD(3) [OF assms(1)] assms(2)
  by (simp add: extends_def repo_step_def same_rest_def)

lemma rewritten_inv:
  assumes inv: "repo_inv bl X S N r" and w: "rewritten bl X S N info v r r'" "hget (instances r) (instance_id r) = Some info"
  shows "repo_inv bl X S N r'" "repo_map bl X r' = repo_map bl X r" "handles_of r' = handles_of r"
proof -
  note I = repo_invD [OF inv]
  obtain h where h: "instances r' = hput (instance_id r) (info\<lparr>instance_objects := h\<rparr>) (instances r)"
    "handle_id h = handle_id (instance_objects info)" "handle_ok bl X (rstate r') h"
    and d: "direct_inv bl X S N (rstate r')"
    and mono: "\<And>c d. chunk_data bl X (rstate r) c = Some d \<Longrightarrow> chunk_data bl X (rstate r') c = Some d"
      "\<And>c. refs_of (rstate r) c \<subseteq> refs_of (rstate r') c"
    and same: "objects r' = objects r" "heap r' = heap r" "next_addr r' = next_addr r" "handle_table r' = handle_table r"
    using w(1) unfolding rewritten_def by blast
  show hs: "handles_of r' = handles_of r" using same by (simp add: handles_of_def deref_def)
  note H = handle_ok_mono [OF _ mono]
  show "repo_map bl X r' = repo_map bl X r"
  proof
    fix k show "repo_map bl X r' k = repo_map bl X r k"
      using H(2) I(6) [of k] hs by (cases "hget (handles_of r) k") (simp_all add: repo_map_def)
  qed
  have inst: "handle_ok bl X (rstate r') (instance_objects j) \<and> handle_id (instance_objects j) \<in> id_live (handle_table r) \<and>
      (\<forall>k g. hget (handles_of r) k = Some g \<longrightarrow> handle_id g \<noteq> handle_id (instance_objects j))"
    if "hget (instances r') i = Some j" for i j
    using that h I(8) [of i j] I(8) [OF w(2)] H(1) [of "instance_objects j"] by (auto split: if_splits)
  then show "repo_inv bl X S N r'"
    unfolding repo_inv_def hs same using d I(2,3,4,5,7) H(1) I(6) same by (auto simp: addr_ok_def)
qed

text \<open>There is room in the repository for \<open>n\<close> more IDs than writing its object map takes.\<close>

definition map_room :: "('s \<Rightarrow> uuid \<rightharpoonup> bytes) \<Rightarrow> bytes set \<Rightarrow> ('s, 'z) env \<Rightarrow> 'k map_codec \<Rightarrow> nat \<Rightarrow> nat \<Rightarrow> ('k, 's) key_repo \<Rightarrow> bool" where
  "map_room bl S E M N n r \<longleftrightarrow> (\<exists>info u. hget (instances r) (instance_id r) = Some info \<and> to_vec_objects M (handles_of r) = Some u \<and>
     overwrite 0 u (handle_content bl (ev_ext E) (rstate r) (instance_objects info)) \<in> S \<and> length u < 2 ^ 63 \<and>
     rng (rstate r) + 2 * (2 * length (handle_content bl (ev_ext E) (rstate r) (instance_objects info)) + length u + n) \<le> N)"

lemma repo_inv_writable:
  assumes "repo_inv bl (ev_ext E) S N r" "hget (instances r) (instance_id r) = Some info"
    "good (config_chunking (cfg (rstate r)))" "transactions (rstate r) = {}"
  shows "writable bl S E good N r info"
  using repo_invD(1,2,8) [OF assms(1)] assms(2-4) by (simp add: writable_def)

lemma repo_inv_0: "repo_inv bl X S N r \<Longrightarrow> repo_inv bl X S 0 r"
  using direct_inv_0 by (auto simp: repo_inv_def)

lemma staged_install:
  assumes "staged m as r" "set (hvalues as) \<inter> set old = {}" "set (hvalues as) \<inter> set (hvalues new) = {}"
  shows "staged m as (install old new r)"
proof -
  have "map (\<lambda>(k, a). (k, hget (heap (install old new r)) a)) as = map (\<lambda>(k, a). (k, hget (heap r) a)) as"
    using assms(2) by (intro map_cong) (force simp: hvalues_def)+
  then show ?thesis using assms(1,3) unfolding staged_def by simp
qed

lemma staged_put_header [simp]: "staged m as (put_header h r) = staged m as r"
  by (simp add: staged_def put_header_def)

lemma finish_restore_none: "finish_restore k r = finish_restore_with {} k r"
  by (simp add: finish_restore_def finish_restore_with_def set_objects_def put_header_def)

lemma extends_put_header [simp]: "extends bl r1 (put_header h r) = extends bl r1 r"
  by (simp add: extends_def put_header_def addr_ok_def)

context key_env
begin

lemma repo_inv_back:
  assumes ext: "extends blocks r1 r" and inv: "repo_inv blocks X S 0 r1" and eq: "header_eq (clone_header r) (clone_header r1)"
    and wf: "hwf (chunks (rstate r))" "hwf (objects r)" and fresh: "fresh_ids blocks X N (rstate r)"
    and h: "hget (handles_of r) = hget (handles_of r1)" "\<forall>k a. hget (objects r) k = Some a \<longrightarrow> hget (heap r) a \<noteq> None"
  shows "repo_inv blocks X S N r" "repo_map blocks X r = repo_map blocks X r1"
proof -
  note I = repo_invD [OF inv]
  note V = back_view [OF ext I(1) eq wf(1)]
  note H = handle_view [OF V(1,2)]
  have t: "id_inv (handle_table r) = id_inv (handle_table r1)" "id_live (handle_table r) = id_live (handle_table r1)"
    "hget (instances r) = hget (instances r1)"
    using eq table_eq_ids [of "handle_table r" "handle_table r1"] by (simp_all add: clone_header_def header_eq_def)
  show "repo_map blocks X r = repo_map blocks X r1"
  proof
    fix k show "repo_map blocks X r k = repo_map blocks X r1 k"
      by (cases "hget (handles_of r1) k") (simp_all add: repo_map_def h(1) H(2))
  qed
  have "direct_inv blocks X S N (rstate r)" using V(3) fresh by (simp add: direct_inv_def)
  moreover have "addr_ok r" using ext by (simp add: extends_def)
  ultimately show "repo_inv blocks X S N r"
    unfolding repo_inv_def H(1) h(1) t using I(4,6-8) wf(2) h(2) by blast
qed

lemma installed_inv:
  assumes inv: "repo_inv blocks X S 0 r1" and ext: "extends blocks r1 r" and eq: "header_eq (clone_header r) (clone_header r1)"
    and wf: "hwf (chunks (rstate r))" and fresh: "fresh_ids blocks X N (rstate r)"
    and m: "hget m = hget (handles_of r1)" "hwf m" and as: "staged m as r" "set old \<inter> set (hvalues as) = {}"
  shows "repo_inv blocks X S N (install old as r)" "repo_map blocks X (install old as r) = repo_map blocks X r1"
    "extends blocks r1 (install old as r)"
proof -
  have addr: "addr_ok r" using ext by (simp add: extends_def)
  note J = staged_installed [OF as(1) addr m(2) as(2)]
  show x: "extends blocks r1 (install old as r)" by (rule extends_install [OF ext as(1) m(2) as(2)])
  have "hget (handles_of (install old as r)) = hget (handles_of r1)" by (simp add: J(1) m(1))
  from repo_inv_back [OF x inv _ _ _ _ this, of N] eq wf fresh J(2,4)
  show "repo_inv blocks X S N (install old as r)" "repo_map blocks X (install old as r) = repo_map blocks X r1"
    by simp_all
qed

text \<open>Finishing a restore makes the prepared objects the objects of the repository.\<close>

lemma finish_restore_ok:
  assumes inv: "repo_inv blocks X S 0 r1" and ext: "extends blocks r1 r" and fresh: "fresh_ids blocks X N (rstate r)"
    and k: "kr_header k = clone_header r1" "kr_transaction k = transaction_id r" "kr_instance k = instance_id r1"
    and m: "hget m = hget (handles_of r1)" "hwf m" "staged m (kr_objects k) r"
  shows "\<exists>old. finish_restore_with P k r = (Ok True, install old (kr_objects k) (put_header (clone_header r1) r)) \<and>
    set old \<subseteq> set (hvalues (objects r)) - P \<and>
    repo_inv blocks X S N (install old (kr_objects k) (put_header (clone_header r1) r)) \<and>
    repo_map blocks X (install old (kr_objects k) (put_header (clone_header r1) r)) = repo_map blocks X r1"
proof -
  let ?r = "put_header (clone_header r1) r"
  let ?old = "filter (\<lambda>a. a \<notin> set (hvalues (kr_objects k)) \<and> a \<notin> P) (hvalues (objects r))"
  have "hwf (chunks (rstate r1))" using repo_invD(1) [OF inv] by (simp add: direct_inv_def chunks_ok_def)
  then have wf: "hwf (chunks (rstate ?r))" "fresh_ids blocks X N (rstate ?r)"
    using fresh by (simp_all add: put_header_def clone_header_def fresh_ids_def)
  have "set ?old \<inter> set (hvalues (kr_objects k)) = {}" by auto
  note J = installed_inv [OF inv _ _ wf m(1,2) _ this]
  have "finish_restore_with P k r = (Ok True, install ?old (kr_objects k) ?r)"
    using k ext by (simp add: finish_restore_with_def install_def extends_def)
  then show ?thesis using J ext m(3) by (intro exI [of _ ?old]) (auto simp: put_header_clone)
qed

lemma repo_rollback_inv:
  assumes c: "committed blocks S E M r1" and inv: "repo_inv blocks X S 0 r1" and ext: "extends blocks r1 r2"
    and fresh: "fresh_ids blocks X N (rstate r2)"
  shows "\<exists>r3. repo_rollback E M r2 = (Ok (), r3) \<and> repo_inv blocks X S N r3 \<and> repo_map blocks X r3 = repo_map blocks X r1 \<and>
    metadata (rstate r3) = metadata (rstate r2) \<and> transactions (rstate r3) = transactions (rstate r2) \<and>
    rng (rstate r3) = rng (rstate r2) \<and> instance_id r3 = instance_id r2 \<and> transaction_id r3 = transaction_id r2 \<and>
    (\<forall>r. extends blocks r r2 \<longrightarrow> extends blocks r r3) \<and> (\<forall>m as. staged m as r2 \<longrightarrow> staged m as r3) \<and>
    blocks (store (rstate r3)) = blocks (store (rstate r2))"
proof -
  obtain st h m as q where q: "repo_rollback E M r2 = (Ok (), set_objects as q)" "blocks st = blocks (store (rstate r2))"
    "header_eq h (clone_header r1)" "hwf (hd_chunks h)" "hget m = hget (handles_of r1)" "hwf m" "staged m as q"
    "prepared blocks (put_header h (r2\<lparr>rstate := (rstate r2)\<lparr>store := st\<rparr>\<rparr>)) q" "\<forall>a \<in> set (hvalues as). next_addr r2 \<le> a"
    using repo_rollback_run [OF c ext] by blast
  let ?r = "r2\<lparr>rstate := (rstate r2)\<lparr>store := st\<rparr>\<rparr>"
  let ?old = "filter (\<lambda>a. a \<notin> set (hvalues as)) (hvalues (objects q))"
  note p = prepared_fields [OF q(8)]
  note f = store_eq_fields [OF p(1)]
  have clone: "clone_header q = h" using p(3) by (simp add: put_header_clone)
  have keep: "extends blocks r (install ?old as q)" if "extends blocks r r2" for r
  proof -
    have "extends blocks r (put_header h ?r)" using that q(2) by (simp add: extends_def addr_ok_def put_header_def)
    then show ?thesis by (intro extends_install [OF prepared_extends [OF _ q(8)] q(7,6)]) auto
  qed
  have staged: "staged n bs (install ?old as q)" if n: "staged n bs r2" for n bs
  proof -
    have "staged n bs (put_header h ?r)" using n by (simp add: staged_def put_header_def)
    moreover have "set (hvalues bs) \<inter> set (hvalues as) = {}" using n q(9) by (fastforce simp: staged_def)
    moreover have "set (hvalues bs) \<inter> set (hvalues (objects q)) = {}" using n p(2) by (simp add: staged_def put_header_def)
    ultimately show ?thesis by (intro staged_install prepared_staged [OF _ q(8)]) auto
  qed
  have wf: "hwf (chunks (rstate q))" using clone q(4) by (auto simp: clone_header_def)
  have fresh': "fresh_ids blocks X N (rstate q)" using fresh f(6,8) q(2) by (simp add: fresh_ids_def put_header_def)
  have ext': "extends blocks r1 q"
    using ext q(2) by (intro prepared_extends [OF _ q(8)]) (simp add: extends_def addr_ok_def put_header_def)
  have "header_eq (clone_header q) (clone_header r1)" "set ?old \<inter> set (hvalues as) = {}" using q(3) clone by auto
  note J = installed_inv [OF inv ext' this(1) wf fresh' q(5-7) this(2)]
  show ?thesis using q(1,2) J keep staged f p(4,5) unfolding set_objects_install
    by (intro exI [of _ "install ?old as q"]) (simp add: put_header_def)
qed

text \<open>The backup that a state repository makes before it goes back.\<close>

lemma backup_ok:
  assumes inv: "repo_inv blocks X S N r" and idle: "good (config_chunking (cfg (rstate r)))" "transactions (rstate r) = {}"
    and room: "map_room blocks S E M N 6 r"
  shows "\<exists>sp ra k m q. repo_savepoint E M r = (Ok sp, ra) \<and> start_restore E M sp ra = (Ok k, q) \<and>
    repo_inv blocks X S 0 ra \<and> repo_map blocks X ra = repo_map blocks X r \<and>
    kr_header k = clone_header ra \<and> kr_transaction k = transaction_id r \<and> kr_instance k = instance_id ra \<and>
    hget m = hget (handles_of ra) \<and> hwf m \<and> staged m (kr_objects k) q \<and>
    extends blocks ra q \<and> (\<forall>r0. extends blocks r0 r \<longrightarrow> extends blocks r0 q) \<and> fresh_ids blocks X N (rstate q) \<and>
    metadata (rstate q) = metadata (rstate r) \<and> transactions (rstate q) = {} \<and> instance_id q = instance_id r \<and>
    transaction_id q = transaction_id r"
proof -
  obtain info u where u: "hget (instances r) (instance_id r) = Some info" "to_vec_objects M (handles_of r) = Some u"
    "overwrite 0 u (handle_content blocks X (rstate r) (instance_objects info)) \<in> S" "length u < 2 ^ 63"
    "rng (rstate r) + 2 * (2 * length (handle_content blocks X (rstate r) (instance_objects info)) + length u + 6) \<le> N"
    using room unfolding map_room_def by blast
  obtain sp ra where a: "repo_savepoint E M r = (Ok sp, ra)" "snapshot blocks S E M ra"
    "sp = \<lparr>sp_header = clone_header ra, sp_transaction = transaction_id ra\<rparr>" "transaction_id ra = transaction_id r"
    "rewritten blocks X S N info u r ra" "grows blocks X (rstate r) (rstate ra)"
    using repo_savepoint_ok [OF repo_inv_writable [where good = good, OF inv u(1) idle] u(2-5)] by blast
  note R = rewritten_inv [OF inv a(5) u(1)]
  have f: "objects ra = objects r" "heap ra = heap r" "next_addr ra = next_addr r" "instance_id ra = instance_id r"
    using a(5) unfolding rewritten_def by blast+
  have self: "extends blocks ra ra" using repo_step_extends [OF R(1)] by simp
  obtain k m q where q: "start_restore E M sp ra = (Ok k, q)"
    "kr_header k = clone_header ra" "kr_transaction k = transaction_id ra" "kr_instance k = instance_id ra"
    "hget m = hget (handles_of ra)" "hwf m" "staged m (kr_objects k) q" "prepared blocks ra q"
    using start_restore_ok [OF a(2) self] unfolding a(3) by blast
  note p = prepared_fields [OF q(8)]
  have "extends blocks r0 ra" if "extends blocks r0 r" for r0
    using that f a(6) by (auto simp: extends_def grows_def same_rest_def addr_ok_def)
  then have keep: "\<forall>r0. extends blocks r0 r \<longrightarrow> extends blocks r0 q" using prepared_extends [OF _ q(8)] by blast
  have fresh: "fresh_ids blocks X N (rstate q)"
    using repo_invD(1) [OF R(1)] store_eq_fields(6,8) [OF p(1)] by (simp add: direct_inv_def fresh_ids_def)
  have meta: "metadata (rstate q) = metadata (rstate r)" "transactions (rstate q) = {}"
    using idle(2) a(6) store_eq_fields [OF p(1)] by (simp_all add: grows_def same_rest_def)
  show ?thesis using a(1,4) q(1-7) repo_inv_0 [OF R(1)] R(2) prepared_extends [OF self q(8)] keep fresh meta p(4,5) f(4)
    by (intro exI [of _ sp] exI [of _ ra] exI [of _ k] exI [of _ m] exI [of _ q]) simp
qed

text \<open>
  With a backup \<open>b\<close> of \<open>ra\<close> prepared, the repository goes to the savepoint of \<open>q1\<close> and comes back; the
  objects of the savepoint stay prepared.
\<close>

lemma visit_savepoint:
  assumes c: "snapshot blocks S E M q1" "repo_inv blocks X S 0 q1" "extends blocks q1 q" "transaction_id q = transaction_id q1"
    and b: "repo_inv blocks X S 0 ra" "extends blocks ra q" "kr_header b = clone_header ra" "kr_transaction b = transaction_id q"
      "kr_instance b = instance_id ra" "hget mb = hget (handles_of ra)" "hwf mb" "staged mb (kr_objects b) q"
    and fresh: "fresh_ids blocks X N (rstate q)"
  shows "\<exists>k m p p'. start_restore E M \<lparr>sp_header = clone_header q1, sp_transaction = transaction_id q1\<rparr> q = (Ok k, p) \<and>
    finish_restore k p = (Ok True, p') \<and> repo_inv blocks X S N p' \<and> repo_map blocks X p' = repo_map blocks X q1 \<and>
    kr_header k = clone_header q1 \<and> kr_transaction k = transaction_id q \<and> kr_instance k = instance_id q1 \<and>
    hget m = hget (handles_of q1) \<and> hwf m \<and>
    (\<forall>s. store_eq blocks (rstate p') s \<longrightarrow> (\<exists>u. finish_restore_with (set (hvalues (kr_objects k))) b (p'\<lparr>rstate := s\<rparr>) = (Ok True, u) \<and>
       repo_inv blocks X S N u \<and> repo_map blocks X u = repo_map blocks X ra \<and> staged m (kr_objects k) u \<and> extends blocks q1 u \<and>
       metadata (rstate u) = metadata (rstate q) \<and> transactions (rstate u) = transactions (rstate q) \<and>
       instance_id u = instance_id q \<and> transaction_id u = transaction_id q))"
proof -
  obtain k m p where
    k: "start_restore E M \<lparr>sp_header = clone_header q1, sp_transaction = transaction_id q1\<rparr> q = (Ok k, p)"
    "kr_header k = clone_header q1" "kr_transaction k = transaction_id q1"
    "kr_instance k = instance_id q1" "hget m = hget (handles_of q1)" "hwf m" "staged m (kr_objects k) p" "prepared blocks q p"
    "\<forall>a \<in> set (hvalues (kr_objects k)). next_addr q \<le> a"
    using start_restore_ok [OF c(1,3,4)] by blast
  note P = prepared_fields [OF k(8)]
  have apart: "set (hvalues (kr_objects b)) \<inter> set (hvalues (kr_objects k)) = {}" using k(9) b(8) by (fastforce simp: staged_def)
  have "fresh_ids blocks X N (rstate p)" using fresh store_eq_fields(6,8) [OF P(1)] by (simp add: fresh_ids_def)
  moreover have "kr_transaction k = transaction_id p" using k(3) P(5) c(4) by simp
  ultimately obtain old where f: "finish_restore k p = (Ok True, install old (kr_objects k) (put_header (clone_header q1) p))"
    "set old \<subseteq> set (hvalues (objects p))"
    "repo_inv blocks X S N (install old (kr_objects k) (put_header (clone_header q1) p))"
    "repo_map blocks X (install old (kr_objects k) (put_header (clone_header q1) p)) = repo_map blocks X q1"
    using finish_restore_ok [OF c(2) prepared_extends [OF c(3) k(8)] _ k(2) _ k(4-7), of N "{}"]
    unfolding finish_restore_none by auto
  let ?p = "install old (kr_objects k) (put_header (clone_header q1) p)"
  have "\<exists>u. finish_restore_with (set (hvalues (kr_objects k))) b (?p\<lparr>rstate := s\<rparr>) = (Ok True, u) \<and>
       repo_inv blocks X S N u \<and> repo_map blocks X u = repo_map blocks X ra \<and> staged m (kr_objects k) u \<and> extends blocks q1 u \<and>
       metadata (rstate u) = metadata (rstate q) \<and> transactions (rstate u) = transactions (rstate q) \<and>
       instance_id u = instance_id q \<and> transaction_id u = transaction_id q" if s: "store_eq blocks (rstate ?p) s" for s
  proof -
    let ?t = "?p\<lparr>rstate := s\<rparr>"
    have keep: "extends blocks r0 ?t" if "extends blocks r0 q" for r0
    proof -
      have "extends blocks r0 (put_header (clone_header q1) p)" using prepared_extends [OF that k(8)] by simp
      moreover have "set old \<inter> set (hvalues (kr_objects k)) = {}" using f(2) k(7) by (auto simp: staged_def)
      ultimately have "extends blocks r0 ?p" using k(7) by (intro extends_install [OF _ _ k(6)]) simp_all
      then show ?thesis using store_eq_fields [OF s] by (simp add: extends_def addr_ok_def)
    qed
    have sb: "staged mb (kr_objects b) ?p"
      using prepared_staged [OF b(8) k(8)] f(2) apart by (intro staged_install) (auto simp: staged_def put_header_def)
    have t: "staged mb (kr_objects b) ?t" using sb by (simp add: staged_def)
    have "fresh_ids blocks X N (rstate ?t)"
      using repo_invD(1) [OF f(3)] store_eq_fields(6,8) [OF s] by (simp add: direct_inv_def fresh_ids_def)
    moreover have "kr_transaction b = transaction_id ?t" using b(4) P(5) by (simp add: put_header_def)
    ultimately obtain old' where
      u: "finish_restore_with (set (hvalues (kr_objects k))) b ?t = (Ok True, install old' (kr_objects b) (put_header (clone_header ra) ?t))"
      "set old' \<subseteq> set (hvalues (objects ?t)) - set (hvalues (kr_objects k))"
      "repo_inv blocks X S N (install old' (kr_objects b) (put_header (clone_header ra) ?t))"
      "repo_map blocks X (install old' (kr_objects b) (put_header (clone_header ra) ?t)) = repo_map blocks X ra"
      using finish_restore_ok [OF b(1) keep [OF b(2)] _ b(3) _ b(5-7) t, of N "set (hvalues (kr_objects k))"] by blast
    let ?u = "install old' (kr_objects b) (put_header (clone_header ra) ?t)"
    have none: "set old' = {}" using u(2) by simp
    have "staged m (kr_objects k) (install old (kr_objects b) p)" using k(7) f(2) apart by (intro staged_install) (auto simp: staged_def)
    then have st: "staged m (kr_objects k) ?u" by (simp add: staged_def none put_header_def)
    have "extends blocks q1 ?u"
      using keep [OF c(3)] t none by (intro extends_install [OF _ _ b(7)]) simp_all
    moreover have "metadata (rstate ?u) = metadata (rstate q)" "transactions (rstate ?u) = transactions (rstate q)"
      "instance_id ?u = instance_id q" "transaction_id ?u = transaction_id q"
      using store_eq_fields [OF s] store_eq_fields [OF P(1)] P(4,5) by (simp_all add: put_header_def)
    ultimately show ?thesis using u(1,3,4) st by (intro exI [of _ ?u]) simp
  qed
  then show ?thesis using k(1-6) f(1,3,4) c(4) by (intro exI [of _ k] exI [of _ m] exI [of _ p] exI [of _ ?p]) simp
qed

end

section \<open>The state repository\<close>

text \<open>The state and the ID table can be written as \<open>v\<close> and \<open>w\<close>.\<close>

definition state_savable :: "'st state_codec \<Rightarrow> bytes set \<Rightarrow> nat \<Rightarrow> bytes \<Rightarrow> bytes \<Rightarrow> ('st, 's) state_repo \<Rightarrow> bool" where
  "state_savable C S N v w r \<longleftrightarrow> to_vec_state C (sr_state r) = Some v \<and> v \<in> S \<and> length v < 2 ^ 63 \<and>
     to_vec_ids C (sr_ids r) = Some w \<and> w \<in> S \<and> length w < 2 ^ 63 \<and>
     replaceable (sr_repo r) KStage \<and> unrepeated (sr_repo r) KState \<and> unrepeated (sr_repo r) KIdTable \<and>
     ids_left 4 (handle_table (sr_repo r)) \<and> rng (rstate (sr_repo r)) + 2 * (length v + length w + 12) \<le> N"

text \<open>The repository \<open>r'\<close> is back at the objects and the IDs of \<open>r\<close> and at the state \<open>st\<close>.\<close>

definition back_at ::
  "('s \<Rightarrow> uuid \<rightharpoonup> bytes) \<Rightarrow> ext \<Rightarrow> bytes set \<Rightarrow> nat \<Rightarrow> (chunking \<Rightarrow> bool) \<Rightarrow> ('st, 's) state_repo \<Rightarrow> 'st \<Rightarrow> ('st, 's) state_repo \<Rightarrow> bool" where
  "back_at bl X S N good r st r' \<longleftrightarrow> sr_state r' = st \<and> table_eq (sr_ids r') (sr_ids r) \<and> state_map bl X r' = state_map bl X r \<and>
     state_inv bl X S N good r' \<and> check_key r' = check_key r"

lemma back_atI:
  assumes "state_inv bl X S N good r" "sr_state r' = st" "table_eq (sr_ids r') (sr_ids r)" "repo_inv bl X S N (sr_repo r')"
    "\<And>i. repo_map bl X (sr_repo r') (KObject i) = state_map bl X r i"
    "cfg (rstate (sr_repo r')) = cfg (rstate (sr_repo r))" "transactions (rstate (sr_repo r')) = {}"
    "md_id (metadata (rstate (sr_repo r'))) = md_id (metadata (rstate (sr_repo r)))"
    "instance_id (sr_repo r') = instance_id (sr_repo r)"
  shows "back_at bl X S N good r st r'"
proof -
  have m: "state_map bl X r' = state_map bl X r" by (rule ext) (simp add: state_map_def assms(5) [unfolded state_map_def])
  then have "state_inv bl X S N good r'"
    using assms(1,4,6,7) table_eq_ids [OF assms(3)] unfolding state_inv_def by simp
  then show ?thesis using assms(2,3,8,9) m
    by (simp add: back_at_def check_key_def repo_get_info_def to_info_def fun_eq_iff)
qed

lemma back_at_trans: "back_at bl X S N good r s r1 \<Longrightarrow> back_at bl X S N good r1 st r2 \<Longrightarrow> back_at bl X S N good r st r2"
  by (simp add: back_at_def table_eq_def)

lemma check_key_ids:
  "check_key r' = check_key r \<longleftrightarrow> md_id (metadata (rstate (sr_repo r'))) = md_id (metadata (rstate (sr_repo r))) \<and>
     instance_id (sr_repo r') = instance_id (sr_repo r)"
proof
  assume eq: "check_key r' = check_key r"
  have "check_key r (new_id r 0)" by simp
  with eq have "check_key r' (new_id r 0)" by simp
  then show "md_id (metadata (rstate (sr_repo r'))) = md_id (metadata (rstate (sr_repo r))) \<and>
     instance_id (sr_repo r') = instance_id (sr_repo r)"
    by (simp add: check_key_def new_id_def repo_get_info_def to_info_def)
qed (simp add: check_key_def repo_get_info_def to_info_def fun_eq_iff)

text \<open>
  What a state repository relies on: the environment of its backing repository, whose keys are those of
  the state repository, and that serializing and deserializing an ID table gives an equal table.
\<close>

locale state_env = key_env E blocks cinv cfresh cpend S M good
  for E :: "('s, 'z) env" and blocks :: "'s \<Rightarrow> uuid \<rightharpoonup> bytes" and cinv cfresh cpend S and M :: "repo_key map_codec" and good +
  fixes C :: "'st state_codec"
  assumes ids_codec: "to_vec_ids C t = Some w \<Longrightarrow> \<exists>t'. fst (run_decoder slice_read (from_ids C) w) = Ok t' \<and> table_eq t' t"
begin

text \<open>A rollback reads the committed state; if it cannot be read, the backup is restored.\<close>

lemma state_rollback_run:
  assumes c: "committed blocks S E M q1" "repo_inv blocks X S 0 q1" "repo_map blocks X q1 KState = Some v"
    "repo_map blocks X q1 KIdTable = Some w" and inv: "state_inv blocks X S N good r2" and ext: "extends blocks q1 (sr_repo r2)"
    and room: "map_room blocks S E M N 6 (sr_repo r2)"
  shows "\<exists>ra k m q. repo_inv blocks X S 0 ra \<and> repo_map blocks X ra = repo_map blocks X (sr_repo r2) \<and> kr_header k = clone_header ra \<and>
    kr_transaction k = transaction_id q \<and> kr_instance k = instance_id ra \<and> hget m = hget (handles_of ra) \<and> hwf m \<and>
    staged m (kr_objects k) q \<and> extends blocks ra q \<and> repo_inv blocks X S N q \<and> repo_map blocks X q = repo_map blocks X q1 \<and>
    metadata (rstate q) = metadata (rstate (sr_repo r2)) \<and> transactions (rstate q) = {} \<and> instance_id q = instance_id (sr_repo r2) \<and>
    state_rollback E M C r2 = (case saved_value C v w of
        Ok ss \<Rightarrow> (Ok (), put_saved ss (r2\<lparr>sr_repo := q\<rparr>))
      | Err e \<Rightarrow> bindR (on_key_repo (finish_restore k)) (\<lambda>_. throw e) (r2\<lparr>sr_repo := q\<rparr>)
      | Panic p \<Rightarrow> (Panic p, r2\<lparr>sr_repo := q\<rparr>)
      | Diverge \<Rightarrow> (Diverge, r2\<lparr>sr_repo := q\<rparr>))"
proof -
  note I = state_invD [OF inv]
  obtain sp ra k m q where b: "repo_savepoint E M (sr_repo r2) = (Ok sp, ra)" "start_restore E M sp ra = (Ok k, q)"
    "repo_inv blocks X S 0 ra" "repo_map blocks X ra = repo_map blocks X (sr_repo r2)"
    "kr_header k = clone_header ra" "kr_transaction k = transaction_id (sr_repo r2)" "kr_instance k = instance_id ra"
    "hget m = hget (handles_of ra)" "hwf m" "staged m (kr_objects k) q"
    "extends blocks ra q" "\<forall>r0. extends blocks r0 (sr_repo r2) \<longrightarrow> extends blocks r0 q" "fresh_ids blocks X N (rstate q)"
    "metadata (rstate q) = metadata (rstate (sr_repo r2))" "transactions (rstate q) = {}" "instance_id q = instance_id (sr_repo r2)"
    "transaction_id q = transaction_id (sr_repo r2)"
    using backup_ok [OF I(1-3) room] by blast
  have "extends blocks q1 q" using b(12) ext by blast
  from repo_rollback_inv [OF c(1,2) this b(13)] obtain q3 where
    q3: "repo_rollback E M q = (Ok (), q3)" "repo_inv blocks X S N q3" "repo_map blocks X q3 = repo_map blocks X q1"
    "metadata (rstate q3) = metadata (rstate q)" "transactions (rstate q3) = transactions (rstate q)"
    "instance_id q3 = instance_id q" "transaction_id q3 = transaction_id q" "extends blocks ra q3" "staged m (kr_objects k) q3"
    using b(10,11) by blast
  obtain s where s: "read_state E C q3 = (saved_value C v w, q3\<lparr>rstate := s\<rparr>)" "store_eq blocks (rstate q3) s"
    using read_state_ok [OF q3(2), of v w C] c(3,4) unfolding q3(3) by blast
  let ?q = "q3\<lparr>rstate := s\<rparr>"
  note R = repo_store_eq [OF q3(2) s(2)]
  have keep: "staged m (kr_objects k) ?q" "extends blocks ra ?q" "repo_map blocks X ?q = repo_map blocks X q1"
    "metadata s = metadata (rstate (sr_repo r2))" "transactions s = {}"
    using q3(3-5,8,9) b(14,15) R(3) store_eq_fields [OF s(2)] by (simp_all add: staged_def extends_def addr_ok_def)
  have "state_rollback E M C r2 = (case saved_value C v w of
        Ok ss \<Rightarrow> (Ok (), put_saved ss (r2\<lparr>sr_repo := ?q\<rparr>))
      | Err e \<Rightarrow> bindR (on_key_repo (finish_restore k)) (\<lambda>_. throw e) (r2\<lparr>sr_repo := ?q\<rparr>)
      | Panic p \<Rightarrow> (Panic p, r2\<lparr>sr_repo := ?q\<rparr>)
      | Diverge \<Rightarrow> (Diverge, r2\<lparr>sr_repo := ?q\<rparr>))"
    unfolding state_rollback_def by (simp add: bindR_def on_key_repo_def b(1,2) q3(1) s(1) split: result.split)
  then show ?thesis using b(3-9,16,17) q3(6,7) keep R(1)
    by (intro exI [of _ ra] exI [of _ k] exI [of _ m] exI [of _ ?q]) simp
qed

lemma state_rollback_ok:
  assumes c: "committed blocks S E M q1" "repo_inv blocks X S 0 q1" "repo_map blocks X q1 KState = Some v"
    "repo_map blocks X q1 KIdTable = Some w" and inv: "state_inv blocks X S N good r2" and ext: "extends blocks q1 (sr_repo r2)"
    and room: "map_room blocks S E M N 6 (sr_repo r2)"
  shows "saved_value C v w = Ok ss \<Longrightarrow> \<exists>r3. state_rollback E M C r2 = (Ok (), r3) \<and> sr_state r3 = ss_state ss \<and>
      sr_ids r3 = ss_ids ss \<and> repo_inv blocks X S N (sr_repo r3) \<and> repo_map blocks X (sr_repo r3) = repo_map blocks X q1 \<and>
      metadata (rstate (sr_repo r3)) = metadata (rstate (sr_repo r2)) \<and> transactions (rstate (sr_repo r3)) = {} \<and>
      instance_id (sr_repo r3) = instance_id (sr_repo r2)" (is "_ \<Longrightarrow> ?ok")
    and "saved_value C v w = Err e \<Longrightarrow> \<exists>r3. state_rollback E M C r2 = (Err e, r3) \<and> sr_state r3 = sr_state r2 \<and>
      sr_ids r3 = sr_ids r2 \<and> state_map blocks X r3 = state_map blocks X r2 \<and> state_inv blocks X S N good r3 \<and>
      check_key r3 = check_key r2" (is "_ \<Longrightarrow> ?error")
proof -
  obtain ra k m q where q: "repo_inv blocks X S 0 ra" "repo_map blocks X ra = repo_map blocks X (sr_repo r2)" "kr_header k = clone_header ra"
    "kr_transaction k = transaction_id q" "kr_instance k = instance_id ra" "hget m = hget (handles_of ra)" "hwf m"
    "staged m (kr_objects k) q" "extends blocks ra q" "repo_inv blocks X S N q" "repo_map blocks X q = repo_map blocks X q1"
    "metadata (rstate q) = metadata (rstate (sr_repo r2))" "transactions (rstate q) = {}" "instance_id q = instance_id (sr_repo r2)"
    and run: "state_rollback E M C r2 = (case saved_value C v w of
        Ok ss \<Rightarrow> (Ok (), put_saved ss (r2\<lparr>sr_repo := q\<rparr>))
      | Err e \<Rightarrow> bindR (on_key_repo (finish_restore k)) (\<lambda>_. throw e) (r2\<lparr>sr_repo := q\<rparr>)
      | Panic p \<Rightarrow> (Panic p, r2\<lparr>sr_repo := q\<rparr>)
      | Diverge \<Rightarrow> (Diverge, r2\<lparr>sr_repo := q\<rparr>))"
    using state_rollback_run [OF assms] by blast
  show ?ok if "saved_value C v w = Ok ss" using run that q(10-14) by (simp add: put_saved_def)
  have "fresh_ids blocks X N (rstate q)" using repo_invD(1) [OF q(10)] by (simp add: direct_inv_def)
  from finish_restore_ok [OF q(1,9) this q(3-8), of "{}"] obtain old where
    f: "finish_restore_with {} k q = (Ok True, install old (kr_objects k) (put_header (clone_header ra) q))"
    "repo_inv blocks X S N (install old (kr_objects k) (put_header (clone_header ra) q))"
    "repo_map blocks X (install old (kr_objects k) (put_header (clone_header ra) q)) = repo_map blocks X ra"
    by blast
  let ?q = "install old (kr_objects k) (put_header (clone_header ra) q)"
  have "finish_restore k q = (Ok True, ?q)" using f(1) by (simp only: finish_restore_none)
  moreover have "state_inv blocks X S N good (r2\<lparr>sr_repo := ?q\<rparr>)" "state_map blocks X (r2\<lparr>sr_repo := ?q\<rparr>) = state_map blocks X r2"
    "check_key (r2\<lparr>sr_repo := ?q\<rparr>) = check_key r2"
    using state_inv_repo [OF inv f(2)] f(3) q(2,12-14) by (simp_all add: put_header_def)
  ultimately show ?error if "saved_value C v w = Err e" using run that by (simp add: bindR_def on_key_repo_def)
qed

text \<open>Starting a restore reads the state of the savepoint and changes nothing; finishing it goes there.\<close>

lemma state_start_restore_ok:
  assumes c: "snapshot blocks S E M q1" "repo_inv blocks X S 0 q1" "repo_map blocks X q1 KState = Some v"
    "repo_map blocks X q1 KIdTable = Some w" and inv: "state_inv blocks X S N good r2" and ext: "extends blocks q1 (sr_repo r2)"
    and tr: "transaction_id (sr_repo r2) = transaction_id q1" and room: "map_room blocks S E M N 6 (sr_repo r2)"
    and sp: "sp = \<lparr>sp_header = clone_header q1, sp_transaction = transaction_id q1\<rparr>"
  shows "\<exists>k m q. state_start_restore E M C sp r2 = (case saved_value C v w of
        Ok ss \<Rightarrow> (Ok \<lparr>str_state = ss, str_restore = k\<rparr>, r2\<lparr>sr_repo := q\<rparr>)
      | Err e \<Rightarrow> (Err e, r2\<lparr>sr_repo := q\<rparr>)
      | x \<Rightarrow> state_start_restore E M C sp r2) \<and>
    state_inv blocks X S N good (r2\<lparr>sr_repo := q\<rparr>) \<and> state_map blocks X (r2\<lparr>sr_repo := q\<rparr>) = state_map blocks X r2 \<and>
    check_key (r2\<lparr>sr_repo := q\<rparr>) = check_key r2 \<and>
    kr_header k = clone_header q1 \<and> kr_transaction k = transaction_id q \<and> kr_instance k = instance_id q1 \<and>
    hget m = hget (handles_of q1) \<and> hwf m \<and> staged m (kr_objects k) q \<and> extends blocks q1 q \<and>
    metadata (rstate q) = metadata (rstate (sr_repo r2)) \<and> transactions (rstate q) = {} \<and> instance_id q = instance_id (sr_repo r2)"
proof -
  note I = state_invD [OF inv]
  obtain sb ra b mb q where b: "repo_savepoint E M (sr_repo r2) = (Ok sb, ra)" "start_restore E M sb ra = (Ok b, q)"
    "repo_inv blocks X S 0 ra" "repo_map blocks X ra = repo_map blocks X (sr_repo r2)"
    "kr_header b = clone_header ra" "kr_transaction b = transaction_id (sr_repo r2)" "kr_instance b = instance_id ra"
    "hget mb = hget (handles_of ra)" "hwf mb" "staged mb (kr_objects b) q"
    "extends blocks ra q" "extends blocks q1 q" "fresh_ids blocks X N (rstate q)"
    and q: "metadata (rstate q) = metadata (rstate (sr_repo r2))" "transactions (rstate q) = {}" "instance_id q = instance_id (sr_repo r2)"
    "transaction_id q = transaction_id (sr_repo r2)"
    using backup_ok [OF I(1-3) room] ext by blast
  have tq: "transaction_id q = transaction_id q1" "kr_transaction b = transaction_id q" using q(4) tr b(6) by simp_all
  obtain k m p p' where k: "start_restore E M sp q = (Ok k, p)" "finish_restore k p = (Ok True, p')" "repo_inv blocks X S N p'"
    "repo_map blocks X p' = repo_map blocks X q1" "kr_header k = clone_header q1" "kr_transaction k = transaction_id q"
    "kr_instance k = instance_id q1" "hget m = hget (handles_of q1)" "hwf m"
    and home: "\<And>s. store_eq blocks (rstate p') s \<Longrightarrow> \<exists>u. finish_restore_with (set (hvalues (kr_objects k))) b (p'\<lparr>rstate := s\<rparr>) = (Ok True, u) \<and>
       repo_inv blocks X S N u \<and> repo_map blocks X u = repo_map blocks X ra \<and> staged m (kr_objects k) u \<and> extends blocks q1 u \<and>
       metadata (rstate u) = metadata (rstate q) \<and> transactions (rstate u) = transactions (rstate q) \<and>
       instance_id u = instance_id q \<and> transaction_id u = transaction_id q"
    using visit_savepoint [OF c(1,2) b(12) tq(1) b(3,11,5) tq(2) b(7-10,13)] unfolding sp by blast
  obtain s where s: "read_state E C p' = (saved_value C v w, p'\<lparr>rstate := s\<rparr>)" "store_eq blocks (rstate p') s"
    using read_state_ok [OF k(3), of v w C] c(3,4) unfolding k(4) by blast
  obtain u where u: "finish_restore_with (set (hvalues (kr_objects k))) b (p'\<lparr>rstate := s\<rparr>) = (Ok True, u)"
    "repo_inv blocks X S N u" "repo_map blocks X u = repo_map blocks X (sr_repo r2)" "staged m (kr_objects k) u" "extends blocks q1 u"
    "metadata (rstate u) = metadata (rstate (sr_repo r2))" "transactions (rstate u) = {}" "instance_id u = instance_id (sr_repo r2)"
    "transaction_id u = transaction_id q"
    using home [OF s(2)] b(4) q by auto
  have "state_start_restore E M C sp r2 = (case saved_value C v w of
        Ok ss \<Rightarrow> (Ok \<lparr>str_state = ss, str_restore = k\<rparr>, r2\<lparr>sr_repo := u\<rparr>)
      | Err e \<Rightarrow> (Err e, r2\<lparr>sr_repo := u\<rparr>)
      | x \<Rightarrow> state_start_restore E M C sp r2)"
    unfolding state_start_restore_def
    by (simp add: bindR_def on_key_repo_def b(1,2) k(1,2) s(1) u(1) split: result.split)
  moreover have "state_inv blocks X S N good (r2\<lparr>sr_repo := u\<rparr>)" "state_map blocks X (r2\<lparr>sr_repo := u\<rparr>) = state_map blocks X r2"
    "check_key (r2\<lparr>sr_repo := u\<rparr>) = check_key r2"
    using state_inv_repo [OF inv u(2,3)] u(6-8) by simp_all
  ultimately show ?thesis using k(5-9) u by (intro exI [of _ k] exI [of _ m] exI [of _ u]) simp
qed

lemma state_finish_restore_ok:
  assumes c: "repo_inv blocks X S 0 q1" and inv: "state_inv blocks X S N good r"
    and k: "kr_header k = clone_header q1" "kr_transaction k = transaction_id (sr_repo r)" "kr_instance k = instance_id q1"
    and m: "hget m = hget (handles_of q1)" "hwf m" "staged m (kr_objects k) (sr_repo r)" "extends blocks q1 (sr_repo r)"
  shows "\<exists>r'. state_finish_restore \<lparr>str_state = ss, str_restore = k\<rparr> r = (Ok True, r') \<and> sr_state r' = ss_state ss \<and>
      sr_ids r' = ss_ids ss \<and> repo_inv blocks X S N (sr_repo r') \<and> repo_map blocks X (sr_repo r') = repo_map blocks X q1 \<and>
      metadata (rstate (sr_repo r')) = metadata (rstate (sr_repo r)) \<and> transactions (rstate (sr_repo r')) = {} \<and>
      instance_id (sr_repo r') = instance_id (sr_repo r)"
proof -
  note I = state_invD [OF inv]
  have "fresh_ids blocks X N (rstate (sr_repo r))" using repo_invD(1) [OF I(1)] by (simp add: direct_inv_def)
  from finish_restore_ok [OF c m(4) this k m(1-3), of "{}"] obtain old where
    f: "finish_restore k (sr_repo r) = (Ok True, install old (kr_objects k) (put_header (clone_header q1) (sr_repo r)))"
    "repo_inv blocks X S N (install old (kr_objects k) (put_header (clone_header q1) (sr_repo r)))"
    "repo_map blocks X (install old (kr_objects k) (put_header (clone_header q1) (sr_repo r))) = repo_map blocks X q1"
    unfolding finish_restore_none by blast
  then show ?thesis using I(3) by (simp add: state_finish_restore_def bindR_def on_key_repo_def put_saved_def put_header_def)
qed

lemma state_written:
  assumes inv: "state_inv blocks X S N good r" and v: "state_savable C S N v w r"
  shows "\<exists>q. write_state E C r = (Ok (), q) \<and> state_inv blocks X S N good q \<and> state_map blocks X q = state_map blocks X r \<and>
    repo_map blocks X (sr_repo q) KState = Some v \<and> repo_map blocks X (sr_repo q) KIdTable = Some w \<and>
    sr_state q = sr_state r \<and> sr_ids q = sr_ids r \<and> check_key q = check_key r \<and> repo_step blocks (sr_repo r) (sr_repo q) \<and>
    rng (rstate (sr_repo q)) \<le> rng (rstate (sr_repo r)) + 2 * (length v + length w + 12)"
proof -
  have left: "ids_left (4 + 0) (handle_table (sr_repo r))" using v by (simp add: state_savable_def)
  obtain q where q: "write_state E C r = (Ok (), q)" "state_inv blocks X S N good q" "state_step blocks {KStage, KState, KIdTable} r q"
    "repo_map blocks X (sr_repo q) = (repo_map blocks X (sr_repo r))(KStage \<mapsto> w, KState \<mapsto> v, KIdTable \<mapsto> w)"
    "sr_state q = sr_state r" "sr_ids q = sr_ids r"
    "rng (rstate (sr_repo q)) \<le> rng (rstate (sr_repo r)) + 2 * (length v + length w + 12)"
    using write_state_ok [OF inv _ _ _ left, of C v w] v unfolding state_savable_def by blast
  have "state_map blocks X q = state_map blocks X r" by (rule ext) (simp add: state_map_def q(4))
  then show ?thesis using q state_step_check [OF q(3)] by (auto simp: state_step_def)
qed

lemma rewritten_at:
  assumes inv: "state_inv blocks X S N good r" and v: "state_savable C S N v w r" and q: "write_state E C r = (Ok (), q)"
    and p: "hget (instances (sr_repo q)) (instance_id (sr_repo q)) = Some info" "rewritten blocks X S N info u (sr_repo q) p"
  shows "back_at blocks X S N good r (sr_state r) (q\<lparr>sr_repo := p\<rparr>)" "repo_map blocks X p KState = Some v"
    "repo_map blocks X p KIdTable = Some w" "to_vec_ids C (sr_ids r) = Some w"
proof -
  have w: "state_inv blocks X S N good q" "state_map blocks X q = state_map blocks X r" "repo_map blocks X (sr_repo q) KState = Some v"
    "repo_map blocks X (sr_repo q) KIdTable = Some w" "sr_state q = sr_state r" "sr_ids q = sr_ids r" "check_key q = check_key r"
    using state_written [OF inv v] q by auto
  note R = rewritten_inv [OF state_invD(1) [OF w(1)] p(2,1)]
  have f: "cfg (rstate p) = cfg (rstate (sr_repo q))" "transactions (rstate p) = {}" "instance_id p = instance_id (sr_repo q)"
    "md_id (metadata (rstate p)) = md_id (metadata (rstate (sr_repo q)))"
    using p(2) state_invD(3) [OF w(1)] unfolding rewritten_def by simp_all
  show "back_at blocks X S N good r (sr_state r) (q\<lparr>sr_repo := p\<rparr>)"
    using state_inv_repo [OF w(1) R(1,2) f] w(2,5-7) by (simp add: back_at_def table_eq_def)
  show "repo_map blocks X p KState = Some v" "repo_map blocks X p KIdTable = Some w" "to_vec_ids C (sr_ids r) = Some w"
    using R(2) w(3,4) v by (simp_all add: state_savable_def)
qed

text \<open>A commit writes the state and the ID table, then commits the backing repository.\<close>

lemma state_commit_ok:
  assumes inv: "state_inv blocks X S N good r" and v: "state_savable C S N v w r" and q: "write_state E C r = (Ok (), q)"
    and room: "map_room blocks S E M N 8 (sr_repo q)"
  shows "\<exists>p info u. state_commit E M C r = (Ok (), q\<lparr>sr_repo := p\<rparr>) \<and> committed blocks S E M p \<and>
    hget (instances (sr_repo q)) (instance_id (sr_repo q)) = Some info \<and> to_vec_objects M (handles_of p) = Some u \<and>
    rewritten blocks X S N info u (sr_repo q) p \<and> rng (rstate p) \<le> rng (rstate (sr_repo q)) +
      2 * (2 * length (handle_content blocks X (rstate (sr_repo q)) (instance_objects info)) + length u + 8)"
proof -
  have "state_inv blocks X S N good q" using state_written [OF inv v] q by auto
  note I = state_invD [OF this]
  obtain info u where u: "hget (instances (sr_repo q)) (instance_id (sr_repo q)) = Some info"
    "to_vec_objects M (handles_of (sr_repo q)) = Some u"
    "overwrite 0 u (handle_content blocks X (rstate (sr_repo q)) (instance_objects info)) \<in> S" "length u < 2 ^ 63"
    "rng (rstate (sr_repo q)) + 2 * (2 * length (handle_content blocks X (rstate (sr_repo q)) (instance_objects info)) + length u + 8) \<le> N"
    using room unfolding map_room_def by blast
  from repo_commit_ok [OF repo_inv_writable [where good = good, OF I(1) u(1) I(2,3)] u(2-5)] u(1,2) show ?thesis
    by (auto simp: state_commit_def bindR_def q on_key_repo_def)
qed

lemma state_savepoint_ok:
  assumes inv: "state_inv blocks X S N good r" and v: "state_savable C S N v w r" and q: "write_state E C r = (Ok (), q)"
    and room: "map_room blocks S E M N 6 (sr_repo q)"
  shows "\<exists>p info u. state_savepoint E M C r =
      (Ok \<lparr>sp_header = clone_header p, sp_transaction = transaction_id p\<rparr>, q\<lparr>sr_repo := p\<rparr>) \<and>
    snapshot blocks S E M p \<and> transaction_id p = transaction_id (sr_repo r) \<and>
    hget (instances (sr_repo q)) (instance_id (sr_repo q)) = Some info \<and> to_vec_objects M (handles_of p) = Some u \<and>
    rewritten blocks X S N info u (sr_repo q) p \<and> rng (rstate p) \<le> rng (rstate (sr_repo q)) +
      2 * (2 * length (handle_content blocks X (rstate (sr_repo q)) (instance_objects info)) + length u + 6)"
proof -
  have w: "state_inv blocks X S N good q" "repo_step blocks (sr_repo r) (sr_repo q)" using state_written [OF inv v] q by auto
  note I = state_invD [OF w(1)]
  obtain info u where u: "hget (instances (sr_repo q)) (instance_id (sr_repo q)) = Some info"
    "to_vec_objects M (handles_of (sr_repo q)) = Some u"
    "overwrite 0 u (handle_content blocks X (rstate (sr_repo q)) (instance_objects info)) \<in> S" "length u < 2 ^ 63"
    "rng (rstate (sr_repo q)) + 2 * (2 * length (handle_content blocks X (rstate (sr_repo q)) (instance_objects info)) + length u + 6) \<le> N"
    using room unfolding map_room_def by blast
  obtain sp p where p: "repo_savepoint E M (sr_repo q) = (Ok sp, p)" "snapshot blocks S E M p" "handles_of p = handles_of (sr_repo q)"
    "sp = \<lparr>sp_header = clone_header p, sp_transaction = transaction_id p\<rparr>" "transaction_id p = transaction_id (sr_repo q)"
    "rewritten blocks X S N info u (sr_repo q) p" "rng (rstate p) \<le> rng (rstate (sr_repo q)) +
      2 * (2 * length (handle_content blocks X (rstate (sr_repo q)) (instance_objects info)) + length u + 6)"
    using repo_savepoint_ok [OF repo_inv_writable [where good = good, OF I(1) u(1) I(2,3)] u(2-5)] by blast
  then show ?thesis using u(1,2) w(2)
    by (intro exI [of _ p] exI [of _ info] exI [of _ u]) (simp add: state_savepoint_def bindR_def q on_key_repo_def repo_step_def)
qed

text \<open>From a committed state that \<open>r\<close> was written as, a rollback goes back to \<open>r\<close>.\<close>

lemma rollback_back:
  assumes inv: "state_inv blocks X S N good r" and at: "back_at blocks X S N good r (sr_state r) r1"
    and c: "committed blocks S E M (sr_repo r1)" "repo_map blocks X (sr_repo r1) KState = Some v"
      "repo_map blocks X (sr_repo r1) KIdTable = Some w" "to_vec_ids C (sr_ids r) = Some w"
    and r2: "state_inv blocks X S N good r2" "extends blocks (sr_repo r1) (sr_repo r2)" "map_room blocks S E M N 6 (sr_repo r2)"
  shows "case fst (run_decoder slice_read (from_state C) v) of
      Ok st \<Rightarrow> \<exists>r3. state_rollback E M C r2 = (Ok (), r3) \<and> back_at blocks X S N good r st r3
    | Err e \<Rightarrow> \<exists>r3. state_rollback E M C r2 = (Err e, r3) \<and> sr_ids r3 = sr_ids r2 \<and> back_at blocks X S N good r2 (sr_state r2) r3
    | _ \<Rightarrow> True"
proof -
  obtain t where t: "fst (run_decoder slice_read (from_ids C) w) = Ok t" "table_eq t (sr_ids r)" using ids_codec [OF c(4)] by blast
  have inv1: "state_inv blocks X S N good r1" and t1: "table_eq t (sr_ids r1)" using at t(2) by (simp_all add: back_at_def table_eq_def)
  note run = state_rollback_ok [OF c(1) repo_inv_0 [OF state_invD(1) [OF inv1]] c(2,3) r2]
  show ?thesis
  proof (cases "fst (run_decoder slice_read (from_state C) v)")
    case (Ok st)
    obtain r3 where r3: "state_rollback E M C r2 = (Ok (), r3)" "sr_state r3 = st" "sr_ids r3 = t" "repo_inv blocks X S N (sr_repo r3)"
      "repo_map blocks X (sr_repo r3) = repo_map blocks X (sr_repo r1)" "metadata (rstate (sr_repo r3)) = metadata (rstate (sr_repo r2))"
      "transactions (rstate (sr_repo r3)) = {}" "instance_id (sr_repo r3) = instance_id (sr_repo r2)"
      using run(1) [OF saved_value_Ok [OF Ok t(1)]] by auto
    have "back_at blocks X S N good r1 st r3"
      using r3 t1 r2(2) by (intro back_atI [OF inv1]) (simp_all add: extends_def state_map_def)
    then show ?thesis using r3(1) Ok back_at_trans [OF at] by auto
  next
    case (Err e)
    then have "saved_value C v w = Err e" by (simp add: saved_value_def bindR_def)
    from run(2) [OF this] show ?thesis using Err by (auto simp: back_at_def table_eq_def)
  qed simp_all
qed

text \<open>From a savepoint that \<open>r\<close> was written as, a restore goes back to \<open>r\<close>.\<close>

lemma restore_back:
  assumes inv: "state_inv blocks X S N good r" and at: "back_at blocks X S N good r (sr_state r) r1"
    and c: "snapshot blocks S E M (sr_repo r1)" "repo_map blocks X (sr_repo r1) KState = Some v"
      "repo_map blocks X (sr_repo r1) KIdTable = Some w" "to_vec_ids C (sr_ids r) = Some w"
    and r2: "state_inv blocks X S N good r2" "extends blocks (sr_repo r1) (sr_repo r2)"
      "transaction_id (sr_repo r2) = transaction_id (sr_repo r1)" "map_room blocks S E M N 6 (sr_repo r2)"
    and sp: "sp = \<lparr>sp_header = clone_header (sr_repo r1), sp_transaction = transaction_id (sr_repo r1)\<rparr>"
  shows "case fst (run_decoder slice_read (from_state C) v) of
      Ok st \<Rightarrow> \<exists>k r3 r4. state_start_restore E M C sp r2 = (Ok k, r3) \<and> sr_ids r3 = sr_ids r2 \<and>
        back_at blocks X S N good r2 (sr_state r2) r3 \<and> state_finish_restore k r3 = (Ok True, r4) \<and> back_at blocks X S N good r st r4
    | Err e \<Rightarrow> \<exists>r3. state_start_restore E M C sp r2 = (Err e, r3) \<and> sr_ids r3 = sr_ids r2 \<and> back_at blocks X S N good r2 (sr_state r2) r3
    | _ \<Rightarrow> True"
proof -
  obtain t where t: "fst (run_decoder slice_read (from_ids C) w) = Ok t" "table_eq t (sr_ids r)" using ids_codec [OF c(4)] by blast
  have inv1: "state_inv blocks X S N good r1" and t1: "table_eq t (sr_ids r1)" using at t(2) by (simp_all add: back_at_def table_eq_def)
  note R1 = repo_inv_0 [OF state_invD(1) [OF inv1]]
  obtain k m q where q: "state_start_restore E M C sp r2 = (case saved_value C v w of
        Ok ss \<Rightarrow> (Ok \<lparr>str_state = ss, str_restore = k\<rparr>, r2\<lparr>sr_repo := q\<rparr>)
      | Err e \<Rightarrow> (Err e, r2\<lparr>sr_repo := q\<rparr>)
      | x \<Rightarrow> state_start_restore E M C sp r2)"
    "state_inv blocks X S N good (r2\<lparr>sr_repo := q\<rparr>)" "state_map blocks X (r2\<lparr>sr_repo := q\<rparr>) = state_map blocks X r2"
    "check_key (r2\<lparr>sr_repo := q\<rparr>) = check_key r2"
    and k: "kr_header k = clone_header (sr_repo r1)" "kr_transaction k = transaction_id q" "kr_instance k = instance_id (sr_repo r1)"
    "hget m = hget (handles_of (sr_repo r1))" "hwf m" "staged m (kr_objects k) q" "extends blocks (sr_repo r1) q"
    using state_start_restore_ok [OF c(1) R1 c(2,3) r2 sp] by blast
  let ?r3 = "r2\<lparr>sr_repo := q\<rparr>"
  have same: "back_at blocks X S N good r2 (sr_state r2) ?r3" using q(2-4) by (simp add: back_at_def table_eq_def)
  show ?thesis
  proof (cases "fst (run_decoder slice_read (from_state C) v)")
    case (Ok st)
    obtain r4 where r4: "state_finish_restore \<lparr>str_state = \<lparr>ss_state = st, ss_ids = t\<rparr>, str_restore = k\<rparr> ?r3 = (Ok True, r4)"
      "sr_state r4 = st" "sr_ids r4 = t" "repo_inv blocks X S N (sr_repo r4)"
      "repo_map blocks X (sr_repo r4) = repo_map blocks X (sr_repo r1)" "metadata (rstate (sr_repo r4)) = metadata (rstate q)"
      "transactions (rstate (sr_repo r4)) = {}" "instance_id (sr_repo r4) = instance_id q"
      using state_finish_restore_ok [OF R1 q(2) k(1), of m "\<lparr>ss_state = st, ss_ids = t\<rparr>"] k(2-7) by auto
    have "back_at blocks X S N good r1 st r4"
      using r4 t1 k(7) by (intro back_atI [OF inv1]) (simp_all add: extends_def state_map_def)
    then show ?thesis using q(1) Ok saved_value_Ok [OF Ok t(1)] same r4(1) back_at_trans [OF at] by auto
  next
    case (Err e)
    then have "saved_value C v w = Err e" by (simp add: saved_value_def bindR_def)
    then show ?thesis using Err q(1) same by auto
  qed simp_all
qed

end

section \<open>A serializer for the concrete state repository\<close>

text \<open>Of the object maps, the codec knows the one of the concrete repository once its state is written.\<close>

definition ref_saved :: "(byte, (uuid, bytes) hmap) state_repo" where
  "ref_saved = snd (write_state ref_env ref_state_codec (ref_state 3))"

definition ref_saved_codec :: "repo_key map_codec" where
  "ref_saved_codec = \<lparr>to_vec_objects = (\<lambda>m. if m = handles_of (sr_repo ref_saved) then Some [1] else None),
     from_objects = Need 1 (\<lambda>b. if b = [1] then Decoded (handles_of (sr_repo ref_saved)) else DecodeError)\<rparr>"

interpretation ref_saved: state_env ref_env mem_blocks ref_cinv ref_cfresh ref_cpend UNIV ref_saved_codec good_chunking ref_state_codec
proof -
  have "fst (run_decoder slice_read (from_objects ref_saved_codec) b) = Ok m" if "to_vec_objects ref_saved_codec m = Some b" for m b
    using that by (auto simp: ref_saved_codec_def read_exact_loop.simps slice_read_def split: if_splits)
  then have "codec_laws ref_env ref_saved_codec" using ref_key.codecs unfolding codec_laws_def by blast
  then have key: "key_env ref_env mem_blocks ref_cinv ref_cfresh ref_cpend UNIV ref_saved_codec good_chunking"
    using ref_key.key_env_axioms unfolding key_env_def key_env_axioms_def by blast
  have "table_eq t t" for t by (simp add: table_eq_def)
  then have "\<exists>t'. fst (run_decoder slice_read (from_ids ref_state_codec) w) = Ok t' \<and> table_eq t' t"
    if "to_vec_ids ref_state_codec t = Some w" for t w
    using that by (auto simp: ref_state_codec_def read_exact_loop.simps slice_read_def split: if_splits)
  with key show "state_env ref_env mem_blocks ref_cinv ref_cfresh ref_cpend UNIV ref_saved_codec good_chunking ref_state_codec"
    unfolding state_env_def state_env_axioms_def by blast
qed

lemma ref_savable: "state_savable ref_state_codec UNIV 100 [3] [5] (ref_state 3)"
  using ref_keyed_replaceable
  by (auto simp: state_savable_def unrepeated_def ref_one_handles ids_left_def ref_rng ref_state_codec_def)

lemma ref_saved_facts:
  "write_state ref_env ref_state_codec (ref_state 3) = (Ok (), ref_saved)"
  "state_inv mem_blocks ref_ext UNIV 100 good_chunking ref_saved"
  "hget (instances (sr_repo ref_saved)) (instance_id (sr_repo ref_saved)) = Some ref_info"
  "rng (rstate (sr_repo ref_saved)) \<le> 29"
proof -
  obtain q where q: "write_state ref_env ref_state_codec (ref_state 3) = (Ok (), q)"
    "state_inv mem_blocks ref_ext UNIV 100 good_chunking q" "repo_step mem_blocks (sr_repo (ref_state 3)) (sr_repo q)"
    "rng (rstate (sr_repo q)) \<le> rng (rstate (sr_repo (ref_state 3))) + 2 * (length [3 :: byte] + length [5 :: byte] + 12)"
    using ref_saved.state_written [OF _ ref_savable] ref_state_inv [of "3 :: byte"] by auto
  have s: "ref_saved = q" by (simp add: ref_saved_def q(1))
  show "write_state ref_env ref_state_codec (ref_state 3) = (Ok (), ref_saved)" "state_inv mem_blocks ref_ext UNIV 100 good_chunking ref_saved"
    using q s by simp_all
  show "hget (instances (sr_repo ref_saved)) (instance_id (sr_repo ref_saved)) = Some ref_info"
    using q(3) unfolding s by (simp add: repo_step_def) (simp add: ref_one_def)
  show "rng (rstate (sr_repo ref_saved)) \<le> 29" using q(4) unfolding s by (simp add: ref_rng)
qed

lemma ref_saved_room: "n \<le> 8 \<Longrightarrow> map_room mem_blocks UNIV ref_env ref_saved_codec 100 n (sr_repo (snd (write_state ref_env ref_state_codec (ref_state 3))))"
  using ref_saved_facts
  by (auto simp: map_room_def ref_saved_codec_def handle_content_def ref_info_def)

lemma ref_state_decoded: "fst (run_decoder slice_read (from_state ref_state_codec) [3]) = Ok 3"
  by (simp add: ref_state_codec_def read_exact_loop.simps slice_read_def)

text \<open>Once its state is written, the object map of the concrete repository can be written again.\<close>

lemma ref_rewritten_room:
  assumes "hget (instances (sr_repo ref_saved)) (instance_id (sr_repo ref_saved)) = Some info"
    "to_vec_objects ref_saved_codec (handles_of p) = Some u" "rewritten mem_blocks ref_ext UNIV 100 info u (sr_repo ref_saved) p"
    "rng (rstate p) \<le> rng (rstate (sr_repo ref_saved)) +
      2 * (2 * length (handle_content mem_blocks ref_ext (rstate (sr_repo ref_saved)) (instance_objects info)) + length u + n)" "n \<le> 8"
  shows "map_room mem_blocks UNIV ref_env ref_saved_codec 100 6 p"
proof -
  have iu: "info = ref_info" "u = [1]" using assms(1,2) ref_saved_facts(3) by (auto simp: ref_saved_codec_def split: if_splits)
  show ?thesis using assms(2-5) ref_saved_facts(4) unfolding iu map_room_def rewritten_def
    by (auto simp: handle_content_def ref_info_def)
qed

lemma ref_committed_room:
  assumes "state_commit ref_env ref_saved_codec ref_state_codec (ref_state 3) = (Ok (), r1)"
  shows "map_room mem_blocks UNIV ref_env ref_saved_codec 100 6 (sr_repo r1)"
  using ref_saved.state_commit_ok [of 100 "ref_state 3" "[3]" "[5]" ref_saved] ref_savable ref_saved_facts(1) ref_saved_room [of 8]
    ref_state_inv [of "3 :: byte"] assms ref_rewritten_room [of _ _ _ 8] by auto

lemma ref_savepoint_room:
  assumes "state_savepoint ref_env ref_saved_codec ref_state_codec (ref_state 3) = (Ok sp, r1)"
  shows "map_room mem_blocks UNIV ref_env ref_saved_codec 100 6 (sr_repo r1) \<and>
    transaction_id (sr_repo r1) = transaction_id (sr_repo (ref_state (3 :: byte)))"
  using ref_saved.state_savepoint_ok [of 100 "ref_state 3" "[3]" "[5]" ref_saved] ref_savable ref_saved_facts(1) ref_saved_room [of 6]
    ref_state_inv [of "3 :: byte"] assms ref_rewritten_room [of _ _ _ 6] by auto

section \<open>Commit and rollback\<close>

text \<open>
  C4: A commit of a state repository is durable, the state with the objects.  A commit writes the
  state and the ID table and keeps the objects.  From whatever well-formed state the repository is in
  afterwards, as long as the blocks of the store are kept and nothing else is committed, a rollback
  brings back the objects, the IDs and what the serializer makes of the state; if the state cannot
  be deserialized, the rollback returns that error and the repository is as it was before.
\<close>

theorem state_commit_then_rollback:
  assumes env: "state_env E bl cinv cfresh cpend S M good C" and inv: "state_inv bl (ev_ext E) S N good r"
    and v: "state_savable C S N v w r" and room: "map_room bl S E M N 8 (sr_repo (snd (write_state E C r)))"
  shows "\<exists>r1. state_commit E M C r = (Ok (), r1) \<and> back_at bl (ev_ext E) S N good r (sr_state r) r1 \<and>
    (\<forall>r2. state_inv bl (ev_ext E) S N good r2 \<and> extends bl (sr_repo r1) (sr_repo r2) \<and> map_room bl S E M N 6 (sr_repo r2) \<longrightarrow>
       (case fst (run_decoder slice_read (from_state C) v) of
          Ok st \<Rightarrow> \<exists>r3. state_rollback E M C r2 = (Ok (), r3) \<and> back_at bl (ev_ext E) S N good r st r3
        | Err e \<Rightarrow> \<exists>r3. state_rollback E M C r2 = (Err e, r3) \<and> sr_ids r3 = sr_ids r2 \<and>
            back_at bl (ev_ext E) S N good r2 (sr_state r2) r3
        | _ \<Rightarrow> True))"
proof -
  obtain q where q: "write_state E C r = (Ok (), q)" using state_env.state_written [OF env inv v] by blast
  have "map_room bl S E M N 8 (sr_repo q)" using room q by simp
  from state_env.state_commit_ok [OF env inv v q this] obtain p info u where
    p: "state_commit E M C r = (Ok (), q\<lparr>sr_repo := p\<rparr>)" "committed bl S E M p"
    "hget (instances (sr_repo q)) (instance_id (sr_repo q)) = Some info" "rewritten bl (ev_ext E) S N info u (sr_repo q) p"
    by blast
  note W = state_env.rewritten_at [OF env inv v q p(3,4)]
  note B = state_env.rollback_back [OF env inv W(1), of v w]
  show ?thesis
    using p(1,2) W B by (intro exI [of _ "q\<lparr>sr_repo := p\<rparr>"]) simp
qed

theorem state_commit_then_rollback_witness:
  "\<exists>r1 r3. state_commit ref_env ref_saved_codec ref_state_codec (ref_state 3) = (Ok (), r1) \<and>
    state_rollback ref_env ref_saved_codec ref_state_codec (r1\<lparr>sr_state := 9\<rparr>) = (Ok (), r3) \<and> sr_state r3 = 3 \<and>
    state_map mem_blocks ref_ext r3 = [1 \<mapsto> [1, 2, 3, 0, 0]]"
proof -
  obtain r1 where r1: "state_commit ref_env ref_saved_codec ref_state_codec (ref_state 3) = (Ok (), r1)"
    "back_at mem_blocks ref_ext UNIV 100 good_chunking (ref_state 3) 3 r1"
    "\<forall>r2. state_inv mem_blocks ref_ext UNIV 100 good_chunking r2 \<and> extends mem_blocks (sr_repo r1) (sr_repo r2) \<and>
       map_room mem_blocks UNIV ref_env ref_saved_codec 100 6 (sr_repo r2) \<longrightarrow>
       (\<exists>r3. state_rollback ref_env ref_saved_codec ref_state_codec r2 = (Ok (), r3) \<and>
          back_at mem_blocks ref_ext UNIV 100 good_chunking (ref_state 3) 3 r3)"
    using state_commit_then_rollback [OF ref_saved.state_env_axioms _ ref_savable ref_saved_room] ref_state_inv [of "3 :: byte"]
    by (simp add: ref_state_decoded) blast
  have "state_inv mem_blocks ref_ext UNIV 100 good_chunking (r1\<lparr>sr_state := 9\<rparr>)" using r1(2) by (simp add: back_at_def)
  moreover have "extends mem_blocks (sr_repo r1) (sr_repo r1)"
    using calculation repo_step_extends [OF state_invD(1)] by fastforce
  ultimately obtain r3 where "state_rollback ref_env ref_saved_codec ref_state_codec (r1\<lparr>sr_state := 9\<rparr>) = (Ok (), r3)"
    "back_at mem_blocks ref_ext UNIV 100 good_chunking (ref_state 3) 3 r3"
    using r1(3) ref_committed_room [OF r1(1)] by fastforce
  then show ?thesis using r1(1) by (auto simp: back_at_def ref_state_contents)
qed

section \<open>Savepoints\<close>

text \<open>
  C5: A savepoint of a state repository covers the state with the objects.  Creating a savepoint
  changes neither.  In the same transaction, starting a restore reads the state of the savepoint and
  leaves the repository as it is, also if the state cannot be deserialized, which is then the error
  it returns; finishing the restore brings back the objects, the IDs and the state of the savepoint.
\<close>

theorem state_savepoint_then_restore:
  assumes env: "state_env E bl cinv cfresh cpend S M good C" and inv: "state_inv bl (ev_ext E) S N good r"
    and v: "state_savable C S N v w r" and room: "map_room bl S E M N 6 (sr_repo (snd (write_state E C r)))"
  shows "\<exists>sp r1. state_savepoint E M C r = (Ok sp, r1) \<and> back_at bl (ev_ext E) S N good r (sr_state r) r1 \<and>
    (\<forall>r2. state_inv bl (ev_ext E) S N good r2 \<and> extends bl (sr_repo r1) (sr_repo r2) \<and>
        transaction_id (sr_repo r2) = transaction_id (sr_repo r) \<and> map_room bl S E M N 6 (sr_repo r2) \<longrightarrow>
       (case fst (run_decoder slice_read (from_state C) v) of
          Ok st \<Rightarrow> \<exists>k r3 r4. state_start_restore E M C sp r2 = (Ok k, r3) \<and> sr_ids r3 = sr_ids r2 \<and>
            back_at bl (ev_ext E) S N good r2 (sr_state r2) r3 \<and>
            state_finish_restore k r3 = (Ok True, r4) \<and> back_at bl (ev_ext E) S N good r st r4
        | Err e \<Rightarrow> \<exists>r3. state_start_restore E M C sp r2 = (Err e, r3) \<and> sr_ids r3 = sr_ids r2 \<and>
            back_at bl (ev_ext E) S N good r2 (sr_state r2) r3
        | _ \<Rightarrow> True))"
proof -
  obtain q where q: "write_state E C r = (Ok (), q)" using state_env.state_written [OF env inv v] by blast
  have "map_room bl S E M N 6 (sr_repo q)" using room q by simp
  from state_env.state_savepoint_ok [OF env inv v q this] obtain p info u where
    p: "state_savepoint E M C r = (Ok \<lparr>sp_header = clone_header p, sp_transaction = transaction_id p\<rparr>, q\<lparr>sr_repo := p\<rparr>)"
    "snapshot bl S E M p" "transaction_id p = transaction_id (sr_repo r)"
    "hget (instances (sr_repo q)) (instance_id (sr_repo q)) = Some info" "rewritten bl (ev_ext E) S N info u (sr_repo q) p"
    by blast
  note W = state_env.rewritten_at [OF env inv v q p(4,5)]
  note B = state_env.restore_back [OF env inv W(1), of v w]
  show ?thesis
    using p(1-3) W B by (intro exI [of _ "\<lparr>sp_header = clone_header p, sp_transaction = transaction_id p\<rparr>"]
      exI [of _ "q\<lparr>sr_repo := p\<rparr>"]) simp
qed

theorem state_savepoint_then_restore_witness:
  "\<exists>sp r1 k r3 r4. state_savepoint ref_env ref_saved_codec ref_state_codec (ref_state 3) = (Ok sp, r1) \<and>
    state_start_restore ref_env ref_saved_codec ref_state_codec sp (r1\<lparr>sr_state := 9\<rparr>) = (Ok k, r3) \<and> sr_state r3 = 9 \<and>
    state_finish_restore k r3 = (Ok True, r4) \<and> sr_state r4 = 3 \<and> state_map mem_blocks ref_ext r4 = [1 \<mapsto> [1, 2, 3, 0, 0]]"
proof -
  obtain sp r1 where r1: "state_savepoint ref_env ref_saved_codec ref_state_codec (ref_state 3) = (Ok sp, r1)"
    "back_at mem_blocks ref_ext UNIV 100 good_chunking (ref_state 3) 3 r1"
    and home: "\<And>r2. state_inv mem_blocks ref_ext UNIV 100 good_chunking r2 \<Longrightarrow> extends mem_blocks (sr_repo r1) (sr_repo r2) \<Longrightarrow>
       transaction_id (sr_repo r2) = transaction_id (sr_repo (ref_state (3 :: byte))) \<Longrightarrow>
       map_room mem_blocks UNIV ref_env ref_saved_codec 100 6 (sr_repo r2) \<Longrightarrow>
       (\<exists>k r3 r4. state_start_restore ref_env ref_saved_codec ref_state_codec sp r2 = (Ok k, r3) \<and>
          back_at mem_blocks ref_ext UNIV 100 good_chunking r2 (sr_state r2) r3 \<and> state_finish_restore k r3 = (Ok True, r4) \<and>
          back_at mem_blocks ref_ext UNIV 100 good_chunking (ref_state 3) 3 r4)"
    using state_savepoint_then_restore [OF ref_saved.state_env_axioms _ ref_savable ref_saved_room] ref_state_inv [of "3 :: byte"]
    by (simp add: ref_state_decoded) blast
  have inv: "state_inv mem_blocks ref_ext UNIV 100 good_chunking (r1\<lparr>sr_state := 9\<rparr>)" using r1(2) by (simp add: back_at_def)
  then have "extends mem_blocks (sr_repo r1) (sr_repo r1)" using repo_step_extends [OF state_invD(1)] by fastforce
  with home [OF inv] ref_savepoint_room [OF r1(1)] r1(1) show ?thesis by (fastforce simp: back_at_def ref_state_contents)
qed

end
