(* ===== verification/Store_Repo.thy ===== *)
theory Store_Repo
  imports Store_Contracts State_Commit
begin

text \<open>
  Repositories on other stores than the one in memory: what the environment of a repository asks of its
  store is only that it is reliable, so the theorems on repositories, state repositories among them, hold on a directory too.
\<close>

definition with_store :: "'s data_store_ops \<Rightarrow> ('t, 'z) env \<Rightarrow> ('s, 'z) env" where
  "with_store D E = \<lparr>ev_store = D, ev_ext = ev_ext E, ev_zpaq = ev_zpaq E, to_vec_header = to_vec_header E,
     from_header = from_header E, to_vec_metadata = to_vec_metadata E, from_metadata = from_metadata E,
     uuid_as_bytes = uuid_as_bytes E, uuid_from_slice = uuid_from_slice E\<rparr>"

lemma key_env_with_store:
  assumes "reliable_store D bl" and "key_env E bl' cinv cfresh cpend S M good"
  shows "key_env (with_store D E) bl cinv cfresh cpend S M good"
  using assms
  by (simp add: with_store_def key_env_def key_env_axioms_def object_env_def object_env_axioms_def repo_env_def repo_env_axioms_def
      codec_laws_def)

interpretation dir_key: key_env "with_store (dir_state_store T) ref_env" state_blocks ref_cinv ref_cfresh ref_cpend UNIV
  ref_codec good_chunking for T
  by (rule key_env_with_store [OF directory_reliable ref_key.key_env_axioms])

interpretation dir_saved: state_env "with_store (dir_state_store T) ref_env" state_blocks ref_cinv ref_cfresh ref_cpend UNIV
  ref_saved_codec good_chunking ref_state_codec for T
  using key_env_with_store [OF directory_reliable ref_saved.key_env_axioms] ref_saved.ids_codec
  unfolding state_env_def state_env_axioms_def by blast

end
