(* ===== verification/Spec2Isabelle.thy ===== *)
theory Spec2Isabelle
  imports Repo_Refine Value_Repo Version_Repo Content_Repo File_Data File_Archive Fuse_Correct Store_Repo Open_Options
begin

text \<open>
  \<^bold>\<open>A verification of acid-store.\<close>

  acid-store is a library for transactional, deduplicated and encrypted object storage on top of a
  data store that only knows blocks.  Its parts, from the bottom up:

  \<^item> a \<^emph>\<open>data store\<close> maps block IDs to bytes (\<^verbatim>\<open>src/src/store\<close>): in memory, in files of a directory or of an SFTP or
    rclone server, in Redis, SQLite or S3;
  \<^item> the \<^emph>\<open>chunk store\<close> encodes blocks (compression, then encryption), stores them directly or
    concatenated in packs of a fixed size, and stores every chunk of data once, addressed by its hash,
    with the set of the handles that refer to it (\<^verbatim>\<open>src/src/repo/common/chunk_store.rs\<close>);
  \<^item> the \<^emph>\<open>object store\<close> presents a list of extents (chunks and holes) as a file with a seek position and
    a write transaction; a \<^emph>\<open>chunker\<close> cuts what is written (\<^verbatim>\<open>object_store.rs\<close>, \<^verbatim>\<open>chunking.rs\<close>,
    \<^verbatim>\<open>handle.rs\<close>);
  \<^item> the \<^emph>\<open>key repository\<close> maps keys to object handles, keeps several instances of such maps in one
    repository, and commits, rolls back, cleans, verifies and restores all of it through a header block
    and a metadata block (\<^verbatim>\<open>repository.rs\<close>, \<^verbatim>\<open>savepoint.rs\<close>, \<^verbatim>\<open>metadata.rs\<close>, \<^verbatim>\<open>state.rs\<close>);
  \<^item> \<^emph>\<open>opening and creating\<close> a repository derives the keys and takes the lock (\<^verbatim>\<open>open_options.rs\<close>);
  \<^item> the \<^emph>\<open>state repository\<close> gives out its own keys and keeps a value and the table of the keys in the
    repository below (\<^verbatim>\<open>src/src/repo/state\<close>); on these two rest the \<^emph>\<open>value\<close>, \<^emph>\<open>version\<close>, \<^emph>\<open>content\<close> and
    \<^emph>\<open>file\<close> repositories (\<^verbatim>\<open>src/src/repo/value\<close>, \<^verbatim>\<open>version\<close>, \<^verbatim>\<open>content\<close>, \<^verbatim>\<open>file\<close>), the last with a tree of
    paths (\<^verbatim>\<open>path_tree.rs\<close>), metadata and special files (\<^verbatim>\<open>metadata.rs\<close>, \<^verbatim>\<open>special.rs\<close>);
  \<^item> the \<^emph>\<open>FUSE adapter\<close> serves a file repository as a file system (\<^verbatim>\<open>src/src/repo/file/fuse\<close>).

  \<^bold>\<open>How the program is modelled.\<close>  An operation is a function from a state to a result and a state
  (\<^typ>\<open>('s, 'a) op\<close> of \<^verbatim>\<open>Prelude\<close>).  A result is a value, an \<^verbatim>\<open>Error\<close> of \<^verbatim>\<open>src/src/error.rs\<close>, a panic with its
  message, or \<^const>\<open>Diverge\<close> for a loop that never ends; the state is returned in every case, so that what
  an operation leaves behind when it fails is part of the model.  Structs are records, enums are
  datatypes, hash maps are association lists in the order of their iteration.  Identifiers are words
  of 64 and 128 bits; sizes and positions are natural numbers with the wrap-around of \<^verbatim>\<open>u32\<close>, \<^verbatim>\<open>u64\<close> and
  \<^verbatim>\<open>i64\<close> written out where the code adds, subtracts or casts them.  A loop whose termination depends on
  the data is a \<^verbatim>\<open>partial_function\<close> over options; no fuel is used anywhere.  A handle behind an \<^verbatim>\<open>Arc\<close> is
  an address in a heap, since objects refer to handles weakly.

  \<^bold>\<open>What is a parameter.\<close>  LZ4, libsodium (with key derivation), BLAKE3 and the source of random values
  are the fields of \<^typ>\<open>ext\<close> (\<^verbatim>\<open>Codec\<close>); their documented laws are \<^const>\<open>ext_laws\<close>: decompression undoes
  compression and decryption undoes encryption under the same key.  The ZPAQ chunker of \<^verbatim>\<open>cdchunking\<close> is
  a field of the environment, with the contract \<^verbatim>\<open>chunker_impl\<close>.  The MessagePack codec is given by
  serializers and decoders with round-trip laws (\<^verbatim>\<open>Repo_Correct\<close>).  Data stores are records of four operations;
  \<^verbatim>\<open>data_store\<close> and \<^verbatim>\<open>reliable_store\<close> are their contracts, and the in-memory store fulfils them.

  \<^bold>\<open>The theories.\<close>
  \<^item> \<^verbatim>\<open>Prelude\<close>: integers, errors, the monad of operations, hash maps, byte slices.
  \<^item> \<^verbatim>\<open>Id_Table\<close>: the two tables that hand out 64-bit IDs; both fulfil \<^verbatim>\<open>id_allocator\<close>.
  \<^item> \<^verbatim>\<open>Data_Store\<close>: the data store interface, the in-memory store, lock tables.
  \<^item> \<^verbatim>\<open>Chunking\<close>: the fixed chunker and the incremental chunker, proved for every \<^verbatim>\<open>chunker_impl\<close>.
  \<^item> \<^verbatim>\<open>Codec\<close>: configuration, compression, encryption, key derivation.
  \<^item> \<^verbatim>\<open>Handle\<close>: chunks, extents, handles, content IDs; the comparison of contents for every \<^verbatim>\<open>reader\<close>.
  \<^item> \<^verbatim>\<open>Chunk_Store\<close>: the block and chunk operations; \<^verbatim>\<open>Chunk_Correct\<close>: that chunks read back, for every
    reliable store (locale \<^verbatim>\<open>repo_env\<close>).
  \<^item> \<^verbatim>\<open>Object_Store\<close>: the object operations; \<^verbatim>\<open>Object_Correct\<close>: contents of an object and reading;
    \<^verbatim>\<open>Object_Write\<close>: the write transaction (locale \<^verbatim>\<open>object_env\<close>); \<^verbatim>\<open>Object_Contract\<close>: the contract of objects.
  \<^item> \<^verbatim>\<open>Key_Repo\<close>: the key repository with savepoints, instances, clean and object views; \<^verbatim>\<open>Repo_Correct\<close>:
    commit, rollback and restore (locale \<^verbatim>\<open>key_env\<close>); \<^verbatim>\<open>Ref_Env\<close>: a concrete environment that fulfils
    all contracts at once; \<^verbatim>\<open>Repo_Contract\<close>: the contract of the repository.
  \<^item> \<^verbatim>\<open>Repo_Objects\<close>, \<^verbatim>\<open>Repo_Refine\<close>: inserting, removing and copying objects refine a map from keys to
    contents; when removing and copying panic.
  \<^item> \<^verbatim>\<open>Open_Options\<close>: opening and creating.
  \<^item> \<^verbatim>\<open>State_Repo\<close>: the state repository; \<^verbatim>\<open>State_Correct\<close>: its invariant \<^verbatim>\<open>state_inv\<close> and what each operation
    does to the map \<^verbatim>\<open>state_map\<close> from keys to contents; \<^verbatim>\<open>State_Contract\<close>: the contract, and that the state
    survives being written and opened again; \<^verbatim>\<open>State_Commit\<close>: that commits and savepoints cover the state with
    the objects, and that a rollback or a restore that fails leaves both as they were (locale \<^verbatim>\<open>state_env\<close>).
  \<^item> \<^verbatim>\<open>Value_Repo\<close>, \<^verbatim>\<open>Version_Repo\<close>, \<^verbatim>\<open>Content_Repo\<close>: the operations of the three repositories, each with the
    invariant it keeps and the map it refines.
  \<^item> \<^verbatim>\<open>Path_Tree\<close>: the tree of paths, against a specification by maps from lists of segments; \<^verbatim>\<open>File_Repo\<close>: the
    operations on entries and trees; \<^verbatim>\<open>File_Correct\<close>, \<^verbatim>\<open>File_Contract\<close>: that they refine a map from paths to
    nodes; \<^verbatim>\<open>File_Data\<close>: opening files, metadata, creating with parents; \<^verbatim>\<open>File_Archive\<close>: copying from and to
    the local file system, and mounting.
  \<^item> \<^verbatim>\<open>Unix_Metadata\<close>, \<^verbatim>\<open>Fuse_Metadata\<close>: modes, times, access control lists and attributes, what is read from
    and written to a local file, the conversion to what FUSE expects; \<^verbatim>\<open>Metadata_Correct\<close>: that the
    permissions stay within their bits, and where conversions lose information.
  \<^item> \<^verbatim>\<open>Fuse_Tables\<close>: inodes, handles and open objects; \<^verbatim>\<open>Fuse_Fs\<close>: every request handler; \<^verbatim>\<open>Fuse_Correct\<close>:
    reading, where a write puts its data, and the requests that do not do what they mean to.
  \<^item> \<^verbatim>\<open>Store_Files\<close>: a file system in which every call may fail, and the directory store on it; \<^verbatim>\<open>Store_Correct\<close>: the
    format of UUIDs, what calls do to files, and that a write through a staging file is atomic whatever fails;
    \<^verbatim>\<open>Store_Reliable\<close>: without failures the directory store refines a map, and opening it; the directories with
    the layout of the store are a type, on which the store is a \<^verbatim>\<open>reliable_store\<close>.
  \<^item> \<^verbatim>\<open>Store_Remote\<close>, \<^verbatim>\<open>Store_Services\<close>: the stores behind SFTP, rclone, Redis, SQLite and S3; \<^verbatim>\<open>Store_Contracts\<close>: what
    they promise if the service does what its documentation says (the stores in databases as traces of a map of blocks, in which
    a call that fails may have been executed), and where they do not look at its answer.
  \<^item> \<^verbatim>\<open>Store_Repo\<close>: the key repository and the state repository on a directory, interpretations of \<^verbatim>\<open>key_env\<close> and \<^verbatim>\<open>state_env\<close>.

  \<^bold>\<open>The interfaces\<close> are locales, each interpreted on the model: \<^verbatim>\<open>id_allocator\<close>, \<^verbatim>\<open>data_store\<close>, \<^verbatim>\<open>reliable_store\<close>,
  \<^verbatim>\<open>chunker_impl\<close>, \<^verbatim>\<open>reader\<close>, and the environments \<^verbatim>\<open>repo_env\<close>, \<^verbatim>\<open>object_env\<close>, \<^verbatim>\<open>key_env\<close> and \<^verbatim>\<open>state_env\<close>, which extend
  each other from the store up to the state repository; \<^verbatim>\<open>digests\<close>, \<^verbatim>\<open>rel_path\<close> and \<^verbatim>\<open>bimap\<close> are what the upper layers ask of
  hash functions, relative paths and two-way maps; \<^verbatim>\<open>uuid_text\<close>, \<^verbatim>\<open>file_calls\<close>, \<^verbatim>\<open>file_server\<close>, \<^verbatim>\<open>redis_server\<close> and \<^verbatim>\<open>sqlite_db\<close>
  what the stores ask of the format of UUIDs, of files and of the services.  The further
  parameters of the upper layers are the serializers of entries and
  values, the constants and bit sets of the system (\<^verbatim>\<open>nix\<close>,
  \<^verbatim>\<open>exacl\<close>), the local file system that is archived, the clock, and the size of a reply.

  \<^bold>\<open>What the contracts assume.\<close>  The contracts of objects, repositories and files hold for repositories without packing
  (\<^verbatim>\<open>direct_inv\<close>; with packing reading back fails, \<^verbatim>\<open>packed_read_after_write_stale\<close>) on stores that do not fail, for data without
  collisions of the hash, while there are unused IDs and random UUIDs.  An operation that removes an object in which a chunk
  occurs twice may panic (\<^verbatim>\<open>repo_remove_panics_iff\<close>); the refinements of the key, value, version and file repositories say for which
  commands this is the other possible outcome.

  \<^bold>\<open>Not modelled.\<close>  The client libraries of the services and the services themselves are parameters.  The loop of the
  FUSE session, which calls the handlers one at a time, is in the library \<^verbatim>\<open>fuse-rs\<close>;
  how long the kernel may cache an attribute is a constant that no handler reads.  Formatting values for debugging
  is left out.  Concurrency
  is not modelled inside one repository, whose mutating operations take it exclusively; the locks of the code
  (write transactions, instances, repository locks) are part of the states.
\<close>

end
